(* ===== verification/Prelude.thy ===== *)
theory Prelude
  imports Main "HOL-Library.Word" "HOL-Library.Char_ord" "HOL-Library.List_Lexorder"
    "HOL-Library.Product_Lexorder" "HOL-Library.Multiset"
begin

text \<open>
  Shared vocabulary of the development.

  \<^item> Machine integers and byte arrays. \<open>byte\<close>, \<open>u32\<close>, \<open>u64\<close> are words; an \<open>i64\<close> is a
    64-bit word read with \<^const>\<open>sint\<close>. A \<open>[u8; 32]\<close> (a digest, a public key, a network or
    pointer identifier) is the 256-bit word whose big-endian bytes it holds: the derived
    lexicographic order of the array is the unsigned order of that word. A \<open>[u8; 64]\<close> is a
    512-bit word in the same way.
  \<^item> A \<open>String\<close> is the \<^typ>\<open>string\<close> of its UTF-8 bytes, one \<^typ>\<open>char\<close> per byte, ordered
    bytewise.
  \<^item> A \<open>Result\<close> is a sum (\<open>Inl\<close> the error). A reader in the style of \<open>Dec\<close> maps the unread
    bytes to an error or to a value and the bytes left unread.
  \<^item> A \<open>BTreeMap\<close> is the association list of its entries in ascending key order and a
    \<open>BTreeSet\<close> the ascending list of its elements, so iteration order is part of the value.
    The laws a client of a map uses are the locale \<open>ordered_map\<close>.
\<close>

section \<open>Types\<close>

type_synonym byte = "8 word"
type_synonym bytes = "8 word list"
type_synonym u8 = "8 word"
type_synonym u16 = "16 word"
type_synonym u32 = "32 word"
type_synonym u64 = "64 word"
type_synonym i64 = "64 word"
type_synonym b32 = "256 word"
type_synonym b64 = "512 word"
type_synonym ('k, 'v) btree_map = "('k \<times> 'v) list"
type_synonym 'k btree_set = "'k list"
type_synonym ('e, 'a) reader = "bytes \<Rightarrow> 'e + 'a \<times> bytes"

named_theorems codec_simps "reading back what the matching writer wrote"
named_theorems wf_simps "unfolding of well-formedness predicates"

text \<open>Saturating arithmetic on unsigned 64-bit integers.\<close>

definition saturating_add_u64 :: "u64 \<Rightarrow> u64 \<Rightarrow> u64" where
  "saturating_add_u64 a b = (if unat a + unat b < 2 ^ 64 then a + b else - 1)"

definition saturating_mul_u64 :: "u64 \<Rightarrow> u64 \<Rightarrow> u64" where
  "saturating_mul_u64 a b = (if unat a * unat b < 2 ^ 64 then a * b else - 1)"

lemma unat_bound: "unat (w :: 'a::len word) < 2 ^ LENGTH('a)"
  by (rule unsigned_less)

section \<open>Results\<close>

fun res_bind :: "'e + 'a \<Rightarrow> ('a \<Rightarrow> 'e + 'b) \<Rightarrow> 'e + 'b" where
  "res_bind (Inl e) f = Inl e"
| "res_bind (Inr x) f = f x"

definition ok_or :: "'e \<Rightarrow> 'a option \<Rightarrow> 'e + 'a" where
  "ok_or e v = (case v of None \<Rightarrow> Inl e | Some x \<Rightarrow> Inr x)"

definition check :: "bool \<Rightarrow> 'e \<Rightarrow> 'e + unit" where
  "check b e = (if b then Inr () else Inl e)"

lemma res_bind_Inr_iff: "res_bind m f = Inr y \<longleftrightarrow> (\<exists>x. m = Inr x \<and> f x = Inr y)"
  by (cases m) auto

lemma ok_or_simps [simp]: "ok_or e None = Inl e" "ok_or e (Some x) = Inr x"
  by (simp_all add: ok_or_def)

lemma ok_or_Inr_iff [simp]: "ok_or e v = Inr x \<longleftrightarrow> v = Some x"
  by (cases v) auto

lemma check_simps [simp]: "check True e = Inr ()" "check False e = Inl e"
  by (simp_all add: check_def)

lemma check_Inr_iff [simp]: "check b e = Inr u \<longleftrightarrow> b"
  by (simp add: check_def)

section \<open>Ordered sets\<close>

definition bs_ok :: "'k::linorder btree_set \<Rightarrow> bool" where
  "bs_ok s \<longleftrightarrow> sorted_wrt (<) s"

primrec bs_insert :: "'k::linorder \<Rightarrow> 'k btree_set \<Rightarrow> 'k btree_set" where
  "bs_insert k [] = [k]"
| "bs_insert k (a # s) =
     (if k < a then k # a # s else if k = a then a # s else a # bs_insert k s)"

definition bs_remove :: "'k::linorder \<Rightarrow> 'k btree_set \<Rightarrow> 'k btree_set" where
  "bs_remove k s = filter (\<lambda>a. a \<noteq> k) s"

definition bs_collect :: "'k::linorder list \<Rightarrow> 'k btree_set" where
  "bs_collect ks = fold bs_insert ks []"

lemma set_bs_insert [simp]: "set (bs_insert k s) = insert k (set s)"
  by (induction s) auto

lemma bs_ok_Nil [simp]: "bs_ok []"
  by (simp add: bs_ok_def)

lemma bs_ok_Cons [simp]: "bs_ok (a # s) \<longleftrightarrow> (\<forall>x\<in>set s. a < x) \<and> bs_ok s"
  by (simp add: bs_ok_def)

lemma bs_ok_insert [simp]: "bs_ok s \<Longrightarrow> bs_ok (bs_insert k s)"
  by (induction s) auto

lemma set_bs_remove [simp]: "set (bs_remove k s) = set s - {k}"
  by (auto simp: bs_remove_def)

lemma bs_ok_filter [simp]: "bs_ok s \<Longrightarrow> bs_ok (filter P s)"
  by (induction s) auto

lemma bs_ok_remove [simp]: "bs_ok s \<Longrightarrow> bs_ok (bs_remove k s)"
  by (simp add: bs_remove_def)

lemma bs_ok_distinct: "bs_ok s \<Longrightarrow> distinct s"
  by (induction s) auto

lemma bs_ok_sorted: "bs_ok s \<Longrightarrow> sorted s"
  by (induction s) (auto simp: less_imp_le)

lemma bs_ext: "bs_ok s \<Longrightarrow> bs_ok t \<Longrightarrow> set s = set t \<Longrightarrow> s = t"
  using sorted_distinct_set_unique bs_ok_sorted bs_ok_distinct by blast

lemma bs_collect_fold: "set (fold bs_insert ks s) = set ks \<union> set s"
  by (induction ks arbitrary: s) auto

lemma set_bs_collect [simp]: "set (bs_collect ks) = set ks"
  by (simp add: bs_collect_def bs_collect_fold)

lemma bs_ok_collect_fold: "bs_ok s \<Longrightarrow> bs_ok (fold bs_insert ks s)"
  by (induction ks arbitrary: s) auto

lemma bs_ok_collect [simp]: "bs_ok (bs_collect ks)"
  by (simp add: bs_collect_def bs_ok_collect_fold)

lemma bs_collect_id [simp]: "bs_ok s \<Longrightarrow> bs_collect s = s"
  by (rule bs_ext) simp_all

section \<open>Ordered maps\<close>

definition bm_ok :: "('k::linorder, 'v) btree_map \<Rightarrow> bool" where
  "bm_ok m \<longleftrightarrow> sorted_wrt (<) (map fst m)"

abbreviation bm_get :: "('k, 'v) btree_map \<Rightarrow> 'k \<Rightarrow> 'v option" where
  "bm_get \<equiv> map_of"

definition bm_contains :: "('k, 'v) btree_map \<Rightarrow> 'k \<Rightarrow> bool" where
  "bm_contains m k \<longleftrightarrow> bm_get m k \<noteq> None"

fun bm_insert :: "'k::linorder \<Rightarrow> 'v \<Rightarrow> ('k, 'v) btree_map \<Rightarrow> ('k, 'v) btree_map" where
  "bm_insert k v [] = [(k, v)]"
| "bm_insert k v ((a, b) # m) =
     (if k < a then (k, v) # (a, b) # m
      else if k = a then (k, v) # m
      else (a, b) # bm_insert k v m)"

definition bm_remove :: "'k::linorder \<Rightarrow> ('k, 'v) btree_map \<Rightarrow> ('k, 'v) btree_map" where
  "bm_remove k m = filter (\<lambda>p. fst p \<noteq> k) m"

definition bm_keys :: "('k, 'v) btree_map \<Rightarrow> 'k list" where
  "bm_keys m = map fst m"

definition bm_values :: "('k, 'v) btree_map \<Rightarrow> 'v list" where
  "bm_values m = map snd m"

definition bm_collect :: "('k::linorder \<times> 'v) list \<Rightarrow> ('k, 'v) btree_map" where
  "bm_collect ps = fold (\<lambda>(k, v). bm_insert k v) ps []"

lemma bm_get_insert [simp]: "bm_get (bm_insert k v m) = (bm_get m)(k \<mapsto> v)"
  by (induction k v m rule: bm_insert.induct) (auto simp: fun_eq_iff)

lemma keys_bm_insert [simp]: "fst ` set (bm_insert k v m) = insert k (fst ` set m)"
  by (induction k v m rule: bm_insert.induct) auto

lemma set_bm_insert_subset: "set (bm_insert k v m) \<subseteq> insert (k, v) (set m)"
  by (induction k v m rule: bm_insert.induct) auto

lemma bm_ok_Nil [simp]: "bm_ok []"
  by (simp add: bm_ok_def)

lemma bm_ok_Cons [simp]: "bm_ok (p # m) \<longleftrightarrow> (\<forall>x\<in>set m. fst p < fst x) \<and> bm_ok m"
  by (simp add: bm_ok_def)

lemma bm_ok_insert [simp]: "bm_ok m \<Longrightarrow> bm_ok (bm_insert k v m)"
proof (induction k v m rule: bm_insert.induct)
  case (2 k v a b m)
  have "\<forall>x\<in>set (bm_insert k v m). fst x = k \<or> x \<in> set m"
    using set_bm_insert_subset by fastforce
  then show ?case using 2 by fastforce
qed simp

lemma bm_get_remove [simp]: "bm_get (bm_remove k m) = (bm_get m)(k := None)"
  unfolding bm_remove_def by (induction m) (auto simp: fun_eq_iff)

lemma bm_ok_filter [simp]: "bm_ok m \<Longrightarrow> bm_ok (filter P m)"
  by (induction m) auto

lemma bm_ok_remove [simp]: "bm_ok m \<Longrightarrow> bm_ok (bm_remove k m)"
  by (simp add: bm_remove_def)

lemma bm_ok_distinct: "bm_ok m \<Longrightarrow> distinct (map fst m)"
  unfolding bm_ok_def using bs_ok_distinct by (auto simp: bs_ok_def)

lemma bm_ok_map_of: "bm_ok m \<Longrightarrow> bm_get m k = Some v \<longleftrightarrow> (k, v) \<in> set m"
  by (simp add: bm_ok_distinct)

lemma bm_ok_inj: "bm_ok m \<Longrightarrow> distinct m"
  using bm_ok_distinct distinct_map by blast

lemma bm_ext:
  assumes "bm_ok m" and "bm_ok n" and "bm_get m = bm_get n"
  shows "m = n"
proof (rule map_sorted_distinct_set_unique [where f = fst])
  have eq: "set m = set n"
    using assms bm_ok_map_of by (metis subset_antisym subrelI)
  then show "set m = set n" .
  show "inj_on fst (set m \<union> set n)"
    using eq bm_ok_distinct [OF assms(2)] by (simp add: distinct_map)
  show "sorted (map fst m)" "sorted (map fst n)"
    using assms(1,2) bs_ok_sorted by (auto simp: bm_ok_def bs_ok_def)
  show "distinct (map fst m)" "distinct (map fst n)"
    using assms(1,2) bm_ok_distinct by auto
qed

lemma set_bm_keys: "set (bm_keys m) = dom (bm_get m)"
  by (simp add: bm_keys_def dom_map_of_conv_image_fst)

lemma bs_ok_bm_keys [simp]: "bm_ok m \<Longrightarrow> bs_ok (bm_keys m)"
  by (simp add: bm_ok_def bs_ok_def bm_keys_def)

lemma set_bm_values: "bm_ok m \<Longrightarrow> v \<in> set (bm_values m) \<longleftrightarrow> (\<exists>k. bm_get m k = Some v)"
  by (force simp: bm_values_def bm_ok_map_of)

lemma bm_ok_collect_fold: "bm_ok m \<Longrightarrow> bm_ok (fold (\<lambda>(k, v). bm_insert k v) ps m)"
  by (induction ps arbitrary: m) auto

lemma bm_ok_collect [simp]: "bm_ok (bm_collect ps)"
  by (simp add: bm_collect_def bm_ok_collect_fold)

lemma bm_get_collect_fold:
  "distinct (map fst ps) \<Longrightarrow> bm_get (fold (\<lambda>(k, v). bm_insert k v) ps m) = bm_get m ++ bm_get ps"
proof (induction ps arbitrary: m)
  case (Cons p ps)
  obtain k v where p: "p = (k, v)" by (cases p)
  have "bm_get ps k = None"
    using Cons.prems p by (simp add: map_of_eq_None_iff)
  then show ?case
    using Cons p by (auto simp: fun_eq_iff map_add_def split: option.splits)
qed simp

lemma bm_collect_id [simp]: "bm_ok m \<Longrightarrow> bm_collect m = m"
  by (rule bm_ext)
    (simp_all add: bm_collect_def bm_get_collect_fold bm_ok_distinct bm_ok_collect_fold)

lemma length_bs_insert: "length (bs_insert k s) \<le> Suc (length s)"
  by (induction s) auto

lemma length_bs_collect_fold: "length (fold bs_insert ks s) \<le> length ks + length s"
proof (induction ks arbitrary: s)
  case (Cons k ks)
  show ?case
    using Cons.IH [of "bs_insert k s"] length_bs_insert [of k s] by simp
qed simp

lemma length_bs_collect: "length (bs_collect ks) \<le> length ks"
  using length_bs_collect_fold [of ks "[]"] by (simp add: bs_collect_def)

lemma length_bm_insert: "length (bm_insert k v m) \<le> Suc (length m)"
  by (induction k v m rule: bm_insert.induct) auto

lemma length_bm_insert_ge: "length m \<le> length (bm_insert k v m)"
  by (induction k v m rule: bm_insert.induct) auto

lemma set_map_filter: "set (List.map_filter f xs) = {y. \<exists>x. x \<in> set xs \<and> f x = Some y}"
  by (force simp: List.map_filter_def)

lemma bm_collect_fold_bounds:
  "length (fold (\<lambda>(k, v). bm_insert k v) ps m) \<le> length ps + length m
   \<and> set (fold (\<lambda>(k, v). bm_insert k v) ps m) \<subseteq> set ps \<union> set m"
proof (induction ps arbitrary: m)
  case (Cons p ps)
  obtain k v where p: "p = (k, v)"
    by (cases p)
  show ?case
    using Cons.IH [of "bm_insert k v m"] length_bm_insert [of k v m] set_bm_insert_subset [of k v m]
    by (auto simp: p)
qed simp

lemma length_bm_collect: "length (bm_collect ps) \<le> length ps"
  using bm_collect_fold_bounds [of ps "[]"] by (simp add: bm_collect_def)

lemma set_bm_collect_subset: "set (bm_collect ps) \<subseteq> set ps"
  using bm_collect_fold_bounds [of ps "[]"] by (simp add: bm_collect_def)

text \<open>Sums over the values of a map.\<close>

definition bm_sum :: "('v \<Rightarrow> nat) \<Rightarrow> ('k, 'v) btree_map \<Rightarrow> nat" where
  "bm_sum f m = sum_list (map f (bm_values m))"

lemma bm_sum_Cons [simp]: "bm_sum f [] = 0" "bm_sum f ((k, v) # m) = f v + bm_sum f m"
  by (simp_all add: bm_sum_def bm_values_def)

lemma bm_get_below:
  fixes k :: "'k::linorder"
  shows "\<forall>x\<in>set m. k < fst x \<Longrightarrow> bm_get m k = None"
  by (fastforce simp: map_of_eq_None_iff)

lemma bm_sum_insert:
  "bm_ok m \<Longrightarrow>
     bm_sum f (bm_insert k w m) + (case bm_get m k of None \<Rightarrow> 0 | Some v \<Rightarrow> f v) = bm_sum f m + f w"
proof (induction k w m rule: bm_insert.induct)
  case (2 k w l v m)
  then show ?case
    using bm_get_below [of m k] by (force split: option.splits)
qed simp

lemma bm_insert_nonempty [simp]: "bm_insert k v m \<noteq> []"
  by (induction k v m rule: bm_insert.induct) auto

lemma bm_get_filter:
  fixes m :: "('k::linorder, 'v) btree_map"
  assumes "bm_ok m"
  shows "bm_get (filter P m) k = (case bm_get m k of None \<Rightarrow> None | Some v \<Rightarrow> if P (k, v) then Some v else None)"
  using assms by (induction m) (auto simp: bm_get_below split: option.splits)

section \<open>The map interface\<close>

text \<open>
  What every client of a \<open>BTreeMap\<close> relies on: lookups after an insertion or a removal,
  preservation of the representation invariant, and canonicity (equal lookups, equal maps),
  which is what lets two nodes that stored the same entries in different orders hold equal
  values.
\<close>

locale ordered_map =
  fixes get :: "'m \<Rightarrow> 'k \<Rightarrow> 'v option"
    and ins :: "'k \<Rightarrow> 'v \<Rightarrow> 'm \<Rightarrow> 'm"
    and del :: "'k \<Rightarrow> 'm \<Rightarrow> 'm"
    and ok :: "'m \<Rightarrow> bool"
  assumes get_ins: "get (ins k v m) = (get m)(k \<mapsto> v)"
    and get_del: "get (del k m) = (get m)(k := None)"
    and ok_ins: "ok m \<Longrightarrow> ok (ins k v m)"
    and ok_del: "ok m \<Longrightarrow> ok (del k m)"
    and canonical: "ok m \<Longrightarrow> ok n \<Longrightarrow> get m = get n \<Longrightarrow> m = n"
begin

lemma ins_commute: "ok m \<Longrightarrow> k \<noteq> l \<Longrightarrow> ins k v (ins l w m) = ins l w (ins k v m)"
  by (rule canonical) (simp_all add: ok_ins get_ins fun_upd_twist)

lemma ins_same: "ok m \<Longrightarrow> ins k v (ins k w m) = ins k v m"
  by (rule canonical) (simp_all add: ok_ins get_ins)

lemma ins_present: "ok m \<Longrightarrow> get m k = Some v \<Longrightarrow> ins k v m = m"
  by (rule canonical) (auto simp: ok_ins get_ins)

lemma del_absent: "ok m \<Longrightarrow> get m k = None \<Longrightarrow> del k m = m"
  by (rule canonical) (auto simp: ok_del get_del)

lemma ok_fold: "ok m \<Longrightarrow> ok (fold (\<lambda>(k, v). ins k v) ps m)"
  by (induction ps arbitrary: m) (auto simp: ok_ins)

lemma get_fold:
  "get (fold (\<lambda>(k, v). ins k v) ps m) k =
     (case map_of (rev ps) k of None \<Rightarrow> get m k | Some v \<Rightarrow> Some v)"
  by (induction ps arbitrary: m) (auto simp: get_ins map_add_def split: option.splits)

text \<open>Storing entries whose keys determine their values is independent of the order.\<close>

lemma fold_order:
  assumes "ok m" and "set ps = set qs" and "\<forall>k v w. (k, v) \<in> set ps \<and> (k, w) \<in> set ps \<longrightarrow> v = w"
  shows "fold (\<lambda>(k, v). ins k v) ps m = fold (\<lambda>(k, v). ins k v) qs m"
proof (rule canonical)
  have fn: "map_of (rev xs) k = (if \<exists>v. (k, v) \<in> set ps then Some (THE v. (k, v) \<in> set ps) else None)"
    if "set xs = set ps" for xs k
  proof (cases "map_of (rev xs) k")
    case None
    then show ?thesis
      using that by (force simp: map_of_eq_None_iff)
  next
    case (Some v)
    then have "(k, v) \<in> set ps"
      using that map_of_SomeD by fastforce
    then show ?thesis
      using Some assms(3) by (auto intro!: the_equality [symmetric])
  qed
  show "get (fold (\<lambda>(k, v). ins k v) ps m) = get (fold (\<lambda>(k, v). ins k v) qs m)"
    using fn [of ps] fn [of qs] assms(2) by (simp add: get_fold fun_eq_iff)
qed (simp_all add: ok_fold assms(1))

end

interpretation bm: ordered_map bm_get bm_insert bm_remove bm_ok
  by unfold_locales (simp_all add: bm_ext)

end
