(* ===== verification/Codec.thy ===== *)
theory Codec
  imports Prelude
begin

text \<open>
  The canonical encoding of \<open>intranet-crypto\<close>: \<open>Enc\<close> (enc.rs) and \<open>Dec\<close> (dec.rs).

  An \<open>Enc\<close> is the byte list written so far and every method appends to it, so a method is
  modelled by the bytes it appends (\<open>put_\<dots>\<close>) and chaining is \<open>@\<close>. A \<open>Dec\<close> is a slice and a
  position; the model keeps the unread suffix, so \<open>remaining()\<close> is its length, and every
  method is a reader (\<open>dec_\<dots>\<close>). Lengths are \<open>u64\<close>, \<open>usize\<close> is taken to be 64 bits wide.

  The locale \<open>codec\<close> is the contract between a writer and its reader; \<open>exact_codec\<close> adds that the
  reader accepts nothing but what the writer produces. \<open>reads P f\<close> says that whatever the
  reader \<open>f\<close> accepts satisfies \<open>P\<close> and that it consumes a prefix of its input.
\<close>

section \<open>Writers\<close>

primrec be_bytes :: "nat \<Rightarrow> nat \<Rightarrow> bytes" where
  "be_bytes 0 n = []"
| "be_bytes (Suc k) n = be_bytes k (n div 256) @ [of_nat n]"

definition be_val :: "bytes \<Rightarrow> nat" where
  "be_val bs = foldl (\<lambda>a b. a * 256 + unat b) 0 bs"

definition str_bytes :: "string \<Rightarrow> bytes" where
  "str_bytes s = map (\<lambda>c. of_nat (of_char c)) s"

definition bytes_str :: "bytes \<Rightarrow> string" where
  "bytes_str bs = map (\<lambda>b. char_of (unat b)) bs"

definition put_u8 :: "u8 \<Rightarrow> bytes" where
  "put_u8 v = [v]"

definition put_u32 :: "u32 \<Rightarrow> bytes" where
  "put_u32 v = be_bytes 4 (unat v)"

definition put_u64 :: "u64 \<Rightarrow> bytes" where
  "put_u64 v = be_bytes 8 (unat v)"

definition put_i64 :: "i64 \<Rightarrow> bytes" where
  "put_i64 v = be_bytes 8 (unat v)"

definition put_bool :: "bool \<Rightarrow> bytes" where
  "put_bool v = put_u8 (if v then 1 else 0)"

definition put_variant :: "u8 \<Rightarrow> bytes" where
  "put_variant d = put_u8 d"

definition put_bytes :: "bytes \<Rightarrow> bytes" where
  "put_bytes b = put_u64 (of_nat (length b)) @ b"

definition put_str :: "string \<Rightarrow> bytes" where
  "put_str s = put_bytes (str_bytes s)"

definition put_fixed32 :: "b32 \<Rightarrow> bytes" where
  "put_fixed32 b = be_bytes 32 (unat b)"

definition put_fixed64 :: "b64 \<Rightarrow> bytes" where
  "put_fixed64 b = be_bytes 64 (unat b)"

definition put_option :: "('a \<Rightarrow> bytes) \<Rightarrow> 'a option \<Rightarrow> bytes" where
  "put_option f v = (case v of None \<Rightarrow> put_u8 0 | Some x \<Rightarrow> put_u8 1 @ f x)"

definition put_seq :: "('a \<Rightarrow> bytes) \<Rightarrow> 'a list \<Rightarrow> bytes" where
  "put_seq f xs = put_u64 (of_nat (length xs)) @ concat (map f xs)"

definition enc_domain :: "string \<Rightarrow> bytes" where
  "enc_domain tag = put_str tag"

section \<open>Readers\<close>

datatype decode_error =
    UnexpectedEnd nat nat
  | ImplausibleLength nat nat
  | UnknownVariant string u8
  | InvalidBool u8
  | InvalidUtf8
  | WrongDomain string
  | TrailingBytes nat

definition rret :: "'a \<Rightarrow> ('e, 'a) reader" where
  "rret x d = Inr (x, d)"

definition rfail :: "'e \<Rightarrow> ('e, 'a) reader" where
  "rfail e d = Inl e"

definition rbind :: "('e, 'a) reader \<Rightarrow> ('a \<Rightarrow> ('e, 'b) reader) \<Rightarrow> ('e, 'b) reader" where
  "rbind f g d = (case f d of Inl e \<Rightarrow> Inl e | Inr (x, r) \<Rightarrow> g x r)"

definition rlift :: "'e + 'a \<Rightarrow> ('e, 'a) reader" where
  "rlift m d = (case m of Inl e \<Rightarrow> Inl e | Inr x \<Rightarrow> Inr (x, d))"

definition rmap_err :: "('d \<Rightarrow> 'e) \<Rightarrow> ('d, 'a) reader \<Rightarrow> ('e, 'a) reader" where
  "rmap_err h f d = (case f d of Inl e \<Rightarrow> Inl (h e) | Inr p \<Rightarrow> Inr p)"

definition dec_take :: "nat \<Rightarrow> (decode_error, bytes) reader" where
  "dec_take n d =
     (if length d < n then Inl (UnexpectedEnd n (length d)) else Inr (take n d, drop n d))"

definition dec_u8 :: "(decode_error, u8) reader" where
  "dec_u8 = rbind (dec_take 1) (\<lambda>b. rret (b ! 0))"

definition dec_u32 :: "(decode_error, u32) reader" where
  "dec_u32 = rbind (dec_take 4) (\<lambda>b. rret (of_nat (be_val b)))"

definition dec_u64 :: "(decode_error, u64) reader" where
  "dec_u64 = rbind (dec_take 8) (\<lambda>b. rret (of_nat (be_val b)))"

definition dec_i64 :: "(decode_error, i64) reader" where
  "dec_i64 = rbind (dec_take 8) (\<lambda>b. rret (of_nat (be_val b)))"

definition dec_bool :: "(decode_error, bool) reader" where
  "dec_bool = rbind dec_u8 (\<lambda>v.
     if v = 0 then rret False else if v = 1 then rret True else rfail (InvalidBool v))"

definition dec_variant :: "(decode_error, u8) reader" where
  "dec_variant = dec_u8"

definition dec_length :: "(decode_error, nat) reader" where
  "dec_length = rbind dec_u64 (\<lambda>claimed d.
     if unat claimed > length d then Inl (ImplausibleLength (unat claimed) (length d))
     else Inr (unat claimed, d))"

definition dec_bytes :: "(decode_error, bytes) reader" where
  "dec_bytes = rbind dec_length dec_take"

text \<open>The standard library's \<open>from_utf8\<close>: the well-formed byte sequences of Unicode.\<close>

definition utf8_cont :: "byte \<Rightarrow> bool" where
  "utf8_cont b \<longleftrightarrow> 0x80 \<le> b \<and> b \<le> 0xBF"

fun utf8_ok :: "bytes \<Rightarrow> bool" where
  "utf8_ok [] = True"
| "utf8_ok (a # xs) =
     (if a < 0x80 then utf8_ok xs else
      case xs of [] \<Rightarrow> False | b # ys \<Rightarrow>
      if 0xC2 \<le> a \<and> a \<le> 0xDF then utf8_cont b \<and> utf8_ok ys else
      case ys of [] \<Rightarrow> False | c # zs \<Rightarrow>
      if a = 0xE0 then 0xA0 \<le> b \<and> b \<le> 0xBF \<and> utf8_cont c \<and> utf8_ok zs else
      if a = 0xED then 0x80 \<le> b \<and> b \<le> 0x9F \<and> utf8_cont c \<and> utf8_ok zs else
      if 0xE1 \<le> a \<and> a \<le> 0xEF then utf8_cont b \<and> utf8_cont c \<and> utf8_ok zs else
      case zs of [] \<Rightarrow> False | d # ws \<Rightarrow>
      if a = 0xF0 then 0x90 \<le> b \<and> b \<le> 0xBF \<and> utf8_cont c \<and> utf8_cont d \<and> utf8_ok ws else
      if a = 0xF4 then 0x80 \<le> b \<and> b \<le> 0x8F \<and> utf8_cont c \<and> utf8_cont d \<and> utf8_ok ws else
      if 0xF1 \<le> a \<and> a \<le> 0xF3 then utf8_cont b \<and> utf8_cont c \<and> utf8_cont d \<and> utf8_ok ws
      else False)"

definition dec_str :: "(decode_error, string) reader" where
  "dec_str = rbind dec_bytes (\<lambda>b. if utf8_ok b then rret (bytes_str b) else rfail InvalidUtf8)"

definition dec_fixed32 :: "(decode_error, b32) reader" where
  "dec_fixed32 = rbind (dec_take 32) (\<lambda>b. rret (of_nat (be_val b)))"

definition dec_fixed64 :: "(decode_error, b64) reader" where
  "dec_fixed64 = rbind (dec_take 64) (\<lambda>b. rret (of_nat (be_val b)))"

definition dec_option :: "(decode_error \<Rightarrow> 'e) \<Rightarrow> ('e, 'a) reader \<Rightarrow> ('e, 'a option) reader" where
  "dec_option from f = rbind (rmap_err from dec_u8) (\<lambda>t.
     if t = 0 then rret None
     else if t = 1 then rbind f (\<lambda>x. rret (Some x))
     else rfail (from (InvalidBool t)))"

primrec dec_items :: "('e, 'a) reader \<Rightarrow> nat \<Rightarrow> ('e, 'a list) reader" where
  "dec_items f 0 = rret []"
| "dec_items f (Suc n) = rbind f (\<lambda>x. rbind (dec_items f n) (\<lambda>xs. rret (x # xs)))"

definition dec_seq :: "(decode_error \<Rightarrow> 'e) \<Rightarrow> ('e, 'a) reader \<Rightarrow> ('e, 'a list) reader" where
  "dec_seq from f = rbind (rmap_err from dec_length) (\<lambda>count. dec_items f count)"

definition dec_domain :: "string \<Rightarrow> (decode_error, unit) reader" where
  "dec_domain tag = rbind dec_str (\<lambda>s. if s \<noteq> tag then rfail (WrongDomain tag) else rret ())"

definition dec_finish :: "(decode_error, unit) reader" where
  "dec_finish d = (if length d > 0 then Inl (TrailingBytes (length d)) else Inr ((), d))"

text \<open>A Rust \<open>String\<close> always holds valid UTF-8, and its length fits \<open>usize\<close>.\<close>

definition str_ok :: "string \<Rightarrow> bool" where
  "str_ok s \<longleftrightarrow> utf8_ok (str_bytes s) \<and> length s < 2 ^ 64"

definition len_ok :: "'a list \<Rightarrow> bool" where
  "len_ok xs \<longleftrightarrow> length xs < 2 ^ 64"

section \<open>Big-endian bytes\<close>

lemma length_be_bytes [simp]: "length (be_bytes k n) = k"
  by (induction k arbitrary: n) auto

lemma be_val_Nil [simp]: "be_val [] = 0"
  by (simp add: be_val_def)

lemma be_val_snoc [simp]: "be_val (bs @ [b]) = be_val bs * 256 + unat b"
  by (simp add: be_val_def)

lemma be_val_be_bytes [simp]: "n < 256 ^ k \<Longrightarrow> be_val (be_bytes k n) = n"
proof (induction k arbitrary: n)
  case (Suc k)
  then have "n div 256 < 256 ^ k"
    by (simp add: less_mult_imp_div_less mult.commute)
  then show ?case
    using Suc.IH by (simp add: unat_of_nat)
qed simp

lemma be_bytes_be_val [simp]: "be_bytes (length bs) (be_val bs) = bs"
proof (induction bs rule: rev_induct)
  case (snoc b bs)
  have "(be_val bs * 256 + unat b) div 256 = be_val bs"
    using unat_bound [of b] by simp
  moreover have "of_nat (be_val bs * 256 + unat b) = b"
    using unat_bound [of b] by (simp add: word_unat_eq_iff unat_word_ariths)
  ultimately show ?case
    using snoc.IH by simp
qed simp

lemma be_val_bound: "be_val bs < 256 ^ length bs"
proof (induction bs rule: rev_induct)
  case (snoc b bs)
  have "unat b < 256"
    using unat_bound [of b] by simp
  with snoc show ?case
    by (simp add: mult.commute)
qed simp

lemma be_word:
  assumes "LENGTH('a::len) = 8 * k"
  shows "of_nat (be_val (be_bytes k (unat v))) = (v :: 'a word)"
    and "length bs = k \<Longrightarrow> be_bytes k (unat (of_nat (be_val bs) :: 'a word)) = bs"
proof -
  have p: "(2::nat) ^ LENGTH('a) = 256 ^ k"
    by (simp add: assms power_mult)
  show "of_nat (be_val (be_bytes k (unat v))) = v"
    using unat_bound [of v] p by simp
  show "be_bytes k (unat (of_nat (be_val bs) :: 'a word)) = bs" if "length bs = k"
    using be_val_bound [of bs] that p be_bytes_be_val [of bs] by (simp add: unat_of_nat)
qed

lemma length_str_bytes [simp]: "length (str_bytes s) = length s"
  by (simp add: str_bytes_def)

lemma length_bytes_str [simp]: "length (bytes_str b) = length b"
  by (simp add: bytes_str_def)

lemma bytes_str_bytes [simp]: "bytes_str (str_bytes s) = s"
proof -
  have "char_of (unat (of_nat (of_char c) :: 8 word)) = c" for c
    by (simp add: unat_of_nat)
  then show ?thesis
    by (simp add: bytes_str_def str_bytes_def comp_def)
qed

lemma str_bytes_bytes [simp]: "str_bytes (bytes_str b) = b"
proof -
  have "of_nat (of_char (char_of (unat x) :: char)) = x" for x :: "8 word"
    using unat_bound [of x] by simp
  then show ?thesis
    by (simp add: bytes_str_def str_bytes_def comp_def)
qed

section \<open>Readers: sequencing\<close>

lemma rret_apply [simp]: "rret x d = Inr (x, d)"
  by (simp add: rret_def)

lemma rfail_apply [simp]: "rfail e d = Inl e"
  by (simp add: rfail_def)

lemma rlift_Inr [simp]: "rlift (Inr x) d = Inr (x, d)"
  by (simp add: rlift_def)

lemma rlift_eq_Inr [simp]: "rlift m d = Inr (x, r) \<longleftrightarrow> m = Inr x \<and> r = d"
  by (auto simp: rlift_def split: sum.splits)

lemma rbind_Inr: "f d = Inr (x, r) \<Longrightarrow> rbind f g d = g x r"
  by (simp add: rbind_def)

lemma rbind_Inl: "f d = Inl e \<Longrightarrow> rbind f g d = Inl e"
  by (simp add: rbind_def)

lemma rbind_eq_Inr:
  "rbind f g d = Inr (y, s) \<longleftrightarrow> (\<exists>x r. f d = Inr (x, r) \<and> g x r = Inr (y, s))"
  by (simp add: rbind_def split: sum.splits prod.splits)

lemma rmap_err_Inr [simp]: "rmap_err h f d = Inr p \<longleftrightarrow> f d = Inr p"
  by (simp add: rmap_err_def split: sum.splits)

lemma rmap_err_step: "f d = Inr p \<Longrightarrow> rmap_err h f d = Inr p"
  by simp

lemma dec_take_append [simp]: "length b = n \<Longrightarrow> dec_take n (b @ r) = Inr (b, r)"
  by (simp add: dec_take_def)

lemma dec_take_eq: "dec_take n d = Inr (b, r) \<longleftrightarrow> length b = n \<and> d = b @ r"
  by (auto simp: dec_take_def split: if_splits)

section \<open>What a reader accepts\<close>

definition reads :: "('a \<Rightarrow> bool) \<Rightarrow> ('e, 'a) reader \<Rightarrow> bool" where
  "reads P f \<longleftrightarrow> (\<forall>d x r. f d = Inr (x, r) \<longrightarrow> P x \<and> (\<exists>p. d = p @ r))"

named_theorems reads_intros "rules for what a reader accepts"

lemma readsD: "reads P f \<Longrightarrow> f d = Inr (x, r) \<Longrightarrow> P x"
  by (simp add: reads_def)

lemma reads_prefix: "reads P f \<Longrightarrow> f d = Inr (x, r) \<Longrightarrow> \<exists>p. d = p @ r"
  by (simp add: reads_def)

lemma reads_remaining: "reads P f \<Longrightarrow> f d = Inr (x, r) \<Longrightarrow> length r \<le> length d"
  by (drule (1) reads_prefix) auto

lemma reads_mono: "reads P f \<Longrightarrow> (\<And>x. P x \<Longrightarrow> Q x) \<Longrightarrow> reads Q f"
  by (simp add: reads_def)

lemma reads_rret [reads_intros]: "P x \<Longrightarrow> reads P (rret x)"
  by (simp add: reads_def)

lemma reads_rfail [reads_intros]: "reads P (rfail e)"
  by (simp add: reads_def)

lemma reads_rbind: "reads P f \<Longrightarrow> (\<And>x. P x \<Longrightarrow> reads Q (g x)) \<Longrightarrow> reads Q (rbind f g)"
  by (fastforce simp: reads_def rbind_eq_Inr)

lemma reads_rmap_err: "reads P f \<Longrightarrow> reads P (rmap_err h f)"
  by (simp add: reads_def)

lemma reads_if [reads_intros]:
  "(b \<Longrightarrow> reads P f) \<Longrightarrow> (\<not> b \<Longrightarrow> reads P g) \<Longrightarrow> reads P (if b then f else g)"
  by simp

lemma reads_items:
  "reads P f \<Longrightarrow> reads (\<lambda>xs. length xs = n \<and> list_all P xs) (dec_items f n)"
  by (induction n) (auto intro!: reads_rret elim!: reads_rbind)

lemma reads_take: "reads (\<lambda>b. length b = n) (dec_take n)"
  by (auto simp: reads_def dec_take_eq)

lemma reads_any_take: "reads (\<lambda>_. True) (dec_take n)"
  by (auto simp: reads_def dec_take_eq)

lemma reads_word: "reads (\<lambda>_. True) (rbind (dec_take n) (\<lambda>b. rret (h b)))"
  by (rule reads_rbind [OF reads_any_take]) (simp add: reads_rret)

lemma reads_prims:
  "reads (\<lambda>_. True) dec_u8" "reads (\<lambda>_. True) dec_u32" "reads (\<lambda>_. True) dec_u64"
  "reads (\<lambda>_. True) dec_i64" "reads (\<lambda>_. True) dec_fixed32" "reads (\<lambda>_. True) dec_fixed64"
  "reads (\<lambda>_. True) dec_variant"
  by (simp_all add: dec_u8_def dec_u32_def dec_u64_def dec_i64_def dec_fixed32_def
      dec_fixed64_def dec_variant_def reads_word)

lemma reads_bool: "reads (\<lambda>_. True) dec_bool"
  unfolding dec_bool_def by (rule reads_rbind [OF reads_prims(1)]) (auto simp: reads_def)

lemma reads_length: "reads (\<lambda>n. n < 2 ^ 64) dec_length"
  unfolding dec_length_def
proof (rule reads_rbind [OF reads_prims(3)])
  fix c :: u64
  show "reads (\<lambda>n. n < 2 ^ 64) (\<lambda>d. if length d < unat c
      then Inl (ImplausibleLength (unat c) (length d)) else Inr (unat c, d))"
    using unat_bound [of c] by (auto simp: reads_def)
qed

lemma reads_bytes: "reads len_ok dec_bytes"
  unfolding dec_bytes_def
  by (rule reads_rbind [OF reads_length]) (auto simp: len_ok_def intro: reads_mono [OF reads_take])

lemma reads_str: "reads str_ok dec_str"
  unfolding dec_str_def
  by (rule reads_rbind [OF reads_bytes]) (auto simp: reads_def str_ok_def len_ok_def)

lemma reads_option: "reads P f \<Longrightarrow> reads (pred_option P) (dec_option from f)"
  unfolding dec_option_def
  by (rule reads_rbind [OF reads_rmap_err [OF reads_prims(1)]])
    (auto intro!: reads_rret reads_rfail elim!: reads_rbind)

lemma reads_seq: "reads P f \<Longrightarrow> reads (\<lambda>xs. len_ok xs \<and> list_all P xs) (dec_seq from f)"
  unfolding dec_seq_def
  by (rule reads_rbind [OF reads_rmap_err [OF reads_length]])
    (auto simp: len_ok_def intro: reads_mono [OF reads_items])

lemma reads_domain: "reads (\<lambda>_. True) (dec_domain tag)"
  unfolding dec_domain_def by (rule reads_rbind [OF reads_str]) (auto simp: reads_def)

lemma reads_finish: "reads (\<lambda>_. True) dec_finish"
  by (auto simp: reads_def dec_finish_def split: if_splits)

section \<open>The contract between a writer and its reader\<close>

text \<open>
  \<open>put_nonempty\<close> is the assumption under which \<open>Dec::seq\<close> may bound its count by the bytes
  remaining: no encodable item occupies zero bytes.
\<close>

locale codec =
  fixes wf :: "'a \<Rightarrow> bool"
    and put :: "'a \<Rightarrow> bytes"
    and get :: "('e, 'a) reader"
  assumes get_put: "wf x \<Longrightarrow> get (put x @ r) = Inr (x, r)"
    and put_nonempty: "wf x \<Longrightarrow> put x \<noteq> []"
begin

lemma put_cancel: "wf x \<Longrightarrow> wf y \<Longrightarrow> put x @ r = put y @ s \<longleftrightarrow> x = y \<and> r = s"
  by (metis get_put sum.inject(2) prod.inject)

lemma put_inj: "wf x \<Longrightarrow> wf y \<Longrightarrow> put x = put y \<longleftrightarrow> x = y"
  using put_cancel [of x y "[]" "[]"] by simp

lemma get_put_nil: "wf x \<Longrightarrow> get (put x) = Inr (x, [])"
  using get_put [of x "[]"] by simp

lemma items_get_put:
  "list_all wf xs \<Longrightarrow> dec_items get (length xs) (concat (map put xs) @ r) = Inr (xs, r)"
  by (induction xs) (auto simp: rbind_def get_put)

lemma items_length: "list_all wf xs \<Longrightarrow> length xs \<le> length (concat (map put xs))"
proof (induction xs)
  case (Cons x xs)
  then have "0 < length (put x)"
    using put_nonempty by simp
  moreover have "length xs \<le> length (concat (map put xs))"
    using Cons by simp
  ultimately show ?case
    by (simp only: list.map concat.simps length_append list.size)
qed simp

end

locale exact_codec = codec +
  assumes get_exact: "get b = Inr (x, r) \<Longrightarrow> wf x \<and> b = put x @ r"
begin

lemma exact_reads: "reads wf get"
  using get_exact by (auto simp: reads_def)

lemma items_exact:
  "dec_items get n b = Inr (xs, r) \<Longrightarrow>
     list_all wf xs \<and> length xs = n \<and> b = concat (map put xs) @ r"
proof (induction n arbitrary: b xs)
  case (Suc n)
  then obtain x b' ys where "get b = Inr (x, b')" "dec_items get n b' = Inr (ys, r)" "xs = x # ys"
    by (auto simp: rbind_eq_Inr)
  with Suc.IH get_exact show ?case
    by fastforce
qed auto

end

text \<open>
  A reader that accepts more than the canonical bytes still accepts only well-formed values, so
  what it accepted survives being written and read again.
\<close>

locale checked_codec = codec +
  assumes accepts: "reads wf get"
begin

lemma reencode: "get b = Inr (x, r) \<Longrightarrow> get (put x @ s) = Inr (x, s)"
  using readsD [OF accepts] get_put by blast

end

sublocale exact_codec \<subseteq> checked_codec
  by unfold_locales (rule exact_reads)

section \<open>The primitives meet the contract\<close>

lemma exact_word:
  assumes "LENGTH('w::len) = 8 * k" and "0 < k"
  shows "exact_codec (\<lambda>_. True) (\<lambda>v :: 'w word. be_bytes k (unat v))
           (rbind (dec_take k) (\<lambda>b. rret (of_nat (be_val b))))"
proof
  fix x :: "'w word" and r
  show "rbind (dec_take k) (\<lambda>b. rret (of_nat (be_val b))) (be_bytes k (unat x) @ r) = Inr (x, r)"
    by (simp add: rbind_def be_word(1) [OF assms(1)])
  show "be_bytes k (unat x) \<noteq> []"
    using assms(2) length_be_bytes [of k "unat x"] by force
  fix b
  assume "rbind (dec_take k) (\<lambda>b. rret (of_nat (be_val b))) b = Inr (x, r)"
  then show "True \<and> b = be_bytes k (unat x) @ r"
    using be_word(2) [OF assms(1)] by (auto simp: rbind_eq_Inr dec_take_eq)
qed

interpretation u32: exact_codec "\<lambda>_. True" put_u32 dec_u32
  unfolding put_u32_def [abs_def] dec_u32_def by (rule exact_word) simp_all

interpretation u64: exact_codec "\<lambda>_. True" put_u64 dec_u64
  unfolding put_u64_def [abs_def] dec_u64_def by (rule exact_word) simp_all

interpretation i64: exact_codec "\<lambda>_. True" put_i64 dec_i64
  unfolding put_i64_def [abs_def] dec_i64_def by (rule exact_word) simp_all

interpretation fixed32: exact_codec "\<lambda>_. True" put_fixed32 dec_fixed32
  unfolding put_fixed32_def [abs_def] dec_fixed32_def by (rule exact_word) simp_all

interpretation fixed64: exact_codec "\<lambda>_. True" put_fixed64 dec_fixed64
  unfolding put_fixed64_def [abs_def] dec_fixed64_def by (rule exact_word) simp_all

interpretation u8: exact_codec "\<lambda>_. True" put_u8 dec_u8
  by unfold_locales
    (auto simp: put_u8_def dec_u8_def rbind_def dec_take_def neq_Nil_conv length_Suc_conv
      split: if_splits) 


interpretation variant: exact_codec "\<lambda>_. True" put_variant dec_variant
  unfolding put_variant_def [abs_def] dec_variant_def by (rule u8.exact_codec_axioms)

interpretation bool: exact_codec "\<lambda>_. True" put_bool dec_bool
proof
  fix x r
  show "dec_bool (put_bool x @ r) = Inr (x, r)"
    by (simp add: dec_bool_def put_bool_def rbind_def u8.get_put)
  show "put_bool x \<noteq> []"
    by (simp add: put_bool_def put_u8_def)
  fix b
  assume "dec_bool b = Inr (x, r)"
  then show "True \<and> b = put_bool x @ r"
    by (auto simp: dec_bool_def rbind_eq_Inr put_bool_def dest!: u8.get_exact split: if_splits)
qed

lemma dec_length_put:
  "n < 2 ^ 64 \<Longrightarrow> n \<le> length r \<Longrightarrow> dec_length (put_u64 (of_nat n) @ r) = Inr (n, r)"
  by (simp add: dec_length_def rbind_def u64.get_put unat_of_nat)

lemma dec_length_exact:
  "dec_length b = Inr (n, r) \<Longrightarrow> n < 2 ^ 64 \<and> n \<le> length r \<and> b = put_u64 (of_nat n) @ r"
proof -
  assume "dec_length b = Inr (n, r)"
  then obtain c where "dec_u64 b = Inr (c, r)" "n = unat c" "n \<le> length r"
    by (auto simp: dec_length_def rbind_eq_Inr split: if_splits)
  then show ?thesis
    using u64.get_exact [of b c r] unat_bound [of c] by simp
qed

interpretation bytes: exact_codec len_ok put_bytes dec_bytes
proof
  fix x :: bytes and r
  assume "len_ok x"
  then show "dec_bytes (put_bytes x @ r) = Inr (x, r)"
    by (simp add: dec_bytes_def put_bytes_def len_ok_def rbind_def dec_length_put)
  show "put_bytes x \<noteq> []"
    by (simp add: put_bytes_def u64.put_nonempty)
next
  fix b x r
  assume "dec_bytes b = Inr (x, r)"
  then show "len_ok x \<and> b = put_bytes x @ r"
    by (auto simp: dec_bytes_def rbind_eq_Inr dec_take_eq put_bytes_def len_ok_def
        dest!: dec_length_exact)
qed

interpretation str: exact_codec str_ok put_str dec_str
proof
  fix x r
  assume "str_ok x"
  then show "dec_str (put_str x @ r) = Inr (x, r)"
    by (simp add: dec_str_def put_str_def str_ok_def len_ok_def rbind_def bytes.get_put)
  show "put_str x \<noteq> []"
    by (simp add: put_str_def put_bytes_def u64.put_nonempty)
next
  fix b x r
  assume "dec_str b = Inr (x, r)"
  then show "str_ok x \<and> b = put_str x @ r"
    by (auto simp: dec_str_def rbind_eq_Inr put_str_def str_ok_def len_ok_def
        dest!: bytes.get_exact split: if_splits)
qed

lemma dec_domain_put: "str_ok tag \<Longrightarrow> dec_domain tag (enc_domain tag @ r) = Inr ((), r)"
  by (simp add: dec_domain_def enc_domain_def rbind_def str.get_put)

lemma dec_domain_exact: "dec_domain tag b = Inr (u, r) \<Longrightarrow> str_ok tag \<and> b = enc_domain tag @ r"
  by (auto simp: dec_domain_def enc_domain_def rbind_eq_Inr dest!: str.get_exact split: if_splits)

lemma dec_finish_Inr: "dec_finish d = Inr (u, r) \<longleftrightarrow> d = [] \<and> r = []"
  by (auto simp: dec_finish_def)

text \<open>Any reader of primitives lifted into a richer error type keeps the contract.\<close>

lemma codec_map_err: "codec ok put get \<Longrightarrow> codec ok put (rmap_err h get)"
  by (auto simp: codec_def)

lemma exact_map_err: "exact_codec ok put get \<Longrightarrow> exact_codec ok put (rmap_err h get)"
  by (auto simp: exact_codec_def exact_codec_axioms_def codec_map_err)

section \<open>Options and sequences\<close>

definition opt_ok :: "('a \<Rightarrow> bool) \<Rightarrow> 'a option \<Rightarrow> bool" where
  "opt_ok ok v \<longleftrightarrow> (case v of None \<Rightarrow> True | Some x \<Rightarrow> ok x)"

definition seq_ok :: "('a \<Rightarrow> bool) \<Rightarrow> 'a list \<Rightarrow> bool" where
  "seq_ok ok xs \<longleftrightarrow> len_ok xs \<and> list_all ok xs"

lemma opt_ok_simps [simp]: "opt_ok ok None" "opt_ok ok (Some x) = ok x"
  by (simp_all add: opt_ok_def)

lemma codec_option:
  assumes "codec ok put get"
  shows "codec (opt_ok ok) (put_option put) (dec_option from get)"
proof
  fix x r
  assume "opt_ok ok x"
  then show "dec_option from get (put_option put x @ r) = Inr (x, r)"
    using codec.get_put [OF assms]
    by (cases x) (simp_all add: dec_option_def put_option_def
        rbind_def rmap_err_def u8.get_put)
  show "put_option put x \<noteq> []"
    by (simp add: put_option_def put_u8_def split: option.split)
qed

lemma exact_option:
  assumes "exact_codec ok put get"
  shows "exact_codec (opt_ok ok) (put_option put) (dec_option from get)"
proof -
  have "opt_ok ok x \<and> b = put_option put x @ r" if "dec_option from get b = Inr (x, r)" for b x r
    using that exact_codec.get_exact [OF assms]
    by (auto simp: dec_option_def rbind_eq_Inr put_option_def dest!: u8.get_exact split: if_splits)
  with codec_option [OF exact_codec.axioms(1) [OF assms]] show ?thesis
    by (simp add: exact_codec_def exact_codec_axioms_def)
qed

lemma codec_seq:
  assumes "codec ok put get"
  shows "codec (seq_ok ok) (put_seq put) (dec_seq from get)"
proof
  fix xs r
  assume ok: "seq_ok ok xs"
  then have "length xs \<le> length (concat (map put xs) @ r)"
    using codec.items_length [OF assms, of xs] by (simp add: seq_ok_def)
  then show "dec_seq from get (put_seq put xs @ r) = Inr (xs, r)"
    using ok codec.items_get_put [OF assms, of xs r]
    by (simp add: dec_seq_def put_seq_def seq_ok_def len_ok_def
        rbind_def rmap_err_def dec_length_put)
  show "put_seq put xs \<noteq> []"
    by (simp add: put_seq_def u64.put_nonempty)
qed

lemma exact_seq:
  assumes "exact_codec ok put get"
  shows "exact_codec (seq_ok ok) (put_seq put) (dec_seq from get)"
proof -
  have "seq_ok ok xs \<and> b = put_seq put xs @ r" if "dec_seq from get b = Inr (xs, r)" for b xs r
    using that exact_codec.items_exact [OF assms]
    by (fastforce simp: dec_seq_def rbind_eq_Inr put_seq_def seq_ok_def len_ok_def
        dest!: dec_length_exact)
  with codec_seq [OF exact_codec.axioms(1) [OF assms]] show ?thesis
    by (simp add: exact_codec_def exact_codec_axioms_def)
qed

lemma checked_option:
  "checked_codec ok put get \<Longrightarrow> checked_codec (opt_ok ok) (put_option put) (dec_option from get)"
  unfolding checked_codec_def checked_codec_axioms_def
  using codec_option reads_option [of ok get "from"]
  by (auto simp: opt_ok_def pred_option_def elim!: reads_mono split: option.splits)

lemma checked_seq:
  "checked_codec ok put get \<Longrightarrow> checked_codec (seq_ok ok) (put_seq put) (dec_seq from get)"
  unfolding checked_codec_def checked_codec_axioms_def
  using codec_seq reads_seq [of ok get "from"] by (auto simp: seq_ok_def elim!: reads_mono)

lemma checked_map_err: "checked_codec ok put get \<Longrightarrow> checked_codec ok put (rmap_err h get)"
  by (auto simp: checked_codec_def checked_codec_axioms_def codec_map_err reads_rmap_err)

section \<open>Whole messages\<close>

text \<open>
  Every message starts with a domain tag and ends where its last field ends. The error type is the
  decoder's own; \<open>from\<close> embeds the errors of \<open>Dec\<close> into it.
\<close>

definition decode_whole ::
  "(decode_error \<Rightarrow> 'e) \<Rightarrow> string \<Rightarrow> ('e, 'a) reader \<Rightarrow> bytes \<Rightarrow> 'e + 'a" where
  "decode_whole from tag f b =
     (case rbind (rmap_err from (dec_domain tag))
         (\<lambda>_. rbind f (\<lambda>x. rbind (rmap_err from dec_finish) (\<lambda>_. rret x))) b of
        Inl err \<Rightarrow> Inl err | Inr (x, _) \<Rightarrow> Inr x)"

lemmas reader_simps = rbind_def rmap_err_def u8.get_put u32.get_put u64.get_put i64.get_put
  fixed32.get_put fixed64.get_put variant.get_put bool.get_put bytes.get_put str.get_put

lemmas nonempty_simps = u8.put_nonempty u32.put_nonempty u64.put_nonempty i64.put_nonempty
  fixed32.put_nonempty variant.put_nonempty str.put_nonempty

lemmas exact_dests = u8.get_exact u32.get_exact u64.get_exact i64.get_exact fixed32.get_exact
  fixed64.get_exact variant.get_exact bool.get_exact bytes.get_exact str.get_exact

lemmas reads_wire = reads_prims [THEN reads_rmap_err] reads_bool [THEN reads_rmap_err]
  reads_str [THEN reads_rmap_err] reads_bytes [THEN reads_rmap_err]

lemma reads_seq_ok: "reads P f \<Longrightarrow> reads (seq_ok P) (dec_seq from f)"
  by (rule reads_mono [OF reads_seq]) (auto simp: seq_ok_def)

lemma reads_opt_ok: "reads P f \<Longrightarrow> reads (opt_ok P) (dec_option from f)"
  by (rule reads_mono [OF reads_option]) (auto simp: opt_ok_def pred_option_def split: option.splits)

lemma whole_put:
  "checked_codec ok put get \<Longrightarrow> str_ok tag \<Longrightarrow> ok x \<Longrightarrow>
     decode_whole from tag get (enc_domain tag @ put x) = Inr x"
  using codec.get_put_nil [of ok put get x]
  by (simp add: checked_codec_def decode_whole_def rbind_def rmap_err_def dec_domain_put dec_finish_def)

lemma whole_reads: "reads ok get \<Longrightarrow> decode_whole from tag get b = Inr x \<Longrightarrow> ok x"
  by (auto simp: decode_whole_def rbind_eq_Inr split: sum.splits dest: readsD)

lemma whole_exact:
  "exact_codec ok put get \<Longrightarrow> decode_whole from tag get b = Inr x \<Longrightarrow> b = enc_domain tag @ put x"
  by (auto simp: decode_whole_def rbind_eq_Inr dec_finish_Inr split: sum.splits
      dest!: dec_domain_exact dest: exact_codec.get_exact)

lemma whole_iff:
  assumes "exact_codec ok put get" and "str_ok tag"
  shows "decode_whole from tag get b = Inr x \<longleftrightarrow> ok x \<and> b = enc_domain tag @ put x"
proof
  assume dec: "decode_whole from tag get b = Inr x"
  show "ok x \<and> b = enc_domain tag @ put x"
    using whole_exact [OF assms(1) dec] whole_reads [OF exact_codec.exact_reads [OF assms(1)] dec] by simp
next
  assume "ok x \<and> b = enc_domain tag @ put x"
  moreover have "codec ok put get"
    using assms(1) by (simp add: exact_codec_def)
  ultimately show "decode_whole from tag get b = Inr x"
    using codec.get_put_nil [of ok put get x] assms(2)
    by (simp add: decode_whole_def rbind_def rmap_err_def dec_domain_put dec_finish_def)
qed

text \<open>A message that is accepted only if it verifies.\<close>

definition decode_verified ::
  "(decode_error \<Rightarrow> 'e) \<Rightarrow> string \<Rightarrow> ('e, 'a) reader \<Rightarrow> ('a \<Rightarrow> 'e + unit) \<Rightarrow> bytes \<Rightarrow> 'e + 'a" where
  "decode_verified from tag f verify b =
     res_bind (decode_whole from tag f b) (\<lambda>x. res_bind (verify x) (\<lambda>_. Inr x))"

lemma verified_iff:
  "exact_codec ok put get \<Longrightarrow> str_ok tag \<Longrightarrow>
     decode_verified from tag get verify b = Inr x \<longleftrightarrow>
       ok x \<and> verify x = Inr () \<and> b = enc_domain tag @ put x"
  by (auto simp: decode_verified_def res_bind_Inr_iff whole_iff)

text \<open>Nested messages: each is length prefixed and decoded on its own.\<close>

fun decode_each :: "('b \<Rightarrow> 'e + 'a) \<Rightarrow> 'b list \<Rightarrow> 'e + 'a list" where
  "decode_each f [] = Inr []"
| "decode_each f (b # bs) = res_bind (f b) (\<lambda>x. res_bind (decode_each f bs) (\<lambda>xs. Inr (x # xs)))"

lemma decode_each_iff: "decode_each f bs = Inr xs \<longleftrightarrow> list_all2 (\<lambda>b x. f b = Inr x) bs xs"
  by (induction bs arbitrary: xs) (auto simp: res_bind_Inr_iff list_all2_Cons1)

lemma decode_each_exact:
  assumes "\<And>b x. f b = Inr x \<longleftrightarrow> P x \<and> b = enc x"
  shows "decode_each f bs = Inr xs \<longleftrightarrow> list_all P xs \<and> bs = map enc xs"
  unfolding decode_each_iff assms
  by (induction xs arbitrary: bs) (auto simp: list_all2_Cons2)

lemma put_seq_map: "put_seq (\<lambda>e. f (g e)) xs = put_seq f (map g xs)"
  by (simp add: put_seq_def comp_def)

lemma blobs_exact: "exact_codec (seq_ok len_ok) (put_seq put_bytes) (dec_seq from (rmap_err from dec_bytes))"
  by (intro exact_seq exact_map_err bytes.exact_codec_axioms)

end
