(* ===== verification/Crypto.thy ===== *)
theory Crypto
  imports Codec
begin

text \<open>
  The primitives of \<open>intranet-crypto\<close>: hash.rs, sign.rs, time.rs and the hex helpers of lib.rs.

  BLAKE3 and Ed25519 are third-party code: the record \<open>crypto\<close> carries them as functions, and
  every definition that hashes, signs or verifies takes it as its first argument. What the code
  relies on is stated as named hypotheses: \<open>sign_correct\<close> (a signature verifies under its own
  public key, and a public key is a valid point) and \<open>no_collision\<close> (the digest does not collide
  on a given set of inputs; a finite set in every use, since a 32-byte digest cannot be
  injective everywhere).

  Timestamps are \<open>i64\<close>: 64-bit words compared by \<^const>\<open>sint\<close>. Subtraction wraps, as a release
  build does; \<open>saturating_add\<close> is written out.
\<close>

section \<open>Primitives\<close>

record crypto =
  blake3 :: "bytes \<Rightarrow> b32"
  key_valid :: "b32 \<Rightarrow> bool"
  ed_public :: "b32 \<Rightarrow> b32"
  ed_sign :: "b32 \<Rightarrow> bytes \<Rightarrow> b64"
  ed_verify :: "b32 \<Rightarrow> bytes \<Rightarrow> b64 \<Rightarrow> bool"

definition sign_correct :: "crypto \<Rightarrow> bool" where
  "sign_correct C \<longleftrightarrow>
     (\<forall>sk m. ed_verify C (ed_public C sk) m (ed_sign C sk m) \<and> key_valid C (ed_public C sk))"

definition no_collision :: "crypto \<Rightarrow> bytes set \<Rightarrow> bool" where
  "no_collision C S \<longleftrightarrow> inj_on (blake3 C) S"

datatype crypto_error = MalformedPublicKey | BadSignature

definition hash_bytes :: "crypto \<Rightarrow> bytes \<Rightarrow> b32" where
  "hash_bytes C b = blake3 C b"

definition hash_enc :: "crypto \<Rightarrow> bytes \<Rightarrow> b32" where
  "hash_enc C e = hash_bytes C e"

definition verifying_key_from_bytes :: "crypto \<Rightarrow> b32 \<Rightarrow> crypto_error + b32" where
  "verifying_key_from_bytes C b = (if key_valid C b then Inr b else Inl MalformedPublicKey)"

definition vk_verify :: "crypto \<Rightarrow> b32 \<Rightarrow> bytes \<Rightarrow> b64 \<Rightarrow> crypto_error + unit" where
  "vk_verify C k message signature =
     (if \<not> key_valid C k then Inl MalformedPublicKey
      else if ed_verify C k message signature then Inr () else Inl BadSignature)"

section \<open>Merkle roots\<close>

definition merkle_node :: "crypto \<Rightarrow> b32 \<Rightarrow> b32 \<Rightarrow> b32" where
  "merkle_node C a b =
     hash_enc C (enc_domain ''intranet.merkle.node.v1'' @ put_fixed32 a @ put_fixed32 b)"

fun merkle_level :: "crypto \<Rightarrow> b32 list \<Rightarrow> b32 list" where
  "merkle_level C (a # b # rest) = merkle_node C a b # merkle_level C rest"
| "merkle_level C [a] = [a]"
| "merkle_level C [] = []"

lemma length_merkle_level [simp]: "length (merkle_level C xs) = (length xs + 1) div 2"
  by (induction C xs rule: merkle_level.induct) auto

function merkle_loop :: "crypto \<Rightarrow> b32 list \<Rightarrow> b32" where
  "merkle_loop C level =
     (if length level > 1 then merkle_loop C (merkle_level C level) else level ! 0)"
  by pat_completeness auto
termination
  by (relation "measure (\<lambda>(C, level). length level)") auto

declare merkle_loop.simps [simp del]

definition merkle_root :: "crypto \<Rightarrow> b32 list \<Rightarrow> b32" where
  "merkle_root C leaves = (if leaves = [] then 0 else merkle_loop C leaves)"

section \<open>Time\<close>

definition i64_max :: int where
  "i64_max = 2 ^ 63 - 1"

definition i64_min :: int where
  "i64_min = - (2 ^ 63)"

definition saturating_add_i64 :: "i64 \<Rightarrow> i64 \<Rightarrow> i64" where
  "saturating_add_i64 a b =
     (let s = sint a + sint b in
      if s > i64_max then of_int i64_max else if s < i64_min then of_int i64_min else of_int s)"

definition millis_since :: "i64 \<Rightarrow> i64 \<Rightarrow> i64" where
  "millis_since self earlier = self - earlier"

definition plus_millis :: "i64 \<Rightarrow> i64 \<Rightarrow> i64" where
  "plus_millis self millis = saturating_add_i64 self millis"

section \<open>Hexadecimal rendering\<close>

definition hex_digit :: "nat \<Rightarrow> char" where
  "hex_digit n = (if n < 10 then char_of (48 + n) else char_of (87 + n))"

definition to_hex :: "bytes \<Rightarrow> string" where
  "to_hex bs = concat (map (\<lambda>b. [hex_digit (unat b div 16), hex_digit (unat b mod 16)]) bs)"

definition short :: "b32 \<Rightarrow> string" where
  "short k = to_hex (take 4 (be_bytes 32 (unat k)))"

section \<open>Lemmas\<close>

lemma vk_verify_Inr: "vk_verify C k m s = Inr u \<longleftrightarrow> key_valid C k \<and> ed_verify C k m s"
  by (simp add: vk_verify_def)

lemma sign_verifies: "sign_correct C \<Longrightarrow> vk_verify C (ed_public C sk) m (ed_sign C sk m) = Inr ()"
  by (simp add: sign_correct_def vk_verify_def)

lemma domain_cancel:
  "str_ok t \<Longrightarrow> str_ok u \<Longrightarrow> enc_domain t @ x = enc_domain u @ y \<longleftrightarrow> t = u \<and> x = y"
  by (simp add: enc_domain_def str.put_cancel)

text \<open>The bytes hashed at the interior nodes while a level is folded.\<close>

fun merkle_inputs :: "crypto \<Rightarrow> b32 list \<Rightarrow> bytes set" where
  "merkle_inputs C (a # b # rest) =
     insert (enc_domain ''intranet.merkle.node.v1'' @ put_fixed32 a @ put_fixed32 b)
       (merkle_inputs C rest)"
| "merkle_inputs C _ = {}"

function merkle_all_inputs :: "crypto \<Rightarrow> b32 list \<Rightarrow> bytes set" where
  "merkle_all_inputs C level =
     (if length level > 1 then merkle_inputs C level \<union> merkle_all_inputs C (merkle_level C level)
      else {})"
  by pat_completeness auto
termination
  by (relation "measure (\<lambda>(C, level). length level)") auto

declare merkle_all_inputs.simps [simp del]

lemma merkle_level_inj:
  assumes "no_collision C (merkle_inputs C xs \<union> merkle_inputs C ys)"
    and "length xs = length ys" and "merkle_level C xs = merkle_level C ys"
  shows "xs = ys"
  using assms
proof (induction C xs arbitrary: ys rule: merkle_level.induct)
  case (1 C a b rest)
  then obtain a' b' rest' where ys: "ys = a' # b' # rest'"
    by (metis (no_types) Suc_length_conv length_Cons)
  have "enc_domain ''intranet.merkle.node.v1'' @ put_fixed32 a @ put_fixed32 b =
      enc_domain ''intranet.merkle.node.v1'' @ put_fixed32 a' @ put_fixed32 b'"
    using "1.prems"(3) unfolding ys
    by (intro inj_onD [OF "1.prems"(1) [unfolded no_collision_def]])
      (simp_all add: merkle_node_def hash_enc_def hash_bytes_def ys)
  then have "a = a'" "b = b'"
    by (simp_all add: fixed32.put_cancel fixed32.put_inj)
  moreover have "rest = rest'"
    using "1.prems" unfolding ys
    by (intro "1.IH") (auto simp: no_collision_def elim!: inj_on_subset)
  ultimately show ?case
    using ys by simp
next
  case (2 C a)
  then show ?case
    by (cases ys) auto
qed simp

lemma merkle_loop_inj:
  assumes "no_collision C (merkle_all_inputs C xs \<union> merkle_all_inputs C ys)"
    and "length xs = length ys" and "xs \<noteq> []" and "merkle_loop C xs = merkle_loop C ys"
  shows "xs = ys"
  using assms
proof (induction C xs arbitrary: ys rule: merkle_loop.induct)
  case (1 C xs)
  show ?case
  proof (cases "length xs > 1")
    case True
    then have inputs: "merkle_all_inputs C xs = merkle_inputs C xs \<union> merkle_all_inputs C (merkle_level C xs)"
      "merkle_all_inputs C ys = merkle_inputs C ys \<union> merkle_all_inputs C (merkle_level C ys)"
      using "1.prems"(2) by (simp_all add: merkle_all_inputs.simps [of C xs] merkle_all_inputs.simps [of C ys])
    have "merkle_level C xs = merkle_level C ys"
    proof (rule "1.IH" [OF True])
      show "no_collision C (merkle_all_inputs C (merkle_level C xs) \<union>
          merkle_all_inputs C (merkle_level C ys))"
        using "1.prems"(1) unfolding inputs no_collision_def by (auto elim!: inj_on_subset)
      show "merkle_level C xs \<noteq> []"
        using True by (simp flip: length_0_conv)
      show "merkle_loop C (merkle_level C xs) = merkle_loop C (merkle_level C ys)"
        using "1.prems"(2,4) True by (simp add: merkle_loop.simps [of C xs] merkle_loop.simps [of C ys])
    qed (use "1.prems"(2) in simp)
    moreover have "no_collision C (merkle_inputs C xs \<union> merkle_inputs C ys)"
      using "1.prems"(1) unfolding inputs no_collision_def by (auto elim!: inj_on_subset)
    ultimately show ?thesis
      using "1.prems"(2) merkle_level_inj by blast
  next
    case False
    then obtain x y where "xs = [x]" "ys = [y]"
      using "1.prems"(2,3) by (cases xs; cases ys) auto
    then show ?thesis
      using "1.prems"(4) by (simp add: merkle_loop.simps [of C "[x]"] merkle_loop.simps [of C "[y]"])
  qed
qed

lemma millis_since_exact:
  assumes "i64_min \<le> sint a - sint b" and "sint a - sint b \<le> i64_max"
  shows "sint (millis_since a b) = sint a - sint b"
  using assms unfolding millis_since_def i64_min_def i64_max_def
  by (simp add: signed_take_bit_int_eq_self sint_word_ariths)

section \<open>Public keys on the wire\<close>

text \<open>Every decoder refuses a key that is not a valid point; the error is the decoder's own.\<close>

definition dec_key :: "crypto \<Rightarrow> (decode_error \<Rightarrow> 'e) \<Rightarrow> 'e \<Rightarrow> ('e, b32) reader" where
  "dec_key C from invalid =
     rbind (rmap_err from dec_fixed32) (\<lambda>k.
       case verifying_key_from_bytes C k of Inl _ \<Rightarrow> rfail invalid | Inr k \<Rightarrow> rret k)"

lemma exact_key: "exact_codec (key_valid C) put_fixed32 (dec_key C from invalid)"
proof
  fix x :: b32 and r
  assume "key_valid C x"
  then show "dec_key C from invalid (put_fixed32 x @ r) = Inr (x, r)"
    by (simp add: dec_key_def verifying_key_from_bytes_def reader_simps)
  show "put_fixed32 x \<noteq> []"
    by (rule fixed32.put_nonempty) simp
next
  fix b x r
  assume "dec_key C from invalid b = Inr (x, r)"
  then show "key_valid C x \<and> b = put_fixed32 x @ r"
    by (auto simp: dec_key_def verifying_key_from_bytes_def rbind_eq_Inr dest!: fixed32.get_exact
        split: if_splits)
qed

end
