(* ===== verification/Identity.thy ===== *)
theory Identity
  imports Crypto
begin

text \<open>
  The identity layer: seed.rs (per-network key derivation and identities), device.rs (device
  certificates and revocations) and linking.rs (common-ownership proofs).

  A network identifier, a public key and a secret key are 32-byte arrays. SLIP-0010 derivation
  is third-party code and a parameter (\<open>slip10\<close>); so are BIP-39 mnemonics, which only turn
  entropy into the expanded seed the derivation starts from.
\<close>

section \<open>Identities\<close>

record per_network_identity =
  pni_network :: b32
  pni_secret :: b32

definition pni_id :: "crypto \<Rightarrow> per_network_identity \<Rightarrow> b32" where
  "pni_id C i = ed_public C (pni_secret i)"

definition pni_sign :: "crypto \<Rightarrow> per_network_identity \<Rightarrow> bytes \<Rightarrow> b64" where
  "pni_sign C i message = ed_sign C (pni_secret i) message"

text \<open>The derivation path: the digest's first sixteen bytes as four 31-bit indices.\<close>

definition path_index :: "bytes \<Rightarrow> nat \<Rightarrow> u32" where
  "path_index digest i =
     and (of_nat (be_val (take 4 (drop (i * 4) digest)))) 0x7fffffff"

definition derivation_path :: "crypto \<Rightarrow> b32 \<Rightarrow> string \<Rightarrow> u32 list" where
  "derivation_path C network purpose =
     (let e = enc_domain ''intranet.derive.v1'' @ put_fixed32 network @ put_str purpose;
          digest = be_bytes 32 (unat (hash_bytes C e))
      in map (path_index digest) [0, 1, 2, 3])"

definition derive_key_bytes ::
  "crypto \<Rightarrow> (bytes \<Rightarrow> u32 list \<Rightarrow> b32) \<Rightarrow> bytes \<Rightarrow> b32 \<Rightarrow> string \<Rightarrow> b32" where
  "derive_key_bytes C slip10 expanded_seed network purpose =
     slip10 expanded_seed (derivation_path C network purpose)"

definition identity_for ::
  "crypto \<Rightarrow> (bytes \<Rightarrow> u32 list \<Rightarrow> b32) \<Rightarrow> bytes \<Rightarrow> b32 \<Rightarrow> per_network_identity" where
  "identity_for C slip10 expanded network =
     \<lparr>pni_network = network,
      pni_secret = derive_key_bytes C slip10 expanded network ''identity''\<rparr>"

definition key_for ::
  "crypto \<Rightarrow> (bytes \<Rightarrow> u32 list \<Rightarrow> b32) \<Rightarrow> bytes \<Rightarrow> b32 \<Rightarrow> per_network_identity" where
  "key_for C slip10 expanded network =
     \<lparr>pni_network = network,
      pni_secret = derive_key_bytes C slip10 expanded network ''device''\<rparr>"

section \<open>Errors\<close>

datatype identity_error =
    IdBadSignature string
  | IdNetworkMismatch string string
  | IdMalformed string decode_error
  | IdInvalidKey string

section \<open>Device certificates\<close>

record device_certificate =
  dc_network :: b32
  dc_identity :: b32
  dc_device :: b32
  dc_label :: string
  dc_issued_at :: i64
  dc_signature :: b64

definition dc_payload :: "b32 \<Rightarrow> b32 \<Rightarrow> b32 \<Rightarrow> string \<Rightarrow> i64 \<Rightarrow> bytes" where
  "dc_payload network identity device label issued_at =
     enc_domain ''intranet.device-certificate.v1''
       @ put_fixed32 network @ put_fixed32 identity @ put_fixed32 device
       @ put_str label @ put_i64 issued_at"

definition dc_issue ::
  "crypto \<Rightarrow> per_network_identity \<Rightarrow> b32 \<Rightarrow> string \<Rightarrow> i64 \<Rightarrow> device_certificate" where
  "dc_issue C identity device label issued_at =
     \<lparr>dc_network = pni_network identity, dc_identity = pni_id C identity, dc_device = device,
      dc_label = label, dc_issued_at = issued_at,
      dc_signature = pni_sign C identity
        (dc_payload (pni_network identity) (pni_id C identity) device label issued_at)\<rparr>"

definition dc_verify :: "crypto \<Rightarrow> device_certificate \<Rightarrow> identity_error + unit" where
  "dc_verify C c =
     (case vk_verify C (dc_identity c)
         (dc_payload (dc_network c) (dc_identity c) (dc_device c) (dc_label c) (dc_issued_at c))
         (dc_signature c)
      of Inl _ \<Rightarrow> Inl (IdBadSignature ''device certificate'') | Inr u \<Rightarrow> Inr u)"

definition dc_verify_for_network ::
  "crypto \<Rightarrow> device_certificate \<Rightarrow> b32 \<Rightarrow> identity_error + unit" where
  "dc_verify_for_network C c network =
     (if dc_network c \<noteq> network
      then Inl (IdNetworkMismatch (short (dc_network c)) (short network))
      else dc_verify C c)"

record device_revocation =
  dr_network :: b32
  dr_identity :: b32
  dr_device :: b32
  dr_revoked_at :: i64
  dr_signature :: b64

definition dr_payload :: "b32 \<Rightarrow> b32 \<Rightarrow> b32 \<Rightarrow> i64 \<Rightarrow> bytes" where
  "dr_payload network identity device revoked_at =
     enc_domain ''intranet.device-revocation.v1''
       @ put_fixed32 network @ put_fixed32 identity @ put_fixed32 device @ put_i64 revoked_at"

definition dr_issue ::
  "crypto \<Rightarrow> per_network_identity \<Rightarrow> b32 \<Rightarrow> i64 \<Rightarrow> device_revocation" where
  "dr_issue C identity device revoked_at =
     \<lparr>dr_network = pni_network identity, dr_identity = pni_id C identity, dr_device = device,
      dr_revoked_at = revoked_at,
      dr_signature = pni_sign C identity
        (dr_payload (pni_network identity) (pni_id C identity) device revoked_at)\<rparr>"

definition dr_verify :: "crypto \<Rightarrow> device_revocation \<Rightarrow> identity_error + unit" where
  "dr_verify C r =
     (case vk_verify C (dr_identity r)
         (dr_payload (dr_network r) (dr_identity r) (dr_device r) (dr_revoked_at r))
         (dr_signature r)
      of Inl _ \<Rightarrow> Inl (IdBadSignature ''device certificate revocation'') | Inr u \<Rightarrow> Inr u)"

section \<open>Common-ownership proofs\<close>

type_synonym link_side = "b32 \<times> b32"

definition put_side :: "link_side \<Rightarrow> bytes" where
  "put_side s = put_fixed32 (fst s) @ put_fixed32 (snd s)"

definition link_what :: string where
  "link_what = ''common ownership proof''"

definition get_side :: "crypto \<Rightarrow> (identity_error, link_side) reader" where
  "get_side C =
     rbind (rmap_err (IdMalformed link_what) dec_fixed32) (\<lambda>network.
     rbind (rmap_err (IdMalformed link_what) dec_fixed32) (\<lambda>k.
       if key_valid C k then rret (network, k) else rfail (IdInvalidKey link_what)))"

record ownership_proof =
  op_first :: link_side
  op_second :: link_side
  op_first_signature :: b64
  op_second_signature :: b64

definition op_payload :: "link_side \<Rightarrow> link_side \<Rightarrow> bytes" where
  "op_payload a b = enc_domain ''intranet.common-ownership.v1'' @ put_side a @ put_side b"

definition op_create :: "crypto \<Rightarrow> per_network_identity \<Rightarrow> per_network_identity \<Rightarrow> ownership_proof" where
  "op_create C a b =
     (let side_a = (pni_network a, pni_id C a); side_b = (pni_network b, pni_id C b);
          (p, q, pk, qk) = (if side_a \<le> side_b then (side_a, side_b, a, b) else (side_b, side_a, b, a));
          payload = op_payload p q
      in \<lparr>op_first = p, op_second = q,
          op_first_signature = pni_sign C pk payload, op_second_signature = pni_sign C qk payload\<rparr>)"

definition op_verify :: "crypto \<Rightarrow> ownership_proof \<Rightarrow> identity_error + unit" where
  "op_verify C p =
     (let payload = op_payload (op_first p) (op_second p) in
      case vk_verify C (snd (op_first p)) payload (op_first_signature p) of
        Inl _ \<Rightarrow> Inl (IdBadSignature ''common ownership proof (first side)'')
      | Inr _ \<Rightarrow>
          (case vk_verify C (snd (op_second p)) payload (op_second_signature p) of
             Inl _ \<Rightarrow> Inl (IdBadSignature ''common ownership proof (second side)'')
           | Inr u \<Rightarrow> Inr u))"

definition op_encode :: "ownership_proof \<Rightarrow> bytes" where
  "op_encode p =
     enc_domain ''intranet.wire.common-ownership.v1'' @ put_side (op_first p) @ put_side (op_second p)
       @ put_fixed64 (op_first_signature p) @ put_fixed64 (op_second_signature p)"

definition op_reader :: "crypto \<Rightarrow> (identity_error, ownership_proof) reader" where
  "op_reader C =
     rbind (rmap_err (IdMalformed link_what) (dec_domain ''intranet.wire.common-ownership.v1'')) (\<lambda>_.
     rbind (get_side C) (\<lambda>a.
     rbind (get_side C) (\<lambda>b.
     rbind (rmap_err (IdMalformed link_what) dec_fixed64) (\<lambda>sa.
     rbind (rmap_err (IdMalformed link_what) dec_fixed64) (\<lambda>sb.
     rbind (rmap_err (IdMalformed link_what) dec_finish) (\<lambda>_.
       rret \<lparr>op_first = a, op_second = b, op_first_signature = sa, op_second_signature = sb\<rparr>))))))"

definition op_decode :: "crypto \<Rightarrow> bytes \<Rightarrow> identity_error + ownership_proof" where
  "op_decode C b =
     (case op_reader C b of
        Inl e \<Rightarrow> Inl e
      | Inr (p, _) \<Rightarrow> (case op_verify C p of Inl e \<Rightarrow> Inl e | Inr _ \<Rightarrow> Inr p))"

section \<open>Lemmas\<close>

lemma dc_verify_Inr:
  "dc_verify C c = Inr u \<longleftrightarrow>
     key_valid C (dc_identity c) \<and>
     ed_verify C (dc_identity c)
       (dc_payload (dc_network c) (dc_identity c) (dc_device c) (dc_label c) (dc_issued_at c))
       (dc_signature c)"
  by (auto simp: dc_verify_def vk_verify_def)

lemma dr_verify_Inr:
  "dr_verify C r = Inr u \<longleftrightarrow>
     key_valid C (dr_identity r) \<and>
     ed_verify C (dr_identity r)
       (dr_payload (dr_network r) (dr_identity r) (dr_device r) (dr_revoked_at r)) (dr_signature r)"
  by (auto simp: dr_verify_def vk_verify_def)

lemma dc_verify_for_network_Inr:
  "dc_verify_for_network C c n = Inr u \<longleftrightarrow> dc_network c = n \<and> dc_verify C c = Inr u"
  by (simp add: dc_verify_for_network_def)

lemma op_verify_Inr:
  "op_verify C p = Inr u \<longleftrightarrow>
     vk_verify C (snd (op_first p)) (op_payload (op_first p) (op_second p)) (op_first_signature p) = Inr () \<and>
     vk_verify C (snd (op_second p)) (op_payload (op_first p) (op_second p)) (op_second_signature p) = Inr ()"
  by (auto simp: op_verify_def Let_def split: sum.splits)

interpretation side: exact_codec "\<lambda>s. key_valid C (snd s)" put_side "get_side C" for C
proof
  fix x :: link_side and r
  assume "key_valid C (snd x)"
  then show "get_side C (put_side x @ r) = Inr (x, r)"
    by (simp add: get_side_def put_side_def rbind_def rmap_err_def fixed32.get_put)
  show "put_side x \<noteq> []"
    by (simp add: put_side_def fixed32.put_nonempty)
next
  fix b x r
  assume "get_side C b = Inr (x, r)"
  then show "key_valid C (snd x) \<and> b = put_side x @ r"
    by (auto simp: get_side_def rbind_eq_Inr put_side_def dest!: fixed32.get_exact split: if_splits)
qed

lemma str_ok_literals:
  "str_ok ''intranet.wire.common-ownership.v1''"
  by (simp add: str_ok_def str_bytes_def)

lemma op_reader_encode:
  "key_valid C (snd (op_first p)) \<Longrightarrow> key_valid C (snd (op_second p)) \<Longrightarrow>
     op_reader C (op_encode p) = Inr (p, [])"
  using fixed64.get_put [of "op_second_signature p" "[]"]
  by (simp add: op_reader_def op_encode_def rbind_def rmap_err_def dec_domain_put str_ok_literals
      side.get_put fixed64.get_put dec_finish_def)

lemma op_reader_exact: "op_reader C b = Inr (p, r) \<Longrightarrow> b = op_encode p \<and> r = []"
  by (auto simp: op_reader_def rbind_eq_Inr op_encode_def dec_finish_Inr
      dest!: dec_domain_exact side.get_exact fixed64.get_exact)

end
