(* ===== verification/Governance_Base.thy ===== *)
theory Governance_Base
  imports Identity "HOL-Library.Sublist"
begin

text \<open>
  The data of \<open>intranet-governance\<close> below the log: capability.rs, policy.rs, group.rs, error.rs
  and the membership provenance of entry.rs.

  The derived order of \<open>Capability\<close> (variant first, then payload) is the \<open>linorder\<close> instance
  below; it fixes the iteration order of every capability set.
\<close>

section \<open>Capabilities\<close>

datatype tier = Ordinary | Governance

datatype capability =
    ApproveNode
  | RevokeNode
  | DefineGroup
  | DefinePolicy
  | DefineContentPolicy
  | ModerateContent
  | AuditReputation
  | ReadContent
  | ManageMembership string
  | Publish string
  | Extension string

fun cap_key :: "capability \<Rightarrow> nat \<times> string" where
  "cap_key ApproveNode = (0, [])"
| "cap_key RevokeNode = (1, [])"
| "cap_key DefineGroup = (2, [])"
| "cap_key DefinePolicy = (3, [])"
| "cap_key DefineContentPolicy = (4, [])"
| "cap_key ModerateContent = (5, [])"
| "cap_key AuditReputation = (6, [])"
| "cap_key ReadContent = (7, [])"
| "cap_key (ManageMembership g) = (8, g)"
| "cap_key (Publish t) = (9, t)"
| "cap_key (Extension n) = (10, n)"

lemma cap_key_inj: "cap_key a = cap_key b \<Longrightarrow> a = b"
  by (cases a; cases b) auto

instantiation capability :: linorder
begin

definition less_eq_capability :: "capability \<Rightarrow> capability \<Rightarrow> bool" where
  "less_eq_capability a b \<longleftrightarrow> cap_key a \<le> cap_key b"

definition less_capability :: "capability \<Rightarrow> capability \<Rightarrow> bool" where
  "less_capability a b \<longleftrightarrow> cap_key a < cap_key b"

instance
  by standard
    (auto simp: less_eq_capability_def less_capability_def less_le_not_le intro: cap_key_inj)

end

definition register_app_name :: string where
  "register_app_name = ''register-app-name''"

definition reclaim_app_name :: string where
  "reclaim_app_name = ''reclaim-app-name''"

fun intrinsic_tier :: "capability \<Rightarrow> tier option" where
  "intrinsic_tier ReadContent = Some Ordinary"
| "intrinsic_tier (Publish _) = Some Ordinary"
| "intrinsic_tier (ManageMembership _) = None"
| "intrinsic_tier (Extension _) = None"
| "intrinsic_tier _ = Some Governance"

fun put_capability :: "capability \<Rightarrow> bytes" where
  "put_capability ApproveNode = put_variant 0"
| "put_capability RevokeNode = put_variant 1"
| "put_capability DefineGroup = put_variant 2"
| "put_capability DefinePolicy = put_variant 3"
| "put_capability DefineContentPolicy = put_variant 4"
| "put_capability ModerateContent = put_variant 5"
| "put_capability AuditReputation = put_variant 6"
| "put_capability ReadContent = put_variant 7"
| "put_capability (ManageMembership g) = put_variant 8 @ put_str g"
| "put_capability (Publish t) = put_variant 9 @ put_str t"
| "put_capability (Extension n) = put_variant 10 @ put_str n"

datatype capability_set = CapAll | CapExplicit "capability btree_set"

fun grants :: "capability_set \<Rightarrow> capability \<Rightarrow> bool" where
  "grants CapAll c = True"
| "grants (CapExplicit s) c = (c \<in> set s)"

fun put_capability_set :: "capability_set \<Rightarrow> bytes" where
  "put_capability_set CapAll = put_variant 0"
| "put_capability_set (CapExplicit s) = put_variant 1 @ put_seq put_capability s"

section \<open>Policy\<close>

definition starter_content_types :: "string btree_set" where
  "starter_content_types = bs_collect [''text'', ''image'', ''video'', ''audio'', ''app-bundle'']"

datatype admission_mode = AutoAdmit | ExplicitIntake

datatype history_access = CurrentEpochForward | FullHistory

datatype governance_model = CapabilityHolders | MemberVote string u32 i64

record finality_params =
  fp_k :: u32
  fp_t_millis :: i64

definition finality_default :: finality_params where
  "finality_default = \<lparr>fp_k = 10, fp_t_millis = 30 * 60000\<rparr>"

definition params_is_final :: "finality_params \<Rightarrow> u32 \<Rightarrow> i64 \<Rightarrow> bool" where
  "params_is_final p depth age_millis \<longleftrightarrow>
     depth \<ge> fp_k p \<and> sint age_millis \<ge> sint (fp_t_millis p)"

datatype policy_value = PvInt i64 | PvText string | PvFlag bool

fun put_policy_value :: "policy_value \<Rightarrow> bytes" where
  "put_policy_value (PvInt v) = put_variant 0 @ put_i64 v"
| "put_policy_value (PvText v) = put_variant 1 @ put_str v"
| "put_policy_value (PvFlag v) = put_variant 2 @ put_bool v"

definition split_once :: "char \<Rightarrow> string \<Rightarrow> (string \<times> string) option" where
  "split_once c s =
     (if c \<in> set s then Some (takeWhile (\<lambda>x. x \<noteq> c) s, tl (dropWhile (\<lambda>x. x \<noteq> c) s)) else None)"

definition is_valid_app_policy_key :: "string \<Rightarrow> bool" where
  "is_valid_app_policy_key key =
     (case split_once CHR '':'' key of
        Some (namespace, name) \<Rightarrow> namespace \<noteq> [] \<and> name \<noteq> []
      | None \<Rightarrow> False)"

definition max_bootstrap_relays :: nat where
  "max_bootstrap_relays = 8"

definition max_relay_address_bytes :: nat where
  "max_relay_address_bytes = 256"

record network_policy =
  admission_mode :: admission_mode
  governance_model :: governance_model
  history_access :: history_access
  content_type_allowlist :: "string btree_set"
  extension_capabilities :: "(string, tier) btree_map"
  finality :: finality_params
  replication_factor :: u16
  mesh_relay_threshold :: u8
  app_policy :: "(string, policy_value) btree_map"
  bootstrap_relays :: "string list"
  target_chunk_size :: u32

definition conservative_default :: network_policy where
  "conservative_default =
     \<lparr>admission_mode = ExplicitIntake, governance_model = CapabilityHolders,
      history_access = CurrentEpochForward, content_type_allowlist = starter_content_types,
      extension_capabilities = [], finality = finality_default, replication_factor = 3,
      mesh_relay_threshold = 4, app_policy = [], bootstrap_relays = [],
      target_chunk_size = 32 * 1024\<rparr>"

definition policy_allows_content_type :: "network_policy \<Rightarrow> string \<Rightarrow> bool" where
  "policy_allows_content_type p t \<longleftrightarrow> t \<in> set (content_type_allowlist p)"

fun as_int :: "policy_value \<Rightarrow> i64 option" where
  "as_int (PvInt v) = Some v"
| "as_int _ = None"

fun as_text :: "policy_value \<Rightarrow> string option" where
  "as_text (PvText v) = Some v"
| "as_text _ = None"

definition app_policy_int :: "network_policy \<Rightarrow> string \<Rightarrow> i64 \<Rightarrow> i64" where
  "app_policy_int p key dflt =
     (case Option.bind (bm_get (app_policy p) key) as_int of None \<Rightarrow> dflt | Some v \<Rightarrow> v)"

definition app_policy_text :: "network_policy \<Rightarrow> string \<Rightarrow> string \<Rightarrow> string" where
  "app_policy_text p key dflt =
     (case Option.bind (bm_get (app_policy p) key) as_text of None \<Rightarrow> dflt | Some v \<Rightarrow> v)"

text \<open>\<open>Iterator::max_by_key\<close>: the last of the elements whose key is maximal.\<close>

definition max_by_key :: "('a \<Rightarrow> 'b::linorder) \<Rightarrow> 'a list \<Rightarrow> 'a option" where
  "max_by_key f xs =
     (case xs of [] \<Rightarrow> None
      | x # ys \<Rightarrow> Some (foldl (\<lambda>best y. if f best \<le> f y then y else best) x ys))"

definition ends_with_separator :: "string \<Rightarrow> bool" where
  "ends_with_separator s \<longleftrightarrow> s \<noteq> [] \<and> last s = CHR '':''"

definition extension_tier :: "network_policy \<Rightarrow> string \<Rightarrow> tier option" where
  "extension_tier p name =
     (case bm_get (extension_capabilities p) name of
        Some t \<Rightarrow> Some t
      | None \<Rightarrow>
          map_option snd
            (max_by_key (\<lambda>(registered, _). length registered)
              (filter (\<lambda>(registered, _). ends_with_separator registered \<and> prefix registered name)
                (extension_capabilities p))))"

fun put_tier :: "tier \<Rightarrow> bytes" where
  "put_tier Ordinary = put_u8 0"
| "put_tier Governance = put_u8 1"

fun put_governance_model :: "governance_model \<Rightarrow> bytes" where
  "put_governance_model CapabilityHolders = put_variant 0"
| "put_governance_model (MemberVote electorate quorum window_millis) =
     put_variant 1 @ put_str electorate @ put_u32 quorum @ put_i64 window_millis"

definition put_policy :: "network_policy \<Rightarrow> bytes" where
  "put_policy p =
     (case admission_mode p of AutoAdmit \<Rightarrow> put_variant 0 | ExplicitIntake \<Rightarrow> put_variant 1)
     @ put_governance_model (governance_model p)
     @ (case history_access p of CurrentEpochForward \<Rightarrow> put_variant 0 | FullHistory \<Rightarrow> put_variant 1)
     @ put_seq put_str (content_type_allowlist p)
     @ put_seq (\<lambda>(name, t). put_str name @ put_tier t) (extension_capabilities p)
     @ put_seq (\<lambda>(key, value). put_str key @ put_policy_value value) (app_policy p)
     @ put_seq put_str (bootstrap_relays p)
     @ put_u32 (fp_k (finality p)) @ put_i64 (fp_t_millis (finality p))
     @ put_u32 (ucast (replication_factor p)) @ put_u8 (mesh_relay_threshold p)
     @ put_u32 (target_chunk_size p)"

section \<open>Groups\<close>

definition founders_id :: string where
  "founders_id = ''Founders''"

definition everyone_id :: string where
  "everyone_id = ''everyone''"

record invite_provenance =
  ip_invite_id :: b32
  ip_issuer :: b32

definition put_provenance :: "invite_provenance \<Rightarrow> bytes" where
  "put_provenance p = put_fixed32 (ip_invite_id p) @ put_fixed32 (ip_issuer p)"

record membership_record =
  added_by :: "b32 option"
  added_at :: i64
  via_invite :: "invite_provenance option"

record group =
  g_id :: string
  g_capabilities :: capability_set
  g_members :: "(b32, membership_record) btree_map"

definition new_group :: "string \<Rightarrow> capability_set \<Rightarrow> group" where
  "new_group i caps = \<lparr>g_id = i, g_capabilities = caps, g_members = []\<rparr>"

definition group_contains :: "group \<Rightarrow> b32 \<Rightarrow> bool" where
  "group_contains g identity \<longleftrightarrow> bm_contains (g_members g) identity"

definition put_membership :: "b32 \<times> membership_record \<Rightarrow> bytes" where
  "put_membership p =
     put_fixed32 (fst p) @ put_option put_fixed32 (added_by (snd p)) @ put_i64 (added_at (snd p))
       @ put_option put_provenance (via_invite (snd p))"

definition put_group :: "group \<Rightarrow> bytes" where
  "put_group g =
     put_str (g_id g) @ put_capability_set (g_capabilities g) @ put_seq put_membership (g_members g)"

section \<open>Errors\<close>

text \<open>\<open>Unreachable\<close> is the panic of an \<open>unreachable!()\<close>; no operation returns it.\<close>

datatype governance_error =
    ExpectedGenesis
  | UnexpectedGenesis
  | UnknownParent b32
  | MissingParent
  | IncoherentPolicy
  | Unauthorized string capability
  | NotAMember string
  | UnknownGroup string
  | UnregisteredExtensionCapability string
  | EveryoneGovernanceTier capability
  | EveryoneUnrestricted
  | EntryBadSignature
  | BadDeviceRecord identity_error
  | DeviceRecordAuthorMismatch string string
  | NetworkMismatch string string
  | NotInGroup string string
  | InvalidQuorumCertificate string
  | Unreachable

section \<open>Well-formedness\<close>

text \<open>What the Rust types guarantee: valid UTF-8 strings, ordered containers, \<open>usize\<close> lengths.\<close>

fun cap_ok :: "capability \<Rightarrow> bool" where
  "cap_ok (ManageMembership g) = str_ok g"
| "cap_ok (Publish t) = str_ok t"
| "cap_ok (Extension n) = str_ok n"
| "cap_ok _ = True"

definition cap_list_ok :: "capability btree_set \<Rightarrow> bool" where
  "cap_list_ok s \<longleftrightarrow> bs_ok s \<and> seq_ok cap_ok s"

fun cap_set_ok :: "capability_set \<Rightarrow> bool" where
  "cap_set_ok CapAll = True"
| "cap_set_ok (CapExplicit s) = cap_list_ok s"

fun model_ok :: "governance_model \<Rightarrow> bool" where
  "model_ok CapabilityHolders = True"
| "model_ok (MemberVote e _ _) = str_ok e"

fun value_ok :: "policy_value \<Rightarrow> bool" where
  "value_ok (PvText v) = str_ok v"
| "value_ok _ = True"

definition policy_ok :: "network_policy \<Rightarrow> bool" where
  "policy_ok p \<longleftrightarrow>
     model_ok (governance_model p)
     \<and> bs_ok (content_type_allowlist p) \<and> seq_ok str_ok (content_type_allowlist p)
     \<and> bm_ok (extension_capabilities p)
     \<and> seq_ok (\<lambda>q. str_ok (fst q)) (extension_capabilities p)
     \<and> bm_ok (app_policy p)
     \<and> seq_ok (\<lambda>q. str_ok (fst q) \<and> value_ok (snd q)) (app_policy p)
     \<and> seq_ok str_ok (bootstrap_relays p)"

definition group_ok :: "group \<Rightarrow> bool" where
  "group_ok g \<longleftrightarrow> cap_set_ok (g_capabilities g) \<and> bm_ok (g_members g)"

section \<open>The namespace registry\<close>

text \<open>
  What a registration covers: itself, and, when it ends at a separator, every name beneath it.
\<close>

definition covers :: "string \<Rightarrow> string \<Rightarrow> bool" where
  "covers registered name \<longleftrightarrow>
     registered = name \<or> ends_with_separator registered \<and> prefix registered name"

lemma covers_length: "covers r n \<Longrightarrow> length r \<le> length n"
  by (auto simp: covers_def prefix_length_le)

lemma covers_same_length: "covers r n \<Longrightarrow> covers s n \<Longrightarrow> length r = length s \<Longrightarrow> r = s"
  by (auto simp: covers_def prefix_def append_eq_append_conv)

lemma foldl_max_in:
  "foldl (\<lambda>best y. if f best \<le> f y then y else best) x ys \<in> set (x # ys)"
  by (induction ys arbitrary: x) (fastforce split: if_splits)+

lemma foldl_max_ge:
  fixes f :: "'a \<Rightarrow> 'b::linorder"
  shows "y \<in> set (x # ys) \<Longrightarrow>
     f y \<le> f (foldl (\<lambda>best y. if f best \<le> f y then y else best) x ys)"
proof (induction ys arbitrary: x y)
  case (Cons z ys)
  let ?x = "if f x \<le> f z then z else x"
  have "f ?x \<le> f (foldl (\<lambda>best y. if f best \<le> f y then y else best) ?x ys)"
    by (rule Cons.IH) simp
  moreover have "f x \<le> f ?x" "f z \<le> f ?x"
    by auto
  moreover have "f y \<le> f (foldl (\<lambda>best y. if f best \<le> f y then y else best) ?x ys)"
    if "y \<in> set ys"
    using that by (intro Cons.IH) simp
  ultimately show ?case
    using Cons.prems by auto
qed simp

lemma max_by_key_Some:
  fixes f :: "'a \<Rightarrow> 'b::linorder"
  assumes "max_by_key f xs = Some m"
  shows "m \<in> set xs" and "x \<in> set xs \<Longrightarrow> f x \<le> f m"
proof -
  obtain a ys where xs: "xs = a # ys"
    and m: "m = foldl (\<lambda>best y. if f best \<le> f y then y else best) a ys"
    using assms by (auto simp: max_by_key_def split: list.splits)
  show "m \<in> set xs"
    using foldl_max_in [of f a ys] by (simp only: xs m)
  show "f x \<le> f m" if "x \<in> set xs"
    using foldl_max_ge [of x a ys f] that by (simp only: xs m)
qed

lemma max_by_key_None [simp]: "max_by_key f xs = None \<longleftrightarrow> xs = []"
  by (simp add: max_by_key_def split: list.split)

lemma extension_tier_iff:
  assumes ok: "bm_ok (extension_capabilities p)"
  shows "extension_tier p name = Some t \<longleftrightarrow>
    (\<exists>r. (r, t) \<in> set (extension_capabilities p) \<and> covers r name
       \<and> (\<forall>r' t'. (r', t') \<in> set (extension_capabilities p) \<and> covers r' name \<longrightarrow> length r' \<le> length r))"
    (is "_ \<longleftrightarrow> (\<exists>r. ?best r t)")
proof -
  let ?E = "extension_capabilities p"
  have unique: "?best r t \<Longrightarrow> ?best r' t' \<Longrightarrow> t = t'" for r r' t t'
    using covers_same_length [of r name r'] bm_ok_map_of [OF ok] by (metis le_antisym option.inject)
  have found: "\<exists>r. ?best r u" if u: "extension_tier p name = Some u" for u
  proof (cases "bm_get ?E name")
    case (Some v)
    have "u = v"
      using u Some by (simp add: extension_tier_def)
    moreover have "(name, v) \<in> set ?E"
      using Some bm_ok_map_of [OF ok] by simp
    ultimately have "?best name u"
      using covers_length by (auto simp: covers_def)
    then show ?thesis ..
  next
    case None
    let ?F = "filter (\<lambda>(r, _). ends_with_separator r \<and> prefix r name) ?E"
    obtain m where m: "max_by_key (\<lambda>(r, _). length r) ?F = Some m" "snd m = u"
      using u None by (auto simp: extension_tier_def)
    have "(r, v) \<in> set ?E \<Longrightarrow> covers r name \<Longrightarrow> (r, v) \<in> set ?F" for r v
      using None bm_ok_map_of [OF ok, of r v] by (auto simp: covers_def)
    then have "?best (fst m) u"
      using max_by_key_Some(1) [OF m(1)] max_by_key_Some(2) [OF m(1)] m(2)
      by (fastforce simp: covers_def)
    then show ?thesis ..
  qed
  have some: "\<exists>u. extension_tier p name = Some u" if best: "?best r t" for r t
  proof (cases "bm_get ?E name")
    case None
    then have "(r, t) \<in> set (filter (\<lambda>(r, _). ends_with_separator r \<and> prefix r name) ?E)"
      using best bm_ok_map_of [OF ok, of r t] by (auto simp: covers_def)
    then show ?thesis
      using None max_by_key_None [of "\<lambda>(r, _). length r"
          "filter (\<lambda>(r, _). ends_with_separator r \<and> prefix r name) ?E"]
      by (fastforce simp: extension_tier_def)
  qed (simp add: extension_tier_def)
  show ?thesis
  proof
    assume "extension_tier p name = Some t"
    then show "\<exists>r. ?best r t"
      by (rule found)
  next
    assume "\<exists>r. ?best r t"
    then obtain r where r: "?best r t" ..
    then obtain u where u: "extension_tier p name = Some u"
      using some by blast
    then obtain r' where "?best r' u"
      using found by blast
    then have "t = u"
      by (rule unique [OF r])
    then show "extension_tier p name = Some t"
      using u by simp
  qed
qed

end
