(* ===== verification/Vote.thy ===== *)
theory Vote
  imports Governance_Base
begin

text \<open>
  The member-vote quorum mechanism, vote.rs: proposals over a frozen electorate, signed ballots,
  and quorum certificates (\<open>VoteProposal::open\<close> needs the governance state and is in the theory
  \<open>State\<close>). Approvals are counted in a \<open>u32\<close>.
\<close>

section \<open>Proposals and ballots\<close>

datatype vote_outcome = Passed | Failed

record vote_proposal =
  vp_subject :: b32
  vp_electorate :: string
  vp_snapshot :: "b32 btree_set"
  vp_snapshot_ref :: b32
  vp_close_time :: i64
  vp_quorum :: u32

definition put_proposal :: "vote_proposal \<Rightarrow> bytes" where
  "put_proposal p =
     put_fixed32 (vp_subject p) @ put_str (vp_electorate p) @ put_seq put_fixed32 (vp_snapshot p)
       @ put_fixed32 (vp_snapshot_ref p) @ put_i64 (vp_close_time p) @ put_u32 (vp_quorum p)"

definition vote_id :: "crypto \<Rightarrow> vote_proposal \<Rightarrow> b32" where
  "vote_id C p = hash_bytes C (enc_domain ''intranet.vote-proposal.v1'' @ put_proposal p)"

record ballot =
  bl_vote_id :: b32
  bl_voter :: b32
  bl_approve :: bool
  bl_cast_at :: i64
  bl_signature :: b64

definition ballot_payload :: "b32 \<Rightarrow> b32 \<Rightarrow> bool \<Rightarrow> i64 \<Rightarrow> bytes" where
  "ballot_payload vid voter approve cast_at =
     enc_domain ''intranet.ballot.v1'' @ put_fixed32 vid @ put_fixed32 voter
       @ put_bool approve @ put_i64 cast_at"

abbreviation payload_of_ballot :: "ballot \<Rightarrow> bytes" where
  "payload_of_ballot b \<equiv>
     ballot_payload (bl_vote_id b) (bl_voter b) (bl_approve b) (bl_cast_at b)"

definition ballot_cast :: "crypto \<Rightarrow> per_network_identity \<Rightarrow> b32 \<Rightarrow> bool \<Rightarrow> i64 \<Rightarrow> ballot" where
  "ballot_cast C voter vid approve cast_at =
     \<lparr>bl_vote_id = vid, bl_voter = pni_id C voter, bl_approve = approve, bl_cast_at = cast_at,
      bl_signature = pni_sign C voter (ballot_payload vid (pni_id C voter) approve cast_at)\<rparr>"

definition ballot_verify :: "crypto \<Rightarrow> ballot \<Rightarrow> governance_error + unit" where
  "ballot_verify C b =
     (case vk_verify C (bl_voter b) (payload_of_ballot b) (bl_signature b) of
        Inl _ \<Rightarrow> Inl EntryBadSignature | Inr u \<Rightarrow> Inr u)"

definition ballot_hash :: "crypto \<Rightarrow> ballot \<Rightarrow> b32" where
  "ballot_hash C b = hash_bytes C (payload_of_ballot b @ put_fixed64 (bl_signature b))"

definition put_ballot :: "ballot \<Rightarrow> bytes" where
  "put_ballot b =
     put_fixed32 (bl_vote_id b) @ put_fixed32 (bl_voter b) @ put_bool (bl_approve b)
       @ put_i64 (bl_cast_at b) @ put_fixed64 (bl_signature b)"

section \<open>Certificates\<close>

record quorum_certificate =
  qc_vote_id :: b32
  qc_ballots :: "ballot list"
  qc_merkle_root :: b32

definition put_certificate :: "quorum_certificate \<Rightarrow> bytes" where
  "put_certificate c =
     put_fixed32 (qc_vote_id c) @ put_seq put_ballot (qc_ballots c) @ put_fixed32 (qc_merkle_root c)"

definition ballot_rank :: "crypto \<Rightarrow> ballot \<Rightarrow> int \<times> b32" where
  "ballot_rank C b = (sint (bl_cast_at b), ballot_hash C b)"

definition collect_ballot ::
  "crypto \<Rightarrow> b32 \<Rightarrow> ballot \<Rightarrow> (b32, ballot) btree_map \<Rightarrow> (b32, ballot) btree_map" where
  "collect_ballot C vid b by_voter =
     (if bl_vote_id b \<noteq> vid then by_voter
      else case bm_get by_voter (bl_voter b) of
        None \<Rightarrow> bm_insert (bl_voter b) b by_voter
      | Some existing \<Rightarrow>
          if ballot_rank C b < ballot_rank C existing then bm_insert (bl_voter b) b by_voter
          else by_voter)"

definition assemble :: "crypto \<Rightarrow> vote_proposal \<Rightarrow> ballot list \<Rightarrow> quorum_certificate" where
  "assemble C p ballots =
     (let vid = vote_id C p;
          by_voter = fold (collect_ballot C vid) ballots [];
          sorted_ballots = sort_key (ballot_hash C) (bm_values by_voter)
      in \<lparr>qc_vote_id = vid, qc_ballots = sorted_ballots,
          qc_merkle_root = merkle_root C (map (ballot_hash C) sorted_ballots)\<rparr>)"

fun check_ballots ::
  "crypto \<Rightarrow> vote_proposal \<Rightarrow> ballot list \<Rightarrow> b32 btree_set \<Rightarrow> u32 \<Rightarrow> governance_error + u32" where
  "check_ballots C p [] seen approvals = Inr approvals"
| "check_ballots C p (b # bs) seen approvals =
     (if bl_vote_id b \<noteq> vote_id C p
      then Inl (InvalidQuorumCertificate ''certificate contains a ballot for a different proposal'')
      else case ballot_verify C b of
        Inl _ \<Rightarrow> Inl (InvalidQuorumCertificate
          (''ballot from '' @ short (bl_voter b) @ '' has an invalid signature''))
      | Inr _ \<Rightarrow>
      if bl_voter b \<notin> set (vp_snapshot p)
      then Inl (InvalidQuorumCertificate (short (bl_voter b) @ '' is not in the frozen electorate''))
      else if sint (bl_cast_at b) > sint (vp_close_time p)
      then Inl (InvalidQuorumCertificate
        (''ballot from '' @ short (bl_voter b) @ '' was cast after close''))
      else if bl_voter b \<in> set seen
      then Inl (InvalidQuorumCertificate (short (bl_voter b) @ '' appears more than once''))
      else check_ballots C p bs (bs_insert (bl_voter b) seen)
        (if bl_approve b then approvals + 1 else approvals))"

definition cert_verify ::
  "crypto \<Rightarrow> quorum_certificate \<Rightarrow> vote_proposal \<Rightarrow> governance_error + vote_outcome" where
  "cert_verify C c p =
     (if qc_vote_id c \<noteq> vote_id C p
      then Inl (InvalidQuorumCertificate ''certificate is for a different proposal'')
      else if qc_ballots c = []
      then Inl (InvalidQuorumCertificate ''certificate contains no ballots'')
      else case check_ballots C p (qc_ballots c) [] 0 of
        Inl e \<Rightarrow> Inl e
      | Inr approvals \<Rightarrow>
      if merkle_root C (map (ballot_hash C) (qc_ballots c)) \<noteq> qc_merkle_root c
      then Inl (InvalidQuorumCertificate ''merkle root does not match the included ballots'')
      else Inr (if approvals \<ge> vp_quorum p then Passed else Failed))"

section \<open>What verification accepts\<close>

text \<open>A ballot that qualifies under a proposal, by its own signed contents alone.\<close>

definition eligible :: "crypto \<Rightarrow> vote_proposal \<Rightarrow> ballot \<Rightarrow> bool" where
  "eligible C p b \<longleftrightarrow>
     bl_vote_id b = vote_id C p \<and> ballot_verify C b = Inr () \<and> bl_voter b \<in> set (vp_snapshot p)
     \<and> sint (bl_cast_at b) \<le> sint (vp_close_time p)"

definition approvals_of :: "ballot list \<Rightarrow> nat" where
  "approvals_of bs = length (filter bl_approve bs)"

lemma check_ballots_Inr:
  "check_ballots C p bs seen a = Inr n \<longleftrightarrow>
     list_all (eligible C p) bs \<and> distinct (map bl_voter bs)
     \<and> (\<forall>b\<in>set bs. bl_voter b \<notin> set seen) \<and> n = a + of_nat (approvals_of bs)"
proof (induction C p bs seen a rule: check_ballots.induct)
  case (2 C p b bs seen a)
  show ?case
    using "2.IH" by (auto simp: eligible_def approvals_of_def image_iff split: sum.splits)
      (metis)+
qed (auto simp: approvals_of_def)

lemma cert_verify_Inr:
  "cert_verify C c p = Inr r \<longleftrightarrow>
     qc_vote_id c = vote_id C p \<and> qc_ballots c \<noteq> []
     \<and> list_all (eligible C p) (qc_ballots c) \<and> distinct (map bl_voter (qc_ballots c))
     \<and> qc_merkle_root c = merkle_root C (map (ballot_hash C) (qc_ballots c))
     \<and> r = (if of_nat (approvals_of (qc_ballots c)) \<ge> vp_quorum p then Passed else Failed)"
proof (cases "check_ballots C p (qc_ballots c) [] 0")
  case (Inl e)
  then have "\<not> (list_all (eligible C p) (qc_ballots c) \<and> distinct (map bl_voter (qc_ballots c)))"
    using check_ballots_Inr [of C p "qc_ballots c" "[]" 0] by auto
  then show ?thesis
    using Inl by (auto simp: cert_verify_def)
next
  case (Inr n)
  then have "list_all (eligible C p) (qc_ballots c)" "distinct (map bl_voter (qc_ballots c))"
    "n = of_nat (approvals_of (qc_ballots c))"
    using check_ballots_Inr [of C p "qc_ballots c" "[]" 0 n] by auto
  then show ?thesis
    using Inr by (auto simp: cert_verify_def)
qed

text \<open>Voters of the frozen electorate backed by a qualifying, approving ballot.\<close>

definition approving_voters :: "crypto \<Rightarrow> vote_proposal \<Rightarrow> ballot list \<Rightarrow> b32 set" where
  "approving_voters C p bs = {bl_voter b | b. b \<in> set bs \<and> bl_approve b \<and> eligible C p b}"

lemma approvals_card:
  assumes "distinct (map bl_voter bs)" and "list_all (eligible C p) bs"
  shows "approvals_of bs = card (approving_voters C p bs)"
proof -
  have "approving_voters C p bs = set (map bl_voter (filter bl_approve bs))"
    using assms(2) by (auto simp: approving_voters_def list_all_iff)
  moreover have "distinct (map bl_voter (filter bl_approve bs))"
    using assms(1) by (simp add: distinct_map_filter)
  then have "card (set (map bl_voter (filter bl_approve bs))) = approvals_of bs"
    by (simp only: approvals_of_def distinct_card length_map)
  ultimately show ?thesis
    by simp
qed

lemma unat_of_nat_le: "unat (of_nat n :: 'a::len word) \<le> n"
  by (simp add: unat_of_nat)

lemma passed_quorum:
  assumes "cert_verify C c p = Inr Passed"
  shows "unat (vp_quorum p) \<le> card (approving_voters C p (qc_ballots c))
    \<and> approving_voters C p (qc_ballots c) \<subseteq> set (vp_snapshot p)"
proof -
  have c: "list_all (eligible C p) (qc_ballots c)" "distinct (map bl_voter (qc_ballots c))"
    "vp_quorum p \<le> of_nat (approvals_of (qc_ballots c))"
    using assms by (auto simp: cert_verify_Inr split: if_splits)
  then have "unat (vp_quorum p) \<le> approvals_of (qc_ballots c)"
    using unat_of_nat_le [of "approvals_of (qc_ballots c)", where 'a = 32]
    by (simp add: word_le_nat_alt)
  moreover have "approving_voters C p (qc_ballots c) \<subseteq> set (vp_snapshot p)"
    by (auto simp: approving_voters_def eligible_def)
  ultimately show ?thesis
    using c approvals_card by auto
qed

section \<open>Assembly\<close>

text \<open>What the collected map holds: per voter, the least-ranked ballot for this vote.\<close>

definition best_for :: "crypto \<Rightarrow> b32 \<Rightarrow> ballot set \<Rightarrow> b32 \<Rightarrow> ballot \<Rightarrow> bool" where
  "best_for C vid S v b \<longleftrightarrow>
     b \<in> S \<and> bl_vote_id b = vid \<and> bl_voter b = v
     \<and> (\<forall>b'\<in>S. bl_vote_id b' = vid \<and> bl_voter b' = v \<longrightarrow> ballot_rank C b \<le> ballot_rank C b')"

definition collected :: "crypto \<Rightarrow> b32 \<Rightarrow> ballot set \<Rightarrow> (b32, ballot) btree_map \<Rightarrow> bool" where
  "collected C vid S m \<longleftrightarrow>
     bm_ok m
     \<and> (\<forall>v b. bm_get m v = Some b \<longrightarrow> best_for C vid S v b)
     \<and> (\<forall>b\<in>S. bl_vote_id b = vid \<longrightarrow> bm_get m (bl_voter b) \<noteq> None)"

lemma collected_step:
  assumes "collected C vid S m"
  shows "collected C vid (insert b S) (collect_ballot C vid b m)"
proof (cases "bl_vote_id b = vid")
  case False
  then show ?thesis
    using assms by (auto simp: collected_def collect_ballot_def best_for_def)
next
  case True
  show ?thesis
  proof (cases "bm_get m (bl_voter b)")
    case None
    then have "\<forall>b'\<in>S. bl_vote_id b' = vid \<longrightarrow> bl_voter b' \<noteq> bl_voter b"
      using assms by (auto simp: collected_def)
    then show ?thesis
      using assms True None by (auto simp: collected_def collect_ballot_def best_for_def)
  next
    case (Some e)
    then have e: "best_for C vid S (bl_voter b) e"
      using assms by (simp add: collected_def)
    then have new: "best_for C vid (insert b S) (bl_voter b)
        (if ballot_rank C b < ballot_rank C e then b else e)"
      using True by (auto simp: best_for_def)
    have old: "best_for C vid (insert b S) v b'"
      if "v \<noteq> bl_voter b" "bm_get m v = Some b'" for v b'
      using assms that by (auto simp: collected_def best_for_def)
    have all: "best_for C vid (insert b S) v b'" if "bm_get (collect_ballot C vid b m) v = Some b'" for v b'
      using that new old [of v b'] True Some
      by (cases "v = bl_voter b") (auto simp: collect_ballot_def split: if_splits)
    show ?thesis
      using assms True Some all by (auto simp: collected_def collect_ballot_def)
  qed
qed

lemma collected_fold:
  "collected C vid S m \<Longrightarrow> collected C vid (S \<union> set bs) (fold (collect_ballot C vid) bs m)"
proof (induction bs arbitrary: S m)
  case (Cons b bs)
  then have "collected C vid (insert b S \<union> set bs) (fold (collect_ballot C vid) bs (collect_ballot C vid b m))"
    by (intro Cons.IH collected_step)
  then show ?case
    by simp
qed simp

lemma collected_start: "collected C vid (set bs) (fold (collect_ballot C vid) bs [])"
  using collected_fold [of C vid "{}" "[]" bs] by (simp add: collected_def)

lemma collected_unique:
  assumes "collected C vid S m" and "collected C vid S n" and "inj_on (ballot_hash C) S"
  shows "m = n"
proof (rule bm_ext)
  have sub: "bm_get m' v = Some b \<Longrightarrow> bm_get n' v = Some b"
    if m': "collected C vid S m'" and n': "collected C vid S n'" for m' n' v b
  proof -
    assume "bm_get m' v = Some b"
    then have b: "best_for C vid S v b"
      using m' by (simp add: collected_def)
    then obtain b' where b': "bm_get n' v = Some b'" "best_for C vid S v b'"
      using n' by (auto simp: collected_def best_for_def)
    then have "ballot_rank C b = ballot_rank C b'"
      using b by (auto simp: best_for_def intro!: order_antisym)
    then show "bm_get n' v = Some b"
      using assms(3) b b' by (auto simp: best_for_def ballot_rank_def dest: inj_onD)
  qed
  show "bm_get m = bm_get n"
  proof
    fix v
    show "bm_get m v = bm_get n v"
      using sub [OF assms(1,2), of v] sub [OF assms(2,1), of v]
      by (cases "bm_get m v"; cases "bm_get n v") simp_all
  qed
qed (use assms in \<open>simp_all add: collected_def\<close>)

lemma collected_values:
  assumes "collected C vid S m"
  shows "set (bm_values m) = {b. \<exists>v. best_for C vid S v b \<and> bm_get m v = Some b}"
    and "distinct (map bl_voter (bm_values m))"
proof -
  have ok: "bm_ok m" and voter: "\<And>v b. bm_get m v = Some b \<Longrightarrow> best_for C vid S v b"
    using assms by (auto simp: collected_def)
  show "set (bm_values m) = {b. \<exists>v. best_for C vid S v b \<and> bm_get m v = Some b}"
    using voter set_bm_values [OF ok] by blast
  have "bl_voter (snd q) = fst q" if "q \<in> set m" for q
    using voter [of "fst q" "snd q"] that by (simp add: bm_ok_map_of [OF ok] best_for_def)
  then have "map bl_voter (bm_values m) = map fst m"
    by (simp add: bm_values_def)
  then show "distinct (map bl_voter (bm_values m))"
    using bm_ok_distinct [OF ok] by simp
qed

lemma collected_best:
  assumes "collected C vid S m" and "inj_on (ballot_hash C) S"
  shows "b \<in> set (bm_values m) \<longleftrightarrow> (\<exists>v. best_for C vid S v b)"
proof
  show "b \<in> set (bm_values m) \<Longrightarrow> \<exists>v. best_for C vid S v b"
    using collected_values(1) [OF assms(1)] by blast
  assume "\<exists>v. best_for C vid S v b"
  then obtain v where b: "best_for C vid S v b" ..
  then obtain b' where b': "bm_get m v = Some b'" "best_for C vid S v b'"
    using assms(1) by (fastforce simp: collected_def best_for_def)
  then have "ballot_rank C b = ballot_rank C b'"
    using b by (auto simp: best_for_def intro!: order_antisym)
  then have "b = b'"
    using assms(2) b b'(2) by (auto simp: best_for_def ballot_rank_def dest: inj_onD)
  then show "b \<in> set (bm_values m)"
    using b' collected_values(1) [OF assms(1)] by blast
qed

end
