(* ===== verification/Entry.thy ===== *)
theory Entry
  imports Vote
begin

text \<open>
  Governance log entries, entry.rs: the thirteen kinds of body, their canonical encoding, the
  signed payload and the hash of an entry, and the predicate that decides which entries carry
  fork-choice weight.
\<close>

section \<open>Bodies\<close>

datatype moderation_action = Delist | Relist

record moderation_entry =
  me_action :: moderation_action
  me_target :: b32

record cascade =
  window_millis :: "i64 option"

datatype membership_action =
    Add "invite_provenance option"
  | Remove "cascade option"

datatype rotation_reason = MemberAdmitted | MemberRevoked | SelfInitiated

datatype entry_body =
    Genesis b32 network_policy "capability btree_set"
  | BodyDefineGroup string capability_set
  | MembershipChange string b32 membership_action
  | PolicyChange network_policy
  | ContentTypePolicy "string btree_set"
  | EpochRotation rotation_reason bytes
  | VoteProposed vote_proposal
  | VoteOutcomeRecorded quorum_certificate
  | DeviceEnrollment device_certificate
  | DeviceRevocation device_revocation
  | Moderation moderation_entry
  | AppNameRegistration string b32
  | AppEntry string string capability bytes

definition max_app_entry_payload_bytes :: nat where
  "max_app_entry_payload_bytes = 8 * 1024"

definition is_valid_app_entry_name :: "string \<Rightarrow> string \<Rightarrow> bool" where
  "is_valid_app_entry_name namespace kind \<longleftrightarrow>
     namespace \<noteq> [] \<and> kind \<noteq> [] \<and> CHR '':'' \<notin> set namespace"

fun is_genesis :: "entry_body \<Rightarrow> bool" where
  "is_genesis (Genesis _ _ _) = True"
| "is_genesis _ = False"

fun body_is_capability_gated :: "entry_body \<Rightarrow> bool" where
  "body_is_capability_gated (Genesis _ _ _) = False"
| "body_is_capability_gated (DeviceEnrollment _) = False"
| "body_is_capability_gated (DeviceRevocation _) = False"
| "body_is_capability_gated (VoteProposed _) = False"
| "body_is_capability_gated (VoteOutcomeRecorded _) = False"
| "body_is_capability_gated (EpochRotation MemberAdmitted _) = True"
| "body_is_capability_gated (EpochRotation MemberRevoked _) = True"
| "body_is_capability_gated (EpochRotation SelfInitiated _) = False"
| "body_is_capability_gated (BodyDefineGroup _ _) = True"
| "body_is_capability_gated (MembershipChange _ _ _) = True"
| "body_is_capability_gated (PolicyChange _) = True"
| "body_is_capability_gated (ContentTypePolicy _) = True"
| "body_is_capability_gated (Moderation _) = True"
| "body_is_capability_gated (AppNameRegistration _ _) = True"
| "body_is_capability_gated (AppEntry _ _ _ _) = False"

fun body_kind :: "entry_body \<Rightarrow> string" where
  "body_kind (Genesis _ _ _) = ''genesis''"
| "body_kind (BodyDefineGroup _ _) = ''define-group''"
| "body_kind (MembershipChange _ _ (Add _)) = ''membership-add''"
| "body_kind (MembershipChange _ _ (Remove _)) = ''membership-remove''"
| "body_kind (PolicyChange _) = ''policy-change''"
| "body_kind (ContentTypePolicy _) = ''content-type-policy''"
| "body_kind (EpochRotation _ _) = ''epoch-rotation''"
| "body_kind (VoteProposed _) = ''vote-proposed''"
| "body_kind (VoteOutcomeRecorded _) = ''vote-outcome''"
| "body_kind (DeviceEnrollment _) = ''device-enrollment''"
| "body_kind (DeviceRevocation _) = ''device-revocation''"
| "body_kind (Moderation _) = ''moderation''"
| "body_kind (AppNameRegistration _ _) = ''app-name-registration''"
| "body_kind (AppEntry _ _ _ _) = ''app-entry''"

fun put_membership_action :: "membership_action \<Rightarrow> bytes" where
  "put_membership_action (Add via) = put_variant 0 @ put_option put_provenance via"
| "put_membership_action (Remove cascade) =
     put_variant 1 @ put_option (\<lambda>c. put_option put_i64 (window_millis c)) cascade"

fun reason_tag :: "rotation_reason \<Rightarrow> u8" where
  "reason_tag MemberRevoked = 0"
| "reason_tag SelfInitiated = 1"
| "reason_tag MemberAdmitted = 2"

fun moderation_tag :: "moderation_action \<Rightarrow> u8" where
  "moderation_tag Delist = 0"
| "moderation_tag Relist = 1"

fun encode_body :: "entry_body \<Rightarrow> bytes" where
  "encode_body (Genesis network policy everyone_capabilities) =
     put_variant 0 @ put_fixed32 network @ put_policy policy
       @ put_seq put_capability everyone_capabilities"
| "encode_body (BodyDefineGroup grp capabilities) =
     put_variant 1 @ put_str grp @ put_capability_set capabilities"
| "encode_body (MembershipChange grp identity action) =
     put_variant 2 @ put_str grp @ put_fixed32 identity @ put_membership_action action"
| "encode_body (PolicyChange policy) = put_variant 3 @ put_policy policy"
| "encode_body (ContentTypePolicy allowlist) = put_variant 4 @ put_seq put_str allowlist"
| "encode_body (EpochRotation reason commit) =
     put_variant 5 @ put_u8 (reason_tag reason) @ put_bytes commit"
| "encode_body (VoteProposed proposal) = put_variant 10 @ put_proposal proposal"
| "encode_body (VoteOutcomeRecorded certificate) = put_variant 11 @ put_certificate certificate"
| "encode_body (DeviceEnrollment cert) =
     put_variant 6 @ put_fixed32 (dc_network cert) @ put_fixed32 (dc_identity cert)
       @ put_fixed32 (dc_device cert) @ put_str (dc_label cert) @ put_i64 (dc_issued_at cert)
       @ put_fixed64 (dc_signature cert)"
| "encode_body (DeviceRevocation revocation) =
     put_variant 7 @ put_fixed32 (dr_network revocation) @ put_fixed32 (dr_identity revocation)
       @ put_fixed32 (dr_device revocation) @ put_i64 (dr_revoked_at revocation)
       @ put_fixed64 (dr_signature revocation)"
| "encode_body (AppNameRegistration name app_id) =
     put_variant 9 @ put_str name @ put_fixed32 app_id"
| "encode_body (AppEntry namespace kind required payload) =
     put_variant 12 @ put_str namespace @ put_str kind @ put_capability required @ put_bytes payload"
| "encode_body (Moderation moderation) =
     put_variant 8 @ put_u8 (moderation_tag (me_action moderation)) @ put_fixed32 (me_target moderation)"

definition action_hash :: "crypto \<Rightarrow> entry_body \<Rightarrow> b32" where
  "action_hash C body =
     hash_bytes C (enc_domain ''intranet.governance-action-hash.v1'' @ encode_body body)"

section \<open>Entries\<close>

record log_entry =
  le_parent :: "b32 option"
  le_timestamp :: i64
  le_author :: b32
  le_body :: entry_body
  le_signature :: b64

definition entry_payload :: "b32 option \<Rightarrow> i64 \<Rightarrow> b32 \<Rightarrow> entry_body \<Rightarrow> bytes" where
  "entry_payload parent timestamp author body =
     enc_domain ''intranet.governance-entry.v1'' @ put_option put_fixed32 parent
       @ put_i64 timestamp @ put_fixed32 author @ encode_body body"

abbreviation payload_of_entry :: "log_entry \<Rightarrow> bytes" where
  "payload_of_entry e \<equiv>
     entry_payload (le_parent e) (le_timestamp e) (le_author e) (le_body e)"

definition entry_create ::
  "crypto \<Rightarrow> per_network_identity \<Rightarrow> b32 option \<Rightarrow> i64 \<Rightarrow> entry_body \<Rightarrow> log_entry" where
  "entry_create C author parent timestamp body =
     \<lparr>le_parent = parent, le_timestamp = timestamp, le_author = pni_id C author, le_body = body,
      le_signature = pni_sign C author (entry_payload parent timestamp (pni_id C author) body)\<rparr>"

definition entry_hash_bytes :: "log_entry \<Rightarrow> bytes" where
  "entry_hash_bytes e =
     enc_domain ''intranet.governance-entry-hash.v1''
       @ put_bytes (payload_of_entry e) @ put_fixed64 (le_signature e)"

definition entry_hash :: "crypto \<Rightarrow> log_entry \<Rightarrow> b32" where
  "entry_hash C e = hash_bytes C (entry_hash_bytes e)"

definition entry_verify_signature :: "crypto \<Rightarrow> log_entry \<Rightarrow> governance_error + unit" where
  "entry_verify_signature C e =
     (case vk_verify C (le_author e) (payload_of_entry e) (le_signature e) of
        Inl _ \<Rightarrow> Inl EntryBadSignature | Inr u \<Rightarrow> Inr u)"

definition is_capability_gated :: "log_entry \<Rightarrow> bool" where
  "is_capability_gated e =
     (case le_body e of
        MembershipChange _ identity (Remove _) \<Rightarrow> identity \<noteq> le_author e
      | body \<Rightarrow> body_is_capability_gated body)"

lemma entry_verify_Inr:
  "entry_verify_signature C e = Inr u \<longleftrightarrow>
     key_valid C (le_author e) \<and> ed_verify C (le_author e) (payload_of_entry e) (le_signature e)"
  by (auto simp: entry_verify_signature_def vk_verify_def)

lemma entry_create_verifies:
  "sign_correct C \<Longrightarrow> entry_verify_signature C (entry_create C author parent t body) = Inr ()"
  by (simp add: entry_verify_signature_def entry_create_def pni_sign_def pni_id_def sign_verifies)

end
