(* ===== verification/State.thy ===== *)
theory State
  imports Entry "HOL-Library.Transitive_Closure_Table"
begin

text \<open>
  The replay engine, state.rs: the authorization state, the genesis state, \<open>apply\<close> with its
  authorization check, its mutation and its whole-state invariants, capability tiers, and the
  cascading removal; also \<open>VoteProposal::open\<close> of vote.rs.

  \<open>apply\<close> returns a new state or an error. The two loops whose termination is not structural
  are total functions with a measure: tier resolution descends through groups not yet on its
  path, and a cascade moves members out of the group.
\<close>

section \<open>State\<close>

record app_name_record =
  an_app_id :: b32
  an_owner :: b32
  an_registered_at :: i64

record governance_state =
  gs_network :: b32
  gs_policy :: network_policy
  gs_groups :: "(string, group) btree_map"
  gs_device_certificates :: "(b32, device_certificate) btree_map"
  gs_revoked_devices :: "b32 btree_set"
  gs_delisted :: "b32 btree_set"
  gs_epoch :: u64
  gs_app_names :: "(string, app_name_record) btree_map"
  gs_open_votes :: "(b32, vote_proposal) btree_map"
  gs_passed_votes :: "b32 btree_set"
  gs_epoch_rotation_ref :: "b32 option"

section \<open>Capability tiers\<close>

lemma card_less_visiting:
  "g \<in> set (bm_keys m) \<Longrightarrow> g \<notin> set visiting \<Longrightarrow>
     card (set (bm_keys m) - insert g (set visiting)) < card (set (bm_keys m) - set visiting)"
  by (rule psubset_card_mono) auto

function (sequential) tier_of_inner ::
    "governance_state \<Rightarrow> capability \<Rightarrow> string list \<Rightarrow> governance_error + tier"
  and tier_any ::
    "governance_state \<Rightarrow> capability list \<Rightarrow> string list \<Rightarrow> governance_error + tier"
where
  "tier_of_inner st c visiting =
     (case intrinsic_tier c of
        Some t \<Rightarrow> Inr t
      | None \<Rightarrow>
          (case c of
             Extension name \<Rightarrow>
               ok_or (UnregisteredExtensionCapability name) (extension_tier (gs_policy st) name)
           | ManageMembership grp \<Rightarrow>
               if grp \<in> set visiting then Inr Ordinary
               else (case bm_get (gs_groups st) grp of
                       None \<Rightarrow> Inl (UnknownGroup grp)
                     | Some target \<Rightarrow>
                         (case g_capabilities target of
                            CapAll \<Rightarrow> Inr Governance
                          | CapExplicit held \<Rightarrow> tier_any st held (grp # visiting)))
           | _ \<Rightarrow> Inl Unreachable))"
| "tier_any st [] visiting = Inr Ordinary"
| "tier_any st (held # rest) visiting =
     (case tier_of_inner st held visiting of
        Inl e \<Rightarrow> Inl e
      | Inr Governance \<Rightarrow> Inr Governance
      | Inr Ordinary \<Rightarrow> tier_any st rest visiting)"
  by pat_completeness auto
termination
proof (relation "measures [
    \<lambda>x. case x of Inl (st, c, v) \<Rightarrow> card (set (bm_keys (gs_groups st)) - set v)
                | Inr (st, cs, v) \<Rightarrow> card (set (bm_keys (gs_groups st)) - set v),
    \<lambda>x. case x of Inl (st, c, v) \<Rightarrow> 0 | Inr (st, cs, v) \<Rightarrow> Suc (length cs)]")
  fix st c visiting grp target held
  assume new: "grp \<notin> set visiting" and "bm_get (gs_groups st) grp = Some target"
  then have "grp \<in> set (bm_keys (gs_groups st))"
    by (auto simp: set_bm_keys)
  then show "(Inr (st, held, grp # visiting), Inl (st, c, visiting)) \<in> measures [
    \<lambda>x. case x of Inl (st, c, v) \<Rightarrow> card (set (bm_keys (gs_groups st)) - set v)
                | Inr (st, cs, v) \<Rightarrow> card (set (bm_keys (gs_groups st)) - set v),
    \<lambda>x. case x of Inl (st, c, v) \<Rightarrow> 0 | Inr (st, cs, v) \<Rightarrow> Suc (length cs)]"
    using card_less_visiting [OF _ new, of "gs_groups st"] by simp
qed auto

declare tier_of_inner.simps [simp del]

definition tier_of :: "governance_state \<Rightarrow> capability \<Rightarrow> governance_error + tier" where
  "tier_of st c = tier_of_inner st c []"

section \<open>Queries\<close>

definition identity_holds :: "governance_state \<Rightarrow> b32 \<Rightarrow> capability \<Rightarrow> bool" where
  "identity_holds st identity c \<longleftrightarrow>
     list_ex (\<lambda>g. group_contains g identity \<and> grants (g_capabilities g) c)
       (bm_values (gs_groups st))"

definition is_member :: "governance_state \<Rightarrow> b32 \<Rightarrow> bool" where
  "is_member st identity \<longleftrightarrow>
     list_ex (\<lambda>g. group_contains g identity) (bm_values (gs_groups st))"

definition invite_use_count :: "governance_state \<Rightarrow> b32 \<Rightarrow> nat" where
  "invite_use_count st invite_id =
     length (fold (\<lambda>g used.
         fold (\<lambda>(identity, r) used.
             case via_invite r of
               Some p \<Rightarrow> if ip_invite_id p = invite_id then bs_insert identity used else used
             | None \<Rightarrow> used)
           (g_members g) used)
       (bm_values (gs_groups st)) [])"

definition resolve_app_name :: "governance_state \<Rightarrow> string \<Rightarrow> app_name_record option" where
  "resolve_app_name st name = bm_get (gs_app_names st) name"

definition is_delisted :: "governance_state \<Rightarrow> b32 \<Rightarrow> bool" where
  "is_delisted st pointer \<longleftrightarrow> pointer \<in> set (gs_delisted st)"

definition device_is_authorized :: "governance_state \<Rightarrow> b32 \<Rightarrow> b32 \<Rightarrow> bool" where
  "device_is_authorized st device identity =
     (if device \<in> set (gs_revoked_devices st) then False
      else case bm_get (gs_device_certificates st) device of
        Some cert \<Rightarrow> dc_identity cert = identity | None \<Rightarrow> False)"

definition put_app_name :: "string \<times> app_name_record \<Rightarrow> bytes" where
  "put_app_name p =
     put_str (fst p) @ put_fixed32 (an_app_id (snd p)) @ put_fixed32 (an_owner (snd p))
       @ put_i64 (an_registered_at (snd p))"

definition encode_state :: "governance_state \<Rightarrow> bytes" where
  "encode_state st =
     enc_domain ''intranet.governance-state.v1'' @ put_fixed32 (gs_network st)
       @ put_policy (gs_policy st) @ put_seq put_group (bm_values (gs_groups st))
       @ put_seq put_fixed32 (bm_keys (gs_device_certificates st))
       @ put_seq put_fixed32 (gs_revoked_devices st) @ put_seq put_fixed32 (gs_delisted st)
       @ put_seq put_app_name (gs_app_names st) @ put_u64 (gs_epoch st)
       @ put_option put_fixed32 (gs_epoch_rotation_ref st)"

definition state_hash :: "crypto \<Rightarrow> governance_state \<Rightarrow> b32" where
  "state_hash C st = hash_bytes C (encode_state st)"

section \<open>Whole-state checks\<close>

fun check_ordinary :: "governance_state \<Rightarrow> capability list \<Rightarrow> governance_error + unit" where
  "check_ordinary st [] = Inr ()"
| "check_ordinary st (c # cs) =
     (case tier_of st c of
        Inl e \<Rightarrow> Inl e
      | Inr Governance \<Rightarrow> Inl (EveryoneGovernanceTier c)
      | Inr Ordinary \<Rightarrow> check_ordinary st cs)"

definition check_everyone_invariant :: "governance_state \<Rightarrow> governance_error + unit" where
  "check_everyone_invariant st =
     (case bm_get (gs_groups st) everyone_id of
        None \<Rightarrow> Inr ()
      | Some everyone \<Rightarrow>
          (case g_capabilities everyone of
             CapAll \<Rightarrow> Inl EveryoneUnrestricted
           | CapExplicit held \<Rightarrow> check_ordinary st held))"

fun is_member_vote :: "governance_model \<Rightarrow> bool" where
  "is_member_vote (MemberVote _ _ _) = True"
| "is_member_vote CapabilityHolders = False"

definition check_policy_coherence :: "governance_state \<Rightarrow> governance_error + unit" where
  "check_policy_coherence st =
     (if is_member_vote (governance_model (gs_policy st))
         \<and> admission_mode (gs_policy st) = AutoAdmit
      then Inl IncoherentPolicy else Inr ())"

section \<open>Authorization\<close>

definition not_a_member :: "b32 \<Rightarrow> governance_error" where
  "not_a_member identity = NotAMember (short identity)"

definition require_member :: "governance_state \<Rightarrow> b32 \<Rightarrow> governance_error + unit" where
  "require_member st author = (if is_member st author then Inr () else Inl (not_a_member author))"

definition require_capability ::
  "governance_state \<Rightarrow> b32 \<Rightarrow> capability \<Rightarrow> governance_error + unit" where
  "require_capability st author required =
     (if identity_holds st author required then Inr ()
      else Inl (Unauthorized (short author) required))"

definition authorize_device_record ::
  "governance_state \<Rightarrow> b32 \<Rightarrow> b32 \<Rightarrow> governance_error + unit" where
  "authorize_device_record st author subject =
     (if author \<noteq> subject then Inl (DeviceRecordAuthorMismatch (short subject) (short author))
      else require_member st author)"

definition authorize :: "crypto \<Rightarrow> governance_state \<Rightarrow> log_entry \<Rightarrow> governance_error + unit" where
  "authorize C st e =
     (let author = le_author e in
      case le_body e of
        Genesis _ _ _ \<Rightarrow> Inl UnexpectedGenesis
      | BodyDefineGroup _ _ \<Rightarrow> require_capability st author DefineGroup
      | PolicyChange _ \<Rightarrow> require_capability st author DefinePolicy
      | ContentTypePolicy _ \<Rightarrow> require_capability st author DefineContentPolicy
      | Moderation _ \<Rightarrow> require_capability st author ModerateContent
      | AppEntry _ _ required _ \<Rightarrow> require_capability st author required
      | AppNameRegistration name _ \<Rightarrow>
          require_capability st author
            (if bm_contains (gs_app_names st) name then Extension reclaim_app_name
             else Extension register_app_name)
      | MembershipChange grp identity action \<Rightarrow>
          if \<not> bm_contains (gs_groups st) grp then Inl (UnknownGroup grp)
          else (case action of
              Remove _ \<Rightarrow>
                if identity = author then require_member st author
                else require_capability st author (ManageMembership grp)
            | Add _ \<Rightarrow>
                if is_member_vote (governance_model (gs_policy st)) then
                  (if action_hash C (le_body e) \<in> set (gs_passed_votes st)
                   then require_member st author
                   else Inl (InvalidQuorumCertificate ''no passing vote authorizes this admission''))
                else require_capability st author (ManageMembership grp))
      | VoteProposed _ \<Rightarrow> require_member st author
      | VoteOutcomeRecorded _ \<Rightarrow> require_member st author
      | EpochRotation reason _ \<Rightarrow>
          (case reason of
             MemberAdmitted \<Rightarrow> require_capability st author ApproveNode
           | MemberRevoked \<Rightarrow> require_capability st author RevokeNode
           | SelfInitiated \<Rightarrow> require_member st author)
      | DeviceEnrollment cert \<Rightarrow>
          (case dc_verify_for_network C cert (gs_network st) of
             Inl err \<Rightarrow> Inl (BadDeviceRecord err)
           | Inr _ \<Rightarrow> authorize_device_record st author (dc_identity cert))
      | DeviceRevocation revocation \<Rightarrow>
          (case dr_verify C revocation of
             Inl err \<Rightarrow> Inl (BadDeviceRecord err)
           | Inr _ \<Rightarrow>
               if dr_network revocation \<noteq> gs_network st
               then Inl (NetworkMismatch (short (dr_network revocation)) (short (gs_network st)))
               else authorize_device_record st author (dr_identity revocation)))"

section \<open>Mutation\<close>

definition within :: "i64 option \<Rightarrow> membership_record \<Rightarrow> bool" where
  "within cutoff r = (case cutoff of None \<Rightarrow> True | Some c \<Rightarrow> sint (added_at r) \<ge> sint c)"

definition doomed_by ::
  "i64 option \<Rightarrow> (b32, membership_record) btree_map \<Rightarrow> b32 \<Rightarrow> b32 list" where
  "doomed_by cutoff members remover =
     map fst (filter (\<lambda>(_, r). added_by r = Some remover \<and> within cutoff r) members)"

lemma fold_bm_remove: "fold bm_remove ks m = filter (\<lambda>p. fst p \<notin> set ks) m"
  by (induction ks arbitrary: m) (auto simp: bm_remove_def conj_commute)

lemma length_doomed:
  "length (doomed_by cutoff m x) + length (fold bm_remove (doomed_by cutoff m x) m) \<le> length m"
proof -
  let ?P = "\<lambda>p. added_by (snd p) = Some x \<and> within cutoff (snd p)"
  let ?D = "doomed_by cutoff m x"
  have D: "?D = map fst (filter ?P m)"
    by (simp add: doomed_by_def case_prod_unfold)
  have sub: "filter (\<lambda>p. fst p \<notin> set ?D) m = filter (\<lambda>p. fst p \<notin> set ?D) (filter (\<lambda>p. \<not> ?P p) m)"
    by (auto simp: D intro!: filter_cong)
  have "length (fold bm_remove ?D m) \<le> length (filter (\<lambda>p. \<not> ?P p) m)"
    by (subst fold_bm_remove, subst sub) (rule length_filter_le)
  moreover have "length ?D + length (filter (\<lambda>p. \<not> ?P p) m) = length m"
    using sum_length_filter_compl [of ?P m] by (simp only: D length_map)
  ultimately show ?thesis
    by simp
qed

text \<open>The work list is a stack: \<open>pop\<close> and \<open>push\<close> work on its end, the head of the model's list.\<close>

function cascade_loop ::
  "i64 option \<Rightarrow> (b32, membership_record) btree_map \<Rightarrow> b32 list \<Rightarrow> (b32, membership_record) btree_map"
where
  "cascade_loop cutoff members [] = members"
| "cascade_loop cutoff members (remover # pending) =
     (let doomed = doomed_by cutoff members remover
      in cascade_loop cutoff (fold bm_remove doomed members) (rev doomed @ pending))"
  by pat_completeness auto
termination
proof (relation "measure (\<lambda>(cutoff, members, pending). 2 * length members + length pending)")
  fix cutoff :: "i64 option" and members :: "(b32, membership_record) btree_map"
    and remover :: b32 and pending :: "b32 list" and doomed
  assume "doomed = doomed_by cutoff members remover"
  then show "((cutoff, fold bm_remove doomed members, rev doomed @ pending),
      (cutoff, members, remover # pending))
    \<in> measure (\<lambda>(cutoff, members, pending). 2 * length members + length pending)"
    using length_doomed [of cutoff members remover] by simp
qed simp

definition cascade_cutoff :: "i64 \<Rightarrow> cascade \<Rightarrow> i64 option" where
  "cascade_cutoff removed_at c = map_option (\<lambda>w. plus_millis removed_at (- w)) (window_millis c)"

definition remove_membership ::
  "governance_state \<Rightarrow> string \<Rightarrow> b32 \<Rightarrow> cascade option \<Rightarrow> i64 \<Rightarrow> governance_error + governance_state"
where
  "remove_membership st grp identity cascade removed_at =
     (case bm_get (gs_groups st) grp of
        None \<Rightarrow> Inl (UnknownGroup grp)
      | Some g \<Rightarrow>
          if bm_get (g_members g) identity = None then Inl (NotInGroup (short identity) grp)
          else
            (let members = bm_remove identity (g_members g);
                 final = (case cascade of
                     None \<Rightarrow> members
                   | Some c \<Rightarrow>
                       cascade_loop (cascade_cutoff removed_at c) members [identity])
             in Inr (st\<lparr>gs_groups := bm_insert grp (g\<lparr>g_members := final\<rparr>) (gs_groups st)\<rparr>)))"

definition set_group_capabilities :: "governance_state \<Rightarrow> string \<Rightarrow> capability_set \<Rightarrow> governance_state" where
  "set_group_capabilities st grp caps =
     st\<lparr>gs_groups := bm_insert grp
       (case bm_get (gs_groups st) grp of
          Some existing \<Rightarrow> existing\<lparr>g_capabilities := caps\<rparr>
        | None \<Rightarrow> new_group grp caps) (gs_groups st)\<rparr>"

definition mutate ::
  "crypto \<Rightarrow> governance_state \<Rightarrow> log_entry \<Rightarrow> governance_error + governance_state" where
  "mutate C st e =
     (case le_body e of
        Genesis _ _ _ \<Rightarrow> Inl UnexpectedGenesis
      | BodyDefineGroup grp caps \<Rightarrow> Inr (set_group_capabilities st grp caps)
      | MembershipChange grp identity (Add via) \<Rightarrow>
          (case bm_get (gs_groups st) grp of
             None \<Rightarrow> Inl (UnknownGroup grp)
           | Some g \<Rightarrow>
               Inr (st\<lparr>gs_groups := bm_insert grp
                 (g\<lparr>g_members := bm_insert identity
                    \<lparr>added_by = Some (le_author e), added_at = le_timestamp e, via_invite = via\<rparr>
                    (g_members g)\<rparr>) (gs_groups st)\<rparr>))
      | MembershipChange grp identity (Remove cascade) \<Rightarrow>
          remove_membership st grp identity cascade (le_timestamp e)
      | PolicyChange policy \<Rightarrow> Inr (st\<lparr>gs_policy := policy\<rparr>)
      | ContentTypePolicy allowlist \<Rightarrow>
          Inr (st\<lparr>gs_policy := (gs_policy st)\<lparr>content_type_allowlist := allowlist\<rparr>\<rparr>)
      | VoteProposed proposal \<Rightarrow>
          (case bm_get (gs_groups st) (vp_electorate proposal) of
             None \<Rightarrow> Inl (UnknownGroup (vp_electorate proposal))
           | Some g \<Rightarrow>
               if vp_snapshot proposal \<noteq> bs_collect (bm_keys (g_members g))
               then Inl (InvalidQuorumCertificate
                 ''proposal's electorate does not match the membership at this point in the log'')
               else Inr (st\<lparr>gs_open_votes := bm_insert (vote_id C proposal) proposal (gs_open_votes st)\<rparr>))
      | VoteOutcomeRecorded certificate \<Rightarrow>
          (case bm_get (gs_open_votes st) (qc_vote_id certificate) of
             None \<Rightarrow> Inl (InvalidQuorumCertificate ''no open vote matches this certificate'')
           | Some proposal \<Rightarrow>
               (case cert_verify C certificate proposal of
                  Inl err \<Rightarrow> Inl err
                | Inr Failed \<Rightarrow> Inl (InvalidQuorumCertificate ''certificate does not reach quorum'')
                | Inr Passed \<Rightarrow>
                    Inr (st\<lparr>gs_open_votes := bm_remove (qc_vote_id certificate) (gs_open_votes st),
                      gs_passed_votes := bs_insert (vp_subject proposal) (gs_passed_votes st)\<rparr>)))
      | EpochRotation _ _ \<Rightarrow>
          Inr (st\<lparr>gs_epoch := gs_epoch st + 1, gs_epoch_rotation_ref := Some (entry_hash C e)\<rparr>)
      | DeviceEnrollment cert \<Rightarrow>
          Inr (if dc_device cert \<notin> set (gs_revoked_devices st)
               then st\<lparr>gs_device_certificates :=
                      bm_insert (dc_device cert) cert (gs_device_certificates st)\<rparr>
               else st)
      | DeviceRevocation revocation \<Rightarrow>
          Inr (st\<lparr>gs_device_certificates :=
                    bm_remove (dr_device revocation) (gs_device_certificates st),
                  gs_revoked_devices := bs_insert (dr_device revocation) (gs_revoked_devices st)\<rparr>)
      | AppEntry _ _ _ _ \<Rightarrow> Inr st
      | AppNameRegistration name app_id \<Rightarrow>
          Inr (st\<lparr>gs_app_names := bm_insert name
            \<lparr>an_app_id = app_id, an_owner = le_author e, an_registered_at = le_timestamp e\<rparr>
            (gs_app_names st)\<rparr>)
      | Moderation moderation \<Rightarrow>
          (case me_action moderation of
             Delist \<Rightarrow> Inr (st\<lparr>gs_delisted := bs_insert (me_target moderation) (gs_delisted st)\<rparr>)
           | Relist \<Rightarrow> Inr (st\<lparr>gs_delisted := bs_remove (me_target moderation) (gs_delisted st)\<rparr>)))"

section \<open>Genesis, apply, replay\<close>

definition genesis_state ::
  "b32 \<Rightarrow> network_policy \<Rightarrow> capability btree_set \<Rightarrow> b32 \<Rightarrow> i64 \<Rightarrow> governance_state" where
  "genesis_state network policy everyone_capabilities author timestamp =
     (let founders = (new_group founders_id CapAll)
            \<lparr>g_members := bm_insert author
               \<lparr>added_by = None, added_at = timestamp, via_invite = None\<rparr> []\<rparr>;
          everyone = new_group everyone_id (CapExplicit everyone_capabilities)
      in \<lparr>gs_network = network, gs_policy = policy,
          gs_groups = bm_collect [(founders_id, founders), (everyone_id, everyone)],
          gs_device_certificates = [], gs_revoked_devices = [], gs_delisted = [], gs_epoch = 0,
          gs_app_names = [], gs_open_votes = [], gs_passed_votes = [],
          gs_epoch_rotation_ref = None\<rparr>)"

definition genesis :: "crypto \<Rightarrow> log_entry \<Rightarrow> governance_error + governance_state" where
  "genesis C e =
     res_bind (entry_verify_signature C e) (\<lambda>_.
     res_bind (check (le_parent e = None) UnexpectedGenesis) (\<lambda>_.
     case le_body e of
       Genesis network policy everyone_capabilities \<Rightarrow>
         (let st = genesis_state network policy everyone_capabilities (le_author e) (le_timestamp e)
          in res_bind (check_everyone_invariant st) (\<lambda>_.
             res_bind (check_policy_coherence st) (\<lambda>_. Inr st)))
     | _ \<Rightarrow> Inl ExpectedGenesis))"

definition apply_entry ::
  "crypto \<Rightarrow> governance_state \<Rightarrow> log_entry \<Rightarrow> governance_error + governance_state" where
  "apply_entry C st e =
     res_bind (entry_verify_signature C e) (\<lambda>_.
     res_bind (check (\<not> is_genesis (le_body e)) UnexpectedGenesis) (\<lambda>_.
     res_bind (check (le_parent e \<noteq> None) MissingParent) (\<lambda>_.
     res_bind (authorize C st e) (\<lambda>_.
     res_bind (mutate C st e) (\<lambda>next_st.
     res_bind (check_everyone_invariant next_st) (\<lambda>_.
     res_bind (check_policy_coherence next_st) (\<lambda>_. Inr next_st)))))))"

fun apply_all ::
  "crypto \<Rightarrow> governance_state \<Rightarrow> log_entry list \<Rightarrow> governance_error + governance_state" where
  "apply_all C st [] = Inr st"
| "apply_all C st (e # es) = res_bind (apply_entry C st e) (\<lambda>st'. apply_all C st' es)"

fun replay :: "crypto \<Rightarrow> log_entry list \<Rightarrow> governance_error + governance_state" where
  "replay C [] = Inl ExpectedGenesis"
| "replay C (e # es) = res_bind (genesis C e) (\<lambda>st. apply_all C st es)"

definition open_vote ::
  "b32 \<Rightarrow> string \<Rightarrow> governance_state \<Rightarrow> b32 \<Rightarrow> i64 \<Rightarrow> u32 \<Rightarrow> governance_error + vote_proposal" where
  "open_vote subject electorate st snapshot_ref close_time quorum =
     (case bm_get (gs_groups st) electorate of
        None \<Rightarrow> Inl (UnknownGroup electorate)
      | Some g \<Rightarrow>
          Inr \<lparr>vp_subject = subject, vp_electorate = electorate,
               vp_snapshot = bs_collect (bm_keys (g_members g)), vp_snapshot_ref = snapshot_ref,
               vp_close_time = close_time, vp_quorum = quorum\<rparr>)"


section \<open>Unfolding replay\<close>

lemma apply_entry_Inr:
  "apply_entry C st e = Inr st' \<longleftrightarrow>
     entry_verify_signature C e = Inr () \<and> \<not> is_genesis (le_body e) \<and> le_parent e \<noteq> None
     \<and> authorize C st e = Inr () \<and> mutate C st e = Inr st'
     \<and> check_everyone_invariant st' = Inr () \<and> check_policy_coherence st' = Inr ()"
  by (auto simp: apply_entry_def res_bind_Inr_iff)

lemma genesis_Inr:
  "genesis C e = Inr st \<longleftrightarrow>
     entry_verify_signature C e = Inr () \<and> le_parent e = None
     \<and> (\<exists>network policy everyone_capabilities.
          le_body e = Genesis network policy everyone_capabilities
          \<and> st = genesis_state network policy everyone_capabilities (le_author e) (le_timestamp e))
     \<and> check_everyone_invariant st = Inr () \<and> check_policy_coherence st = Inr ()"
  by (auto simp: genesis_def res_bind_Inr_iff Let_def split: entry_body.splits)

lemma apply_all_append:
  "apply_all C st (xs @ ys) = res_bind (apply_all C st xs) (\<lambda>st'. apply_all C st' ys)"
proof (induction xs arbitrary: st)
  case (Cons e xs)
  then show ?case
    by (cases "apply_entry C st e") simp_all
qed simp

lemma replay_append:
  "xs \<noteq> [] \<Longrightarrow> replay C (xs @ ys) = res_bind (replay C xs) (\<lambda>st. apply_all C st ys)"
proof (cases xs)
  case (Cons e es)
  then show ?thesis
    by (cases "genesis C e") (simp_all add: apply_all_append)
qed simp

text \<open>
  An invariant of replay may speak of the entries applied so far: it holds after the genesis
  entry and every applied entry extends it.
\<close>

locale log_invariant =
  fixes C :: crypto
    and inv :: "log_entry list \<Rightarrow> governance_state \<Rightarrow> bool"
  assumes start: "genesis C e = Inr st \<Longrightarrow> inv [e] st"
    and step: "inv h st \<Longrightarrow> apply_entry C st e = Inr st' \<Longrightarrow> inv (h @ [e]) st'"
begin

lemma apply_all_inv: "inv h st \<Longrightarrow> apply_all C st es = Inr st' \<Longrightarrow> inv (h @ es) st'"
proof (induction es arbitrary: h st)
  case (Cons e es)
  then obtain s where s: "apply_entry C st e = Inr s" "apply_all C s es = Inr st'"
    by (auto simp: res_bind_Inr_iff)
  have "inv ((h @ [e]) @ es) st'"
    by (rule Cons.IH [OF step [OF Cons.prems(1) s(1)] s(2)])
  then show ?case
    by simp
qed simp

lemma replay_inv: "replay C es = Inr st \<Longrightarrow> inv es st"
proof (cases es)
  case (Cons e rest)
  assume "replay C es = Inr st"
  then obtain s where "genesis C e = Inr s" "apply_all C s rest = Inr st"
    using Cons by (auto simp: res_bind_Inr_iff)
  then show ?thesis
    using apply_all_inv [OF start] Cons by simp
qed simp

end

section \<open>What a tier means\<close>

text \<open>
  The meaning of the governance tier, independent of the search: a capability confers governance
  when it is intrinsically governance, when its extension is registered at that tier, or when it
  lets its holder appoint members of a group that confers it.
\<close>

inductive confers :: "governance_state \<Rightarrow> capability \<Rightarrow> bool" for st where
  intrinsic: "intrinsic_tier c = Some Governance \<Longrightarrow> confers st c"
| registered: "extension_tier (gs_policy st) n = Some Governance \<Longrightarrow> confers st (Extension n)"
| unrestricted: "bm_get (gs_groups st) g = Some G \<Longrightarrow> g_capabilities G = CapAll \<Longrightarrow>
    confers st (ManageMembership g)"
| held: "bm_get (gs_groups st) g = Some G \<Longrightarrow> g_capabilities G = CapExplicit held \<Longrightarrow>
    c \<in> set held \<Longrightarrow> confers st c \<Longrightarrow> confers st (ManageMembership g)"

inductive_cases confers_ManageMembershipE: "confers st (ManageMembership g)"

text \<open>The same with the number of groups passed through, and along a path that avoids a set.\<close>

inductive confers_in :: "governance_state \<Rightarrow> nat \<Rightarrow> capability \<Rightarrow> bool" for st where
  "intrinsic_tier c = Some Governance \<Longrightarrow> confers_in st 0 c"
| "extension_tier (gs_policy st) n = Some Governance \<Longrightarrow> confers_in st 0 (Extension n)"
| "bm_get (gs_groups st) g = Some G \<Longrightarrow> g_capabilities G = CapAll \<Longrightarrow>
    confers_in st 0 (ManageMembership g)"
| "bm_get (gs_groups st) g = Some G \<Longrightarrow> g_capabilities G = CapExplicit held \<Longrightarrow>
    c \<in> set held \<Longrightarrow> confers_in st k c \<Longrightarrow> confers_in st (Suc k) (ManageMembership g)"

inductive confers_avoiding :: "governance_state \<Rightarrow> string set \<Rightarrow> capability \<Rightarrow> bool" for st where
  "intrinsic_tier c = Some Governance \<Longrightarrow> confers_avoiding st V c"
| "extension_tier (gs_policy st) n = Some Governance \<Longrightarrow> confers_avoiding st V (Extension n)"
| "g \<notin> V \<Longrightarrow> bm_get (gs_groups st) g = Some G \<Longrightarrow> g_capabilities G = CapAll \<Longrightarrow>
    confers_avoiding st V (ManageMembership g)"
| "g \<notin> V \<Longrightarrow> bm_get (gs_groups st) g = Some G \<Longrightarrow> g_capabilities G = CapExplicit held \<Longrightarrow>
    c \<in> set held \<Longrightarrow> confers_avoiding st (insert g V) c \<Longrightarrow>
    confers_avoiding st V (ManageMembership g)"

inductive_simps confers_avoiding_MM: "confers_avoiding st V (ManageMembership g)"
inductive_simps confers_avoiding_Ext: "confers_avoiding st V (Extension n)"

lemma confers_in_iff: "confers st c \<longleftrightarrow> (\<exists>k. confers_in st k c)"
proof
  show "confers st c \<Longrightarrow> \<exists>k. confers_in st k c"
    by (induction rule: confers.induct) (blast intro: confers_in.intros)+
  assume "\<exists>k. confers_in st k c"
  then obtain k where "confers_in st k c" ..
  then show "confers st c"
    by (induction rule: confers_in.induct) (blast intro: confers.intros)+
qed

lemma avoiding_confers: "confers_avoiding st V c \<Longrightarrow> confers st c"
  by (induction rule: confers_avoiding.induct) (blast intro: confers.intros)+

text \<open>A shortest derivation passes through no group twice, so it can avoid every group on it.\<close>

lemma confers_in_avoiding:
  "confers_in st k c \<Longrightarrow> (\<forall>g\<in>V. \<forall>m\<le>k. \<not> confers_in st m (ManageMembership g)) \<Longrightarrow>
     confers_avoiding st V c"
proof (induction k arbitrary: c V rule: less_induct)
  case (less k)
  show ?case
  proof (cases "\<exists>m<k. confers_in st m c")
    case True
    then obtain m where m: "m < k" "confers_in st m c"
      by blast
    then show ?thesis
      using less.prems(2) by (intro less.IH [OF m]) (meson less_imp_le order_trans)
  next
    case False
    from less.prems(1) show ?thesis
    proof (cases rule: confers_in.cases)
      case (4 g G held c' j)
      have "g \<notin> V"
        using less.prems 4(2) by blast
      moreover have "confers_avoiding st (insert g V) c'"
        using less.prems(2) False 4 by (intro less.IH [of j]) auto
      ultimately show ?thesis
        using 4 by (auto intro: confers_avoiding.intros)
    qed (use less.prems in \<open>auto intro: confers_avoiding.intros\<close>)
  qed
qed

lemma confers_avoiding_iff: "confers_avoiding st {} c \<longleftrightarrow> confers st c"
  using confers_in_avoiding [of st _ c "{}"] avoiding_confers confers_in_iff by auto

lemma tier_of_inner_cases:
  "intrinsic_tier c = Some t \<Longrightarrow> tier_of_inner st c vis = Inr t"
  "tier_of_inner st (Extension n) vis =
     ok_or (UnregisteredExtensionCapability n) (extension_tier (gs_policy st) n)"
  "tier_of_inner st (ManageMembership g) vis =
     (if g \<in> set vis then Inr Ordinary
      else (case bm_get (gs_groups st) g of
              None \<Rightarrow> Inl (UnknownGroup g)
            | Some target \<Rightarrow>
                (case g_capabilities target of
                   CapAll \<Rightarrow> Inr Governance
                 | CapExplicit held \<Rightarrow> tier_any st held (g # vis))))"
  by (simp_all add: tier_of_inner.simps)

lemma tier_inner_avoiding:
  "tier_of_inner st c vis = Inr t \<Longrightarrow> t = Governance \<longleftrightarrow> confers_avoiding st (set vis) c"
  "tier_any st cs vis = Inr t \<Longrightarrow>
     t = Governance \<longleftrightarrow> (\<exists>c\<in>set cs. confers_avoiding st (set vis) c)"
proof (induction st c vis and st cs vis arbitrary: t and t rule: tier_of_inner_tier_any.induct)
  case (1 st c visiting)
  show ?case
  proof (cases c)
    case (ManageMembership g)
    then show ?thesis
      using 1 by (auto simp: tier_of_inner_cases confers_avoiding_MM
          split: if_splits option.splits capability_set.splits)
  next
    case (Extension n)
    then show ?thesis
      using 1 by (auto simp: tier_of_inner_cases confers_avoiding_Ext)
  qed (use "1.prems" in \<open>auto simp: tier_of_inner_cases intro: confers_avoiding.intros
      elim: confers_avoiding.cases\<close>)
next
  case (3 st held rest visiting)
  then show ?case
    by (auto split: sum.splits tier.splits)
qed auto

lemma tier_of_confers: "tier_of st c = Inr t \<Longrightarrow> t = Governance \<longleftrightarrow> confers st c"
  using tier_inner_avoiding(1) [of st c "[]" t] by (simp add: tier_of_def confers_avoiding_iff)

text \<open>A resolution fails only on a name nobody registered or a group nobody defined.\<close>

definition references_known :: "governance_state \<Rightarrow> capability \<Rightarrow> bool" where
  "references_known st c =
     (case c of
        Extension n \<Rightarrow> extension_tier (gs_policy st) n \<noteq> None
      | ManageMembership g \<Rightarrow> bm_get (gs_groups st) g \<noteq> None
      | _ \<Rightarrow> True)"

definition all_references_known :: "governance_state \<Rightarrow> bool" where
  "all_references_known st \<longleftrightarrow>
     (\<forall>g G held c. bm_get (gs_groups st) g = Some G \<and> g_capabilities G = CapExplicit held
        \<and> c \<in> set held \<longrightarrow> references_known st c)"

lemma tier_inner_total:
  "all_references_known st \<Longrightarrow> references_known st c \<Longrightarrow> \<exists>t. tier_of_inner st c vis = Inr t"
  "all_references_known st \<Longrightarrow> \<forall>c\<in>set cs. references_known st c \<Longrightarrow>
     \<exists>t. tier_any st cs vis = Inr t"
proof (induction st c vis and st cs vis rule: tier_of_inner_tier_any.induct)
  case (1 st c visiting)
  show ?case
  proof (cases c)
    case (ManageMembership g)
    then obtain G where G: "bm_get (gs_groups st) g = Some G"
      using "1.prems"(2) by (auto simp: references_known_def)
    have "\<exists>t. tier_any st held (g # visiting) = Inr t"
      if "g_capabilities G = CapExplicit held" "g \<notin> set visiting" for held
      using that G ManageMembership "1.prems"(1)
      by (intro "1.IH") (auto simp: all_references_known_def)
    then show ?thesis
      using ManageMembership G
      by (auto simp: tier_of_inner_cases split: capability_set.splits)
  qed (use "1.prems" in \<open>auto simp: tier_of_inner_cases references_known_def\<close>)
next
  case (3 st held rest visiting)
  then show ?case
    by (fastforce split: sum.splits tier.splits)
qed auto

lemma check_ordinary_Inr:
  "check_ordinary st cs = Inr u \<longleftrightarrow> (\<forall>c\<in>set cs. tier_of st c = Inr Ordinary)"
  by (induction st cs rule: check_ordinary.induct) (auto split: sum.splits tier.splits)

lemma check_everyone_Inr:
  "check_everyone_invariant st = Inr u \<longleftrightarrow>
     (\<forall>G. bm_get (gs_groups st) everyone_id = Some G \<longrightarrow>
        (\<exists>held. g_capabilities G = CapExplicit held \<and> (\<forall>c\<in>set held. tier_of st c = Inr Ordinary)))"
  by (auto simp: check_everyone_invariant_def check_ordinary_Inr
      split: option.splits capability_set.splits)

lemma check_policy_coherence_Inr:
  "check_policy_coherence st = Inr u \<longleftrightarrow>
     \<not> (is_member_vote (governance_model (gs_policy st)) \<and> admission_mode (gs_policy st) = AutoAdmit)"
  by (simp add: check_policy_coherence_def)

section \<open>Cascading removal\<close>

text \<open>
  The edges of the provenance graph within a window: \<open>x\<close> added \<open>y\<close>, recently enough. A cascade
  removes what is reachable from the removed member.
\<close>

definition added_edges :: "i64 option \<Rightarrow> (b32, membership_record) btree_map \<Rightarrow> (b32 \<times> b32) set" where
  "added_edges cutoff m =
     {(x, y). \<exists>r. (y, r) \<in> set m \<and> added_by r = Some x \<and> within cutoff r}"

lemma set_doomed: "set (doomed_by cutoff m x) = {y. (x, y) \<in> added_edges cutoff m}"
  by (force simp: doomed_by_def added_edges_def)

lemma added_edges_filter:
  "added_edges cutoff (filter (\<lambda>p. fst p \<notin> D) m) = {(x, y) \<in> added_edges cutoff m. y \<notin> D}"
  by (auto simp: added_edges_def)

lemma reach_step:
  fixes E :: "('a \<times> 'a) set" and x y :: 'a and P :: "'a set"
  defines "D \<equiv> {y. (x, y) \<in> E}"
  defines "E' \<equiv> {(a, b) \<in> E. b \<notin> D}"
  shows "(\<exists>z\<in>insert x P. (z, y) \<in> E\<^sup>+) \<longleftrightarrow> y \<in> D \<or> (\<exists>z\<in>D \<union> P. (z, y) \<in> E'\<^sup>+)"
proof
  assume "\<exists>z\<in>insert x P. (z, y) \<in> E\<^sup>+"
  then obtain z where z: "z = x \<or> z \<in> P" "(z, y) \<in> E\<^sup>+"
    by auto
  from z(2) show "y \<in> D \<or> (\<exists>z\<in>D \<union> P. (z, y) \<in> E'\<^sup>+)"
  proof (induction rule: trancl_induct)
    case (base y)
    then show ?case
      using z(1) by (auto simp: D_def E'_def)
  next
    case (step y y')
    then show ?case
      by (cases "y' \<in> D") (auto simp: E'_def intro: trancl.intros)
  qed
next
  have mono: "(a, b) \<in> E'\<^sup>+ \<Longrightarrow> (a, b) \<in> E\<^sup>+" for a b
    by (rule trancl_mono) (auto simp: E'_def)
  assume "y \<in> D \<or> (\<exists>z\<in>D \<union> P. (z, y) \<in> E'\<^sup>+)"
  then show "\<exists>z\<in>insert x P. (z, y) \<in> E\<^sup>+"
    using mono by (auto simp: D_def intro: trancl_into_trancl2)
qed

lemma cascade_loop_reach:
  "cascade_loop cutoff m pending =
     filter (\<lambda>p. \<not> (\<exists>x\<in>set pending. (x, fst p) \<in> (added_edges cutoff m)\<^sup>+)) m"
proof (induction cutoff m pending rule: cascade_loop.induct)
  case (2 cutoff m x pending)
  let ?E = "added_edges cutoff m" and ?D = "{y. (x, y) \<in> added_edges cutoff m}"
  have IH: "cascade_loop cutoff m (x # pending) =
      filter (\<lambda>p. \<not> (\<exists>z\<in>?D \<union> set pending. (z, fst p) \<in> {(a, b) \<in> ?E. b \<notin> ?D}\<^sup>+))
        (filter (\<lambda>p. fst p \<notin> ?D) m)"
    using "2.IH" [OF refl]
    by (simp only: cascade_loop.simps Let_def fold_bm_remove set_append set_rev set_doomed
        added_edges_filter)
  show ?case
    unfolding IH filter_filter list.set
    by (rule filter_cong) (simp, subst reach_step, blast)
qed simp

lemma map_of_filter_fst: "map_of (filter (\<lambda>p. P (fst p)) m) k = (if P k then map_of m k else None)"
  by (induction m) auto

definition cascades_to ::
  "cascade option \<Rightarrow> i64 \<Rightarrow> (b32, membership_record) btree_map \<Rightarrow> b32 \<Rightarrow> b32 \<Rightarrow> bool" where
  "cascades_to casc removed_at members identity y =
     (case casc of
        None \<Rightarrow> False
      | Some c \<Rightarrow>
          (identity, y) \<in> (added_edges (cascade_cutoff removed_at c) (bm_remove identity members))\<^sup>+)"

lemma remove_membership_Inr:
  "remove_membership st grp identity casc t = Inr st' \<longleftrightarrow>
     (\<exists>g ms. bm_get (gs_groups st) grp = Some g \<and> bm_get (g_members g) identity \<noteq> None
        \<and> st' = st\<lparr>gs_groups := bm_insert grp (g\<lparr>g_members := ms\<rparr>) (gs_groups st)\<rparr>
        \<and> ms = filter (\<lambda>p. fst p \<noteq> identity \<and> \<not> cascades_to casc t (g_members g) identity (fst p))
                 (g_members g))"
proof (cases "bm_get (gs_groups st) grp")
  case (Some g)
  have "(case casc of None \<Rightarrow> bm_remove identity (g_members g)
      | Some c \<Rightarrow> cascade_loop (cascade_cutoff t c) (bm_remove identity (g_members g)) [identity])
    = filter (\<lambda>p. fst p \<noteq> identity \<and> \<not> cascades_to casc t (g_members g) identity (fst p)) (g_members g)"
    by (cases casc) (simp_all add: cascades_to_def cascade_loop_reach bm_remove_def)
  then show ?thesis
    using Some by (auto simp: remove_membership_def Let_def)
qed (simp add: remove_membership_def)

text \<open>The window is measured exactly, whatever the clock, as long as it is not negative.\<close>

lemma within_window:
  assumes "0 \<le> sint w"
  shows "within (Some (plus_millis t (- w))) r \<longleftrightarrow> sint t - sint w \<le> sint (added_at r)"
proof -
  have range: "- (2 ^ 63) \<le> sint v \<and> sint v < 2 ^ 63" for v :: i64
    using sint_range_size [of v] by (simp add: word_size)
  have neg: "sint (- w) = - sint w"
    using range [of w] assms by (simp add: sint_word_ariths signed_take_bit_int_eq_self)
  have "sint (of_int x :: i64) = x" if "- (2 ^ 63) \<le> x" "x < 2 ^ 63" for x
    using that by (simp add: signed_of_int signed_take_bit_int_eq_self)
  then have "sint (plus_millis t (- w)) = max (- (2 ^ 63)) (sint t - sint w)"
    using range [of t] range [of w] assms neg
    by (simp add: plus_millis_def saturating_add_i64_def Let_def i64_max_def i64_min_def max_def
        sint_word_ariths signed_take_bit_int_eq_self)
  then show ?thesis
    using range [of "added_at r"] by (simp add: within_def)
qed

section \<open>Well-formed states\<close>

definition groups_wf :: "(string, group) btree_map \<Rightarrow> bool" where
  "groups_wf gs \<longleftrightarrow>
     bm_ok gs \<and> (\<forall>g G. bm_get gs g = Some G \<longrightarrow> g_id G = g \<and> bm_ok (g_members G))
     \<and> bm_get gs founders_id \<noteq> None \<and> bm_get gs everyone_id \<noteq> None"

definition devices_wf :: "(b32, device_certificate) btree_map \<Rightarrow> b32 btree_set \<Rightarrow> bool" where
  "devices_wf certs revoked \<longleftrightarrow>
     bm_ok certs \<and> bs_ok revoked
     \<and> (\<forall>d c. bm_get certs d = Some c \<longrightarrow> dc_device c = d \<and> d \<notin> set revoked)"

definition votes_wf :: "crypto \<Rightarrow> (b32, vote_proposal) btree_map \<Rightarrow> bool" where
  "votes_wf C votes \<longleftrightarrow> bm_ok votes \<and> (\<forall>i p. bm_get votes i = Some p \<longrightarrow> vote_id C p = i)"

definition state_wf :: "crypto \<Rightarrow> governance_state \<Rightarrow> bool" where
  "state_wf C st \<longleftrightarrow>
     groups_wf (gs_groups st) \<and> devices_wf (gs_device_certificates st) (gs_revoked_devices st)
     \<and> votes_wf C (gs_open_votes st) \<and> bs_ok (gs_passed_votes st) \<and> bs_ok (gs_delisted st)
     \<and> bm_ok (gs_app_names st)"

lemma groups_wf_insert:
  "groups_wf gs \<Longrightarrow> g_id G = g \<Longrightarrow> bm_ok (g_members G) \<Longrightarrow> groups_wf (bm_insert g G gs)"
  by (auto simp: groups_wf_def)

lemma groups_wf_get: "groups_wf gs \<Longrightarrow> bm_get gs g = Some G \<Longrightarrow> g_id G = g \<and> bm_ok (g_members G)"
  by (simp add: groups_wf_def)

lemma founders_not_everyone [simp]: "founders_id \<noteq> everyone_id" "everyone_id \<noteq> founders_id"
  by (simp_all add: founders_id_def everyone_id_def)

lemma genesis_groups:
  "bm_get (gs_groups (genesis_state network policy caps author t)) g =
     (if g = founders_id then
        Some \<lparr>g_id = founders_id, g_capabilities = CapAll,
              g_members = [(author, \<lparr>added_by = None, added_at = t, via_invite = None\<rparr>)]\<rparr>
      else if g = everyone_id then Some (new_group everyone_id (CapExplicit caps))
      else None)"
  by (auto simp: genesis_state_def Let_def bm_collect_def new_group_def)

lemma genesis_wf: "state_wf C (genesis_state network policy caps author t)"
proof -
  have "bm_ok (gs_groups (genesis_state network policy caps author t))"
    by (simp add: genesis_state_def Let_def)
  then have "groups_wf (gs_groups (genesis_state network policy caps author t))"
    by (simp add: groups_wf_def genesis_groups new_group_def)
  then show ?thesis
    by (simp add: state_wf_def devices_wf_def votes_wf_def genesis_state_def Let_def)
qed

lemma mutate_groups_wf:
  assumes "groups_wf (gs_groups st)" and "mutate C st e = Inr st'"
  shows "groups_wf (gs_groups st')"
proof (cases "le_body e")
  case (BodyDefineGroup grp caps)
  then show ?thesis
    using assms groups_wf_get [OF assms(1), of grp]
    by (auto simp: mutate_def set_group_capabilities_def new_group_def intro!: groups_wf_insert
        split: option.splits)
next
  case (MembershipChange grp x action)
  then show ?thesis
    using assms groups_wf_get [OF assms(1), of grp]
    by (cases action)
      (auto simp: mutate_def remove_membership_Inr intro!: groups_wf_insert split: option.splits)
qed (use assms in \<open>auto simp: mutate_def split: option.splits if_splits sum.splits
    vote_outcome.splits moderation_action.splits\<close>)

lemmas mutate_unfold = mutate_def set_group_capabilities_def remove_membership_Inr
lemmas mutate_splits = entry_body.splits membership_action.splits option.splits if_splits sum.splits
  vote_outcome.splits moderation_action.splits

lemma mutate_devices_wf:
  assumes "devices_wf (gs_device_certificates st) (gs_revoked_devices st)" and "mutate C st e = Inr st'"
  shows "devices_wf (gs_device_certificates st') (gs_revoked_devices st')"
  using assms by (auto simp: mutate_unfold devices_wf_def split: mutate_splits)

lemma mutate_votes_wf:
  assumes "votes_wf C (gs_open_votes st)" and "mutate C st e = Inr st'"
  shows "votes_wf C (gs_open_votes st')"
  using assms by (auto simp: mutate_unfold votes_wf_def split: mutate_splits)

lemma mutate_sets_ok:
  assumes "mutate C st e = Inr st'"
  shows "bs_ok (gs_passed_votes st) \<Longrightarrow> bs_ok (gs_passed_votes st')"
    and "bs_ok (gs_delisted st) \<Longrightarrow> bs_ok (gs_delisted st')"
    and "bm_ok (gs_app_names st) \<Longrightarrow> bm_ok (gs_app_names st')"
  using assms by (auto simp: mutate_unfold split: mutate_splits)

lemma mutate_wf: "state_wf C st \<Longrightarrow> mutate C st e = Inr st' \<Longrightarrow> state_wf C st'"
  using mutate_groups_wf mutate_devices_wf mutate_votes_wf mutate_sets_ok unfolding state_wf_def by metis

interpretation wf: log_invariant C "\<lambda>_. state_wf C" for C
  by unfold_locales (auto simp: genesis_Inr apply_entry_Inr genesis_wf intro: mutate_wf)

interpretation checked: log_invariant C
  "\<lambda>_ st. check_everyone_invariant st = Inr () \<and> check_policy_coherence st = Inr ()" for C
  by unfold_locales (auto simp: genesis_Inr apply_entry_Inr)

section \<open>Who may change what\<close>

lemma require_simps [simp]:
  "require_member st a = Inr u \<longleftrightarrow> is_member st a"
  "require_capability st a c = Inr u \<longleftrightarrow> identity_holds st a c"
  "authorize_device_record st a s = Inr u \<longleftrightarrow> a = s \<and> is_member st a"
  by (auto simp: require_member_def require_capability_def authorize_device_record_def)

lemma list_ex_values:
  "bm_ok m \<Longrightarrow> list_ex P (bm_values m) \<longleftrightarrow> (\<exists>k v. bm_get m k = Some v \<and> P v)"
  by (simp add: list_ex_iff) (metis set_bm_values)

lemma identity_holds_iff:
  "groups_wf (gs_groups st) \<Longrightarrow> identity_holds st x c \<longleftrightarrow>
     (\<exists>g G. bm_get (gs_groups st) g = Some G \<and> group_contains G x \<and> grants (g_capabilities G) c)"
  by (simp add: identity_holds_def groups_wf_def list_ex_values)

lemma is_member_iff:
  "groups_wf (gs_groups st) \<Longrightarrow> is_member st x \<longleftrightarrow>
     (\<exists>g G. bm_get (gs_groups st) g = Some G \<and> group_contains G x)"
  by (simp add: is_member_def groups_wf_def list_ex_values)

text \<open>The capability an entry's author must hold; \<open>None\<close> where membership is enough.\<close>

definition required_capability :: "governance_state \<Rightarrow> log_entry \<Rightarrow> capability option" where
  "required_capability st e =
     (case le_body e of
        BodyDefineGroup _ _ \<Rightarrow> Some DefineGroup
      | PolicyChange _ \<Rightarrow> Some DefinePolicy
      | ContentTypePolicy _ \<Rightarrow> Some DefineContentPolicy
      | Moderation _ \<Rightarrow> Some ModerateContent
      | AppEntry _ _ required _ \<Rightarrow> Some required
      | AppNameRegistration name _ \<Rightarrow>
          Some (Extension (if bm_contains (gs_app_names st) name then reclaim_app_name
            else register_app_name))
      | EpochRotation MemberAdmitted _ \<Rightarrow> Some ApproveNode
      | EpochRotation MemberRevoked _ \<Rightarrow> Some RevokeNode
      | MembershipChange grp x (Remove _) \<Rightarrow>
          if x = le_author e then None else Some (ManageMembership grp)
      | MembershipChange grp _ (Add _) \<Rightarrow>
          if is_member_vote (governance_model (gs_policy st)) then None
          else Some (ManageMembership grp)
      | _ \<Rightarrow> None)"

lemma identity_holds_member: "identity_holds st x c \<Longrightarrow> is_member st x"
  by (auto simp: identity_holds_def is_member_def list_ex_iff)

lemma authorize_required:
  "authorize C st e = Inr () \<Longrightarrow>
     (case required_capability st e of Some c \<Rightarrow> identity_holds st (le_author e) c
      | None \<Rightarrow> is_member st (le_author e))"
  by (auto simp: authorize_def required_capability_def Let_def split: entry_body.splits
      membership_action.splits rotation_reason.splits if_splits sum.splits)

section \<open>Histories\<close>

fun is_rotation :: "entry_body \<Rightarrow> bool" where
  "is_rotation (EpochRotation _ _) = True"
| "is_rotation _ = False"

definition rotations :: "log_entry list \<Rightarrow> log_entry list" where
  "rotations h = filter (\<lambda>e. is_rotation (le_body e)) h"

definition epoch_inv :: "crypto \<Rightarrow> log_entry list \<Rightarrow> governance_state \<Rightarrow> bool" where
  "epoch_inv C h st \<longleftrightarrow>
     gs_epoch st = of_nat (length (rotations h))
     \<and> gs_epoch_rotation_ref st =
         (if rotations h = [] then None else Some (entry_hash C (last (rotations h))))"

definition enrolled_by :: "crypto \<Rightarrow> b32 \<Rightarrow> log_entry list \<Rightarrow> device_certificate \<Rightarrow> bool" where
  "enrolled_by C network h cert \<longleftrightarrow>
     (\<exists>e\<in>set h. le_body e = DeviceEnrollment cert \<and> le_author e = dc_identity cert
        \<and> dc_network cert = network \<and> dc_verify C cert = Inr ())"

definition device_inv :: "crypto \<Rightarrow> log_entry list \<Rightarrow> governance_state \<Rightarrow> bool" where
  "device_inv C h st \<longleftrightarrow>
     (\<forall>d cert. bm_get (gs_device_certificates st) d = Some cert \<longrightarrow>
        dc_device cert = d \<and> enrolled_by C (gs_network st) h cert)"

definition vote_backed :: "crypto \<Rightarrow> log_entry list \<Rightarrow> b32 \<Rightarrow> bool" where
  "vote_backed C h s \<longleftrightarrow>
     (\<exists>p c. VoteProposed p \<in> le_body ` set h \<and> VoteOutcomeRecorded c \<in> le_body ` set h
        \<and> vp_subject p = s \<and> cert_verify C c p = Inr Passed)"

definition vote_inv :: "crypto \<Rightarrow> log_entry list \<Rightarrow> governance_state \<Rightarrow> bool" where
  "vote_inv C h st \<longleftrightarrow>
     (\<forall>i p. bm_get (gs_open_votes st) i = Some p \<longrightarrow> VoteProposed p \<in> le_body ` set h)
     \<and> (\<forall>s\<in>set (gs_passed_votes st). vote_backed C h s)"

lemma mutate_network: "mutate C st e = Inr st' \<Longrightarrow> gs_network st' = gs_network st"
  by (auto simp: mutate_unfold split: mutate_splits)

lemma mutate_epoch:
  "mutate C st e = Inr st' \<Longrightarrow>
     gs_epoch st' = (if is_rotation (le_body e) then gs_epoch st + 1 else gs_epoch st)
     \<and> gs_epoch_rotation_ref st' =
         (if is_rotation (le_body e) then Some (entry_hash C e) else gs_epoch_rotation_ref st)"
  by (auto simp: mutate_unfold split: mutate_splits)

interpretation epoch: log_invariant C "epoch_inv C" for C
proof
  fix e st
  assume "genesis C e = Inr st"
  then show "epoch_inv C [e] st"
    by (auto simp: genesis_Inr epoch_inv_def rotations_def genesis_state_def Let_def)
next
  fix h st e st'
  assume "epoch_inv C h st" and "apply_entry C st e = Inr st'"
  then show "epoch_inv C (h @ [e]) st'"
    using mutate_epoch [of C st e st'] by (auto simp: apply_entry_Inr epoch_inv_def rotations_def)
qed

lemma enrolled_by_mono: "enrolled_by C n h cert \<Longrightarrow> enrolled_by C n (h @ [e]) cert"
  by (auto simp: enrolled_by_def)

lemma mutate_certificate:
  "mutate C st e = Inr st' \<Longrightarrow> bm_get (gs_device_certificates st') d = Some cert \<Longrightarrow>
     bm_get (gs_device_certificates st) d = Some cert
     \<or> le_body e = DeviceEnrollment cert \<and> dc_device cert = d"
  by (auto simp: mutate_unfold split: mutate_splits)

lemma authorize_enrollment:
  "authorize C st e = Inr () \<Longrightarrow> le_body e = DeviceEnrollment cert \<Longrightarrow>
     le_author e = dc_identity cert \<and> dc_network cert = gs_network st \<and> dc_verify C cert = Inr ()
     \<and> is_member st (le_author e)"
  by (auto simp: authorize_def Let_def dc_verify_for_network_Inr split: sum.splits)

interpretation device: log_invariant C "device_inv C" for C
proof
  fix e st
  assume "genesis C e = Inr st"
  then show "device_inv C [e] st"
    by (auto simp: genesis_Inr device_inv_def genesis_state_def Let_def)
next
  fix h st e st'
  assume inv: "device_inv C h st" and ap: "apply_entry C st e = Inr st'"
  show "device_inv C (h @ [e]) st'"
    unfolding device_inv_def
  proof (intro allI impI)
    fix d cert
    assume "bm_get (gs_device_certificates st') d = Some cert"
    then consider "bm_get (gs_device_certificates st) d = Some cert"
      | "le_body e = DeviceEnrollment cert" "dc_device cert = d"
      using mutate_certificate [of C st e st' d cert] ap by (auto simp: apply_entry_Inr)
    then show "dc_device cert = d \<and> enrolled_by C (gs_network st') (h @ [e]) cert"
      using inv ap mutate_network [of C st e st'] authorize_enrollment [of C st e cert]
      by cases (auto simp: apply_entry_Inr device_inv_def intro: enrolled_by_mono,
          auto simp: enrolled_by_def)
  qed
qed

lemma vote_backed_mono: "vote_backed C h s \<Longrightarrow> vote_backed C (h @ [e]) s"
  by (auto simp: vote_backed_def)

lemma mutate_open_vote:
  "mutate C st e = Inr st' \<Longrightarrow> bm_get (gs_open_votes st') i = Some p \<Longrightarrow>
     bm_get (gs_open_votes st) i = Some p \<or> le_body e = VoteProposed p"
  by (auto simp: mutate_unfold split: mutate_splits)

lemma mutate_passed_vote:
  "mutate C st e = Inr st' \<Longrightarrow> s \<in> set (gs_passed_votes st') \<Longrightarrow>
     s \<in> set (gs_passed_votes st)
     \<or> (\<exists>p c. le_body e = VoteOutcomeRecorded c \<and> bm_get (gs_open_votes st) (qc_vote_id c) = Some p
          \<and> cert_verify C c p = Inr Passed \<and> vp_subject p = s)"
  by (auto simp: mutate_unfold split: mutate_splits)

interpretation vote: log_invariant C "vote_inv C" for C
proof
  fix e st
  assume "genesis C e = Inr st"
  then show "vote_inv C [e] st"
    by (auto simp: genesis_Inr vote_inv_def genesis_state_def Let_def)
next
  fix h st e st'
  assume inv: "vote_inv C h st" and "apply_entry C st e = Inr st'"
  then have mu: "mutate C st e = Inr st'"
    by (simp add: apply_entry_Inr)
  have "vote_backed C (h @ [e]) s" if s: "s \<in> set (gs_passed_votes st')" for s
    using mutate_passed_vote [OF mu s]
  proof
    assume "s \<in> set (gs_passed_votes st)"
    then show ?thesis
      using inv by (simp add: vote_inv_def vote_backed_mono)
  next
    assume "\<exists>p c. le_body e = VoteOutcomeRecorded c \<and> bm_get (gs_open_votes st) (qc_vote_id c) = Some p
        \<and> cert_verify C c p = Inr Passed \<and> vp_subject p = s"
    then show ?thesis
      using inv by (fastforce simp: vote_inv_def vote_backed_def)
  qed
  then show "vote_inv C (h @ [e]) st'"
    using inv mutate_open_vote [OF mu] by (fastforce simp: vote_inv_def)
qed

section \<open>Membership\<close>

definition in_group :: "governance_state \<Rightarrow> string \<Rightarrow> b32 \<Rightarrow> bool" where
  "in_group st g x =
     (case bm_get (gs_groups st) g of None \<Rightarrow> False | Some G \<Rightarrow> group_contains G x)"

definition group_capabilities :: "governance_state \<Rightarrow> string \<Rightarrow> capability_set option" where
  "group_capabilities st g = map_option g_capabilities (bm_get (gs_groups st) g)"

lemma mutate_in_group:
  "mutate C st e = Inr st' \<Longrightarrow>
     in_group st' g x =
     (case le_body e of
        MembershipChange grp y (Add _) \<Rightarrow> (grp = g \<and> y = x) \<or> in_group st g x
      | MembershipChange grp y (Remove casc) \<Rightarrow>
          in_group st g x
          \<and> \<not> (grp = g \<and> (x = y
               \<or> cascades_to casc (le_timestamp e) (g_members (the (bm_get (gs_groups st) grp))) y x))
      | _ \<Rightarrow> in_group st g x)"
  by (cases "le_body e")
    (auto simp: mutate_unfold in_group_def group_contains_def bm_contains_def new_group_def
      map_of_filter_fst [of "\<lambda>k. k \<noteq> _ \<and> \<not> cascades_to _ _ _ _ k"] split: mutate_splits)

lemma mutate_group_capabilities:
  "mutate C st e = Inr st' \<Longrightarrow>
     group_capabilities st' g =
     (case le_body e of
        BodyDefineGroup grp caps \<Rightarrow> if grp = g then Some caps else group_capabilities st g
      | _ \<Rightarrow> group_capabilities st g)"
  by (cases "le_body e")
    (auto simp: mutate_unfold group_capabilities_def new_group_def split: mutate_splits)

end
