(* ===== verification/Sample.thy ===== *)
theory Sample
  imports State
begin

text \<open>
  A concrete network on which properties are exercised: a deterministic stand-in for BLAKE3 and
  Ed25519 that meets \<open>sign_correct\<close>, and a short governance log with a definition of a group,
  admissions, a device, a rotation and a cascading removal.

  The stand-in digest of a byte string is its length, so two entries collide only when their
  encodings are equally long; the stand-in signature is the secret key.
\<close>

section \<open>Stand-in primitives\<close>

definition demo :: crypto where
  "demo = \<lparr>blake3 = (\<lambda>b. of_nat (length b)), key_valid = (\<lambda>_. True), ed_public = (\<lambda>k. k),
     ed_sign = (\<lambda>k _. ucast k), ed_verify = (\<lambda>k _ s. s = ucast k)\<rparr>"

lemma demo_simps [simp]:
  "blake3 demo b = of_nat (length b)" "key_valid demo k" "ed_public demo k = k"
  "ed_sign demo k m = ucast k" "ed_verify demo k m s \<longleftrightarrow> s = ucast k"
  by (simp_all add: demo_def)

lemma demo_sign_correct: "sign_correct demo"
  by (simp add: sign_correct_def)

lemma put_lengths [simp]:
  "length (put_u8 v) = 1" "length (put_variant v) = 1" "length (put_bool t) = 1"
  "length (put_u32 w) = 4" "length (put_u64 x) = 8" "length (put_i64 y) = 8"
  "length (put_fixed32 a) = 32" "length (put_fixed64 b) = 64"
  "length (put_bytes bs) = 8 + length bs" "length (put_str s) = 8 + length s"
  "length (enc_domain s) = 8 + length s"
  by (simp_all add: put_u8_def put_variant_def put_bool_def put_u32_def put_u64_def put_i64_def
      put_fixed32_def put_fixed64_def put_bytes_def put_str_def enc_domain_def)

definition who :: "b32 \<Rightarrow> per_network_identity" where
  "who k = \<lparr>pni_network = 7, pni_secret = k\<rparr>"

lemma who_simps [simp]: "pni_id demo (who k) = k" "pni_network (who k) = 7"
  "pni_sign demo (who k) m = ucast k"
  by (simp_all add: who_def pni_id_def pni_sign_def)

lemma created [simp]:
  "le_body (entry_create demo (who k) p t b) = b"
  "le_parent (entry_create demo (who k) p t b) = p"
  "le_author (entry_create demo (who k) p t b) = k"
  "le_timestamp (entry_create demo (who k) p t b) = t"
  "entry_verify_signature demo (entry_create demo (who k) p t b) = Inr ()"
  by (simp_all add: entry_create_verifies demo_sign_correct) (simp_all add: entry_create_def)

section \<open>A log\<close>

definition sample_device :: device_certificate where
  "sample_device = dc_issue demo (who 1) 90 ''laptop'' 5"

definition sample_log :: "log_entry list" where
  "sample_log =
    [entry_create demo (who 1) None 0 (Genesis 7 conservative_default [ReadContent]),
     entry_create demo (who 1) (Some 1) 10
       (BodyDefineGroup ''mods'' (CapExplicit [ModerateContent, ManageMembership everyone_id])),
     entry_create demo (who 1) (Some 1) 20 (MembershipChange ''mods'' 2 (Add None)),
     entry_create demo (who 1) (Some 1) 30 (MembershipChange everyone_id 2 (Add None)),
     entry_create demo (who 2) (Some 1) 40 (MembershipChange everyone_id 3 (Add None)),
     entry_create demo (who 1) (Some 1) 50 (DeviceEnrollment sample_device),
     entry_create demo (who 1) (Some 1) 60 (EpochRotation MemberAdmitted [1, 2])]"

definition sample_removal :: log_entry where
  "sample_removal =
     entry_create demo (who 1) (Some 1) 70
       (MembershipChange everyone_id 2 (Remove (Some \<lparr>window_millis = None\<rparr>)))"

definition sample_policy :: network_policy where
  "sample_policy = conservative_default\<lparr>governance_model := MemberVote founders_id 1 100\<rparr>"

lemmas sample_defs =
  genesis_def apply_entry_def genesis_state_def authorize_def mutate_def is_member_def
  new_group_def bm_collect_def founders_id_def everyone_id_def check_everyone_invariant_def
  tier_of_def tier_of_inner_cases check_policy_coherence_def conservative_default_def Let_def
  identity_holds_def bm_values_def group_contains_def bm_contains_def require_capability_def
  require_member_def authorize_device_record_def set_group_capabilities_def
  dc_verify_for_network_Inr dc_verify_Inr dc_issue_def

lemma sample_device_ok: "dc_verify_for_network demo sample_device 7 = Inr ()"
  by (simp add: sample_device_def dc_verify_for_network_Inr dc_verify_Inr dc_issue_def)

definition sample_state :: governance_state where
  "sample_state =
     \<lparr>gs_network = 7, gs_policy = conservative_default,
      gs_groups =
       [(''Founders'', \<lparr>g_id = ''Founders'', g_capabilities = CapAll,
           g_members = [(1, \<lparr>added_by = None, added_at = 0, via_invite = None\<rparr>)]\<rparr>),
        (''everyone'', \<lparr>g_id = ''everyone'', g_capabilities = CapExplicit [ReadContent],
           g_members = [(2, \<lparr>added_by = Some 1, added_at = 30, via_invite = None\<rparr>),
                        (3, \<lparr>added_by = Some 2, added_at = 40, via_invite = None\<rparr>)]\<rparr>),
        (''mods'', \<lparr>g_id = ''mods'',
           g_capabilities = CapExplicit [ModerateContent, ManageMembership ''everyone''],
           g_members = [(2, \<lparr>added_by = Some 1, added_at = 20, via_invite = None\<rparr>)]\<rparr>)],
      gs_device_certificates = [(90, sample_device)], gs_revoked_devices = [], gs_delisted = [],
      gs_epoch = 1, gs_app_names = [], gs_open_votes = [], gs_passed_votes = [],
      gs_epoch_rotation_ref = Some (entry_hash demo (last sample_log))\<rparr>"

lemma sample_replay: "replay demo sample_log = Inr sample_state"
  by (simp add: sample_log_def sample_defs sample_device_ok sample_state_def)
    (simp add: sample_device_def dc_issue_def)

end
