(* ===== verification/Replay.thy ===== *)
theory Replay
  imports Sample
begin

text \<open>
  What replaying a governance log guarantees: the ceiling on the default group, who may change
  what, cascading removal, devices, epochs, and the votes that stand behind an admission.
\<close>

section \<open>Votes\<close>

text \<open>
  C9. A certificate that verifies as passed carries, for its own proposal, qualifying approving
  ballots (signed, in time, for this vote) of at least \<open>quorum\<close> different members of the frozen
  electorate.
\<close>

theorem cert_passed_quorum:
  assumes "cert_verify C c p = Inr Passed"
  shows "unat (vp_quorum p) \<le> card (approving_voters C p (qc_ballots c))
    \<and> approving_voters C p (qc_ballots c) \<subseteq> set (vp_snapshot p) \<and> qc_vote_id c = vote_id C p"
  using passed_quorum [OF assms] assms by (simp add: cert_verify_Inr)

definition sample_proposal :: vote_proposal where
  "sample_proposal =
     \<lparr>vp_subject = 11, vp_electorate = ''Founders'', vp_snapshot = [1, 2], vp_snapshot_ref = 5,
      vp_close_time = 100, vp_quorum = 2\<rparr>"

definition sample_ballots :: "ballot list" where
  "sample_ballots =
     [ballot_cast demo (who 1) (vote_id demo sample_proposal) True 50,
      ballot_cast demo (who 2) (vote_id demo sample_proposal) True 60]"

lemma sample_ballots_eligible:
  "list_all (eligible demo sample_proposal) sample_ballots"
  by (simp add: sample_ballots_def eligible_def ballot_cast_def ballot_verify_def vk_verify_def
      sample_proposal_def)

definition sample_certificate :: quorum_certificate where
  "sample_certificate =
     \<lparr>qc_vote_id = vote_id demo sample_proposal, qc_ballots = sample_ballots,
      qc_merkle_root = merkle_root demo (map (ballot_hash demo) sample_ballots)\<rparr>"

lemma sample_certificate_passes: "cert_verify demo sample_certificate sample_proposal = Inr Passed"
  using sample_ballots_eligible
  by (simp add: cert_verify_Inr sample_certificate_def)
    (simp add: sample_ballots_def approvals_of_def ballot_cast_def sample_proposal_def)

theorem cert_passed_quorum_witness:
  "cert_verify demo sample_certificate sample_proposal = Inr Passed
    \<and> 2 \<le> card (approving_voters demo sample_proposal (qc_ballots sample_certificate))"
  using cert_passed_quorum [OF sample_certificate_passes] sample_certificate_passes
  by (simp add: sample_proposal_def)

text \<open>
  Any two nodes that hold the same ballots assemble the same certificate, in whatever order
  the ballots reached them: conflicting ballots of one voter are resolved alike, the ballots are
  sorted alike and the Merkle root agrees.
\<close>

theorem assemble_order_independent:
  assumes "set bs = set bs'" and "inj_on (ballot_hash C) (set bs)"
  shows "assemble C p bs = assemble C p bs'"
  using collected_unique [OF collected_start [of C "vote_id C p" bs] _ assms(2)]
    collected_start [of C "vote_id C p" bs'] assms(1)
  by (simp add: assemble_def Let_def)

theorem assemble_order_independent_witness:
  "assemble demo sample_proposal [hd sample_ballots] =
     assemble demo sample_proposal [hd sample_ballots, hd sample_ballots]"
  by (rule assemble_order_independent) simp_all

lemma assembled_verdict:
  assumes "\<forall>b\<in>set bs. bl_vote_id b = vote_id C p \<longrightarrow> eligible C p b"
    and "\<exists>b\<in>set bs. bl_vote_id b = vote_id C p"
    and "length bs < 2 ^ 32" and "inj_on (ballot_hash C) (set bs)"
  shows "cert_verify C (assemble C p bs) p =
    Inr (if unat (vp_quorum p) \<le> card {v. \<exists>b. best_for C (vote_id C p) (set bs) v b \<and> bl_approve b}
         then Passed else Failed)"
proof -
  let ?m = "fold (collect_ballot C (vote_id C p)) bs []"
  let ?vs = "bm_values ?m" and ?bs = "qc_ballots (assemble C p bs)"
  have col: "collected C (vote_id C p) (set bs) ?m"
    by (rule collected_start)
  have bs: "?bs = sort_key (ballot_hash C) ?vs"
    by (simp add: assemble_def Let_def)
  have best: "b \<in> set ?bs \<longleftrightarrow> (\<exists>v. best_for C (vote_id C p) (set bs) v b)" for b
    using collected_best [OF col assms(4)] by (simp add: bs)
  have "distinct (map bl_voter ?vs)"
    by (rule collected_values(2) [OF col])
  then have dist: "distinct (map bl_voter ?bs)"
    unfolding bs by (metis mset_map mset_sort mset_eq_imp_distinct_iff)
  have "?vs \<noteq> []"
    using assms(2) col by (cases ?m) (auto simp: collected_def bm_values_def)
  then have ne: "?bs \<noteq> []"
    unfolding bs by (metis mset_sort mset_zero_iff)
  have el: "list_all (eligible C p) ?bs"
    using best assms(1) by (auto simp: list_all_iff best_for_def)
  have "set ?bs \<subseteq> set bs"
    using best by (auto simp: best_for_def)
  moreover have "distinct ?bs"
    using dist distinct_map by blast
  ultimately have "length ?bs \<le> length bs"
    by (metis card_length card_mono distinct_card finite_set le_trans)
  then have "approvals_of ?bs < 2 ^ 32"
    using assms(3) length_filter_le [of bl_approve ?bs] unfolding approvals_of_def by linarith
  then have u: "unat (of_nat (approvals_of ?bs) :: u32) = approvals_of ?bs"
    by (simp add: unat_of_nat)
  have "{v. \<exists>b. best_for C (vote_id C p) (set bs) v b \<and> bl_approve b} = approving_voters C p ?bs"
    using best el by (auto simp: approving_voters_def list_all_iff best_for_def)
  then show ?thesis
    using u el dist ne approvals_card [OF dist el]
    by (subst cert_verify_Inr) (simp add: word_le_nat_alt, simp add: assemble_def Let_def)
qed

text \<open>
  A certificate assembled from qualifying ballots verifies, and it passes exactly when the
  voters whose decisive ballot (the earliest, ties broken by digest) approves reach the quorum.
\<close>

theorem assemble_verifies:
  assumes "\<forall>b\<in>set bs. bl_vote_id b = vote_id C p \<longrightarrow> eligible C p b"
    and "\<exists>b\<in>set bs. bl_vote_id b = vote_id C p"
    and "length bs < 2 ^ 32" and "inj_on (ballot_hash C) (set bs)"
  shows "cert_verify C (assemble C p bs) p =
    Inr (if unat (vp_quorum p) \<le> card {v. \<exists>b. best_for C (vote_id C p) (set bs) v b \<and> bl_approve b}
         then Passed else Failed)"
  by (rule assembled_verdict [OF assms])

theorem assemble_verifies_witness:
  "cert_verify demo (assemble demo sample_proposal [hd sample_ballots]) sample_proposal = Inr Failed"
proof -
  let ?b = "hd sample_ballots"
  have b: "bl_vote_id ?b = vote_id demo sample_proposal" "eligible demo sample_proposal ?b"
    using sample_ballots_eligible by (simp_all add: sample_ballots_def ballot_cast_def)
  have "{v. \<exists>b. best_for demo (vote_id demo sample_proposal) (set [?b]) v b \<and> bl_approve b}
      \<subseteq> {bl_voter ?b}"
    by (auto simp: best_for_def)
  then have "card {v. \<exists>b. best_for demo (vote_id demo sample_proposal) (set [?b]) v b \<and> bl_approve b} \<le> 1"
    using card_mono [of "{bl_voter ?b}"] by force
  then show ?thesis
    using assemble_verifies [of "[?b]" demo sample_proposal] b
    by (simp add: sample_proposal_def)
qed

section \<open>Tiers and the ceiling on the default group\<close>

text \<open>
  C6. Tier resolution is exact: in a state whose groups refer only to defined groups and
  registered names, it answers Governance for precisely the capabilities that confer governance,
  directly, by registration, or through any chain of groups whose membership they control, cycles
  included.
\<close>

theorem tier_of_exact:
  assumes "all_references_known st" and "references_known st c"
  shows "tier_of st c = Inr (if confers st c then Governance else Ordinary)"
proof -
  obtain t where "tier_of st c = Inr t"
    using tier_inner_total(1) [OF assms] by (auto simp: tier_of_def)
  then show ?thesis
    using tier_of_confers [of st c t] by (cases t) auto
qed

lemma sample_references_known: "all_references_known sample_state"
  by (auto simp: all_references_known_def references_known_def sample_state_def split: if_splits)

theorem tier_of_exact_witness:
  "tier_of sample_state (ManageMembership ''mods'') =
     Inr (if confers sample_state (ManageMembership ''mods'') then Governance else Ordinary)
   \<and> confers sample_state (ManageMembership ''mods'')"
proof
  show "tier_of sample_state (ManageMembership ''mods'') =
     Inr (if confers sample_state (ManageMembership ''mods'') then Governance else Ordinary)"
    by (rule tier_of_exact [OF sample_references_known])
      (simp add: references_known_def sample_state_def)
  show "confers sample_state (ManageMembership ''mods'')"
    by (rule confers.held [where g = "''mods''" and c = ModerateContent])
      (auto simp: sample_state_def intro: confers.intrinsic)
qed

text \<open>
  C2. In every state any log replays to, the default group \<open>everyone\<close> exists, is not
  unrestricted, and holds no capability that confers governance by any route: not one that is
  governance by itself, and not the management of a group from which governance can be reached.
\<close>

theorem everyone_ceiling:
  assumes "replay C es = Inr st"
  shows "\<exists>G held. bm_get (gs_groups st) everyone_id = Some G \<and> g_capabilities G = CapExplicit held
    \<and> (\<forall>c\<in>set held. \<not> confers st c)"
proof -
  obtain G where G: "bm_get (gs_groups st) everyone_id = Some G"
    using wf.replay_inv [OF assms] by (auto simp: state_wf_def groups_wf_def)
  then obtain held where "g_capabilities G = CapExplicit held" "\<forall>c\<in>set held. tier_of st c = Inr Ordinary"
    using checked.replay_inv [OF assms] by (auto simp: check_everyone_Inr)
  then show ?thesis
    using G tier_of_confers [of st _ Ordinary] by auto
qed

theorem everyone_ceiling_witness:
  "replay demo sample_log = Inr sample_state
   \<and> (\<exists>G held. bm_get (gs_groups sample_state) everyone_id = Some G
        \<and> g_capabilities G = CapExplicit held \<and> (\<forall>c\<in>set held. \<not> confers sample_state c))"
  using everyone_ceiling [OF sample_replay] sample_replay by simp

text \<open>
  C37. Every state a log replays to is well formed: containers are ordered, every group is stored
  under its own name, the two predefined groups exist, no certificate is held for a revoked
  device, and open votes are stored under their own identifiers.
\<close>

theorem replay_wf:
  assumes "replay C es = Inr st"
  shows "state_wf C st"
  by (rule wf.replay_inv [OF assms])

theorem replay_wf_witness: "state_wf demo sample_state"
  by (rule replay_wf [OF sample_replay])

text \<open>
  No replayed state combines member voting with automatic admission.
\<close>

theorem replay_coherent:
  assumes "replay C es = Inr st" and "is_member_vote (governance_model (gs_policy st))"
  shows "admission_mode (gs_policy st) = ExplicitIntake"
  using checked.replay_inv [OF assms(1)] assms(2)
  by (cases "admission_mode (gs_policy st)") (auto simp: check_policy_coherence_Inr)

definition sample_admission :: entry_body where
  "sample_admission = MembershipChange everyone_id 5 (Add None)"

definition admission_proposal :: vote_proposal where
  "admission_proposal =
     \<lparr>vp_subject = action_hash demo sample_admission, vp_electorate = founders_id, vp_snapshot = [1],
      vp_snapshot_ref = 1, vp_close_time = 100, vp_quorum = 1\<rparr>"

definition admission_certificate :: quorum_certificate where
  "admission_certificate =
     assemble demo admission_proposal
       [ballot_cast demo (who 1) (vote_id demo admission_proposal) True 50]"

definition sample_vote_log :: "log_entry list" where
  "sample_vote_log =
     [entry_create demo (who 1) None 0 (Genesis 7 sample_policy [ReadContent]),
      entry_create demo (who 1) (Some 1) 10 (VoteProposed admission_proposal),
      entry_create demo (who 1) (Some 1) 20 (VoteOutcomeRecorded admission_certificate),
      entry_create demo (who 1) (Some 1) 30 sample_admission]"

lemma admission_certificate_passes:
  "qc_vote_id admission_certificate = vote_id demo admission_proposal"
  "cert_verify demo admission_certificate admission_proposal = Inr Passed"
  by (simp add: admission_certificate_def assemble_def Let_def)
    (simp add: cert_verify_Inr admission_certificate_def assemble_def Let_def collect_ballot_def
      ballot_cast_def bm_values_def approvals_of_def eligible_def ballot_verify_def vk_verify_def,
      simp add: admission_proposal_def)

lemma admission_fields:
  "vp_electorate admission_proposal = founders_id" "vp_snapshot admission_proposal = [1]"
  "vp_subject admission_proposal = action_hash demo sample_admission"
  by (simp_all add: admission_proposal_def)

lemma sample_vote_replay:
  "\<exists>st. replay demo sample_vote_log = Inr st \<and> gs_policy st = sample_policy \<and> is_member st 1
     \<and> action_hash demo sample_admission \<in> set (gs_passed_votes st) \<and> in_group st everyone_id 5"
  by (simp add: sample_vote_log_def sample_policy_def sample_defs admission_certificate_passes
      admission_fields bs_collect_def bm_keys_def in_group_def bm_remove_def)
    (simp add: sample_admission_def sample_defs)

theorem replay_coherent_witness:
  "\<exists>st. replay demo sample_vote_log = Inr st \<and> is_member_vote (governance_model (gs_policy st))
     \<and> admission_mode (gs_policy st) = ExplicitIntake"
proof -
  obtain st where st: "replay demo sample_vote_log = Inr st" "gs_policy st = sample_policy"
    using sample_vote_replay by blast
  then have "is_member_vote (governance_model (gs_policy st))"
    by (simp add: sample_policy_def)
  then show ?thesis
    using replay_coherent [OF st(1)] st(1) by blast
qed

text \<open>
  Replay is incremental: replaying a log is replaying any non-empty prefix of it and applying
  the rest to the state reached, errors included.
\<close>

theorem replay_incremental:
  assumes "xs \<noteq> []"
  shows "replay C (xs @ ys) = res_bind (replay C xs) (\<lambda>st. apply_all C st ys)"
  by (rule replay_append [OF assms])

theorem replay_incremental_witness:
  "replay demo (sample_log @ [sample_removal]) = apply_all demo sample_state [sample_removal]"
  using replay_incremental [of sample_log demo "[sample_removal]"]
  by (simp add: sample_replay) (simp add: sample_log_def)

section \<open>Authority\<close>

text \<open>
  C3. An entry of a kind that carries fork-choice weight takes effect only with more authority than
  membership: if replay applies such an entry to a state, then its author held in that state the
  capability the entry requires, or the entry admits somebody on the strength of a passed vote on
  exactly this action. The condition is that replay applies the entry; weight alone says nothing about
  authority, since an entry has it by its kind, also one that replay refuses.
\<close>

theorem gated_needs_authority:
  assumes "apply_entry C st e = Inr st'" and "is_capability_gated e"
  shows "(\<exists>c. required_capability st e = Some c \<and> identity_holds st (le_author e) c)
    \<or> (\<exists>grp x via. le_body e = MembershipChange grp x (Add via)
         \<and> is_member_vote (governance_model (gs_policy st))
         \<and> action_hash C (le_body e) \<in> set (gs_passed_votes st) \<and> is_member st (le_author e))"
  using assms
  by (auto simp: apply_entry_Inr authorize_def required_capability_def is_capability_gated_def Let_def
      split: entry_body.splits membership_action.splits rotation_reason.splits if_splits)

lemma sample_removal_applies:
  "\<exists>st. apply_entry demo sample_state sample_removal = Inr st
     \<and> in_group st everyone_id 2 = False \<and> in_group st everyone_id 3 = False"
  by (simp add: sample_removal_def sample_state_def sample_defs remove_membership_def
      bm_remove_def cascade_cutoff_def doomed_by_def within_def in_group_def)

theorem gated_needs_authority_witness:
  "identity_holds sample_state 1 (ManageMembership everyone_id)"
proof -
  obtain st where "apply_entry demo sample_state sample_removal = Inr st"
    using sample_removal_applies by blast
  then show ?thesis
    using gated_needs_authority [of demo sample_state sample_removal st]
    by (simp add: sample_removal_def is_capability_gated_def required_capability_def)
qed

text \<open>
  C4. Membership grows only by an admission of exactly that member into exactly that group, by
  someone who may manage the group or on a passed vote; it shrinks only by a removal in that
  group, by the member removed or by someone who may manage the group, and only of the named
  member or of those the cascade reaches.
\<close>

theorem membership_changes_authorized:
  assumes "apply_entry C st e = Inr st'" and "in_group st' g x \<noteq> in_group st g x"
  shows "(\<exists>via. in_group st' g x \<and> le_body e = MembershipChange g x (Add via)
            \<and> (identity_holds st (le_author e) (ManageMembership g)
               \<or> is_member_vote (governance_model (gs_policy st))
                 \<and> action_hash C (le_body e) \<in> set (gs_passed_votes st)))
    \<or> (\<exists>y casc. in_group st g x \<and> le_body e = MembershipChange g y (Remove casc)
         \<and> (y = le_author e \<or> identity_holds st (le_author e) (ManageMembership g))
         \<and> (x = y \<or> cascades_to casc (le_timestamp e) (g_members (the (bm_get (gs_groups st) g))) y x))"
proof -
  have mu: "mutate C st e = Inr st'" and auth: "authorize C st e = Inr ()"
    using assms(1) by (simp_all add: apply_entry_Inr)
  from assms(2) auth show ?thesis
    unfolding mutate_in_group [OF mu]
    by (auto simp: authorize_def Let_def split: entry_body.splits membership_action.splits if_splits)
qed

theorem membership_changes_authorized_witness:
  "\<exists>st. apply_entry demo sample_state sample_removal = Inr st
     \<and> in_group st everyone_id 3 \<noteq> in_group sample_state everyone_id 3
     \<and> cascades_to (Some \<lparr>window_millis = None\<rparr>) 70
         (g_members (the (bm_get (gs_groups sample_state) everyone_id))) 2 3"
proof -
  obtain st where st: "apply_entry demo sample_state sample_removal = Inr st"
    "in_group st everyone_id 3 \<noteq> in_group sample_state everyone_id 3"
    using sample_removal_applies
    by (auto simp: in_group_def sample_state_def everyone_id_def group_contains_def bm_contains_def)
  then show ?thesis
    using membership_changes_authorized [OF st] by (auto simp: sample_removal_def)
qed

text \<open>
  The capabilities of a group change only by a definition of that group, whose author holds
  the capability to define groups.
\<close>

theorem capabilities_change_authorized:
  assumes "apply_entry C st e = Inr st'" and "group_capabilities st' g \<noteq> group_capabilities st g"
  shows "\<exists>caps. le_body e = BodyDefineGroup g caps \<and> group_capabilities st' g = Some caps
    \<and> identity_holds st (le_author e) DefineGroup"
proof -
  have mu: "mutate C st e = Inr st'" and auth: "authorize C st e = Inr ()"
    using assms(1) by (simp_all add: apply_entry_Inr)
  from assms(2) auth show ?thesis
    unfolding mutate_group_capabilities [OF mu]
    by (auto simp: authorize_def Let_def split: entry_body.splits if_splits)
qed

definition sample_definition :: log_entry where
  "sample_definition = entry_create demo (who 1) (Some 1) 80 (BodyDefineGroup ''readers'' (CapExplicit []))"

theorem capabilities_change_authorized_witness:
  "\<exists>st. apply_entry demo sample_state sample_definition = Inr st
     \<and> identity_holds sample_state 1 DefineGroup"
proof -
  obtain st where st: "apply_entry demo sample_state sample_definition = Inr st"
    "group_capabilities st ''readers'' \<noteq> group_capabilities sample_state ''readers''"
    by (simp add: sample_definition_def sample_state_def sample_defs group_capabilities_def)
  then show ?thesis
    using capabilities_change_authorized [OF st] by (auto simp: sample_definition_def)
qed

section \<open>Removal\<close>

text \<open>
  C8. A removal takes out of the group exactly the named member and, with a cascade, every member
  reachable from them through chains of admissions inside the window; it leaves every other
  record, the group's capabilities and every other group as they were.
\<close>

theorem removal_exact:
  assumes "apply_entry C st e = Inr st'" and "le_body e = MembershipChange g y (Remove casc)"
  shows "\<exists>G G'. bm_get (gs_groups st) g = Some G \<and> gs_groups st' = bm_insert g G' (gs_groups st)
    \<and> g_capabilities G' = g_capabilities G \<and> g_id G' = g_id G
    \<and> (\<forall>x. bm_get (g_members G') x =
          (if x = y \<or> cascades_to casc (le_timestamp e) (g_members G) y x then None
           else bm_get (g_members G) x))"
proof -
  have "remove_membership st g y casc (le_timestamp e) = Inr st'"
    using assms by (simp add: apply_entry_Inr mutate_def)
  then obtain G where G: "bm_get (gs_groups st) g = Some G" and st':
    "st' = st\<lparr>gs_groups := bm_insert g (G\<lparr>g_members :=
       filter (\<lambda>p. fst p \<noteq> y \<and> \<not> cascades_to casc (le_timestamp e) (g_members G) y (fst p))
         (g_members G)\<rparr>) (gs_groups st)\<rparr>"
    by (auto simp: remove_membership_Inr)
  then show ?thesis
    using map_of_filter_fst [of "\<lambda>k. k \<noteq> y \<and> \<not> cascades_to casc (le_timestamp e) (g_members G) y k"
        "g_members G"]
    by auto
qed

theorem removal_exact_witness:
  "\<exists>st G'. apply_entry demo sample_state sample_removal = Inr st
     \<and> gs_groups st = bm_insert everyone_id G' (gs_groups sample_state) \<and> bm_get (g_members G') 2 = None"
proof -
  obtain st where st: "apply_entry demo sample_state sample_removal = Inr st"
    using sample_removal_applies by blast
  have body: "le_body sample_removal = MembershipChange everyone_id 2 (Remove (Some \<lparr>window_millis = None\<rparr>))"
    by (simp add: sample_removal_def)
  show ?thesis
    using removal_exact [OF st body] st by auto
qed

text \<open>
  The window of a cascade is measured without overflow: with a non-negative window a record
  is inside it exactly when it was added no earlier than the window before the removal, as
  integers, whatever the two clocks say.
\<close>

theorem cascade_window_exact:
  assumes "window_millis c = Some w" and "0 \<le> sint w"
  shows "within (cascade_cutoff t c) r \<longleftrightarrow> sint t - sint w \<le> sint (added_at r)"
  using within_window [OF assms(2)] assms(1) by (simp add: cascade_cutoff_def)

theorem cascade_window_exact_witness:
  "within (cascade_cutoff (of_int i64_min) \<lparr>window_millis = Some 5\<rparr>)
     \<lparr>added_by = None, added_at = 0, via_invite = None\<rparr>"
  using cascade_window_exact [of "\<lparr>window_millis = Some 5\<rparr>" 5 "of_int i64_min"
      "\<lparr>added_by = None, added_at = 0, via_invite = None\<rparr>"]
  by (simp add: i64_min_def signed_of_int)

text \<open>
  Any member may leave with a cascade and so remove members they once admitted, without
  holding any capability: authorization looks only at the named member.
\<close>

theorem self_removal_cascades_unchecked:
  assumes "le_body e = MembershipChange g (le_author e) (Remove casc)"
    and "bm_contains (gs_groups st) g" and "is_member st (le_author e)"
  shows "authorize C st e = Inr ()"
  using assms by (simp add: authorize_def Let_def)

theorem self_removal_cascades_unchecked_witness:
  "authorize demo sample_state (entry_create demo (who 2) (Some 1) 70
     (MembershipChange everyone_id 2 (Remove (Some \<lparr>window_millis = None\<rparr>)))) = Inr ()"
  by (rule self_removal_cascades_unchecked [where g = everyone_id])
    (simp_all add: sample_state_def sample_defs)

section \<open>Devices\<close>

lemma apply_entry_revoked:
  "apply_entry C st e = Inr st' \<Longrightarrow> d \<in> set (gs_revoked_devices st) \<Longrightarrow> d \<in> set (gs_revoked_devices st')"
  by (auto simp: apply_entry_Inr mutate_unfold split: mutate_splits)

lemma tier_frame:
  assumes "gs_groups st' = gs_groups st" and "gs_policy st' = gs_policy st"
  shows "tier_of_inner st' c vis = tier_of_inner st c vis" "tier_any st' cs vis = tier_any st cs vis"
  using assms
proof (induction st c vis and st cs vis rule: tier_of_inner_tier_any.induct)
  case (1 st c visiting)
  then show ?case
    by (cases c) (auto simp: tier_of_inner_cases split: option.splits capability_set.splits)
qed (auto split: sum.splits tier.splits)

text \<open>
  C10. A revocation is final: once a device is revoked, no continuation of the log, an enrollment
  of the same device included, makes it authorized for anybody again.
\<close>

theorem revocation_permanent:
  assumes "apply_all C st es = Inr st'" and "d \<in> set (gs_revoked_devices st)"
  shows "\<not> device_is_authorized st' d identity"
proof -
  have "d \<in> set (gs_revoked_devices st')"
    using assms
  proof (induction es arbitrary: st)
    case (Cons e es)
    then show ?case
      using apply_entry_revoked by (auto simp: res_bind_Inr_iff)
  qed simp
  then show ?thesis
    by (simp add: device_is_authorized_def)
qed

definition sample_revocation :: log_entry where
  "sample_revocation = entry_create demo (who 3) (Some 1) 90
     (DeviceRevocation (dr_issue demo (who 3) 90 90))"

definition sample_reenrollment :: log_entry where
  "sample_reenrollment = entry_create demo (who 1) (Some 1) 95 (DeviceEnrollment sample_device)"

lemma sample_revocation_applies:
  "\<exists>st st'. apply_entry demo sample_state sample_revocation = Inr st
     \<and> apply_entry demo st sample_reenrollment = Inr st'
     \<and> 90 \<in> set (gs_revoked_devices st)"
  by (simp add: sample_revocation_def sample_reenrollment_def sample_state_def sample_defs
      dr_issue_def dr_verify_def vk_verify_def dc_verify_def dc_verify_for_network_def sample_device_def
      bm_remove_def)

theorem revocation_permanent_witness:
  "\<exists>st st'. apply_entry demo sample_state sample_revocation = Inr st
     \<and> apply_all demo st [sample_reenrollment] = Inr st' \<and> \<not> device_is_authorized st' 90 1"
proof -
  obtain st st' where st: "apply_entry demo sample_state sample_revocation = Inr st"
    "apply_all demo st [sample_reenrollment] = Inr st'" "90 \<in> set (gs_revoked_devices st)"
    using sample_revocation_applies by auto
  then show ?thesis
    using revocation_permanent [OF st(2,3)] by blast
qed

text \<open>
  A device speaks for an identity only if the log holds an enrollment authored by that
  identity whose certificate names this device, this identity and this network and is signed by
  the identity.
\<close>

theorem authorized_device_enrolled:
  assumes "replay C es = Inr st" and "device_is_authorized st d identity"
  shows "\<exists>e\<in>set es. \<exists>cert. le_body e = DeviceEnrollment cert \<and> le_author e = identity
    \<and> dc_device cert = d \<and> dc_identity cert = identity \<and> dc_network cert = gs_network st
    \<and> dc_verify C cert = Inr ()"
  using device.replay_inv [OF assms(1)] assms(2)
  by (fastforce simp: device_inv_def enrolled_by_def device_is_authorized_def
      split: if_splits option.splits)

theorem authorized_device_enrolled_witness:
  "device_is_authorized sample_state 90 1
   \<and> (\<exists>e\<in>set sample_log. \<exists>cert. le_body e = DeviceEnrollment cert \<and> le_author e = 1)"
proof -
  have "device_is_authorized sample_state 90 1"
    by (simp add: device_is_authorized_def sample_state_def sample_device_def dc_issue_def)
  then show ?thesis
    using authorized_device_enrolled [OF sample_replay] by blast
qed

text \<open>
  Any member can take any device out of service: a revocation signed and authored by a member
  applies whoever the device belongs to, since the certificate on record is not consulted.
\<close>

theorem any_member_revokes_any_device:
  assumes "le_body e = DeviceRevocation r" and "dr_verify C r = Inr ()"
    and "dr_network r = gs_network st" and "dr_identity r = le_author e" and "is_member st (le_author e)"
    and "entry_verify_signature C e = Inr ()" and "le_parent e \<noteq> None"
    and "check_everyone_invariant st = Inr ()" and "check_policy_coherence st = Inr ()"
  shows "\<exists>st'. apply_entry C st e = Inr st' \<and> (\<forall>identity. \<not> device_is_authorized st' (dr_device r) identity)"
proof -
  let ?st' = "st\<lparr>gs_device_certificates := bm_remove (dr_device r) (gs_device_certificates st),
    gs_revoked_devices := bs_insert (dr_device r) (gs_revoked_devices st)\<rparr>"
  have "check_everyone_invariant ?st' = Inr ()"
    using assms(8) tier_frame(1) [of ?st' st] by (simp add: check_everyone_Inr tier_of_def)
  then show ?thesis
    using assms
    by (auto simp: apply_entry_Inr authorize_def Let_def mutate_def check_policy_coherence_Inr
        device_is_authorized_def)
qed

theorem any_member_revokes_any_device_witness:
  "device_is_authorized sample_state 90 1 \<and> dr_identity (dr_issue demo (who 3) 90 90) = 3
   \<and> (\<exists>st'. apply_entry demo sample_state sample_revocation = Inr st'
        \<and> (\<forall>identity. \<not> device_is_authorized st' 90 identity))"
proof -
  have "\<exists>st'. apply_entry demo sample_state sample_revocation = Inr st'
      \<and> (\<forall>identity. \<not> device_is_authorized st' (dr_device (dr_issue demo (who 3) 90 90)) identity)"
    by (rule any_member_revokes_any_device [where r = "dr_issue demo (who 3) 90 90"])
      (simp_all add: sample_revocation_def dr_issue_def dr_verify_def vk_verify_def sample_state_def
        sample_defs)
  then show ?thesis
    by (simp add: dr_issue_def device_is_authorized_def sample_state_def sample_device_def dc_issue_def)
qed

section \<open>Epochs and votes\<close>

lemma check_frame:
  assumes "gs_groups st' = gs_groups st" and "gs_policy st' = gs_policy st"
  shows "check_everyone_invariant st' = Inr () \<longleftrightarrow> check_everyone_invariant st = Inr ()"
    and "check_policy_coherence st' = Inr () \<longleftrightarrow> check_policy_coherence st = Inr ()"
  using assms tier_frame(1) [OF assms]
  by (simp_all add: check_everyone_Inr check_policy_coherence_Inr tier_of_def)

text \<open>
  The epoch counts the rotations in the log (modulo the width of its counter), and the
  rotation on record is the last one.
\<close>

theorem epoch_counts_rotations:
  assumes "replay C es = Inr st"
  shows "gs_epoch st = of_nat (length (rotations es))
    \<and> gs_epoch_rotation_ref st =
        (if rotations es = [] then None else Some (entry_hash C (last (rotations es))))"
  using epoch.replay_inv [OF assms] by (simp add: epoch_inv_def)

theorem epoch_counts_rotations_witness: "gs_epoch sample_state = 1 \<and> length (rotations sample_log) = 1"
  using epoch_counts_rotations [OF sample_replay] by (simp add: rotations_def sample_log_def)

text \<open>
  A subject counts as passed only if the log records both the proposal on it and a
  certificate for that proposal in which at least \<open>quorum\<close> different members of the proposal's
  electorate approve.
\<close>

theorem passed_vote_backed:
  assumes "replay C es = Inr st" and "s \<in> set (gs_passed_votes st)"
  shows "\<exists>p c. VoteProposed p \<in> le_body ` set es \<and> VoteOutcomeRecorded c \<in> le_body ` set es
    \<and> vp_subject p = s \<and> unat (vp_quorum p) \<le> card (approving_voters C p (qc_ballots c))
    \<and> approving_voters C p (qc_ballots c) \<subseteq> set (vp_snapshot p)"
proof -
  obtain p c where "VoteProposed p \<in> le_body ` set es" "VoteOutcomeRecorded c \<in> le_body ` set es"
    "vp_subject p = s" "cert_verify C c p = Inr Passed"
    using vote.replay_inv [OF assms(1)] assms(2) unfolding vote_inv_def vote_backed_def by blast
  then show ?thesis
    using passed_quorum [of C c p] by blast
qed

theorem passed_vote_backed_witness:
  "\<exists>st p. replay demo sample_vote_log = Inr st
     \<and> action_hash demo sample_admission \<in> set (gs_passed_votes st)
     \<and> VoteProposed p \<in> le_body ` set sample_vote_log \<and> vp_subject p = action_hash demo sample_admission"
proof -
  obtain st where st: "replay demo sample_vote_log = Inr st"
    "action_hash demo sample_admission \<in> set (gs_passed_votes st)"
    using sample_vote_replay by blast
  then show ?thesis
    using passed_vote_backed [OF st] by blast
qed

text \<open>
  A proposal is accepted exactly when its roster is the current membership of the group it
  names. Which group that is and what quorum it asks for are the proposer's choice: the
  electorate and the quorum of the network's policy play no part.
\<close>

theorem proposal_accepted_iff:
  assumes "state_wf C st" and "check_everyone_invariant st = Inr ()" and "check_policy_coherence st = Inr ()"
    and "le_body e = VoteProposed p" and "is_member st (le_author e)"
    and "entry_verify_signature C e = Inr ()" and "le_parent e \<noteq> None"
  shows "(\<exists>st'. apply_entry C st e = Inr st') \<longleftrightarrow>
    (\<exists>G. bm_get (gs_groups st) (vp_electorate p) = Some G \<and> vp_snapshot p = bm_keys (g_members G))"
proof -
  let ?st' = "st\<lparr>gs_open_votes := bm_insert (vote_id C p) p (gs_open_votes st)\<rparr>"
  have checks: "check_everyone_invariant ?st' = Inr ()" "check_policy_coherence ?st' = Inr ()"
    using assms(2,3) check_frame [of ?st' st] by simp_all
  have keys: "bs_collect (bm_keys (g_members G)) = bm_keys (g_members G)"
    if "bm_get (gs_groups st) (vp_electorate p) = Some G" for G
    using groups_wf_get [OF _ that] assms(1) by (simp add: state_wf_def)
  have au: "authorize C st e = Inr ()"
    using assms(4,5) by (simp add: authorize_def)
  show ?thesis
    using assms(4,6,7) checks keys au
    by (auto simp: apply_entry_Inr mutate_def split: option.splits if_splits)
qed

theorem proposal_accepted_iff_witness:
  "\<exists>st'. apply_entry demo sample_state (entry_create demo (who 3) (Some 1) 99 (VoteProposed
     \<lparr>vp_subject = 0, vp_electorate = ''mods'', vp_snapshot = [2], vp_snapshot_ref = 0,
      vp_close_time = 100, vp_quorum = 0\<rparr>)) = Inr st'"
proof -
  let ?p = "\<lparr>vp_subject = 0, vp_electorate = ''mods'', vp_snapshot = [2], vp_snapshot_ref = 0,
      vp_close_time = 100, vp_quorum = 0\<rparr>"
  have wf: "state_wf demo sample_state" and ch: "check_everyone_invariant sample_state = Inr ()"
    "check_policy_coherence sample_state = Inr ()"
    using wf.replay_inv [OF sample_replay] checked.replay_inv [OF sample_replay] by auto
  have "is_member sample_state 3"
    by (simp add: sample_state_def sample_defs)
  then show ?thesis
    using proposal_accepted_iff [OF wf ch, of "entry_create demo (who 3) (Some 1) 99 (VoteProposed ?p)" ?p]
    by (simp add: sample_state_def bm_keys_def)
qed

text \<open>
  The hash meant to compare replayed states leaves out the votes and what a certificate says:
  states that differ only in open or passed votes, or in who a certified device belongs to, hash
  alike.
\<close>

theorem state_hash_ignores_votes:
  assumes "bm_keys certs = bm_keys (gs_device_certificates st)"
  shows "state_hash C (st\<lparr>gs_open_votes := ov, gs_passed_votes := pv, gs_device_certificates := certs\<rparr>)
    = state_hash C st"
  using assms by (simp add: state_hash_def encode_state_def)

theorem state_hash_ignores_votes_witness:
  "state_hash demo (sample_state\<lparr>gs_open_votes := [], gs_passed_votes := [5],
     gs_device_certificates := [(90, sample_device\<lparr>dc_identity := 2\<rparr>)]\<rparr>) = state_hash demo sample_state"
  by (rule state_hash_ignores_votes) (simp add: sample_state_def bm_keys_def)

section \<open>Namespaced capabilities\<close>

text \<open>
  The tier of an extension capability is that of the longest registration that covers it: the
  name itself, or a registered namespace (ending in the separator) above it; a name nothing
  covers has none.
\<close>

theorem extension_tier_longest:
  assumes "bm_ok (extension_capabilities p)"
  shows "extension_tier p name = Some t \<longleftrightarrow>
    (\<exists>r. (r, t) \<in> set (extension_capabilities p) \<and> covers r name
       \<and> (\<forall>r' t'. (r', t') \<in> set (extension_capabilities p) \<and> covers r' name \<longrightarrow> length r' \<le> length r))"
  by (rule extension_tier_iff [OF assms])

theorem extension_tier_longest_witness:
  "extension_tier (conservative_default\<lparr>extension_capabilities := [(''a:'', Ordinary), (''a:b:'', Governance)]\<rparr>)
     ''a:b:c'' = Some Governance"
proof -
  let ?p = "conservative_default\<lparr>extension_capabilities := [(''a:'', Ordinary), (''a:b:'', Governance)]\<rparr>"
  have "bm_ok (extension_capabilities ?p)"
    by simp
  then show ?thesis
    using extension_tier_longest [of ?p "''a:b:c''" Governance]
    by (auto simp: covers_def ends_with_separator_def)
qed

end
