(* ===== verification/Log.thy ===== *)
theory Log
  imports State
begin

text \<open>
  The governance log, log.rs: a hash-chained store of entries that may fork, the fork-choice rule,
  bounded finality, reconciliation with its list of voided entries, and the ordering of entries
  for synchronization.

  The walk to the root and the recursion over branches end only because no entry is its own
  ancestor, which is a property of how the log was built. Both carry fuel, one unit for each
  entry the log holds and one more, and return \<open>None\<close> when it runs out; on every log built by
  insertion they return a value.
\<close>

section \<open>The store\<close>

record voided_entry =
  ve_hash :: b32
  ve_author :: b32
  ve_timestamp :: i64
  ve_kind :: string
  ve_security_relevant :: bool

record reconciliation =
  rc_canonical :: "b32 list"
  rc_voided :: "voided_entry list"
  rc_finalized :: "b32 option"

record governance_log =
  gl_entries :: "(b32, log_entry) btree_map"
  gl_children :: "(b32, b32 btree_set) btree_map"
  gl_root :: "b32 option"
  gl_finalized :: "b32 option"

definition empty_log :: governance_log where
  "empty_log = \<lparr>gl_entries = [], gl_children = [], gl_root = None, gl_finalized = None\<rparr>"

definition add_child :: "b32 \<Rightarrow> b32 \<Rightarrow> (b32, b32 btree_set) btree_map \<Rightarrow> (b32, b32 btree_set) btree_map" where
  "add_child parent child m =
     bm_insert parent
       (bs_insert child (case bm_get m parent of None \<Rightarrow> [] | Some cs \<Rightarrow> cs)) m"

definition log_insert ::
  "crypto \<Rightarrow> governance_log \<Rightarrow> log_entry \<Rightarrow> governance_error + (b32 \<times> governance_log)" where
  "log_insert C L e =
     res_bind (entry_verify_signature C e) (\<lambda>_.
       let h = entry_hash C e in
       case le_parent e of
         None \<Rightarrow>
           if \<not> is_genesis (le_body e) then Inl MissingParent
           else if gl_root L \<noteq> None \<and> gl_root L \<noteq> Some h then Inl UnexpectedGenesis
           else Inr (h, L\<lparr>gl_root := Some h, gl_entries := bm_insert h e (gl_entries L)\<rparr>)
       | Some parent \<Rightarrow>
           if \<not> bm_contains (gl_entries L) parent then Inl (UnknownParent parent)
           else Inr (h, L\<lparr>gl_children := add_child parent h (gl_children L),
                          gl_entries := bm_insert h e (gl_entries L)\<rparr>))"

definition log_get :: "governance_log \<Rightarrow> b32 \<Rightarrow> log_entry option" where
  "log_get L h = bm_get (gl_entries L) h"

definition log_fuel :: "governance_log \<Rightarrow> nat" where
  "log_fuel L = Suc (length (gl_entries L))"

definition parent_of :: "governance_log \<Rightarrow> b32 \<Rightarrow> b32 option" where
  "parent_of L h = Option.bind (bm_get (gl_entries L) h) le_parent"

fun is_final_loop :: "nat \<Rightarrow> governance_log \<Rightarrow> b32 \<Rightarrow> b32 option \<Rightarrow> bool option" where
  "is_final_loop n L h None = Some False"
| "is_final_loop 0 L h (Some current) = None"
| "is_final_loop (Suc n) L h (Some current) =
     (if current = h then Some True else is_final_loop n L h (parent_of L current))"

definition is_final :: "governance_log \<Rightarrow> b32 \<Rightarrow> bool option" where
  "is_final L h =
     (case gl_finalized L of
        None \<Rightarrow> Some False
      | Some finalized \<Rightarrow> is_final_loop (log_fuel L) L h (Some finalized))"

fun ancestry_loop :: "nat \<Rightarrow> governance_log \<Rightarrow> b32 option \<Rightarrow> b32 list \<Rightarrow> b32 list option" where
  "ancestry_loop n L None path = Some path"
| "ancestry_loop 0 L (Some current) path = None"
| "ancestry_loop (Suc n) L (Some current) path =
     ancestry_loop n L (parent_of L current) (path @ [current])"

definition ancestry :: "governance_log \<Rightarrow> b32 \<Rightarrow> b32 list option" where
  "ancestry L h = map_option rev (ancestry_loop (log_fuel L) L (Some h) [])"

section \<open>Fork choice\<close>

definition gated_at :: "governance_log \<Rightarrow> b32 \<Rightarrow> bool" where
  "gated_at L h = (case bm_get (gl_entries L) h of None \<Rightarrow> False | Some e \<Rightarrow> is_capability_gated e)"

definition branch_candidate :: "governance_log \<Rightarrow> b32 \<Rightarrow> b32 list \<Rightarrow> u32 \<times> b32 \<times> b32 list" where
  "branch_candidate L child sub_path =
     ((if gated_at L child then 1 else 0) + of_nat (length (filter (gated_at L) sub_path)),
      (if sub_path = [] then child else last sub_path),
      child # sub_path)"

definition better :: "u32 \<times> b32 \<times> b32 list \<Rightarrow> (u32 \<times> b32 \<times> b32 list) option \<Rightarrow> bool" where
  "better c best =
     (case best of
        None \<Rightarrow> True
      | Some (best_count, best_tip, _) \<Rightarrow>
          best_count < fst c \<or> best_count = fst c \<and> fst (snd c) < best_tip)"

definition pick ::
  "governance_log \<Rightarrow> (b32 \<times> b32 list) list \<Rightarrow> (u32 \<times> b32 \<times> b32 list) option" where
  "pick L subs =
     foldl (\<lambda>best (child, sub_path).
         if better (branch_candidate L child sub_path) best then Some (branch_candidate L child sub_path) else best)
       None subs"

fun best_branch :: "nat \<Rightarrow> governance_log \<Rightarrow> b32 \<Rightarrow> b32 list option" where
  "best_branch 0 L node = None"
| "best_branch (Suc n) L node =
     (case bm_get (gl_children L) node of
        None \<Rightarrow> Some []
      | Some children \<Rightarrow>
          map_option (\<lambda>subs. case pick L subs of None \<Rightarrow> [] | Some (_, _, path) \<Rightarrow> path)
            (those (map (\<lambda>child. map_option (Pair child) (best_branch n L child)) children)))"

definition best_branch_below :: "governance_log \<Rightarrow> b32 \<Rightarrow> b32 list option" where
  "best_branch_below L node = best_branch (log_fuel L) L node"

definition canonical_chain :: "governance_log \<Rightarrow> b32 list option" where
  "canonical_chain L =
     (case gl_root L of
        None \<Rightarrow> Some []
      | Some root \<Rightarrow>
          let start = (case gl_finalized L of None \<Rightarrow> root | Some f \<Rightarrow> f) in
          Option.bind (ancestry L start) (\<lambda>chain.
            map_option (\<lambda>below. chain @ below) (best_branch_below L start)))"

definition replay_canonical ::
  "crypto \<Rightarrow> governance_log \<Rightarrow> (governance_error + governance_state) option" where
  "replay_canonical C L =
     map_option (\<lambda>chain. replay C (List.map_filter (bm_get (gl_entries L)) chain)) (canonical_chain L)"

section \<open>Finality and reconciliation\<close>

fun position :: "b32 list \<Rightarrow> b32 \<Rightarrow> nat option" where
  "position [] h = None"
| "position (x # xs) h = (if x = h then Some 0 else map_option Suc (position xs h))"

definition final_at :: "governance_log \<Rightarrow> finality_params \<Rightarrow> b32 list \<Rightarrow> i64 \<Rightarrow> nat \<Rightarrow> bool" where
  "final_at L params canonical now index =
     (case bm_get (gl_entries L) (canonical ! index) of
        None \<Rightarrow> False
      | Some e \<Rightarrow>
          params_is_final params
            (of_nat (length (filter (gated_at L) (drop (index + 1) canonical))))
            (millis_since now (le_timestamp e)))"

definition newly_final :: "governance_log \<Rightarrow> finality_params \<Rightarrow> b32 list \<Rightarrow> i64 \<Rightarrow> nat option" where
  "newly_final L params canonical now =
     foldl (\<lambda>acc index. if final_at L params canonical now index then Some index else acc)
       None [0..<length canonical]"

definition advance_finality ::
  "crypto \<Rightarrow> governance_log \<Rightarrow> b32 list \<Rightarrow> i64 \<Rightarrow> governance_log option" where
  "advance_finality C L canonical now =
     map_option (\<lambda>replayed.
       case replayed of
         Inl _ \<Rightarrow> L
       | Inr st \<Rightarrow>
           let already = Option.bind (gl_finalized L) (position canonical) in
           (case newly_final L (finality (gs_policy st)) canonical now of
              None \<Rightarrow> L
            | Some candidate \<Rightarrow>
                if (case already of None \<Rightarrow> False | Some current \<Rightarrow> candidate \<le> current) then L
                else L\<lparr>gl_finalized := Some (canonical ! candidate)\<rparr>))
       (replay_canonical C L)"

fun security_relevant :: "entry_body \<Rightarrow> bool" where
  "security_relevant (MembershipChange _ _ (Remove _)) = True"
| "security_relevant (Moderation _) = True"
| "security_relevant (EpochRotation _ _) = True"
| "security_relevant _ = False"

definition voided_of :: "b32 \<times> log_entry \<Rightarrow> voided_entry" where
  "voided_of p =
     \<lparr>ve_hash = fst p, ve_author = le_author (snd p), ve_timestamp = le_timestamp (snd p),
      ve_kind = body_kind (le_body (snd p)), ve_security_relevant = security_relevant (le_body (snd p))\<rparr>"

definition reconcile :: "crypto \<Rightarrow> governance_log \<Rightarrow> i64 \<Rightarrow> (governance_log \<times> reconciliation) option" where
  "reconcile C L now =
     (case gl_root L of
        None \<Rightarrow> Some (L, \<lparr>rc_canonical = [], rc_voided = [], rc_finalized = None\<rparr>)
      | Some root \<Rightarrow>
          let start = (case gl_finalized L of None \<Rightarrow> root | Some f \<Rightarrow> f) in
          Option.bind (ancestry L start) (\<lambda>chain.
          Option.bind (best_branch_below L start) (\<lambda>below.
          let canonical = chain @ below in
          map_option (\<lambda>L'.
            (L', \<lparr>rc_canonical = canonical,
                  rc_voided = map voided_of
                    (filter (\<lambda>p. fst p \<notin> set canonical) (gl_entries L')),
                  rc_finalized = gl_finalized L'\<rparr>))
            (advance_finality C L canonical now))))"

section \<open>Synchronization\<close>

definition heads :: "governance_log \<Rightarrow> b32 list" where
  "heads L =
     sort (filter (\<lambda>h. case bm_get (gl_children L) h of None \<Rightarrow> True | Some cs \<Rightarrow> cs = [])
       (bm_keys (gl_entries L)))"

definition excluded_by :: "governance_log \<Rightarrow> b32 list \<Rightarrow> b32 btree_set option" where
  "excluded_by L have_tips = map_option (\<lambda>ps. bs_collect (concat ps)) (those (map (ancestry L) have_tips))"

definition needed_for :: "governance_log \<Rightarrow> b32 list \<Rightarrow> b32 btree_set \<Rightarrow> b32 btree_set option" where
  "needed_for L wanted excluded =
     map_option (\<lambda>ps. bs_collect (filter (\<lambda>a. a \<notin> set excluded) (concat ps)))
       (those (map (ancestry L) (filter (bm_contains (gl_entries L)) wanted)))"

definition ancestors_first ::
  "governance_log \<Rightarrow> b32 list \<Rightarrow> b32 list \<Rightarrow> nat \<Rightarrow> (log_entry list \<times> bool) option" where
  "ancestors_first L wanted have_tips max_entries =
     Option.bind (excluded_by L have_tips) (\<lambda>excluded.
     Option.bind (needed_for L wanted excluded) (\<lambda>needed.
     map_option (\<lambda>paths.
       let ordered = sort (zip (map length paths) needed);
           truncated = length ordered > max_entries
       in (List.map_filter (\<lambda>(_, h). bm_get (gl_entries L) h) (take max_entries ordered), truncated))
       (those (map (ancestry L) needed))))"

section \<open>Paths\<close>

text \<open>The walk towards the root, and the branches below an entry that end in a tip.\<close>

inductive up :: "governance_log \<Rightarrow> b32 \<Rightarrow> b32 list \<Rightarrow> bool" for L where
  stop: "parent_of L h = None \<Longrightarrow> up L h [h]"
| step: "parent_of L h = Some p \<Longrightarrow> up L p ps \<Longrightarrow> up L h (h # ps)"

definition kids :: "governance_log \<Rightarrow> b32 \<Rightarrow> b32 list" where
  "kids L h = (case bm_get (gl_children L) h of None \<Rightarrow> [] | Some cs \<Rightarrow> cs)"

inductive down :: "governance_log \<Rightarrow> b32 \<Rightarrow> b32 list \<Rightarrow> bool" for L where
  tip: "kids L h = [] \<Longrightarrow> down L h []"
| branch: "c \<in> set (kids L h) \<Longrightarrow> down L c p \<Longrightarrow> down L h (c # p)"

inductive_cases down_ConsE: "down L h (c # p)"
inductive_cases down_NilE: "down L h []"

definition gated_count :: "governance_log \<Rightarrow> b32 list \<Rightarrow> nat" where
  "gated_count L path = length (filter (gated_at L) path)"

definition tip_of :: "b32 \<Rightarrow> b32 list \<Rightarrow> b32" where
  "tip_of h path = (if path = [] then h else last path)"

lemma up_unique: "up L h ps \<Longrightarrow> up L h qs \<Longrightarrow> ps = qs"
proof (induction arbitrary: qs rule: up.induct)
  case (stop h)
  from stop.prems show ?case
    by (rule up.cases) (use stop.hyps in simp_all)
next
  case (step h p ps)
  from step.prems show ?case
  proof (rule up.cases)
    fix h' p' ps'
    assume "h = h'" "qs = h' # ps'" "parent_of L h' = Some p'" "up L p' ps'"
    then show "h # ps = qs"
      using step.hyps(1) step.IH by simp
  qed (use step.hyps(1) in simp)
qed

lemma up_hd: "up L h ps \<Longrightarrow> ps \<noteq> [] \<and> hd ps = h"
  by (erule up.cases) auto

lemma up_member: "up L h ps \<Longrightarrow> x \<in> set ps \<Longrightarrow> \<exists>qs rs. ps = rs @ qs \<and> up L x qs"
proof (induction rule: up.induct)
  case (stop h)
  then show ?case
    by (auto intro: up.stop)
next
  case (step h p ps)
  show ?case
  proof (cases "x = h")
    case True
    then show ?thesis
      using up.step [OF step.hyps] by (metis append_Nil)
  next
    case False
    then obtain rs qs where "ps = rs @ qs" "up L x qs"
      using step by auto
    then show ?thesis
      by (metis append_Cons)
  qed
qed

lemma up_cong: "up L h ps \<Longrightarrow> \<forall>x\<in>set ps. parent_of L' x = parent_of L x \<Longrightarrow> up L' h ps"
  by (induction rule: up.induct) (auto intro: up.intros)

lemma ancestry_loop_up:
  "up L h ps \<Longrightarrow> length ps \<le> n \<Longrightarrow> ancestry_loop n L (Some h) acc = Some (acc @ ps)"
proof (induction arbitrary: n acc rule: up.induct)
  case (stop h)
  then show ?case
    by (cases n) auto
next
  case (step h p ps)
  then show ?case
    by (cases n) auto
qed

lemma is_final_loop_up:
  "up L h ps \<Longrightarrow> length ps \<le> n \<Longrightarrow> is_final_loop n L x (Some h) = Some (x \<in> set ps)"
proof (induction arbitrary: n rule: up.induct)
  case (stop h)
  then show ?case
    by (cases n) auto
next
  case (step h p ps)
  then show ?case
    by (cases n) auto
qed

section \<open>Well-formed logs\<close>

definition entries_wf :: "crypto \<Rightarrow> governance_log \<Rightarrow> bool" where
  "entries_wf C L \<longleftrightarrow>
     bm_ok (gl_entries L)
     \<and> (\<forall>h e. bm_get (gl_entries L) h = Some e \<longrightarrow>
          entry_hash C e = h \<and> entry_verify_signature C e = Inr ()
          \<and> (case le_parent e of
               None \<Rightarrow> is_genesis (le_body e) \<and> gl_root L = Some h
             | Some p \<Rightarrow> bm_get (gl_entries L) p \<noteq> None))"

definition children_wf :: "governance_log \<Rightarrow> bool" where
  "children_wf L \<longleftrightarrow>
     bm_ok (gl_children L)
     \<and> (\<forall>p cs. bm_get (gl_children L) p = Some cs \<longrightarrow> bs_ok cs \<and> cs \<noteq> [])
     \<and> (\<forall>p h. h \<in> set (kids L p) \<longleftrightarrow> parent_of L h = Some p)"

definition rooted :: "governance_log \<Rightarrow> bool" where
  "rooted L \<longleftrightarrow>
     (\<forall>r. gl_root L = Some r \<longrightarrow> bm_get (gl_entries L) r \<noteq> None \<and> parent_of L r = None)
     \<and> (\<forall>f. gl_finalized L = Some f \<longrightarrow> bm_get (gl_entries L) f \<noteq> None)
     \<and> (\<forall>h. bm_get (gl_entries L) h \<noteq> None \<longrightarrow>
          (\<exists>ps. up L h ps \<and> distinct ps \<and> set ps \<subseteq> dom (bm_get (gl_entries L))
            \<and> gl_root L = Some (last ps)))"

definition log_wf :: "crypto \<Rightarrow> governance_log \<Rightarrow> bool" where
  "log_wf C L \<longleftrightarrow> entries_wf C L \<and> children_wf L \<and> rooted L"

lemma log_wf_empty: "log_wf C empty_log"
  by (simp add: log_wf_def entries_wf_def children_wf_def rooted_def empty_log_def kids_def
      parent_of_def)

lemma dom_entries: "bm_ok m \<Longrightarrow> card (dom (bm_get m)) = length m"
  using bs_ok_distinct [OF bs_ok_bm_keys, of m] distinct_card [of "bm_keys m"]
  by (simp add: set_bm_keys [symmetric] bm_keys_def)

lemma path_length:
  "log_wf C L \<Longrightarrow> distinct ps \<Longrightarrow> set ps \<subseteq> dom (bm_get (gl_entries L)) \<Longrightarrow>
     length ps \<le> length (gl_entries L)"
  by (metis card_mono distinct_card dom_entries entries_wf_def finite_dom_map_of log_wf_def)

lemma wf_up:
  assumes "log_wf C L"
  obtains ps where "up L h ps" "distinct ps" "length ps \<le> log_fuel L"
proof (cases "bm_get (gl_entries L) h")
  case None
  then have "up L h [h]"
    by (simp add: parent_of_def up.stop)
  then show ?thesis
    by (rule that) (simp_all add: log_fuel_def)
next
  case (Some e)
  then obtain ps where "up L h ps" "distinct ps" "set ps \<subseteq> dom (bm_get (gl_entries L))"
    using assms by (auto simp: log_wf_def rooted_def)
  then show ?thesis
    using path_length [OF assms] by (intro that) (auto simp: log_fuel_def intro: le_SucI)
qed

lemma ancestry_up: "log_wf C L \<Longrightarrow> up L h ps \<Longrightarrow> ancestry L h = Some (rev ps)"
  by (metis ancestry_def ancestry_loop_up append_Nil option.map(2) up_unique wf_up)

lemma ancestry_total: "log_wf C L \<Longrightarrow> \<exists>ps. up L h ps \<and> ancestry L h = Some (rev ps)"
  by (metis ancestry_up wf_up)

lemma is_final_up:
  "log_wf C L \<Longrightarrow> gl_finalized L = Some f \<Longrightarrow> up L f ps \<Longrightarrow> is_final L h = Some (h \<in> set ps)"
  by (metis is_final_def is_final_loop_up option.simps(5) up_unique wf_up)

lemma wf_present_up:
  assumes "log_wf C L" and "bm_get (gl_entries L) h \<noteq> None" and "up L h ps"
  shows "distinct ps" "set ps \<subseteq> dom (bm_get (gl_entries L))" "gl_root L = Some (last ps)"
  using assms up_unique [OF assms(3)] unfolding log_wf_def rooted_def by blast+

section \<open>Branches\<close>

lemma wf_kids: "log_wf C L \<Longrightarrow> c \<in> set (kids L h) \<longleftrightarrow> parent_of L c = Some h"
  by (simp add: log_wf_def children_wf_def)

lemma parent_present: "log_wf C L \<Longrightarrow> parent_of L h = Some p \<Longrightarrow>
    bm_get (gl_entries L) h \<noteq> None \<and> bm_get (gl_entries L) p \<noteq> None"
  by (auto simp: log_wf_def entries_wf_def parent_of_def split: Option.bind_splits option.splits)

lemma down_up:
  "down L h p \<Longrightarrow> log_wf C L \<Longrightarrow> up L h ps \<Longrightarrow> up L (tip_of h p) (rev p @ ps)"
proof (induction arbitrary: ps rule: down.induct)
  case (branch c h p)
  then have "up L c (c # ps)"
    by (simp add: wf_kids up.step)
  then show ?case
    using branch by (auto simp: tip_of_def)
qed (simp add: tip_of_def)

lemma down_present:
  "down L h p \<Longrightarrow> log_wf C L \<Longrightarrow> bm_get (gl_entries L) h \<noteq> None \<Longrightarrow>
     bm_get (gl_entries L) (tip_of h p) \<noteq> None"
proof (induction rule: down.induct)
  case (branch c h p)
  then show ?case
    using parent_present [of C L c h] by (auto simp: wf_kids tip_of_def)
qed (simp add: tip_of_def)

lemma down_distinct:
  assumes "log_wf C L" and "down L h p" and "bm_get (gl_entries L) h \<noteq> None" and "up L h ps"
  shows "distinct (rev ps @ p)" "set p \<subseteq> dom (bm_get (gl_entries L))"
    "length ps + length p \<le> length (gl_entries L)"
proof -
  have u: "up L (tip_of h p) (rev p @ ps)" and t: "bm_get (gl_entries L) (tip_of h p) \<noteq> None"
    using assms down_up down_present by auto
  have d: "distinct (rev p @ ps)" "set (rev p @ ps) \<subseteq> dom (bm_get (gl_entries L))"
    using wf_present_up [OF assms(1) t u] by auto
  then show "distinct (rev ps @ p)" "set p \<subseteq> dom (bm_get (gl_entries L))"
    by auto
  show "length ps + length p \<le> length (gl_entries L)"
    using path_length [OF assms(1) d] by simp
qed

lemma down_nonempty_parent: "down L h (c # p) \<Longrightarrow> log_wf C L \<Longrightarrow> parent_of L c = Some h"
  by (auto elim!: down_ConsE simp: wf_kids)

section \<open>The best branch\<close>

text \<open>The order of fork choice: more gated entries first, then the lower tip.\<close>

definition outranked :: "u32 \<times> b32 \<times> b32 list \<Rightarrow> u32 \<times> b32 \<times> b32 list \<Rightarrow> bool" where
  "outranked a b \<longleftrightarrow> fst a < fst b \<or> fst a = fst b \<and> fst (snd b) \<le> fst (snd a)"

lemma outranked_refl [simp]: "outranked a a"
  by (simp add: outranked_def)

lemma outranked_trans: "outranked a b \<Longrightarrow> outranked b c \<Longrightarrow> outranked a c"
  by (auto simp: outranked_def)

lemma better_Some: "better c (Some b) \<longleftrightarrow> \<not> outranked c b"
  by (cases b) (auto simp: better_def outranked_def)

definition pick_step :: "governance_log \<Rightarrow> (u32 \<times> b32 \<times> b32 list) option \<Rightarrow> b32 \<times> b32 list \<Rightarrow>
    (u32 \<times> b32 \<times> b32 list) option" where
  "pick_step L best s =
     (if better (branch_candidate L (fst s) (snd s)) best
      then Some (branch_candidate L (fst s) (snd s)) else best)"

lemma pick_fold: "pick L subs = foldl (pick_step L) None subs"
  by (simp add: pick_def pick_step_def [abs_def] case_prod_unfold)

lemma pick_foldl:
  "foldl (pick_step L) (Some b) subs = Some m \<Longrightarrow>
     (m = b \<or> (\<exists>s\<in>set subs. m = branch_candidate L (fst s) (snd s)))
     \<and> outranked b m \<and> (\<forall>s\<in>set subs. outranked (branch_candidate L (fst s) (snd s)) m)"
proof (induction subs arbitrary: b)
  case (Cons s subs)
  let ?c = "branch_candidate L (fst s) (snd s)"
  let ?b = "if outranked ?c b then b else ?c"
  have "pick_step L (Some b) s = Some ?b"
    by (simp add: pick_step_def better_Some)
  then have IH: "(m = ?b \<or> (\<exists>s\<in>set subs. m = branch_candidate L (fst s) (snd s)))
     \<and> outranked ?b m \<and> (\<forall>s\<in>set subs. outranked (branch_candidate L (fst s) (snd s)) m)"
    using Cons by simp
  have "outranked b ?b" "outranked ?c ?b"
    by (auto simp: outranked_def)
  then have "outranked b m" "outranked ?c m"
    using IH outranked_trans by blast+
  moreover have "m = b \<or> (\<exists>s\<in>set (s # subs). m = branch_candidate L (fst s) (snd s))"
    using IH by (cases "outranked ?c b") (simp_all del: split_paired_Ex, blast)
  ultimately show ?case
    using IH by simp
qed simp

lemma foldl_pick_Some: "\<exists>m. foldl (pick_step L) (Some b) subs = Some m"
  by (induction subs arbitrary: b) (simp_all add: pick_step_def del: split_paired_Ex)

lemma pick_Some:
  assumes "subs \<noteq> []"
  obtains s where "s \<in> set subs" "pick L subs = Some (branch_candidate L (fst s) (snd s))"
    "\<forall>s'\<in>set subs. outranked (branch_candidate L (fst s') (snd s')) (branch_candidate L (fst s) (snd s))"
proof -
  obtain s0 rest where subs: "subs = s0 # rest"
    using assms by (cases subs) auto
  let ?b = "branch_candidate L (fst s0) (snd s0)"
  have p: "pick L subs = foldl (pick_step L) (Some ?b) rest"
    by (simp add: pick_fold subs pick_step_def better_def)
  obtain m where m: "foldl (pick_step L) (Some ?b) rest = Some m"
    using foldl_pick_Some by blast
  have all: "\<forall>s\<in>set subs. outranked (branch_candidate L (fst s) (snd s)) m"
    using pick_foldl [OF m] by (simp add: subs)
  have "\<exists>s\<in>set subs. m = branch_candidate L (fst s) (snd s)"
    using pick_foldl [OF m] unfolding subs list.set by blast
  then obtain s where "s \<in> set subs" "m = branch_candidate L (fst s) (snd s)"
    by blast
  then show ?thesis
    using that [of s] all p m by simp
qed

lemma those_Some: "those xs = Some ys \<longleftrightarrow> xs = map Some ys"
proof (induction xs arbitrary: ys)
  case (Cons x xs)
  then show ?case
    by (cases ys) (auto split: option.splits)
qed auto

lemma those_map_ex: "(\<forall>x\<in>set xs. \<exists>y. f x = Some y) \<Longrightarrow> those (map f xs) = Some (map (\<lambda>x. the (f x)) xs)"
  by (induction xs) auto

lemma map_Pair_Some:
  "map (\<lambda>c. map_option (Pair c) (f c)) cs = map Some subs \<Longrightarrow>
     map fst subs = cs \<and> (\<forall>s\<in>set subs. f (fst s) = Some (snd s))"
proof (induction cs arbitrary: subs)
  case (Cons c cs)
  then obtain s rest where "subs = s # rest" "map_option (Pair c) (f c) = Some s"
    "map (\<lambda>c. map_option (Pair c) (f c)) cs = map Some rest"
    by (cases subs) auto
  then show ?case
    using Cons.IH [of rest] by (cases "f c") auto
qed simp

lemma best_branch_unfold:
  assumes "best_branch (Suc n) L node = Some path" and "kids L node \<noteq> []"
  obtains subs child sub where "map fst subs = kids L node"
    "\<forall>s\<in>set subs. best_branch n L (fst s) = Some (snd s)" "(child, sub) \<in> set subs"
    "path = child # sub"
    "\<forall>s\<in>set subs. outranked (branch_candidate L (fst s) (snd s)) (branch_candidate L child sub)"
proof -
  obtain subs where subs: "those (map (\<lambda>c. map_option (Pair c) (best_branch n L c)) (kids L node)) = Some subs"
    and path: "path = (case pick L subs of None \<Rightarrow> [] | Some (_, _, path) \<Rightarrow> path)"
    using assms by (cases "bm_get (gl_children L) node") (simp_all add: kids_def, blast)
  have fsts: "map fst subs = kids L node" and vals: "\<forall>s\<in>set subs. best_branch n L (fst s) = Some (snd s)"
    using subs map_Pair_Some [of "best_branch n L" "kids L node" subs] by (simp_all add: those_Some)
  have "subs \<noteq> []"
    using fsts assms(2) by auto
  then obtain s where "s \<in> set subs" "pick L subs = Some (branch_candidate L (fst s) (snd s))"
    "\<forall>s'\<in>set subs. outranked (branch_candidate L (fst s') (snd s')) (branch_candidate L (fst s) (snd s))"
    by (rule pick_Some)
  then show ?thesis
    using that [of subs "fst s" "snd s"] fsts vals path by (auto simp: branch_candidate_def)
qed

lemma best_branch_down: "best_branch n L node = Some path \<Longrightarrow> down L node path"
proof (induction n arbitrary: node path)
  case (Suc n)
  show ?case
  proof (cases "kids L node = []")
    case True
    then have "path = []"
      using Suc.prems by (auto simp: kids_def pick_def split: option.splits)
    then show ?thesis
      using True by (simp add: down.tip)
  next
    case False
    obtain subs child sub where "map fst subs = kids L node"
      "\<forall>s\<in>set subs. best_branch n L (fst s) = Some (snd s)" "(child, sub) \<in> set subs" "path = child # sub"
      using best_branch_unfold [OF Suc.prems False] by metis
    moreover from this have "child \<in> set (kids L node)"
      by (metis fst_conv image_eqI set_map)
    ultimately show ?thesis
      using Suc.IH by (auto intro!: down.branch)
  qed
qed simp

lemma best_branch_total:
  "log_wf C L \<Longrightarrow> up L node ps \<Longrightarrow> length (gl_entries L) < n + length ps \<Longrightarrow>
     bm_get (gl_entries L) node \<noteq> None \<Longrightarrow> \<exists>path. best_branch n L node = Some path"
proof (induction n arbitrary: node ps)
  case 0
  then show ?case
    using path_length [OF 0(1) wf_present_up(1,2) [OF 0(1,4,2)]] by simp
next
  case (Suc n)
  have "\<exists>path. best_branch n L c = Some path" if c: "c \<in> set (kids L node)" for c
  proof (rule Suc.IH)
    show "up L c (c # ps)" "bm_get (gl_entries L) c \<noteq> None"
      using c Suc.prems(1,2) parent_present [of C L c node] by (auto simp: wf_kids intro: up.step)
  qed (use Suc.prems in simp_all)
  then have "\<forall>c\<in>set (kids L node). \<exists>s. map_option (Pair c) (best_branch n L c) = Some s"
    by fastforce
  from those_map_ex [OF this]
  have "\<exists>subs. those (map (\<lambda>c. map_option (Pair c) (best_branch n L c)) (kids L node)) = Some subs"
    by blast
  then show ?case
    by (cases "bm_get (gl_children L) node") (auto simp: kids_def)
qed

text \<open>
  The branch chosen carries the most gated entries among all branches that end in a tip, and
  among those with as many, its tip is the lowest. The counter is a \<open>u32\<close>, so the log is
  assumed to hold fewer than \<open>2\<^sup>3\<^sup>2\<close> entries.
\<close>

definition branch_beats :: "governance_log \<Rightarrow> b32 \<Rightarrow> b32 list \<Rightarrow> b32 list \<Rightarrow> bool" where
  "branch_beats L node p q \<longleftrightarrow>
     gated_count L q < gated_count L p
     \<or> gated_count L q = gated_count L p \<and> tip_of node p \<le> tip_of node q"

lemma candidate_key:
  assumes "gated_count L (c # p) < 2 ^ 32"
  shows "unat (fst (branch_candidate L c p)) = gated_count L (c # p)"
    and "fst (snd (branch_candidate L c p)) = tip_of c p"
proof -
  have "fst (branch_candidate L c p) = of_nat (gated_count L (c # p))"
    by (simp add: branch_candidate_def gated_count_def)
  then show "unat (fst (branch_candidate L c p)) = gated_count L (c # p)"
    using assms by (simp add: unat_of_nat)
  show "fst (snd (branch_candidate L c p)) = tip_of c p"
    by (simp add: branch_candidate_def tip_of_def)
qed

lemma gated_count_bound:
  assumes "log_wf C L" and "down L h p" and "bm_get (gl_entries L) h \<noteq> None"
    and "length (gl_entries L) < 2 ^ 32"
  shows "gated_count L p < 2 ^ 32"
proof -
  obtain ps where "up L h ps"
    using ancestry_total [OF assms(1)] by blast
  then show ?thesis
    using down_distinct(3) [OF assms(1-3), of ps] assms(4) length_filter_le [of "gated_at L" p]
    unfolding gated_count_def by linarith
qed

lemma best_branch_optimal:
  assumes "log_wf C L" and "length (gl_entries L) < 2 ^ 32"
  shows "best_branch n L node = Some path \<Longrightarrow> bm_get (gl_entries L) node \<noteq> None \<Longrightarrow>
    down L node q \<Longrightarrow> branch_beats L node path q"
proof (induction n arbitrary: node path q)
  case (Suc n)
  show ?case
  proof (cases q)
    case Nil
    then have "kids L node = []"
      using Suc.prems(3) by (auto elim: down_NilE)
    then have "path = []"
      using best_branch_down [OF Suc.prems(1)] by (cases path) (auto elim!: down_ConsE)
    then show ?thesis
      using Nil by (simp add: branch_beats_def)
  next
    case (Cons c q')
    then have c: "c \<in> set (kids L node)" and q': "down L c q'"
      using Suc.prems(3) by (auto elim: down_ConsE)
    then have "kids L node \<noteq> []"
      by auto
    from best_branch_unfold [OF Suc.prems(1) this] obtain subs child sub where
      subs: "map fst subs = kids L node" "\<forall>s\<in>set subs. best_branch n L (fst s) = Some (snd s)"
        "(child, sub) \<in> set subs" "path = child # sub"
        "\<forall>s\<in>set subs. outranked (branch_candidate L (fst s) (snd s)) (branch_candidate L child sub)"
      by metis
    obtain cs where cs: "(c, cs) \<in> set subs"
      using c subs(1) by (metis (no_types, lifting) imageE list.set_map prod.collapse)
    then have bc: "best_branch n L c = Some cs"
      using subs(2) by auto
    have present: "bm_get (gl_entries L) c \<noteq> None"
      using c assms(1) parent_present wf_kids by blast
    have IH: "branch_beats L c cs q'"
      by (rule Suc.IH [OF bc present q'])
    have down: "down L node (c # cs)" "down L node path"
      using c best_branch_down [OF bc] best_branch_down [OF Suc.prems(1)] by (auto intro: down.branch)
    note bounds = gated_count_bound [OF assms(1) down(1) Suc.prems(2) assms(2)]
      gated_count_bound [OF assms(1) down(2) Suc.prems(2) assms(2)]
    have "outranked (branch_candidate L c cs) (branch_candidate L child sub)"
      using subs(5) cs by auto
    then have "branch_beats L node path (c # cs)"
      using candidate_key [OF bounds(1)] candidate_key [OF bounds(2) [unfolded subs(4)]] subs(4)
      by (auto simp: outranked_def branch_beats_def word_less_nat_alt tip_of_def word_unat_eq_iff)
    moreover have "branch_beats L node (c # cs) q"
      using IH Cons by (auto simp: branch_beats_def gated_count_def tip_of_def)
    ultimately show ?thesis
      by (auto simp: branch_beats_def)
  qed
qed simp

section \<open>Insertion\<close>

text \<open>No other entry is stored under the digest of this one: what collision resistance gives.\<close>

definition no_clash :: "crypto \<Rightarrow> governance_log \<Rightarrow> log_entry \<Rightarrow> bool" where
  "no_clash C L e \<longleftrightarrow> (\<forall>e'. bm_get (gl_entries L) (entry_hash C e) = Some e' \<longrightarrow> e' = e)"

lemma log_insert_Inr:
  "log_insert C L e = Inr (h, L') \<longleftrightarrow>
     entry_verify_signature C e = Inr () \<and> h = entry_hash C e
     \<and> (case le_parent e of
          None \<Rightarrow> is_genesis (le_body e) \<and> (gl_root L = None \<or> gl_root L = Some h)
            \<and> L' = L\<lparr>gl_root := Some h, gl_entries := bm_insert h e (gl_entries L)\<rparr>
        | Some p \<Rightarrow> bm_get (gl_entries L) p \<noteq> None
            \<and> L' = L\<lparr>gl_children := add_child p h (gl_children L),
                     gl_entries := bm_insert h e (gl_entries L)\<rparr>)"
  by (auto simp: log_insert_def res_bind_Inr_iff Let_def bm_contains_def split: option.splits)

lemma kids_add_child:
  "kids (L\<lparr>gl_children := add_child p h (gl_children L), gl_entries := x\<rparr>) q =
     (if q = p then bs_insert h (kids L p) else kids L q)"
  by (auto simp: kids_def add_child_def split: option.splits)

lemma bs_insert_present: "bs_ok s \<Longrightarrow> k \<in> set s \<Longrightarrow> bs_insert k s = s"
  by (rule bs_ext) auto

lemma log_insert_known:
  assumes "log_wf C L" and "log_insert C L e = Inr (h, L')" and "bm_get (gl_entries L) h = Some e"
  shows "L' = L"
proof -
  have ok: "bm_ok (gl_entries L)" "bm_ok (gl_children L)"
    using assms(1) by (auto simp: log_wf_def entries_wf_def children_wf_def)
  have same: "bm_insert h e (gl_entries L) = gl_entries L"
    by (rule bm.ins_present [OF ok(1) assms(3)])
  show ?thesis
  proof (cases "le_parent e")
    case None
    then have "gl_root L = Some h"
      using assms(1,3) by (fastforce simp: log_wf_def entries_wf_def)
    then show ?thesis
      using assms(2) None same by (simp add: log_insert_Inr)
  next
    case (Some p)
    then have k: "h \<in> set (kids L p)"
      using assms(1,3) wf_kids by (auto simp: parent_of_def)
    then obtain cs where cs: "bm_get (gl_children L) p = Some cs" "h \<in> set cs"
      by (cases "bm_get (gl_children L) p") (auto simp: kids_def)
    then have "bs_ok cs"
      using assms(1) by (auto simp: log_wf_def children_wf_def)
    then have "add_child p h (gl_children L) = gl_children L"
      using cs bm.ins_present [OF ok(2) cs(1)] by (simp add: add_child_def bs_insert_present)
    then show ?thesis
      using assms(2) Some same by (simp add: log_insert_Inr)
  qed
qed

lemma log_insert_new_parts:
  assumes "log_insert C L e = Inr (h, L')" and "bm_get (gl_entries L) h = None"
  shows "gl_entries L' = bm_insert h e (gl_entries L)"
    and "gl_finalized L' = gl_finalized L"
    and "parent_of L' x = (if x = h then le_parent e else parent_of L x)"
    and "kids L' x = (if le_parent e = Some x then bs_insert h (kids L x) else kids L x)"
    and "gl_root L' = (if le_parent e = None then Some h else gl_root L)"
  using assms
  by (auto simp: log_insert_Inr parent_of_def kids_add_child kids_def add_child_def split: option.splits)

lemma log_insert_up:
  assumes "log_insert C L e = Inr (h, L')" and "bm_get (gl_entries L) h = None"
    and "up L x ps" and "set ps \<subseteq> dom (bm_get (gl_entries L))"
  shows "up L' x ps"
  using assms(2,4) log_insert_new_parts(3) [OF assms(1,2)] by (intro up_cong [OF assms(3)]) auto

lemma log_insert_wf_entries:
  assumes "log_wf C L" and "log_insert C L e = Inr (h, L')" and "bm_get (gl_entries L) h = None"
  shows "entries_wf C L'"
proof -
  have root: "gl_root L = None" if "le_parent e = None"
    using that assms by (auto simp: log_insert_Inr log_wf_def rooted_def)
  have old: "case le_parent e' of None \<Rightarrow> is_genesis (le_body e') \<and> gl_root L' = Some h'
      | Some p \<Rightarrow> bm_get (gl_entries L') p \<noteq> None"
    if "bm_get (gl_entries L) h' = Some e'" for h' e'
    using that assms(1) root log_insert_new_parts [OF assms(2,3)]
    by (fastforce simp: log_wf_def entries_wf_def split: option.splits)
  show ?thesis
    using assms old log_insert_new_parts [OF assms(2,3)]
    by (auto simp: entries_wf_def log_wf_def log_insert_Inr split: option.splits)
qed

lemma log_insert_wf_children:
  assumes "log_wf C L" and "log_insert C L e = Inr (h, L')" and "bm_get (gl_entries L) h = None"
  shows "children_wf L'"
proof -
  have "x \<in> set (kids L' p) \<longleftrightarrow> parent_of L' x = Some p" for p x
  proof (cases "x = h")
    case True
    then have "h \<notin> set (kids L p)"
      using assms(1,3) wf_kids parent_present by blast
    then show ?thesis
      using True log_insert_new_parts [OF assms(2,3)] by auto
  next
    case False
    then show ?thesis
      using assms(1) wf_kids log_insert_new_parts [OF assms(2,3)] by auto
  qed
  moreover have "bm_ok (gl_children L')"
    "\<forall>p cs. bm_get (gl_children L') p = Some cs \<longrightarrow> bs_ok cs \<and> cs \<noteq> []"
    using assms(1,2)
    by (auto simp: log_wf_def children_wf_def log_insert_Inr add_child_def split: option.splits if_splits)
      (metis empty_iff insert_not_empty list.set(1) set_bs_insert)+
  ultimately show ?thesis
    by (simp add: children_wf_def)
qed

lemma log_insert_wf_rooted:
  assumes "log_wf C L" and "log_insert C L e = Inr (h, L')" and "bm_get (gl_entries L) h = None"
  shows "rooted L'"
proof -
  note parts = log_insert_new_parts [OF assms(2,3)]
  have root: "gl_root L = None" if "le_parent e = None"
    using that assms by (auto simp: log_insert_Inr log_wf_def rooted_def)
  have path: "\<exists>ps. up L' x ps \<and> distinct ps \<and> set ps \<subseteq> dom (bm_get (gl_entries L))
      \<and> gl_root L' = Some (last ps)"
    if x: "bm_get (gl_entries L) x \<noteq> None" for x
  proof -
    obtain ps where ps: "up L x ps" "distinct ps" "set ps \<subseteq> dom (bm_get (gl_entries L))"
      "gl_root L = Some (last ps)"
      using x assms(1) unfolding log_wf_def rooted_def by blast
    then show ?thesis
      using log_insert_up [OF assms(2,3)] root parts(5) by auto
  qed
  have new: "\<exists>ps. up L' h ps \<and> distinct ps \<and> set ps \<subseteq> insert h (dom (bm_get (gl_entries L)))
      \<and> gl_root L' = Some (last ps)"
  proof (cases "le_parent e")
    case None
    then show ?thesis
      using parts by (intro exI [of _ "[h]"]) (auto intro: up.stop)
  next
    case (Some p)
    then have "bm_get (gl_entries L) p \<noteq> None"
      using assms(2) by (simp add: log_insert_Inr)
    then obtain ps where ps: "up L' p ps" "distinct ps" "set ps \<subseteq> dom (bm_get (gl_entries L))"
      "gl_root L' = Some (last ps)"
      using path by blast
    then have "up L' h (h # ps)" "distinct (h # ps)"
      using Some parts(3) assms(3) by (auto intro: up.step)
    moreover have "last (h # ps) = last ps"
      using up_hd [OF ps(1)] by simp
    ultimately show ?thesis
      using ps by (intro exI [of _ "h # ps"]) auto
  qed
  have "\<exists>ps. up L' x ps \<and> distinct ps \<and> set ps \<subseteq> insert h (dom (bm_get (gl_entries L)))
      \<and> gl_root L' = Some (last ps)"
    if "x = h \<or> bm_get (gl_entries L) x \<noteq> None" for x
    using that new path by blast
  moreover have "bm_get (gl_entries L') r \<noteq> None \<and> parent_of L' r = None"
    if "gl_root L' = Some r" for r
    using that assms(1,3) parts root by (auto simp: log_wf_def rooted_def split: if_splits)
  ultimately show ?thesis
    using assms(1) parts by (auto simp: rooted_def log_wf_def)
qed

lemma log_insert_wf:
  assumes "log_wf C L" and "log_insert C L e = Inr (h, L')" and "no_clash C L e"
  shows "log_wf C L'"
proof (cases "bm_get (gl_entries L) h")
  case None
  then show ?thesis
    using log_insert_wf_entries log_insert_wf_children log_insert_wf_rooted assms(1,2)
    unfolding log_wf_def [of C L'] by blast
next
  case (Some e')
  then have "bm_get (gl_entries L) h = Some e"
    using assms(2,3) by (auto simp: no_clash_def log_insert_Inr)
  then show ?thesis
    using log_insert_known [OF assms(1,2)] assms(1) by simp
qed

section \<open>The canonical chain\<close>

definition log_start :: "governance_log \<Rightarrow> b32 \<Rightarrow> b32" where
  "log_start L root = (case gl_finalized L of None \<Rightarrow> root | Some f \<Rightarrow> f)"

lemma start_present:
  "log_wf C L \<Longrightarrow> gl_root L = Some r \<Longrightarrow> bm_get (gl_entries L) (log_start L r) \<noteq> None"
  by (auto simp: log_wf_def rooted_def log_start_def split: option.splits)

lemma up_drop: "up L h us \<Longrightarrow> j < length us \<Longrightarrow> up L (us ! j) (drop j us)"
proof (induction arbitrary: j rule: up.induct)
  case (step h p ps)
  then show ?case
    by (cases j) (auto intro: up.step)
qed (auto intro: up.stop)

lemma up_take:
  assumes "up L t (rev chain)" and "i < length chain"
  shows "up L (chain ! i) (rev (take (Suc i) chain))"
proof -
  have "up L (rev chain ! (length chain - Suc i)) (drop (length chain - Suc i) (rev chain))"
    using assms by (intro up_drop) auto
  then show ?thesis
    using assms(2) by (simp add: rev_nth rev_take)
qed

text \<open>What fork choice and the walk to the root give together.\<close>

lemma canonical_parts:
  assumes "log_wf C L" and "gl_root L = Some r"
  obtains ps below where "up L (log_start L r) ps" "ancestry L (log_start L r) = Some (rev ps)"
    "best_branch_below L (log_start L r) = Some below" "down L (log_start L r) below"
    "canonical_chain L = Some (rev ps @ below)"
proof -
  obtain ps where ps: "up L (log_start L r) ps" "ancestry L (log_start L r) = Some (rev ps)"
    using ancestry_total [OF assms(1)] by blast
  moreover obtain below where "best_branch_below L (log_start L r) = Some below"
    using best_branch_total [OF assms(1) ps(1), of "log_fuel L"] start_present [OF assms]
    by (auto simp: best_branch_below_def log_fuel_def)
  ultimately show ?thesis
    using that best_branch_down assms(2)
    by (auto simp: canonical_chain_def best_branch_below_def log_start_def)
qed

definition chain_ok :: "governance_log \<Rightarrow> b32 \<Rightarrow> b32 list \<Rightarrow> bool" where
  "chain_ok L root chain \<longleftrightarrow>
     chain \<noteq> [] \<and> hd chain = root \<and> distinct chain \<and> set chain \<subseteq> dom (bm_get (gl_entries L))
     \<and> up L (last chain) (rev chain) \<and> kids L (last chain) = []"

lemma down_tip_kids: "down L h p \<Longrightarrow> kids L (tip_of h p) = []"
  by (induction rule: down.induct) (auto simp: tip_of_def split: if_splits)

lemma chain_ok_parts:
  assumes "log_wf C L" and "gl_root L = Some r" and "up L (log_start L r) ps"
    and "down L (log_start L r) below"
  shows "chain_ok L r (rev ps @ below)"
proof -
  let ?s = "log_start L r"
  have s: "bm_get (gl_entries L) ?s \<noteq> None"
    by (rule start_present [OF assms(1,2)])
  note ps = wf_present_up [OF assms(1) s assms(3)]
  have ne: "ps \<noteq> []" "hd ps = ?s"
    using up_hd [OF assms(3)] by auto
  have tip: "last (rev ps @ below) = tip_of ?s below"
    using ne by (simp add: tip_of_def last_rev)
  have root: "hd (rev ps @ below) = r"
    using ps(3) ne assms(2) by (simp add: hd_append hd_rev)
  show ?thesis
    unfolding chain_ok_def tip
    using ne ps root down_distinct [OF assms(1,4) s assms(3)] down_up [OF assms(4,1,3)]
      down_tip_kids [OF assms(4)]
    by auto
qed

lemma canonical_chain_ok:
  assumes "log_wf C L" and "gl_root L = Some r"
  obtains chain where "canonical_chain L = Some chain" "chain_ok L r chain"
    "log_start L r \<in> set chain"
proof -
  obtain ps below where p: "up L (log_start L r) ps" "down L (log_start L r) below"
    "canonical_chain L = Some (rev ps @ below)"
    using canonical_parts [OF assms] by metis
  moreover have "log_start L r \<in> set ps"
    using up_hd [OF p(1)] by (metis hd_in_set)
  ultimately show ?thesis
    using chain_ok_parts [OF assms p(1,2)] that by simp
qed

section \<open>Finality\<close>

lemma foldl_last_index:
  "foldl (\<lambda>acc i. if P i then Some i else acc) None [0..<n] = Some i \<longleftrightarrow>
     i < n \<and> P i \<and> (\<forall>j. i < j \<and> j < n \<longrightarrow> \<not> P j)"
proof (induction n)
  case (Suc n)
  then show ?case
    using less_Suc_eq by (auto split: if_splits)
qed simp

lemma newly_final_Some:
  "newly_final L params canonical now = Some i \<longleftrightarrow>
     i < length canonical \<and> final_at L params canonical now i
     \<and> (\<forall>j. i < j \<and> j < length canonical \<longrightarrow> \<not> final_at L params canonical now j)"
  unfolding newly_final_def by (rule foldl_last_index)

lemma position_Some: "position xs h = Some i \<Longrightarrow> i < length xs \<and> xs ! i = h"
  by (induction xs arbitrary: i) (auto split: if_splits)

lemma position_None: "position xs h = None \<longleftrightarrow> h \<notin> set xs"
  by (induction xs) auto

text \<open>Advancing either leaves the log alone or moves the mark strictly further along the chain.\<close>

lemma advance_finality_Some:
  assumes "advance_finality C L canonical now = Some L'"
  shows "L' = L \<or> (\<exists>i st. replay_canonical C L = Some (Inr st) \<and> i < length canonical
      \<and> final_at L (finality (gs_policy st)) canonical now i
      \<and> (\<forall>f j. gl_finalized L = Some f \<and> position canonical f = Some j \<longrightarrow> j < i)
      \<and> L' = L\<lparr>gl_finalized := Some (canonical ! i)\<rparr>)"
proof -
  obtain replayed where rep: "replay_canonical C L = Some replayed"
    using assms by (auto simp: advance_finality_def)
  show ?thesis
  proof (cases replayed)
    case (Inl err)
    then show ?thesis
      using assms rep by (simp add: advance_finality_def)
  next
    case (Inr st)
    show ?thesis
    proof (cases "newly_final L (finality (gs_policy st)) canonical now")
      case None
      then show ?thesis
        using assms rep Inr by (simp add: advance_finality_def)
    next
      case (Some i)
      then have "i < length canonical" "final_at L (finality (gs_policy st)) canonical now i"
        by (simp_all add: newly_final_Some)
      then show ?thesis
        using assms rep Inr Some
        by (auto simp: advance_finality_def Let_def split: option.splits if_splits)
    qed
  qed
qed

lemma frame_finalized:
  "parent_of (L\<lparr>gl_finalized := f\<rparr>) = parent_of L" "kids (L\<lparr>gl_finalized := f\<rparr>) = kids L"
  by (simp_all add: parent_of_def kids_def fun_eq_iff)

lemma up_finalized: "up (L\<lparr>gl_finalized := f\<rparr>) h ps \<longleftrightarrow> up L h ps"
  using up_cong [of L h ps "L\<lparr>gl_finalized := f\<rparr>"] up_cong [of "L\<lparr>gl_finalized := f\<rparr>" h ps L]
  by (auto simp: frame_finalized)

lemma log_wf_finalized:
  "log_wf C L \<Longrightarrow> bm_get (gl_entries L) f \<noteq> None \<Longrightarrow> log_wf C (L\<lparr>gl_finalized := Some f\<rparr>)"
  by (simp add: log_wf_def entries_wf_def children_wf_def rooted_def frame_finalized up_finalized
      cong: option.case_cong)

lemma reconcile_Some:
  assumes "log_wf C L" and "gl_root L = Some r"
  obtains chain L' where "canonical_chain L = Some chain" "chain_ok L r chain" "log_start L r \<in> set chain"
    "advance_finality C L chain now = Some L'"
    "reconcile C L now = Some (L', \<lparr>rc_canonical = chain,
       rc_voided = map voided_of (filter (\<lambda>p. fst p \<notin> set chain) (gl_entries L')),
       rc_finalized = gl_finalized L'\<rparr>)"
proof -
  obtain ps below where p: "up L (log_start L r) ps" "ancestry L (log_start L r) = Some (rev ps)"
    "best_branch_below L (log_start L r) = Some below" "down L (log_start L r) below"
    "canonical_chain L = Some (rev ps @ below)"
    using canonical_parts [OF assms] by metis
  obtain L' where L': "advance_finality C L (rev ps @ below) now = Some L'"
    by (auto simp: advance_finality_def replay_canonical_def p(5))
  have "log_start L r \<in> set (rev ps @ below)"
    using up_hd [OF p(1)] by (metis Un_iff hd_in_set set_append set_rev)
  then show ?thesis
    using that [OF p(5) chain_ok_parts [OF assms p(1,4)] _ L'] p L' assms(2)
    by (simp add: reconcile_def log_start_def Let_def)
qed

lemma reconcile_log:
  assumes "log_wf C L" and "reconcile C L now = Some (L', rc)"
  shows "L' = L \<or> (\<exists>f r chain i. gl_root L = Some r \<and> canonical_chain L = Some chain
    \<and> chain_ok L r chain \<and> log_start L r \<in> set chain \<and> i < length chain \<and> f = chain ! i
    \<and> (\<forall>g j. gl_finalized L = Some g \<and> position chain g = Some j \<longrightarrow> j < i)
    \<and> L' = L\<lparr>gl_finalized := Some f\<rparr>)"
proof (cases "gl_root L")
  case None
  then show ?thesis
    using assms(2) by (simp add: reconcile_def)
next
  case (Some r)
  obtain chain L1 where c: "canonical_chain L = Some chain" "chain_ok L r chain"
    "log_start L r \<in> set chain" "advance_finality C L chain now = Some L1"
    "reconcile C L now = Some (L1, \<lparr>rc_canonical = chain,
       rc_voided = map voided_of (filter (\<lambda>p. fst p \<notin> set chain) (gl_entries L1)),
       rc_finalized = gl_finalized L1\<rparr>)"
    by (rule reconcile_Some [OF assms(1) Some, of now])
  have "L' = L1"
    using c(5) assms(2) by simp
  then show ?thesis
    using advance_finality_Some [OF c(4)] c(1-3) Some by blast
qed

lemma chain_nth_present:
  "chain_ok L r chain \<Longrightarrow> i < length chain \<Longrightarrow> bm_get (gl_entries L) (chain ! i) \<noteq> None"
  by (metis chain_ok_def domIff nth_mem subsetD)

lemma reconcile_wf: "log_wf C L \<Longrightarrow> reconcile C L now = Some (L', rc) \<Longrightarrow> log_wf C L'"
proof -
  assume wf: "log_wf C L" and rec: "reconcile C L now = Some (L', rc)"
  consider "L' = L" | f where "bm_get (gl_entries L) f \<noteq> None" "L' = L\<lparr>gl_finalized := Some f\<rparr>"
    using reconcile_log [OF wf rec] chain_nth_present by blast
  then show ?thesis
    using wf log_wf_finalized by cases auto
qed

text \<open>The final entries: the finalized one and its ancestors.\<close>

lemma is_final_iff:
  assumes "log_wf C L"
  shows "is_final L h = Some True \<longleftrightarrow> (\<exists>f ps. gl_finalized L = Some f \<and> up L f ps \<and> h \<in> set ps)"
proof (cases "gl_finalized L")
  case None
  then show ?thesis
    by (simp add: is_final_def)
next
  case (Some f)
  obtain ps where ps: "up L f ps"
    using ancestry_total [OF assms] by blast
  have "is_final L h = Some (h \<in> set ps)"
    by (rule is_final_up [OF assms Some ps])
  moreover have "(\<exists>f' qs. gl_finalized L = Some f' \<and> up L f' qs \<and> h \<in> set qs) \<longleftrightarrow> h \<in> set ps"
    using Some ps up_unique by (metis option.inject)
  ultimately show ?thesis
    by simp
qed

lemma is_final_total: "log_wf C L \<Longrightarrow> is_final L h \<noteq> None"
proof (cases "gl_finalized L")
  case (Some f)
  assume wf: "log_wf C L"
  obtain ps where "up L f ps"
    using ancestry_total [OF wf] by blast
  then show ?thesis
    using is_final_up [OF wf Some] by simp
qed (simp add: is_final_def)

lemma final_canonical:
  assumes "log_wf C L" and "is_final L h = Some True"
  shows "\<exists>chain. canonical_chain L = Some chain \<and> h \<in> set chain"
proof -
  obtain f ps where f: "gl_finalized L = Some f" "up L f ps" "h \<in> set ps"
    using assms is_final_iff by blast
  then have "bm_get (gl_entries L) f \<noteq> None"
    using assms(1) by (auto simp: log_wf_def rooted_def)
  then obtain r where r: "gl_root L = Some r"
    using wf_present_up(3) [OF assms(1) _ f(2)] by blast
  obtain qs below where q: "up L (log_start L r) qs" "canonical_chain L = Some (rev qs @ below)"
    using canonical_parts [OF assms(1) r] by metis
  have "qs = ps"
    using q(1) f(1) up_unique [OF f(2)] by (simp add: log_start_def)
  then show ?thesis
    using q(2) f(3) by simp
qed

lemma insert_final:
  assumes "log_wf C L" and "log_insert C L e = Inr (h, L')" and "no_clash C L e"
    and "is_final L x = Some True"
  shows "is_final L' x = Some True"
proof (cases "bm_get (gl_entries L) h")
  case None
  obtain f ps where f: "gl_finalized L = Some f" "up L f ps" "x \<in> set ps"
    using assms is_final_iff by blast
  then have "bm_get (gl_entries L) f \<noteq> None"
    using assms(1) by (auto simp: log_wf_def rooted_def)
  then have "up L' f ps"
    using log_insert_up [OF assms(2) None f(2)] wf_present_up(2) [OF assms(1) _ f(2)] by blast
  then show ?thesis
    using f log_insert_new_parts(2) [OF assms(2) None] is_final_iff [OF log_insert_wf [OF assms(1-3)]]
    by auto
next
  case (Some e')
  then show ?thesis
    using log_insert_known [OF assms(1,2)] assms by (auto simp: no_clash_def log_insert_Inr)
qed

lemma reconcile_final:
  assumes "log_wf C L" and "reconcile C L now = Some (L', rc)" and "is_final L x = Some True"
  shows "is_final L' x = Some True"
proof -
  consider "L' = L" | r chain i where "gl_root L = Some r" "chain_ok L r chain"
    "log_start L r \<in> set chain" "i < length chain"
    "\<forall>g j. gl_finalized L = Some g \<and> position chain g = Some j \<longrightarrow> j < i"
    "L' = L\<lparr>gl_finalized := Some (chain ! i)\<rparr>"
    using reconcile_log [OF assms(1,2)] by blast
  then show ?thesis
  proof cases
    case 2
    obtain f ps where f: "gl_finalized L = Some f" "up L f ps" "x \<in> set ps"
      using assms is_final_iff by blast
    then have "f \<in> set chain"
      using 2(3) by (simp add: log_start_def)
    then obtain j where "position chain f = Some j"
      using position_None by fastforce
    then have j: "j < length chain" "chain ! j = f" "j < i"
      using position_Some 2(5) f(1) by blast+
    have top: "up L (last chain) (rev chain)"
      using 2(2) by (simp add: chain_ok_def)
    have "ps = rev (take (Suc j) chain)"
      using up_take [OF top j(1)] j(2) up_unique [OF f(2)] by simp
    then have "x \<in> set (take (Suc j) chain)"
      using f(3) by simp
    then have "x \<in> set (take (Suc i) chain)"
      using set_take_subset_set_take [of "Suc j" "Suc i" chain] j(3) by auto
    moreover have "up L' (chain ! i) (rev (take (Suc i) chain))"
      using up_take [OF top 2(4)] 2(6) by (simp add: up_finalized)
    ultimately show ?thesis
      using is_final_iff [OF reconcile_wf [OF assms(1,2)]] 2(6) by auto
  qed (use assms(3) in simp)
qed

section \<open>Histories of a log\<close>

text \<open>
  A node's log changes by inserting an entry and by reconciling. An insertion step carries the
  freedom from collisions the hash is relied on for.
\<close>

inductive log_step :: "crypto \<Rightarrow> governance_log \<Rightarrow> governance_log \<Rightarrow> bool" for C where
  inserts: "log_insert C L e = Inr (h, L') \<Longrightarrow> no_clash C L e \<Longrightarrow> log_step C L L'"
| reconciles: "reconcile C L now = Some (L', rc) \<Longrightarrow> log_step C L L'"

inductive_cases log_stepE: "log_step C L L'"

lemma step_wf: "log_step C L L' \<Longrightarrow> log_wf C L \<Longrightarrow> log_wf C L'"
  by (auto elim!: log_stepE intro: log_insert_wf reconcile_wf)

lemma steps_wf: "(log_step C)\<^sup>*\<^sup>* L L' \<Longrightarrow> log_wf C L \<Longrightarrow> log_wf C L'"
  by (induction rule: rtranclp_induct) (auto intro: step_wf)

lemma reachable_wf: "(log_step C)\<^sup>*\<^sup>* empty_log L \<Longrightarrow> log_wf C L"
  using steps_wf log_wf_empty by blast

lemma steps_final:
  "(log_step C)\<^sup>*\<^sup>* L L' \<Longrightarrow> log_wf C L \<Longrightarrow> is_final L x = Some True \<Longrightarrow> is_final L' x = Some True"
proof (induction rule: rtranclp_induct)
  case (step L1 L2)
  then have "log_wf C L1"
    using steps_wf by blast
  with step show ?case
    by (auto elim!: log_stepE intro: insert_final reconcile_final)
qed simp

section \<open>Order of insertion\<close>

text \<open>A well-formed log is determined by the entries it holds and its finalized mark.\<close>

lemma kids_children:
  "children_wf L \<Longrightarrow> bm_get (gl_children L) p = (if kids L p = [] then None else Some (kids L p))"
  by (auto simp: children_wf_def kids_def split: option.splits)

lemma kids_bs_ok: "children_wf L \<Longrightarrow> bs_ok (kids L p)"
  by (auto simp: children_wf_def kids_def split: option.splits)

lemma root_iff:
  "log_wf C L \<Longrightarrow> gl_root L = Some r \<longleftrightarrow>
     (\<exists>e. bm_get (gl_entries L) r = Some e \<and> le_parent e = None)"
  by (fastforce simp: log_wf_def entries_wf_def rooted_def parent_of_def)

lemma log_ext:
  assumes wf: "log_wf C L" "log_wf C L'"
    and eq: "bm_get (gl_entries L) = bm_get (gl_entries L')" and fin: "gl_finalized L = gl_finalized L'"
  shows "L = L'"
proof -
  have entries: "gl_entries L = gl_entries L'"
    using wf eq by (auto simp: log_wf_def entries_wf_def intro: bm_ext)
  have ch: "children_wf L" "children_wf L'"
    using wf by (simp_all add: log_wf_def)
  have "kids L p = kids L' p" for p
    using ch by (intro bs_ext kids_bs_ok) (auto simp: children_wf_def parent_of_def entries)
  then have "bm_get (gl_children L) = bm_get (gl_children L')"
    using ch by (simp add: kids_children fun_eq_iff)
  then have children: "gl_children L = gl_children L'"
    using ch by (auto simp: children_wf_def intro: bm_ext)
  have "gl_root L = Some r \<longleftrightarrow> gl_root L' = Some r" for r
    by (simp add: root_iff [OF wf(1)] root_iff [OF wf(2)] entries)
  then have "gl_root L = gl_root L'"
    by (metis not_Some_eq)
  then show ?thesis
    using entries children fin by simp
qed

fun insert_all :: "crypto \<Rightarrow> governance_log \<Rightarrow> log_entry list \<Rightarrow> governance_error + governance_log" where
  "insert_all C L [] = Inr L"
| "insert_all C L (e # es) = res_bind (log_insert C L e) (\<lambda>(_, L'). insert_all C L' es)"

definition holds_exactly :: "crypto \<Rightarrow> log_entry set \<Rightarrow> governance_log \<Rightarrow> bool" where
  "holds_exactly C S L \<longleftrightarrow>
     (\<forall>h e. bm_get (gl_entries L) h = Some e \<longleftrightarrow> e \<in> S \<and> entry_hash C e = h)"

lemma holds_no_clash:
  "holds_exactly C S L \<Longrightarrow> inj_on (entry_hash C) (insert e S) \<Longrightarrow> no_clash C L e"
  unfolding holds_exactly_def no_clash_def by (metis inj_onD insertI1 insertI2)

lemma log_insert_holds:
  assumes "holds_exactly C S L" and "inj_on (entry_hash C) (insert e S)"
    and "log_insert C L e = Inr (h, L')"
  shows "holds_exactly C (insert e S) L' \<and> gl_finalized L' = gl_finalized L"
proof -
  have "bm_get (gl_entries L') = (bm_get (gl_entries L))(h \<mapsto> e)" "h = entry_hash C e"
    "gl_finalized L' = gl_finalized L"
    using assms(3) by (auto simp: log_insert_Inr split: option.splits)
  moreover have "e' = e" if "e' \<in> S" "entry_hash C e' = entry_hash C e" for e'
    using inj_onD [OF assms(2) that(2)] that(1) by simp
  ultimately show ?thesis
    using assms(1) by (auto simp: holds_exactly_def)
qed

lemma insert_all_holds:
  "insert_all C L es = Inr L' \<Longrightarrow> log_wf C L \<Longrightarrow> holds_exactly C S L \<Longrightarrow>
     inj_on (entry_hash C) (S \<union> set es) \<Longrightarrow>
     log_wf C L' \<and> holds_exactly C (S \<union> set es) L' \<and> gl_finalized L' = gl_finalized L
     \<and> (log_step C)\<^sup>*\<^sup>* L L'"
proof (induction es arbitrary: L S)
  case (Cons e es)
  then obtain h L1 where L1: "log_insert C L e = Inr (h, L1)" "insert_all C L1 es = Inr L'"
    by (auto simp: res_bind_Inr_iff)
  have inj: "inj_on (entry_hash C) (insert e S)"
    using Cons.prems(4) by (rule inj_on_subset) auto
  have clash: "no_clash C L e"
    by (rule holds_no_clash [OF Cons.prems(3) inj])
  have "log_wf C L' \<and> holds_exactly C (insert e S \<union> set es) L' \<and> gl_finalized L' = gl_finalized L1
      \<and> (log_step C)\<^sup>*\<^sup>* L1 L'"
  proof (rule Cons.IH [OF L1(2) log_insert_wf [OF Cons.prems(2) L1(1) clash]])
    show "holds_exactly C (insert e S) L1"
      using log_insert_holds [OF Cons.prems(3) inj L1(1)] by simp
    show "inj_on (entry_hash C) (insert e S \<union> set es)"
      using Cons.prems(4) by (simp only: list.set Un_insert_left Un_insert_right)
  qed
  then show ?case
    using log_insert_holds [OF Cons.prems(3) inj L1(1)] log_step.inserts [OF L1(1) clash]
    by (auto intro: converse_rtranclp_into_rtranclp)
qed simp

lemma holds_empty: "holds_exactly C {} empty_log"
  by (simp add: holds_exactly_def empty_log_def)

section \<open>Serving a synchronization\<close>

definition depth :: "governance_log \<Rightarrow> b32 \<Rightarrow> nat" where
  "depth L h = length (the (ancestry L h))"

definition ancestors :: "governance_log \<Rightarrow> b32 \<Rightarrow> b32 set" where
  "ancestors L h = set (the (ancestry L h))"

lemma depth_up: "log_wf C L \<Longrightarrow> up L h ps \<Longrightarrow> depth L h = length ps \<and> ancestors L h = set ps"
  by (simp add: depth_def ancestors_def ancestry_up)

lemma ancestry_the: "log_wf C L \<Longrightarrow> ancestry L h = Some (the (ancestry L h))"
  by (metis ancestry_total option.sel)

lemma depth_parent:
  assumes "log_wf C L" and "parent_of L h = Some p"
  shows "depth L h = Suc (depth L p)" and "ancestors L h = insert h (ancestors L p)"
proof -
  obtain ps where ps: "up L p ps"
    using ancestry_total [OF assms(1)] by blast
  show "depth L h = Suc (depth L p)" "ancestors L h = insert h (ancestors L p)"
    using depth_up [OF assms(1) ps] depth_up [OF assms(1) up.step [OF assms(2) ps]] by auto
qed

lemma self_ancestor: "log_wf C L \<Longrightarrow> h \<in> ancestors L h"
  using ancestry_total [of C L h] depth_up up_hd by (metis hd_in_set)

lemma ancestors_closed:
  assumes "log_wf C L" and "x \<in> ancestors L h" and "parent_of L x = Some p"
  shows "p \<in> ancestors L h"
proof -
  obtain ps where ps: "up L h ps" "ancestors L h = set ps"
    using ancestry_total [OF assms(1)] depth_up [OF assms(1)] by metis
  then obtain rs qs where q: "ps = rs @ qs" "up L x qs"
    using up_member [OF ps(1), of x] assms(2) by auto
  have "ancestors L x = insert x (ancestors L p)"
    by (rule depth_parent(2) [OF assms(1,3)])
  then have "p \<in> set qs"
    using depth_up [OF assms(1) q(2)] self_ancestor [OF assms(1), of p] by auto
  then show ?thesis
    using ps(2) q(1) by simp
qed

lemma ancestors_present:
  assumes "log_wf C L" and "bm_get (gl_entries L) h \<noteq> None"
  shows "ancestors L h \<subseteq> dom (bm_get (gl_entries L))"
proof -
  obtain ps where "up L h ps" "ancestors L h = set ps"
    using ancestry_total [OF assms(1)] depth_up [OF assms(1)] by metis
  then show ?thesis
    using wf_present_up(2) [OF assms] by simp
qed

definition needed_set :: "governance_log \<Rightarrow> b32 list \<Rightarrow> b32 list \<Rightarrow> b32 set" where
  "needed_set L wanted have_tips =
     (\<Union>w\<in>{w \<in> set wanted. bm_get (gl_entries L) w \<noteq> None}. ancestors L w)
       - (\<Union>t\<in>set have_tips. ancestors L t)"

lemma ancestors_first_unfold:
  assumes "log_wf C L"
  obtains needed where "bs_ok needed" "set needed = needed_set L wanted have_tips"
    "ancestors_first L wanted have_tips n =
       (let ordered = sort (map (\<lambda>h. (depth L h, h)) needed) in
        Some (map (\<lambda>p. the (bm_get (gl_entries L) (snd p))) (take n ordered), length ordered > n))"
proof -
  have those: "those (map (ancestry L) xs) = Some (map (\<lambda>h. the (ancestry L h)) xs)" for xs
    using ancestry_the [OF assms] by (intro those_map_ex) blast
  define ex where "ex = bs_collect (concat (map (\<lambda>h. the (ancestry L h)) have_tips))"
  define needed where "needed = bs_collect (filter (\<lambda>a. a \<notin> set ex)
      (concat (map (\<lambda>h. the (ancestry L h)) (filter (bm_contains (gl_entries L)) wanted))))"
  have steps: "excluded_by L have_tips = Some ex" "needed_for L wanted ex = Some needed"
    by (simp_all add: excluded_by_def needed_for_def those ex_def needed_def)
  have set_needed: "set needed = needed_set L wanted have_tips"
    by (auto simp: ex_def needed_def needed_set_def ancestors_def bm_contains_def)
  then have present: "bm_get (gl_entries L) h \<noteq> None" if "h \<in> set needed" for h
    using that ancestors_present [OF assms] unfolding needed_set_def by blast
  have zip: "zip (map length (map (\<lambda>h. the (ancestry L h)) xs)) xs = map (\<lambda>h. (depth L h, h)) xs" for xs
    by (simp add: depth_def zip_map1 zip_same_conv_map)
  let ?o = "sort (map (\<lambda>h. (depth L h, h)) needed)"
  have mf: "List.map_filter (\<lambda>(_, h). bm_get (gl_entries L) h) xs
      = map (\<lambda>p. the (bm_get (gl_entries L) (snd p))) xs"
    if "\<forall>p\<in>set xs. bm_get (gl_entries L) (snd p) \<noteq> None" for xs :: "(nat \<times> b32) list"
    using that by (induction xs) (auto simp: map_filter_simps)
  have "\<forall>p\<in>set (take n ?o). bm_get (gl_entries L) (snd p) \<noteq> None"
    using present set_take_subset [of n ?o] by fastforce
  then have "ancestors_first L wanted have_tips n =
      (let ordered = ?o in
       Some (map (\<lambda>p. the (bm_get (gl_entries L) (snd p))) (take n ordered), length ordered > n))"
    unfolding ancestors_first_def steps Option.bind.simps those option.map zip Let_def
    using mf by simp
  then show ?thesis
    using that [of needed] set_needed by (simp add: needed_def)
qed

text \<open>
  Sorting by depth puts every parent before its children, and cutting the list anywhere keeps it
  so.
\<close>

lemma ordered_insertable:
  fixes n :: nat
  assumes "log_wf C L" and "set needed = needed_set L wanted have_tips"
  defines "ordered \<equiv> sort (map (\<lambda>h. (depth L h, h)) needed)"
  defines "es \<equiv> map (\<lambda>p. the (bm_get (gl_entries L) (snd p))) (take n ordered)"
  shows "length es \<le> n"
    and "\<forall>i<length es. \<forall>p. le_parent (es ! i) = Some p \<longrightarrow>
         (\<exists>j<i. entry_hash C (es ! j) = p) \<or> (\<exists>t\<in>set have_tips. p \<in> ancestors L t)"
    and "length ordered \<le> n \<longrightarrow> entry_hash C ` set es = needed_set L wanted have_tips"
proof -
  have set_o: "set ordered = (\<lambda>h. (depth L h, h)) ` needed_set L wanted have_tips"
    using assms(2) by (simp add: ordered_def)
  have get: "\<exists>e. bm_get (gl_entries L) h = Some e \<and> entry_hash C e = h"
    if "h \<in> needed_set L wanted have_tips" for h
  proof -
    have "bm_get (gl_entries L) h \<noteq> None"
      using that ancestors_present [OF assms(1)] unfolding needed_set_def by blast
    then show ?thesis
      using assms(1) by (auto simp: log_wf_def entries_wf_def)
  qed
  have nth: "snd (ordered ! i) \<in> needed_set L wanted have_tips
      \<and> ordered ! i = (depth L (snd (ordered ! i)), snd (ordered ! i))" if "i < length ordered" for i
    using nth_mem [OF that] unfolding set_o by auto
  have es: "es ! i = the (bm_get (gl_entries L) (snd (ordered ! i)))" "i < length ordered" "i < n"
    if "i < length es" for i
    using that by (simp_all add: es_def)
  show "length es \<le> n"
    by (simp add: es_def)
  show "\<forall>i<length es. \<forall>p. le_parent (es ! i) = Some p \<longrightarrow>
         (\<exists>j<i. entry_hash C (es ! j) = p) \<or> (\<exists>t\<in>set have_tips. p \<in> ancestors L t)"
  proof (intro allI impI disjCI)
    fix i p
    assume i: "i < length es" and p: "le_parent (es ! i) = Some p"
      and no: "\<not> (\<exists>t\<in>set have_tips. p \<in> ancestors L t)"
    let ?h = "snd (ordered ! i)"
    have h: "?h \<in> needed_set L wanted have_tips" "ordered ! i = (depth L ?h, ?h)"
      using nth [OF es(2) [OF i]] by auto
    have par: "parent_of L ?h = Some p"
      using get [OF h(1)] es(1) [OF i] p by (auto simp: parent_of_def)
    have "p \<in> needed_set L wanted have_tips"
      using h(1) no ancestors_closed [OF assms(1) _ par] unfolding needed_set_def by blast
    then obtain j where j: "j < length ordered" "ordered ! j = (depth L p, p)"
      using set_o by (metis (no_types, lifting) image_eqI in_set_conv_nth)
    have less: "ordered ! j < ordered ! i"
      using j(2) h(2) depth_parent(1) [OF assms(1) par] by (metis less_prod_simp lessI)
    have "j < i"
    proof (rule ccontr)
      assume "\<not> j < i"
      then have "ordered ! i \<le> ordered ! j"
        using sorted_nth_mono [of ordered i j] j(1) by (simp add: ordered_def)
      then show False
        using less by simp
    qed
    moreover from this have "j < length es"
      using i by simp
    then have "entry_hash C (es ! j) = p"
      using es(1) [of j] j(2) get [OF \<open>p \<in> _\<close>] by auto
    ultimately show "\<exists>j<i. entry_hash C (es ! j) = p"
      by blast
  qed
  show "length ordered \<le> n \<longrightarrow> entry_hash C ` set es = needed_set L wanted have_tips"
  proof
    assume "length ordered \<le> n"
    then have "set es = (\<lambda>h. the (bm_get (gl_entries L) h)) ` needed_set L wanted have_tips"
      by (simp add: es_def set_o image_image)
    moreover have "entry_hash C (the (bm_get (gl_entries L) h)) = h"
      if "h \<in> needed_set L wanted have_tips" for h
      using get [OF that] by auto
    ultimately show "entry_hash C ` set es = needed_set L wanted have_tips"
      by (simp add: image_image)
  qed
qed

end
