(* ===== verification/Consensus.thy ===== *)
theory Consensus
  imports Log Sample
begin

text \<open>
  What the governance log guarantees: it is a tree however it was built, its contents and not the
  order of arrival determine it, fork choice is optimal, finality is never undone, reconciliation
  accounts for every entry, and a synchronization response can be inserted in the order it is
  sent.
\<close>

section \<open>A log with a fork\<close>

definition fork_policy :: network_policy where
  "fork_policy = conservative_default\<lparr>finality := \<lparr>fp_k = 1, fp_t_millis = 0\<rparr>\<rparr>"

definition fork_root :: log_entry where
  "fork_root = entry_create demo (who 1) None 0 (Genesis 7 fork_policy [ReadContent])"

definition fork_a :: log_entry where
  "fork_a = entry_create demo (who 1) (Some (entry_hash demo fork_root)) 10
     (BodyDefineGroup ''a'' (CapExplicit []))"

definition fork_b :: log_entry where
  "fork_b = entry_create demo (who 1) (Some (entry_hash demo fork_root)) 20
     (BodyDefineGroup ''bb'' (CapExplicit []))"

lemma demo_entry_hash:
  "entry_hash demo (entry_create demo (who k) p t b) =
     of_nat (189 + length (put_option put_fixed32 p) + length (encode_body b))"
  by (simp add: entry_hash_def entry_hash_bytes_def hash_bytes_def entry_create_def entry_payload_def)

lemma length_put_option [simp]:
  "length (put_option f None) = 1" "length (put_option f (Some x)) = Suc (length (f x))"
  by (simp_all add: put_option_def)

lemma fork_hashes:
  "entry_hash demo fork_root = 357" "entry_hash demo fork_a = 241" "entry_hash demo fork_b = 242"
  by (simp_all add: fork_root_def fork_a_def fork_b_def demo_entry_hash put_seq_def put_policy_def
      fork_policy_def conservative_default_def starter_content_types_def bs_collect_def)

lemma fork_fields:
  "le_parent fork_root = None" "le_parent fork_a = Some 357" "le_parent fork_b = Some 357"
  "entry_verify_signature demo fork_root = Inr ()" "entry_verify_signature demo fork_a = Inr ()"
  "entry_verify_signature demo fork_b = Inr ()" "is_genesis (le_body fork_root)"
  "is_capability_gated fork_a" "is_capability_gated fork_b" "\<not> is_capability_gated fork_root"
  "le_timestamp fork_root = 0" "le_timestamp fork_a = 10" "le_timestamp fork_b = 20"
  using fork_hashes(1)
  by (simp_all add: fork_root_def fork_a_def fork_b_def is_capability_gated_def)

definition fork_log :: governance_log where
  "fork_log =
     \<lparr>gl_entries = [(241, fork_a), (242, fork_b), (357, fork_root)], gl_children = [(357, [241, 242])],
      gl_root = Some 357, gl_finalized = None\<rparr>"

lemmas log_insert_simps = log_insert_def fork_fields fork_hashes bm_contains_def add_child_def Let_def

lemma fork_insert_all:
  "insert_all demo empty_log [fork_root, fork_a, fork_b] = Inr fork_log"
  "insert_all demo empty_log [fork_root, fork_b, fork_a] = Inr fork_log"
  by (simp_all add: empty_log_def log_insert_simps fork_log_def)

lemma fork_inj: "inj_on (entry_hash demo) {fork_root, fork_a, fork_b}"
  by (simp add: inj_on_def fork_hashes)

lemma fork_wf: "log_wf demo fork_log" "(log_step demo)\<^sup>*\<^sup>* empty_log fork_log"
  using insert_all_holds [OF fork_insert_all(1) log_wf_empty holds_empty] fork_inj by simp_all

lemma fork_canonical: "canonical_chain fork_log = Some [357, 241]"
  by (simp add: canonical_chain_def fork_log_def ancestry_def log_fuel_def parent_of_def fork_fields
      best_branch_below_def pick_def better_def branch_candidate_def gated_at_def)

lemma fork_replay:
  "\<exists>st. replay demo [fork_root, fork_a] = Inr st \<and> finality (gs_policy st) = \<lparr>fp_k = 1, fp_t_millis = 0\<rparr>"
  by (simp add: fork_root_def fork_a_def fork_policy_def sample_defs)

lemma fork_reconcile:
  "\<exists>rc. reconcile demo fork_log 100 = Some (fork_log\<lparr>gl_finalized := Some 357\<rparr>, rc)"
proof -
  obtain st where st: "replay demo [fork_root, fork_a] = Inr st"
    "finality (gs_policy st) = \<lparr>fp_k = 1, fp_t_millis = 0\<rparr>"
    using fork_replay by blast
  have parts: "ancestry fork_log 357 = Some [357]" "best_branch_below fork_log 357 = Some [241]"
    by (simp_all add: fork_log_def ancestry_def log_fuel_def parent_of_def fork_fields
      best_branch_below_def pick_def better_def branch_candidate_def gated_at_def)
  have rep: "replay_canonical demo fork_log = Some (Inr st)"
    using st(1) by (simp add: replay_canonical_def fork_canonical) (simp add: fork_log_def)
  have "newly_final fork_log \<lparr>fp_k = 1, fp_t_millis = 0\<rparr> [357, 241] 100 = Some 0"
    by (simp add: newly_final_def final_at_def fork_log_def fork_fields params_is_final_def
        gated_at_def millis_since_def upt_rec)
  then have "advance_finality demo fork_log [357, 241] 100 = Some (fork_log\<lparr>gl_finalized := Some 357\<rparr>)"
    using st(2) by (simp add: advance_finality_def rep Let_def) (simp add: fork_log_def)
  then show ?thesis
    using parts by (simp add: reconcile_def) (simp add: fork_log_def)
qed

section \<open>Structure\<close>

lemma option_eqI: "(\<And>x. a = Some x \<longleftrightarrow> b = Some x) \<Longrightarrow> a = b"
  by (cases a; cases b) auto

text \<open>
  However a log came about, by insertions and reconciliations in any order, it is a tree
  rooted in its one genesis entry: the walk from any entry ends, passes no entry twice, starts at
  the root and arrives at the entry.
\<close>

theorem log_is_tree:
  assumes "(log_step C)\<^sup>*\<^sup>* empty_log L" and "log_get L h \<noteq> None"
  shows "\<exists>path. ancestry L h = Some path \<and> distinct path \<and> gl_root L = Some (hd path)
    \<and> last path = h \<and> set path \<subseteq> dom (log_get L)"
proof -
  have wf: "log_wf C L"
    by (rule reachable_wf [OF assms(1)])
  obtain ps where ps: "up L h ps" "ancestry L h = Some (rev ps)"
    using ancestry_total [OF wf] by blast
  have h: "bm_get (gl_entries L) h \<noteq> None" and dom: "dom (log_get L) = dom (bm_get (gl_entries L))"
    using assms(2) by (simp_all add: log_get_def dom_def)
  show ?thesis
    using ps up_hd [OF ps(1)] wf_present_up [OF wf h ps(1)] dom
    by (intro exI [of _ "rev ps"]) (simp add: hd_rev last_rev)
qed

theorem log_is_tree_witness:
  "log_get fork_log 241 = Some fork_a
   \<and> (\<exists>path. ancestry fork_log 241 = Some path \<and> gl_root fork_log = Some (hd path) \<and> last path = 241)"
proof -
  have get: "log_get fork_log 241 = Some fork_a"
    by (simp add: log_get_def fork_log_def)
  then show ?thesis
    using log_is_tree [OF fork_wf(2), of 241] by auto
qed

text \<open>
  C7. The order in which entries arrive does not matter: two nodes that inserted the same entries,
  each in an order its log accepted, hold equal logs, hence agree on the canonical chain and on
  the state it replays to.
\<close>

theorem insertion_order_irrelevant:
  assumes "insert_all C empty_log es = Inr L" and "insert_all C empty_log es' = Inr L'"
    and "set es = set es'" and "inj_on (entry_hash C) (set es)"
  shows "L = L' \<and> canonical_chain L = canonical_chain L' \<and> replay_canonical C L = replay_canonical C L'"
proof -
  have L: "log_wf C L" "holds_exactly C (set es) L" "gl_finalized L = None"
    using insert_all_holds [OF assms(1) log_wf_empty holds_empty] assms(4)
    by (simp_all add: empty_log_def)
  have L': "log_wf C L'" "holds_exactly C (set es) L'" "gl_finalized L' = None"
    using insert_all_holds [OF assms(2) log_wf_empty holds_empty] assms(3,4)
    by (simp_all add: empty_log_def)
  have "bm_get (gl_entries L) h = bm_get (gl_entries L') h" for h
    by (rule option_eqI) (use L(2) L'(2) in \<open>simp add: holds_exactly_def\<close>)
  then have "L = L'"
    using log_ext [OF L(1) L'(1)] L(3) L'(3) by presburger
  then show ?thesis
    by simp
qed

theorem insertion_order_irrelevant_witness:
  "insert_all demo empty_log [fork_root, fork_a, fork_b] = Inr fork_log
   \<and> insert_all demo empty_log [fork_root, fork_b, fork_a] = Inr fork_log
   \<and> canonical_chain fork_log = canonical_chain fork_log"
  using insertion_order_irrelevant [OF fork_insert_all] fork_inj fork_insert_all
  by (simp add: insert_commute)

text \<open>
  Inserting an entry the log already holds changes nothing.
\<close>

theorem insert_idempotent:
  assumes "(log_step C)\<^sup>*\<^sup>* empty_log L" and "log_get L (entry_hash C e) = Some e"
  shows "log_insert C L e = Inr (entry_hash C e, L)"
proof -
  have wf: "log_wf C L"
    by (rule reachable_wf [OF assms(1)])
  have get: "bm_get (gl_entries L) (entry_hash C e) = Some e"
    using assms(2) by (simp add: log_get_def)
  then have "entry_verify_signature C e = Inr () \<and> (case le_parent e of
      None \<Rightarrow> is_genesis (le_body e) \<and> gl_root L = Some (entry_hash C e)
    | Some p \<Rightarrow> bm_get (gl_entries L) p \<noteq> None)"
    using wf unfolding log_wf_def entries_wf_def by blast
  then have "\<exists>L'. log_insert C L e = Inr (entry_hash C e, L')"
    by (cases "le_parent e") (simp_all add: log_insert_def Let_def bm_contains_def)
  then obtain L' where L': "log_insert C L e = Inr (entry_hash C e, L')" ..
  then show ?thesis
    using log_insert_known [OF wf L' get] by simp
qed

theorem insert_idempotent_witness: "log_insert demo fork_log fork_a = Inr (241, fork_log)"
  using insert_idempotent [OF fork_wf(2), of fork_a]
  by (simp add: fork_hashes log_get_def) (simp add: fork_log_def)

section \<open>Fork choice\<close>

text \<open>
  C5. The canonical chain runs from the genesis entry through the finalized entry and continues
  along the branch with the most capability-gated entries among all branches that reach a tip,
  and among equals along the one with the lowest tip. Fork choice always returns.
\<close>

theorem canonical_chain_optimal:
  assumes "(log_step C)\<^sup>*\<^sup>* empty_log L" and "gl_root L = Some r" and "length (gl_entries L) < 2 ^ 32"
  shows "\<exists>pre below. canonical_chain L = Some (pre @ below) \<and> ancestry L (log_start L r) = Some pre
    \<and> hd (pre @ below) = r \<and> distinct (pre @ below) \<and> down L (log_start L r) below
    \<and> (\<forall>q. down L (log_start L r) q \<longrightarrow> branch_beats L (log_start L r) below q)"
proof -
  have wf: "log_wf C L"
    by (rule reachable_wf [OF assms(1)])
  obtain ps below where p: "up L (log_start L r) ps" "ancestry L (log_start L r) = Some (rev ps)"
    "best_branch_below L (log_start L r) = Some below" "down L (log_start L r) below"
    "canonical_chain L = Some (rev ps @ below)"
    using canonical_parts [OF wf assms(2)] by metis
  have "chain_ok L r (rev ps @ below)"
    by (rule chain_ok_parts [OF wf assms(2) p(1,4)])
  then show ?thesis
    using p best_branch_optimal [OF wf assms(3) p(3) [unfolded best_branch_below_def]
        start_present [OF wf assms(2)]]
    by (intro exI [of _ "rev ps"] exI [of _ below]) (auto simp: chain_ok_def)
qed

theorem canonical_chain_optimal_witness:
  "\<exists>pre below. canonical_chain fork_log = Some (pre @ below) \<and> hd (pre @ below) = 357
     \<and> branch_beats fork_log 357 below [242]"
proof -
  have r: "gl_root fork_log = Some 357" "length (gl_entries fork_log) < 2 ^ 32" "log_start fork_log 357 = 357"
    by (simp_all add: fork_log_def log_start_def)
  have "down fork_log 357 [242]"
    by (intro down.branch down.tip) (simp_all add: kids_def fork_log_def)
  then show ?thesis
    using canonical_chain_optimal [OF fork_wf(2) r(1,2)] r(3) by auto
qed

section \<open>Finality\<close>

text \<open>
  C1. Finality is binding: once an entry is final in a node's log it stays final through every
  later insertion and reconciliation, and it is on the canonical chain ever after.
\<close>

theorem finality_binding:
  assumes "(log_step C)\<^sup>*\<^sup>* empty_log L" and "is_final L h = Some True" and "(log_step C)\<^sup>*\<^sup>* L L'"
  shows "is_final L' h = Some True \<and> (\<exists>chain. canonical_chain L' = Some chain \<and> h \<in> set chain)"
proof -
  have wf: "log_wf C L"
    by (rule reachable_wf [OF assms(1)])
  have "is_final L' h = Some True"
    by (rule steps_final [OF assms(3) wf assms(2)])
  then show ?thesis
    using final_canonical [OF steps_wf [OF assms(3) wf]] by blast
qed

lemma fork_final:
  "(log_step demo)\<^sup>*\<^sup>* empty_log (fork_log\<lparr>gl_finalized := Some 357\<rparr>)"
  "is_final (fork_log\<lparr>gl_finalized := Some 357\<rparr>) 357 = Some True"
proof -
  obtain rc where "reconcile demo fork_log 100 = Some (fork_log\<lparr>gl_finalized := Some 357\<rparr>, rc)"
    using fork_reconcile by blast
  then show "(log_step demo)\<^sup>*\<^sup>* empty_log (fork_log\<lparr>gl_finalized := Some 357\<rparr>)"
    using fork_wf(2) log_step.reconciles by (meson rtranclp.rtrancl_into_rtrancl)
  show "is_final (fork_log\<lparr>gl_finalized := Some 357\<rparr>) 357 = Some True"
    by (simp add: is_final_def log_fuel_def)
qed

theorem finality_binding_witness:
  "is_final (fork_log\<lparr>gl_finalized := Some 357\<rparr>) 357 = Some True
   \<and> (\<exists>chain. canonical_chain (fork_log\<lparr>gl_finalized := Some 357\<rparr>) = Some chain \<and> 357 \<in> set chain)"
  using finality_binding [OF fork_final rtranclp.rtrancl_refl] by simp

text \<open>
  What a reconciliation newly finalizes it may finalize: the canonical chain replays, the
  entry lies on it under at least \<open>k\<close> later capability-gated entries, and its age by the node's
  clock is at least \<open>T\<close>, with \<open>k\<close> and \<open>T\<close> from the policy the chain replays to.
\<close>

theorem finality_justified:
  assumes "(log_step C)\<^sup>*\<^sup>* empty_log L" and "reconcile C L now = Some (L', rc)"
    and "gl_finalized L' \<noteq> gl_finalized L"
  shows "\<exists>i st e. replay_canonical C L = Some (Inr st) \<and> i < length (rc_canonical rc)
    \<and> gl_finalized L' = Some (rc_canonical rc ! i) \<and> log_get L (rc_canonical rc ! i) = Some e
    \<and> unat (fp_k (finality (gs_policy st))) \<le> gated_count L (drop (i + 1) (rc_canonical rc))
    \<and> sint (fp_t_millis (finality (gs_policy st))) \<le> sint (millis_since now (le_timestamp e))"
proof -
  have wf: "log_wf C L"
    by (rule reachable_wf [OF assms(1)])
  obtain r where r: "gl_root L = Some r"
    using assms(2,3) by (cases "gl_root L") (auto simp: reconcile_def)
  obtain chain L1 where c: "advance_finality C L chain now = Some L1"
    "reconcile C L now = Some (L1, \<lparr>rc_canonical = chain,
       rc_voided = map voided_of (filter (\<lambda>p. fst p \<notin> set chain) (gl_entries L1)),
       rc_finalized = gl_finalized L1\<rparr>)"
    by (rule reconcile_Some [OF wf r, of now])
  have eq: "L' = L1" "rc_canonical rc = chain"
    using c(2) assms(2) by auto
  then obtain i st where i: "replay_canonical C L = Some (Inr st)" "i < length chain"
    "final_at L (finality (gs_policy st)) chain now i" "L' = L\<lparr>gl_finalized := Some (chain ! i)\<rparr>"
    using advance_finality_Some [OF c(1)] assms(3) by auto
  obtain e where e: "bm_get (gl_entries L) (chain ! i) = Some e"
    "params_is_final (finality (gs_policy st)) (of_nat (gated_count L (drop (i + 1) chain)))
       (millis_since now (le_timestamp e))"
    using i(3) by (auto simp: final_at_def gated_count_def split: option.splits)
  then have "unat (fp_k (finality (gs_policy st))) \<le> gated_count L (drop (i + 1) chain)"
    using unat_of_nat_le [of "gated_count L (drop (i + 1) chain)", where 'a = 32]
    by (auto simp: params_is_final_def word_le_nat_alt)
  then show ?thesis
    using i e eq by (auto simp: params_is_final_def log_get_def)
qed

theorem finality_justified_witness:
  "\<exists>rc i. reconcile demo fork_log 100 = Some (fork_log\<lparr>gl_finalized := Some 357\<rparr>, rc)
     \<and> rc_canonical rc ! i = 357 \<and> i < length (rc_canonical rc)"
proof -
  obtain rc where rc: "reconcile demo fork_log 100 = Some (fork_log\<lparr>gl_finalized := Some 357\<rparr>, rc)"
    using fork_reconcile by blast
  moreover have "gl_finalized (fork_log\<lparr>gl_finalized := Some 357\<rparr>) \<noteq> gl_finalized fork_log"
    by (simp add: fork_log_def)
  ultimately show ?thesis
    using finality_justified [OF fork_wf(2) rc] by auto
qed

text \<open>
  C35. Reconciliation always returns, and it accounts for every entry: each one the log holds is
  either on the canonical chain or listed as voided, once and never both, in the order of the
  hashes.
\<close>

theorem reconcile_accounts:
  assumes "(log_step C)\<^sup>*\<^sup>* empty_log L"
  shows "\<exists>L' rc. reconcile C L now = Some (L', rc) \<and> gl_entries L' = gl_entries L
    \<and> set (rc_canonical rc) \<inter> ve_hash ` set (rc_voided rc) = {}
    \<and> set (rc_canonical rc) \<union> ve_hash ` set (rc_voided rc) = dom (log_get L)
    \<and> bs_ok (map ve_hash (rc_voided rc))"
proof (cases "gl_root L")
  case None
  have "bm_get (gl_entries L) h = None" for h
    using wf_present_up(3) [OF reachable_wf [OF assms]] ancestry_total [OF reachable_wf [OF assms]] None
    by (metis option.distinct(1))
  then have "dom (log_get L) = {}"
    by (simp add: log_get_def dom_def)
  then show ?thesis
    using None by (simp add: reconcile_def)
next
  case (Some r)
  have wf: "log_wf C L"
    by (rule reachable_wf [OF assms])
  obtain chain L' where c: "chain_ok L r chain" "advance_finality C L chain now = Some L'"
    "reconcile C L now = Some (L', \<lparr>rc_canonical = chain,
       rc_voided = map voided_of (filter (\<lambda>p. fst p \<notin> set chain) (gl_entries L')),
       rc_finalized = gl_finalized L'\<rparr>)"
    by (rule reconcile_Some [OF wf Some, of now])
  have entries: "gl_entries L' = gl_entries L"
    using advance_finality_Some [OF c(2)] by auto
  have dom: "dom (log_get L) = fst ` set (gl_entries L)"
    by (simp add: log_get_def dom_def flip: dom_map_of_conv_image_fst)
  have ve: "map ve_hash (map voided_of xs) = map fst xs" for xs
    by (simp add: voided_of_def comp_def)
  have "bs_ok (map fst (filter (\<lambda>p. fst p \<notin> set chain) (gl_entries L)))"
    using wf bm_ok_filter by (auto simp: log_wf_def entries_wf_def bm_ok_def bs_ok_def)
  moreover have voided: "ve_hash ` set (map voided_of (filter (\<lambda>p. fst p \<notin> set chain) (gl_entries L)))
      = fst ` set (gl_entries L) - set chain"
    by (force simp: voided_of_def image_image)
  moreover have "set chain \<subseteq> fst ` set (gl_entries L)"
    using c(1) by (simp add: chain_ok_def dom_map_of_conv_image_fst)
  then have "set chain \<union> (fst ` set (gl_entries L) - set chain) = fst ` set (gl_entries L)"
    by blast
  moreover obtain rc where rc: "reconcile C L now = Some (L', rc)" "rc_canonical rc = chain"
    "rc_voided rc = map voided_of (filter (\<lambda>p. fst p \<notin> set chain) (gl_entries L))"
    using c(3) entries by simp
  ultimately show ?thesis
    unfolding dom
    by (intro exI [of _ L'] exI [of _ rc] conjI) (simp_all only: rc entries voided ve Diff_disjoint)
qed

theorem reconcile_accounts_witness:
  "\<exists>L' rc. reconcile demo fork_log 100 = Some (L', rc)
     \<and> set (rc_canonical rc) \<union> ve_hash ` set (rc_voided rc) = dom (log_get fork_log)"
  using reconcile_accounts [OF fork_wf(2), of 100] by blast

section \<open>Synchronization\<close>

text \<open>
  A response to a fetch can be inserted in the order it is sent: an entry's parent comes
  earlier in the response or is an ancestor of a tip the requester said it has. The response
  respects the limit, truncated or not, and an untruncated one holds every ancestor of what was
  asked for that the requester does not have.
\<close>

theorem ancestors_first_insertable:
  assumes "(log_step C)\<^sup>*\<^sup>* empty_log L"
  shows "\<exists>es truncated. ancestors_first L wanted have_tips n = Some (es, truncated) \<and> length es \<le> n
    \<and> (\<forall>i<length es. \<forall>p. le_parent (es ! i) = Some p \<longrightarrow>
         (\<exists>j<i. entry_hash C (es ! j) = p) \<or> (\<exists>t\<in>set have_tips. p \<in> ancestors L t))
    \<and> (\<not> truncated \<longrightarrow> entry_hash C ` set es = needed_set L wanted have_tips)"
proof -
  have wf: "log_wf C L"
    by (rule reachable_wf [OF assms])
  obtain needed where needed: "bs_ok needed" "set needed = needed_set L wanted have_tips"
    "ancestors_first L wanted have_tips n =
       (let ordered = sort (map (\<lambda>h. (depth L h, h)) needed) in
        Some (map (\<lambda>p. the (bm_get (gl_entries L) (snd p))) (take n ordered), length ordered > n))"
    by (rule ancestors_first_unfold [OF wf])
  show ?thesis
    using ordered_insertable [OF wf needed(2), of n] needed(3) by (auto simp: Let_def)
qed

theorem ancestors_first_insertable_witness:
  "\<exists>es truncated. ancestors_first fork_log [241] [357] 5 = Some (es, truncated)
     \<and> entry_hash demo ` set es = needed_set fork_log [241] [357] \<or> truncated"
  using ancestors_first_insertable [OF fork_wf(2), of "[241]" "[357]" 5] by blast

end
