(* ===== verification/Wire.thy ===== *)
theory Wire
  imports Sample
begin

text \<open>
  The wire codec of the governance layer, wire.rs: entries, the pull-based sync protocol and the
  ballot exchange, with the ceilings a decoder enforces on what a peer sends.

  A reader collects a sequence into an ordered container the way \<open>collect\<close> does, so the decoder
  accepts a set written in any order.
\<close>

section \<open>Limits and errors\<close>

definition max_commit_bytes :: nat where
  "max_commit_bytes = 128 * 1024"

definition max_electorate :: nat where
  "max_electorate = 65536"

definition max_ballots :: nat where
  "max_ballots = max_electorate"

definition max_entries_per_response :: nat where
  "max_entries_per_response = 512"

definition max_ballots_per_response :: nat where
  "max_ballots_per_response = 512"

datatype wire_error =
    Malformed decode_error
  | InvalidKey
  | WireBadSignature
  | TooManyEntries nat nat
  | UnnamespacedPolicyKey string
  | MalformedAppEntry string string
  | AppPayloadTooLarge nat
  | CommitTooLarge nat

definition unknown :: "string \<Rightarrow> u8 \<Rightarrow> wire_error" where
  "unknown type_name discriminant = Malformed (UnknownVariant type_name discriminant)"

abbreviation wr :: "(decode_error, 'a) reader \<Rightarrow> (wire_error, 'a) reader" where
  "wr \<equiv> rmap_err Malformed"

section \<open>Writing\<close>

fun put_body :: "entry_body \<Rightarrow> bytes" where
  "put_body (Genesis network policy everyone_capabilities) =
     put_variant 0 @ put_fixed32 network @ put_policy policy
       @ put_seq put_capability everyone_capabilities"
| "put_body (BodyDefineGroup grp capabilities) =
     put_variant 1 @ put_str grp @ put_capability_set capabilities"
| "put_body (MembershipChange grp identity action) =
     put_variant 2 @ put_str grp @ put_fixed32 identity
       @ (case action of
            Add via \<Rightarrow> put_variant 0 @ put_option put_provenance via
          | Remove casc \<Rightarrow>
              put_variant 1 @ put_option (\<lambda>c. put_option put_i64 (window_millis c)) casc)"
| "put_body (PolicyChange policy) = put_variant 3 @ put_policy policy"
| "put_body (ContentTypePolicy allowlist) = put_variant 4 @ put_seq put_str allowlist"
| "put_body (EpochRotation reason commit) =
     put_variant 5
       @ put_u8 (case reason of MemberRevoked \<Rightarrow> 0 | SelfInitiated \<Rightarrow> 1 | MemberAdmitted \<Rightarrow> 2)
       @ put_bytes commit"
| "put_body (VoteProposed proposal) = put_variant 10 @ put_proposal proposal"
| "put_body (VoteOutcomeRecorded certificate) = put_variant 11 @ put_certificate certificate"
| "put_body (DeviceEnrollment cert) =
     put_variant 6 @ put_fixed32 (dc_network cert) @ put_fixed32 (dc_identity cert)
       @ put_fixed32 (dc_device cert) @ put_str (dc_label cert) @ put_i64 (dc_issued_at cert)
       @ put_fixed64 (dc_signature cert)"
| "put_body (DeviceRevocation revocation) =
     put_variant 7 @ put_fixed32 (dr_network revocation) @ put_fixed32 (dr_identity revocation)
       @ put_fixed32 (dr_device revocation) @ put_i64 (dr_revoked_at revocation)
       @ put_fixed64 (dr_signature revocation)"
| "put_body (Moderation moderation) =
     put_variant 8 @ put_u8 (case me_action moderation of Delist \<Rightarrow> 0 | Relist \<Rightarrow> 1)
       @ put_fixed32 (me_target moderation)"
| "put_body (AppNameRegistration name app_id) =
     put_variant 9 @ put_str name @ put_fixed32 app_id"
| "put_body (AppEntry namespace kind required payload) =
     put_variant 12 @ put_str namespace @ put_str kind @ put_capability required @ put_bytes payload"

definition put_entry :: "log_entry \<Rightarrow> bytes" where
  "put_entry e =
     put_option put_fixed32 (le_parent e) @ put_i64 (le_timestamp e) @ put_fixed32 (le_author e)
       @ put_body (le_body e) @ put_fixed64 (le_signature e)"

definition entry_wire_domain :: string where
  "entry_wire_domain = ''intranet.wire.entry.v1''"

definition encode_entry :: "log_entry \<Rightarrow> bytes" where
  "encode_entry e = enc_domain entry_wire_domain @ put_entry e"

section \<open>Reading\<close>

definition get_identity :: "crypto \<Rightarrow> (wire_error, b32) reader" where
  "get_identity C =
     rbind (wr dec_fixed32) (\<lambda>k. if key_valid C k then rret k else rfail InvalidKey)"

definition get_invite_provenance :: "crypto \<Rightarrow> (wire_error, invite_provenance) reader" where
  "get_invite_provenance C =
     rbind (wr dec_fixed32) (\<lambda>i. rbind (get_identity C) (\<lambda>issuer.
       rret \<lparr>ip_invite_id = i, ip_issuer = issuer\<rparr>))"

definition get_capability :: "(wire_error, capability) reader" where
  "get_capability =
     rbind (wr dec_variant) (\<lambda>v.
       if v = 0 then rret ApproveNode
       else if v = 1 then rret RevokeNode
       else if v = 2 then rret DefineGroup
       else if v = 3 then rret DefinePolicy
       else if v = 4 then rret DefineContentPolicy
       else if v = 5 then rret ModerateContent
       else if v = 6 then rret AuditReputation
       else if v = 7 then rret ReadContent
       else if v = 8 then rbind (wr dec_str) (\<lambda>g. rret (ManageMembership g))
       else if v = 9 then rbind (wr dec_str) (\<lambda>t. rret (Publish t))
       else if v = 10 then rbind (wr dec_str) (\<lambda>n. rret (Extension n))
       else rfail (unknown ''Capability'' v))"

definition get_capability_set :: "(wire_error, capability_set) reader" where
  "get_capability_set =
     rbind (wr dec_variant) (\<lambda>v.
       if v = 0 then rret CapAll
       else if v = 1 then
         rbind (dec_seq Malformed get_capability) (\<lambda>cs. rret (CapExplicit (bs_collect cs)))
       else rfail (unknown ''CapabilitySet'' v))"

definition get_governance_model :: "(wire_error, governance_model) reader" where
  "get_governance_model =
     rbind (wr dec_variant) (\<lambda>v.
       if v = 0 then rret CapabilityHolders
       else if v = 1 then
         rbind (wr dec_str) (\<lambda>electorate. rbind (wr dec_u32) (\<lambda>quorum.
         rbind (wr dec_i64) (\<lambda>window. rret (MemberVote electorate quorum window))))
       else rfail (unknown ''GovernanceModel'' v))"

definition get_extension :: "(wire_error, string \<times> tier) reader" where
  "get_extension =
     rbind (wr dec_str) (\<lambda>name. rbind (wr dec_u8) (\<lambda>v.
       if v = 0 then rret (name, Ordinary)
       else if v = 1 then rret (name, Governance)
       else rfail (unknown ''Tier'' v)))"

definition get_app_policy :: "(wire_error, string \<times> policy_value) reader" where
  "get_app_policy =
     rbind (wr dec_str) (\<lambda>key.
       if \<not> is_valid_app_policy_key key then rfail (UnnamespacedPolicyKey key)
       else rbind (wr dec_variant) (\<lambda>v.
         if v = 0 then rbind (wr dec_i64) (\<lambda>x. rret (key, PvInt x))
         else if v = 1 then rbind (wr dec_str) (\<lambda>x. rret (key, PvText x))
         else if v = 2 then rbind (wr dec_bool) (\<lambda>x. rret (key, PvFlag x))
         else rfail (unknown ''PolicyValue'' v)))"

definition get_relay_address :: "(wire_error, string) reader" where
  "get_relay_address =
     rbind (wr dec_str) (\<lambda>address.
       if length address > max_relay_address_bytes
       then rfail (Malformed (ImplausibleLength (length address) max_relay_address_bytes))
       else rret address)"

definition get_replication_factor :: "(wire_error, u16) reader" where
  "get_replication_factor =
     rbind (wr dec_u32) (\<lambda>v.
       if unat v < 2 ^ 16 then rret (ucast v)
       else rfail (Malformed (ImplausibleLength (2 ^ 32 - 1) 0)))"

definition get_policy :: "(wire_error, network_policy) reader" where
  "get_policy =
     rbind (rbind (wr dec_variant) (\<lambda>v.
       if v = 0 then rret AutoAdmit
       else if v = 1 then rret ExplicitIntake
       else rfail (unknown ''AdmissionMode'' v))) (\<lambda>mode.
     rbind get_governance_model (\<lambda>model.
     rbind (rbind (wr dec_variant) (\<lambda>v.
       if v = 0 then rret CurrentEpochForward
       else if v = 1 then rret FullHistory
       else rfail (unknown ''HistoryAccess'' v))) (\<lambda>history.
     rbind (dec_seq Malformed (wr dec_str)) (\<lambda>allowlist.
     rbind (dec_seq Malformed get_extension) (\<lambda>extensions.
     rbind (dec_seq Malformed get_app_policy) (\<lambda>app.
     rbind (dec_seq Malformed get_relay_address) (\<lambda>relays.
     if length relays > max_bootstrap_relays
     then rfail (Malformed (ImplausibleLength (length relays) max_bootstrap_relays))
     else
     rbind (wr dec_u32) (\<lambda>k.
     rbind (wr dec_i64) (\<lambda>t.
     rbind get_replication_factor (\<lambda>replication.
     rbind (wr dec_u8) (\<lambda>mesh.
     rbind (wr dec_u32) (\<lambda>chunk.
       rret \<lparr>admission_mode = mode, governance_model = model, history_access = history,
             content_type_allowlist = bs_collect allowlist,
             extension_capabilities = bm_collect extensions,
             finality = \<lparr>fp_k = k, fp_t_millis = t\<rparr>, replication_factor = replication,
             mesh_relay_threshold = mesh, app_policy = bm_collect app, bootstrap_relays = relays,
             target_chunk_size = chunk\<rparr>))))))))))))"

definition get_proposal :: "crypto \<Rightarrow> (wire_error, vote_proposal) reader" where
  "get_proposal C =
     rbind (wr dec_fixed32) (\<lambda>subject.
     rbind (wr dec_str) (\<lambda>electorate.
     rbind (dec_seq Malformed (get_identity C)) (\<lambda>voters.
     if length voters > max_electorate
     then rfail (TooManyEntries (length voters) max_electorate)
     else
     rbind (wr dec_fixed32) (\<lambda>snapshot_ref.
     rbind (wr dec_i64) (\<lambda>close_time.
     rbind (wr dec_u32) (\<lambda>quorum.
       rret \<lparr>vp_subject = subject, vp_electorate = electorate, vp_snapshot = bs_collect voters,
             vp_snapshot_ref = snapshot_ref, vp_close_time = close_time, vp_quorum = quorum\<rparr>))))))"

definition get_ballot :: "crypto \<Rightarrow> (wire_error, ballot) reader" where
  "get_ballot C =
     rbind (wr dec_fixed32) (\<lambda>vid.
     rbind (get_identity C) (\<lambda>voter.
     rbind (wr dec_bool) (\<lambda>approve.
     rbind (wr dec_i64) (\<lambda>cast_at.
     rbind (wr dec_fixed64) (\<lambda>signature.
       rret \<lparr>bl_vote_id = vid, bl_voter = voter, bl_approve = approve, bl_cast_at = cast_at,
             bl_signature = signature\<rparr>)))))"

definition get_certificate :: "crypto \<Rightarrow> (wire_error, quorum_certificate) reader" where
  "get_certificate C =
     rbind (wr dec_fixed32) (\<lambda>vid.
     rbind (dec_seq Malformed (get_ballot C)) (\<lambda>ballots.
     if length ballots > max_ballots
     then rfail (TooManyEntries (length ballots) max_ballots)
     else
     rbind (wr dec_fixed32) (\<lambda>root.
       rret \<lparr>qc_vote_id = vid, qc_ballots = ballots, qc_merkle_root = root\<rparr>)))"

definition get_membership_action :: "crypto \<Rightarrow> (wire_error, membership_action) reader" where
  "get_membership_action C =
     rbind (wr dec_variant) (\<lambda>v.
       if v = 0 then
         rbind (dec_option Malformed (get_invite_provenance C)) (\<lambda>via. rret (Add via))
       else if v = 1 then
         rbind (dec_option Malformed
           (rbind (dec_option Malformed (wr dec_i64)) (\<lambda>w. rret \<lparr>window_millis = w\<rparr>)))
           (\<lambda>casc. rret (Remove casc))
       else rfail (unknown ''MembershipAction'' v))"

definition get_rotation_reason :: "(wire_error, rotation_reason) reader" where
  "get_rotation_reason =
     rbind (wr dec_u8) (\<lambda>v.
       if v = 0 then rret MemberRevoked
       else if v = 1 then rret SelfInitiated
       else if v = 2 then rret MemberAdmitted
       else rfail (unknown ''RotationReason'' v))"

definition get_commit :: "(wire_error, bytes) reader" where
  "get_commit =
     rbind (wr dec_bytes) (\<lambda>commit.
       if length commit > max_commit_bytes then rfail (CommitTooLarge (length commit))
       else rret commit)"

definition get_enrollment :: "crypto \<Rightarrow> (wire_error, device_certificate) reader" where
  "get_enrollment C =
     rbind (wr dec_fixed32) (\<lambda>network.
     rbind (get_identity C) (\<lambda>identity.
     rbind (get_identity C) (\<lambda>device.
     rbind (wr dec_str) (\<lambda>label.
     rbind (wr dec_i64) (\<lambda>issued_at.
     rbind (wr dec_fixed64) (\<lambda>signature.
       rret \<lparr>dc_network = network, dc_identity = identity, dc_device = device, dc_label = label,
             dc_issued_at = issued_at, dc_signature = signature\<rparr>))))))"

definition get_revocation :: "crypto \<Rightarrow> (wire_error, device_revocation) reader" where
  "get_revocation C =
     rbind (wr dec_fixed32) (\<lambda>network.
     rbind (get_identity C) (\<lambda>identity.
     rbind (get_identity C) (\<lambda>device.
     rbind (wr dec_i64) (\<lambda>revoked_at.
     rbind (wr dec_fixed64) (\<lambda>signature.
       rret \<lparr>dr_network = network, dr_identity = identity, dr_device = device,
             dr_revoked_at = revoked_at, dr_signature = signature\<rparr>)))))"

definition get_moderation :: "(wire_error, moderation_entry) reader" where
  "get_moderation =
     rbind (rbind (wr dec_u8) (\<lambda>v.
       if v = 0 then rret Delist
       else if v = 1 then rret Relist
       else rfail (unknown ''ModerationAction'' v))) (\<lambda>action.
     rbind (wr dec_fixed32) (\<lambda>target. rret \<lparr>me_action = action, me_target = target\<rparr>))"

definition get_app_entry :: "(wire_error, entry_body) reader" where
  "get_app_entry =
     rbind (wr dec_str) (\<lambda>namespace.
     rbind (wr dec_str) (\<lambda>kind.
     if \<not> is_valid_app_entry_name namespace kind then rfail (MalformedAppEntry namespace kind)
     else
     rbind get_capability (\<lambda>required.
     rbind (wr dec_bytes) (\<lambda>payload.
     if length payload > max_app_entry_payload_bytes then rfail (AppPayloadTooLarge (length payload))
     else rret (AppEntry namespace kind required payload)))))"

definition get_genesis :: "(wire_error, entry_body) reader" where
  "get_genesis =
     rbind (wr dec_fixed32) (\<lambda>network.
     rbind get_policy (\<lambda>policy.
     rbind (dec_seq Malformed get_capability) (\<lambda>cs. rret (Genesis network policy (bs_collect cs)))))"

definition get_body :: "crypto \<Rightarrow> (wire_error, entry_body) reader" where
  "get_body C =
     rbind (wr dec_variant) (\<lambda>v.
       if v = 0 then get_genesis
       else if v = 1 then
         rbind (wr dec_str) (\<lambda>g. rbind get_capability_set (\<lambda>cs. rret (BodyDefineGroup g cs)))
       else if v = 2 then
         rbind (wr dec_str) (\<lambda>g. rbind (get_identity C) (\<lambda>i.
         rbind (get_membership_action C) (\<lambda>a. rret (MembershipChange g i a))))
       else if v = 3 then rbind get_policy (\<lambda>p. rret (PolicyChange p))
       else if v = 4 then
         rbind (dec_seq Malformed (wr dec_str)) (\<lambda>ts. rret (ContentTypePolicy (bs_collect ts)))
       else if v = 5 then
         rbind get_rotation_reason (\<lambda>reason. rbind get_commit (\<lambda>c. rret (EpochRotation reason c)))
       else if v = 10 then rbind (get_proposal C) (\<lambda>p. rret (VoteProposed p))
       else if v = 11 then rbind (get_certificate C) (\<lambda>c. rret (VoteOutcomeRecorded c))
       else if v = 6 then rbind (get_enrollment C) (\<lambda>c. rret (DeviceEnrollment c))
       else if v = 7 then rbind (get_revocation C) (\<lambda>r. rret (DeviceRevocation r))
       else if v = 8 then rbind get_moderation (\<lambda>m. rret (Moderation m))
       else if v = 9 then
         rbind (wr dec_str) (\<lambda>n. rbind (wr dec_fixed32) (\<lambda>i. rret (AppNameRegistration n i)))
       else if v = 12 then get_app_entry
       else rfail (unknown ''EntryBody'' v))"

definition get_entry :: "crypto \<Rightarrow> (wire_error, log_entry) reader" where
  "get_entry C =
     rbind (dec_option Malformed (wr dec_fixed32)) (\<lambda>parent.
     rbind (wr dec_i64) (\<lambda>timestamp.
     rbind (get_identity C) (\<lambda>author.
     rbind (get_body C) (\<lambda>body.
     rbind (wr dec_fixed64) (\<lambda>signature.
       rret \<lparr>le_parent = parent, le_timestamp = timestamp, le_author = author, le_body = body,
             le_signature = signature\<rparr>)))))"

definition decode_entry :: "crypto \<Rightarrow> bytes \<Rightarrow> wire_error + log_entry" where
  "decode_entry C b =
     (case rbind (wr (dec_domain entry_wire_domain)) (\<lambda>_.
           rbind (get_entry C) (\<lambda>e. rbind (wr dec_finish) (\<lambda>_. rret e))) b of
        Inl err \<Rightarrow> Inl err
      | Inr (e, _) \<Rightarrow>
          (case entry_verify_signature C e of Inl _ \<Rightarrow> Inl WireBadSignature | Inr _ \<Rightarrow> Inr e))"

section \<open>What the codec carries\<close>

definition prov_ok :: "crypto \<Rightarrow> invite_provenance \<Rightarrow> bool" where
  "prov_ok C p \<longleftrightarrow> key_valid C (ip_issuer p)"

definition app_pair_ok :: "string \<times> policy_value \<Rightarrow> bool" where
  "app_pair_ok q \<longleftrightarrow> str_ok (fst q) \<and> value_ok (snd q) \<and> is_valid_app_policy_key (fst q)"

definition address_ok :: "string \<Rightarrow> bool" where
  "address_ok s \<longleftrightarrow> str_ok s \<and> length s \<le> max_relay_address_bytes"

definition policy_wire_ok :: "network_policy \<Rightarrow> bool" where
  "policy_wire_ok p \<longleftrightarrow>
     model_ok (governance_model p)
     \<and> bs_ok (content_type_allowlist p) \<and> seq_ok str_ok (content_type_allowlist p)
     \<and> bm_ok (extension_capabilities p) \<and> seq_ok (\<lambda>q. str_ok (fst q)) (extension_capabilities p)
     \<and> bm_ok (app_policy p) \<and> seq_ok app_pair_ok (app_policy p)
     \<and> seq_ok address_ok (bootstrap_relays p) \<and> length (bootstrap_relays p) \<le> max_bootstrap_relays"

definition proposal_ok :: "crypto \<Rightarrow> vote_proposal \<Rightarrow> bool" where
  "proposal_ok C p \<longleftrightarrow>
     str_ok (vp_electorate p) \<and> bs_ok (vp_snapshot p) \<and> seq_ok (key_valid C) (vp_snapshot p)
     \<and> length (vp_snapshot p) \<le> max_electorate"

definition ballot_ok :: "crypto \<Rightarrow> ballot \<Rightarrow> bool" where
  "ballot_ok C b \<longleftrightarrow> key_valid C (bl_voter b)"

definition certificate_ok :: "crypto \<Rightarrow> quorum_certificate \<Rightarrow> bool" where
  "certificate_ok C c \<longleftrightarrow> seq_ok (ballot_ok C) (qc_ballots c) \<and> length (qc_ballots c) \<le> max_ballots"

fun action_ok :: "crypto \<Rightarrow> membership_action \<Rightarrow> bool" where
  "action_ok C (Add via) = opt_ok (prov_ok C) via"
| "action_ok C (Remove _) = True"

fun body_ok :: "crypto \<Rightarrow> entry_body \<Rightarrow> bool" where
  "body_ok C (Genesis _ policy cs) = (policy_wire_ok policy \<and> cap_list_ok cs)"
| "body_ok C (BodyDefineGroup g cs) = (str_ok g \<and> cap_set_ok cs)"
| "body_ok C (MembershipChange g i a) = (str_ok g \<and> key_valid C i \<and> action_ok C a)"
| "body_ok C (PolicyChange policy) = policy_wire_ok policy"
| "body_ok C (ContentTypePolicy ts) = (bs_ok ts \<and> seq_ok str_ok ts)"
| "body_ok C (EpochRotation _ commit) = (length commit \<le> max_commit_bytes)"
| "body_ok C (VoteProposed p) = proposal_ok C p"
| "body_ok C (VoteOutcomeRecorded c) = certificate_ok C c"
| "body_ok C (DeviceEnrollment c) =
     (key_valid C (dc_identity c) \<and> key_valid C (dc_device c) \<and> str_ok (dc_label c))"
| "body_ok C (DeviceRevocation r) = (key_valid C (dr_identity r) \<and> key_valid C (dr_device r))"
| "body_ok C (Moderation _) = True"
| "body_ok C (AppNameRegistration n _) = str_ok n"
| "body_ok C (AppEntry ns kind c payload) =
     (str_ok ns \<and> str_ok kind \<and> is_valid_app_entry_name ns kind \<and> cap_ok c
      \<and> length payload \<le> max_app_entry_payload_bytes)"

definition entry_ok :: "crypto \<Rightarrow> log_entry \<Rightarrow> bool" where
  "entry_ok C e \<longleftrightarrow> key_valid C (le_author e) \<and> body_ok C (le_body e)"

section \<open>Reading back what was written\<close>

lemma seq_ok_bs_collect: "seq_ok P xs \<Longrightarrow> bs_ok (bs_collect xs) \<and> seq_ok P (bs_collect xs)"
  using length_bs_collect [of xs] by (auto simp: seq_ok_def len_ok_def list_all_iff)

lemma seq_ok_bm_collect: "seq_ok P xs \<Longrightarrow> bm_ok (bm_collect xs) \<and> seq_ok P (bm_collect xs)"
  using length_bm_collect [of xs] set_bm_collect_subset [of xs]
  by (auto simp: seq_ok_def len_ok_def list_all_iff)

interpretation ident: exact_codec "key_valid C" put_fixed32 "get_identity C" for C
proof
  fix x :: b32 and r
  assume "key_valid C x"
  then show "get_identity C (put_fixed32 x @ r) = Inr (x, r)"
    by (simp add: get_identity_def reader_simps)
  show "put_fixed32 x \<noteq> []"
    by (rule fixed32.put_nonempty) simp
next
  fix b x r
  assume "get_identity C b = Inr (x, r)"
  then show "key_valid C x \<and> b = put_fixed32 x @ r"
    by (auto simp: get_identity_def rbind_eq_Inr dest!: fixed32.get_exact split: if_splits)
qed

interpretation prov: exact_codec "prov_ok C" put_provenance "get_invite_provenance C" for C
proof
  fix x r
  assume "prov_ok C x"
  then show "get_invite_provenance C (put_provenance x @ r) = Inr (x, r)"
    by (simp add: prov_ok_def get_invite_provenance_def put_provenance_def reader_simps ident.get_put)
  show "put_provenance x \<noteq> []"
    by (simp add: put_provenance_def nonempty_simps)
next
  fix b x r
  assume "get_invite_provenance C b = Inr (x, r)"
  then show "prov_ok C x \<and> b = put_provenance x @ r"
    by (auto simp: get_invite_provenance_def rbind_eq_Inr prov_ok_def put_provenance_def
        dest!: fixed32.get_exact ident.get_exact)
qed

interpretation cap: exact_codec cap_ok put_capability get_capability
proof
  fix x r
  assume "cap_ok x"
  then show "get_capability (put_capability x @ r) = Inr (x, r)"
    by (cases x) (simp_all add: get_capability_def reader_simps)
  show "put_capability x \<noteq> []"
    by (cases x) (simp_all add: nonempty_simps)
next
  fix b x r
  assume "get_capability b = Inr (x, r)"
  then show "cap_ok x \<and> b = put_capability x @ r"
    by (auto simp: get_capability_def rbind_eq_Inr dest!: variant.get_exact str.get_exact
        split: if_splits)
qed

interpretation caps: checked_codec "seq_ok cap_ok" "put_seq put_capability"
  "dec_seq Malformed get_capability"
  by (rule checked_seq) (rule cap.checked_codec_axioms)

interpretation capset: checked_codec cap_set_ok put_capability_set get_capability_set
proof
  fix x r
  assume "cap_set_ok x"
  then show "get_capability_set (put_capability_set x @ r) = Inr (x, r)"
    by (cases x) (simp_all add: get_capability_set_def reader_simps caps.get_put cap_list_ok_def)
  show "put_capability_set x \<noteq> []"
    by (cases x) (simp_all add: nonempty_simps)
next
  show "reads cap_set_ok get_capability_set"
    unfolding get_capability_set_def
    by (rule reads_rbind [OF reads_wire(7)])
      (auto intro!: reads_if reads_rret reads_rfail reads_rbind [OF caps.accepts]
        simp: cap_list_ok_def seq_ok_bs_collect)
qed

interpretation model: checked_codec model_ok put_governance_model get_governance_model
proof
  fix x r
  assume "model_ok x"
  then show "get_governance_model (put_governance_model x @ r) = Inr (x, r)"
    by (cases x) (simp_all add: get_governance_model_def reader_simps)
  show "put_governance_model x \<noteq> []"
    by (cases x) (simp_all add: nonempty_simps)
next
  show "reads model_ok get_governance_model"
    unfolding get_governance_model_def
    by (auto intro!: reads_rbind [OF reads_wire(7)] reads_if reads_rret reads_rfail
        reads_rbind [OF reads_wire(9)] reads_rbind [OF reads_wire(2)] reads_rbind [OF reads_wire(4)])
qed

definition put_extension :: "string \<times> tier \<Rightarrow> bytes" where
  "put_extension q = put_str (fst q) @ put_tier (snd q)"

definition put_app_policy :: "string \<times> policy_value \<Rightarrow> bytes" where
  "put_app_policy q = put_str (fst q) @ put_policy_value (snd q)"

lemma put_policy_fields:
  "put_policy p =
     (case admission_mode p of AutoAdmit \<Rightarrow> put_variant 0 | ExplicitIntake \<Rightarrow> put_variant 1)
     @ put_governance_model (governance_model p)
     @ (case history_access p of CurrentEpochForward \<Rightarrow> put_variant 0 | FullHistory \<Rightarrow> put_variant 1)
     @ put_seq put_str (content_type_allowlist p)
     @ put_seq put_extension (extension_capabilities p)
     @ put_seq put_app_policy (app_policy p)
     @ put_seq put_str (bootstrap_relays p)
     @ put_u32 (fp_k (finality p)) @ put_i64 (fp_t_millis (finality p))
     @ put_u32 (ucast (replication_factor p)) @ put_u8 (mesh_relay_threshold p)
     @ put_u32 (target_chunk_size p)"
  by (simp add: put_policy_def put_extension_def [abs_def] put_app_policy_def [abs_def]
      case_prod_unfold)

interpretation ext: checked_codec "\<lambda>q. str_ok (fst q)" put_extension get_extension
proof
  fix x :: "string \<times> tier" and r
  assume "str_ok (fst x)"
  then show "get_extension (put_extension x @ r) = Inr (x, r)"
    by (cases x; cases "snd x") (simp_all add: get_extension_def put_extension_def reader_simps)
  show "put_extension x \<noteq> []"
    by (simp add: put_extension_def nonempty_simps \<open>str_ok (fst x)\<close>)
next
  show "reads (\<lambda>q. str_ok (fst q)) get_extension"
    unfolding get_extension_def
    by (auto intro!: reads_rbind [OF reads_wire(9)] reads_rbind [OF reads_wire(1)] reads_if reads_rret
        reads_rfail)
qed

interpretation appp: checked_codec app_pair_ok put_app_policy get_app_policy
proof
  fix x :: "string \<times> policy_value" and r
  assume ok: "app_pair_ok x"
  then show "get_app_policy (put_app_policy x @ r) = Inr (x, r)"
    by (cases x; cases "snd x")
      (simp_all add: get_app_policy_def put_app_policy_def reader_simps app_pair_ok_def)
  show "put_app_policy x \<noteq> []"
    using ok by (simp add: put_app_policy_def nonempty_simps app_pair_ok_def)
next
  show "reads app_pair_ok get_app_policy"
    unfolding get_app_policy_def
    by (auto intro!: reads_rbind [OF reads_wire(9)] reads_rbind [OF reads_wire(7)] reads_if reads_rret
        reads_rfail reads_rbind [OF reads_wire(4)] reads_rbind [OF reads_wire(8)] simp: app_pair_ok_def)
qed

interpretation addr: checked_codec address_ok put_str get_relay_address
proof
  fix x r
  assume "address_ok x"
  then show "get_relay_address (put_str x @ r) = Inr (x, r)"
    by (simp add: get_relay_address_def reader_simps address_ok_def)
  show "put_str x \<noteq> []"
    using \<open>address_ok x\<close> by (simp add: nonempty_simps address_ok_def)
next
  show "reads address_ok get_relay_address"
    unfolding get_relay_address_def
    by (auto intro!: reads_rbind [OF reads_wire(9)] reads_if reads_rret reads_rfail
        simp: address_ok_def)
qed

interpretation strs: checked_codec "seq_ok str_ok" "put_seq put_str" "dec_seq Malformed (wr dec_str)"
  by (intro checked_seq checked_map_err str.checked_codec_axioms)

interpretation exts: checked_codec "seq_ok (\<lambda>q. str_ok (fst q))" "put_seq put_extension"
  "dec_seq Malformed get_extension"
  by (intro checked_seq ext.checked_codec_axioms)

interpretation appps: checked_codec "seq_ok app_pair_ok" "put_seq put_app_policy"
  "dec_seq Malformed get_app_policy"
  by (intro checked_seq appp.checked_codec_axioms)

interpretation addrs: checked_codec "seq_ok address_ok" "put_seq put_str"
  "dec_seq Malformed get_relay_address"
  by (intro checked_seq addr.checked_codec_axioms)

lemma replication_round:
  "get_replication_factor (put_u32 (ucast (v :: u16)) @ r) = Inr (v, r)"
proof -
  have "unat (ucast v :: u32) < 2 ^ 16"
    using unat_bound [of v] by (simp add: unsigned_ucast_eq take_bit_nat_eq_self)
  moreover have "ucast (ucast v :: u32) = v"
    by (simp add: ucast_up_ucast_id is_up)
  ultimately show ?thesis
    by (simp add: get_replication_factor_def reader_simps)
qed

lemma reads_replication: "reads (\<lambda>_. True) get_replication_factor"
  unfolding get_replication_factor_def
  by (auto intro!: reads_rbind [OF reads_wire(2)] reads_if reads_rret reads_rfail)

interpretation pol: checked_codec policy_wire_ok put_policy get_policy
proof
  fix x :: network_policy and r
  assume ok: "policy_wire_ok x"
  then show "get_policy (put_policy x @ r) = Inr (x, r)"
    by (cases "admission_mode x"; cases "history_access x")
      (simp_all add: policy_wire_ok_def get_policy_def put_policy_fields reader_simps model.get_put
        strs.get_put exts.get_put appps.get_put addrs.get_put replication_round)
  show "put_policy x \<noteq> []"
    by (cases "admission_mode x") (simp_all add: put_policy_def nonempty_simps)
next
  show "reads policy_wire_ok get_policy"
    unfolding get_policy_def
    by (rule reads_rbind [OF reads_rbind [OF reads_wire(7), where Q = "\<lambda>_. True"]]
          reads_rbind [OF model.accepts]
          reads_rbind [OF reads_rbind [OF reads_wire(7), where Q = "\<lambda>_. True"]]
          reads_rbind [OF strs.accepts] reads_rbind [OF exts.accepts] reads_rbind [OF appps.accepts]
          reads_rbind [OF addrs.accepts] reads_if reads_rfail reads_rbind [OF reads_wire(2)]
          reads_rbind [OF reads_wire(4)] reads_rbind [OF reads_replication]
          reads_rbind [OF reads_wire(1)] reads_rret
        | simp add: policy_wire_ok_def seq_ok_bs_collect seq_ok_bm_collect)+
qed

interpretation idents: checked_codec "seq_ok (key_valid C)" "put_seq put_fixed32"
  "dec_seq Malformed (get_identity C)" for C
  by (intro checked_seq ident.checked_codec_axioms)

interpretation vprop: checked_codec "proposal_ok C" put_proposal "get_proposal C" for C
proof
  fix x :: vote_proposal and r
  assume "proposal_ok C x"
  then show "get_proposal C (put_proposal x @ r) = Inr (x, r)"
    by (simp add: proposal_ok_def get_proposal_def put_proposal_def reader_simps idents.get_put)
  show "put_proposal x \<noteq> []"
    by (simp add: put_proposal_def nonempty_simps)
next
  show "reads (proposal_ok C) (get_proposal C)"
    unfolding get_proposal_def
    by (rule reads_rbind [OF reads_wire(5)] reads_rbind [OF reads_wire(9)] reads_rbind [OF idents.accepts]
          reads_if reads_rfail reads_rbind [OF reads_wire(4)] reads_rbind [OF reads_wire(2)] reads_rret
        | simp add: proposal_ok_def seq_ok_bs_collect order_trans [OF length_bs_collect])+
qed

interpretation bal: exact_codec "ballot_ok C" put_ballot "get_ballot C" for C
proof
  fix x :: ballot and r
  assume "ballot_ok C x"
  then show "get_ballot C (put_ballot x @ r) = Inr (x, r)"
    by (simp add: ballot_ok_def get_ballot_def put_ballot_def reader_simps ident.get_put)
  show "put_ballot x \<noteq> []"
    by (simp add: put_ballot_def nonempty_simps)
next
  fix b x r
  assume "get_ballot C b = Inr (x, r)"
  then show "ballot_ok C x \<and> b = put_ballot x @ r"
    by (auto simp: get_ballot_def rbind_eq_Inr ballot_ok_def put_ballot_def
        dest!: fixed32.get_exact ident.get_exact bool.get_exact i64.get_exact fixed64.get_exact)
qed

interpretation bals: exact_codec "seq_ok (ballot_ok C)" "put_seq put_ballot"
  "dec_seq Malformed (get_ballot C)" for C
  by (intro exact_seq bal.exact_codec_axioms)

interpretation cert: exact_codec "certificate_ok C" put_certificate "get_certificate C" for C
proof
  fix x :: quorum_certificate and r
  assume "certificate_ok C x"
  then show "get_certificate C (put_certificate x @ r) = Inr (x, r)"
    by (simp add: certificate_ok_def get_certificate_def put_certificate_def reader_simps bals.get_put)
  show "put_certificate x \<noteq> []"
    by (simp add: put_certificate_def nonempty_simps)
next
  fix b x r
  assume "get_certificate C b = Inr (x, r)"
  then show "certificate_ok C x \<and> b = put_certificate x @ r"
    by (auto simp: get_certificate_def rbind_eq_Inr certificate_ok_def put_certificate_def
        dest!: fixed32.get_exact bals.get_exact split: if_splits)
qed

interpretation provs: exact_codec "opt_ok (prov_ok C)" "put_option put_provenance"
  "dec_option Malformed (get_invite_provenance C)" for C
  by (intro exact_option prov.exact_codec_axioms)

interpretation window: exact_codec "opt_ok (\<lambda>_. True)" "put_option put_i64"
  "dec_option Malformed (wr dec_i64)"
  by (intro exact_option exact_map_err i64.exact_codec_axioms)

lemma opt_ok_True [simp]: "opt_ok (\<lambda>_. True) v"
  by (cases v) auto

interpretation casc: exact_codec "\<lambda>_. True" "\<lambda>c :: cascade. put_option put_i64 (window_millis c)"
  "rbind (dec_option Malformed (wr dec_i64)) (\<lambda>w. rret \<lparr>window_millis = w\<rparr>)"
proof
  fix x :: cascade and r
  show "rbind (dec_option Malformed (wr dec_i64)) (\<lambda>w. rret \<lparr>window_millis = w\<rparr>)
      (put_option put_i64 (window_millis x) @ r) = Inr (x, r)"
    by (simp add: rbind_def window.get_put)
  show "put_option put_i64 (window_millis x) \<noteq> []"
    by (rule window.put_nonempty) simp
next
  fix b x r
  assume "rbind (dec_option Malformed (wr dec_i64)) (\<lambda>w. rret \<lparr>window_millis = w\<rparr>) b = Inr (x, r)"
  then show "True \<and> b = put_option put_i64 (window_millis x) @ r"
    by (auto simp: rbind_eq_Inr dest!: window.get_exact)
qed

interpretation cascs: exact_codec "opt_ok (\<lambda>_. True)"
  "put_option (\<lambda>c :: cascade. put_option put_i64 (window_millis c))"
  "dec_option Malformed
     (rbind (dec_option Malformed (wr dec_i64)) (\<lambda>w. rret \<lparr>window_millis = w\<rparr>))"
  by (intro exact_option casc.exact_codec_axioms)

interpretation act: exact_codec "action_ok C" put_membership_action "get_membership_action C" for C
proof
  fix x r
  assume "action_ok C x"
  then show "get_membership_action C (put_membership_action x @ r) = Inr (x, r)"
    by (cases x) (simp_all add: get_membership_action_def reader_simps provs.get_put
        cascs.get_put)
  show "put_membership_action x \<noteq> []"
    by (cases x) (simp_all add: nonempty_simps)
next
  fix b x r
  assume "get_membership_action C b = Inr (x, r)"
  then obtain v d where v: "wr dec_variant b = Inr (v, d)"
    and rest: "v = 0 \<and> (\<exists>via. dec_option Malformed (get_invite_provenance C) d = Inr (via, r) \<and> x = Add via)
      \<or> v = 1 \<and> (\<exists>c. dec_option Malformed
           (rbind (dec_option Malformed (wr dec_i64)) (\<lambda>w. rret \<lparr>window_millis = w\<rparr>)) d = Inr (c, r)
         \<and> x = Remove c)"
    by (auto simp: get_membership_action_def rbind_eq_Inr [of "wr dec_variant"]
        rbind_eq_Inr [of _ "\<lambda>x. rret (_ x)"] split: if_splits)
  then show "action_ok C x \<and> b = put_membership_action x @ r"
    by (auto dest!: variant.get_exact provs.get_exact cascs.get_exact)
qed

interpretation reason: exact_codec "\<lambda>_. True" "\<lambda>x. put_u8 (reason_tag x)" get_rotation_reason
proof
  fix x r
  show "get_rotation_reason (put_u8 (reason_tag x) @ r) = Inr (x, r)"
    by (cases x) (simp_all add: get_rotation_reason_def reader_simps)
  show "put_u8 (reason_tag x) \<noteq> []"
    by (simp add: nonempty_simps)
next
  fix b x r
  assume "get_rotation_reason b = Inr (x, r)"
  then show "True \<and> b = put_u8 (reason_tag x) @ r"
    by (auto simp: get_rotation_reason_def rbind_eq_Inr dest!: u8.get_exact split: if_splits)
qed

lemma len_ok_small: "length b \<le> max_commit_bytes \<Longrightarrow> len_ok b"
  "length b \<le> max_app_entry_payload_bytes \<Longrightarrow> len_ok b"
  by (simp_all add: len_ok_def max_commit_bytes_def max_app_entry_payload_bytes_def)

interpretation commit: exact_codec "\<lambda>b. length b \<le> max_commit_bytes" put_bytes get_commit
proof
  fix x :: bytes and r
  assume "length x \<le> max_commit_bytes"
  then show "get_commit (put_bytes x @ r) = Inr (x, r)" "put_bytes x \<noteq> []"
    by (simp_all add: get_commit_def reader_simps len_ok_small bytes.put_nonempty)
next
  fix b x r
  assume "get_commit b = Inr (x, r)"
  then show "length x \<le> max_commit_bytes \<and> b = put_bytes x @ r"
    by (auto simp: get_commit_def rbind_eq_Inr dest!: bytes.get_exact split: if_splits)
qed

lemma reads_entries:
  "reads (\<lambda>c. key_valid C (dc_identity c) \<and> key_valid C (dc_device c) \<and> str_ok (dc_label c))
     (get_enrollment C)"
  "reads (\<lambda>r. key_valid C (dr_identity r) \<and> key_valid C (dr_device r)) (get_revocation C)"
  "reads (\<lambda>_. True) get_moderation"
  unfolding get_enrollment_def get_revocation_def get_moderation_def
  by (rule reads_rbind [OF reads_wire(5)] reads_rbind [OF ident.accepts] reads_rbind [OF reads_wire(9)]
        reads_rbind [OF reads_wire(4)] reads_rbind [OF reads_wire(6)]
        reads_rbind [OF reads_rbind [OF reads_wire(1), where Q = "\<lambda>_. True"]] reads_if reads_rfail
        reads_rret
      | simp)+

lemma reads_app_entry: "reads (body_ok C) get_app_entry"
  unfolding get_app_entry_def
  by (rule reads_rbind [OF reads_wire(9)] reads_if reads_rfail reads_rbind [OF cap.accepts]
        reads_rbind [OF reads_wire(10)] reads_rret
      | simp)+

lemma reads_genesis: "reads (body_ok C) get_genesis"
  unfolding get_genesis_def
  by (rule reads_rbind [OF reads_wire(5)] reads_rbind [OF pol.accepts] reads_rbind [OF caps.accepts]
        reads_rret
      | simp add: cap_list_ok_def seq_ok_bs_collect)+

lemma reads_body: "reads (body_ok C) (get_body C)"
  unfolding get_body_def
  by (rule reads_rbind [OF reads_wire(7)] reads_if reads_genesis reads_app_entry reads_rfail
        reads_rbind [OF reads_wire(9)] reads_rbind [OF capset.accepts] reads_rbind [OF ident.accepts]
        reads_rbind [OF act.accepts] reads_rbind [OF pol.accepts] reads_rbind [OF strs.accepts]
        reads_rbind [OF reason.accepts] reads_rbind [OF commit.accepts] reads_rbind [OF vprop.accepts]
        reads_rbind [OF cert.accepts] reads_rbind [OF reads_entries(1)] reads_rbind [OF reads_entries(2)]
        reads_rbind [OF reads_entries(3)] reads_rbind [OF reads_wire(5)] reads_rret
      | simp add: seq_ok_bs_collect)+

text \<open>The body on the wire is written exactly as the body that is signed.\<close>

lemma put_body_encode: "put_body b = encode_body b"
  by (cases b) (simp_all split: membership_action.split rotation_reason.split moderation_action.split)

interpretation body: checked_codec "body_ok C" put_body "get_body C" for C
proof
  fix x r
  assume ok: "body_ok C x"
  show "put_body x \<noteq> []"
    by (cases x) (simp_all add: nonempty_simps)
  show "get_body C (put_body x @ r) = Inr (x, r)"
  proof (cases x)
    case (Moderation m)
    then show ?thesis
      by (cases "me_action m") (simp_all add: get_body_def get_moderation_def reader_simps)
  qed (use ok in \<open>simp_all add: put_body_encode get_body_def get_genesis_def get_app_entry_def
      get_enrollment_def get_revocation_def reader_simps capset.get_put ident.get_put act.get_put
      pol.get_put strs.get_put reason.get_put commit.get_put vprop.get_put cert.get_put caps.get_put
      cap.get_put cap_list_ok_def len_ok_small\<close>)
qed (rule reads_body)

interpretation parent: exact_codec "opt_ok (\<lambda>_. True)" "put_option put_fixed32"
  "dec_option Malformed (wr dec_fixed32)"
  by (intro exact_option exact_map_err fixed32.exact_codec_axioms)

interpretation entry: checked_codec "entry_ok C" put_entry "get_entry C" for C
proof
  fix x :: log_entry and r
  assume "entry_ok C x"
  then show "get_entry C (put_entry x @ r) = Inr (x, r)"
    by (simp add: entry_ok_def get_entry_def put_entry_def reader_simps parent.get_put ident.get_put
        body.get_put)
  show "put_entry x \<noteq> []"
    by (simp add: put_entry_def parent.put_nonempty)
next
  show "reads (entry_ok C) (get_entry C)"
    unfolding get_entry_def
    by (rule reads_rbind [OF parent.accepts] reads_rbind [OF reads_wire(4)] reads_rbind [OF ident.accepts]
          reads_rbind [OF body.accepts] reads_rbind [OF reads_wire(6)] reads_rret
        | simp add: entry_ok_def)+
qed

lemma wire_domain_ok: "str_ok entry_wire_domain"
  by (simp add: entry_wire_domain_def str_ok_def str_bytes_def)

lemma decode_encode_entry:
  assumes "entry_ok C e" and "entry_verify_signature C e = Inr ()"
  shows "decode_entry C (encode_entry e) = Inr e"
  using assms entry.get_put_nil [OF assms(1)]
  by (simp add: decode_entry_def encode_entry_def rbind_def rmap_err_def dec_domain_put wire_domain_ok
      dec_finish_def)

lemma decode_entry_sound:
  assumes "decode_entry C b = Inr e"
  shows "entry_ok C e \<and> entry_verify_signature C e = Inr ()"
proof -
  have "\<exists>d r. get_entry C d = Inr (e, r)" "entry_verify_signature C e = Inr ()"
    using assms by (auto simp: decode_entry_def rbind_eq_Inr split: sum.splits prod.splits)
  then show ?thesis
    using readsD [OF entry.accepts] by blast
qed

section \<open>The sync protocol\<close>

datatype sync_request = ReqHeads | ReqFetch "b32 list" "b32 list"

datatype sync_response = RespHeads "b32 list" | RespEntries "log_entry list" bool

definition request_domain :: string where
  "request_domain = ''intranet.wire.sync-request.v1''"

definition response_domain :: string where
  "response_domain = ''intranet.wire.sync-response.v1''"

fun put_sync_request :: "sync_request \<Rightarrow> bytes" where
  "put_sync_request ReqHeads = put_variant 0"
| "put_sync_request (ReqFetch wanted have_tips) =
     put_variant 1 @ put_seq put_fixed32 wanted @ put_seq put_fixed32 have_tips"

definition encode_request :: "sync_request \<Rightarrow> bytes" where
  "encode_request m = enc_domain request_domain @ put_sync_request m"

abbreviation finish_with :: "string \<Rightarrow> (wire_error, 'a) reader \<Rightarrow> bytes \<Rightarrow> wire_error + 'a" where
  "finish_with \<equiv> decode_whole Malformed"

abbreviation dec_hashes :: "(wire_error, b32 list) reader" where
  "dec_hashes \<equiv> dec_seq Malformed (wr dec_fixed32)"

definition get_sync_request :: "(wire_error, sync_request) reader" where
  "get_sync_request =
     rbind (wr dec_variant) (\<lambda>v.
       if v = 0 then rret ReqHeads
       else if v = 1 then rbind dec_hashes (\<lambda>w. rbind dec_hashes (\<lambda>h. rret (ReqFetch w h)))
       else rfail (unknown ''SyncRequest'' v))"

definition decode_request :: "bytes \<Rightarrow> wire_error + sync_request" where
  "decode_request b = finish_with request_domain get_sync_request b"

fun put_sync_response :: "sync_response \<Rightarrow> bytes" where
  "put_sync_response (RespHeads hs) = put_variant 0 @ put_seq put_fixed32 hs"
| "put_sync_response (RespEntries es truncated) =
     put_variant 1 @ put_seq (\<lambda>e. put_bytes (encode_entry e)) es @ put_bool truncated"

definition encode_response :: "sync_response \<Rightarrow> bytes" where
  "encode_response m = enc_domain response_domain @ put_sync_response m"

fun decode_entries :: "crypto \<Rightarrow> bytes list \<Rightarrow> wire_error + log_entry list" where
  "decode_entries C [] = Inr []"
| "decode_entries C (b # bs) =
     res_bind (decode_entry C b) (\<lambda>e. res_bind (decode_entries C bs) (\<lambda>es. Inr (e # es)))"

definition get_sync_response :: "crypto \<Rightarrow> (wire_error, sync_response) reader" where
  "get_sync_response C =
     rbind (wr dec_variant) (\<lambda>v.
       if v = 0 then rbind dec_hashes (\<lambda>hs. rret (RespHeads hs))
       else if v = 1 then
         rbind (dec_seq Malformed (wr dec_bytes)) (\<lambda>raw.
           case decode_entries C raw of
             Inl err \<Rightarrow> rfail err
           | Inr es \<Rightarrow> rbind (wr dec_bool) (\<lambda>truncated. rret (RespEntries es truncated)))
       else rfail (unknown ''SyncResponse'' v))"

definition decode_response :: "crypto \<Rightarrow> bytes \<Rightarrow> wire_error + sync_response" where
  "decode_response C b = finish_with response_domain (get_sync_response C) b"

section \<open>The ballot exchange\<close>

record ballot_request =
  br_vote_id :: b32
  br_have :: "b32 list"
  br_requester :: b32
  br_signature :: b64

datatype ballot_refusal = RefNotAMember | RefCannotEvaluate | RefUnknownVote

datatype ballot_response = RespBallots "ballot list" bool | RespRefused ballot_refusal

definition ballot_request_payload :: "b32 \<Rightarrow> b32 list \<Rightarrow> b32 \<Rightarrow> bytes" where
  "ballot_request_payload vid have_hashes requester =
     enc_domain ''intranet.ballot-request.v1'' @ put_fixed32 vid @ put_seq put_fixed32 have_hashes
       @ put_fixed32 requester"

definition br_create :: "crypto \<Rightarrow> per_network_identity \<Rightarrow> b32 \<Rightarrow> b32 list \<Rightarrow> ballot_request" where
  "br_create C requester vid have_hashes =
     \<lparr>br_vote_id = vid, br_have = have_hashes, br_requester = pni_id C requester,
      br_signature = pni_sign C requester
        (ballot_request_payload vid have_hashes (pni_id C requester))\<rparr>"

definition br_verify :: "crypto \<Rightarrow> ballot_request \<Rightarrow> wire_error + unit" where
  "br_verify C q =
     (case vk_verify C (br_requester q)
         (ballot_request_payload (br_vote_id q) (br_have q) (br_requester q)) (br_signature q) of
        Inl _ \<Rightarrow> Inl WireBadSignature | Inr u \<Rightarrow> Inr u)"

definition put_ballot_request :: "ballot_request \<Rightarrow> bytes" where
  "put_ballot_request q =
     put_fixed32 (br_vote_id q) @ put_seq put_fixed32 (br_have q) @ put_fixed32 (br_requester q)
       @ put_fixed64 (br_signature q)"

definition ballot_request_domain :: string where
  "ballot_request_domain = ''intranet.wire.ballot-request.v1''"

definition br_encode :: "ballot_request \<Rightarrow> bytes" where
  "br_encode q = enc_domain ballot_request_domain @ put_ballot_request q"

definition get_ballot_request :: "crypto \<Rightarrow> (wire_error, ballot_request) reader" where
  "get_ballot_request C =
     rbind (wr dec_fixed32) (\<lambda>vid.
     rbind dec_hashes (\<lambda>have_hashes.
     if length have_hashes > max_ballots
     then rfail (TooManyEntries (length have_hashes) max_ballots)
     else
     rbind (get_identity C) (\<lambda>requester.
     rbind (wr dec_fixed64) (\<lambda>signature.
       rret \<lparr>br_vote_id = vid, br_have = have_hashes, br_requester = requester,
             br_signature = signature\<rparr>))))"

definition br_decode :: "crypto \<Rightarrow> bytes \<Rightarrow> wire_error + ballot_request" where
  "br_decode C b =
     res_bind (finish_with ballot_request_domain (get_ballot_request C) b) (\<lambda>q.
     res_bind (br_verify C q) (\<lambda>_. Inr q))"

fun refusal_tag :: "ballot_refusal \<Rightarrow> u8" where
  "refusal_tag RefNotAMember = 0"
| "refusal_tag RefCannotEvaluate = 1"
| "refusal_tag RefUnknownVote = 2"

definition ballot_response_domain :: string where
  "ballot_response_domain = ''intranet.wire.ballot-response.v1''"

fun put_ballot_response :: "ballot_response \<Rightarrow> bytes" where
  "put_ballot_response (RespBallots bs truncated) =
     put_variant 0 @ put_seq put_ballot bs @ put_bool truncated"
| "put_ballot_response (RespRefused reason) = put_variant 1 @ put_u8 (refusal_tag reason)"

definition bresp_encode :: "ballot_response \<Rightarrow> bytes" where
  "bresp_encode m = enc_domain ballot_response_domain @ put_ballot_response m"

definition get_verified_ballot :: "crypto \<Rightarrow> (wire_error, ballot) reader" where
  "get_verified_ballot C =
     rbind (get_ballot C) (\<lambda>b.
       case ballot_verify C b of Inl _ \<Rightarrow> rfail WireBadSignature | Inr _ \<Rightarrow> rret b)"

definition get_ballot_response :: "crypto \<Rightarrow> (wire_error, ballot_response) reader" where
  "get_ballot_response C =
     rbind (wr dec_variant) (\<lambda>v.
       if v = 0 then
         rbind (dec_seq Malformed (get_verified_ballot C)) (\<lambda>bs.
         if length bs > max_ballots_per_response
         then rfail (TooManyEntries (length bs) max_ballots_per_response)
         else rbind (wr dec_bool) (\<lambda>truncated. rret (RespBallots bs truncated)))
       else if v = 1 then
         rbind (wr dec_u8) (\<lambda>t.
           if t = 0 then rret (RespRefused RefNotAMember)
           else if t = 1 then rret (RespRefused RefCannotEvaluate)
           else if t = 2 then rret (RespRefused RefUnknownVote)
           else rfail (unknown ''BallotRefusal'' t))
       else rfail (unknown ''BallotResponse'' v))"

definition bresp_decode :: "crypto \<Rightarrow> bytes \<Rightarrow> wire_error + ballot_response" where
  "bresp_decode C b = finish_with ballot_response_domain (get_ballot_response C) b"

section \<open>Messages read back\<close>

interpretation hashes: exact_codec "seq_ok (\<lambda>_. True)" "put_seq put_fixed32" dec_hashes
  by (intro exact_seq exact_map_err fixed32.exact_codec_axioms)

fun sync_request_ok :: "sync_request \<Rightarrow> bool" where
  "sync_request_ok ReqHeads = True"
| "sync_request_ok (ReqFetch w h) = (seq_ok (\<lambda>_. True) w \<and> seq_ok (\<lambda>_. True) h)"

interpretation sreq: exact_codec sync_request_ok put_sync_request get_sync_request
proof
  fix x r
  assume "sync_request_ok x"
  then show "get_sync_request (put_sync_request x @ r) = Inr (x, r)"
    by (cases x) (simp_all add: get_sync_request_def reader_simps hashes.get_put)
  show "put_sync_request x \<noteq> []"
    by (cases x) (simp_all add: nonempty_simps)
next
  fix b x r
  assume "get_sync_request b = Inr (x, r)"
  then show "sync_request_ok x \<and> b = put_sync_request x @ r"
    by (auto simp: get_sync_request_def rbind_eq_Inr dest!: variant.get_exact hashes.get_exact
        split: if_splits)
qed

interpretation blobs: exact_codec "seq_ok len_ok" "put_seq put_bytes" "dec_seq Malformed (wr dec_bytes)"
  by (intro exact_seq exact_map_err bytes.exact_codec_axioms)

definition entry_sound :: "crypto \<Rightarrow> log_entry \<Rightarrow> bool" where
  "entry_sound C e \<longleftrightarrow> entry_ok C e \<and> entry_verify_signature C e = Inr ()"

fun sync_response_ok :: "crypto \<Rightarrow> sync_response \<Rightarrow> bool" where
  "sync_response_ok C (RespHeads hs) = seq_ok (\<lambda>_. True) hs"
| "sync_response_ok C (RespEntries es _) =
     (list_all (entry_sound C) es \<and> seq_ok len_ok (map encode_entry es))"

lemma decode_entries_encode:
  "list_all (entry_sound C) es \<Longrightarrow> decode_entries C (map encode_entry es) = Inr es"
  by (induction es) (simp_all add: entry_sound_def decode_encode_entry)

lemma decode_entries_sound:
  "decode_entries C bs = Inr es \<Longrightarrow> list_all (entry_sound C) es \<and> length es = length bs"
  by (induction bs arbitrary: es)
    (auto simp: res_bind_Inr_iff entry_sound_def dest: decode_entry_sound)

lemma sync_response_put:
  "sync_response_ok C x \<Longrightarrow> get_sync_response C (put_sync_response x @ r) = Inr (x, r)"
  by (cases x) (simp_all add: get_sync_response_def reader_simps hashes.get_put put_seq_map blobs.get_put
      decode_entries_encode)

end
