(* ===== verification/Protocol.thy ===== *)
theory Protocol
  imports Wire
begin

text \<open>
  What the encodings guarantee: what is sent is what is received, what is signed is what is
  decoded, no two kinds of signed statement can be confused, and a decoder refuses what exceeds
  its limits.
\<close>

section \<open>Two sample entries\<close>

definition sample_moderation :: log_entry where
  "sample_moderation = entry_create demo (who 1) None 0 (Moderation \<lparr>me_action = Delist, me_target = 5\<rparr>)"

definition sample_reply :: log_entry where
  "sample_reply = entry_create demo (who 1) (Some 3) 0 (Moderation \<lparr>me_action = Delist, me_target = 5\<rparr>)"

section \<open>The canonical encoding\<close>

text \<open>
  Length-prefixed framing is unambiguous: a sequence of strings followed by anything
  determines both, so no shift of bytes between neighbouring fields yields the same encoding.
\<close>

theorem framing_unambiguous:
  assumes "seq_ok str_ok xs" and "seq_ok str_ok ys"
  shows "put_seq put_str xs @ r = put_seq put_str ys @ s \<longleftrightarrow> xs = ys \<and> r = s"
  by (rule strs.put_cancel [OF assms])

theorem framing_unambiguous_witness:
  "put_seq put_str [''ab'', ''c''] @ r = put_seq put_str [''a'', ''bc''] @ r \<longleftrightarrow> False"
  using framing_unambiguous [of "[''ab'', ''c'']" "[''a'', ''bc'']" r r]
  by (simp add: seq_ok_def len_ok_def str_ok_def str_bytes_def)

text \<open>
  A decoder of a sequence never yields more items than the message has bytes: a count a peer
  invents is refused before anything is read for it.
\<close>

theorem seq_count_bounded:
  assumes "dec_seq from f b = Inr (xs, r)" and "reads P f"
  shows "8 + length xs \<le> length b \<and> list_all P xs"
proof -
  obtain n d where n: "dec_length b = Inr (n, d)" "dec_items f n d = Inr (xs, r)"
    using assms(1) by (auto simp: dec_seq_def rbind_eq_Inr)
  have "length xs = n" "list_all P xs"
    using readsD [OF reads_items [OF assms(2)] n(2)] by auto
  moreover have "n \<le> length d" "b = put_u64 (of_nat n) @ d"
    using dec_length_exact [OF n(1)] by auto
  ultimately show ?thesis
    by simp
qed

theorem seq_count_bounded_witness:
  "dec_seq id dec_u8 (put_seq put_u8 [4, 5]) = Inr ([4, 5], [])
   \<and> 8 + length [4 :: u8, 5] \<le> length (put_seq put_u8 [4, 5])"
proof -
  have "codec (seq_ok (\<lambda>_. True)) (put_seq put_u8) (dec_seq id dec_u8)"
    by (rule codec_seq) (rule u8.codec_axioms)
  then have eq: "dec_seq id dec_u8 (put_seq put_u8 [4, 5]) = Inr ([4, 5], [])"
    by (rule codec.get_put_nil) (simp add: seq_ok_def len_ok_def)
  show ?thesis
    using seq_count_bounded [OF eq reads_prims(1)] eq by simp
qed

text \<open>
  A Merkle root commits to its leaves: two lists of the same length with the same root are
  equal, as long as the hash does not collide on the interior nodes computed for them.
\<close>

theorem merkle_root_binding:
  assumes "no_collision C (merkle_all_inputs C xs \<union> merkle_all_inputs C ys)"
    and "length xs = length ys" and "merkle_root C xs = merkle_root C ys"
  shows "xs = ys"
proof (cases "xs = []")
  case False
  then show ?thesis
    using assms merkle_loop_inj [of C xs ys] by (auto simp: merkle_root_def split: if_splits)
qed (use assms(2) in simp)

text \<open>A stand-in digest that keeps the last 32 bytes, so nodes differ when their right child does.\<close>

definition tail_demo :: crypto where
  "tail_demo = demo\<lparr>blake3 := (\<lambda>b. of_nat (be_val b))\<rparr>"

lemma be_val_append: "be_val (xs @ ys) = be_val xs * 256 ^ length ys + be_val ys"
proof (induction ys rule: rev_induct)
  case (snoc y ys)
  have "be_val ((xs @ ys) @ [y]) = (be_val xs * 256 ^ length ys + be_val ys) * 256 + unat y"
    by (simp only: be_val_snoc snoc.IH)
  then show ?case
    by (simp add: algebra_simps)
qed simp

lemma tail_demo_fixed32: "blake3 tail_demo (xs @ put_fixed32 v) = v"
proof -
  have "be_val (put_fixed32 v) = unat v"
    using unat_bound [of v] by (simp add: put_fixed32_def)
  moreover have "of_nat ((256 :: nat) ^ 32) = (0 :: b32)"
    by simp
  then have "of_nat (be_val xs * 256 ^ 32) = (0 :: b32)"
    by (simp only: of_nat_mult mult_zero_right)
  ultimately have "of_nat (be_val (xs @ put_fixed32 v)) = (0 :: b32) + of_nat (unat v)"
    by (simp only: be_val_append put_lengths of_nat_add)
  then show ?thesis
    by (simp add: tail_demo_def)
qed

lemma tail_demo_node: "merkle_node tail_demo a b = b"
  using tail_demo_fixed32 [of "enc_domain ''intranet.merkle.node.v1'' @ put_fixed32 a" b]
  by (simp add: merkle_node_def hash_enc_def hash_bytes_def)

theorem merkle_root_binding_witness: "merkle_root tail_demo [3, 4] \<noteq> merkle_root tail_demo [3, 5]"
proof -
  have inputs: "merkle_all_inputs tail_demo [3, v] =
      {(enc_domain ''intranet.merkle.node.v1'' @ put_fixed32 3) @ put_fixed32 v}" for v :: b32
    by (simp add: merkle_all_inputs.simps)
  have "no_collision tail_demo (merkle_all_inputs tail_demo [3, 4] \<union> merkle_all_inputs tail_demo [3, 5])"
    unfolding inputs no_collision_def inj_on_def
    using tail_demo_fixed32 [of "enc_domain ''intranet.merkle.node.v1'' @ put_fixed32 3"] by auto
  then show ?thesis
    using merkle_root_binding [of tail_demo "[3, 4]" "[3, 5]"] by auto
qed

section \<open>Signed statements\<close>

lemma payload_inj:
  assumes "body_ok C b" and "body_ok C b'"
  shows "entry_payload p t a b = entry_payload p' t' a' b' \<longleftrightarrow> p = p' \<and> t = t' \<and> a = a' \<and> b = b'"
  using body.put_inj [OF assms]
  by (simp add: entry_payload_def parent.put_cancel i64.put_cancel fixed32.put_cancel i64.put_inj
      fixed32.put_inj put_body_encode)

text \<open>
  A signature on an entry covers all of it: two entries a peer may send whose signed bytes
  are equal agree on parent, timestamp, author and body.
\<close>

theorem entry_payload_injective:
  assumes "body_ok C b" and "body_ok C b'"
  shows "entry_payload p t a b = entry_payload p' t' a' b' \<longleftrightarrow> p = p' \<and> t = t' \<and> a = a' \<and> b = b'"
  by (rule payload_inj [OF assms])

theorem entry_payload_injective_witness:
  "entry_payload None 0 1 (Moderation \<lparr>me_action = Delist, me_target = 5\<rparr>)
     \<noteq> entry_payload None 0 1 (Moderation \<lparr>me_action = Relist, me_target = 5\<rparr>)"
  using entry_payload_injective [of demo "Moderation \<lparr>me_action = Delist, me_target = 5\<rparr>"
      "Moderation \<lparr>me_action = Relist, me_target = 5\<rparr>"]
  by simp

text \<open>
  Statements of different kinds are never signed over the same bytes: a signature on an entry,
  a ballot, a device certificate, a device revocation, a common-ownership proof or a ballot
  request cannot be presented as a signature on another kind.
\<close>

theorem signed_domains_separated:
  "distinct [entry_payload p t a b, ballot_payload v w x y, dc_payload n i d l s, dr_payload n' i' d' s',
     op_payload e f, ballot_request_payload v' hs q]"
proof -
  have ok: "str_ok ''intranet.governance-entry.v1''" "str_ok ''intranet.ballot.v1''"
    "str_ok ''intranet.device-certificate.v1''" "str_ok ''intranet.device-revocation.v1''"
    "str_ok ''intranet.common-ownership.v1''" "str_ok ''intranet.ballot-request.v1''"
    by (simp_all add: str_ok_def str_bytes_def)
  show ?thesis
    by (simp add: entry_payload_def ballot_payload_def dc_payload_def dr_payload_def op_payload_def
        ballot_request_payload_def domain_cancel ok del: append_eq_append_conv)
qed

text \<open>
  Under a hash that does not collide on the two encodings, two entries with the same hash are
  the same entry, signature included.
\<close>

theorem entry_hash_binding:
  assumes "body_ok C (le_body e)" and "body_ok C (le_body e')"
    and "len_ok (payload_of_entry e)" and "len_ok (payload_of_entry e')"
    and "no_collision C {entry_hash_bytes e, entry_hash_bytes e'}"
    and "entry_hash C e = entry_hash C e'"
  shows "e = e'"
proof -
  have "entry_hash_bytes e = entry_hash_bytes e'"
    using assms(5,6) by (auto simp: no_collision_def entry_hash_def hash_bytes_def)
  then have "payload_of_entry e = payload_of_entry e' \<and> le_signature e = le_signature e'"
    by (simp add: entry_hash_bytes_def bytes.put_cancel [OF assms(3,4)] fixed64.put_inj)
  then show ?thesis
    using payload_inj [OF assms(1,2)] by simp
qed

theorem entry_hash_binding_witness:
  "entry_hash demo sample_moderation \<noteq> entry_hash demo sample_reply"
proof
  assume eq: "entry_hash demo sample_moderation = entry_hash demo sample_reply"
  have nc: "no_collision demo {entry_hash_bytes sample_moderation, entry_hash_bytes sample_reply}"
    by (auto simp: no_collision_def sample_moderation_def sample_reply_def entry_hash_bytes_def
        entry_payload_def put_option_def)
  have "sample_moderation = sample_reply"
    by (rule entry_hash_binding [OF _ _ _ _ nc eq])
      (simp_all add: sample_moderation_def sample_reply_def len_ok_def entry_payload_def put_option_def)
  then have "le_parent sample_moderation = le_parent sample_reply"
    by simp
  then show False
    by (simp add: sample_moderation_def sample_reply_def)
qed

section \<open>Entries on the wire\<close>

text \<open>
  The body sent on the wire is byte for byte the body that was signed and hashed.
\<close>

theorem wire_body_is_signed_body: "put_body b = encode_body b"
  by (rule put_body_encode)

text \<open>
  C34. An entry within the limits that carries a valid signature is received exactly as it was
  sent.
\<close>

theorem entry_round_trip:
  assumes "entry_ok C e" and "entry_verify_signature C e = Inr ()"
  shows "decode_entry C (encode_entry e) = Inr e"
  by (rule decode_encode_entry [OF assms])

theorem entry_round_trip_witness:
  "decode_entry demo (encode_entry sample_moderation) = Inr sample_moderation"
  by (rule entry_round_trip) (simp_all add: sample_moderation_def entry_ok_def)

text \<open>
  Whatever bytes a peer sends, an entry that comes out of the decoder carries a valid
  signature of its author over its canonical encoding, has a valid key as author, respects the
  ceilings on commits, payloads, electorates and ballots and the namespacing rules, and decodes
  to itself when it is sent on.
\<close>

theorem decoded_entry_authentic:
  assumes "decode_entry C b = Inr e"
  shows "key_valid C (le_author e)
    \<and> ed_verify C (le_author e) (payload_of_entry e) (le_signature e)
    \<and> body_ok C (le_body e) \<and> decode_entry C (encode_entry e) = Inr e"
  using decode_entry_sound [OF assms] decode_encode_entry [of C e]
  by (simp add: entry_ok_def entry_verify_Inr)

theorem decoded_entry_authentic_witness:
  "decode_entry demo (encode_entry sample_moderation) = Inr sample_moderation
   \<and> ed_verify demo 1 (payload_of_entry sample_moderation) (le_signature sample_moderation)"
proof -
  have d: "decode_entry demo (encode_entry sample_moderation) = Inr sample_moderation"
    by (rule decode_encode_entry) (simp_all add: sample_moderation_def entry_ok_def)
  then show ?thesis
    using decoded_entry_authentic [OF d] by (simp add: sample_moderation_def)
qed

text \<open>
  A rotation whose commit exceeds the ceiling is refused by every decoder, whoever signed it
  and however well formed it is otherwise.
\<close>

theorem oversized_commit_refused:
  assumes "le_body e = EpochRotation reason commit" and "max_commit_bytes < length commit"
    and "len_ok commit" and "key_valid C (le_author e)"
  shows "decode_entry C (encode_entry e) = Inl (CommitTooLarge (length commit))"
  using assms reason.get_put [of reason]
  by (simp add: decode_entry_def encode_entry_def put_entry_def get_entry_def put_body_encode
      get_body_def get_commit_def reader_simps dec_domain_put wire_domain_ok parent.get_put
      ident.get_put)

theorem oversized_commit_refused_witness:
  "decode_entry demo (encode_entry (entry_create demo (who 1) None 0
     (EpochRotation SelfInitiated (replicate (Suc max_commit_bytes) 0))))
   = Inl (CommitTooLarge (Suc max_commit_bytes))"
proof -
  let ?c = "replicate (Suc max_commit_bytes) (0 :: byte)"
  have len: "length ?c = Suc max_commit_bytes"
    by (rule length_replicate)
  have "len_ok ?c"
    unfolding len_ok_def len by (simp add: max_commit_bytes_def)
  then show ?thesis
    using oversized_commit_refused [of "entry_create demo (who 1) None 0 (EpochRotation SelfInitiated ?c)"
        SelfInitiated ?c demo]
    unfolding len by (simp only: created lessI demo_simps simp_thms)
qed

section \<open>Messages\<close>

lemma domains_ok: "str_ok request_domain" "str_ok response_domain" "str_ok ballot_request_domain"
  "str_ok ballot_response_domain"
  by (simp_all add: request_domain_def response_domain_def ballot_request_domain_def
      ballot_response_domain_def str_ok_def str_bytes_def)

text \<open>
  A sync request has exactly one encoding: bytes decode to a request if and only if they are
  its encoding.
\<close>

theorem sync_request_exact:
  assumes "sync_request_ok m"
  shows "decode_request b = Inr m \<longleftrightarrow> b = encode_request m"
  unfolding decode_request_def encode_request_def
  using whole_put [OF sreq.checked_codec_axioms domains_ok(1) assms]
    whole_exact [OF sreq.exact_codec_axioms, of Malformed request_domain b m]
  by metis

theorem sync_request_exact_witness:
  "decode_request (encode_request (ReqFetch [1, 2] [3])) = Inr (ReqFetch [1, 2] [3])"
  using sync_request_exact [of "ReqFetch [1, 2] [3]"] by (simp add: seq_ok_def len_ok_def)

lemma sync_response_reads: "reads (\<lambda>m. \<forall>es t. m = RespEntries es t \<longrightarrow> list_all (entry_sound C) es)
    (get_sync_response C)"
proof -
  have "reads (\<lambda>m. \<forall>es t. m = RespEntries es t \<longrightarrow> list_all (entry_sound C) es)
      (case decode_entries C raw of Inl err \<Rightarrow> rfail err
       | Inr es \<Rightarrow> rbind (wr dec_bool) (\<lambda>truncated. rret (RespEntries es truncated)))" for raw
    using decode_entries_sound [of C raw]
    by (cases "decode_entries C raw")
      (auto intro!: reads_rfail reads_rbind [OF reads_wire(8)] reads_rret)
  then show ?thesis
    unfolding get_sync_response_def
    by (auto intro!: reads_rbind [OF reads_wire(7)] reads_if reads_rbind [OF hashes.accepts]
        reads_rbind [OF blobs.accepts] reads_rret reads_rfail)
qed

text \<open>
  Every entry in a sync response that decodes is authentic, whatever the peer sent: its
  signature verifies and it is well formed.
\<close>

theorem sync_response_authentic:
  assumes "decode_response C b = Inr (RespEntries es truncated)"
  shows "\<forall>e\<in>set es. entry_verify_signature C e = Inr () \<and> entry_ok C e"
  using whole_reads [OF sync_response_reads assms [unfolded decode_response_def]]
  by (auto simp: list_all_iff entry_sound_def)

lemma sync_response_round:
  "sync_response_ok C m \<Longrightarrow> decode_response C (encode_response m) = Inr m"
  using sync_response_put [of C m "[]"] dec_domain_put [OF domains_ok(2)]
  by (simp add: decode_response_def encode_response_def decode_whole_def rbind_def rmap_err_def
      dec_finish_def)

lemma sample_moderation_sound: "entry_sound demo sample_moderation"
  by (simp add: entry_sound_def entry_ok_def sample_moderation_def)

lemma sample_moderation_length: "length (encode_entry sample_moderation) = 169"
  by (simp add: encode_entry_def entry_wire_domain_def put_entry_def sample_moderation_def put_option_def)

theorem sync_response_authentic_witness:
  "\<exists>b. decode_response demo b = Inr (RespEntries [sample_moderation] False)
     \<and> entry_verify_signature demo sample_moderation = Inr ()"
proof -
  have d: "decode_response demo (encode_response (RespEntries [sample_moderation] False)) =
      Inr (RespEntries [sample_moderation] False)"
    by (rule sync_response_round)
      (simp add: sample_moderation_sound seq_ok_def len_ok_def sample_moderation_length)
  show ?thesis
    using sync_response_authentic [OF d] d by auto
qed

text \<open>
  A sync response survives the wire whole: the entries, their order and the truncation mark.
\<close>

theorem sync_response_round_trip:
  assumes "sync_response_ok C m"
  shows "decode_response C (encode_response m) = Inr m"
  by (rule sync_response_round [OF assms])

theorem sync_response_round_trip_witness:
  "decode_response demo (encode_response (RespHeads [1, 2])) = Inr (RespHeads [1, 2])"
  by (rule sync_response_round_trip) (simp add: seq_ok_def len_ok_def)

section \<open>Common ownership\<close>

text \<open>
  A common-ownership proof decodes from exactly one byte string, and it decodes if and only
  if both keys are valid and both sides signed the pair.
\<close>

theorem ownership_proof_exact:
  "op_decode C b = Inr p \<longleftrightarrow> b = op_encode p \<and> op_verify C p = Inr ()"
proof
  assume "op_decode C b = Inr p"
  then show "b = op_encode p \<and> op_verify C p = Inr ()"
    using op_reader_exact [of C b] by (auto simp: op_decode_def split: sum.splits)
next
  assume "b = op_encode p \<and> op_verify C p = Inr ()"
  then show "op_decode C b = Inr p"
    using op_reader_encode [of C p] op_verify_Inr [of C p "()"] by (simp add: op_decode_def vk_verify_Inr)
qed

text \<open>
  A proof is the same whichever of the two identities is named first, and it verifies.
\<close>

theorem ownership_proof_symmetric:
  assumes "sign_correct C" and "(pni_network a, pni_id C a) \<noteq> (pni_network b, pni_id C b)"
  shows "op_create C a b = op_create C b a \<and> op_verify C (op_create C a b) = Inr ()"
  using assms
  by (auto simp: op_create_def Let_def op_verify_Inr sign_verifies pni_sign_def pni_id_def)

theorem ownership_proof_symmetric_witness:
  "op_create demo (who 3) \<lparr>pni_network = 8, pni_secret = 4\<rparr>
     = op_create demo \<lparr>pni_network = 8, pni_secret = 4\<rparr> (who 3)"
  using ownership_proof_symmetric [OF demo_sign_correct, of "who 3" "\<lparr>pni_network = 8, pni_secret = 4\<rparr>"]
  by simp

end
