(* ===== verification/Window.thy ===== *)
theory Window
  imports Prelude
begin

text \<open>
  Rate limiting by a sliding window, the pattern the audit of observations (reliability.rs) and the
  meter of direct messages (direct_limits.rs) share: forget what is no longer recent, refuse when
  what is left reaches the ceiling, otherwise record the attempt.

  The locale states what \<open>recent\<close> must satisfy; its lemmas say what a caller may rely on, and each
  limiter interprets it with its own notion of time.
\<close>

definition window_admit :: "('t \<Rightarrow> 't \<Rightarrow> bool) \<Rightarrow> nat \<Rightarrow> 't \<Rightarrow> 't list \<Rightarrow> 't list \<times> bool" where
  "window_admit recent limit now history =
     (let kept = filter (recent now) history
      in if length kept \<ge> limit then (kept, False) else (kept @ [now], True))"

text \<open>A run of attempts: the history the limiter keeps and, beside it, every attempt it granted.\<close>

fun window_step :: "('t \<Rightarrow> 't \<Rightarrow> bool) \<Rightarrow> nat \<Rightarrow> 't \<Rightarrow> 't list \<times> 't list \<Rightarrow> 't list \<times> 't list" where
  "window_step recent limit now (history, granted) =
     (case window_admit recent limit now history of
        (h, ok) \<Rightarrow> (h, if ok then granted @ [now] else granted))"

definition window_run :: "('t \<Rightarrow> 't \<Rightarrow> bool) \<Rightarrow> nat \<Rightarrow> 't list \<Rightarrow> 't list \<times> 't list" where
  "window_run recent limit ts = fold (window_step recent limit) ts ([], [])"

locale sliding_window =
  fixes recent :: "'t::linorder \<Rightarrow> 't \<Rightarrow> bool"
    and valid :: "'t \<Rightarrow> bool"
  assumes ages: "valid at \<Longrightarrow> valid t \<Longrightarrow> valid u \<Longrightarrow> at \<le> t \<Longrightarrow> t \<le> u \<Longrightarrow> recent u at \<Longrightarrow> recent t at"
begin

text \<open>The kept history is as good as the whole record for every later question.\<close>

definition tracks :: "'t \<Rightarrow> 't list \<Rightarrow> 't list \<Rightarrow> bool" where
  "tracks latest history granted \<longleftrightarrow>
     (\<forall>g\<in>set granted. g \<le> latest \<and> valid g) \<and> set history \<subseteq> set granted \<and>
     (\<forall>t. valid t \<longrightarrow> latest \<le> t \<longrightarrow> filter (recent t) granted = filter (recent t) history)"

lemma tracks_Nil: "tracks t [] []"
  by (simp add: tracks_def)

lemma tracks_filter:
  assumes "tracks latest history granted" and "latest \<le> now" and "valid now"
  shows "tracks now (filter (recent now) history) granted"
proof -
  have "filter (recent t) granted = filter (recent t) (filter (recent now) history)"
    if t: "valid t" "now \<le> t" for t
  proof -
    have "filter (recent t) granted = filter (recent t) history"
      using assms t by (simp add: tracks_def)
    moreover have "recent now g" if "g \<in> set history" "recent t g" for g
    proof (rule ages [of g now t])
      show "valid g" "g \<le> now"
        using assms that by (fastforce simp: tracks_def)+
    qed (use assms t that in simp_all)
    ultimately show ?thesis
      by (auto intro: filter_cong)
  qed
  moreover have "\<forall>g\<in>set granted. g \<le> now \<and> valid g" "set (filter (recent now) history) \<subseteq> set granted"
    using assms order_trans [of _ latest now] by (auto simp: tracks_def)
  ultimately show ?thesis
    by (simp add: tracks_def)
qed

lemma tracks_grant:
  "tracks now history granted \<Longrightarrow> valid now \<Longrightarrow> tracks now (history @ [now]) (granted @ [now])"
  by (auto simp: tracks_def)

lemma tracks_step:
  assumes "tracks latest history granted" and "latest \<le> now" and "valid now"
    and "window_admit recent limit now history = (h, ok)"
  shows "tracks now h (if ok then granted @ [now] else granted)"
  using tracks_filter [OF assms(1-3)] tracks_grant [OF tracks_filter [OF assms(1-3)] assms(3)] assms(4)
  by (auto simp: window_admit_def Let_def split: if_splits)

lemma admit_length:
  "length history \<le> limit \<Longrightarrow> window_admit recent limit now history = (h, ok) \<Longrightarrow> length h \<le> limit"
  using le_trans [OF length_filter_le, of history limit "recent now"]
  by (auto simp: window_admit_def Let_def split: if_splits)

text \<open>Whatever was granted, no window holds more of it than the ceiling.\<close>

lemma tracks_bound:
  assumes "tracks latest history granted" and "length history \<le> limit" and "valid t" and "latest \<le> t"
  shows "length (filter (recent t) granted) \<le> limit"
  using assms le_trans [OF length_filter_le, of history limit "recent t"] by (simp add: tracks_def)

text \<open>An attempt is refused only if the ceiling is reached by grants that are still recent.\<close>

lemma refused_iff:
  assumes "tracks latest history granted" and "latest \<le> now" and "valid now"
  shows "snd (window_admit recent limit now history) \<longleftrightarrow> length (filter (recent now) granted) < limit"
  using assms by (simp add: window_admit_def Let_def tracks_def)

lemma run_invariant:
  assumes "sorted ts" and "\<forall>t\<in>set ts. valid t" and "window_run recent limit ts = (h, g)"
    and "\<forall>t\<in>set ts. t \<le> latest"
  shows "tracks latest h g \<and> length h \<le> limit"
  using assms
proof (induction ts arbitrary: h g latest rule: rev_induct)
  case Nil
  then show ?case
    by (simp add: window_run_def tracks_Nil)
next
  case (snoc now ts)
  obtain h0 g0 where run: "window_run recent limit ts = (h0, g0)"
    by (cases "window_run recent limit ts")
  obtain h1 ok where adm: "window_admit recent limit now h0 = (h1, ok)"
    by (cases "window_admit recent limit now h0")
  have hg: "h = h1" "g = (if ok then g0 @ [now] else g0)"
    using snoc.prems(3) run adm by (simp_all add: window_run_def)
  have IH: "tracks now h0 g0 \<and> length h0 \<le> limit"
    using snoc.prems(1,2) run by (intro snoc.IH) (auto simp: sorted_append)
  then have "tracks now h g"
    using tracks_step [OF _ _ _ adm, of now g0] snoc.prems(2) hg by simp
  moreover have "tracks latest h g" if "tracks now h g"
    using that snoc.prems(4) by (force simp: tracks_def)
  ultimately show ?case
    using admit_length [OF _ adm] IH hg by blast
qed

lemma run_bound:
  assumes "sorted ts" and "\<forall>t\<in>set ts. valid t" and "valid t" and "\<forall>u\<in>set ts. u \<le> t"
  shows "length (filter (recent t) (snd (window_run recent limit ts))) \<le> limit"
  using run_invariant [OF assms(1,2) _ assms(4), of limit] tracks_bound assms(3)
  by (cases "window_run recent limit ts") fastforce

end

end
