(* ===== verification/Ledger.thy ===== *)
theory Ledger
  imports Sample Window
begin

text \<open>
  The capability ledger, \<open>intranet-ledger\<close>: advertisement.rs (what a node offers), lib.rs (the local
  cache of what peers offer and its pull-based gossip), placement.rs (rendezvous hashing),
  reliability.rs (private observations and their audit) and wire.rs (the messages).

  The cache is a map from nodes to their newest advertisement. An operation that takes \<open>&mut self\<close>
  returns the new cache; one that may fail returns a sum, and leaves the cache alone when it fails,
  except where the code mutates before failing (\<open>respond_to_audit\<close>).
\<close>

section \<open>Advertisements\<close>

record time_of_day_window =
  start_minute :: u16
  end_minute :: u16

record bandwidth_cap =
  up_bytes_per_sec :: u64
  down_bytes_per_sec :: u64
  active_window :: "time_of_day_window option"

datatype compute_class = Minimal | Modest | Substantial

record advertisement =
  ca_network :: b32
  ca_node :: b32
  storage_offered :: u64
  ca_bandwidth :: bandwidth_cap
  relay_bootstrap_willing :: bool
  relay_media_willing :: bool
  ca_compute :: compute_class
  ca_issued_at :: i64
  ca_signature :: b64

datatype ledger_error =
    LedgerBadSignature
  | LedgerNetworkMismatch string string
  | LedgerNotAMember string
  | AuditNotAuthorized string
  | AuditRateLimited string u32

definition cap_none :: bandwidth_cap where
  "cap_none = \<lparr>up_bytes_per_sec = 0, down_bytes_per_sec = 0, active_window = None\<rparr>"

definition window_contains :: "time_of_day_window \<Rightarrow> u16 \<Rightarrow> bool" where
  "window_contains w minute =
     (if start_minute w \<le> end_minute w then start_minute w \<le> minute \<and> minute < end_minute w
      else start_minute w \<le> minute \<or> minute < end_minute w)"

definition cap_active_at :: "bandwidth_cap \<Rightarrow> u16 \<Rightarrow> bool" where
  "cap_active_at c minute_of_day =
     (case active_window c of None \<Rightarrow> True | Some w \<Rightarrow> window_contains w minute_of_day)"

definition put_window :: "time_of_day_window \<Rightarrow> bytes" where
  "put_window w = put_u32 (ucast (start_minute w)) @ put_u32 (ucast (end_minute w))"

definition put_bandwidth :: "bandwidth_cap \<Rightarrow> bytes" where
  "put_bandwidth c =
     put_u64 (up_bytes_per_sec c) @ put_u64 (down_bytes_per_sec c) @ put_option put_window (active_window c)"

fun class_discriminant :: "compute_class \<Rightarrow> u8" where
  "class_discriminant Minimal = 0"
| "class_discriminant Modest = 1"
| "class_discriminant Substantial = 2"

definition ad_payload ::
  "b32 \<Rightarrow> b32 \<Rightarrow> u64 \<Rightarrow> bandwidth_cap \<Rightarrow> bool \<Rightarrow> bool \<Rightarrow> compute_class \<Rightarrow> i64 \<Rightarrow> bytes" where
  "ad_payload network node storage cap bootstrap media cls issued_at =
     enc_domain ''intranet.capability-advertisement.v1'' @ put_fixed32 network @ put_fixed32 node
       @ put_u64 storage @ put_bandwidth cap @ put_bool bootstrap @ put_bool media
       @ put_u8 (class_discriminant cls) @ put_i64 issued_at"

definition payload_of_ad :: "advertisement \<Rightarrow> bytes" where
  "payload_of_ad a =
     ad_payload (ca_network a) (ca_node a) (storage_offered a) (ca_bandwidth a)
       (relay_bootstrap_willing a) (relay_media_willing a) (ca_compute a) (ca_issued_at a)"

definition ad_create ::
  "crypto \<Rightarrow> per_network_identity \<Rightarrow> u64 \<Rightarrow> bandwidth_cap \<Rightarrow> bool \<Rightarrow> bool \<Rightarrow> compute_class \<Rightarrow> i64
     \<Rightarrow> advertisement" where
  "ad_create C node storage cap bootstrap media cls issued_at =
     \<lparr>ca_network = pni_network node, ca_node = pni_id C node, storage_offered = storage,
      ca_bandwidth = cap, relay_bootstrap_willing = bootstrap, relay_media_willing = media,
      ca_compute = cls, ca_issued_at = issued_at,
      ca_signature = pni_sign C node
        (ad_payload (pni_network node) (pni_id C node) storage cap bootstrap media cls issued_at)\<rparr>"

definition ad_none :: "crypto \<Rightarrow> per_network_identity \<Rightarrow> i64 \<Rightarrow> advertisement" where
  "ad_none C node issued_at = ad_create C node 0 cap_none False False Minimal issued_at"

definition ad_verify :: "crypto \<Rightarrow> advertisement \<Rightarrow> ledger_error + unit" where
  "ad_verify C a =
     (case vk_verify C (ca_node a) (payload_of_ad a) (ca_signature a) of
        Inl _ \<Rightarrow> Inl LedgerBadSignature | Inr u \<Rightarrow> Inr u)"

definition ad_is_stale :: "advertisement \<Rightarrow> i64 \<Rightarrow> i64 \<Rightarrow> bool" where
  "ad_is_stale a now ttl_millis \<longleftrightarrow> sint (millis_since now (ca_issued_at a)) > sint ttl_millis"

section \<open>The local cache\<close>

record capability_ledger =
  cl_network :: b32
  cl_entries :: "(b32, advertisement) btree_map"

definition ledger_new :: "b32 \<Rightarrow> capability_ledger" where
  "ledger_new network = \<lparr>cl_network = network, cl_entries = []\<rparr>"

definition ledger_insert ::
  "crypto \<Rightarrow> capability_ledger \<Rightarrow> advertisement \<Rightarrow> governance_state \<Rightarrow> ledger_error + capability_ledger" where
  "ledger_insert C L a st =
     res_bind (ad_verify C a) (\<lambda>_.
       if ca_network a \<noteq> cl_network L
       then Inl (LedgerNetworkMismatch (short (ca_network a)) (short (cl_network L)))
       else if \<not> is_member st (ca_node a) then Inl (LedgerNotAMember (short (ca_node a)))
       else (let store = Inr (L\<lparr>cl_entries := bm_insert (ca_node a) a (cl_entries L)\<rparr>) in
         case bm_get (cl_entries L) (ca_node a) of
           Some existing \<Rightarrow> if sint (ca_issued_at existing) \<ge> sint (ca_issued_at a) then Inr L else store
         | None \<Rightarrow> store))"

definition ledger_digest :: "capability_ledger \<Rightarrow> (b32 \<times> i64) list" where
  "ledger_digest L = map (\<lambda>(node, a). (node, ca_issued_at a)) (cl_entries L)"

definition wanted_from :: "capability_ledger \<Rightarrow> (b32 \<times> i64) list \<Rightarrow> b32 list" where
  "wanted_from L digest =
     map fst (filter (\<lambda>(node, issued_at).
       case bm_get (cl_entries L) node of
         None \<Rightarrow> True | Some held \<Rightarrow> sint (ca_issued_at held) < sint issued_at) digest)"

definition ledger_fetch :: "capability_ledger \<Rightarrow> b32 list \<Rightarrow> nat \<Rightarrow> advertisement list \<times> bool" where
  "ledger_fetch L nodes limit =
     (let matched = List.map_filter (bm_get (cl_entries L)) nodes
      in (take limit matched, length matched > limit))"

definition ledger_remove ::
  "capability_ledger \<Rightarrow> b32 \<Rightarrow> capability_ledger \<times> advertisement option" where
  "ledger_remove L node =
     (L\<lparr>cl_entries := bm_remove node (cl_entries L)\<rparr>, bm_get (cl_entries L) node)"

definition ledger_expire :: "capability_ledger \<Rightarrow> i64 \<Rightarrow> i64 \<Rightarrow> capability_ledger \<times> nat" where
  "ledger_expire L now ttl_millis =
     (let kept = filter (\<lambda>(_, a). \<not> ad_is_stale a now ttl_millis) (cl_entries L)
      in (L\<lparr>cl_entries := kept\<rparr>, length (cl_entries L) - length kept))"

definition ledger_reconcile :: "capability_ledger \<Rightarrow> governance_state \<Rightarrow> capability_ledger \<times> nat" where
  "ledger_reconcile L st =
     (let kept = filter (\<lambda>(node, _). is_member st node) (cl_entries L)
      in (L\<lparr>cl_entries := kept\<rparr>, length (cl_entries L) - length kept))"

definition storage_candidates :: "capability_ledger \<Rightarrow> advertisement list" where
  "storage_candidates L = filter (\<lambda>a. storage_offered a > 0) (bm_values (cl_entries L))"

definition media_relay_candidates :: "capability_ledger \<Rightarrow> advertisement list" where
  "media_relay_candidates L = filter relay_media_willing (bm_values (cl_entries L))"

definition bootstrap_relay_candidates :: "capability_ledger \<Rightarrow> advertisement list" where
  "bootstrap_relay_candidates L = filter relay_bootstrap_willing (bm_values (cl_entries L))"

section \<open>Placement\<close>

datatype weight_field = StorageOffered | BandwidthUp

fun weight_of :: "weight_field \<Rightarrow> advertisement \<Rightarrow> u64" where
  "weight_of StorageOffered a = storage_offered a"
| "weight_of BandwidthUp a = up_bytes_per_sec (ca_bandwidth a)"

record scored_candidate =
  sc_node :: b32
  sc_score :: "128 word"

definition hrw_draw :: "crypto \<Rightarrow> bytes \<Rightarrow> b32 \<Rightarrow> u64" where
  "hrw_draw C key node =
     (let digest = hash_bytes C (enc_domain ''intranet.hrw.v1'' @ put_bytes key @ put_fixed32 node)
      in of_nat (be_val (take 8 (be_bytes 32 (unat digest)))))"

definition score :: "crypto \<Rightarrow> bytes \<Rightarrow> b32 \<Rightarrow> u64 \<Rightarrow> 128 word" where
  "score C key node weight = ucast (hrw_draw C key node) * ucast weight"

text \<open>The comparator \<open>b.score.cmp(&a.score).then_with(a.node.cmp(&b.node))\<close> as a sort key.\<close>

definition rank_key :: "scored_candidate \<Rightarrow> int \<times> b32" where
  "rank_key c = (- uint (sc_score c), sc_node c)"

definition scored :: "crypto \<Rightarrow> bytes \<Rightarrow> weight_field \<Rightarrow> advertisement \<Rightarrow> scored_candidate option" where
  "scored C key field a =
     (let weight = weight_of field a in
      if weight > 0 then Some \<lparr>sc_node = ca_node a, sc_score = score C key (ca_node a) weight\<rparr> else None)"

definition rank ::
  "crypto \<Rightarrow> bytes \<Rightarrow> advertisement list \<Rightarrow> weight_field \<Rightarrow> scored_candidate list" where
  "rank C key candidates field = sort_key rank_key (List.map_filter (scored C key field) candidates)"

definition select :: "crypto \<Rightarrow> bytes \<Rightarrow> advertisement list \<Rightarrow> weight_field \<Rightarrow> nat \<Rightarrow> b32 list" where
  "select C key candidates field n = map sc_node (take n (rank C key candidates field))"

definition select_replicas :: "crypto \<Rightarrow> capability_ledger \<Rightarrow> bytes \<Rightarrow> nat \<Rightarrow> b32 list" where
  "select_replicas C L cid n = select C cid (storage_candidates L) StorageOffered n"

definition select_stream_tier :: "crypto \<Rightarrow> capability_ledger \<Rightarrow> bytes \<Rightarrow> nat \<Rightarrow> b32 list" where
  "select_stream_tier C L stream_id n =
     select C stream_id (media_relay_candidates L) BandwidthUp n"

section \<open>Private observations\<close>

record peer_observations =
  po_verified :: u64
  po_failed :: u64

record observations =
  ro_counters :: "(b32, peer_observations) btree_map"
  ro_audit_log :: "(b32, i64 list) btree_map"

definition no_observations :: peer_observations where
  "no_observations = \<lparr>po_verified = 0, po_failed = 0\<rparr>"

definition observations_new :: observations where
  "observations_new = \<lparr>ro_counters = [], ro_audit_log = []\<rparr>"

definition po_total :: "peer_observations \<Rightarrow> u64" where
  "po_total p = saturating_add_u64 (po_verified p) (po_failed p)"

definition for_peer :: "observations \<Rightarrow> b32 \<Rightarrow> peer_observations" where
  "for_peer R peer = (case bm_get (ro_counters R) peer of None \<Rightarrow> no_observations | Some p \<Rightarrow> p)"

definition record_verified :: "observations \<Rightarrow> b32 \<Rightarrow> observations" where
  "record_verified R peer =
     (let p = for_peer R peer
      in R\<lparr>ro_counters := bm_insert peer (p\<lparr>po_verified := saturating_add_u64 (po_verified p) 1\<rparr>) (ro_counters R)\<rparr>)"

definition record_failed :: "observations \<Rightarrow> b32 \<Rightarrow> observations" where
  "record_failed R peer =
     (let p = for_peer R peer
      in R\<lparr>ro_counters := bm_insert peer (p\<lparr>po_failed := saturating_add_u64 (po_failed p) 1\<rparr>) (ro_counters R)\<rparr>)"

text \<open>
  The rate \<open>failed as f64 / total as f64\<close> is compared with a threshold and with nothing else, so the
  comparison is the argument: \<open>at_least failed total\<close> says that the quotient reaches it.
\<close>

definition reliability_class :: "(u64 \<Rightarrow> u64 \<Rightarrow> bool) \<Rightarrow> peer_observations \<Rightarrow> nat" where
  "reliability_class at_least p =
     (if po_total p > 0 then (if at_least (po_failed p) (po_total p) then 2 else 0) else 1)"

definition deprioritize_unreliable :: "observations \<Rightarrow> (u64 \<Rightarrow> u64 \<Rightarrow> bool) \<Rightarrow> b32 list \<Rightarrow> b32 list" where
  "deprioritize_unreliable R at_least candidates =
     sort_key (\<lambda>peer. reliability_class at_least (for_peer R peer)) candidates"

record audit_rate_limit =
  max_requests_per_window :: u32
  audit_window_millis :: i64

definition audit_rate_default :: audit_rate_limit where
  "audit_rate_default = \<lparr>max_requests_per_window = 6, audit_window_millis = 60 * 60000\<rparr>"

record audit_request =
  ar_requester :: b32
  ar_subject :: b32
  ar_issued_at :: i64
  ar_signature :: b64

definition ar_payload :: "b32 \<Rightarrow> b32 \<Rightarrow> i64 \<Rightarrow> bytes" where
  "ar_payload requester subject issued_at =
     enc_domain ''intranet.reputation-audit-request.v1'' @ put_fixed32 requester @ put_fixed32 subject
       @ put_i64 issued_at"

definition ar_create :: "crypto \<Rightarrow> per_network_identity \<Rightarrow> b32 \<Rightarrow> i64 \<Rightarrow> audit_request" where
  "ar_create C requester subject issued_at =
     \<lparr>ar_requester = pni_id C requester, ar_subject = subject, ar_issued_at = issued_at,
      ar_signature = pni_sign C requester (ar_payload (pni_id C requester) subject issued_at)\<rparr>"

definition ar_verify :: "crypto \<Rightarrow> audit_request \<Rightarrow> ledger_error + unit" where
  "ar_verify C q =
     (case vk_verify C (ar_requester q) (ar_payload (ar_requester q) (ar_subject q) (ar_issued_at q))
         (ar_signature q) of
        Inl _ \<Rightarrow> Inl LedgerBadSignature | Inr u \<Rightarrow> Inr u)"

record audit_response =
  as_responder :: b32
  as_requester :: b32
  as_subject :: b32
  as_observations :: peer_observations
  as_responded_at :: i64
  as_signature :: b64

definition as_payload :: "b32 \<Rightarrow> b32 \<Rightarrow> b32 \<Rightarrow> peer_observations \<Rightarrow> i64 \<Rightarrow> bytes" where
  "as_payload responder requester subject obs responded_at =
     enc_domain ''intranet.reputation-audit-response.v1'' @ put_fixed32 responder @ put_fixed32 requester
       @ put_fixed32 subject @ put_u64 (po_verified obs) @ put_u64 (po_failed obs) @ put_i64 responded_at"

definition as_create ::
  "crypto \<Rightarrow> per_network_identity \<Rightarrow> audit_request \<Rightarrow> peer_observations \<Rightarrow> i64 \<Rightarrow> audit_response" where
  "as_create C responder q obs responded_at =
     \<lparr>as_responder = pni_id C responder, as_requester = ar_requester q, as_subject = ar_subject q,
      as_observations = obs, as_responded_at = responded_at,
      as_signature = pni_sign C responder
        (as_payload (pni_id C responder) (ar_requester q) (ar_subject q) obs responded_at)\<rparr>"

definition as_verify :: "crypto \<Rightarrow> audit_response \<Rightarrow> ledger_error + unit" where
  "as_verify C r =
     (case vk_verify C (as_responder r)
         (as_payload (as_responder r) (as_requester r) (as_subject r) (as_observations r) (as_responded_at r))
         (as_signature r) of
        Inl _ \<Rightarrow> Inl LedgerBadSignature | Inr u \<Rightarrow> Inr u)"

definition audit_recent :: "audit_rate_limit \<Rightarrow> i64 \<Rightarrow> i64 list \<Rightarrow> i64 list" where
  "audit_recent policy now history =
     filter (\<lambda>at. sint (millis_since now at) \<le> sint (audit_window_millis policy)) history"

definition respond_to_audit ::
  "crypto \<Rightarrow> observations \<Rightarrow> audit_request \<Rightarrow> per_network_identity \<Rightarrow> governance_state \<Rightarrow> i64
     \<Rightarrow> audit_rate_limit \<Rightarrow> observations \<times> (ledger_error + audit_response)" where
  "respond_to_audit C R q responder st now policy =
     (case ar_verify C q of
        Inl e \<Rightarrow> (R, Inl e)
      | Inr _ \<Rightarrow>
          if \<not> identity_holds st (ar_requester q) AuditReputation
          then (R, Inl (AuditNotAuthorized (short (ar_requester q))))
          else
            (let history = audit_recent policy now
                   (case bm_get (ro_audit_log R) (ar_requester q) of None \<Rightarrow> [] | Some h \<Rightarrow> h);
                 write = (\<lambda>h. R\<lparr>ro_audit_log := bm_insert (ar_requester q) h (ro_audit_log R)\<rparr>)
             in if (of_nat (length history) :: u32) \<ge> max_requests_per_window policy
                then (write history,
                      Inl (AuditRateLimited (short (ar_requester q)) (max_requests_per_window policy)))
                else (write (history @ [now]),
                      Inr (as_create C responder q (for_peer R (ar_subject q)) now))))"

section \<open>Messages\<close>

definition max_advertisements_per_response :: nat where
  "max_advertisements_per_response = 256"

datatype ledger_wire_error =
    LwMalformed decode_error
  | LwInvalidKey
  | LwBadSignature

abbreviation lr :: "(decode_error, 'a) reader \<Rightarrow> (ledger_wire_error, 'a) reader" where
  "lr \<equiv> rmap_err LwMalformed"

definition lw_unknown :: "string \<Rightarrow> u8 \<Rightarrow> ledger_wire_error" where
  "lw_unknown type_name discriminant = LwMalformed (UnknownVariant type_name discriminant)"

definition lw_get_identity :: "crypto \<Rightarrow> (ledger_wire_error, b32) reader" where
  "lw_get_identity C = dec_key C LwMalformed LwInvalidKey"

definition put_advertisement :: "advertisement \<Rightarrow> bytes" where
  "put_advertisement a =
     put_fixed32 (ca_network a) @ put_fixed32 (ca_node a) @ put_u64 (storage_offered a)
       @ put_u64 (up_bytes_per_sec (ca_bandwidth a)) @ put_u64 (down_bytes_per_sec (ca_bandwidth a))
       @ put_option (\<lambda>w. put_u32 (ucast (start_minute w)) @ put_u32 (ucast (end_minute w)))
           (active_window (ca_bandwidth a))
       @ put_bool (relay_bootstrap_willing a) @ put_bool (relay_media_willing a)
       @ put_u8 (case ca_compute a of Minimal \<Rightarrow> 0 | Modest \<Rightarrow> 1 | Substantial \<Rightarrow> 2)
       @ put_i64 (ca_issued_at a) @ put_fixed64 (ca_signature a)"

definition minute :: "(ledger_wire_error, u16) reader" where
  "minute = rbind (lr dec_u32) (\<lambda>v.
     if v \<ge> 1440 then rfail (LwMalformed (ImplausibleLength (unat v) 1440)) else rret (ucast v))"

definition get_window :: "(ledger_wire_error, time_of_day_window) reader" where
  "get_window = rbind minute (\<lambda>s. rbind minute (\<lambda>e. rret \<lparr>start_minute = s, end_minute = e\<rparr>))"

definition get_class :: "(ledger_wire_error, compute_class) reader" where
  "get_class = rbind (lr dec_u8) (\<lambda>t.
     if t = 0 then rret Minimal else if t = 1 then rret Modest else if t = 2 then rret Substantial
     else rfail (lw_unknown ''ComputeClass'' t))"

definition get_advertisement :: "crypto \<Rightarrow> (ledger_wire_error, advertisement) reader" where
  "get_advertisement C =
     rbind (lr dec_fixed32) (\<lambda>network.
     rbind (lw_get_identity C) (\<lambda>node.
     rbind (lr dec_u64) (\<lambda>storage.
     rbind (lr dec_u64) (\<lambda>up.
     rbind (lr dec_u64) (\<lambda>down.
     rbind (dec_option LwMalformed get_window) (\<lambda>window.
     rbind (lr dec_bool) (\<lambda>bootstrap.
     rbind (lr dec_bool) (\<lambda>media.
     rbind get_class (\<lambda>cls.
     rbind (lr dec_i64) (\<lambda>issued_at.
     rbind (lr dec_fixed64) (\<lambda>signature.
       rret \<lparr>ca_network = network, ca_node = node, storage_offered = storage,
             ca_bandwidth = \<lparr>up_bytes_per_sec = up, down_bytes_per_sec = down, active_window = window\<rparr>,
             relay_bootstrap_willing = bootstrap, relay_media_willing = media,
             ca_compute = cls, ca_issued_at = issued_at, ca_signature = signature\<rparr>)))))))))))"

definition advertisement_wire_domain :: string where
  "advertisement_wire_domain = ''intranet.wire.advertisement.v1''"

definition encode_advertisement :: "advertisement \<Rightarrow> bytes" where
  "encode_advertisement a = enc_domain advertisement_wire_domain @ put_advertisement a"

definition decode_advertisement :: "crypto \<Rightarrow> bytes \<Rightarrow> ledger_wire_error + advertisement" where
  "decode_advertisement C b =
     decode_verified LwMalformed advertisement_wire_domain (get_advertisement C)
       (\<lambda>a. case ad_verify C a of Inl _ \<Rightarrow> Inl LwBadSignature | Inr u \<Rightarrow> Inr u) b"

datatype ledger_request = LedgerDigest | LedgerFetch "b32 list"

datatype ledger_response = DigestEntries "(b32 \<times> i64) list" | Advertisements "advertisement list" bool

definition ledger_request_domain :: string where
  "ledger_request_domain = ''intranet.wire.ledger-request.v1''"

definition ledger_response_domain :: string where
  "ledger_response_domain = ''intranet.wire.ledger-response.v1''"

fun put_ledger_request :: "ledger_request \<Rightarrow> bytes" where
  "put_ledger_request LedgerDigest = put_variant 0"
| "put_ledger_request (LedgerFetch nodes) = put_variant 1 @ put_seq put_fixed32 nodes"

definition encode_ledger_request :: "ledger_request \<Rightarrow> bytes" where
  "encode_ledger_request m = enc_domain ledger_request_domain @ put_ledger_request m"

definition get_ledger_request :: "crypto \<Rightarrow> (ledger_wire_error, ledger_request) reader" where
  "get_ledger_request C =
     rbind (lr dec_variant) (\<lambda>v.
       if v = 0 then rret LedgerDigest
       else if v = 1 then
         rbind (dec_seq LwMalformed (lw_get_identity C)) (\<lambda>nodes. rret (LedgerFetch nodes))
       else rfail (lw_unknown ''LedgerRequest'' v))"

definition decode_ledger_request :: "crypto \<Rightarrow> bytes \<Rightarrow> ledger_wire_error + ledger_request" where
  "decode_ledger_request C b = decode_whole LwMalformed ledger_request_domain (get_ledger_request C) b"

definition put_digest_entry :: "b32 \<times> i64 \<Rightarrow> bytes" where
  "put_digest_entry p = put_fixed32 (fst p) @ put_i64 (snd p)"

definition get_digest_entry :: "crypto \<Rightarrow> (ledger_wire_error, b32 \<times> i64) reader" where
  "get_digest_entry C =
     rbind (lw_get_identity C) (\<lambda>node. rbind (lr dec_i64) (\<lambda>issued_at. rret (node, issued_at)))"

fun put_ledger_response :: "ledger_response \<Rightarrow> bytes" where
  "put_ledger_response (DigestEntries entries) = put_variant 0 @ put_seq put_digest_entry entries"
| "put_ledger_response (Advertisements advertisements truncated) =
     put_variant 1 @ put_seq (\<lambda>a. put_bytes (encode_advertisement a)) advertisements @ put_bool truncated"

definition encode_ledger_response :: "ledger_response \<Rightarrow> bytes" where
  "encode_ledger_response m = enc_domain ledger_response_domain @ put_ledger_response m"

definition get_ledger_response :: "crypto \<Rightarrow> (ledger_wire_error, ledger_response) reader" where
  "get_ledger_response C =
     rbind (lr dec_variant) (\<lambda>v.
       if v = 0 then
         rbind (dec_seq LwMalformed (get_digest_entry C)) (\<lambda>entries. rret (DigestEntries entries))
       else if v = 1 then
         rbind (dec_seq LwMalformed (lr dec_bytes)) (\<lambda>raw.
         rbind (rlift (decode_each (decode_advertisement C) raw)) (\<lambda>ads.
         rbind (lr dec_bool) (\<lambda>truncated. rret (Advertisements ads truncated))))
       else rfail (lw_unknown ''LedgerResponse'' v))"

definition decode_ledger_response :: "crypto \<Rightarrow> bytes \<Rightarrow> ledger_wire_error + ledger_response" where
  "decode_ledger_response C b =
     decode_whole LwMalformed ledger_response_domain (get_ledger_response C) b"

section \<open>Gossip between two nodes\<close>

text \<open>
  The handlers of node.rs for the messages above: a request is answered from the cache, a digest is
  answered with a fetch of what is missing or stale, and the advertisements of a response are
  inserted one by one against one replayed state, the refused ones counted.
\<close>

fun serve_ledger_request :: "capability_ledger \<Rightarrow> ledger_request \<Rightarrow> ledger_response" where
  "serve_ledger_request L LedgerDigest = DigestEntries (ledger_digest L)"
| "serve_ledger_request L (LedgerFetch nodes) =
     (let (advertisements, truncated) = ledger_fetch L nodes max_advertisements_per_response
      in Advertisements advertisements truncated)"

definition absorb_one ::
  "crypto \<Rightarrow> governance_state \<Rightarrow> advertisement \<Rightarrow> capability_ledger \<times> nat \<times> nat
     \<Rightarrow> capability_ledger \<times> nat \<times> nat" where
  "absorb_one C st a s =
     (case s of (L, accepted, rejected) \<Rightarrow>
        (case ledger_insert C L a st of
           Inr L' \<Rightarrow> (L', accepted + 1, rejected)
         | Inl _ \<Rightarrow> (L, accepted, rejected + 1)))"

definition absorb_advertisements ::
  "crypto \<Rightarrow> capability_ledger \<Rightarrow> governance_state option \<Rightarrow> advertisement list
     \<Rightarrow> capability_ledger \<times> nat \<times> nat" where
  "absorb_advertisements C L st ads =
     (case st of
        Some st \<Rightarrow> fold (absorb_one C st) ads (L, 0, 0)
      | None \<Rightarrow> (L, 0, length ads))"

section \<open>The cache: what an insertion does\<close>

lemma ad_verify_Inr:
  "ad_verify C a = Inr u \<longleftrightarrow> key_valid C (ca_node a) \<and> ed_verify C (ca_node a) (payload_of_ad a) (ca_signature a)"
  by (auto simp: ad_verify_def vk_verify_def)

lemma ad_create_verifies:
  "sign_correct C \<Longrightarrow> ad_verify C (ad_create C n s b x y c t) = Inr ()"
  by (simp add: ad_verify_Inr ad_create_def payload_of_ad_def pni_sign_def pni_id_def sign_correct_def)

text \<open>An advertisement a ledger accepts under a governance state.\<close>

definition ad_acceptable :: "crypto \<Rightarrow> b32 \<Rightarrow> governance_state \<Rightarrow> advertisement \<Rightarrow> bool" where
  "ad_acceptable C network st a \<longleftrightarrow>
     ad_verify C a = Inr () \<and> ca_network a = network \<and> is_member st (ca_node a)"

definition held_since :: "capability_ledger \<Rightarrow> advertisement \<Rightarrow> bool" where
  "held_since L a \<longleftrightarrow>
     (\<exists>b. bm_get (cl_entries L) (ca_node a) = Some b \<and> sint (ca_issued_at a) \<le> sint (ca_issued_at b))"

lemma ledger_insert_Inr:
  "ledger_insert C L a st = Inr L' \<longleftrightarrow>
     ad_acceptable C (cl_network L) st a \<and>
     L' = (if held_since L a then L else L\<lparr>cl_entries := bm_insert (ca_node a) a (cl_entries L)\<rparr>)"
  by (auto simp: ledger_insert_def res_bind_Inr_iff ad_acceptable_def held_since_def Let_def
      split: option.splits if_splits)

definition ledger_wf :: "crypto \<Rightarrow> capability_ledger \<Rightarrow> bool" where
  "ledger_wf C L \<longleftrightarrow> bm_ok (cl_entries L) \<and>
     (\<forall>node a. bm_get (cl_entries L) node = Some a \<longrightarrow>
        ca_node a = node \<and> ca_network a = cl_network L \<and> ad_verify C a = Inr ())"

inductive ledger_step :: "crypto \<Rightarrow> capability_ledger \<Rightarrow> capability_ledger \<Rightarrow> bool" for C where
  step_insert: "ledger_insert C L a st = Inr L' \<Longrightarrow> ledger_step C L L'"
| step_remove: "ledger_step C L (fst (ledger_remove L node))"
| step_expire: "ledger_step C L (fst (ledger_expire L now ttl))"
| step_reconcile: "ledger_step C L (fst (ledger_reconcile L st))"

lemma map_of_filter_sub: "bm_ok m \<Longrightarrow> bm_get (filter P m) k = Some v \<Longrightarrow> bm_get m k = Some v \<and> P (k, v)"
  using bm_ok_map_of [of m] bm_ok_map_of [of "filter P m"] by simp

lemma map_of_filter_iff: "bm_ok m \<Longrightarrow> bm_get (filter P m) k = Some v \<longleftrightarrow> bm_get m k = Some v \<and> P (k, v)"
  using bm_ok_map_of [of m] bm_ok_map_of [of "filter P m"] by auto

lemma ledger_step_wf:
  "ledger_step C L L' \<Longrightarrow> ledger_wf C L \<Longrightarrow> ledger_wf C L' \<and> cl_network L' = cl_network L"
proof (induction rule: ledger_step.induct)
  case (step_insert L a st L')
  then show ?case
    by (auto simp: ledger_insert_Inr ledger_wf_def ad_acceptable_def)
qed (auto simp: ledger_remove_def ledger_expire_def ledger_reconcile_def Let_def ledger_wf_def
    map_of_filter_iff split: if_splits)

lemma ledger_steps_wf:
  "(ledger_step C)\<^sup>*\<^sup>* L L' \<Longrightarrow> ledger_wf C L \<Longrightarrow> ledger_wf C L' \<and> cl_network L' = cl_network L"
  by (induction rule: rtranclp_induct) (auto dest: ledger_step_wf)

lemma ledger_new_wf [simp]: "ledger_wf C (ledger_new n)" "cl_network (ledger_new n) = n"
  by (simp_all add: ledger_wf_def ledger_new_def)

lemma sint_inj: "sint a = sint b \<longleftrightarrow> a = b" for a b :: "'a::len word"
  by (metis signed_word_eqI)

section \<open>What a batch of advertisements leaves\<close>

lemma absorb_one_fst:
  "fst (absorb_one C st a s) =
     (if ad_acceptable C (cl_network (fst s)) st a \<and> \<not> held_since (fst s) a
      then (fst s)\<lparr>cl_entries := bm_insert (ca_node a) a (cl_entries (fst s))\<rparr> else fst s)"
proof (cases "ledger_insert C (fst s) a st")
  case (Inl e)
  then have "\<not> ad_acceptable C (cl_network (fst s)) st a"
    using ledger_insert_Inr [of C "fst s" a st] by auto
  then show ?thesis
    using Inl by (cases s) (simp add: absorb_one_def)
next
  case (Inr L')
  then show ?thesis
    using ledger_insert_Inr [of C "fst s" a st L'] by (cases s) (auto simp: absorb_one_def)
qed

text \<open>
  The specification of a batch: every node keeps an advertisement that is at least as recent as
  every acceptable one of the batch and was either held before or comes from the batch.
\<close>

definition absorbed ::
  "crypto \<Rightarrow> governance_state \<Rightarrow> capability_ledger \<Rightarrow> advertisement set \<Rightarrow> capability_ledger \<Rightarrow> bool" where
  "absorbed C st L A L' \<longleftrightarrow>
     cl_network L' = cl_network L \<and> ledger_wf C L' \<and>
     (\<forall>node a. bm_get (cl_entries L') node = Some a \<longrightarrow>
        bm_get (cl_entries L) node = Some a \<or>
        a \<in> A \<and> ad_acceptable C (cl_network L) st a \<and> ca_node a = node) \<and>
     (\<forall>a\<in>A. ad_acceptable C (cl_network L) st a \<longrightarrow> held_since L' a) \<and>
     (\<forall>node a. bm_get (cl_entries L) node = Some a \<longrightarrow> held_since L' a)"

lemma absorbed_step:
  assumes "absorbed C st L A (fst s)"
  shows "absorbed C st L (insert a A) (fst (absorb_one C st a s))"
proof -
  have net: "cl_network (fst s) = cl_network L" and wf: "ledger_wf C (fst s)"
    using assms by (simp_all add: absorbed_def)
  show ?thesis
  proof (cases "ad_acceptable C (cl_network L) st a \<and> \<not> held_since (fst s) a")
    case True
    then have "fst (absorb_one C st a s) = (fst s)\<lparr>cl_entries := bm_insert (ca_node a) a (cl_entries (fst s))\<rparr>"
      (is "_ = ?L'")
      using net by (simp add: absorb_one_fst)
    moreover have "ledger_step C (fst s) ?L'"
      using True net by (intro step_insert [of C _ a st]) (simp add: ledger_insert_Inr)
    then have "ledger_wf C ?L'"
      using ledger_step_wf wf by blast
    moreover have "held_since ?L' b" if "held_since (fst s) b" for b
      using that True by (fastforce simp: held_since_def)
    ultimately show ?thesis
      using assms True by (auto simp: absorbed_def net) (auto simp: held_since_def)
  next
    case False
    then show ?thesis
      using assms net by (auto simp: absorbed_def absorb_one_fst)
  qed
qed

lemma absorbed_fold:
  "absorbed C st L A (fst s) \<Longrightarrow> absorbed C st L (set as \<union> A) (fst (fold (absorb_one C st) as s))"
proof (induction as arbitrary: A s)
  case (Cons a as)
  then show ?case
    using absorbed_step [OF Cons.prems, of a] by fastforce
qed simp

lemma absorbed_start:
  assumes "ledger_wf C L"
  shows "absorbed C st L {} L"
proof -
  have "held_since L a" if "bm_get (cl_entries L) node = Some a" for node a
    using that assms by (auto simp: ledger_wf_def held_since_def)
  then show ?thesis
    using assms by (auto simp: absorbed_def)
qed

lemma absorb_absorbed:
  "ledger_wf C L \<Longrightarrow> absorbed C st L (set as) (fst (absorb_advertisements C L (Some st) as))"
  using absorbed_fold [OF absorbed_start, of C "(L, 0, 0)" st as]
  by (simp add: absorb_advertisements_def absorbed_start)

text \<open>No two different advertisements are of one node and carry one timestamp.\<close>

definition unequivocal :: "advertisement set \<Rightarrow> bool" where
  "unequivocal A \<longleftrightarrow>
     (\<forall>a\<in>A. \<forall>b\<in>A. ca_node a = ca_node b \<and> ca_issued_at a = ca_issued_at b \<longrightarrow> a = b)"

definition held_ads :: "capability_ledger \<Rightarrow> advertisement set" where
  "held_ads L = snd ` set (cl_entries L)"

lemma absorbed_acceptable:
  "absorbed C st L {a \<in> A. ad_acceptable C (cl_network L) st a} X \<longleftrightarrow> absorbed C st L A X"
  by (auto simp: absorbed_def)

lemma absorbed_unique:
  assumes "absorbed C st L A X" and "absorbed C st L A Y" and "unequivocal (held_ads L \<union> {a \<in> A. ad_acceptable C (cl_network L) st a})"
  shows "X = Y"
proof -
  let ?G = "held_ads L \<union> {a \<in> A. ad_acceptable C (cl_network L) st a}"
  have half: "bm_get (cl_entries V) node = Some a"
    if U: "absorbed C st L A U" and V: "absorbed C st L A V" and a: "bm_get (cl_entries U) node = Some a"
    for U V node a
  proof -
    have source: "b \<in> ?G \<and> held_since W b \<and> ca_node b = node"
      if W': "absorbed C st L A W'" and W: "absorbed C st L A W" and b: "bm_get (cl_entries W') node = Some b"
      for b W W'
    proof (cases "bm_get (cl_entries L) node = Some b")
      case True
      moreover have "ca_node b = node"
        using W' b by (simp add: absorbed_def ledger_wf_def)
      moreover have "held_since W b"
        using W True unfolding absorbed_def by blast
      moreover have "b \<in> held_ads L"
        using map_of_SomeD [OF True] by (force simp: held_ads_def)
      ultimately show ?thesis
        by blast
    next
      case False
      then have "b \<in> A" "ad_acceptable C (cl_network L) st b" "ca_node b = node"
        using W' b unfolding absorbed_def by blast+
      then show ?thesis
        using W unfolding absorbed_def by blast
    qed
    obtain b where b: "bm_get (cl_entries V) node = Some b" "sint (ca_issued_at a) \<le> sint (ca_issued_at b)"
      using source [OF U V a] by (auto simp: held_since_def)
    have "sint (ca_issued_at b) \<le> sint (ca_issued_at a)"
      using source [OF V U b(1)] a by (auto simp: held_since_def)
    then have "ca_issued_at a = ca_issued_at b"
      using b(2) sint_inj [of "ca_issued_at a" "ca_issued_at b"] by simp
    moreover have "a \<in> ?G" "b \<in> ?G" "ca_node a = ca_node b"
      using source [OF U V a] source [OF V U b(1)] by simp_all
    ultimately have "a = b"
      using assms(3) by (simp add: unequivocal_def)
    then show ?thesis
      using b(1) by simp
  qed
  have "bm_get (cl_entries X) = bm_get (cl_entries Y)"
    using half [OF assms(1,2)] half [OF assms(2,1)] by (intro ext) (metis option.exhaust)
  then have "cl_entries X = cl_entries Y"
    using assms(1,2) by (intro bm_ext) (auto simp: absorbed_def ledger_wf_def)
  moreover have "cl_network X = cl_network Y"
    using assms(1,2) by (simp add: absorbed_def)
  ultimately show ?thesis
    by simp
qed

section \<open>Placement\<close>

lemma score_exact: "unat (score C key node weight) = unat (hrw_draw C key node) * unat weight"
proof -
  have "unat (hrw_draw C key node) * unat weight < 2 ^ 64 * 2 ^ 64"
    using unat_bound [of "hrw_draw C key node"] unat_bound [of weight] by (intro mult_strict_mono) auto
  then have "unat (hrw_draw C key node) * unat weight < 2 ^ 128"
    by simp
  moreover have up: "unat (ucast w :: 128 word) = unat w" for w :: u64
    using unat_bound [of w] by (simp add: unsigned_ucast_eq take_bit_nat_eq_self)
  ultimately show ?thesis
    by (simp add: score_def unat_word_ariths up)
qed

definition candidate_nodes :: "weight_field \<Rightarrow> advertisement list \<Rightarrow> b32 set" where
  "candidate_nodes field as = ca_node ` {a \<in> set as. weight_of field a > 0}"

lemma map_filter_scored:
  "List.map_filter (scored C key field) as =
     map (\<lambda>a. \<lparr>sc_node = ca_node a, sc_score = score C key (ca_node a) (weight_of field a)\<rparr>)
       (filter (\<lambda>a. weight_of field a > 0) as)"
  by (induction as) (simp_all add: List.map_filter_def scored_def Let_def)

lemma rank_nodes: "set (map sc_node (rank C key as field)) = candidate_nodes field as"
  by (simp add: rank_def map_filter_scored candidate_nodes_def image_image)

lemma rank_sorted: "sorted (map rank_key (rank C key as field))"
  by (simp add: rank_def)

lemma rank_distinct:
  assumes "distinct (map ca_node as)"
  shows "distinct (map sc_node (rank C key as field))"
proof -
  have "mset (map sc_node (rank C key as field)) =
      mset (map ca_node (filter (\<lambda>a. weight_of field a > 0) as))"
    by (simp add: rank_def map_filter_scored image_mset.compositionality comp_def)
  then show ?thesis
    using distinct_map_filter [OF assms] by (metis mset_eq_imp_distinct_iff)
qed

lemma rank_key_inj: "distinct (map sc_node cs) \<Longrightarrow> inj_on rank_key (set cs)"
  by (auto simp: rank_key_def inj_on_def distinct_map)

lemma rank_order_irrelevant:
  assumes "distinct (map ca_node as)" and "mset as = mset bs"
  shows "rank C key as field = rank C key bs field"
  unfolding rank_def
proof (rule sort_key_inj_key_eq)
  let ?m = "List.map_filter (scored C key field)"
  show "mset (?m as) = mset (sort_key rank_key (?m bs))"
    using assms(2) by (simp add: map_filter_scored)
  have "distinct (map sc_node (?m as))"
    using rank_distinct [OF assms(1), of C key field]
    unfolding rank_def by (simp add: distinct_map)
  then show "inj_on rank_key (set (?m as))"
    by (rule rank_key_inj)
qed simp

lemma rank_filter:
  "rank C key (filter (\<lambda>a. P (ca_node a)) as) field = filter (\<lambda>c. P (sc_node c)) (rank C key as field)"
proof -
  have "List.map_filter (scored C key field) (filter (\<lambda>a. P (ca_node a)) as) =
      filter (\<lambda>c. P (sc_node c)) (List.map_filter (scored C key field) as)"
    by (simp add: map_filter_scored filter_map comp_def conj_commute)
  then show ?thesis
    by (simp add: rank_def filter_sort)
qed

lemma take_remove_one:
  assumes "distinct xs"
  shows "take n (filter (\<lambda>y. y \<noteq> x) xs) = take n (removeAll x (take (Suc n) xs))"
proof (cases "length xs \<le> Suc n")
  case True
  then show ?thesis
    by (simp add: removeAll_filter_not_eq conj_commute eq_commute [of x])
next
  case False
  let ?a = "take (Suc n) xs"
  have "length (removeAll x ?a) \<ge> n"
    using False assms distinct_remove1_removeAll [of ?a x] length_remove1 [of x ?a]
    by (simp add: min_def split: if_splits)
  moreover have "filter (\<lambda>y. y \<noteq> x) xs = removeAll x ?a @ removeAll x (drop (Suc n) xs)"
    using filter_append [of "\<lambda>y. y \<noteq> x" ?a "drop (Suc n) xs"]
    by (simp add: removeAll_filter_not_eq eq_commute [of x])
  ultimately show ?thesis
    by simp
qed

lemma select_without:
  assumes "distinct (map ca_node as)"
  shows "select C key (filter (\<lambda>a. ca_node a \<noteq> x) as) field n =
    take n (removeAll x (select C key as field (Suc n)))"
proof -
  have "select C key (filter (\<lambda>a. ca_node a \<noteq> x) as) field n =
      take n (filter (\<lambda>y. y \<noteq> x) (map sc_node (rank C key as field)))"
    using rank_filter [of C key "\<lambda>y. y \<noteq> x" as field]
    by (simp add: select_def take_map filter_map comp_def)
  then show ?thesis
    by (simp add: take_remove_one [OF rank_distinct [OF assms]] select_def take_map)
qed

lemma ledger_nodes_distinct:
  assumes "ledger_wf C L"
  shows "distinct (map ca_node (bm_values (cl_entries L)))"
proof -
  have "map ca_node (bm_values (cl_entries L)) = map fst (cl_entries L)"
    using assms by (auto simp: bm_values_def ledger_wf_def bm_ok_map_of)
  then show ?thesis
    using assms by (simp add: ledger_wf_def bm_ok_distinct)
qed

lemma storage_candidates_distinct:
  "ledger_wf C L \<Longrightarrow> distinct (map ca_node (storage_candidates L))"
  unfolding storage_candidates_def by (rule distinct_map_filter) (rule ledger_nodes_distinct)

lemma storage_candidates_remove:
  assumes "ledger_wf C L"
  shows "storage_candidates (fst (ledger_remove L node)) =
    filter (\<lambda>a. ca_node a \<noteq> node) (storage_candidates L)"
proof -
  have "map snd (filter (\<lambda>p. fst p \<noteq> node) (cl_entries L)) =
      filter (\<lambda>a. ca_node a \<noteq> node) (map snd (cl_entries L))"
    using assms
    by (auto simp: filter_map comp_def ledger_wf_def bm_ok_map_of intro!: arg_cong [of _ _ "map snd"] filter_cong)
  then show ?thesis
    by (simp add: storage_candidates_def ledger_remove_def bm_remove_def bm_values_def conj_commute)
qed

section \<open>Audits\<close>

lemma ar_verify_Inr:
  "ar_verify C q = Inr u \<longleftrightarrow> key_valid C (ar_requester q) \<and>
     ed_verify C (ar_requester q) (ar_payload (ar_requester q) (ar_subject q) (ar_issued_at q)) (ar_signature q)"
  by (auto simp: ar_verify_def vk_verify_def)

text \<open>What the responder still counts of an earlier audit.\<close>

definition audit_is_recent :: "audit_rate_limit \<Rightarrow> i64 \<Rightarrow> i64 \<Rightarrow> bool" where
  "audit_is_recent policy now at \<longleftrightarrow> sint (millis_since now at) \<le> sint (audit_window_millis policy)"

definition audit_history :: "observations \<Rightarrow> b32 \<Rightarrow> i64 list" where
  "audit_history R r = (case bm_get (ro_audit_log R) r of None \<Rightarrow> [] | Some h \<Rightarrow> h)"

text \<open>A clock reading after the Unix epoch.\<close>

definition after_epoch :: "i64 \<Rightarrow> bool" where
  "after_epoch t \<longleftrightarrow> 0 \<le> sint t"

lemma sint_nonneg_uint: "0 \<le> sint t \<Longrightarrow> sint t = uint t" for t :: i64
  using sint_lt [of t] by (simp add: uint_sint take_bit_int_eq_self)

lemma after_epoch_since:
  assumes "after_epoch t" and "after_epoch at"
  shows "sint (millis_since t at) = sint t - sint at"
  using assms sint_lt [of t] sint_lt [of at]
  by (intro millis_since_exact) (auto simp: after_epoch_def i64_min_def i64_max_def)

interpretation audit: sliding_window "audit_is_recent policy" after_epoch for policy
proof
  fix at t u :: i64
  assume ok: "after_epoch at" "after_epoch t" "after_epoch u" and "t \<le> u"
    and recent: "audit_is_recent policy u at"
  have "sint t \<le> sint u"
    using ok \<open>t \<le> u\<close> by (simp add: sint_nonneg_uint after_epoch_def word_le_def)
  then show "audit_is_recent policy t at"
    using recent ok by (simp add: audit_is_recent_def after_epoch_since)
qed

lemma audit_recent_filter: "audit_recent policy now h = filter (audit_is_recent policy now) h"
  by (simp add: audit_recent_def audit_is_recent_def [abs_def])

lemma respond_to_audit_unfold:
  assumes "ar_verify C q = Inr ()" and "identity_holds st (ar_requester q) AuditReputation"
    and "length (audit_history R (ar_requester q)) \<le> unat (max_requests_per_window policy)"
    and "window_admit (audit_is_recent policy) (unat (max_requests_per_window policy)) now
      (audit_history R (ar_requester q)) = (h, ok)"
  shows "respond_to_audit C R q responder st now policy =
    (R\<lparr>ro_audit_log := bm_insert (ar_requester q) h (ro_audit_log R)\<rparr>,
     if ok then Inr (as_create C responder q (for_peer R (ar_subject q)) now)
     else Inl (AuditRateLimited (short (ar_requester q)) (max_requests_per_window policy)))"
proof -
  let ?kept = "filter (audit_is_recent policy now) (audit_history R (ar_requester q))"
  have "length ?kept \<le> unat (max_requests_per_window policy)"
    using le_trans [OF length_filter_le assms(3)] .
  then have "unat (of_nat (length ?kept) :: u32) = length ?kept"
    using unat_bound [of "max_requests_per_window policy"] by (simp add: unat_of_nat)
  then have "(max_requests_per_window policy \<le> of_nat (length ?kept)) \<longleftrightarrow>
      unat (max_requests_per_window policy) \<le> length ?kept"
    by (simp add: word_le_nat_alt)
  then show ?thesis
    using assms(1,2,4)
    by (auto simp: respond_to_audit_def audit_recent_filter audit_history_def window_admit_def Let_def
        split: if_splits)
qed

text \<open>A session: requests arriving over time, and the audits that were answered.\<close>

type_synonym audit_event = "audit_request \<times> governance_state \<times> i64"

fun audit_step ::
  "crypto \<Rightarrow> per_network_identity \<Rightarrow> audit_rate_limit \<Rightarrow> audit_event \<Rightarrow> observations \<times> (b32 \<times> i64) list
     \<Rightarrow> observations \<times> (b32 \<times> i64) list" where
  "audit_step C responder policy (q, st, now) (R, answered) =
     (case respond_to_audit C R q responder st now policy of
        (R', Inl _) \<Rightarrow> (R', answered)
      | (R', Inr _) \<Rightarrow> (R', answered @ [(ar_requester q, now)]))"

definition audit_session ::
  "crypto \<Rightarrow> per_network_identity \<Rightarrow> audit_rate_limit \<Rightarrow> audit_event list
     \<Rightarrow> observations \<times> (b32 \<times> i64) list" where
  "audit_session C responder policy events =
     fold (audit_step C responder policy) events (observations_new, [])"

definition answers_to :: "b32 \<Rightarrow> (b32 \<times> i64) list \<Rightarrow> i64 list" where
  "answers_to r answered = map snd (filter (\<lambda>p. fst p = r) answered)"

lemma answers_to_append [simp]:
  "answers_to r (xs @ [(q, t)]) = (if q = r then answers_to r xs @ [t] else answers_to r xs)"
  by (simp add: answers_to_def)

lemma audit_history_write [simp]:
  "audit_history (R\<lparr>ro_audit_log := bm_insert q h (ro_audit_log R)\<rparr>) r = (if r = q then h else audit_history R r)"
  by (simp add: audit_history_def)

definition audit_inv :: "audit_rate_limit \<Rightarrow> i64 \<Rightarrow> observations \<times> (b32 \<times> i64) list \<Rightarrow> bool" where
  "audit_inv policy latest s \<longleftrightarrow>
     (\<forall>r. audit.tracks policy latest (audit_history (fst s) r) (answers_to r (snd s))
        \<and> length (audit_history (fst s) r) \<le> unat (max_requests_per_window policy))"

lemma audit_inv_later:
  "audit_inv policy latest s \<Longrightarrow> latest \<le> now \<Longrightarrow> audit_inv policy now s"
  unfolding audit_inv_def audit.tracks_def by (meson order_trans)

lemma audit_inv_step:
  assumes inv: "audit_inv policy now s" and "after_epoch now"
  shows "audit_inv policy now (audit_step C responder policy (q, st, now) s)"
proof -
  obtain R answered where s: "s = (R, answered)"
    by (cases s)
  let ?r = "ar_requester q"
  show ?thesis
  proof (cases "ar_verify C q = Inr () \<and> identity_holds st ?r AuditReputation")
    case False
    then show ?thesis
      using inv s by (auto simp: respond_to_audit_def split: sum.splits)
  next
    case True
    obtain h ok where adm: "window_admit (audit_is_recent policy)
        (unat (max_requests_per_window policy)) now (audit_history R ?r) = (h, ok)"
      by (cases "window_admit (audit_is_recent policy)
          (unat (max_requests_per_window policy)) now (audit_history R ?r)")
    have cur: "audit.tracks policy now (audit_history R ?r) (answers_to ?r answered)"
      "length (audit_history R ?r) \<le> unat (max_requests_per_window policy)"
      using inv s by (simp_all add: audit_inv_def)
    have "audit.tracks policy now h (if ok then answers_to ?r answered @ [now] else answers_to ?r answered)"
      "length h \<le> unat (max_requests_per_window policy)"
      using audit.tracks_step [OF cur(1) _ assms(2) adm] audit.admit_length [OF cur(2) adm] by simp_all
    then show ?thesis
      using inv s respond_to_audit_unfold [OF _ _ cur(2) adm] True
      by (auto simp: audit_inv_def)
  qed
qed

lemma audit_session_inv:
  assumes "sorted (map (\<lambda>e. snd (snd e)) events)" and "\<forall>e\<in>set events. after_epoch (snd (snd e))"
    and "\<forall>e\<in>set events. snd (snd e) \<le> latest"
  shows "audit_inv policy latest (audit_session C responder policy events)"
  using assms
proof (induction events arbitrary: latest rule: rev_induct)
  case Nil
  then show ?case
    by (simp add: audit_session_def audit_inv_def observations_new_def audit_history_def answers_to_def
        audit.tracks_Nil)
next
  case (snoc e events)
  obtain q st now where e: "e = (q, st, now)"
    by (cases e)
  have "audit_inv policy now (audit_session C responder policy events)"
    using snoc.prems e by (intro snoc.IH) (auto simp: sorted_append)
  then have "audit_inv policy now (audit_session C responder policy (events @ [e]))"
    using audit_inv_step snoc.prems(2) e by (simp add: audit_session_def)
  then show ?case
    by (rule audit_inv_later) (use snoc.prems(3) e in simp)
qed

section \<open>Messages read back\<close>

interpretation lident: exact_codec "key_valid C" put_fixed32 "lw_get_identity C" for C
  unfolding lw_get_identity_def by (rule exact_key)

interpretation minute: exact_codec "\<lambda>m. m < 1440" "\<lambda>m. put_u32 (ucast (m :: u16))" minute
proof
  fix x :: u16 and r
  have up: "unat (ucast x :: u32) = unat x"
    using unat_bound [of x] by (simp add: unsigned_ucast_eq take_bit_nat_eq_self)
  have down: "ucast (ucast x :: u32) = x"
    by (simp add: ucast_up_ucast_id is_up)
  assume "x < 1440"
  then show "minute (put_u32 (ucast x) @ r) = Inr (x, r)"
    using up down by (simp add: minute_def reader_simps word_le_nat_alt word_less_nat_alt)
  show "put_u32 (ucast x) \<noteq> []"
    by (simp add: u32.put_nonempty)
next
  fix b x r
  assume "minute b = Inr (x, r)"
  then obtain v where v: "b = put_u32 v @ r" "v < 1440" "x = ucast v"
    by (auto simp: minute_def rbind_eq_Inr dest!: u32.get_exact split: if_splits)
  have low: "unat (ucast v :: u16) = unat v"
    using v(2) by (simp add: unsigned_ucast_eq take_bit_nat_eq_self word_less_nat_alt)
  have "unat (ucast w :: u32) = unat w" for w :: u16
    using unat_bound [of w] by (simp add: unsigned_ucast_eq take_bit_nat_eq_self)
  from this [of x] low have "ucast x = v"
    by (simp only: v(3) word_unat_eq_iff)
  then show "x < 1440 \<and> b = put_u32 (ucast x) @ r"
    using v low by (simp add: word_less_nat_alt)
qed

definition window_ok :: "time_of_day_window \<Rightarrow> bool" where
  "window_ok w \<longleftrightarrow> start_minute w < 1440 \<and> end_minute w < 1440"

interpretation window: exact_codec window_ok put_window get_window
proof
  fix x r
  assume "window_ok x"
  then show "get_window (put_window x @ r) = Inr (x, r)"
    by (simp add: window_ok_def get_window_def put_window_def rbind_def minute.get_put)
  show "put_window x \<noteq> []"
    by (simp add: put_window_def u32.put_nonempty)
next
  fix b x r
  assume "get_window b = Inr (x, r)"
  then show "window_ok x \<and> b = put_window x @ r"
    by (auto simp: window_ok_def get_window_def put_window_def rbind_eq_Inr dest!: minute.get_exact)
qed

interpretation windows: exact_codec "opt_ok window_ok" "put_option put_window" "dec_option LwMalformed get_window"
  by (intro exact_option window.exact_codec_axioms)

interpretation cls: exact_codec "\<lambda>_. True" "\<lambda>c. put_u8 (class_discriminant c)" get_class
proof
  fix x r
  show "get_class (put_u8 (class_discriminant x) @ r) = Inr (x, r)"
    by (cases x) (simp_all add: get_class_def reader_simps)
  show "put_u8 (class_discriminant x) \<noteq> []"
    by (simp add: u8.put_nonempty)
next
  fix b x r
  assume "get_class b = Inr (x, r)"
  then show "True \<and> b = put_u8 (class_discriminant x) @ r"
    by (auto simp: get_class_def rbind_eq_Inr dest!: u8.get_exact split: if_splits)
qed

definition ad_ok :: "crypto \<Rightarrow> advertisement \<Rightarrow> bool" where
  "ad_ok C a \<longleftrightarrow> key_valid C (ca_node a) \<and> opt_ok window_ok (active_window (ca_bandwidth a))"

lemma put_advertisement_fields:
  "put_advertisement a =
     put_fixed32 (ca_network a) @ put_fixed32 (ca_node a) @ put_u64 (storage_offered a)
       @ put_u64 (up_bytes_per_sec (ca_bandwidth a)) @ put_u64 (down_bytes_per_sec (ca_bandwidth a))
       @ put_option put_window (active_window (ca_bandwidth a))
       @ put_bool (relay_bootstrap_willing a) @ put_bool (relay_media_willing a)
       @ put_u8 (class_discriminant (ca_compute a)) @ put_i64 (ca_issued_at a) @ put_fixed64 (ca_signature a)"
  by (cases "ca_compute a") (simp_all add: put_advertisement_def put_window_def [abs_def])

text \<open>The bytes on the wire are the signed bytes, up to the domain tag and the signature.\<close>

lemma put_advertisement_payload:
  "enc_domain ''intranet.capability-advertisement.v1'' @ put_advertisement a =
     payload_of_ad a @ put_fixed64 (ca_signature a)"
  by (simp add: put_advertisement_fields payload_of_ad_def ad_payload_def put_bandwidth_def)

interpretation ad: exact_codec "ad_ok C" put_advertisement "get_advertisement C" for C
proof
  fix x r
  assume "ad_ok C x"
  then show "get_advertisement C (put_advertisement x @ r) = Inr (x, r)"
    by (simp add: ad_ok_def get_advertisement_def put_advertisement_fields reader_simps lident.get_put
        windows.get_put cls.get_put)
  show "put_advertisement x \<noteq> []"
    by (simp add: put_advertisement_def nonempty_simps)
next
  fix b x r
  assume "get_advertisement C b = Inr (x, r)"
  then show "ad_ok C x \<and> b = put_advertisement x @ r"
    by (auto simp: ad_ok_def get_advertisement_def put_advertisement_fields rbind_eq_Inr
        dest!: exact_dests lident.get_exact windows.get_exact cls.get_exact)
qed

lemma ledger_domains_ok:
  "str_ok advertisement_wire_domain" "str_ok ledger_request_domain" "str_ok ledger_response_domain"
  by (simp_all add: str_ok_def str_bytes_def advertisement_wire_domain_def ledger_request_domain_def
      ledger_response_domain_def)

lemma decode_advertisement_iff:
  "decode_advertisement C b = Inr a \<longleftrightarrow>
     ad_ok C a \<and> ad_verify C a = Inr () \<and> b = encode_advertisement a"
  unfolding decode_advertisement_def encode_advertisement_def
  by (auto simp: verified_iff [OF ad.exact_codec_axioms ledger_domains_ok(1)] split: sum.splits)

interpretation lidents: exact_codec "seq_ok (key_valid C)" "put_seq put_fixed32"
  "dec_seq LwMalformed (lw_get_identity C)" for C
  by (intro exact_seq lident.exact_codec_axioms)

interpretation digest: exact_codec "\<lambda>p. key_valid C (fst p)" put_digest_entry "get_digest_entry C" for C
proof
  fix x :: "b32 \<times> i64" and r
  assume "key_valid C (fst x)"
  then show "get_digest_entry C (put_digest_entry x @ r) = Inr (x, r)"
    by (simp add: get_digest_entry_def put_digest_entry_def reader_simps lident.get_put)
  show "put_digest_entry x \<noteq> []"
    by (simp add: put_digest_entry_def nonempty_simps)
next
  fix b x r
  assume "get_digest_entry C b = Inr (x, r)"
  then show "key_valid C (fst x) \<and> b = put_digest_entry x @ r"
    by (auto simp: get_digest_entry_def put_digest_entry_def rbind_eq_Inr dest!: exact_dests lident.get_exact)
qed

interpretation digests: exact_codec "seq_ok (\<lambda>p. key_valid C (fst p))" "put_seq put_digest_entry"
  "dec_seq LwMalformed (get_digest_entry C)" for C
  by (intro exact_seq digest.exact_codec_axioms)

interpretation lblobs: exact_codec "seq_ok len_ok" "put_seq put_bytes" "dec_seq LwMalformed (lr dec_bytes)"
  by (rule blobs_exact)

fun ledger_request_ok :: "crypto \<Rightarrow> ledger_request \<Rightarrow> bool" where
  "ledger_request_ok C LedgerDigest = True"
| "ledger_request_ok C (LedgerFetch nodes) = seq_ok (key_valid C) nodes"

interpretation lreq: exact_codec "ledger_request_ok C" put_ledger_request "get_ledger_request C" for C
proof
  fix x r
  assume "ledger_request_ok C x"
  then show "get_ledger_request C (put_ledger_request x @ r) = Inr (x, r)"
    by (cases x) (simp_all add: get_ledger_request_def reader_simps lidents.get_put)
  show "put_ledger_request x \<noteq> []"
    by (cases x) (simp_all add: nonempty_simps)
next
  fix b x r
  assume "get_ledger_request C b = Inr (x, r)"
  then show "ledger_request_ok C x \<and> b = put_ledger_request x @ r"
    by (auto simp: get_ledger_request_def rbind_eq_Inr dest!: variant.get_exact lidents.get_exact
        split: if_splits)
qed

definition ad_sound :: "crypto \<Rightarrow> advertisement \<Rightarrow> bool" where
  "ad_sound C a \<longleftrightarrow> ad_ok C a \<and> ad_verify C a = Inr ()"

fun ledger_response_ok :: "crypto \<Rightarrow> ledger_response \<Rightarrow> bool" where
  "ledger_response_ok C (DigestEntries entries) = seq_ok (\<lambda>p. key_valid C (fst p)) entries"
| "ledger_response_ok C (Advertisements ads truncated) =
     (list_all (ad_sound C) ads \<and> seq_ok len_ok (map encode_advertisement ads))"

lemma decode_ads_iff:
  "decode_each (decode_advertisement C) bs = Inr ads \<longleftrightarrow>
     list_all (ad_sound C) ads \<and> bs = map encode_advertisement ads"
  by (rule decode_each_exact) (simp add: decode_advertisement_iff ad_sound_def)

lemma decode_ads_encode:
  "list_all (ad_sound C) ads \<Longrightarrow>
     decode_each (decode_advertisement C) (map encode_advertisement ads) = Inr ads"
  by (simp add: decode_ads_iff)

interpretation lresp: exact_codec "ledger_response_ok C" put_ledger_response "get_ledger_response C" for C
proof
  fix x r
  assume "ledger_response_ok C x"
  then show "get_ledger_response C (put_ledger_response x @ r) = Inr (x, r)"
    by (cases x) (simp_all add: get_ledger_response_def reader_simps digests.get_put put_seq_map
        lblobs.get_put decode_ads_encode)
  show "put_ledger_response x \<noteq> []"
    by (cases x) (simp_all add: nonempty_simps)
next
  fix b x r
  assume "get_ledger_response C b = Inr (x, r)"
  then show "ledger_response_ok C x \<and> b = put_ledger_response x @ r"
    by (auto simp: get_ledger_response_def rbind_eq_Inr decode_ads_iff put_seq_map
        dest!: variant.get_exact bool.get_exact digests.get_exact lblobs.get_exact
        split: if_splits)
qed

lemma decode_ledger_response_iff:
  "decode_ledger_response C b = Inr m \<longleftrightarrow> ledger_response_ok C m \<and> b = encode_ledger_response m"
  unfolding decode_ledger_response_def encode_ledger_response_def
  by (rule whole_iff [OF lresp.exact_codec_axioms ledger_domains_ok(3)])

lemma decode_ledger_request_iff:
  "decode_ledger_request C b = Inr m \<longleftrightarrow> ledger_request_ok C m \<and> b = encode_ledger_request m"
  unfolding decode_ledger_request_def encode_ledger_request_def
  by (rule whole_iff [OF lreq.exact_codec_axioms ledger_domains_ok(2)])

end
