(* ===== verification/Contribution.thy ===== *)
theory Contribution
  imports Ledger
begin

text \<open>
  What the capability ledger guarantees: which advertisements it can hold, that gossip converges,
  how replicas are placed and how placement changes when a node leaves, and how often an
  auditor is answered.
\<close>

section \<open>Sample advertisements\<close>

definition offer :: "b32 \<Rightarrow> u64 \<Rightarrow> i64 \<Rightarrow> advertisement" where
  "offer k storage t =
     ad_create demo (who k) storage
       \<lparr>up_bytes_per_sec = 10, down_bytes_per_sec = 20,
        active_window = Some \<lparr>start_minute = 1380, end_minute = 360\<rparr>\<rparr> True False Modest t"

lemma offer_simps [simp]:
  "ca_node (offer k s t) = k" "ca_network (offer k s t) = 7" "ca_issued_at (offer k s t) = t"
  "storage_offered (offer k s t) = s" "ad_verify demo (offer k s t) = Inr ()"
  by (simp_all add: offer_def ad_create_verifies demo_sign_correct) (simp_all add: ad_create_def)

lemma sample_members: "is_member sample_state 1" "is_member sample_state 2" "is_member sample_state 3"
  by (simp_all add: sample_state_def is_member_def bm_values_def group_contains_def bm_contains_def)

lemma offer_acceptable: "k \<in> {1, 2, 3} \<Longrightarrow> ad_acceptable demo 7 sample_state (offer k s t)"
  using sample_members by (auto simp: ad_acceptable_def)

section \<open>The cache\<close>

text \<open>
  However a ledger came about, by insertions under any governance states, removals, expiry and
  reconciliation in any order, every advertisement in it is filed under its own node, is for the
  ledger's network and carries its node's valid signature.
\<close>

theorem ledger_holds_authentic:
  assumes "(ledger_step C)\<^sup>*\<^sup>* (ledger_new network) L" and "bm_get (cl_entries L) node = Some a"
  shows "ca_node a = node \<and> ca_network a = network \<and> key_valid C node
    \<and> ed_verify C node (payload_of_ad a) (ca_signature a)"
proof -
  have "ledger_wf C L" "cl_network L = network"
    using ledger_steps_wf [OF assms(1)] by simp_all
  then show ?thesis
    using assms(2) ad_verify_Inr [of C a "()"] by (simp add: ledger_wf_def)
qed

theorem ledger_holds_authentic_witness:
  "\<exists>L. (ledger_step demo)\<^sup>*\<^sup>* (ledger_new 7) L \<and> bm_get (cl_entries L) 2 = Some (offer 2 5 9)
     \<and> ed_verify demo 2 (payload_of_ad (offer 2 5 9)) (ca_signature (offer 2 5 9))"
proof -
  let ?L = "(ledger_new 7)\<lparr>cl_entries := bm_insert 2 (offer 2 5 9) []\<rparr>"
  have "ledger_step demo (ledger_new 7) ?L"
    by (rule step_insert [of _ _ "offer 2 5 9" sample_state])
      (simp add: ledger_insert_Inr offer_acceptable held_since_def ledger_new_def)
  then have r: "(ledger_step demo)\<^sup>*\<^sup>* (ledger_new 7) ?L"
    by blast
  then show ?thesis
    using ledger_holds_authentic [OF r, of 2 "offer 2 5 9"] by (intro exI [of _ ?L]) simp
qed

text \<open>
  An advertisement for the network that the key of a member signed. Who holds no member's key cannot
  make one.
\<close>

definition genuine_ad :: "crypto \<Rightarrow> b32 \<Rightarrow> governance_state \<Rightarrow> advertisement \<Rightarrow> bool" where
  "genuine_ad C network st a \<longleftrightarrow>
     key_valid C (ca_node a) \<and> ed_verify C (ca_node a) (payload_of_ad a) (ca_signature a)
     \<and> ca_network a = network \<and> is_member st (ca_node a)"

lemma genuine_acceptable: "genuine_ad C network st = ad_acceptable C network st"
  by (auto simp: genuine_ad_def ad_acceptable_def ad_verify_Inr fun_eq_iff)

text \<open>
  C25. Gossip converges: starting from the same ledger, two nodes that receive the same
  advertisements under the same governance state, in any order and any number of times, end with
  equal ledgers, and these are the ledgers they would have without the advertisements that are not
  genuine (signed by the key of a member, for this network). The condition is that no node
  issued two different genuine advertisements with one timestamp; forged and foreign ones are not
  restricted in any way, a forgery may name any node and repeat any timestamp.
\<close>

theorem gossip_converges:
  assumes "ledger_wf C L" and "set as = set bs"
    and "unequivocal (held_ads L \<union> {a \<in> set as. genuine_ad C (cl_network L) st a})"
  shows "fst (absorb_advertisements C L (Some st) as) = fst (absorb_advertisements C L (Some st) bs)
    \<and> fst (absorb_advertisements C L (Some st) (filter (genuine_ad C (cl_network L) st) as)) =
        fst (absorb_advertisements C L (Some st) as)"
proof -
  let ?result = "\<lambda>xs. fst (absorb_advertisements C L (Some st) xs)"
  have "absorbed C st L (set as) (?result as)" "absorbed C st L (set as) (?result bs)"
    "absorbed C st L (set as) (?result (filter (genuine_ad C (cl_network L) st) as))"
    using absorb_absorbed [OF assms(1), of st] assms(2) absorbed_acceptable [of C st L "set as"]
    by (metis, metis, metis genuine_acceptable set_filter)
  then show ?thesis
    using absorbed_unique [of C st L "set as"] assms(3) unfolding genuine_acceptable by blast
qed

text \<open>One of the advertisements names node 2 and its timestamp, but nobody signed it.\<close>

definition forged_offer :: advertisement where
  "forged_offer = (offer 2 99 9)\<lparr>ca_signature := 0\<rparr>"

theorem gossip_converges_witness:
  "fst (absorb_advertisements demo (ledger_new 7) (Some sample_state) [forged_offer, offer 2 5 9, offer 3 1 2]) =
   fst (absorb_advertisements demo (ledger_new 7) (Some sample_state)
     [offer 3 1 2, offer 2 5 9, offer 3 1 2, forged_offer])"
proof (rule gossip_converges [THEN conjunct1])
  have "ca_node forged_offer = 2" "ca_signature forged_offer = 0"
    by (simp_all add: forged_offer_def)
  then have "\<not> genuine_ad demo (cl_network (ledger_new 7)) sample_state forged_offer"
    by (simp add: genuine_ad_def)
  then show "unequivocal (held_ads (ledger_new 7)
      \<union> {a \<in> set [forged_offer, offer 2 5 9, offer 3 1 2]. genuine_ad demo (cl_network (ledger_new 7)) sample_state a})"
    by (auto simp: unequivocal_def held_ads_def ledger_new_def)
qed auto

text \<open>
  The condition is needed: a node that signs two advertisements with one timestamp splits its
  peers for good. Each keeps the copy it saw first, and neither asks the other for its copy.
\<close>

theorem equal_timestamps_diverge:
  "\<exists>a b L M. absorb_advertisements demo (ledger_new 7) (Some sample_state) [a, b] = (L, 2, 0)
     \<and> absorb_advertisements demo (ledger_new 7) (Some sample_state) [b, a] = (M, 2, 0)
     \<and> select_replicas demo L [] 1 \<noteq> select_replicas demo M [] 1
     \<and> wanted_from L (ledger_digest M) = [] \<and> wanted_from M (ledger_digest L) = []"
proof -
  let ?a = "offer 2 0 9" and ?b = "offer 2 6 9"
  define L where "L = (ledger_new 7)\<lparr>cl_entries := [(2, ?a)]\<rparr>"
  define M where "M = (ledger_new 7)\<lparr>cl_entries := [(2, ?b)]\<rparr>"
  have "absorb_advertisements demo (ledger_new 7) (Some sample_state) [?a, ?b] = (L, 2, 0)"
    "absorb_advertisements demo (ledger_new 7) (Some sample_state) [?b, ?a] = (M, 2, 0)"
    by (simp_all add: absorb_advertisements_def absorb_one_def ledger_insert_def ledger_new_def
        sample_members L_def M_def)
  moreover have "wanted_from L (ledger_digest M) = []" "wanted_from M (ledger_digest L) = []"
    by (simp_all add: wanted_from_def ledger_digest_def L_def M_def)
  moreover have "select_replicas demo L [] 1 \<noteq> select_replicas demo M [] 1"
    by (simp add: select_replicas_def select_def rank_def storage_candidates_def bm_values_def
        L_def M_def List.map_filter_def scored_def Let_def)
  ultimately show ?thesis
    by blast
qed

text \<open>
  One round of pulling brings a node up to date: after asking a peer for its digest, fetching
  what is missing or stale and inserting the answer, a node holds, for every node its peer knows
  and its own governance state counts as a member, an advertisement at least as recent as the
  peer's, provided the answer was not cut off. It never trades a newer advertisement for an older
  one.
\<close>

theorem pull_round_catches_up:
  assumes wf: "ledger_wf C L" "ledger_wf C P" and net: "cl_network P = cl_network L"
    and reply: "serve_ledger_request P (LedgerFetch (wanted_from L (ledger_digest P))) = Advertisements ads False"
    and L': "L' = fst (absorb_advertisements C L (Some st) ads)"
  shows "(\<forall>node a. bm_get (cl_entries P) node = Some a \<and> is_member st node \<longrightarrow> held_since L' a)
    \<and> (\<forall>node a. bm_get (cl_entries L) node = Some a \<longrightarrow> held_since L' a)"
proof -
  have ab: "absorbed C st L (set ads) L'"
    using absorb_absorbed [OF wf(1)] L' by simp
  have ads: "set ads = {a. \<exists>node. node \<in> set (wanted_from L (ledger_digest P)) \<and> bm_get (cl_entries P) node = Some a}"
    using reply by (auto simp: ledger_fetch_def Let_def set_map_filter)
  have "held_since L' a" if a: "bm_get (cl_entries P) node = Some a" and "is_member st node" for node a
  proof (cases "node \<in> set (wanted_from L (ledger_digest P))")
    case True
    then have "a \<in> set ads" "ad_acceptable C (cl_network L) st a"
      using ads a that wf(2) net by (auto simp: ledger_wf_def ad_acceptable_def)
    then show ?thesis
      using ab by (simp add: absorbed_def)
  next
    case False
    have "(node, ca_issued_at a) \<in> set (ledger_digest P)"
      using map_of_SomeD [OF a] by (force simp: ledger_digest_def)
    with False obtain h where h: "bm_get (cl_entries L) node = Some h" "sint (ca_issued_at a) \<le> sint (ca_issued_at h)"
      by (force simp: wanted_from_def split: option.splits)
    have "ca_node a = node" "ca_node h = node"
      using a h(1) wf by (auto simp: ledger_wf_def)
    moreover have "held_since L' h"
      using ab h(1) unfolding absorbed_def by blast
    ultimately show ?thesis
      using h(2) by (auto simp: held_since_def)
  qed
  then show ?thesis
    using ab unfolding absorbed_def by blast
qed

theorem pull_round_catches_up_witness:
  "held_since (fst (absorb_advertisements demo (ledger_new 7) (Some sample_state) [offer 2 5 9])) (offer 2 5 9)"
proof -
  let ?P = "(ledger_new 7)\<lparr>cl_entries := [(2, offer 2 5 9)]\<rparr>"
  have wf: "ledger_wf demo (ledger_new 7)" "ledger_wf demo ?P"
    by (simp_all add: ledger_wf_def ledger_new_def)
  have reply: "serve_ledger_request ?P (LedgerFetch (wanted_from (ledger_new 7) (ledger_digest ?P))) =
      Advertisements [offer 2 5 9] False"
    by (simp add: wanted_from_def ledger_digest_def ledger_new_def ledger_fetch_def
        max_advertisements_per_response_def)
  show ?thesis
    using pull_round_catches_up [OF wf _ reply refl, of sample_state, THEN conjunct1, rule_format, of 2] sample_members
    by simp
qed

section \<open>Placement\<close>

lemma rank_split:
  assumes "distinct (map ca_node as)" and "c \<in> set (take n (rank C key as field))"
    and "d \<in> set (rank C key as field)" and "sc_node d \<notin> set (select C key as field n)"
  shows "rank_key c < rank_key d"
proof -
  let ?r = "rank C key as field"
  have "d \<notin> set (take n ?r)"
    using assms(4) by (auto simp: select_def)
  moreover have "d \<in> set (take n ?r) \<union> set (drop n ?r)"
    using assms(3) by (metis append_take_drop_id set_append)
  ultimately have "d \<in> set (drop n ?r)"
    by blast
  moreover have "sorted (map rank_key (take n ?r) @ map rank_key (drop n ?r))"
    using rank_sorted [of C key as field] by (simp flip: map_append)
  ultimately have "rank_key c \<le> rank_key d"
    using assms(2) by (auto simp: sorted_append)
  moreover have "rank_key c \<noteq> rank_key d"
    using imageI [OF assms(2), of sc_node] assms(4) by (auto simp: rank_key_def select_def)
  ultimately show ?thesis
    by simp
qed

text \<open>
  Placement is what it is described to be: the replica holders are different nodes that offered
  storage, as many as asked for or all there are, and each of them beats every node left out, by a
  larger product of its hash draw and the bytes it offered, computed without overflow, or by the
  lower identifier when the products are equal.
\<close>

theorem replicas_ranked:
  assumes "ledger_wf C L"
  shows "distinct (select_replicas C L cid n)
    \<and> length (select_replicas C L cid n) = min n (length (storage_candidates L))
    \<and> set (select_replicas C L cid n) \<subseteq> ca_node ` set (storage_candidates L)
    \<and> (\<forall>a\<in>set (storage_candidates L). \<forall>b\<in>set (storage_candidates L).
         ca_node a \<in> set (select_replicas C L cid n) \<and> ca_node b \<notin> set (select_replicas C L cid n) \<longrightarrow>
           (let x = unat (hrw_draw C cid (ca_node a)) * unat (storage_offered a);
                y = unat (hrw_draw C cid (ca_node b)) * unat (storage_offered b)
            in y < x \<or> y = x \<and> ca_node a < ca_node b))"
proof (intro conjI ballI impI)
  let ?as = "storage_candidates L" and ?r = "rank C cid (storage_candidates L) StorageOffered"
  let ?c = "\<lambda>a. \<lparr>sc_node = ca_node a, sc_score = score C cid (ca_node a) (storage_offered a)\<rparr>"
  have dist: "distinct (map ca_node ?as)"
    using storage_candidates_distinct [OF assms] .
  have scored: "List.map_filter (scored C cid StorageOffered) ?as = map ?c ?as"
    by (simp add: map_filter_scored storage_candidates_def)
  have dr: "distinct (map sc_node ?r)"
    using rank_distinct [OF dist] .
  then show "distinct (select_replicas C L cid n)"
    by (simp add: select_replicas_def select_def take_map [symmetric])
  show "length (select_replicas C L cid n) = min n (length ?as)"
    by (simp add: select_replicas_def select_def rank_def scored)
  show "set (select_replicas C L cid n) \<subseteq> ca_node ` set ?as"
    using set_take_subset [of n ?r] by (auto simp: select_replicas_def select_def rank_def scored)
  fix a b
  assume a: "a \<in> set ?as" and b: "b \<in> set ?as"
    and sel: "ca_node a \<in> set (select_replicas C L cid n) \<and> ca_node b \<notin> set (select_replicas C L cid n)"
  have mem: "?c x \<in> set ?r" if "x \<in> set ?as" for x
    using that by (simp add: rank_def scored)
  obtain c where c: "c \<in> set (take n ?r)" "sc_node c = ca_node a"
    using sel by (auto simp: select_replicas_def select_def)
  then have "c = ?c a"
    using dr mem [OF a] in_set_takeD [OF c(1)] by (auto simp: distinct_map inj_on_def)
  then have "rank_key (?c a) < rank_key (?c b)"
    using rank_split [OF dist, of "?c a" n C cid StorageOffered "?c b"] c(1) mem [OF b] sel
    by (simp add: select_replicas_def)
  then have "score C cid (ca_node b) (storage_offered b) < score C cid (ca_node a) (storage_offered a)
      \<or> score C cid (ca_node b) (storage_offered b) = score C cid (ca_node a) (storage_offered a)
        \<and> ca_node a < ca_node b"
    by (auto simp: rank_key_def less_prod_def' word_less_def word_uint_eq_iff)
  then show "let x = unat (hrw_draw C cid (ca_node a)) * unat (storage_offered a);
                 y = unat (hrw_draw C cid (ca_node b)) * unat (storage_offered b)
             in y < x \<or> y = x \<and> ca_node a < ca_node b"
    by (simp add: Let_def score_exact [symmetric] word_less_nat_alt word_unat_eq_iff)
qed

lemma two_offers_wf: "ledger_wf demo ((ledger_new 7)\<lparr>cl_entries := [(1, offer 1 5 9), (2, offer 2 6 9)]\<rparr>)"
  by (simp add: ledger_wf_def ledger_new_def)

lemma take_be_bytes: "take n (be_bytes (n + k) m) = be_bytes n (m div 256 ^ k)"
  by (induction k arbitrary: m) (simp_all add: div_mult2_eq)

lemma demo_draw: "hrw_draw demo [] node = 0"
proof -
  have "be_val (take 8 (be_bytes 32 63)) = 0"
    using take_be_bytes [of 8 24 63] by simp
  then show ?thesis
    by (simp add: hrw_draw_def hash_bytes_def)
qed

lemma two_offers_ranked:
  "select_replicas demo ((ledger_new 7)\<lparr>cl_entries := [(1, offer 1 5 9), (2, offer 2 6 9)]\<rparr>) [] n = take n [1, 2]"
  by (simp add: select_replicas_def select_def rank_def storage_candidates_def bm_values_def
      scored_def score_def demo_draw rank_key_def Let_def take_map [symmetric])

theorem replicas_ranked_witness:
  "\<exists>L. length (select_replicas demo L [] 1) = 1 \<and> 1 \<in> set (select_replicas demo L [] 1)
     \<and> 2 \<notin> set (select_replicas demo L [] 1)"
  using replicas_ranked [OF two_offers_wf, of "[]" 1] two_offers_ranked [of 1]
  by (intro exI [of _ "(ledger_new 7)\<lparr>cl_entries := [(1, offer 1 5 9), (2, offer 2 6 9)]\<rparr>"]) simp

text \<open>
  Placement is stable under departure: when a node leaves the ledger, the new holders of a
  content are the old ranking without it, one longer. A node that was not chosen leaves the
  holders as they were, and one that was chosen is replaced by the next in line only.
\<close>

theorem replica_departure:
  assumes "ledger_wf C L"
  shows "select_replicas C (fst (ledger_remove L node)) cid n =
    take n (removeAll node (select_replicas C L cid (Suc n)))"
  unfolding select_replicas_def storage_candidates_remove [OF assms]
  by (rule select_without [OF storage_candidates_distinct [OF assms]])

theorem replica_departure_witness:
  "select_replicas demo
     (fst (ledger_remove ((ledger_new 7)\<lparr>cl_entries := [(1, offer 1 5 9), (2, offer 2 6 9)]\<rparr>) 1)) [] 1 = [2]"
  using replica_departure [OF two_offers_wf, of 1 "[]" 1] two_offers_ranked [of "Suc 1"] by simp

section \<open>Audits\<close>

text \<open>
  Audits are rate limited for every requester: over any run of requests whose times do not go
  back, whoever sends them and whatever the governance state says at each, no requester gets more
  than the permitted number of answers within any window that ends at or after the last request.
\<close>

theorem audits_bounded:
  assumes "sorted (map (\<lambda>e. snd (snd e)) events)" and "\<forall>e\<in>set events. after_epoch (snd (snd e))"
    and "after_epoch t" and "\<forall>e\<in>set events. snd (snd e) \<le> t"
  shows "length (filter (\<lambda>at. sint t - sint at \<le> sint (audit_window_millis policy))
      (answers_to r (snd (audit_session C responder policy events))))
    \<le> unat (max_requests_per_window policy)"
proof -
  let ?s = "audit_session C responder policy events"
  have inv: "audit.tracks policy t (audit_history (fst ?s) r) (answers_to r (snd ?s))"
    "length (audit_history (fst ?s) r) \<le> unat (max_requests_per_window policy)"
    using audit_session_inv [OF assms(1,2,4), of policy C responder] by (auto simp: audit_inv_def)
  have "filter (\<lambda>at. sint t - sint at \<le> sint (audit_window_millis policy)) (answers_to r (snd ?s)) =
      filter (audit_is_recent policy t) (answers_to r (snd ?s))"
    using inv(1) assms(3) by (intro filter_cong refl)
      (simp add: audit.tracks_def audit_is_recent_def after_epoch_since)
  then show ?thesis
    using audit.tracks_bound [OF inv assms(3)] by simp
qed

definition sample_audit :: audit_request where
  "sample_audit = ar_create demo (who 1) 3 0"

lemma sample_audit_ok: "ar_verify demo sample_audit = Inr ()" "ar_requester sample_audit = 1"
  "identity_holds sample_state 1 AuditReputation"
  by (simp_all add: sample_audit_def ar_create_def ar_verify_Inr sample_state_def identity_holds_def
      bm_values_def group_contains_def bm_contains_def)

theorem audits_bounded_witness:
  "answers_to 1 (snd (audit_session demo (who 2) \<lparr>max_requests_per_window = 1, audit_window_millis = 10\<rparr>
      [(sample_audit, sample_state, 5), (sample_audit, sample_state, 6), (sample_audit, sample_state, 16)])) = [5, 16]
   \<and> length (filter (\<lambda>at. sint (16 :: i64) - sint at \<le> 10) [5 :: i64, 16]) \<le> 1"
proof -
  let ?p = "\<lparr>max_requests_per_window = 1, audit_window_millis = 10\<rparr>"
  let ?e = "[(sample_audit, sample_state, 5), (sample_audit, sample_state, 6), (sample_audit, sample_state, 16)]"
  have "answers_to 1 (snd (audit_session demo (who 2) ?p ?e)) = [5, 16]"
    by (simp add: audit_session_def respond_to_audit_def sample_audit_ok observations_new_def
        audit_recent_def millis_since_def answers_to_def Let_def)
  moreover have "length (filter (\<lambda>at. sint (16 :: i64) - sint at \<le> sint (audit_window_millis ?p))
      (answers_to 1 (snd (audit_session demo (who 2) ?p ?e)))) \<le> unat (max_requests_per_window ?p)"
    by (rule audits_bounded) (simp_all add: after_epoch_def)
  ultimately show ?thesis
    by simp
qed

section \<open>Messages\<close>

text \<open>
  Ledger messages cannot be tampered with: bytes decode to a response if and only if they are
  the encoding of that response, every advertisement in it is signed by its node and every window
  in it is a time of day, so a change of any byte is refused or yields other, equally signed
  advertisements.
\<close>

theorem ledger_response_exact:
  "decode_ledger_response C b = Inr (Advertisements ads truncated) \<longleftrightarrow>
     b = encode_ledger_response (Advertisements ads truncated)
     \<and> list_all (\<lambda>a. ad_verify C a = Inr () \<and> opt_ok window_ok (active_window (ca_bandwidth a))) ads
     \<and> seq_ok len_ok (map encode_advertisement ads)"
  unfolding decode_ledger_response_iff
  by (auto simp: ad_sound_def ad_ok_def ad_verify_Inr list_all_iff)

end
