(* ===== verification/Limits.thy ===== *)
theory Limits
  imports Sample Window Ledger
begin

text \<open>
  The resource limits of \<open>intranet-transport\<close>: relay_limits.rs (reservations and circuits of a relay),
  media_limits.rs (calls and bytes a media relay carries) and direct_limits.rs (direct messages per
  sender).

  Counts are compared the way the code does: \<open>len() as u32\<close> is a 32-bit word. An \<open>Instant\<close> is a
  number of nanoseconds; \<open>duration_since\<close> saturates at zero, which is subtraction on \<^typ>\<open>nat\<close>.
  Each guard is a transition system: its operations are functions on a record and the inductive
  relation beside it takes any of them in any order.
\<close>

section \<open>Relay reservations and circuits\<close>

datatype requester = Admitted b32 | PreAdmission b32 b32

fun requester_identity :: "requester \<Rightarrow> b32" where
  "requester_identity (Admitted i) = i"
| "requester_identity (PreAdmission i _) = i"

fun requester_invite :: "requester \<Rightarrow> b32 option" where
  "requester_invite (Admitted _) = None"
| "requester_invite (PreAdmission _ invite) = Some invite"

record relay_limits =
  max_reservations :: u32
  max_reservations_per_identity :: u32
  max_reservations_per_invite :: u32
  max_circuits :: u32
  max_circuit_duration_millis :: i64
  max_circuit_bytes :: u64

definition relay_limits_default :: relay_limits where
  "relay_limits_default =
     \<lparr>max_reservations = 128, max_reservations_per_identity = 4, max_reservations_per_invite = 8,
      max_circuits = 32, max_circuit_duration_millis = 60000, max_circuit_bytes = 256 * 1024\<rparr>"

datatype relay_denied =
    ReservationCeiling u32
  | IdentityCeiling string u32
  | InviteCeiling string u32
  | CircuitCeiling u32
  | NoReservation
  | NoCircuit

datatype circuit_closure = DurationExceeded | ByteCeilingExceeded

record reservation =
  rs_requester :: requester
  rs_handle :: u64
  rs_granted_at :: i64

record circuit =
  ci_reservation :: u64
  ci_opened_at :: i64
  ci_bytes :: u64

record relay_guard =
  rg_limits :: relay_limits
  rg_reservations :: "(u64, reservation) btree_map"
  rg_circuits :: "(u64, circuit) btree_map"
  rg_next_id :: u64

definition relay_guard_new :: "relay_limits \<Rightarrow> relay_guard" where
  "relay_guard_new limits =
     \<lparr>rg_limits = limits, rg_reservations = [], rg_circuits = [], rg_next_id = 0\<rparr>"

definition take_id :: "relay_guard \<Rightarrow> u64 \<times> relay_guard" where
  "take_id G = (rg_next_id G, G\<lparr>rg_next_id := rg_next_id G + 1\<rparr>)"

definition reservations_for :: "relay_guard \<Rightarrow> b32 \<Rightarrow> nat" where
  "reservations_for G identity =
     length (filter (\<lambda>r. requester_identity (rs_requester r) = identity) (bm_values (rg_reservations G)))"

definition reservations_for_invite :: "relay_guard \<Rightarrow> b32 \<Rightarrow> nat" where
  "reservations_for_invite G invite =
     length (filter (\<lambda>r. requester_invite (rs_requester r) = Some invite) (bm_values (rg_reservations G)))"

definition try_reserve ::
  "relay_guard \<Rightarrow> requester \<Rightarrow> u64 \<Rightarrow> i64 \<Rightarrow> relay_denied + (u64 \<times> relay_guard)" where
  "try_reserve G requester handle now =
     (let limits = rg_limits G; identity = requester_identity requester in
      if (of_nat (length (rg_reservations G)) :: u32) \<ge> max_reservations limits
      then Inl (ReservationCeiling (max_reservations limits))
      else if (of_nat (reservations_for G identity) :: u32) \<ge> max_reservations_per_identity limits
      then Inl (IdentityCeiling (short identity) (max_reservations_per_identity limits))
      else
        (let grant =
           (let (id, G') = take_id G in
            Inr (id, G'\<lparr>rg_reservations :=
              bm_insert id \<lparr>rs_requester = requester, rs_handle = handle, rs_granted_at = now\<rparr>
                (rg_reservations G')\<rparr>))
         in case requester_invite requester of
              Some invite \<Rightarrow>
                if (of_nat (reservations_for_invite G invite) :: u32) \<ge> max_reservations_per_invite limits
                then Inl (InviteCeiling (short invite) (max_reservations_per_invite limits))
                else grant
            | None \<Rightarrow> grant))"

definition release :: "relay_guard \<Rightarrow> u64 \<Rightarrow> relay_guard" where
  "release G reservation =
     G\<lparr>rg_reservations := bm_remove reservation (rg_reservations G),
       rg_circuits := filter (\<lambda>(_, c). ci_reservation c \<noteq> reservation) (rg_circuits G)\<rparr>"

definition open_circuit :: "relay_guard \<Rightarrow> u64 \<Rightarrow> i64 \<Rightarrow> relay_denied + (u64 \<times> relay_guard)" where
  "open_circuit G reservation now =
     (if \<not> bm_contains (rg_reservations G) reservation then Inl NoReservation
      else if (of_nat (length (rg_circuits G)) :: u32) \<ge> max_circuits (rg_limits G)
      then Inl (CircuitCeiling (max_circuits (rg_limits G)))
      else
        (let (id, G') = take_id G in
         Inr (id, G'\<lparr>rg_circuits :=
           bm_insert id \<lparr>ci_reservation = reservation, ci_opened_at = now, ci_bytes = 0\<rparr> (rg_circuits G')\<rparr>)))"

definition record_bytes ::
  "relay_guard \<Rightarrow> u64 \<Rightarrow> u64 \<Rightarrow> relay_denied + (circuit_closure option \<times> relay_guard)" where
  "record_bytes G circuit bytes =
     (case bm_get (rg_circuits G) circuit of
        None \<Rightarrow> Inl NoCircuit
      | Some entry \<Rightarrow>
          (let total = saturating_add_u64 (ci_bytes entry) bytes in
           if total > max_circuit_bytes (rg_limits G)
           then Inr (Some ByteCeilingExceeded, G\<lparr>rg_circuits := bm_remove circuit (rg_circuits G)\<rparr>)
           else Inr (None, G\<lparr>rg_circuits :=
                  bm_insert circuit (entry\<lparr>ci_bytes := total\<rparr>) (rg_circuits G)\<rparr>)))"

definition circuit_expired :: "relay_limits \<Rightarrow> i64 \<Rightarrow> circuit \<Rightarrow> bool" where
  "circuit_expired limits now c \<longleftrightarrow>
     sint (millis_since now (ci_opened_at c)) > sint (max_circuit_duration_millis limits)"

definition expire :: "relay_guard \<Rightarrow> i64 \<Rightarrow> relay_guard \<times> (u64 \<times> circuit_closure) list" where
  "expire G now =
     (let expired = map fst (filter (\<lambda>(_, c). circuit_expired (rg_limits G) now c) (rg_circuits G))
      in (G\<lparr>rg_circuits := fold bm_remove expired (rg_circuits G)\<rparr>,
          map (\<lambda>id. (id, DurationExceeded)) expired))"

definition close_circuit :: "relay_guard \<Rightarrow> u64 \<Rightarrow> relay_guard" where
  "close_circuit G circuit = G\<lparr>rg_circuits := bm_remove circuit (rg_circuits G)\<rparr>"

section \<open>Media relaying\<close>

record media_limits =
  max_calls :: u32
  max_participants_per_call :: u32
  forward_bytes_per_sec :: u64
  burst_bytes :: u64

definition media_limits_default :: media_limits where
  "media_limits_default =
     \<lparr>max_calls = 8, max_participants_per_call = 50, forward_bytes_per_sec = 1024 * 1024,
      burst_bytes = 2 * 1024 * 1024\<rparr>"

definition media_limits_within :: "bandwidth_cap \<Rightarrow> media_limits" where
  "media_limits_within cap =
     media_limits_default\<lparr>forward_bytes_per_sec := up_bytes_per_sec cap,
       burst_bytes := saturating_mul_u64 (up_bytes_per_sec cap) 2\<rparr>"

datatype media_denied =
    CallCeiling u32
  | ParticipantCeiling u32 nat
  | NotCarried
  | SenderNotParticipant
  | RecipientNotParticipant
  | AllowanceExhausted u64 u64

datatype recipient = One b32 | Participants

record fan_out =
  fo_recipients :: "b32 list"
  fo_deliver_locally :: bool

record media_guard =
  mg_limits :: media_limits
  mg_calls :: "(b32, b32 btree_set) btree_map"
  mg_allowance :: u64
  mg_last_refill :: "i64 option"
  mg_forwarded_bytes :: u64
  mg_refusals :: u64

definition media_guard_new :: "media_limits \<Rightarrow> media_guard" where
  "media_guard_new limits =
     \<lparr>mg_limits = limits, mg_calls = [], mg_allowance = burst_bytes limits, mg_last_refill = None,
      mg_forwarded_bytes = 0, mg_refusals = 0\<rparr>"

definition set_limits :: "media_guard \<Rightarrow> media_limits \<Rightarrow> media_guard" where
  "set_limits M limits =
     M\<lparr>mg_limits := limits, mg_allowance := min (mg_allowance M) (burst_bytes limits)\<rparr>"

definition refuse :: "media_guard \<Rightarrow> media_guard" where
  "refuse M = M\<lparr>mg_refusals := mg_refusals M + 1\<rparr>"

definition try_carry :: "media_guard \<Rightarrow> b32 \<Rightarrow> b32 list \<Rightarrow> media_guard \<times> (media_denied + unit)" where
  "try_carry M call participants =
     (let participants = bs_collect participants in
      if length participants > unat (max_participants_per_call (mg_limits M))
      then (refuse M, Inl (ParticipantCeiling (max_participants_per_call (mg_limits M)) (length participants)))
      else if \<not> bm_contains (mg_calls M) call \<and> length (mg_calls M) \<ge> unat (max_calls (mg_limits M))
      then (refuse M, Inl (CallCeiling (max_calls (mg_limits M))))
      else (M\<lparr>mg_calls := bm_insert call participants (mg_calls M)\<rparr>, Inr ()))"

definition stop_carrying :: "media_guard \<Rightarrow> b32 \<Rightarrow> media_guard" where
  "stop_carrying M call = M\<lparr>mg_calls := bm_remove call (mg_calls M)\<rparr>"

definition authorize_frame ::
  "media_guard \<Rightarrow> b32 \<Rightarrow> b32 \<Rightarrow> recipient \<Rightarrow> u64 \<Rightarrow> b32 \<Rightarrow> media_guard \<times> (media_denied + fan_out)" where
  "authorize_frame M call sender target frame_bytes self_id =
     (case bm_get (mg_calls M) call of
        None \<Rightarrow> (refuse M, Inl NotCarried)
      | Some participants \<Rightarrow>
          if sender \<notin> set participants then (refuse M, Inl SenderNotParticipant)
          else
            (let charge = (\<lambda>fan.
               let cost = saturating_mul_u64 frame_bytes (of_nat (length (fo_recipients fan))) in
               if cost > mg_allowance M
               then (refuse M, Inl (AllowanceExhausted cost (mg_allowance M)))
               else (M\<lparr>mg_allowance := mg_allowance M - cost,
                       mg_forwarded_bytes := mg_forwarded_bytes M + cost\<rparr>, Inr fan))
             in case target of
                  Participants \<Rightarrow>
                    charge \<lparr>fo_recipients = filter (\<lambda>p. p \<noteq> sender \<and> p \<noteq> self_id) participants,
                            fo_deliver_locally = (self_id \<in> set participants)\<rparr>
                | One t \<Rightarrow>
                    if t \<in> set participants
                    then charge \<lparr>fo_recipients = [t], fo_deliver_locally = False\<rparr>
                    else (refuse M, Inl RecipientNotParticipant)))"

definition refill :: "media_guard \<Rightarrow> i64 \<Rightarrow> media_guard" where
  "refill M now =
     (case mg_last_refill M of
        None \<Rightarrow> M\<lparr>mg_last_refill := Some now\<rparr>
      | Some earlier \<Rightarrow>
          (let elapsed = sint (millis_since now earlier) in
           if elapsed \<le> 0 then M\<lparr>mg_last_refill := Some now\<rparr>
           else
             (let wide = min (unat (forward_bytes_per_sec (mg_limits M)) * nat elapsed) (2 ^ 128 - 1) div 1000;
                  earned = (if wide < 2 ^ 64 then of_nat wide else - 1)
              in M\<lparr>mg_allowance :=
                     min (saturating_add_u64 (mg_allowance M) earned) (burst_bytes (mg_limits M)),
                   mg_last_refill := Some now\<rparr>)))"

section \<open>Direct messages\<close>

definition per_window :: nat where
  "per_window = 5"

definition window_nanos :: nat where
  "window_nanos = 60 * 10 ^ 9"

definition max_tracked :: nat where
  "max_tracked = 4096"

record direct_meter =
  dm_seen :: "(b32, nat list) btree_map"

definition direct_meter_new :: direct_meter where
  "direct_meter_new = \<lparr>dm_seen = []\<rparr>"

definition direct_recent :: "nat \<Rightarrow> nat \<Rightarrow> bool" where
  "direct_recent now at \<longleftrightarrow> now - at < window_nanos"

definition forget_stale :: "direct_meter \<Rightarrow> nat \<Rightarrow> direct_meter" where
  "forget_stale D now =
     D\<lparr>dm_seen := filter (\<lambda>(_, h). h \<noteq> []) (map (\<lambda>(k, h). (k, filter (direct_recent now) h)) (dm_seen D))\<rparr>"

definition direct_admit :: "direct_meter \<Rightarrow> b32 \<Rightarrow> nat \<Rightarrow> direct_meter \<times> bool" where
  "direct_admit D sender now =
     (let count = (\<lambda>D.
        let history = filter (direct_recent now)
              (case bm_get (dm_seen D) sender of None \<Rightarrow> [] | Some h \<Rightarrow> h)
        in if length history \<ge> per_window
           then (D\<lparr>dm_seen := bm_insert sender history (dm_seen D)\<rparr>, False)
           else (D\<lparr>dm_seen := bm_insert sender (history @ [now]) (dm_seen D)\<rparr>, True))
      in if length (dm_seen D) \<ge> max_tracked \<and> \<not> bm_contains (dm_seen D) sender
         then (let D' = forget_stale D now in
               if length (dm_seen D') \<ge> max_tracked then (D', False) else count D')
         else count D)"

section \<open>The relay guard as a transition system\<close>

inductive relay_step :: "relay_guard \<Rightarrow> relay_guard \<Rightarrow> bool" where
  rs_reserve: "try_reserve G r h now = Inr (rid, G') \<Longrightarrow> relay_step G G'"
| rs_release: "relay_step G (release G rid)"
| rs_open: "open_circuit G r now = Inr (rid, G') \<Longrightarrow> relay_step G G'"
| rs_bytes: "record_bytes G c n = Inr (v, G') \<Longrightarrow> relay_step G G'"
| rs_expire: "relay_step G (fst (expire G now))"
| rs_close: "relay_step G (close_circuit G c)"

lemma count_insert:
  "length (filter P (bm_values (bm_insert k v m))) \<le> length (filter P (bm_values m)) + (if P v then 1 else 0)"
  by (induction k v m rule: bm_insert.induct) (auto simp: bm_values_def)

lemma count_filter: "length (filter P (bm_values (filter Q m))) \<le> length (filter P (bm_values m))"
  by (induction m) (auto simp: bm_values_def)

lemma count_remove: "length (filter P (bm_values (bm_remove k m))) \<le> length (filter P (bm_values m))"
  unfolding bm_remove_def by (rule count_filter)

lemma length_filter_bound: "length xs \<le> k \<Longrightarrow> length (filter P xs) \<le> k"
  by (rule le_trans [OF length_filter_le])

lemma length_bm_remove: "length (bm_remove k m) \<le> length m"
  by (simp add: bm_remove_def)

text \<open>A count that stays below a 32-bit ceiling is compared without wrapping.\<close>

lemma below_ceiling:
  "n \<le> unat (limit :: u32) \<Longrightarrow> \<not> limit \<le> of_nat n \<longleftrightarrow> n < unat limit"
  using unat_bound [of limit] by (auto simp: word_le_nat_alt unat_of_nat)

definition relay_within :: "relay_guard \<Rightarrow> bool" where
  "relay_within G \<longleftrightarrow>
     length (rg_reservations G) \<le> unat (max_reservations (rg_limits G))
     \<and> (\<forall>i. reservations_for G i \<le> unat (max_reservations_per_identity (rg_limits G)))
     \<and> (\<forall>v. reservations_for_invite G v \<le> unat (max_reservations_per_invite (rg_limits G)))
     \<and> length (rg_circuits G) \<le> unat (max_circuits (rg_limits G))"

definition circuits_covered :: "relay_guard \<Rightarrow> bool" where
  "circuits_covered G \<longleftrightarrow> bm_ok (rg_reservations G) \<and> bm_ok (rg_circuits G) \<and>
     (\<forall>rid c. bm_get (rg_circuits G) rid = Some c \<longrightarrow>
        bm_contains (rg_reservations G) (ci_reservation c) \<and> ci_bytes c \<le> max_circuit_bytes (rg_limits G))"

lemma try_reserve_Inr:
  "try_reserve G r h now = Inr (rid, G') \<Longrightarrow>
     \<not> max_reservations (rg_limits G) \<le> of_nat (length (rg_reservations G))
     \<and> \<not> max_reservations_per_identity (rg_limits G) \<le> of_nat (reservations_for G (requester_identity r))
     \<and> (\<forall>v. requester_invite r = Some v \<longrightarrow>
          \<not> max_reservations_per_invite (rg_limits G) \<le> of_nat (reservations_for_invite G v))
     \<and> G' = G\<lparr>rg_next_id := rg_next_id G + 1, rg_reservations :=
         bm_insert (rg_next_id G) \<lparr>rs_requester = r, rs_handle = h, rs_granted_at = now\<rparr> (rg_reservations G)\<rparr>"
  by (auto simp: try_reserve_def take_id_def Let_def split: if_splits option.splits)

lemma open_circuit_Inr:
  "open_circuit G r now = Inr (rid, G') \<Longrightarrow>
     bm_contains (rg_reservations G) r \<and> \<not> max_circuits (rg_limits G) \<le> of_nat (length (rg_circuits G))
     \<and> G' = G\<lparr>rg_next_id := rg_next_id G + 1, rg_circuits :=
         bm_insert (rg_next_id G) \<lparr>ci_reservation = r, ci_opened_at = now, ci_bytes = 0\<rparr> (rg_circuits G)\<rparr>"
  by (auto simp: open_circuit_def take_id_def split: if_splits)

lemma record_bytes_Inr:
  assumes "record_bytes G c n = Inr (v, G')"
  obtains entry where "bm_get (rg_circuits G) c = Some entry"
    and "max_circuit_bytes (rg_limits G) < saturating_add_u64 (ci_bytes entry) n"
    and "G' = G\<lparr>rg_circuits := bm_remove c (rg_circuits G)\<rparr>" and "v = Some ByteCeilingExceeded"
  | entry where "bm_get (rg_circuits G) c = Some entry"
    and "saturating_add_u64 (ci_bytes entry) n \<le> max_circuit_bytes (rg_limits G)"
    and "G' = G\<lparr>rg_circuits := bm_insert c (entry\<lparr>ci_bytes := saturating_add_u64 (ci_bytes entry) n\<rparr>)
      (rg_circuits G)\<rparr>" and "v = None"
  using assms by (auto simp: record_bytes_def Let_def not_less split: option.splits if_splits)

lemma length_insert_present: "bm_get m k \<noteq> None \<Longrightarrow> bm_ok m \<Longrightarrow> length (bm_insert k v m) = length m"
  by (induction k v m rule: bm_insert.induct) (auto dest!: map_of_SomeD split: if_splits)

lemma expire_circuits: "rg_circuits (fst (expire G now)) =
    filter (\<lambda>p. fst p \<notin> set (map fst (filter (\<lambda>(_, c). circuit_expired (rg_limits G) now c) (rg_circuits G))))
      (rg_circuits G)"
  by (simp add: expire_def Let_def fold_bm_remove)

lemma expire_frame: "rg_limits (fst (expire G now)) = rg_limits G"
  "rg_reservations (fst (expire G now)) = rg_reservations G"
  by (simp_all add: expire_def Let_def)

text \<open>A step that adds no reservation and respects the ceiling of circuits stays within all limits.\<close>

lemma relay_within_fewer:
  assumes "relay_within G" and "rg_limits G' = rg_limits G"
    and "length (rg_reservations G') \<le> length (rg_reservations G)"
    and "\<And>P. length (filter P (bm_values (rg_reservations G'))) \<le> length (filter P (bm_values (rg_reservations G)))"
    and "length (rg_circuits G') \<le> unat (max_circuits (rg_limits G))"
  shows "relay_within G'"
  using assms unfolding relay_within_def reservations_for_def reservations_for_invite_def
  by (metis (no_types, lifting) order_trans)

lemma relay_step_within:
  assumes "relay_step G G'" and "relay_within G" and "circuits_covered G"
  shows "relay_within G' \<and> rg_limits G' = rg_limits G"
  using assms
proof (induction rule: relay_step.induct)
  case (rs_reserve G r h now rid G')
  let ?v = "\<lparr>rs_requester = r, rs_handle = h, rs_granted_at = now\<rparr>"
  note parts = try_reserve_Inr [OF rs_reserve.hyps]
  have ceil: "length (rg_reservations G) < unat (max_reservations (rg_limits G))"
    "reservations_for G (requester_identity r) < unat (max_reservations_per_identity (rg_limits G))"
    "requester_invite r = Some v \<Longrightarrow>
       reservations_for_invite G v < unat (max_reservations_per_invite (rg_limits G))" for v
    using parts rs_reserve.prems(1) below_ceiling by (auto simp: relay_within_def)
  have "reservations_for G' i \<le> unat (max_reservations_per_identity (rg_limits G))" for i
    using count_insert [of "\<lambda>r. requester_identity (rs_requester r) = i" "rg_next_id G" ?v "rg_reservations G"]
      parts ceil(2) rs_reserve.prems(1)
    by (cases "requester_identity r = i") (auto simp: reservations_for_def relay_within_def intro: order_trans)
  moreover have "reservations_for_invite G' v \<le> unat (max_reservations_per_invite (rg_limits G))" for v
    using count_insert [of "\<lambda>r. requester_invite (rs_requester r) = Some v" "rg_next_id G" ?v "rg_reservations G"]
      parts ceil(3) rs_reserve.prems(1)
    by (cases "requester_invite r = Some v")
      (fastforce simp: reservations_for_invite_def relay_within_def intro: order_trans)+
  moreover have "length (rg_reservations G') \<le> unat (max_reservations (rg_limits G))"
    using parts ceil(1) length_bm_insert [of "rg_next_id G" ?v "rg_reservations G"] by simp
  ultimately show ?case
    using parts rs_reserve.prems(1) by (simp add: relay_within_def)
next
  case (rs_release G rid)
  have "length (rg_circuits (release G rid)) \<le> unat (max_circuits (rg_limits G))"
    using rs_release by (simp add: release_def relay_within_def length_filter_bound)
  then have "relay_within (release G rid)"
    by (intro relay_within_fewer [OF rs_release(1)])
      (simp_all add: release_def count_remove length_bm_remove)
  then show ?case
    by (simp add: release_def)
next
  case (rs_open G r now rid G')
  note parts = open_circuit_Inr [OF rs_open.hyps]
  have "length (rg_circuits G) < unat (max_circuits (rg_limits G))"
    using parts rs_open.prems(1) below_ceiling by (auto simp: relay_within_def)
  then have "length (rg_circuits G') \<le> unat (max_circuits (rg_limits G))"
    using parts length_bm_insert [of "rg_next_id G"
        "\<lparr>ci_reservation = r, ci_opened_at = now, ci_bytes = 0\<rparr>" "rg_circuits G"] by simp
  then have "relay_within G'"
    by (intro relay_within_fewer [OF rs_open.prems(1)]) (simp_all add: parts)
  then show ?case
    by (simp add: parts)
next
  case (rs_bytes G c n v G')
  have frame: "rg_limits G' = rg_limits G \<and> rg_reservations G' = rg_reservations G
      \<and> length (rg_circuits G') \<le> length (rg_circuits G)"
    using rs_bytes.hyps
  proof (cases rule: record_bytes_Inr)
    case (1 entry)
    then show ?thesis
      by (simp add: length_bm_remove)
  next
    case (2 entry)
    then show ?thesis
      using rs_bytes.prems(2) by (simp add: length_insert_present circuits_covered_def)
  qed
  moreover have "length (rg_circuits G') \<le> unat (max_circuits (rg_limits G))"
    using frame rs_bytes.prems(1) by (simp add: relay_within_def)
  ultimately have "relay_within G'"
    by (intro relay_within_fewer [OF rs_bytes.prems(1)]) simp_all
  then show ?case
    using frame by simp
next
  case (rs_expire G now)
  have "length (rg_circuits (fst (expire G now))) \<le> unat (max_circuits (rg_limits G))"
    using rs_expire by (simp add: expire_circuits relay_within_def length_filter_bound)
  then have "relay_within (fst (expire G now))"
    by (intro relay_within_fewer [OF rs_expire(1)]) (simp_all add: expire_frame)
  then show ?case
    by (simp add: expire_frame)
next
  case (rs_close G c)
  have "length (rg_circuits (close_circuit G c)) \<le> unat (max_circuits (rg_limits G))"
    using rs_close length_bm_remove [of c "rg_circuits G"]
    by (simp add: close_circuit_def relay_within_def)
  then have "relay_within (close_circuit G c)"
    by (intro relay_within_fewer [OF rs_close(1)]) (simp_all add: close_circuit_def)
  then show ?case
    by (simp add: close_circuit_def)
qed

lemma relay_step_covered:
  assumes "relay_step G G'" and "circuits_covered G"
  shows "circuits_covered G'"
  using assms
proof (induction rule: relay_step.induct)
  case (rs_reserve G r h now rid G')
  then show ?case
    using try_reserve_Inr [OF rs_reserve.hyps] by (auto simp: circuits_covered_def bm_contains_def)
next
  case (rs_release G rid)
  then show ?case
    by (auto simp: circuits_covered_def release_def bm_contains_def map_of_filter_iff)
next
  case (rs_open G r now rid G')
  then show ?case
    using open_circuit_Inr [OF rs_open.hyps] by (auto simp: circuits_covered_def)
next
  case (rs_bytes G c n v G')
  then show ?case
    by (elim record_bytes_Inr) (auto simp: circuits_covered_def split: if_splits)
qed (auto simp: circuits_covered_def close_circuit_def expire_frame expire_circuits map_of_filter_iff
    split: if_splits)

lemma relay_reachable:
  assumes "relay_step\<^sup>*\<^sup>* (relay_guard_new limits) G"
  shows "relay_within G \<and> circuits_covered G \<and> rg_limits G = limits"
  using assms
proof (induction rule: rtranclp_induct)
  case base
  show ?case
    by (simp add: relay_guard_new_def relay_within_def circuits_covered_def reservations_for_def
        reservations_for_invite_def bm_values_def)
next
  case (step G G')
  then show ?case
    using relay_step_within relay_step_covered by blast
qed

section \<open>The media guard: what leaves the node\<close>

text \<open>
  A run of a media guard under fixed limits: frames to forward, ticks of the refill, calls taken on
  and dropped. Beside the guard it keeps the bytes that left the node, frame size times copies.
\<close>

datatype media_event =
    Frame b32 b32 recipient u64 b32
  | Tick i64
  | Carry b32 "b32 list"
  | StopCarrying b32

fun media_step :: "media_event \<Rightarrow> media_guard \<times> nat \<Rightarrow> media_guard \<times> nat" where
  "media_step (Frame call sender target sz self_id) (M, sent) =
     (case authorize_frame M call sender target sz self_id of
        (M', Inl _) \<Rightarrow> (M', sent)
      | (M', Inr fan) \<Rightarrow> (M', sent + unat sz * length (fo_recipients fan)))"
| "media_step (Tick now) (M, sent) = (refill M now, sent)"
| "media_step (Carry call participants) (M, sent) = (fst (try_carry M call participants), sent)"
| "media_step (StopCarrying call) (M, sent) = (stop_carrying M call, sent)"

definition media_run :: "media_limits \<Rightarrow> media_event list \<Rightarrow> media_guard \<times> nat" where
  "media_run limits events = fold media_step events (media_guard_new limits, 0)"

fun tick_times :: "media_event list \<Rightarrow> i64 list" where
  "tick_times [] = []"
| "tick_times (Tick t # es) = t # tick_times es"
| "tick_times (_ # es) = tick_times es"

lemma tick_times_append [simp]: "tick_times (xs @ ys) = tick_times xs @ tick_times ys"
  by (induction xs rule: tick_times.induct) auto

text \<open>Frames of a sz the transport can carry; the product with a 32-bit count then fits 64 bits.\<close>

definition frames_small :: "media_event list \<Rightarrow> bool" where
  "frames_small es \<longleftrightarrow> (\<forall>call sender target sz self_id. Frame call sender target sz self_id \<in> set es \<longrightarrow> unat sz < 2 ^ 32)"

lemma saturating_add_le: "unat (saturating_add_u64 a b) \<le> unat a + unat b"
  using unat_bound [of "- 1 :: u64"] by (auto simp: saturating_add_u64_def unat_word_ariths)

lemma saturating_mul_exact: "unat a * unat b < 2 ^ 64 \<Longrightarrow> unat (saturating_mul_u64 a b) = unat a * unat b"
  by (simp add: saturating_mul_u64_def unat_word_ariths)

definition rosters_small :: "media_guard \<Rightarrow> bool" where
  "rosters_small M \<longleftrightarrow> (\<forall>call ps. bm_get (mg_calls M) call = Some ps \<longrightarrow> length ps < 2 ^ 32)"

lemma authorize_frame_Inr:
  assumes "authorize_frame M call sender target sz self_id = (M', Inr fan)"
  obtains ps where "bm_get (mg_calls M) call = Some ps" and "sender \<in> set ps"
    and "case target of
        Participants \<Rightarrow> fan = \<lparr>fo_recipients = filter (\<lambda>p. p \<noteq> sender \<and> p \<noteq> self_id) ps,
                              fo_deliver_locally = (self_id \<in> set ps)\<rparr>
      | One t \<Rightarrow> t \<in> set ps \<and> fan = \<lparr>fo_recipients = [t], fo_deliver_locally = False\<rparr>"
    and "saturating_mul_u64 sz (of_nat (length (fo_recipients fan))) \<le> mg_allowance M"
    and "M' = M\<lparr>mg_allowance := mg_allowance M - saturating_mul_u64 sz (of_nat (length (fo_recipients fan))),
        mg_forwarded_bytes := mg_forwarded_bytes M + saturating_mul_u64 sz (of_nat (length (fo_recipients fan)))\<rparr>"
  using assms
  by (auto simp: authorize_frame_def Let_def refuse_def not_less split: option.splits if_splits recipient.splits)

lemma authorize_frame_Inl:
  "authorize_frame M call sender target sz self_id = (M', Inl e) \<Longrightarrow> M' = refuse M"
  by (auto simp: authorize_frame_def Let_def split: option.splits if_splits recipient.splits)

text \<open>A thousand times the bytes that may have left by the last of the ticks.\<close>

definition media_ceiling :: "media_limits \<Rightarrow> i64 list \<Rightarrow> nat" where
  "media_ceiling limits ts =
     1000 * unat (burst_bytes limits) +
     (if ts = [] then 0 else unat (forward_bytes_per_sec limits) * nat (sint (last ts) - sint (hd ts)))"

definition media_inv :: "media_limits \<Rightarrow> i64 list \<Rightarrow> media_guard \<times> nat \<Rightarrow> bool" where
  "media_inv limits ts s \<longleftrightarrow>
     mg_limits (fst s) = limits \<and> rosters_small (fst s) \<and>
     mg_last_refill (fst s) = (if ts = [] then None else Some (last ts)) \<and>
     1000 * (snd s + unat (mg_allowance (fst s))) \<le> media_ceiling limits ts"

lemma media_inv_frame:
  assumes inv: "media_inv limits ts (M, sent)" and "unat sz < 2 ^ 32"
  shows "media_inv limits ts (media_step (Frame call sender target sz self_id) (M, sent))"
proof (cases "authorize_frame M call sender target sz self_id")
  case (Pair M' res)
  show ?thesis
  proof (cases res)
    case (Inl e)
    then show ?thesis
      using Pair inv authorize_frame_Inl [of M call sender target sz self_id M' e]
      by (simp add: media_inv_def refuse_def rosters_small_def)
  next
    case (Inr fan)
    let ?n = "length (fo_recipients fan)"
    let ?cost = "saturating_mul_u64 sz (of_nat ?n)"
    obtain ps where ps: "bm_get (mg_calls M) call = Some ps" "?n \<le> max 1 (length ps)"
      "?cost \<le> mg_allowance M" "mg_allowance M' = mg_allowance M - ?cost" "mg_calls M' = mg_calls M"
      "mg_limits M' = mg_limits M" "mg_last_refill M' = mg_last_refill M"
      using Pair Inr
      by (auto elim!: authorize_frame_Inr simp: length_filter_bound split: recipient.splits)
    have "length ps < 2 ^ 32"
      using ps(1) inv by (simp add: media_inv_def rosters_small_def)
    then have n: "?n < 2 ^ 32"
      using ps(2) by simp
    then have "unat sz * ?n < 2 ^ 32 * 2 ^ 32"
      using assms(2) by (intro mult_strict_mono) auto
    then have "unat ?cost = unat sz * ?n"
      using n saturating_mul_exact [of sz "of_nat ?n"] by (simp add: unat_of_nat)
    then have "unat (mg_allowance M') + unat sz * ?n = unat (mg_allowance M)"
      using ps(3,4) unat_sub [OF ps(3)] by (simp add: word_le_nat_alt)
    then show ?thesis
      using inv Pair Inr ps(5-7) by (simp add: media_inv_def rosters_small_def)
  qed
qed

lemma budget_step:
  fixes c :: nat
  assumes "c' = c + p" and "1000 * d \<le> p" and "1000 * (s + a) \<le> c" and "a' \<le> a + d"
  shows "1000 * (s + a') \<le> c'"
  using assms by (simp add: distrib_left)

lemma media_inv_tick:
  assumes inv: "media_inv limits ts (M, sent)" and "after_epoch now" and "\<forall>t\<in>set ts. after_epoch t \<and> sint t \<le> sint now"
    and "sorted (map sint ts)"
  shows "media_inv limits (ts @ [now]) (media_step (Tick now) (M, sent))"
proof (cases "ts = []")
  case True
  then show ?thesis
    using inv by (simp add: media_inv_def media_ceiling_def refill_def rosters_small_def)
next
  case False
  then have last: "mg_last_refill M = Some (last ts)" "after_epoch (last ts)" "sint (last ts) \<le> sint now"
    using inv assms(3) by (simp_all add: media_inv_def)
  define rate where "rate = unat (forward_bytes_per_sec limits)"
  define e where "e = sint now - sint (last ts)"
  have e: "sint (millis_since now (last ts)) = e" "0 \<le> e"
    using after_epoch_since [OF assms(2) last(2)] last(3) by (simp_all add: e_def)
  have lim: "mg_limits M = limits"
    using inv by (simp add: media_inv_def)
  have grow: "unat (mg_allowance (refill M now)) \<le> unat (mg_allowance M) + rate * nat e div 1000"
  proof (cases "e = 0")
    case True
    then show ?thesis
      using e last(1) by (simp add: refill_def)
  next
    case False
    define wide where "wide = min (rate * nat e) (2 ^ 128 - 1) div 1000"
    define earned :: u64 where "earned = (if wide < 2 ^ 64 then of_nat wide else - 1)"
    have bound: "unat earned \<le> wide"
      using unat_bound [of "- 1 :: u64"] by (auto simp: earned_def unat_of_nat)
    have wide: "wide \<le> rate * nat e div 1000"
      by (simp add: wide_def div_le_mono)
    have "\<not> e \<le> 0"
      using False e(2) by simp
    then have "refill M now = M\<lparr>mg_allowance :=
        min (saturating_add_u64 (mg_allowance M) earned) (burst_bytes limits), mg_last_refill := Some now\<rparr>"
      unfolding refill_def last(1) option.case Let_def e(1) lim wide_def earned_def rate_def
      by (simp only: if_False)
    then have "unat (mg_allowance (refill M now)) \<le> unat (saturating_add_u64 (mg_allowance M) earned)"
      by (simp add: word_le_nat_alt [symmetric])
    then show ?thesis
      using saturating_add_le [of "mg_allowance M" earned] bound wide by linarith
  qed
  have "sint (hd ts) \<le> sint (last ts)"
    using assms(4) False by (cases ts) auto
  then have "nat (sint now - sint (hd ts)) = nat (sint (last ts) - sint (hd ts)) + nat e"
    using e(2) by (simp add: e_def nat_add_distrib [symmetric])
  then have "media_ceiling limits (ts @ [now]) = media_ceiling limits ts + rate * nat e"
    using False by (simp add: media_ceiling_def rate_def distrib_left)
  moreover have "1000 * (rate * nat e div 1000) \<le> rate * nat e"
    by simp
  moreover have "1000 * (sent + unat (mg_allowance M)) \<le> media_ceiling limits ts"
    using inv by (simp add: media_inv_def)
  ultimately have "1000 * (sent + unat (mg_allowance (refill M now))) \<le> media_ceiling limits (ts @ [now])"
    using budget_step grow by blast
  moreover have "mg_limits (refill M now) = limits" "mg_calls (refill M now) = mg_calls M"
    "mg_last_refill (refill M now) = Some now"
    using lim by (simp_all add: refill_def Let_def split: option.split)
  ultimately show ?thesis
    using inv False by (simp add: media_inv_def rosters_small_def)
qed

lemma media_inv_carry:
  assumes "media_inv limits ts (M, sent)"
  shows "media_inv limits ts (media_step (Carry call ps) (M, sent))"
    "media_inv limits ts (media_step (StopCarrying call) (M, sent))"
proof -
  have "length (bs_collect ps) < 2 ^ 32" if "\<not> unat (max_participants_per_call (mg_limits M)) < length (bs_collect ps)"
    using that unat_bound [of "max_participants_per_call (mg_limits M)"] by simp
  then show "media_inv limits ts (media_step (Carry call ps) (M, sent))"
    using assms by (auto simp: media_inv_def try_carry_def Let_def refuse_def rosters_small_def)
  show "media_inv limits ts (media_step (StopCarrying call) (M, sent))"
    using assms by (auto simp: media_inv_def stop_carrying_def rosters_small_def)
qed

lemma media_run_inv:
  assumes "frames_small es" and "\<forall>t\<in>set (tick_times es). after_epoch t" and "sorted (map sint (tick_times es))"
  shows "media_inv limits (tick_times es) (media_run limits es)"
  using assms
proof (induction es rule: rev_induct)
  case Nil
  then show ?case
    by (simp add: media_run_def media_inv_def media_ceiling_def media_guard_new_def rosters_small_def)
next
  case (snoc e es)
  obtain M sent where run: "media_run limits es = (M, sent)"
    by (cases "media_run limits es")
  have IH: "media_inv limits (tick_times es) (M, sent)"
    unfolding run [symmetric] using snoc.prems
    by (intro snoc.IH) (auto simp: frames_small_def sorted_append)
  have step: "media_run limits (es @ [e]) = media_step e (M, sent)"
    using run by (simp add: media_run_def)
  show ?case
  proof (cases e)
    case (Frame call sender target sz self_id)
    then have "unat sz < 2 ^ 32"
      using snoc.prems(1) by (simp add: frames_small_def)
    then show ?thesis
      using media_inv_frame [OF IH] step Frame by simp
  next
    case (Tick now)
    then show ?thesis
      using media_inv_tick [OF IH, of now] snoc.prems(2,3) step by (simp add: sorted_append)
  next
    case (Carry call ps)
    then show ?thesis
      using media_inv_carry(1) [OF IH] step by simp
  next
    case (StopCarrying call)
    then show ?thesis
      using media_inv_carry(2) [OF IH] step by simp
  qed
qed

section \<open>The meter of direct messages\<close>

interpretation direct: sliding_window direct_recent "\<lambda>_. True"
  by unfold_locales (auto simp: direct_recent_def)

definition direct_history :: "direct_meter \<Rightarrow> b32 \<Rightarrow> nat list" where
  "direct_history D sender = (case bm_get (dm_seen D) sender of None \<Rightarrow> [] | Some h \<Rightarrow> h)"

text \<open>A run: messages arriving over time, and those that were let through.\<close>

fun direct_step :: "b32 \<times> nat \<Rightarrow> direct_meter \<times> (b32 \<times> nat) list \<Rightarrow> direct_meter \<times> (b32 \<times> nat) list" where
  "direct_step (sender, now) (D, passed) =
     (case direct_admit D sender now of (D', ok) \<Rightarrow> (D', if ok then passed @ [(sender, now)] else passed))"

definition direct_run :: "(b32 \<times> nat) list \<Rightarrow> direct_meter \<times> (b32 \<times> nat) list" where
  "direct_run arrivals = fold direct_step arrivals (direct_meter_new, [])"

definition passed_from :: "b32 \<Rightarrow> (b32 \<times> nat) list \<Rightarrow> nat list" where
  "passed_from s passed = map snd (filter (\<lambda>p. fst p = s) passed)"

lemma passed_from_append [simp]:
  "passed_from s (xs @ [(r, t)]) = (if r = s then passed_from s xs @ [t] else passed_from s xs)"
  by (simp add: passed_from_def)

definition direct_inv :: "nat \<Rightarrow> direct_meter \<times> (b32 \<times> nat) list \<Rightarrow> bool" where
  "direct_inv latest s \<longleftrightarrow>
     bm_ok (dm_seen (fst s)) \<and> length (dm_seen (fst s)) \<le> max_tracked \<and>
     (\<forall>r. direct.tracks latest (direct_history (fst s) r) (passed_from r (snd s))
        \<and> length (direct_history (fst s) r) \<le> per_window)"

lemma direct_inv_later: "direct_inv latest s \<Longrightarrow> latest \<le> now \<Longrightarrow> direct_inv now s"
  unfolding direct_inv_def direct.tracks_def by (meson order_trans)

text \<open>Recording one message against the history of its sender.\<close>

definition direct_count :: "direct_meter \<Rightarrow> b32 \<Rightarrow> nat \<Rightarrow> direct_meter \<times> bool" where
  "direct_count D sender now =
     (case window_admit direct_recent per_window now (direct_history D sender) of
        (h, ok) \<Rightarrow> (D\<lparr>dm_seen := bm_insert sender h (dm_seen D)\<rparr>, ok))"

lemma direct_admit_unfold:
  "direct_admit D sender now =
     (if length (dm_seen D) \<ge> max_tracked \<and> \<not> bm_contains (dm_seen D) sender
      then (if length (dm_seen (forget_stale D now)) \<ge> max_tracked then (forget_stale D now, False)
            else direct_count (forget_stale D now) sender now)
      else direct_count D sender now)"
  by (auto simp: direct_admit_def direct_count_def direct_history_def window_admit_def Let_def
      split: option.split)

lemma get_map_value: "bm_get (map (\<lambda>(k, v). (k, f v)) m) k = map_option f (bm_get m k)"
  by (induction m) auto

lemma bm_ok_map_value: "bm_ok (map (\<lambda>(k, v). (k, f v)) m) = bm_ok m"
  by (simp add: bm_ok_def comp_def case_prod_beta)

lemma forget_stale_history:
  assumes "bm_ok (dm_seen D)"
  shows "direct_history (forget_stale D now) r = filter (direct_recent now) (direct_history D r)"
proof -
  have ok: "bm_ok (map (\<lambda>(k, h). (k, filter (direct_recent now) h)) (dm_seen D))"
    using assms by (simp add: bm_ok_map_value)
  have found: "bm_get (dm_seen (forget_stale D now)) r = Some v \<longleftrightarrow>
      v \<noteq> [] \<and> map_option (filter (direct_recent now)) (bm_get (dm_seen D) r) = Some v" for v
    using map_of_filter_iff [OF ok, of "\<lambda>(_, h). h \<noteq> []" r v]
    by (simp add: forget_stale_def get_map_value conj_commute)
  show ?thesis
  proof (cases "filter (direct_recent now) (direct_history D r) = []")
    case True
    then have "\<nexists>v. bm_get (dm_seen (forget_stale D now)) r = Some v"
      unfolding found by (auto simp: direct_history_def)
    then have "bm_get (dm_seen (forget_stale D now)) r = None"
      by simp
    then show ?thesis
      using True by (simp add: direct_history_def)
  next
    case False
    then have "bm_get (dm_seen (forget_stale D now)) r = Some (filter (direct_recent now) (direct_history D r))"
      unfolding found by (auto simp: direct_history_def split: option.splits)
    then show ?thesis
      by (simp add: direct_history_def)
  qed
qed

lemma direct_inv_forget:
  assumes "direct_inv now (D, passed)"
  shows "direct_inv now (forget_stale D now, passed)"
proof -
  have ok: "bm_ok (dm_seen D)" "length (dm_seen D) \<le> max_tracked"
    using assms by (simp_all add: direct_inv_def)
  have "bm_ok (dm_seen (forget_stale D now))" "length (dm_seen (forget_stale D now)) \<le> max_tracked"
    using ok by (simp_all add: forget_stale_def bm_ok_map_value length_filter_bound)
  moreover have "direct.tracks now (direct_history (forget_stale D now) r) (passed_from r passed)
      \<and> length (direct_history (forget_stale D now) r) \<le> per_window" for r
    using assms direct.tracks_filter [of now "direct_history D r" "passed_from r passed" now]
    by (simp add: forget_stale_history [OF ok(1)] direct_inv_def length_filter_bound)
  ultimately show ?thesis
    by (simp add: direct_inv_def)
qed

lemma direct_inv_count:
  assumes "direct_inv now (D, passed)" and "direct_count D sender now = (D', ok)"
    and "length (dm_seen D) < max_tracked \<or> bm_contains (dm_seen D) sender"
  shows "direct_inv now (D', if ok then passed @ [(sender, now)] else passed)"
proof -
  obtain h where adm: "window_admit direct_recent per_window now (direct_history D sender) = (h, ok)"
    and D': "D' = D\<lparr>dm_seen := bm_insert sender h (dm_seen D)\<rparr>"
    using assms(2) by (auto simp: direct_count_def split: prod.splits)
  have tr: "direct.tracks now (direct_history D r) (passed_from r passed)"
    and len: "length (direct_history D r) \<le> per_window" for r
    using assms(1) by (simp_all add: direct_inv_def)
  have "direct.tracks now h (if ok then passed_from sender passed @ [now] else passed_from sender passed)"
    "length h \<le> per_window"
    using direct.tracks_step [OF tr _ _ adm] direct.admit_length [OF len adm] by simp_all
  moreover have "direct_history D' r = (if r = sender then h else direct_history D r)" for r
    by (simp add: direct_history_def D')
  moreover have "length (dm_seen D') \<le> max_tracked"
    using assms(1,3) length_bm_insert [of sender h "dm_seen D"] length_insert_present [of "dm_seen D" sender h]
    by (auto simp: D' direct_inv_def bm_contains_def)
  moreover have "bm_ok (dm_seen D')"
    using assms(1) by (simp add: D' direct_inv_def)
  ultimately show ?thesis
    using tr len by (auto simp: direct_inv_def)
qed

lemma direct_inv_step:
  assumes "direct_inv now (D, passed)"
  shows "direct_inv now (direct_step (sender, now) (D, passed))"
proof -
  have count: "direct_inv now (case direct_count E sender now of
      (E', ok) \<Rightarrow> (E', if ok then passed @ [(sender, now)] else passed))"
    if "direct_inv now (E, passed)" "length (dm_seen E) < max_tracked \<or> bm_contains (dm_seen E) sender" for E
    using direct_inv_count [OF that(1) _ that(2)] by (cases "direct_count E sender now") simp
  show ?thesis
    using count [OF assms] count [OF direct_inv_forget [OF assms]] direct_inv_forget [OF assms]
    by (cases "max_tracked \<le> length (dm_seen D)") (simp_all add: direct_admit_unfold not_le)
qed

lemma direct_run_inv:
  assumes "sorted (map snd arrivals)" and "\<forall>a\<in>set arrivals. snd a \<le> latest"
  shows "direct_inv latest (direct_run arrivals)"
  using assms
proof (induction arrivals arbitrary: latest rule: rev_induct)
  case Nil
  then show ?case
    by (simp add: direct_run_def direct_inv_def direct_meter_new_def direct_history_def passed_from_def
        direct.tracks_Nil)
next
  case (snoc a arrivals)
  obtain sender now where a: "a = (sender, now)"
    by (cases a)
  obtain D passed where run: "direct_run arrivals = (D, passed)"
    by (cases "direct_run arrivals")
  have "direct_inv now (D, passed)"
    unfolding run [symmetric] using snoc.prems a by (intro snoc.IH) (auto simp: sorted_append)
  then have "direct_inv now (direct_run (arrivals @ [a]))"
    using direct_inv_step run a by (simp add: direct_run_def)
  then show ?case
    by (rule direct_inv_later) (use snoc.prems(2) a in simp)
qed

end
