(* ===== verification/Metering.thy ===== *)
theory Metering
  imports Limits
begin

text \<open>
  What the limiters of the transport guarantee whatever their peers do: the ceilings of a relay, the
  bandwidth budget of a media relay and the reach of what it forwards, and the rate of direct
  messages.
\<close>

section \<open>Relays\<close>

text \<open>
  C27. A relay never exceeds its ceilings: after any sequence of requests, releases, transfers and
  expiries, the reservations in total, per identity and per invite and the open circuits stay
  within the configured limits.
\<close>

theorem relay_ceilings_hold:
  assumes "relay_step\<^sup>*\<^sup>* (relay_guard_new limits) G"
  shows "length (rg_reservations G) \<le> unat (max_reservations limits)
    \<and> reservations_for G identity \<le> unat (max_reservations_per_identity limits)
    \<and> reservations_for_invite G invite \<le> unat (max_reservations_per_invite limits)
    \<and> length (rg_circuits G) \<le> unat (max_circuits limits)"
  using relay_reachable [OF assms] by (auto simp: relay_within_def)

definition sample_guard :: relay_guard where
  "sample_guard = snd (projr (try_reserve (relay_guard_new relay_limits_default) (PreAdmission 5 6) 0 10))"

lemma sample_guard_fields:
  "sample_guard = \<lparr>rg_limits = relay_limits_default,
     rg_reservations = [(0, \<lparr>rs_requester = PreAdmission 5 6, rs_handle = 0, rs_granted_at = 10\<rparr>)],
     rg_circuits = [], rg_next_id = 1\<rparr>"
  "try_reserve (relay_guard_new relay_limits_default) (PreAdmission 5 6) 0 10 = Inr (0, sample_guard)"
  by (simp_all add: sample_guard_def try_reserve_def relay_guard_new_def take_id_def reservations_for_def
      reservations_for_invite_def bm_values_def relay_limits_default_def Let_def)

lemma sample_guard_reachable: "relay_step\<^sup>*\<^sup>* (relay_guard_new relay_limits_default) sample_guard"
  using rs_reserve [OF sample_guard_fields(2)] by blast

theorem relay_ceilings_hold_witness:
  "reservations_for sample_guard 5 = 1 \<and> reservations_for sample_guard 5 \<le> 4"
  using relay_ceilings_hold [OF sample_guard_reachable, of 5]
  by (simp add: sample_guard_fields(1) reservations_for_def bm_values_def relay_limits_default_def)

text \<open>
  A circuit exists only under a live reservation and only as long as it stays within its limits:
  in every reachable guard each open circuit belongs to a reservation that has not been released
  and has carried no more than the byte ceiling, and after an expiry none is older than the
  permitted duration.
\<close>

theorem circuits_enforced:
  assumes "relay_step\<^sup>*\<^sup>* (relay_guard_new limits) G"
  shows "(\<forall>c circ. bm_get (rg_circuits G) c = Some circ \<longrightarrow>
      bm_contains (rg_reservations G) (ci_reservation circ) \<and> ci_bytes circ \<le> max_circuit_bytes limits)
    \<and> (\<forall>c circ. bm_get (rg_circuits (fst (expire G now))) c = Some circ \<longrightarrow>
        sint (millis_since now (ci_opened_at circ)) \<le> sint (max_circuit_duration_millis limits))
    \<and> (\<forall>c circ. bm_get (rg_circuits (release G r)) c = Some circ \<longrightarrow> ci_reservation circ \<noteq> r)"
proof -
  have G: "circuits_covered G" "rg_limits G = limits" "bm_ok (rg_circuits G)"
    using relay_reachable [OF assms] by (auto simp: circuits_covered_def)
  have "\<not> circuit_expired limits now circ"
    if "bm_get (rg_circuits (fst (expire G now))) c = Some circ" for c circ
    using that G by (force simp: expire_circuits map_of_filter_iff dest: map_of_SomeD)
  then show ?thesis
    using G by (auto simp: circuits_covered_def circuit_expired_def not_less release_def map_of_filter_iff)
qed

theorem circuits_enforced_witness:
  "\<exists>G. relay_step\<^sup>*\<^sup>* (relay_guard_new relay_limits_default) G
     \<and> bm_get (rg_circuits G) 1 = Some \<lparr>ci_reservation = 0, ci_opened_at = 20, ci_bytes = 0\<rparr>
     \<and> bm_contains (rg_reservations G) 0 \<and> bm_get (rg_circuits (release G 0)) 1 = None"
proof -
  let ?c = "\<lparr>ci_reservation = 0, ci_opened_at = 20, ci_bytes = 0\<rparr>"
  let ?G = "sample_guard\<lparr>rg_next_id := 2, rg_circuits := [(1, ?c)]\<rparr>"
  have "open_circuit sample_guard 0 20 = Inr (1, ?G)"
    by (simp add: open_circuit_def sample_guard_fields(1) bm_contains_def take_id_def relay_limits_default_def)
  then have G: "relay_step\<^sup>*\<^sup>* (relay_guard_new relay_limits_default) ?G"
    using sample_guard_reachable rs_open by (meson rtranclp.rtrancl_into_rtrancl)
  note enforced = circuits_enforced [OF G, of 0 0]
  have "bm_contains (rg_reservations ?G) 0"
    using enforced [THEN conjunct1, rule_format, of 1 ?c] by simp
  then show ?thesis
    using G by (intro exI [of _ ?G]) (simp add: release_def)
qed

section \<open>Media relays\<close>

text \<open>
  C28. What a media relay sends stays within what it promised: over any run of frames, refills with a
  clock that does not go back, and calls taken on and dropped, the bytes that leave the node, each
  frame counted once for every copy, are at most the burst allowance plus the declared rate times
  the time between the first and the last refill.
\<close>

theorem media_budget:
  assumes "frames_small es" and "\<forall>t\<in>set (tick_times es). after_epoch t" and "sorted (map sint (tick_times es))"
  shows "1000 * snd (media_run limits es) \<le>
    1000 * unat (burst_bytes limits) +
    (if tick_times es = [] then 0
     else unat (forward_bytes_per_sec limits) * nat (sint (last (tick_times es)) - sint (hd (tick_times es))))"
  using media_run_inv [OF assms, of limits] by (simp add: media_inv_def media_ceiling_def)

theorem media_budget_witness:
  "snd (media_run \<lparr>max_calls = 1, max_participants_per_call = 3, forward_bytes_per_sec = 500, burst_bytes = 20\<rparr>
     [Carry 7 [1, 2, 3], Tick 0, Frame 7 1 Participants 10 9, Frame 7 1 Participants 10 9,
      Tick 20, Frame 7 1 Participants 5 9]) = 30 \<and> 1000 * 30 \<le> 1000 * 20 + 500 * (20 :: nat)"
proof -
  let ?l = "\<lparr>max_calls = 1, max_participants_per_call = 3, forward_bytes_per_sec = 500, burst_bytes = 20\<rparr>"
  let ?e = "[Carry 7 [1, 2, 3], Tick 0, Frame 7 1 Participants 10 9, Frame 7 1 Participants 10 9,
      Tick 20, Frame 7 1 Participants 5 9]"
  have "snd (media_run ?l ?e) = 30"
    by (simp add: media_run_def media_guard_new_def try_carry_def bs_collect_def refill_def authorize_frame_def
        bm_contains_def saturating_mul_u64_def saturating_add_u64_def refuse_def millis_since_def Let_def)
  moreover have "frames_small ?e"
    by (auto simp: frames_small_def)
  then have "1000 * snd (media_run ?l ?e) \<le> 1000 * 20 + 500 * (20 :: nat)"
    using media_budget [of ?e ?l] by (simp add: after_epoch_def)
  ultimately show ?thesis
    by simp
qed

text \<open>
  A relay is no reflector: a frame is forwarded only for a call the node carries and only when
  its sender takes part in it, and every copy goes to a participant; a frame for everybody goes to
  each participant but the sender and the relay itself, exactly once.
\<close>

theorem fan_out_confined:
  assumes "authorize_frame M call sender target sz self_id = (M', Inr fan)"
  shows "\<exists>ps. bm_get (mg_calls M) call = Some ps \<and> sender \<in> set ps \<and> set (fo_recipients fan) \<subseteq> set ps
    \<and> (target = Participants \<longrightarrow>
         set (fo_recipients fan) = set ps - {sender, self_id}
         \<and> (bs_ok ps \<longrightarrow> distinct (fo_recipients fan)) \<and> fo_deliver_locally fan = (self_id \<in> set ps))
    \<and> mg_calls M' = mg_calls M"
  using assms by (elim authorize_frame_Inr) (auto split: recipient.splits dest: bs_ok_distinct)

theorem fan_out_confined_witness:
  "\<exists>M' fan. authorize_frame ((media_guard_new media_limits_default)\<lparr>mg_calls := [(7, [1, 2, 3])]\<rparr>) 7 1 Participants 10 2
     = (M', Inr fan) \<and> set (fo_recipients fan) = {1, 2, 3} - {1, 2}"
proof -
  let ?M = "(media_guard_new media_limits_default)\<lparr>mg_calls := [(7, [1, 2, 3])]\<rparr>"
  obtain M' fan where "authorize_frame ?M 7 1 Participants 10 2 = (M', Inr fan)"
    by (simp add: authorize_frame_def media_guard_new_def media_limits_default_def saturating_mul_u64_def Let_def)
  then show ?thesis
    using fan_out_confined [of ?M 7 1 Participants 10 2 M' fan] by auto
qed

text \<open>
  The refill is only as trustworthy as the clock: every time the clock goes back and forth over
  the same interval the allowance of that interval is earned again, since a backward reading
  rebases the refill on the earlier time.
\<close>

theorem backward_clock_earns_twice:
  assumes "mg_last_refill M = Some early" and "after_epoch early" and "after_epoch late"
    and "sint early < sint late"
    and "unat (mg_allowance M) + 2 * (unat (forward_bytes_per_sec (mg_limits M)) * nat (sint late - sint early) div 1000)
      \<le> unat (burst_bytes (mg_limits M))"
  shows "unat (mg_allowance (refill (refill (refill M late) early) late)) =
    unat (mg_allowance M) + 2 * (unat (forward_bytes_per_sec (mg_limits M)) * nat (sint late - sint early) div 1000)"
proof -
  define q where "q = unat (forward_bytes_per_sec (mg_limits M)) * nat (sint late - sint early) div 1000"
  have small: "q < 2 ^ 64"
    using assms(5) unat_bound [of "burst_bytes (mg_limits M)"] by (simp add: q_def)
  have forward: "unat (mg_allowance (refill N late)) = unat (mg_allowance N) + q
      \<and> mg_limits (refill N late) = mg_limits M \<and> mg_last_refill (refill N late) = Some late"
    if N: "mg_last_refill N = Some early" "mg_limits N = mg_limits M"
      "unat (mg_allowance N) + q \<le> unat (burst_bytes (mg_limits M))" for N
  proof -
    have e: "sint (millis_since late early) = sint late - sint early" "\<not> sint late - sint early \<le> 0"
      using after_epoch_since [OF assms(3,2)] assms(4) by simp_all
    have "nat (sint late - sint early) < 2 ^ 64"
      using sint_lt [of late] assms(2) by (simp add: after_epoch_def)
    then have "unat (forward_bytes_per_sec (mg_limits M)) * nat (sint late - sint early) < 2 ^ 64 * 2 ^ 64"
      using unat_bound [of "forward_bytes_per_sec (mg_limits M)"] by (intro mult_strict_mono) auto
    then have wide: "min (unat (forward_bytes_per_sec (mg_limits M)) * nat (sint late - sint early)) (2 ^ 128 - 1)
        div 1000 = q"
      by (simp add: q_def)
    have "refill N late = N\<lparr>mg_allowance :=
        min (saturating_add_u64 (mg_allowance N) (of_nat q)) (burst_bytes (mg_limits M)), mg_last_refill := Some late\<rparr>"
      unfolding refill_def N(1,2) option.case Let_def e(1) wide
      using e(2) small by (simp only: if_False if_True)
    moreover have "unat (saturating_add_u64 (mg_allowance N) (of_nat q)) = unat (mg_allowance N) + q"
      using N(3) small unat_bound [of "burst_bytes (mg_limits M)"]
      by (simp add: saturating_add_u64_def unat_of_nat unat_word_ariths)
    ultimately show ?thesis
      using N by (simp add: min_def word_le_nat_alt)
  qed
  have first: "unat (mg_allowance (refill M late)) = unat (mg_allowance M) + q"
    "mg_limits (refill M late) = mg_limits M" "mg_last_refill (refill M late) = Some late"
    using forward [of M] assms(1,5) by (simp_all add: q_def)
  have "sint (millis_since early late) \<le> 0"
    using after_epoch_since [OF assms(2,3)] assms(4) by simp
  then have "refill (refill M late) early = (refill M late)\<lparr>mg_last_refill := Some early\<rparr>"
    using first(3) by (simp add: refill_def Let_def)
  then show ?thesis
    using forward [of "refill (refill M late) early"] first assms(5) by (simp add: q_def)
qed

theorem backward_clock_earns_twice_witness:
  "\<exists>M. mg_last_refill M = Some 0 \<and> mg_allowance M = 0 \<and> mg_allowance (refill M 20) = 10
     \<and> unat (mg_allowance (refill (refill (refill M 20) 0) 20)) = 20"
proof -
  let ?M = "(media_guard_new \<lparr>max_calls = 1, max_participants_per_call = 3, forward_bytes_per_sec = 500,
    burst_bytes = 20\<rparr>)\<lparr>mg_allowance := 0, mg_last_refill := Some 0\<rparr>"
  have "mg_allowance (refill ?M 20) = 10"
    by (simp add: refill_def media_guard_new_def millis_since_def saturating_add_u64_def Let_def)
  moreover have "unat (mg_allowance (refill (refill (refill ?M 20) 0) 20)) = 20"
    using backward_clock_earns_twice [of ?M 0 20] by (simp add: after_epoch_def media_guard_new_def)
  ultimately show ?thesis
    by (intro exI [of _ ?M]) (simp add: media_guard_new_def)
qed

section \<open>Direct messages\<close>

text \<open>
  The meter of direct messages cannot be flooded: over any run of arrivals in order of time, from
  any number of senders, at most five messages of each sender pass within any window of a minute
  that ends at or after the last arrival, and no more than 4096 senders are ever remembered.
\<close>

theorem direct_messages_bounded:
  assumes "sorted (map snd arrivals)" and "\<forall>a\<in>set arrivals. snd a \<le> t"
  shows "length (filter (\<lambda>p. fst p = sender \<and> t - snd p < window_nanos) (snd (direct_run arrivals))) \<le> 5
    \<and> length (dm_seen (fst (direct_run arrivals))) \<le> 4096"
proof -
  let ?p = "snd (direct_run arrivals)"
  have inv: "direct.tracks t (direct_history (fst (direct_run arrivals)) sender) (passed_from sender ?p)"
    "length (direct_history (fst (direct_run arrivals)) sender) \<le> per_window"
    "length (dm_seen (fst (direct_run arrivals))) \<le> max_tracked"
    using direct_run_inv [OF assms] by (auto simp: direct_inv_def)
  have "length (filter (\<lambda>p. fst p = sender \<and> t - snd p < window_nanos) ?p) =
      length (filter (direct_recent t) (passed_from sender ?p))"
    by (simp add: passed_from_def filter_map comp_def direct_recent_def conj_commute)
  then show ?thesis
    using direct.tracks_bound [OF inv(1,2), of t] inv(3) by (simp add: per_window_def max_tracked_def)
qed

theorem direct_messages_bounded_witness:
  "snd (direct_run [(3, 0), (3, 1), (3, 2), (3, 3), (3, 4), (3, 5)]) = [(3, 0), (3, 1), (3, 2), (3, 3), (3, 4)]
   \<and> length (dm_seen (fst (direct_run [(3, 0), (3, 1), (3, 2), (3, 3), (3, 4), (3, 5)]))) \<le> 4096"
  using direct_messages_bounded [of "[(3, 0), (3, 1), (3, 2), (3, 3), (3, 4), (3, 5)]" 5]
  by (simp add: direct_run_def direct_meter_new_def direct_admit_def direct_recent_def window_nanos_def
      max_tracked_def per_window_def Let_def)

end
