(* ===== verification/Utf8.thy ===== *)
theory Utf8
  imports Codec
begin

text \<open>
  Where a UTF-8 string may be cut: a byte string is well formed exactly when it is a sequence of
  characters of one to four bytes, so well-formed strings concatenate, and a well-formed string can
  be cut before any byte that does not continue a character (\<open>is_char_boundary\<close>).
\<close>


fun utf8_char :: "bytes \<Rightarrow> bool" where
  "utf8_char [a] = (a < 0x80)"
| "utf8_char [a, b] = (\<not> a < 0x80 \<and> 0xC2 \<le> a \<and> a \<le> 0xDF \<and> utf8_cont b)"
| "utf8_char [a, b, c] = (\<not> a < 0x80 \<and> \<not> (0xC2 \<le> a \<and> a \<le> 0xDF) \<and>
      (if a = 0xE0 then 0xA0 \<le> b \<and> b \<le> 0xBF \<and> utf8_cont c else
      if a = 0xED then 0x80 \<le> b \<and> b \<le> 0x9F \<and> utf8_cont c else
      0xE1 \<le> a \<and> a \<le> 0xEF \<and> utf8_cont b \<and> utf8_cont c))"
| "utf8_char [a, b, c, d] = (\<not> a < 0x80 \<and> \<not> (0xC2 \<le> a \<and> a \<le> 0xDF) \<and> a \<noteq> 0xE0 \<and> a \<noteq> 0xED \<and> \<not> (0xE1 \<le> a \<and> a \<le> 0xEF) \<and>
     (if a = 0xF0 then 0x90 \<le> b \<and> b \<le> 0xBF \<and> utf8_cont c \<and> utf8_cont d else
      if a = 0xF4 then 0x80 \<le> b \<and> b \<le> 0x8F \<and> utf8_cont c \<and> utf8_cont d else
      0xF1 \<le> a \<and> a \<le> 0xF3 \<and> utf8_cont b \<and> utf8_cont c \<and> utf8_cont d))"
| "utf8_char _ = False"

lemma utf8_char_append: "utf8_char c \<Longrightarrow> utf8_ok (c @ r) = utf8_ok r"
proof (induction c rule: utf8_char.induct)
  case (1 a)
  then show ?case by simp
next
  case (2 a b)
  then show ?case by auto
next
  case (3 a b c)
  then show ?case by (auto split: if_split_asm)
next
  case (4 a b c d)
  then show ?case by (auto split: if_split_asm)
qed simp_all

lemma utf8_ok_char:
  assumes "utf8_ok xs" and "xs \<noteq> []"
  obtains c r where "xs = c @ r" "utf8_char c" "utf8_ok r"
proof -
  obtain a xs1 where 1: "xs = a # xs1" using assms by (cases xs) auto
  show ?thesis
  proof (cases "a < 0x80")
    case True
    then show ?thesis using that [of "[a]" xs1] assms 1 by simp
  next
    case a: False
    then obtain b xs2 where 2: "xs1 = b # xs2" using assms 1 by (cases xs1) (auto split: if_split_asm)
    show ?thesis
    proof (cases "0xC2 \<le> a \<and> a \<le> 0xDF")
      case True
      then show ?thesis using that [of "[a, b]" xs2] assms 1 2 a by simp
    next
      case b: False
      then obtain c xs3 where 3: "xs2 = c # xs3" using assms 1 2 a by (cases xs2) (auto split: if_split_asm)
      show ?thesis
      proof (cases "a = 0xE0 \<or> a = 0xED \<or> 0xE1 \<le> a \<and> a \<le> 0xEF")
        case True
        then show ?thesis using that [of "[a, b, c]" xs3] assms(1) a b unfolding 1 2 3 by (auto split: if_split_asm)
      next
        case c: False
        then obtain d xs4 where 4: "xs3 = d # xs4" using assms 1 2 3 a b by (cases xs3) (auto split: if_split_asm)
        show ?thesis using that [of "[a, b, c, d]" xs4] assms(1) a b c unfolding 1 2 3 4 by (auto split: if_split_asm)
      qed
    qed
  qed
qed

lemma utf8_char_tail: "utf8_char c \<Longrightarrow> c \<noteq> [] \<and> (\<forall>b\<in>set (tl c). utf8_cont b)"
proof (induction c rule: utf8_char.induct)
  case (3 a b c)
  then show ?case by (auto simp: utf8_cont_def split: if_split_asm intro: order_trans [of "0x80" "0xA0"] order_trans [of _ "0x9F" "0xBF"])
next
  case (4 a b c d)
  then show ?case by (auto simp: utf8_cont_def split: if_split_asm intro: order_trans [of "0x80" "0x90"] order_trans [of _ "0x8F" "0xBF"])
qed simp_all

lemma utf8_append: "utf8_ok xs \<Longrightarrow> utf8_ok (xs @ ys) = utf8_ok ys"
proof (induction "length xs" arbitrary: xs rule: less_induct)
  case less
  show ?case
  proof (cases "xs = []")
    case False
    then obtain c r where c: "xs = c @ r" "utf8_char c" "utf8_ok r"
      using less.prems utf8_ok_char by blast
    then show ?thesis
      using less.hyps [of r] utf8_char_tail [of c] utf8_char_append [OF c(2), of "r @ ys"] by simp
  qed simp
qed

definition char_start :: "bytes \<Rightarrow> bool" where
  "char_start ys \<longleftrightarrow> ys = [] \<or> \<not> utf8_cont (hd ys)"

lemma utf8_split: "utf8_ok (xs @ ys) \<Longrightarrow> char_start ys \<Longrightarrow> utf8_ok xs \<and> utf8_ok ys"
proof (induction "length xs" arbitrary: xs rule: less_induct)
  case less
  show ?case
  proof (cases "xs = []")
    case True
    then show ?thesis
      using less.prems by simp
  next
    case False
    then obtain c r where c: "xs @ ys = c @ r" "utf8_char c" "utf8_ok r"
      using less.prems(1) utf8_ok_char [of "xs @ ys"] by blast
    obtain v where "xs = c @ v \<and> v @ ys = r \<or> xs @ v = c \<and> ys = v @ r"
      using c(1) by (auto simp: append_eq_append_conv2)
    then consider u where "xs = c @ u" "u @ ys = r" | u where "xs @ u = c" "ys = u @ r" "u \<noteq> []"
      by (cases "v = []") auto
    then show ?thesis
    proof cases
      case 1
      then show ?thesis
        using less.hyps [of u] less.prems(2) c(2,3) utf8_char_tail [OF c(2)] utf8_char_append [OF c(2), of u] by simp
    next
      case 2
      have "hd u \<in> set (tl c)"
        using 2 False by (cases xs) auto
      then have "utf8_cont (hd ys)"
        using 2 utf8_char_tail [OF c(2)] by simp
      then show ?thesis
        using 2 less.prems(2) by (simp add: char_start_def)
    qed
  qed
qed

lemma str_ok_append: "str_ok s \<Longrightarrow> str_ok t \<Longrightarrow> length (s @ t) < 2 ^ 64 \<Longrightarrow> str_ok (s @ t)"
  by (simp add: str_ok_def str_bytes_def utf8_append)

lemma str_ok_split:
  "str_ok (s @ t) \<Longrightarrow> char_start (str_bytes t) \<Longrightarrow> str_ok s \<and> str_ok t"
  using utf8_split [of "str_bytes s" "str_bytes t"] by (auto simp: str_ok_def str_bytes_def)

end
