(* ===== verification/Invite.thy ===== *)
theory Invite
  imports Utf8 Log Sample
begin

text \<open>
  Invitations and admission, \<open>intranet-invite\<close>: lib.rs (the signed invite and its validation),
  waiting_room.rs (identities awaiting admission), wire.rs (invites and join messages, with the
  addresses framed by their common ending), and the handlers of node.rs that answer a join
  (\<open>screen_join\<close>, \<open>decide_join\<close>) on the governance log and the waiting room they share.

  The transport's identifier of a peer is derived from its key by libp2p; it is the argument
  \<open>peer_id\<close> of the handler that compares it.
\<close>

section \<open>Invites\<close>

datatype invite_subject = Bearer | SubjectIdentity b32

datatype invite_error =
    InviteBadSignature
  | InviteNetworkMismatch string string
  | InviteExpired i64 i64
  | InviteNotYetValid i64 i64
  | IssuerNotAuthorized string
  | WrongSubject string string
  | InviteExhausted nat u32
  | NoBootstrapAddresses

record invite =
  iv_network :: b32
  iv_addresses :: "string list"
  iv_issuer :: b32
  iv_subject :: invite_subject
  iv_issued_at :: i64
  iv_expires_at :: i64
  iv_max_uses :: u32
  iv_signature :: b64

fun put_subject :: "invite_subject \<Rightarrow> bytes" where
  "put_subject Bearer = put_variant 0"
| "put_subject (SubjectIdentity i) = put_variant 1 @ put_fixed32 i"

definition invite_payload ::
  "b32 \<Rightarrow> string list \<Rightarrow> b32 \<Rightarrow> invite_subject \<Rightarrow> i64 \<Rightarrow> i64 \<Rightarrow> u32 \<Rightarrow> bytes" where
  "invite_payload network addresses issuer subject issued_at expires_at max_uses =
     enc_domain ''intranet.invite.v1'' @ put_fixed32 network @ put_seq put_str addresses
       @ put_fixed32 issuer @ put_subject subject @ put_i64 issued_at @ put_i64 expires_at @ put_u32 max_uses"

definition signing_payload :: "invite \<Rightarrow> bytes" where
  "signing_payload i =
     invite_payload (iv_network i) (iv_addresses i) (iv_issuer i) (iv_subject i) (iv_issued_at i)
       (iv_expires_at i) (iv_max_uses i)"

definition invite_issue ::
  "crypto \<Rightarrow> per_network_identity \<Rightarrow> string list \<Rightarrow> invite_subject \<Rightarrow> i64 \<Rightarrow> i64 \<Rightarrow> u32 \<Rightarrow> invite" where
  "invite_issue C issuer addresses subject issued_at expires_at max_uses =
     \<lparr>iv_network = pni_network issuer, iv_addresses = addresses, iv_issuer = pni_id C issuer,
      iv_subject = subject, iv_issued_at = issued_at, iv_expires_at = expires_at, iv_max_uses = max_uses,
      iv_signature = pni_sign C issuer
        (invite_payload (pni_network issuer) addresses (pni_id C issuer) subject issued_at expires_at max_uses)\<rparr>"

definition invite_id :: "crypto \<Rightarrow> invite \<Rightarrow> b32" where
  "invite_id C i = hash_bytes C (signing_payload i @ put_fixed64 (iv_signature i))"

definition provenance :: "crypto \<Rightarrow> invite \<Rightarrow> invite_provenance" where
  "provenance C i = \<lparr>ip_invite_id = invite_id C i, ip_issuer = iv_issuer i\<rparr>"

definition invite_verify_signature :: "crypto \<Rightarrow> invite \<Rightarrow> invite_error + unit" where
  "invite_verify_signature C i =
     (case vk_verify C (iv_issuer i) (signing_payload i) (iv_signature i) of
        Inl _ \<Rightarrow> Inl InviteBadSignature | Inr u \<Rightarrow> Inr u)"

definition invite_validate ::
  "crypto \<Rightarrow> invite \<Rightarrow> b32 \<Rightarrow> governance_state \<Rightarrow> i64 \<Rightarrow> invite_error + invite_provenance" where
  "invite_validate C i presenter st now =
     res_bind (invite_verify_signature C i) (\<lambda>_.
       if iv_network i \<noteq> gs_network st
       then Inl (InviteNetworkMismatch (short (iv_network i)) (short (gs_network st)))
       else if iv_addresses i = [] then Inl NoBootstrapAddresses
       else if sint now < sint (iv_issued_at i) then Inl (InviteNotYetValid (iv_issued_at i) now)
       else if sint now > sint (iv_expires_at i) then Inl (InviteExpired (iv_expires_at i) now)
       else
         (let authority =
            (if \<not> identity_holds st (iv_issuer i) ApproveNode
             then Inl (IssuerNotAuthorized (short (iv_issuer i)))
             else
               (let used = invite_use_count st (invite_id C i) in
                if used \<ge> unat (iv_max_uses i) then Inl (InviteExhausted used (iv_max_uses i))
                else Inr (provenance C i)))
          in case iv_subject i of
               SubjectIdentity named \<Rightarrow>
                 if named \<noteq> presenter then Inl (WrongSubject (short named) (short presenter)) else authority
             | Bearer \<Rightarrow> authority))"

section \<open>The waiting room\<close>

record waiting_entry =
  we_identity :: b32
  we_provenance :: invite_provenance
  we_arrived_at :: i64

type_synonym waiting_room = "(b32, waiting_entry) btree_map"

definition admit_to_waiting :: "waiting_room \<Rightarrow> b32 \<Rightarrow> invite_provenance \<Rightarrow> i64 \<Rightarrow> waiting_room" where
  "admit_to_waiting W identity prov arrived_at =
     (case bm_get W identity of
        Some _ \<Rightarrow> W
      | None \<Rightarrow> bm_insert identity
          \<lparr>we_identity = identity, we_provenance = prov, we_arrived_at = arrived_at\<rparr> W)"

definition waiting_remove :: "waiting_room \<Rightarrow> b32 \<Rightarrow> waiting_room" where
  "waiting_remove W identity = bm_remove identity W"

definition occupants :: "waiting_room \<Rightarrow> waiting_entry list" where
  "occupants W = sort_key (\<lambda>e. (sint (we_arrived_at e), we_identity e)) (bm_values W)"

definition waiting_reconcile :: "waiting_room \<Rightarrow> governance_state \<Rightarrow> waiting_room" where
  "waiting_reconcile W st = filter (\<lambda>(identity, _). \<not> is_member st identity) W"

definition visible_to :: "b32 \<Rightarrow> governance_state \<Rightarrow> bool" where
  "visible_to requester st = identity_holds st requester (ManageMembership everyone_id)"

definition arrivals_for_invite :: "waiting_room \<Rightarrow> b32 \<Rightarrow> nat" where
  "arrivals_for_invite W invite =
     length (filter (\<lambda>e. ip_invite_id (we_provenance e) = invite) (bm_values W))"

section \<open>Messages\<close>

definition max_bootstrap_addresses :: nat where
  "max_bootstrap_addresses = 32"

definition max_address_bytes :: nat where
  "max_address_bytes = 256"

datatype join_wire_error =
    JwMalformed decode_error
  | JwInvalidKey
  | JwBadSignature
  | JwTooLarge string nat nat
  | JwUnknownVariant string u8

abbreviation jr :: "(decode_error, 'a) reader \<Rightarrow> (join_wire_error, 'a) reader" where
  "jr \<equiv> rmap_err JwMalformed"

definition jw_get_identity :: "crypto \<Rightarrow> (join_wire_error, b32) reader" where
  "jw_get_identity C = dec_key C JwMalformed JwInvalidKey"

text \<open>How many bytes two addresses share at their ends.\<close>

definition shared_ending :: "string \<Rightarrow> string \<Rightarrow> nat" where
  "shared_ending a b = length (takeWhile (\<lambda>(x, y). x = y) (zip (rev a) (rev b)))"

definition is_char_boundary :: "string \<Rightarrow> nat \<Rightarrow> bool" where
  "is_char_boundary s i \<longleftrightarrow>
     i = 0 \<or> (if i \<ge> length s then i = length s else \<not> utf8_cont (of_nat (of_char (s ! i))))"

primrec back_off :: "string list \<Rightarrow> nat \<Rightarrow> nat" where
  "back_off addresses 0 = 0"
| "back_off addresses (Suc n) =
     (if list_all (\<lambda>a. is_char_boundary a (length a - Suc n)) addresses then Suc n
      else back_off addresses n)"

definition common_suffix :: "string list \<Rightarrow> string" where
  "common_suffix addresses =
     (case addresses of
        [] \<Rightarrow> []
      | first # rest \<Rightarrow>
          (let n = back_off addresses
                 (foldl (\<lambda>shortest a. min shortest (shared_ending first a)) (length first) rest)
           in drop (length first - n) first))"

definition put_addresses :: "string list \<Rightarrow> bytes" where
  "put_addresses addresses =
     (let ending = common_suffix addresses in
      put_str ending @ put_seq (\<lambda>a. put_str (take (length a - length ending) a)) addresses)"

definition get_address :: "string \<Rightarrow> (join_wire_error, string) reader" where
  "get_address ending =
     rbind (jr dec_str) (\<lambda>head.
       (let n = length head + length ending in
        if n > max_address_bytes then rfail (JwTooLarge ''bootstrap address'' n max_address_bytes)
        else rret (head @ ending)))"

definition get_addresses :: "(join_wire_error, string list) reader" where
  "get_addresses =
     rbind (jr dec_str) (\<lambda>ending.
     rbind (dec_seq JwMalformed (get_address ending)) (\<lambda>addresses.
       if length addresses > max_bootstrap_addresses
       then rfail (JwTooLarge ''bootstrap addresses'' (length addresses) max_bootstrap_addresses)
       else rret addresses))"

definition put_invite :: "invite \<Rightarrow> bytes" where
  "put_invite i =
     put_fixed32 (iv_network i) @ put_addresses (iv_addresses i) @ put_fixed32 (iv_issuer i)
       @ put_subject (iv_subject i) @ put_i64 (iv_issued_at i) @ put_i64 (iv_expires_at i)
       @ put_u32 (iv_max_uses i) @ put_fixed64 (iv_signature i)"

definition get_subject :: "crypto \<Rightarrow> (join_wire_error, invite_subject) reader" where
  "get_subject C =
     rbind (jr dec_variant) (\<lambda>v.
       if v = 0 then rret Bearer
       else if v = 1 then rbind (jw_get_identity C) (\<lambda>i. rret (SubjectIdentity i))
       else rfail (JwUnknownVariant ''InviteSubject'' v))"

definition get_invite :: "crypto \<Rightarrow> (join_wire_error, invite) reader" where
  "get_invite C =
     rbind (jr dec_fixed32) (\<lambda>network.
     rbind get_addresses (\<lambda>addresses.
     rbind (jw_get_identity C) (\<lambda>issuer.
     rbind (get_subject C) (\<lambda>subject.
     rbind (jr dec_i64) (\<lambda>issued_at.
     rbind (jr dec_i64) (\<lambda>expires_at.
     rbind (jr dec_u32) (\<lambda>max_uses.
     rbind (jr dec_fixed64) (\<lambda>signature.
       rret \<lparr>iv_network = network, iv_addresses = addresses, iv_issuer = issuer, iv_subject = subject,
             iv_issued_at = issued_at, iv_expires_at = expires_at, iv_max_uses = max_uses,
             iv_signature = signature\<rparr>))))))))"

definition invite_domain :: string where
  "invite_domain = ''intranet.wire.invite.v2''"

definition encode_invite :: "invite \<Rightarrow> bytes" where
  "encode_invite i = enc_domain invite_domain @ put_invite i"

definition decode_invite :: "crypto \<Rightarrow> bytes \<Rightarrow> join_wire_error + invite" where
  "decode_invite C b = decode_whole JwMalformed invite_domain (get_invite C) b"

record join_request =
  jq_joiner :: b32
  jq_invite :: invite
  jq_signature :: b64

definition join_payload :: "b32 \<Rightarrow> b32 \<Rightarrow> bytes" where
  "join_payload joiner invite = enc_domain ''intranet.join-request.v1'' @ put_fixed32 joiner @ put_fixed32 invite"

definition join_create :: "crypto \<Rightarrow> per_network_identity \<Rightarrow> invite \<Rightarrow> join_request" where
  "join_create C joiner i =
     \<lparr>jq_joiner = pni_id C joiner, jq_invite = i,
      jq_signature = pni_sign C joiner (join_payload (pni_id C joiner) (invite_id C i))\<rparr>"

definition join_verify :: "crypto \<Rightarrow> join_request \<Rightarrow> join_wire_error + unit" where
  "join_verify C q =
     (case vk_verify C (jq_joiner q) (join_payload (jq_joiner q) (invite_id C (jq_invite q))) (jq_signature q) of
        Inl _ \<Rightarrow> Inl JwBadSignature | Inr u \<Rightarrow> Inr u)"

definition join_request_domain :: string where
  "join_request_domain = ''intranet.wire.join-request.v1''"

definition put_join_request :: "join_request \<Rightarrow> bytes" where
  "put_join_request q = put_fixed32 (jq_joiner q) @ put_invite (jq_invite q) @ put_fixed64 (jq_signature q)"

definition encode_join_request :: "join_request \<Rightarrow> bytes" where
  "encode_join_request q = enc_domain join_request_domain @ put_join_request q"

definition get_join_request :: "crypto \<Rightarrow> (join_wire_error, join_request) reader" where
  "get_join_request C =
     rbind (jw_get_identity C) (\<lambda>joiner.
     rbind (get_invite C) (\<lambda>i.
     rbind (jr dec_fixed64) (\<lambda>signature.
       rret \<lparr>jq_joiner = joiner, jq_invite = i, jq_signature = signature\<rparr>)))"

definition decode_join_request :: "crypto \<Rightarrow> bytes \<Rightarrow> join_wire_error + join_request" where
  "decode_join_request C b =
     decode_verified JwMalformed join_request_domain (get_join_request C) (join_verify C) b"

datatype join_refusal =
  InviteInvalid | CannotEvaluate | NotConnectionOwner | InviteCeilingReached | AlreadyMember

datatype join_response = JoinAdmitted b32 | JoinWaiting | JoinRefused join_refusal

definition join_response_domain :: string where
  "join_response_domain = ''intranet.wire.join-response.v1''"

fun join_refusal_tag :: "join_refusal \<Rightarrow> u8" where
  "join_refusal_tag InviteInvalid = 0"
| "join_refusal_tag CannotEvaluate = 1"
| "join_refusal_tag NotConnectionOwner = 2"
| "join_refusal_tag InviteCeilingReached = 3"
| "join_refusal_tag AlreadyMember = 4"

fun put_join_response :: "join_response \<Rightarrow> bytes" where
  "put_join_response (JoinAdmitted entry) = put_variant 0 @ put_fixed32 entry"
| "put_join_response JoinWaiting = put_variant 1"
| "put_join_response (JoinRefused reason) = put_variant 2 @ put_u8 (join_refusal_tag reason)"

definition encode_join_response :: "join_response \<Rightarrow> bytes" where
  "encode_join_response m = enc_domain join_response_domain @ put_join_response m"

definition get_join_refusal :: "(join_wire_error, join_refusal) reader" where
  "get_join_refusal = rbind (jr dec_u8) (\<lambda>t.
     if t = 0 then rret InviteInvalid
     else if t = 1 then rret CannotEvaluate
     else if t = 2 then rret NotConnectionOwner
     else if t = 3 then rret InviteCeilingReached
     else if t = 4 then rret AlreadyMember
     else rfail (JwUnknownVariant ''JoinRefusal'' t))"

definition get_join_response :: "(join_wire_error, join_response) reader" where
  "get_join_response = rbind (jr dec_variant) (\<lambda>v.
     if v = 0 then rbind (jr dec_fixed32) (\<lambda>entry. rret (JoinAdmitted entry))
     else if v = 1 then rret JoinWaiting
     else if v = 2 then rbind get_join_refusal (\<lambda>reason. rret (JoinRefused reason))
     else rfail (JwUnknownVariant ''JoinResponse'' v))"

definition decode_join_response :: "bytes \<Rightarrow> join_wire_error + join_response" where
  "decode_join_response b = decode_whole JwMalformed join_response_domain get_join_response b"

section \<open>Answering a join\<close>

record join_node =
  jn_log :: governance_log
  jn_waiting :: waiting_room
  jn_inbound :: "(u64, join_request) btree_map"
  jn_next :: u64

definition node_state :: "crypto \<Rightarrow> governance_log \<Rightarrow> governance_state option" where
  "node_state C L = (case replay_canonical C L of Some (Inr st) \<Rightarrow> Some st | _ \<Rightarrow> None)"

definition screen_join ::
  "crypto \<Rightarrow> (b32 \<Rightarrow> 'p) \<Rightarrow> join_node \<Rightarrow> join_request \<Rightarrow> 'p \<Rightarrow> join_refusal + unit" where
  "screen_join C peer_id N q peer =
     (if peer_id (jq_joiner q) \<noteq> peer then Inl NotConnectionOwner
      else case node_state C (jn_log N) of
        None \<Rightarrow> Inl CannotEvaluate
      | Some st \<Rightarrow>
          if is_member st (jq_joiner q) then Inl AlreadyMember
          else
            (let iid = invite_id C (jq_invite q);
                 used = invite_use_count st iid;
                 remaining = unat (iv_max_uses (jq_invite q)) - used
             in if arrivals_for_invite (jn_waiting N) iid \<ge> remaining then Inl InviteCeilingReached
                else Inr ()))"

definition log_tip :: "governance_log \<Rightarrow> b32 option" where
  "log_tip L =
     (case canonical_chain L of
        None \<Rightarrow> None | Some chain \<Rightarrow> if chain = [] then None else Some (last chain))"

definition decide_join ::
  "crypto \<Rightarrow> join_node \<Rightarrow> join_request \<Rightarrow> per_network_identity \<Rightarrow> i64 \<Rightarrow> join_node \<times> join_response" where
  "decide_join C N q identity now =
     (case node_state C (jn_log N) of
        None \<Rightarrow> (N, JoinRefused CannotEvaluate)
      | Some st \<Rightarrow>
          (case invite_validate C (jq_invite q) (jq_joiner q) st now of
             Inl _ \<Rightarrow> (N, JoinRefused InviteInvalid)
           | Inr prov \<Rightarrow>
               (case admission_mode (gs_policy st) of
                  AutoAdmit \<Rightarrow>
                    (let e = entry_create C identity (log_tip (jn_log N)) now
                           (MembershipChange everyone_id (jq_joiner q) (Add (Some prov)))
                     in case log_insert C (jn_log N) e of
                          Inr (h, L) \<Rightarrow>
                            (N\<lparr>jn_log := L, jn_waiting := waiting_remove (jn_waiting N) (jq_joiner q)\<rparr>,
                             JoinAdmitted h)
                        | Inl _ \<Rightarrow> (N, JoinRefused CannotEvaluate))
                | ExplicitIntake \<Rightarrow>
                    (N\<lparr>jn_waiting := admit_to_waiting (jn_waiting N) (jq_joiner q) prov now\<rparr>, JoinWaiting))))"

text \<open>
  A request that passes the screening is kept until the application answers or declines it; the
  answer to the peer is the refusal or, later, the response.
\<close>

definition receive_join ::
  "crypto \<Rightarrow> (b32 \<Rightarrow> 'p) \<Rightarrow> join_node \<Rightarrow> join_request \<Rightarrow> 'p \<Rightarrow> join_node \<times> (join_refusal + u64)" where
  "receive_join C peer_id N q peer =
     (case screen_join C peer_id N q peer of
        Inl reason \<Rightarrow> (N, Inl reason)
      | Inr _ \<Rightarrow> (N\<lparr>jn_inbound := bm_insert (jn_next N) q (jn_inbound N), jn_next := jn_next N + 1\<rparr>,
                 Inr (jn_next N)))"

definition answer_join ::
  "crypto \<Rightarrow> join_node \<Rightarrow> u64 \<Rightarrow> per_network_identity \<Rightarrow> i64 \<Rightarrow> join_node \<times> join_response option" where
  "answer_join C N request identity now =
     (case bm_get (jn_inbound N) request of
        None \<Rightarrow> (N, None)
      | Some q \<Rightarrow>
          (let (N', response) =
             decide_join C (N\<lparr>jn_inbound := bm_remove request (jn_inbound N)\<rparr>) q identity now
           in (N', Some response)))"

definition decline_join :: "join_node \<Rightarrow> u64 \<Rightarrow> join_refusal \<Rightarrow> join_node \<times> join_response option" where
  "decline_join N request reason =
     (case bm_get (jn_inbound N) request of
        None \<Rightarrow> (N, None)
      | Some _ \<Rightarrow> (N\<lparr>jn_inbound := bm_remove request (jn_inbound N)\<rparr>, Some (JoinRefused reason)))"

definition reconcile_waiting_room :: "crypto \<Rightarrow> join_node \<Rightarrow> join_node" where
  "reconcile_waiting_room C N =
     (if jn_waiting N = [] then N
      else case node_state C (jn_log N) of
        None \<Rightarrow> N
      | Some st \<Rightarrow> N\<lparr>jn_waiting := waiting_reconcile (jn_waiting N) st\<rparr>)"

definition append_entry ::
  "crypto \<Rightarrow> join_node \<Rightarrow> log_entry \<Rightarrow> governance_error + (b32 \<times> join_node)" where
  "append_entry C N e =
     res_bind (log_insert C (jn_log N) e) (\<lambda>(h, L). Inr (h, reconcile_waiting_room C (N\<lparr>jn_log := L\<rparr>)))"

section \<open>Validation\<close>

lemma invite_verify_Inr:
  "invite_verify_signature C i = Inr u \<longleftrightarrow>
     key_valid C (iv_issuer i) \<and> ed_verify C (iv_issuer i) (signing_payload i) (iv_signature i)"
  by (auto simp: invite_verify_signature_def vk_verify_def)

lemma invite_issue_verifies:
  "sign_correct C \<Longrightarrow> invite_verify_signature C (invite_issue C issuer as s t u n) = Inr ()"
  by (simp add: invite_verify_Inr invite_issue_def signing_payload_def pni_sign_def pni_id_def sign_correct_def)

lemma invite_validate_Inr:
  "invite_validate C i presenter st now = Inr prov \<longleftrightarrow>
     invite_verify_signature C i = Inr () \<and> iv_network i = gs_network st \<and> iv_addresses i \<noteq> []
     \<and> sint (iv_issued_at i) \<le> sint now \<and> sint now \<le> sint (iv_expires_at i)
     \<and> (\<forall>named. iv_subject i = SubjectIdentity named \<longrightarrow> named = presenter)
     \<and> identity_holds st (iv_issuer i) ApproveNode
     \<and> invite_use_count st (invite_id C i) < unat (iv_max_uses i)
     \<and> prov = provenance C i"
  by (auto simp: invite_validate_def res_bind_Inr_iff Let_def split: if_splits invite_subject.splits)

section \<open>The common ending of the addresses\<close>

lemma common_start:
  defines "k xs ys \<equiv> length (takeWhile (\<lambda>(x, y). x = y) (zip xs ys))"
  shows "k xs ys \<le> length xs \<and> k xs ys \<le> length ys \<and> take (k xs ys) xs = take (k xs ys) ys"
  unfolding k_def
proof (induction xs arbitrary: ys)
  case (Cons x xs)
  then show ?case
    by (cases ys) auto
qed simp

lemma shared_ending_drop:
  assumes "n \<le> shared_ending a b"
  shows "n \<le> length a \<and> n \<le> length b \<and> drop (length a - n) a = drop (length b - n) b"
proof -
  note start = common_start [of "rev a" "rev b", folded shared_ending_def]
  have "take n (rev a) = take n (rev b)"
    using start assms by (metis min.absorb2 min.commute take_take)
  then have "rev (drop (length a - n) a) = rev (drop (length b - n) b)"
    by (simp add: take_rev)
  then show ?thesis
    using start assms by simp
qed

lemma shared_ending_self: "shared_ending a a = length a"
proof -
  have "length (takeWhile (\<lambda>(x, y). x = y) (zip xs xs)) = length xs" for xs :: string
    by (induction xs) auto
  from this [of "rev a"] show ?thesis
    by (simp add: shared_ending_def)
qed

lemma back_off_le: "back_off as n \<le> n"
  by (induction n) auto

lemma back_off_boundary:
  "back_off as n = 0 \<or> list_all (\<lambda>a. is_char_boundary a (length a - back_off as n)) as"
  by (induction n) auto

lemma foldl_min_le:
  fixes f :: "'a \<Rightarrow> nat"
  shows "foldl (\<lambda>s a. min s (f a)) n xs \<le> n \<and> (\<forall>x\<in>set xs. foldl (\<lambda>s a. min s (f a)) n xs \<le> f x)"
proof (induction xs arbitrary: n)
  case (Cons x xs)
  then show ?case
    using Cons.IH [of "min n (f x)"] by (auto intro: order_trans)
qed simp

lemma common_suffix_ending:
  assumes "a \<in> set addresses"
  shows "a = take (length a - length (common_suffix addresses)) a @ common_suffix addresses"
    and "common_suffix addresses = [] \<or> is_char_boundary a (length a - length (common_suffix addresses))"
proof -
  obtain first rest where adr: "addresses = first # rest"
    using assms by (cases addresses) auto
  define m where "m = foldl (\<lambda>s b. min s (shared_ending first b)) (length first) rest"
  define n where "n = back_off addresses m"
  have suf: "common_suffix addresses = drop (length first - n) first"
    by (simp add: common_suffix_def adr n_def m_def Let_def)
  have "n \<le> shared_ending first a"
    using assms back_off_le [of addresses m] foldl_min_le [of "shared_ending first" "length first" rest]
    by (auto simp: adr n_def m_def shared_ending_self intro: order_trans)
  then have n: "n \<le> length first" "n \<le> length a" "drop (length first - n) first = drop (length a - n) a"
    using shared_ending_drop by blast+
  then have len: "length (common_suffix addresses) = n"
    by (simp add: suf)
  show "a = take (length a - length (common_suffix addresses)) a @ common_suffix addresses"
    unfolding len using n(3) by (simp add: suf)
  show "common_suffix addresses = [] \<or> is_char_boundary a (length a - length (common_suffix addresses))"
    using back_off_boundary [of addresses m] assms len by (auto simp: n_def list_all_iff)
qed

lemma boundary_split:
  assumes "str_ok a" and "is_char_boundary a i" and "i \<le> length a"
  shows "str_ok (take i a) \<and> str_ok (drop i a)"
proof (cases "i = 0 \<or> i = length a")
  case True
  then show ?thesis
    using assms(1) by (auto simp: str_ok_def str_bytes_def)
next
  case False
  then have "\<not> utf8_cont (of_nat (of_char (a ! i)))" "drop i a = a ! i # drop (Suc i) a"
    using assms(2,3) by (auto simp: is_char_boundary_def Cons_nth_drop_Suc split: if_splits)
  then have "char_start (str_bytes (drop i a))"
    by (simp add: char_start_def str_bytes_def)
  then show ?thesis
    using assms(1) str_ok_split [of "take i a" "drop i a"] by simp
qed

lemma common_suffix_pieces:
  assumes "list_all str_ok addresses" and "a \<in> set addresses"
  shows "str_ok (take (length a - length (common_suffix addresses)) a) \<and> str_ok (common_suffix addresses)"
proof (cases "common_suffix addresses = []")
  case True
  then show ?thesis
    using assms by (auto simp: list_all_iff str_ok_def str_bytes_def)
next
  case False
  let ?i = "length a - length (common_suffix addresses)"
  have "is_char_boundary a ?i"
    using common_suffix_ending(2) [OF assms(2)] False by simp
  moreover have "drop ?i a = common_suffix addresses"
    using common_suffix_ending(1) [OF assms(2)] by (metis append_take_drop_id same_append_eq)
  ultimately have "is_char_boundary a ?i" "drop ?i a = common_suffix addresses"
    by simp_all
  then show ?thesis
    using boundary_split [of a ?i] assms by (simp add: list_all_iff)
qed

section \<open>Messages read back\<close>

interpretation jident: exact_codec "key_valid C" put_fixed32 "jw_get_identity C" for C
  unfolding jw_get_identity_def by (rule exact_key)

definition addr_ok :: "string \<Rightarrow> bool" where
  "addr_ok a \<longleftrightarrow> str_ok a \<and> length a \<le> max_address_bytes"

definition addresses_ok :: "string list \<Rightarrow> bool" where
  "addresses_ok as \<longleftrightarrow> list_all addr_ok as \<and> length as \<le> max_bootstrap_addresses"

lemma reads_address: "str_ok s \<Longrightarrow> reads addr_ok (get_address s)"
  unfolding get_address_def
  by (rule reads_rbind [OF reads_wire(9)])
    (auto simp: Let_def addr_ok_def max_address_bytes_def intro!: reads_rret reads_rfail str_ok_append)

text \<open>Each address is written without the ending, so its codec depends on the ending.\<close>

lemma codec_address:
  assumes "str_ok s"
  shows "codec (\<lambda>a. addr_ok a \<and> a = take (length a - length s) a @ s \<and> str_ok (take (length a - length s) a))
    (\<lambda>a. put_str (take (length a - length s) a)) (get_address s)"
proof
  fix a r
  assume a: "addr_ok a \<and> a = take (length a - length s) a @ s \<and> str_ok (take (length a - length s) a)"
  then have "length a = length (take (length a - length s) a) + length s"
    by (metis length_append)
  then show "get_address s (put_str (take (length a - length s) a) @ r) = Inr (a, r)"
    using a by (simp add: get_address_def reader_simps addr_ok_def Let_def)
  show "put_str (take (length a - length s) a) \<noteq> []"
    by (simp add: put_str_def put_bytes_def u64.put_nonempty)
qed

interpretation adrs: checked_codec addresses_ok put_addresses get_addresses
proof
  fix as r
  assume ok: "addresses_ok as"
  define s where "s = common_suffix as"
  have strs: "list_all str_ok as"
    using ok by (simp add: addresses_ok_def addr_ok_def list_all_iff)
  have s: "str_ok s"
    using common_suffix_pieces [OF strs] strs
    by (cases as) (auto simp: s_def common_suffix_def str_ok_def str_bytes_def)
  have "seq_ok (\<lambda>a. addr_ok a \<and> a = take (length a - length s) a @ s \<and> str_ok (take (length a - length s) a)) as"
    using ok common_suffix_ending(1) [of _ as] common_suffix_pieces [OF strs]
    by (auto simp: seq_ok_def len_ok_def addresses_ok_def list_all_iff s_def max_bootstrap_addresses_def)
  then show "get_addresses (put_addresses as @ r) = Inr (as, r)"
    using ok s codec.get_put [OF codec_seq [OF codec_address [OF s]], of as "JwMalformed" r]
    by (simp add: get_addresses_def put_addresses_def s_def [symmetric] reader_simps addresses_ok_def)
  show "put_addresses as \<noteq> []"
    by (simp add: put_addresses_def put_str_def put_bytes_def u64.put_nonempty Let_def)
next
  show "reads addresses_ok get_addresses"
    unfolding get_addresses_def
    by (intro reads_rbind [OF reads_wire(9)] reads_rbind [OF reads_seq_ok [OF reads_address]])
      (auto simp: addresses_ok_def seq_ok_def intro!: reads_rret reads_rfail)
qed

fun subject_ok :: "crypto \<Rightarrow> invite_subject \<Rightarrow> bool" where
  "subject_ok C Bearer = True"
| "subject_ok C (SubjectIdentity i) = key_valid C i"

interpretation subj: exact_codec "subject_ok C" put_subject "get_subject C" for C
proof
  fix x r
  assume "subject_ok C x"
  then show "get_subject C (put_subject x @ r) = Inr (x, r)"
    by (cases x) (simp_all add: get_subject_def reader_simps jident.get_put)
  show "put_subject x \<noteq> []"
    by (cases x) (simp_all add: nonempty_simps)
next
  fix b x r
  assume "get_subject C b = Inr (x, r)"
  then show "subject_ok C x \<and> b = put_subject x @ r"
    by (auto simp: get_subject_def rbind_eq_Inr dest!: variant.get_exact jident.get_exact split: if_splits)
qed

definition invite_ok :: "crypto \<Rightarrow> invite \<Rightarrow> bool" where
  "invite_ok C i \<longleftrightarrow> addresses_ok (iv_addresses i) \<and> key_valid C (iv_issuer i) \<and> subject_ok C (iv_subject i)"

interpretation inv: checked_codec "invite_ok C" put_invite "get_invite C" for C
proof
  fix x r
  assume "invite_ok C x"
  then show "get_invite C (put_invite x @ r) = Inr (x, r)"
    by (simp add: invite_ok_def get_invite_def put_invite_def reader_simps adrs.get_put jident.get_put
        subj.get_put)
  show "put_invite x \<noteq> []"
    by (simp add: put_invite_def nonempty_simps)
next
  show "reads (invite_ok C) (get_invite C)"
    unfolding get_invite_def
    by (intro reads_rbind [OF reads_wire(5)] reads_rbind [OF adrs.accepts] reads_rbind [OF jident.exact_reads]
        reads_rbind [OF subj.exact_reads] reads_rbind [OF reads_wire(4)] reads_rbind [OF reads_wire(2)]
        reads_rbind [OF reads_wire(6)] reads_rret) (simp add: invite_ok_def)
qed

definition join_ok :: "crypto \<Rightarrow> join_request \<Rightarrow> bool" where
  "join_ok C q \<longleftrightarrow> key_valid C (jq_joiner q) \<and> invite_ok C (jq_invite q)"

interpretation join: checked_codec "join_ok C" put_join_request "get_join_request C" for C
proof
  fix x r
  assume "join_ok C x"
  then show "get_join_request C (put_join_request x @ r) = Inr (x, r)"
    by (simp add: join_ok_def get_join_request_def put_join_request_def reader_simps inv.get_put jident.get_put)
  show "put_join_request x \<noteq> []"
    by (simp add: put_join_request_def nonempty_simps)
next
  show "reads (join_ok C) (get_join_request C)"
    unfolding get_join_request_def
    by (intro reads_rbind [OF jident.exact_reads] reads_rbind [OF inv.accepts] reads_rbind [OF reads_wire(6)]
        reads_rret) (simp add: join_ok_def)
qed

interpretation jresp: exact_codec "\<lambda>_. True" put_join_response get_join_response
proof
  fix x r
  have tag: "get_join_refusal (put_u8 (join_refusal_tag e) @ r) = Inr (e, r)" for e
    by (cases e) (simp_all add: get_join_refusal_def reader_simps)
  show "get_join_response (put_join_response x @ r) = Inr (x, r)"
    by (cases x) (simp_all add: get_join_response_def reader_simps tag)
  show "put_join_response x \<noteq> []"
    by (cases x) (simp_all add: nonempty_simps)
next
  fix b x r
  assume get: "get_join_response b = Inr (x, r)"
  have tag: "b = put_u8 (join_refusal_tag e) @ r" if "get_join_refusal b = Inr (e, r)" for b e
    using that by (auto simp: get_join_refusal_def rbind_eq_Inr dest!: u8.get_exact split: if_splits)
  show "True \<and> b = put_join_response x @ r"
    using get by (auto simp: get_join_response_def rbind_eq_Inr dest!: variant.get_exact fixed32.get_exact tag
        split: if_splits)
qed

lemma join_domains_ok:
  "str_ok invite_domain" "str_ok join_request_domain" "str_ok join_response_domain"
  by (simp_all add: str_ok_def str_bytes_def invite_domain_def join_request_domain_def join_response_domain_def)

end
