(* ===== verification/Admission.thy ===== *)
theory Admission
  imports Invite Consensus
begin

text \<open>
  What invitations and the waiting room guarantee, over every run of the handlers that answer
  joins: who can be waiting, which invites are accepted, that messages read back and are signed
  by the joiner, and the places where the admission of node.rs falls short of its description.
\<close>

section \<open>Runs of the handlers\<close>

inductive join_step :: "crypto \<Rightarrow> (b32 \<Rightarrow> 'p) \<Rightarrow> join_node \<Rightarrow> join_node \<Rightarrow> bool" for C peer_id where
  receives: "receive_join C peer_id N q peer = (N', r) \<Longrightarrow> join_step C peer_id N N'"
| answers: "answer_join C N request identity now = (N', r) \<Longrightarrow> join_step C peer_id N N'"
| declines: "decline_join N request reason = (N', r) \<Longrightarrow> join_step C peer_id N N'"
| appends: "append_entry C N e = Inr (h, N') \<Longrightarrow> join_step C peer_id N N'"
| reconciles: "join_step C peer_id N (reconcile_waiting_room C N)"

definition join_node_new :: join_node where
  "join_node_new = \<lparr>jn_log = empty_log, jn_waiting = [], jn_inbound = [], jn_next = 0\<rparr>"

lemma decide_join_cases:
  assumes "decide_join C N q identity now = (N', r)"
  obtains (refused) why where "N' = N" "r = JoinRefused why"
  | (admitted) st p h L where "node_state C (jn_log N) = Some st"
      "invite_validate C (jq_invite q) (jq_joiner q) st now = Inr p" "admission_mode (gs_policy st) = AutoAdmit"
      "log_insert C (jn_log N) (entry_create C identity (log_tip (jn_log N)) now
         (MembershipChange everyone_id (jq_joiner q) (Add (Some p)))) = Inr (h, L)"
      "N' = N\<lparr>jn_log := L, jn_waiting := waiting_remove (jn_waiting N) (jq_joiner q)\<rparr>" "r = JoinAdmitted h"
  | (waiting) st p where "node_state C (jn_log N) = Some st"
      "invite_validate C (jq_invite q) (jq_joiner q) st now = Inr p"
      "admission_mode (gs_policy st) = ExplicitIntake"
      "N' = N\<lparr>jn_waiting := admit_to_waiting (jn_waiting N) (jq_joiner q) p now\<rparr>" "r = JoinWaiting"
proof (cases "node_state C (jn_log N)")
  case None
  then show ?thesis
    using assms refused [of CannotEvaluate] by (simp add: decide_join_def)
next
  case st: (Some st)
  show ?thesis
  proof (cases "invite_validate C (jq_invite q) (jq_joiner q) st now")
    case (Inl e)
    then show ?thesis
      using assms refused [of InviteInvalid] st by (simp add: decide_join_def)
  next
    case p: (Inr p)
    let ?e = "entry_create C identity (log_tip (jn_log N)) now
         (MembershipChange everyone_id (jq_joiner q) (Add (Some p)))"
    show ?thesis
    proof (cases "admission_mode (gs_policy st)")
      case AutoAdmit
      have dec: "(case log_insert C (jn_log N) ?e of
          Inr (h, L) \<Rightarrow>
            (N\<lparr>jn_log := L, jn_waiting := waiting_remove (jn_waiting N) (jq_joiner q)\<rparr>, JoinAdmitted h)
        | Inl _ \<Rightarrow> (N, JoinRefused CannotEvaluate)) = (N', r)"
        using assms by (simp add: decide_join_def st p AutoAdmit Let_def)
      show ?thesis
      proof (cases "log_insert C (jn_log N) ?e")
        case (Inl e)
        then show ?thesis
          using dec refused [of CannotEvaluate] by simp
      next
        case (Inr hl)
        then show ?thesis
          using dec admitted [OF st p AutoAdmit] by (cases hl) simp
      qed
    next
      case ExplicitIntake
      then show ?thesis
        using assms waiting [OF st p ExplicitIntake] by (simp add: decide_join_def st p)
    qed
  qed
qed

lemma get_reconcile:
  "bm_ok W \<Longrightarrow> bm_get (waiting_reconcile W st) k = (if is_member st k then None else bm_get W k)"
  unfolding waiting_reconcile_def by (induction W) auto

lemma room_reconciled:
  "bm_ok (jn_waiting N) \<Longrightarrow> bm_ok (jn_waiting (reconcile_waiting_room C N))
     \<and> (bm_get (jn_waiting (reconcile_waiting_room C N)) k = Some w \<longrightarrow> bm_get (jn_waiting N) k = Some w)"
  by (auto simp: reconcile_waiting_room_def get_reconcile split: option.splits if_splits)
    (auto simp: waiting_reconcile_def bm_ok_map_of)

text \<open>
  What a step does to the waiting room: its keys stay in order, and an occupant that was not there
  before was let in by an answer to its request, on the strength of an invite that was valid in the
  state the node replayed from its log at that moment.
\<close>

lemma step_room:
  assumes "join_step C peer_id N N'" and "bm_ok (jn_waiting N)"
  shows "bm_ok (jn_waiting N')"
    and "bm_get (jn_waiting N') k = Some w \<Longrightarrow> bm_get (jn_waiting N) k \<noteq> Some w \<Longrightarrow>
      \<exists>request identity q st. bm_get (jn_inbound N) request = Some q \<and> jq_joiner q = k
        \<and> answer_join C N request identity (we_arrived_at w) = (N', Some JoinWaiting)
        \<and> node_state C (jn_log N) = Some st \<and> we_identity w = k
        \<and> invite_validate C (jq_invite q) k st (we_arrived_at w) = Inr (we_provenance w)"
proof -
  have "bm_ok (jn_waiting N') \<and> (bm_get (jn_waiting N') k = Some w \<and> bm_get (jn_waiting N) k \<noteq> Some w \<longrightarrow>
      (\<exists>request identity q st. bm_get (jn_inbound N) request = Some q \<and> jq_joiner q = k
        \<and> answer_join C N request identity (we_arrived_at w) = (N', Some JoinWaiting)
        \<and> node_state C (jn_log N) = Some st \<and> we_identity w = k
        \<and> invite_validate C (jq_invite q) k st (we_arrived_at w) = Inr (we_provenance w)))"
    using assms(1)
  proof cases
    case (answers request identity now r)
    show ?thesis
    proof (cases "bm_get (jn_inbound N) request")
      case None
      then show ?thesis
        using answers assms(2) by (simp add: answer_join_def)
    next
      case (Some q)
      then obtain m where m: "decide_join C (N\<lparr>jn_inbound := bm_remove request (jn_inbound N)\<rparr>) q identity now = (N', m)"
          "r = Some m"
        using answers by (auto simp: answer_join_def split: prod.splits)
      from m(1) show ?thesis
      proof (cases rule: decide_join_cases)
        case (waiting st p)
        then show ?thesis
          using answers m(2) Some assms(2)
          by (auto simp: admit_to_waiting_def intro!: exI [of _ request] exI [of _ identity] exI [of _ q]
              split: option.splits if_splits)
      qed (use assms(2) in \<open>auto simp: waiting_remove_def split: if_splits\<close>)
    qed
  next
    case (appends e h)
    then show ?thesis
      using assms(2) room_reconciled [of "N\<lparr>jn_log := _\<rparr>" C k w]
      by (auto simp: append_entry_def res_bind_Inr_iff)
  next
    case reconciles
    then show ?thesis
      using assms(2) room_reconciled [of N C k w] by auto
  qed (use assms(2) in \<open>auto simp: receive_join_def decline_join_def split: option.splits sum.splits\<close>)
  then show "bm_ok (jn_waiting N')" and "bm_get (jn_waiting N') k = Some w \<Longrightarrow> bm_get (jn_waiting N) k \<noteq> Some w \<Longrightarrow>
      \<exists>request identity q st. bm_get (jn_inbound N) request = Some q \<and> jq_joiner q = k
        \<and> answer_join C N request identity (we_arrived_at w) = (N', Some JoinWaiting)
        \<and> node_state C (jn_log N) = Some st \<and> we_identity w = k
        \<and> invite_validate C (jq_invite q) k st (we_arrived_at w) = Inr (we_provenance w)"
    by blast+
qed

lemma reachable_room: "(join_step C peer_id)\<^sup>*\<^sup>* join_node_new N \<Longrightarrow> bm_ok (jn_waiting N)"
proof (induction rule: rtranclp_induct)
  case base
  show ?case
    by (simp add: join_node_new_def)
qed (rule step_room(1))

text \<open>The node on its way to \<open>N\<close>, when it let the occupant in.\<close>

lemma occupant_let_in:
  assumes "(join_step C peer_id)\<^sup>*\<^sup>* join_node_new N" and "bm_get (jn_waiting N) k = Some w"
  shows "\<exists>A B request identity q st. (join_step C peer_id)\<^sup>*\<^sup>* join_node_new A \<and> (join_step C peer_id)\<^sup>*\<^sup>* B N
    \<and> bm_get (jn_inbound A) request = Some q \<and> jq_joiner q = k
    \<and> answer_join C A request identity (we_arrived_at w) = (B, Some JoinWaiting)
    \<and> node_state C (jn_log A) = Some st \<and> we_identity w = k
    \<and> invite_validate C (jq_invite q) k st (we_arrived_at w) = Inr (we_provenance w)"
  using assms
proof (induction rule: rtranclp_induct)
  case base
  then show ?case
    by (simp add: join_node_new_def)
next
  case (step y z)
  show ?case
  proof (cases "bm_get (jn_waiting y) k = Some w")
    case True
    then show ?thesis
      using step.IH step.hyps(2) by (meson rtranclp.rtrancl_into_rtrancl)
  next
    case False
    then show ?thesis
      using step_room(2) [OF step.hyps(2) reachable_room [OF step.hyps(1)] step.prems] step.hyps(1) by blast
  qed
qed

text \<open>
  C26. Whoever is waiting came with an invite: in every state a node reaches by receiving,
  answering and declining joins, appending entries and reconciling, an identity in the waiting
  room was let in by an answer the node gave on its way there, to a join request of that identity
  that it had received. In the governance state which the node replayed from its own log when it
  answered, the invite of that request belonged to the network, its issuer held approve-node and
  it had admissions left; it was signed by the issuer, within its validity at the recorded time of
  arrival, and named the identity or nobody.
\<close>

theorem waiting_room_invited:
  assumes "(join_step C peer_id)\<^sup>*\<^sup>* join_node_new N" and "bm_get (jn_waiting N) k = Some w"
  shows "\<exists>A B request identity q st. (join_step C peer_id)\<^sup>*\<^sup>* join_node_new A \<and> (join_step C peer_id)\<^sup>*\<^sup>* B N
    \<and> bm_get (jn_inbound A) request = Some q \<and> jq_joiner q = k
    \<and> answer_join C A request identity (we_arrived_at w) = (B, Some JoinWaiting)
    \<and> node_state C (jn_log A) = Some st \<and> we_identity w = k \<and> we_provenance w = provenance C (jq_invite q)
    \<and> iv_network (jq_invite q) = gs_network st \<and> identity_holds st (iv_issuer (jq_invite q)) ApproveNode
    \<and> invite_use_count st (invite_id C (jq_invite q)) < unat (iv_max_uses (jq_invite q))
    \<and> ed_verify C (iv_issuer (jq_invite q)) (signing_payload (jq_invite q)) (iv_signature (jq_invite q))
    \<and> sint (iv_issued_at (jq_invite q)) \<le> sint (we_arrived_at w)
    \<and> sint (we_arrived_at w) \<le> sint (iv_expires_at (jq_invite q))
    \<and> iv_subject (jq_invite q) \<in> {Bearer, SubjectIdentity k}"
proof -
  obtain A B request identity q st where "(join_step C peer_id)\<^sup>*\<^sup>* join_node_new A" "(join_step C peer_id)\<^sup>*\<^sup>* B N"
      "bm_get (jn_inbound A) request = Some q" "jq_joiner q = k"
      "answer_join C A request identity (we_arrived_at w) = (B, Some JoinWaiting)"
      "node_state C (jn_log A) = Some st" "we_identity w = k"
      and ok: "invite_validate C (jq_invite q) k st (we_arrived_at w) = Inr (we_provenance w)"
    using occupant_let_in [OF assms] by blast
  moreover have "iv_subject (jq_invite q) \<in> {Bearer, SubjectIdentity k}"
    using ok unfolding invite_validate_Inr by (cases "iv_subject (jq_invite q)") auto
  ultimately show ?thesis
    using ok unfolding invite_validate_Inr invite_verify_Inr by blast
qed

section \<open>A node with one member\<close>

definition sample_invite :: invite where
  "sample_invite = invite_issue demo (who 1) [''/ip4/10.0.0.1''] Bearer 0 100 1"

definition sample_node :: join_node where
  "sample_node = join_node_new\<lparr>jn_log := fork_log\<rparr>"

definition sample_join :: "b32 \<Rightarrow> join_request" where
  "sample_join k = join_create demo (who k) sample_invite"

lemma sample_join_simps [simp]: "jq_joiner (sample_join k) = k" "jq_invite (sample_join k) = sample_invite"
  by (simp_all add: sample_join_def join_create_def)

lemma fork_state:
  obtains st where "node_state demo fork_log = Some st" "gs_network st = 7" "admission_mode (gs_policy st) = ExplicitIntake"
    "identity_holds st 1 ApproveNode" "\<And>i. invite_use_count st i = 0" "\<And>k. is_member st k \<longleftrightarrow> k = 1"
proof -
  obtain st where st: "replay demo [fork_root, fork_a] = Inr st" "gs_network st = 7"
      "admission_mode (gs_policy st) = ExplicitIntake" "identity_holds st 1 ApproveNode"
      "\<And>i. invite_use_count st i = 0" "\<And>k. is_member st k \<longleftrightarrow> k = 1"
    by (simp add: fork_root_def fork_a_def fork_policy_def sample_defs invite_use_count_def)
  show thesis
    by (rule that) (use st fork_canonical in \<open>auto simp: node_state_def replay_canonical_def fork_log_def\<close>)
qed

lemma sample_invite_valid:
  assumes "node_state demo fork_log = Some st"
  shows "invite_validate demo sample_invite k st 50 = Inr (provenance demo sample_invite)"
proof -
  obtain s where "node_state demo fork_log = Some s" "gs_network s = 7" "identity_holds s 1 ApproveNode"
    "\<And>i. invite_use_count s i = 0"
    using fork_state by metis
  then show ?thesis
    using assms by (simp add: invite_validate_Inr sample_invite_def invite_issue_verifies demo_sign_correct)
      (simp add: invite_issue_def)
qed

lemma room_follows_log:
  assumes "insert_all C (jn_log N) es = Inr L" and "jn_waiting N = []"
  shows "(join_step C peer_id)\<^sup>*\<^sup>* N (N\<lparr>jn_log := L\<rparr>)"
  using assms
proof (induction es arbitrary: N)
  case (Cons e es)
  then obtain h L1 where ins: "log_insert C (jn_log N) e = Inr (h, L1)" and rest: "insert_all C L1 es = Inr L"
    by (auto simp: res_bind_Inr_iff)
  have "append_entry C N e = Inr (h, N\<lparr>jn_log := L1\<rparr>)"
    using ins Cons.prems(2) by (simp add: append_entry_def res_bind_Inr_iff reconcile_waiting_room_def)
  then have "join_step C peer_id N (N\<lparr>jn_log := L1\<rparr>)"
    by (rule join_step.appends)
  moreover have "(join_step C peer_id)\<^sup>*\<^sup>* (N\<lparr>jn_log := L1\<rparr>) (N\<lparr>jn_log := L\<rparr>)"
    using Cons.IH [of "N\<lparr>jn_log := L1\<rparr>"] rest Cons.prems(2) by simp
  ultimately show ?case
    by (rule converse_rtranclp_into_rtranclp)
qed auto

lemma sample_reachable: "(join_step demo peer_id)\<^sup>*\<^sup>* join_node_new sample_node"
  unfolding sample_node_def
  by (rule room_follows_log [of _ _ "[fork_root, fork_a, fork_b]"])
    (use fork_insert_all(1) in \<open>simp_all add: join_node_new_def del: insert_all.simps\<close>)

lemma sample_receive:
  assumes "k \<noteq> 1" and "jn_log N = fork_log" and "jn_waiting N = []"
  shows "receive_join demo peer_id N (sample_join k) (peer_id k) =
    (N\<lparr>jn_inbound := bm_insert (jn_next N) (sample_join k) (jn_inbound N), jn_next := jn_next N + 1\<rparr>,
     Inr (jn_next N))"
proof -
  obtain st where "node_state demo fork_log = Some st" "\<And>i. invite_use_count st i = 0"
      "\<And>k. is_member st k \<longleftrightarrow> k = 1"
    using fork_state by metis
  then have "screen_join demo peer_id N (sample_join k) (peer_id k) = Inr ()"
    using assms by (simp add: screen_join_def arrivals_for_invite_def bm_values_def Let_def)
      (simp add: sample_invite_def invite_issue_def)
  then show ?thesis
    by (simp add: receive_join_def)
qed

lemma sample_decide:
  assumes "jn_log N = fork_log"
  shows "decide_join demo N (sample_join k) identity 50 =
    (N\<lparr>jn_waiting := admit_to_waiting (jn_waiting N) k (provenance demo sample_invite) 50\<rparr>, JoinWaiting)"
proof -
  obtain st where "node_state demo fork_log = Some st" "admission_mode (gs_policy st) = ExplicitIntake"
    using fork_state by metis
  then show ?thesis
    using assms by (simp add: decide_join_def sample_invite_valid)
qed

definition sample_waiting :: waiting_entry where
  "sample_waiting = \<lparr>we_identity = 5, we_provenance = provenance demo sample_invite, we_arrived_at = 50\<rparr>"

definition sample_full :: join_node where
  "sample_full = sample_node\<lparr>jn_waiting := [(5, sample_waiting)], jn_next := 1\<rparr>"

lemma sample_full_reachable: "(join_step demo (\<lambda>k. k))\<^sup>*\<^sup>* join_node_new sample_full"
proof -
  let ?N = "sample_node\<lparr>jn_inbound := [(0, sample_join 5)], jn_next := 1\<rparr>"
  have "receive_join demo (\<lambda>k. k) sample_node (sample_join 5) 5 = (?N, Inr 0)"
    using sample_receive [of 5 sample_node "\<lambda>k. k"] by (simp add: sample_node_def join_node_new_def)
  then have recv: "join_step demo (\<lambda>k. k) sample_node ?N"
    by (rule join_step.receives)
  have "answer_join demo ?N 0 (who 1) 50 = (sample_full, Some JoinWaiting)"
    by (simp add: answer_join_def sample_decide sample_node_def sample_full_def sample_waiting_def
        join_node_new_def admit_to_waiting_def bm_remove_def)
  then have "join_step demo (\<lambda>k. k) ?N sample_full"
    by (rule join_step.answers)
  with recv sample_reachable show ?thesis
    by (meson rtranclp.rtrancl_into_rtrancl)
qed

theorem waiting_room_invited_witness:
  "bm_get (jn_waiting sample_full) 5 = Some sample_waiting
   \<and> (\<exists>(A :: join_node) (q :: join_request) st. jq_joiner q = 5 \<and> node_state demo (jn_log A) = Some st
        \<and> we_provenance sample_waiting = provenance demo (jq_invite q)
        \<and> identity_holds st (iv_issuer (jq_invite q)) ApproveNode)"
proof -
  have w: "bm_get (jn_waiting sample_full) 5 = Some sample_waiting"
    by (simp add: sample_full_def)
  show ?thesis
    using w waiting_room_invited [OF sample_full_reachable w] by blast
qed

section \<open>The waiting room\<close>

text \<open>
  Appending an entry brings the waiting room in line with the log: those whom the new
  canonical state counts as members have left it, everybody else keeps the place and the arrival
  time they had, and a log that does not replay leaves the room as it was.
\<close>

theorem append_updates_room:
  assumes "(join_step C peer_id)\<^sup>*\<^sup>* join_node_new N" and "append_entry C N e = Inr (h, N')"
  shows "log_insert C (jn_log N) e = Inr (h, jn_log N')
    \<and> bm_get (jn_waiting N') k =
        (case node_state C (jn_log N') of
           Some st \<Rightarrow> if is_member st k then None else bm_get (jn_waiting N) k
         | None \<Rightarrow> bm_get (jn_waiting N) k)"
proof -
  have ok: "bm_ok (jn_waiting N)"
    by (rule reachable_room [OF assms(1)])
  obtain L where L: "log_insert C (jn_log N) e = Inr (h, L)" "N' = reconcile_waiting_room C (N\<lparr>jn_log := L\<rparr>)"
    using assms(2) by (auto simp: append_entry_def res_bind_Inr_iff)
  have log: "jn_log N' = L"
    by (simp add: L(2) reconcile_waiting_room_def split: option.splits)
  show ?thesis
    using L(1) ok by (simp add: log) (simp add: L(2) reconcile_waiting_room_def get_reconcile split: option.splits)
qed

text \<open>
  Whoever stops short of admission can be stranded by the ceiling: an identity that waits
  under an invite with one admission left is refused with a reached ceiling when it presents the
  invite again, because the ceiling counts its own entry in the room.
\<close>

theorem waiting_joiner_refused:
  assumes "node_state C (jn_log N) = Some st" and "\<not> is_member st (jq_joiner q)"
    and "bm_ok (jn_waiting N)" and "bm_get (jn_waiting N) (jq_joiner q) = Some w"
    and "ip_invite_id (we_provenance w) = invite_id C (jq_invite q)"
    and "unat (iv_max_uses (jq_invite q)) \<le> Suc (invite_use_count st (invite_id C (jq_invite q)))"
  shows "receive_join C peer_id N q (peer_id (jq_joiner q)) = (N, Inl InviteCeilingReached)"
proof -
  have "w \<in> set (filter (\<lambda>e. ip_invite_id (we_provenance e) = invite_id C (jq_invite q)) (bm_values (jn_waiting N)))"
    using assms(3,4,5) by (auto simp: set_bm_values)
  then have "arrivals_for_invite (jn_waiting N) (invite_id C (jq_invite q)) \<noteq> 0"
    unfolding arrivals_for_invite_def by (metis length_0_conv list.set_cases list.distinct(1))
  then have "screen_join C peer_id N q (peer_id (jq_joiner q)) = Inl InviteCeilingReached"
    using assms(1,2,6) by (simp add: screen_join_def Let_def)
  then show ?thesis
    by (simp add: receive_join_def)
qed

theorem waiting_joiner_refused_witness:
  "receive_join demo (\<lambda>k. k) sample_full (sample_join 5) 5 = (sample_full, Inl InviteCeilingReached)"
proof -
  obtain st where st: "node_state demo fork_log = Some st" "\<And>k. is_member st k \<longleftrightarrow> k = 1"
      "\<And>i. invite_use_count st i = 0"
    using fork_state by metis
  have "receive_join demo (\<lambda>k. k) sample_full (sample_join 5) (jq_joiner (sample_join 5)) =
      (sample_full, Inl InviteCeilingReached)"
    by (rule waiting_joiner_refused [of _ _ st _ sample_waiting])
      (use st in \<open>simp_all add: sample_full_def sample_node_def sample_waiting_def provenance_def
         sample_invite_def invite_issue_def\<close>)
  then show ?thesis
    by simp
qed

definition admit_five :: log_entry where
  "admit_five = entry_create demo (who 1) (Some 241) 60 (MembershipChange everyone_id 5 (Add None))"

lemma admit_five_fields:
  "entry_hash demo admit_five = 273" "le_parent admit_five = Some 241"
  "entry_verify_signature demo admit_five = Inr ()" "is_capability_gated admit_five"
  by (simp_all add: admit_five_def demo_entry_hash everyone_id_def is_capability_gated_def)

theorem append_updates_room_witness:
  "\<exists>h N'. append_entry demo sample_full admit_five = Inr (h, N') \<and> bm_get (jn_waiting N') 5 = None"
proof -
  define L where "L = \<lparr>gl_entries = [(241, fork_a), (242, fork_b), (273, admit_five), (357, fork_root)],
      gl_children = [(241, [273]), (357, [241, 242])], gl_root = Some 357, gl_finalized = None\<rparr>"
  have ins: "log_insert demo fork_log admit_five = Inr (273, L)"
    by (simp add: log_insert_def admit_five_fields fork_log_def bm_contains_def add_child_def Let_def L_def)
  have can: "canonical_chain L = Some [357, 241, 273]"
    by (simp add: canonical_chain_def L_def ancestry_def log_fuel_def parent_of_def fork_fields
      admit_five_fields best_branch_below_def pick_def better_def branch_candidate_def gated_at_def)
  obtain st where st: "replay demo [fork_root, fork_a, admit_five] = Inr st" "is_member st 5"
    by (simp add: fork_root_def fork_a_def admit_five_def fork_policy_def sample_defs)
  then have ns: "node_state demo L = Some st"
    by (simp add: node_state_def replay_canonical_def can) (simp add: L_def)
  obtain N' where N': "append_entry demo sample_full admit_five = Inr (273, N')"
    using ins by (simp add: append_entry_def sample_full_def sample_node_def)
  then show ?thesis
    using append_updates_room [OF sample_full_reachable N', of 5] ins ns st(2)
    by (simp add: sample_full_def sample_node_def)
qed

lemma screen_passes:
  assumes "node_state C (jn_log N) = Some st" and "jn_waiting N = []" and "\<not> is_member st (jq_joiner q)"
    and "invite_validate C (jq_invite q) (jq_joiner q) st now = Inr p"
  shows "receive_join C peer_id N q (peer_id (jq_joiner q)) =
    (N\<lparr>jn_inbound := bm_insert (jn_next N) q (jn_inbound N), jn_next := jn_next N + 1\<rparr>, Inr (jn_next N))"
  using assms
  by (simp add: receive_join_def screen_join_def Let_def invite_validate_Inr arrivals_for_invite_def bm_values_def)

lemma intake_waits:
  assumes "node_state C (jn_log N) = Some st" and "admission_mode (gs_policy st) = ExplicitIntake"
    and "bm_get (jn_inbound N) n = Some q" and "invite_validate C (jq_invite q) (jq_joiner q) st now = Inr p"
  shows "answer_join C N n identity now =
    (N\<lparr>jn_inbound := bm_remove n (jn_inbound N),
       jn_waiting := admit_to_waiting (jn_waiting N) (jq_joiner q) p now\<rparr>, Some JoinWaiting)"
  using assms by (simp add: answer_join_def decide_join_def)

text \<open>
  The ceiling of an invite does not bound the waiting room: two joiners who present the same
  invite before either is answered are each screened against the same empty room, and answering
  them under explicit intake does not look at the ceiling again, so both wait, even when the
  invite has a single admission left.
\<close>

theorem ceiling_races:
  assumes "node_state C (jn_log N) = Some st" and "admission_mode (gs_policy st) = ExplicitIntake"
    and "jn_waiting N = []" and "jq_joiner q \<noteq> jq_joiner r" and "jq_invite q = i" and "jq_invite r = i"
    and "\<not> is_member st (jq_joiner q)" and "\<not> is_member st (jq_joiner r)"
    and "invite_validate C i (jq_joiner q) st now = Inr p" and "invite_validate C i (jq_joiner r) st now = Inr p"
  shows "\<exists>N1 N2 N3 N4. receive_join C peer_id N q (peer_id (jq_joiner q)) = (N1, Inr (jn_next N))
    \<and> receive_join C peer_id N1 r (peer_id (jq_joiner r)) = (N2, Inr (jn_next N + 1))
    \<and> answer_join C N2 (jn_next N) identity now = (N3, Some JoinWaiting)
    \<and> answer_join C N3 (jn_next N + 1) identity now = (N4, Some JoinWaiting)
    \<and> arrivals_for_invite (jn_waiting N4) (invite_id C i) = 2"
proof -
  let ?W = "admit_to_waiting (admit_to_waiting [] (jq_joiner q) p now) (jq_joiner r) p now"
  let ?n = "jn_next N"
  define N1 where "N1 = N\<lparr>jn_inbound := bm_insert ?n q (jn_inbound N), jn_next := ?n + 1\<rparr>"
  define N2 where "N2 = N1\<lparr>jn_inbound := bm_insert (?n + 1) r (jn_inbound N1), jn_next := ?n + 1 + 1\<rparr>"
  define N3 where "N3 = N2\<lparr>jn_inbound := bm_remove ?n (jn_inbound N2),
      jn_waiting := admit_to_waiting [] (jq_joiner q) p now\<rparr>"
  define N4 where "N4 = N3\<lparr>jn_inbound := bm_remove (?n + 1) (jn_inbound N3), jn_waiting := ?W\<rparr>"
  have q: "invite_validate C (jq_invite q) (jq_joiner q) st now = Inr p"
    and r: "invite_validate C (jq_invite r) (jq_joiner r) st now = Inr p"
    using assms by simp_all
  have 1: "receive_join C peer_id N q (peer_id (jq_joiner q)) = (N1, Inr ?n)"
    using screen_passes [OF assms(1,3,7) q] by (simp add: N1_def)
  have 2: "receive_join C peer_id N1 r (peer_id (jq_joiner r)) = (N2, Inr (?n + 1))"
    using screen_passes [of C N1 st r, OF _ _ assms(8) r] assms(1,3) by (simp add: N1_def N2_def)
  have 3: "answer_join C N2 ?n identity now = (N3, Some JoinWaiting)"
    using intake_waits [of C N2 st ?n q, OF _ assms(2) _ q] assms(1,3) by (simp add: N1_def N2_def N3_def)
  have 4: "answer_join C N3 (?n + 1) identity now = (N4, Some JoinWaiting)"
    using intake_waits [of C N3 st "?n + 1" r, OF _ assms(2) _ r] assms(1)
    by (simp add: N1_def N2_def N3_def N4_def)
  have "ip_invite_id p = invite_id C i"
    using assms(9) by (simp add: invite_validate_Inr provenance_def)
  then have "arrivals_for_invite (jn_waiting N4) (invite_id C i) = 2"
    using assms(4) by (simp add: N4_def arrivals_for_invite_def admit_to_waiting_def bm_values_def)
  with 1 2 3 4 show ?thesis
    by blast
qed

theorem ceiling_races_witness:
  "\<exists>N :: join_node. arrivals_for_invite (jn_waiting N) (invite_id demo sample_invite) = 2 \<and> iv_max_uses sample_invite = 1"
proof -
  obtain st where st: "node_state demo fork_log = Some st" "admission_mode (gs_policy st) = ExplicitIntake"
      "\<And>k. is_member st k \<longleftrightarrow> k = 1"
    using fork_state by metis
  have log: "jn_log sample_node = fork_log" "jn_waiting sample_node = []"
    by (simp_all add: sample_node_def join_node_new_def)
  obtain N4 :: join_node where "arrivals_for_invite (jn_waiting N4) (invite_id demo sample_invite) = 2"
    using ceiling_races [of demo sample_node st "sample_join 5" "sample_join 6" sample_invite 50
        "provenance demo sample_invite" "\<lambda>k. k" "who 1"] st(2,3) sample_invite_valid [OF st(1)] log st(1)
    by auto
  moreover have "iv_max_uses sample_invite = 1"
    by (simp add: sample_invite_def invite_issue_def)
  ultimately show ?thesis
    by blast
qed

section \<open>Automatic admission\<close>

definition auto_root :: log_entry where
  "auto_root = entry_create demo (who 1) None 0
     (Genesis 7 (conservative_default\<lparr>admission_mode := AutoAdmit\<rparr>) [ReadContent])"

lemma auto_root_fields:
  "entry_hash demo auto_root = 357" "le_parent auto_root = None" "entry_verify_signature demo auto_root = Inr ()"
  "is_genesis (le_body auto_root)" "\<not> is_capability_gated auto_root"
  by (simp_all add: auto_root_def demo_entry_hash put_seq_def put_policy_def conservative_default_def
      starter_content_types_def bs_collect_def is_capability_gated_def)

definition auto_node :: join_node where
  "auto_node = join_node_new\<lparr>jn_log := \<lparr>gl_entries = [(357, auto_root)], gl_children = [], gl_root = Some 357,
     gl_finalized = None\<rparr>\<rparr>"

lemma auto_chain: "canonical_chain (jn_log auto_node) = Some [357]"
  by (simp add: auto_node_def canonical_chain_def ancestry_def log_fuel_def best_branch_below_def pick_def
      parent_of_def auto_root_fields)

lemma auto_state:
  obtains st where "replay demo [auto_root] = Inr st" "gs_network st = 7" "admission_mode (gs_policy st) = AutoAdmit"
    "identity_holds st 1 ApproveNode" "\<And>i. invite_use_count st i = 0" "\<And>k. is_member st k \<longleftrightarrow> k = 1"
    "identity_holds st 9 (ManageMembership everyone_id) = False"
  by (simp add: auto_root_def sample_defs invite_use_count_def)

text \<open>
  Automatic admission checks the authority of the issuer of the invite but not that of the
  node that answers: a node whose identity may not manage the membership of \<open>everyone\<close> records the
  admission, tells the joiner that it has been admitted, and is left with a canonical chain that
  does not replay, on which it can evaluate no further join.
\<close>

theorem unauthorized_auto_admit:
  "\<exists>st N'. node_state demo (jn_log auto_node) = Some st
     \<and> \<not> identity_holds st (pni_id demo (who 9)) (ManageMembership everyone_id)
     \<and> decide_join demo auto_node (sample_join 5) (who 9) 50 = (N', JoinAdmitted 337)
     \<and> node_state demo (jn_log N') = None
     \<and> (\<forall>q identity now. decide_join demo N' q identity now = (N', JoinRefused CannotEvaluate))"
proof -
  obtain st where st: "replay demo [auto_root] = Inr st" "gs_network st = 7" "admission_mode (gs_policy st) = AutoAdmit"
      "identity_holds st 1 ApproveNode" "\<And>i. invite_use_count st i = 0"
      "identity_holds st 9 (ManageMembership everyone_id) = False"
    using auto_state by metis
  have ns: "node_state demo (jn_log auto_node) = Some st"
    using st(1) by (simp add: node_state_def replay_canonical_def auto_chain) (simp add: auto_node_def)
  have valid: "invite_validate demo sample_invite 5 st 50 = Inr (provenance demo sample_invite)"
    using st by (simp add: invite_validate_Inr sample_invite_def invite_issue_verifies demo_sign_correct)
      (simp add: invite_issue_def)
  define e where "e = entry_create demo (who 9) (Some 357) 50
      (MembershipChange everyone_id 5 (Add (Some (provenance demo sample_invite))))"
  have e: "entry_hash demo e = 337" "le_parent e = Some 357" "entry_verify_signature demo e = Inr ()"
      "is_capability_gated e"
    by (simp_all add: e_def demo_entry_hash everyone_id_def is_capability_gated_def put_provenance_def)
  define L where "L = \<lparr>gl_entries = [(337, e), (357, auto_root)], gl_children = [(357, [337])], gl_root = Some 357,
     gl_finalized = None\<rparr>"
  have ins: "log_insert demo (jn_log auto_node) e = Inr (337, L)"
    by (simp add: log_insert_def e auto_node_def bm_contains_def add_child_def Let_def L_def)
  have "canonical_chain L = Some [357, 337]"
    by (simp add: canonical_chain_def L_def ancestry_def log_fuel_def parent_of_def auto_root_fields
      e best_branch_below_def pick_def better_def branch_candidate_def gated_at_def)
  moreover have "\<exists>err. replay demo [auto_root, e] = Inl err"
    by (simp add: auto_root_def e_def sample_defs)
  ultimately have bad: "node_state demo L = None"
    by (auto simp: node_state_def replay_canonical_def) (auto simp: L_def)
  have "decide_join demo auto_node (sample_join 5) (who 9) 50 =
      (auto_node\<lparr>jn_log := L, jn_waiting := waiting_remove (jn_waiting auto_node) 5\<rparr>, JoinAdmitted 337)"
    using ins by (simp add: decide_join_def ns valid st(3) log_tip_def auto_chain e_def Let_def)
  then show ?thesis
    using ns st(6) bad by (simp add: decide_join_def)
qed

section \<open>Messages\<close>

text \<open>
  Invites survive being written down: an invite with valid keys and up to 32 addresses of up
  to 256 bytes reads back exactly, although the addresses are written without the ending they
  share, an ending that is always cut between two characters of every address.
\<close>

theorem invite_round_trip:
  assumes "key_valid C (iv_issuer i)" and "subject_ok C (iv_subject i)"
    and "length (iv_addresses i) \<le> max_bootstrap_addresses"
    and "\<forall>a\<in>set (iv_addresses i). str_ok a \<and> length a \<le> max_address_bytes"
  shows "decode_invite C (encode_invite i) = Inr i
    \<and> (\<forall>a\<in>set (iv_addresses i). \<exists>head. a = head @ common_suffix (iv_addresses i)
         \<and> str_ok head \<and> str_ok (common_suffix (iv_addresses i)))"
proof
  have "invite_ok C i"
    using assms by (simp add: invite_ok_def addresses_ok_def addr_ok_def list_all_iff)
  then show "decode_invite C (encode_invite i) = Inr i"
    unfolding decode_invite_def encode_invite_def
    by (rule whole_put [OF inv.checked_codec_axioms join_domains_ok(1)])
  show "\<forall>a\<in>set (iv_addresses i). \<exists>head. a = head @ common_suffix (iv_addresses i)
         \<and> str_ok head \<and> str_ok (common_suffix (iv_addresses i))"
    using common_suffix_ending(1) common_suffix_pieces assms(4) by (fastforce simp: list_all_iff)
qed

theorem invite_round_trip_witness:
  "decode_invite demo (encode_invite sample_invite) = Inr sample_invite"
  using invite_round_trip [of demo sample_invite]
  by (simp add: sample_invite_def invite_issue_def max_bootstrap_addresses_def max_address_bytes_def
      str_ok_def str_bytes_def)

text \<open>
  A join request that decodes was signed by the joiner over its own key and the identifier of
  the invite it carries, and the invite keeps to the limits on addresses, whatever bytes arrived.
\<close>

theorem join_request_authentic:
  assumes "decode_join_request C b = Inr q"
  shows "key_valid C (jq_joiner q)
    \<and> ed_verify C (jq_joiner q) (join_payload (jq_joiner q) (invite_id C (jq_invite q))) (jq_signature q)
    \<and> length (iv_addresses (jq_invite q)) \<le> max_bootstrap_addresses
    \<and> (\<forall>a\<in>set (iv_addresses (jq_invite q)). length a \<le> max_address_bytes)
    \<and> key_valid C (iv_issuer (jq_invite q))"
proof -
  have dec: "decode_whole JwMalformed join_request_domain (get_join_request C) b = Inr q" "join_verify C q = Inr ()"
    using assms by (auto simp: decode_join_request_def decode_verified_def res_bind_Inr_iff)
  have "join_ok C q"
    by (rule whole_reads [OF join.accepts dec(1)])
  then show ?thesis
    using dec(2)
    by (auto simp: join_ok_def invite_ok_def addresses_ok_def addr_ok_def list_all_iff join_verify_def vk_verify_def
        split: if_splits)
qed

lemma sample_join_ok: "join_ok demo (sample_join 5)" "join_verify demo (sample_join 5) = Inr ()"
  by (simp_all add: join_ok_def invite_ok_def addresses_ok_def addr_ok_def sample_invite_def invite_issue_def
      max_bootstrap_addresses_def max_address_bytes_def str_ok_def str_bytes_def join_verify_def vk_verify_def)
    (simp add: sample_join_def join_create_def)

theorem join_request_authentic_witness:
  "\<exists>b. decode_join_request demo b = Inr (sample_join 5)
     \<and> length (iv_addresses (jq_invite (sample_join 5))) \<le> max_bootstrap_addresses"
proof -
  have "decode_join_request demo (encode_join_request (sample_join 5)) = Inr (sample_join 5)"
    using whole_put [OF join.checked_codec_axioms join_domains_ok(2) sample_join_ok(1)] sample_join_ok(2)
    by (simp add: decode_join_request_def decode_verified_def encode_join_request_def res_bind_Inr_iff)
  from this join_request_authentic [OF this] show ?thesis
    by blast
qed

end
