(* ===== verification/Object.thy ===== *)
theory Object
  imports Ledger
begin

text \<open>
  Stored objects, \<open>intranet-storage\<close>: crypto.rs (deterministic sealing, data keys, epoch keys),
  chunk.rs (the bounds of content-defined chunks), object.rs (manifests, encoding, appending and
  decoding) and store.rs (the content-addressed store).

  The cipher XChaCha20-Poly1305, BLAKE3 in keyed mode and the chunker FastCDC are third-party
  code: they are the fields of the record \<open>sealing\<close>, and the properties that rely on them name
  what they rely on (\<open>aead_correct\<close>, \<open>cdc_partitions\<close>, \<open>cdc_settles\<close>).
\<close>

section \<open>Third-party primitives\<close>

record sealing =
  keyed_blake3 :: "b32 \<Rightarrow> bytes \<Rightarrow> b32"
  xchacha_seal :: "b32 \<Rightarrow> bytes \<Rightarrow> bytes \<Rightarrow> bytes"
  xchacha_open :: "b32 \<Rightarrow> bytes \<Rightarrow> bytes \<Rightarrow> bytes option"
  fastcdc :: "bytes \<Rightarrow> nat \<Rightarrow> nat \<Rightarrow> nat \<Rightarrow> (nat \<times> nat) list"

text \<open>What is sealed opens again under the same key and nonce, and sealing adds a tag of 16 bytes.\<close>

definition aead_correct :: "sealing \<Rightarrow> bool" where
  "aead_correct S \<longleftrightarrow>
     (\<forall>k n m. xchacha_open S k n (xchacha_seal S k n m) = Some m
        \<and> length (xchacha_seal S k n m) = length m + 16)"

section \<open>Errors\<close>

datatype storage_error =
    Entropy
  | MalformedCiphertext
  | DecryptionFailed
  | MalformedManifest
  | MissingChunk string
  | ChunkVerificationFailed string
  | LengthMismatch u64 u64
  | StorageBadSignature
  | ContentTypeNotAllowed string
  | PublishNotPermitted string string
  | NotPointerOwner string string
  | CommitmentMismatch
  | PublisherNotAMember string
  | ReferencesDelistedContent string
  | WrongCollection

section \<open>Sealing\<close>

definition nonce_len :: nat where
  "nonce_len = 24"

definition tag_len :: nat where
  "tag_len = 16"

definition chunk_overhead_bytes :: u64 where
  "chunk_overhead_bytes = of_nat (nonce_len + tag_len)"

definition seal_deterministic :: "sealing \<Rightarrow> b32 \<Rightarrow> bytes \<Rightarrow> bytes \<Rightarrow> bytes" where
  "seal_deterministic S key ctxt plaintext =
     (let mac = keyed_blake3 S key (put_u64 (of_nat (length ctxt)) @ ctxt @ plaintext);
          nonce = take nonce_len (put_fixed32 mac)
      in nonce @ xchacha_seal S key nonce plaintext)"

definition open_deterministic :: "sealing \<Rightarrow> b32 \<Rightarrow> bytes \<Rightarrow> storage_error + bytes" where
  "open_deterministic S key blob =
     (if length blob < nonce_len then Inl MalformedCiphertext
      else ok_or DecryptionFailed (xchacha_open S key (take nonce_len blob) (drop nonce_len blob)))"

definition dek_commitment :: "crypto \<Rightarrow> b32 \<Rightarrow> b32" where
  "dek_commitment C dek = hash_bytes C (str_bytes ''intranet.dek-commitment.v1'' @ put_fixed32 dek)"

definition seal_chunk :: "sealing \<Rightarrow> b32 \<Rightarrow> bytes \<Rightarrow> bytes" where
  "seal_chunk S dek plaintext = seal_deterministic S dek (str_bytes ''intranet.chunk.v1'') plaintext"

definition open_chunk :: "sealing \<Rightarrow> b32 \<Rightarrow> bytes \<Rightarrow> storage_error + bytes" where
  "open_chunk S dek ciphertext = open_deterministic S dek ciphertext"

definition epoch_fingerprint :: "crypto \<Rightarrow> b32 \<Rightarrow> b32" where
  "epoch_fingerprint C key = hash_bytes C (str_bytes ''intranet.epoch-key-fingerprint.v1'' @ put_fixed32 key)"

definition epoch_wrap :: "sealing \<Rightarrow> b32 \<Rightarrow> b32 \<Rightarrow> b32 \<Rightarrow> bytes" where
  "epoch_wrap S epoch_key pointer_id dek =
     seal_deterministic S epoch_key (str_bytes ''intranet.dek-wrap.v1'' @ put_fixed32 pointer_id) (put_fixed32 dek)"

definition unwrap_dek :: "sealing \<Rightarrow> b32 \<Rightarrow> b32 \<Rightarrow> bytes \<Rightarrow> storage_error + b32" where
  "unwrap_dek S epoch_key pointer_id wrapped =
     res_bind (open_deterministic S epoch_key wrapped) (\<lambda>bytes.
       if length bytes = 32 then Inr (of_nat (be_val bytes)) else Inl MalformedCiphertext)"

section \<open>Chunking\<close>

record chunk_spec =
  cs_min :: u32
  cs_target :: u32
  cs_max :: u32

definition chunk_floor :: u32 where
  "chunk_floor = 1024"

definition chunk_ceiling :: u32 where
  "chunk_ceiling = 256 * 1024 * 1024"

definition saturating_mul_u32 :: "u32 \<Rightarrow> u32 \<Rightarrow> u32" where
  "saturating_mul_u32 a b = (if unat a * unat b < 2 ^ 32 then a * b else - 1)"

definition from_target :: "u32 \<Rightarrow> chunk_spec" where
  "from_target t =
     (let target = (if t < chunk_floor then chunk_floor else if t > chunk_ceiling then chunk_ceiling else t)
      in \<lparr>cs_min = max (target div 4) (chunk_floor div 4), cs_target = target,
          cs_max = min (saturating_mul_u32 target 4) chunk_ceiling\<rparr>)"

definition spec_from_policy :: "network_policy \<Rightarrow> chunk_spec" where
  "spec_from_policy policy = from_target (target_chunk_size policy)"

definition spec_default :: chunk_spec where
  "spec_default = from_target (32 * 1024)"

definition cut :: "sealing \<Rightarrow> bytes \<Rightarrow> chunk_spec \<Rightarrow> bytes list" where
  "cut S region spec =
     map (\<lambda>(offset, len). take len (drop offset region))
       (fastcdc S region (unat (cs_min spec)) (unat (cs_target spec)) (unat (cs_max spec)))"

definition chunk_split :: "sealing \<Rightarrow> bytes \<Rightarrow> chunk_spec \<Rightarrow> bytes list" where
  "chunk_split S plaintext spec =
     (if plaintext = [] then []
      else if length plaintext \<le> unat (cs_target spec) then [plaintext]
      else cut S plaintext spec)"

text \<open>
  What the chunker is documented to do: its chunks are the region in order, none is empty, none is
  longer than the maximum, and the boundaries it has passed do not depend on what follows, so that
  appending to the region moves the last chunk only.
\<close>

definition cdc_partitions :: "sealing \<Rightarrow> chunk_spec \<Rightarrow> bool" where
  "cdc_partitions S spec \<longleftrightarrow>
     (\<forall>r. concat (cut S r spec) = r
        \<and> (\<forall>p\<in>set (cut S r spec). p \<noteq> [] \<and> length p \<le> unat (cs_max spec)))"

definition cdc_settles :: "sealing \<Rightarrow> chunk_spec \<Rightarrow> bool" where
  "cdc_settles S spec \<longleftrightarrow>
     (\<forall>r s. r \<noteq> [] \<longrightarrow>
        cut S (r @ s) spec = butlast (cut S r spec) @ cut S (last (cut S r spec) @ s) spec)"

section \<open>Objects\<close>

definition cid_of :: "crypto \<Rightarrow> bytes \<Rightarrow> b32" where
  "cid_of C b = hash_bytes C b"

definition cid_verifies :: "crypto \<Rightarrow> b32 \<Rightarrow> bytes \<Rightarrow> bool" where
  "cid_verifies C cid b \<longleftrightarrow> cid_of C b = cid"

record manifest =
  mf_chunks :: "b32 list"
  mf_plaintext_len :: u64

definition manifest_tag :: string where
  "manifest_tag = ''intranet.manifest.v1''"

definition canonical_bytes :: "manifest \<Rightarrow> bytes" where
  "canonical_bytes m =
     enc_domain manifest_tag @ put_seq put_fixed32 (mf_chunks m) @ put_u64 (mf_plaintext_len m)"

definition manifest_cid :: "crypto \<Rightarrow> manifest \<Rightarrow> b32" where
  "manifest_cid C m = cid_of C (canonical_bytes m)"

definition ciphertext_bound :: "manifest \<Rightarrow> u64" where
  "ciphertext_bound m =
     saturating_add_u64 (saturating_mul_u64 (of_nat (length (mf_chunks m))) chunk_overhead_bytes) (mf_plaintext_len m)"

text \<open>The parser of manifests is written by hand: a cursor that takes bytes or fails.\<close>

definition mtake :: "nat \<Rightarrow> (storage_error, bytes) reader" where
  "mtake n = rmap_err (\<lambda>_. MalformedManifest) (dec_take n)"

primrec mdigests :: "nat \<Rightarrow> (storage_error, b32 list) reader" where
  "mdigests 0 = rret []"
| "mdigests (Suc n) =
     rbind (mtake 32) (\<lambda>digest. rbind (mdigests n) (\<lambda>rest. rret (of_nat (be_val digest) # rest)))"

definition get_manifest :: "nat \<Rightarrow> (storage_error, manifest) reader" where
  "get_manifest size_b =
     rbind (mtake 8) (\<lambda>l.
       if be_val l \<noteq> length manifest_tag then rfail MalformedManifest
       else rbind (mtake (length manifest_tag)) (\<lambda>tag.
         if tag \<noteq> str_bytes manifest_tag then rfail MalformedManifest
         else rbind (mtake 8) (\<lambda>c.
           (let count = be_val c in
            if count > size_b div 32 + 1 then rfail MalformedManifest
            else rbind (mdigests count) (\<lambda>chunks.
              rbind (mtake 8) (\<lambda>n.
                rret \<lparr>mf_chunks = chunks, mf_plaintext_len = of_nat (be_val n)\<rparr>))))))"

definition manifest_from_bytes :: "bytes \<Rightarrow> storage_error + manifest" where
  "manifest_from_bytes b =
     (case get_manifest (length b) b of
        Inl e \<Rightarrow> Inl e
      | Inr (m, rest) \<Rightarrow> if rest \<noteq> [] then Inl MalformedManifest else Inr m)"

record encoded_object =
  eo_manifest :: manifest
  eo_chunks :: "(b32 \<times> bytes) list"

definition stored_len :: "encoded_object \<Rightarrow> nat" where
  "stored_len eo = sum_list (map (\<lambda>(_, b). length b) (eo_chunks eo))"

definition new_chunks_since :: "encoded_object \<Rightarrow> manifest \<Rightarrow> b32 list" where
  "new_chunks_since eo previous =
     filter (\<lambda>cid. cid \<notin> set (mf_chunks previous)) (mf_chunks (eo_manifest eo))"

definition seal_piece :: "crypto \<Rightarrow> sealing \<Rightarrow> b32 \<Rightarrow> bytes \<Rightarrow> b32 \<times> bytes" where
  "seal_piece C S dek piece = (let sealed = seal_chunk S dek piece in (cid_of C sealed, sealed))"

definition object_encode :: "crypto \<Rightarrow> sealing \<Rightarrow> bytes \<Rightarrow> b32 \<Rightarrow> chunk_spec \<Rightarrow> encoded_object" where
  "object_encode C S plaintext dek spec =
     (let chunks = map (seal_piece C S dek) (chunk_split S plaintext spec) in
      \<lparr>eo_manifest = \<lparr>mf_chunks = map fst chunks, mf_plaintext_len = of_nat (length plaintext)\<rparr>,
       eo_chunks = chunks\<rparr>)"

record append_only =
  ao_spec :: chunk_spec
  ao_tail :: bytes
  ao_object :: encoded_object

definition append_new :: "chunk_spec \<Rightarrow> append_only" where
  "append_new spec =
     \<lparr>ao_spec = spec, ao_tail = [],
      ao_object = \<lparr>eo_manifest = \<lparr>mf_chunks = [], mf_plaintext_len = 0\<rparr>, eo_chunks = []\<rparr>\<rparr>"

text \<open>\<open>None\<close> is the panic of \<open>pieces.len() - 1\<close> on a region that the chunker cuts into nothing.\<close>

definition ao_extend :: "crypto \<Rightarrow> sealing \<Rightarrow> append_only \<Rightarrow> bytes \<Rightarrow> b32 \<Rightarrow> append_only option" where
  "ao_extend C S A extra dek =
     (if extra = [] then Some A
      else
        (let obj = ao_object A;
             cids = (if ao_tail A \<noteq> [] then butlast (mf_chunks (eo_manifest obj)) else mf_chunks (eo_manifest obj));
             chunks = (if ao_tail A \<noteq> [] then butlast (eo_chunks obj) else eo_chunks obj);
             settled = unat (mf_plaintext_len (eo_manifest obj)) - length (ao_tail A);
             region = ao_tail A @ extra;
             pieces = (if settled = 0 \<and> length region \<le> unat (cs_target (ao_spec A)) then [region]
                       else cut S region (ao_spec A));
             sealed = map (seal_piece C S dek) pieces
         in if pieces = [] then None
            else Some (A\<lparr>ao_tail := last pieces,
              ao_object :=
                \<lparr>eo_manifest = \<lparr>mf_chunks = cids @ map fst sealed, mf_plaintext_len = of_nat (settled + length region)\<rparr>,
                 eo_chunks = chunks @ sealed\<rparr>\<rparr>)))"

fun decode_chunks ::
  "crypto \<Rightarrow> sealing \<Rightarrow> b32 list \<Rightarrow> (b32, bytes) btree_map \<Rightarrow> b32 \<Rightarrow> bytes \<Rightarrow> storage_error + bytes" where
  "decode_chunks C S [] blobs dek acc = Inr acc"
| "decode_chunks C S (cid # cids) blobs dek acc =
     (case bm_get blobs cid of
        None \<Rightarrow> Inl (MissingChunk (short cid))
      | Some blob \<Rightarrow>
          if \<not> cid_verifies C cid blob then Inl (ChunkVerificationFailed (short cid))
          else res_bind (open_chunk S dek blob) (\<lambda>p. decode_chunks C S cids blobs dek (acc @ p)))"

text \<open>\<open>None\<close> is the panic of \<open>Vec::with_capacity\<close>, whose capacity is at most \<open>isize::MAX\<close> bytes.\<close>

definition object_decode ::
  "crypto \<Rightarrow> sealing \<Rightarrow> manifest \<Rightarrow> (b32, bytes) btree_map \<Rightarrow> b32 \<Rightarrow> (storage_error + bytes) option" where
  "object_decode C S m blobs dek =
     (if unat (mf_plaintext_len m) \<ge> 2 ^ 63 then None
      else Some (res_bind (decode_chunks C S (mf_chunks m) blobs dek []) (\<lambda>plaintext.
        if of_nat (length plaintext) \<noteq> mf_plaintext_len m
        then Inl (LengthMismatch (mf_plaintext_len m) (of_nat (length plaintext)))
        else Inr plaintext)))"

section \<open>The store\<close>

type_synonym chunk_store = "(b32, bytes) btree_map"

definition store_put :: "crypto \<Rightarrow> chunk_store \<Rightarrow> bytes \<Rightarrow> b32 \<times> chunk_store" where
  "store_put C st b = (let cid = cid_of C b in (cid, bm_insert cid b st))"

definition store_insert :: "crypto \<Rightarrow> chunk_store \<Rightarrow> b32 \<Rightarrow> bytes \<Rightarrow> storage_error + chunk_store" where
  "store_insert C st cid b =
     (if \<not> cid_verifies C cid b then Inl (ChunkVerificationFailed (short cid)) else Inr (bm_insert cid b st))"

definition store_remove :: "chunk_store \<Rightarrow> b32 \<Rightarrow> bytes option \<times> chunk_store" where
  "store_remove st cid = (bm_get st cid, bm_remove cid st)"

definition store_cids :: "chunk_store \<Rightarrow> b32 list" where
  "store_cids st = bm_keys st"

definition total_bytes :: "chunk_store \<Rightarrow> nat" where
  "total_bytes st = sum_list (map length (bm_values st))"

section \<open>Sealed chunks open again\<close>

lemma length_seal: "aead_correct S \<Longrightarrow> length (seal_deterministic S k c p) = length p + 40"
  by (simp add: seal_deterministic_def Let_def nonce_len_def aead_correct_def)

lemma open_seal: "aead_correct S \<Longrightarrow> open_deterministic S k (seal_deterministic S k c p) = Inr p"
  by (simp add: open_deterministic_def seal_deterministic_def Let_def nonce_len_def aead_correct_def)

lemma open_seal_chunk: "aead_correct S \<Longrightarrow> open_chunk S dek (seal_chunk S dek p) = Inr p"
  by (simp add: open_chunk_def seal_chunk_def open_seal)

lemma unwrap_wrap: "aead_correct S \<Longrightarrow> unwrap_dek S k pointer (epoch_wrap S k pointer' dek) = Inr dek"
  using be_word(1) [of 32 dek]
  by (simp add: unwrap_dek_def epoch_wrap_def open_seal put_fixed32_def)

section \<open>Chunk bounds\<close>

lemma from_target_bounds:
  "chunk_floor div 4 \<le> cs_min (from_target t)" "cs_min (from_target t) \<le> cs_target (from_target t)"
  "cs_target (from_target t) \<le> cs_max (from_target t)" "cs_max (from_target t) \<le> chunk_ceiling"
  "chunk_floor \<le> t \<Longrightarrow> t \<le> chunk_ceiling \<Longrightarrow> cs_target (from_target t) = t"
proof -
  define u where "u = (if t < chunk_floor then chunk_floor else if t > chunk_ceiling then chunk_ceiling else t)"
  have u: "1024 \<le> unat u" "unat u \<le> 268435456"
    by (auto simp: u_def chunk_floor_def chunk_ceiling_def word_less_nat_alt word_le_nat_alt)
  have spec: "from_target t = \<lparr>cs_min = max (u div 4) 256, cs_target = u, cs_max = min (u * 4) 268435456\<rparr>"
    using u by (simp add: from_target_def Let_def u_def chunk_floor_def chunk_ceiling_def saturating_mul_u32_def)
  have d: "unat (u div 4) = unat u div 4" "unat (u * 4) = unat u * 4"
    using u by (simp_all add: unat_div unat_mult_lem [THEN iffD1])
  show "chunk_floor div 4 \<le> cs_min (from_target t)"
    by (simp add: spec chunk_floor_def)
  show "cs_min (from_target t) \<le> cs_target (from_target t)" "cs_target (from_target t) \<le> cs_max (from_target t)"
    using u d by (simp_all add: spec word_le_nat_alt min_def max_def)
  show "cs_max (from_target t) \<le> chunk_ceiling"
    by (simp add: spec chunk_ceiling_def)
  show "chunk_floor \<le> t \<Longrightarrow> t \<le> chunk_ceiling \<Longrightarrow> cs_target (from_target t) = t"
    by (auto simp: spec u_def)
qed

section \<open>Splitting\<close>

lemma split_concat: "cdc_partitions S spec \<Longrightarrow> concat (chunk_split S p spec) = p"
  by (simp add: chunk_split_def cdc_partitions_def)

lemma split_nonempty: "cdc_partitions S spec \<Longrightarrow> q \<in> set (chunk_split S p spec) \<Longrightarrow> q \<noteq> []"
  by (auto simp: chunk_split_def cdc_partitions_def split: if_splits)

lemma split_Nil_iff: "cdc_partitions S spec \<Longrightarrow> chunk_split S p spec = [] \<longleftrightarrow> p = []"
  using split_concat by (auto simp: chunk_split_def dest: split_concat) (metis concat.simps(1) cdc_partitions_def)

lemma split_max:
  "cdc_partitions S spec \<Longrightarrow> cs_target spec \<le> cs_max spec \<Longrightarrow> q \<in> set (chunk_split S p spec) \<Longrightarrow>
     length q \<le> unat (cs_max spec)"
  by (auto simp: chunk_split_def cdc_partitions_def word_le_nat_alt split: if_splits)

text \<open>Appending re-cuts the last chunk only.\<close>

lemma split_append:
  assumes "cdc_partitions S spec" and "cdc_settles S spec" and "p \<noteq> []" and "e \<noteq> []"
  defines "tail \<equiv> last (chunk_split S p spec)"
  shows "chunk_split S (p @ e) spec =
    butlast (chunk_split S p spec)
      @ (if length p = length tail \<and> length (tail @ e) \<le> unat (cs_target spec) then [tail @ e]
         else cut S (tail @ e) spec)"
proof (cases "length p \<le> unat (cs_target spec)")
  case True
  then show ?thesis
    using assms(3,4) by (simp add: chunk_split_def tail_def)
next
  case False
  then have sp: "chunk_split S p spec = cut S p spec"
    using assms(3) by (simp add: chunk_split_def)
  have "cut S (p @ e) spec = butlast (cut S p spec) @ cut S (tail @ e) spec"
    using assms(2,3) by (simp add: cdc_settles_def tail_def sp)
  moreover have "\<not> (length p = length tail \<and> length (tail @ e) \<le> unat (cs_target spec))"
    using False by auto
  ultimately show ?thesis
    using False assms(3) by (simp only: sp if_False) (simp add: chunk_split_def)
qed

section \<open>Appending\<close>

definition ao_tracks :: "crypto \<Rightarrow> sealing \<Rightarrow> b32 \<Rightarrow> append_only \<Rightarrow> bytes \<Rightarrow> bool" where
  "ao_tracks C S dek A p \<longleftrightarrow>
     ao_object A = object_encode C S p dek (ao_spec A)
     \<and> ao_tail A = (if p = [] then [] else last (chunk_split S p (ao_spec A)))"

lemma last_length_le: "xs \<noteq> [] \<Longrightarrow> length (last xs) \<le> length (concat xs)"
  by (induction xs) auto

lemma ao_extend_tracks:
  assumes cdc: "cdc_partitions S (ao_spec A)" "cdc_settles S (ao_spec A)"
    and tr: "ao_tracks C S dek A p" and len: "length (p @ e) < 2 ^ 64"
  shows "\<exists>A'. ao_extend C S A e dek = Some A' \<and> ao_spec A' = ao_spec A \<and> ao_tracks C S dek A' (p @ e)"
proof (cases "e = []")
  case True
  then show ?thesis
    using tr by (simp add: ao_extend_def)
next
  case e: False
  let ?sp = "ao_spec A" and ?m = "map (seal_piece C S dek)"
  define ps where "ps = chunk_split S p ?sp"
  define tail where "tail = ao_tail A"
  define pieces where "pieces = (if length p = length tail \<and> length (tail @ e) \<le> unat (cs_target ?sp) then [tail @ e]
      else cut S (tail @ e) ?sp)"
  have tail: "tail = (if p = [] then [] else last ps)"
    using tr by (simp add: ao_tracks_def tail_def ps_def)
  have ps: "ps = [] \<longleftrightarrow> p = []" "concat ps = p" "\<forall>q\<in>set ps. q \<noteq> []"
    using split_Nil_iff [OF cdc(1)] split_concat [OF cdc(1)] split_nonempty [OF cdc(1)] by (auto simp: ps_def)
  then have tail_Nil: "tail = [] \<longleftrightarrow> p = []" and tail_len: "length tail \<le> length p"
    using tail last_length_le [of ps] by auto
  have whole: "chunk_split S (p @ e) ?sp = butlast ps @ pieces"
  proof (cases "p = []")
    case True
    then show ?thesis
      using e tail ps(1) by (simp add: pieces_def chunk_split_def)
  next
    case False
    then show ?thesis
      using split_append [OF cdc False e] tail by (simp add: pieces_def ps_def)
  qed
  have "concat (cut S (tail @ e) ?sp) = tail @ e"
    using cdc(1) by (simp add: cdc_partitions_def)
  then have ne: "pieces \<noteq> []"
    using e by (auto simp: pieces_def)
  have settled: "unat (of_nat (length p) :: u64) - length tail = length p - length tail"
    using len by (simp add: unat_of_nat)
  have obj: "ao_object A = \<lparr>eo_manifest = \<lparr>mf_chunks = map fst (?m ps), mf_plaintext_len = of_nat (length p)\<rparr>,
      eo_chunks = ?m ps\<rparr>"
    using tr by (simp add: ao_tracks_def object_encode_def ps_def Let_def)
  have cond: "length p - length tail = 0 \<longleftrightarrow> length p = length tail"
    using tail_len by auto
  let ?A = "A\<lparr>ao_tail := last pieces, ao_object := object_encode C S (p @ e) dek ?sp\<rparr>"
  have "ao_extend C S A e dek = Some (A\<lparr>ao_tail := last pieces, ao_object :=
      \<lparr>eo_manifest = \<lparr>mf_chunks = (if tail \<noteq> [] then butlast (map fst (?m ps)) else map fst (?m ps)) @ map fst (?m pieces),
         mf_plaintext_len = of_nat (length p - length tail + length (tail @ e))\<rparr>,
       eo_chunks = (if tail \<noteq> [] then butlast (?m ps) else ?m ps) @ ?m pieces\<rparr>\<rparr>)"
    unfolding ao_extend_def Let_def obj manifest.select_convs encoded_object.select_convs tail_def [symmetric]
      settled cond pieces_def [symmetric]
    using e ne by simp
  also have "\<dots> = Some ?A"
    unfolding object_encode_def whole Let_def
    using tail_Nil ps(1) tail_len by (cases "ps = []") (simp_all add: map_butlast)
  finally have "ao_extend C S A e dek = Some ?A" .
  moreover have "ao_tracks C S dek ?A (p @ e)"
    using e ne by (simp add: ao_tracks_def whole)
  ultimately show ?thesis
    by simp
qed

primrec ao_extend_all :: "crypto \<Rightarrow> sealing \<Rightarrow> b32 \<Rightarrow> append_only \<Rightarrow> bytes list \<Rightarrow> append_only option" where
  "ao_extend_all C S dek A [] = Some A"
| "ao_extend_all C S dek A (e # es) = Option.bind (ao_extend C S A e dek) (\<lambda>A'. ao_extend_all C S dek A' es)"

lemma ao_extend_all_tracks:
  assumes "cdc_partitions S (ao_spec A)" "cdc_settles S (ao_spec A)" "ao_tracks C S dek A p"
    and "length (p @ concat es) < 2 ^ 64"
  shows "\<exists>A'. ao_extend_all C S dek A es = Some A' \<and> ao_spec A' = ao_spec A \<and> ao_tracks C S dek A' (p @ concat es)"
  using assms
proof (induction es arbitrary: A p)
  case (Cons e es)
  obtain A1 where A1: "ao_extend C S A e dek = Some A1" "ao_spec A1 = ao_spec A" "ao_tracks C S dek A1 (p @ e)"
    using ao_extend_tracks [OF Cons.prems(1,2,3), of e] Cons.prems(4) by auto
  show ?case
    using Cons.IH [of A1 "p @ e"] Cons.prems A1 by simp
qed simp

section \<open>Decoding\<close>

lemma decode_chunks_pieces:
  assumes "aead_correct S"
    and "\<forall>q\<in>set ps. \<forall>b. bm_get blobs (cid_of C (seal_chunk S dek q)) = Some b
        \<and> cid_of C b = cid_of C (seal_chunk S dek q) \<longrightarrow> b = seal_chunk S dek q"
  shows "decode_chunks C S (map (\<lambda>q. cid_of C (seal_chunk S dek q)) ps) blobs dek acc = Inr r \<longleftrightarrow>
    r = acc @ concat ps
    \<and> (\<forall>q\<in>set ps. \<exists>b. bm_get blobs (cid_of C (seal_chunk S dek q)) = Some b
         \<and> cid_verifies C (cid_of C (seal_chunk S dek q)) b)"
  using assms(2)
proof (induction ps arbitrary: acc)
  case (Cons q ps)
  let ?c = "cid_of C (seal_chunk S dek q)"
  show ?case
  proof (cases "bm_get blobs ?c")
    case (Some b)
    show ?thesis
    proof (cases "cid_verifies C ?c b")
      case True
      then have "b = seal_chunk S dek q"
        using Cons.prems Some by (simp add: cid_verifies_def)
      then show ?thesis
        using Cons.IH [of "acc @ q"] Cons.prems Some True by (simp add: open_seal_chunk assms(1))
    qed (simp add: Some)
  qed simp
qed auto

lemma encode_cids:
  "mf_chunks (eo_manifest (object_encode C S p dek spec)) =
     map (\<lambda>q. cid_of C (seal_chunk S dek q)) (chunk_split S p spec)"
  by (simp add: object_encode_def seal_piece_def Let_def)

lemma encode_stored_len:
  assumes "aead_correct S" and "cdc_partitions S spec"
  shows "stored_len (object_encode C S p dek spec) = length p + 40 * length (chunk_split S p spec)"
proof -
  have "sum_list (map (\<lambda>q. length q + 40) ps) = length (concat ps) + 40 * length ps" for ps :: "bytes list"
    by (induction ps) auto
  then show ?thesis
    using split_concat [OF assms(2), of p]
    by (simp add: stored_len_def object_encode_def seal_piece_def seal_chunk_def Let_def comp_def
        length_seal [OF assms(1)])
qed

section \<open>Manifests\<close>

lemma mtake_eq: "mtake n d = Inr (b, r) \<longleftrightarrow> length b = n \<and> d = b @ r"
  by (simp add: mtake_def rmap_err_Inr dec_take_eq)

lemma mdigests_put: "mdigests (length cs) (concat (map put_fixed32 cs) @ r) = Inr (cs, r)"
proof (induction cs)
  case (Cons c cs)
  have "mtake 32 (put_fixed32 c @ concat (map put_fixed32 cs) @ r) = Inr (put_fixed32 c, concat (map put_fixed32 cs) @ r)"
    by (simp add: mtake_eq put_fixed32_def)
  moreover have "of_nat (be_val (put_fixed32 c)) = c"
    by (simp add: put_fixed32_def be_word(1))
  ultimately show ?case
    using Cons by (simp add: rbind_def rret_def)
qed (simp add: rret_def)

lemma mdigests_exact: "mdigests n d = Inr (cs, r) \<Longrightarrow> length cs = n \<and> d = concat (map put_fixed32 cs) @ r"
proof (induction n arbitrary: d cs)
  case (Suc n)
  then obtain b cs' where "length b = 32" "cs = of_nat (be_val b) # cs'" "mdigests n (drop 32 d) = Inr (cs', r)" "d = b @ drop 32 d"
    by (auto simp: rbind_eq_Inr mtake_eq rret_def)
  then show ?case
    using Suc.IH be_word(2) [where 'a = 256 and k = 32 and bs = b] by (auto simp: put_fixed32_def)
qed (auto simp: rret_def)

text \<open>The hand-written parser accepts the canonical bytes of a manifest and nothing else.\<close>

lemma get_manifest_put:
  assumes "length (mf_chunks m) < 2 ^ 64" and "length (mf_chunks m) \<le> n div 32 + 1"
  shows "get_manifest n (canonical_bytes m @ r) = Inr (m, r)"
proof -
  have l: "be_val (be_bytes 8 (length (mf_chunks m))) = length (mf_chunks m)"
    using assms(1) by (intro be_val_be_bytes) simp
  have t: "mtake k (b @ d) = Inr (b, d)" if "length b = k" for b d :: bytes and k
    using that by (simp add: mtake_eq)
  have "canonical_bytes m @ r = be_bytes 8 20 @ str_bytes manifest_tag @ be_bytes 8 (length (mf_chunks m))
      @ concat (map put_fixed32 (mf_chunks m)) @ be_bytes 8 (unat (mf_plaintext_len m)) @ r"
    using assms(1)
    by (simp add: canonical_bytes_def enc_domain_def put_str_def put_bytes_def put_u64_def put_seq_def manifest_tag_def
        unat_of_nat)
  then show ?thesis
    using assms(2) l be_word(1) [of 8 "mf_plaintext_len m"]
    by (simp add: get_manifest_def rbind_def t mdigests_put Let_def rret_def manifest_tag_def)
qed

lemma get_manifest_exact:
  assumes "get_manifest n d = Inr (m, r)"
  shows "d = canonical_bytes m @ r \<and> length (mf_chunks m) < 2 ^ 64"
proof -
  obtain l c b d' cs where b: "length l = 8" "be_val l = 20" "length c = 8" "length b = 8"
      "d = l @ str_bytes manifest_tag @ c @ d'" "mdigests (be_val c) d' = Inr (cs, b @ r)"
      "m = \<lparr>mf_chunks = cs, mf_plaintext_len = of_nat (be_val b)\<rparr>"
    using assms
    by (auto simp: get_manifest_def rbind_eq_Inr mtake_eq Let_def rret_def manifest_tag_def split: if_splits)
  have cs: "length cs = be_val c" "d' = concat (map put_fixed32 cs) @ b @ r"
    using mdigests_exact [OF b(6)] by simp_all
  have bound: "be_val c < 2 ^ 64"
    using be_val_bound [of c] b(3) by simp
  have word: "be_bytes 8 (unat (of_nat (be_val w) :: u64)) = w" if "length w = 8" for w
    using be_word(2) [where 'a = 64 and k = 8 and bs = w] that by simp
  have "be_bytes 8 20 = l"
    using be_bytes_be_val [of l] b(1,2) by simp
  then have "d = canonical_bytes m @ r"
    using b(5,7) cs word [OF b(3)] word [OF b(4)]
    by (simp add: canonical_bytes_def enc_domain_def put_str_def put_bytes_def put_u64_def put_seq_def)
      (simp add: manifest_tag_def)
  then show ?thesis
    using b(7) cs(1) bound by simp
qed

lemma length_canonical: "length (canonical_bytes m) = 44 + 32 * length (mf_chunks m)"
proof -
  have "length (concat (map put_fixed32 cs)) = 32 * length cs" for cs :: "b32 list"
    by (induction cs) auto
  then show ?thesis
    by (simp add: canonical_bytes_def put_seq_def manifest_tag_def)
qed

lemma manifest_iff:
  "manifest_from_bytes b = Inr m \<longleftrightarrow> b = canonical_bytes m \<and> length (mf_chunks m) < 2 ^ 64"
proof
  assume "manifest_from_bytes b = Inr m"
  then show "b = canonical_bytes m \<and> length (mf_chunks m) < 2 ^ 64"
    using get_manifest_exact [of "length b" b m "[]"]
    by (auto simp: manifest_from_bytes_def split: sum.splits if_splits)
next
  assume m: "b = canonical_bytes m \<and> length (mf_chunks m) < 2 ^ 64"
  then have "length (mf_chunks m) \<le> length b div 32 + 1"
    by (simp add: length_canonical)
  then show "manifest_from_bytes b = Inr m"
    using get_manifest_put [of m "length b" "[]"] m by (simp add: manifest_from_bytes_def)
qed

section \<open>The store keeps verified bytes\<close>

definition store_ok :: "crypto \<Rightarrow> chunk_store \<Rightarrow> bool" where
  "store_ok C st \<longleftrightarrow> bm_ok st \<and> (\<forall>cid b. bm_get st cid = Some b \<longrightarrow> cid_verifies C cid b)"

lemma store_ok_empty: "store_ok C []"
  by (simp add: store_ok_def)

lemma store_ok_put: "store_ok C st \<Longrightarrow> store_ok C (snd (store_put C st b))"
  by (auto simp: store_ok_def store_put_def cid_verifies_def Let_def)

lemma store_ok_insert: "store_ok C st \<Longrightarrow> store_insert C st cid b = Inr st' \<Longrightarrow> store_ok C st'"
  by (auto simp: store_ok_def store_insert_def split: if_splits)

lemma store_ok_remove: "store_ok C st \<Longrightarrow> store_ok C (snd (store_remove st cid))"
  by (auto simp: store_ok_def store_remove_def)

end
