(* ===== verification/Content.thy ===== *)
theory Content
  imports Object
begin

text \<open>
  What encrypted, content-addressed objects guarantee: encoding and decoding are inverse over any
  store that holds the chunks, appending gives the object that encoding afresh would give,
  manifests are read exactly, and an honest object keeps to the bytes its manifest declares.
\<close>

section \<open>A concrete instance of the primitives\<close>

text \<open>A stand-in cipher that appends a tag of zeros, and a chunker that cuts every byte.\<close>

definition demo_sealing :: sealing where
  "demo_sealing =
     \<lparr>keyed_blake3 = (\<lambda>_ _. 0), xchacha_seal = (\<lambda>_ _ m. m @ replicate 16 0),
      xchacha_open = (\<lambda>_ _ c. if drop (length c - 16) c = replicate 16 0 then Some (take (length c - 16) c) else None),
      fastcdc = (\<lambda>r _ _ _. map (\<lambda>i. (i, 1)) [0..<length r])\<rparr>"

lemma demo_aead: "aead_correct demo_sealing"
  by (simp add: aead_correct_def demo_sealing_def)

lemma demo_cut: "cut demo_sealing r spec = map (\<lambda>x. [x]) r"
proof -
  have "map (\<lambda>i. take 1 (drop i r)) [0..<length r] = map (\<lambda>x. [x]) r"
    by (rule nth_equalityI) (simp_all add: take_Suc hd_drop_conv_nth)
  then show ?thesis
    by (simp add: cut_def demo_sealing_def comp_def)
qed

lemma demo_cdc: "0 < cs_max spec \<Longrightarrow> cdc_partitions demo_sealing spec" "cdc_settles demo_sealing spec"
proof -
  show "0 < cs_max spec \<Longrightarrow> cdc_partitions demo_sealing spec"
    by (auto simp: cdc_partitions_def demo_cut word_less_nat_alt)
  have id: "map (\<lambda>x. [x]) (r @ s) = butlast (map (\<lambda>x. [x]) r) @ map (\<lambda>x. [x]) (last r # s)"
    if "r \<noteq> []" for r s :: bytes
    using append_butlast_last_id [OF that]
    by (metis (no_types) append.assoc append_Cons append_Nil map_append map_butlast)
  show "cdc_settles demo_sealing spec"
    unfolding cdc_settles_def demo_cut by (simp add: id last_map del: map_append)
qed

section \<open>Encoding and decoding\<close>

lemma unat_of_nat_u64: "n < 2 ^ 64 \<Longrightarrow> unat (of_nat n :: u64) = n"
  by (simp add: unat_of_nat)


text \<open>
  C24. An encoded object decodes to its plaintext exactly when every chunk its manifest names is in
  the store with bytes of the right hash, and to no other plaintext from any store, as long as the
  store has no second preimage of a chunk: a missing or damaged chunk is an error, never different
  content.
\<close>

theorem object_decodes_exactly:
  assumes "aead_correct S" and "cdc_partitions S spec" and "length p < 2 ^ 63"
    and "\<forall>q\<in>set (chunk_split S p spec). \<forall>b. bm_get blobs (cid_of C (seal_chunk S dek q)) = Some b
           \<and> cid_of C b = cid_of C (seal_chunk S dek q) \<longrightarrow> b = seal_chunk S dek q"
  shows "object_decode C S (eo_manifest (object_encode C S p dek spec)) blobs dek = Some (Inr r) \<longleftrightarrow>
    r = p \<and> (\<forall>cid\<in>set (mf_chunks (eo_manifest (object_encode C S p dek spec))).
      \<exists>b. bm_get blobs cid = Some b \<and> cid_verifies C cid b)"
proof -
  let ?m = "eo_manifest (object_encode C S p dek spec)"
  have len: "mf_plaintext_len ?m = of_nat (length p)" "unat (mf_plaintext_len ?m) = length p"
    using assms(3) by (simp_all add: object_encode_def Let_def unat_of_nat)
  have dec: "decode_chunks C S (mf_chunks ?m) blobs dek [] = Inr q \<longleftrightarrow>
      q = p \<and> (\<forall>cid\<in>set (mf_chunks ?m). \<exists>b. bm_get blobs cid = Some b \<and> cid_verifies C cid b)" for q
    unfolding encode_cids using decode_chunks_pieces [OF assms(1,4), of "[]" q] split_concat [OF assms(2), of p]
    by simp
  have "\<not> 2 ^ 63 \<le> unat (mf_plaintext_len ?m)"
    using assms(3) len(2) by simp
  then show ?thesis
    by (auto simp: object_decode_def len(1) res_bind_Inr_iff dec)
qed

definition demo_blobs :: "chunk_store" where
  "demo_blobs = bm_collect (eo_chunks (object_encode demo demo_sealing [7, 8] 5 spec_default))"

lemma demo_split: "chunk_split demo_sealing [7, 8] spec_default = [[7, 8]]"
  by (simp add: chunk_split_def spec_default_def from_target_def chunk_floor_def chunk_ceiling_def Let_def)

lemma be_bytes_zero: "be_bytes k 0 = replicate k 0"
  by (induction k) (simp_all add: replicate_append_same)

lemma demo_object:
  "object_encode demo demo_sealing [7, 8] 5 spec_default =
     \<lparr>eo_manifest = \<lparr>mf_chunks = [42], mf_plaintext_len = 2\<rparr>,
      eo_chunks = [(42, replicate 24 0 @ [7, 8] @ replicate 16 0)]\<rparr>"
proof -
  have "take 24 (put_fixed32 0) = replicate 24 0"
    by (simp add: put_fixed32_def be_bytes_zero)
  then have "seal_chunk demo_sealing 5 [7, 8] = replicate 24 0 @ [7, 8] @ replicate 16 0"
    by (simp add: seal_chunk_def seal_deterministic_def demo_sealing_def Let_def nonce_len_def)
  then show ?thesis
    by (simp add: object_encode_def demo_split seal_piece_def cid_of_def hash_bytes_def Let_def)
qed

theorem object_decodes_exactly_witness:
  "object_decode demo demo_sealing \<lparr>mf_chunks = [42], mf_plaintext_len = 2\<rparr>
     [(42, replicate 24 0 @ [7, 8] @ replicate 16 0)] 5 = Some (Inr [7, 8])"
proof -
  have cdc: "cdc_partitions demo_sealing spec_default"
    by (rule demo_cdc) (simp add: spec_default_def from_target_def chunk_floor_def chunk_ceiling_def
        saturating_mul_u32_def Let_def)
  have sealed: "seal_chunk demo_sealing 5 [7, 8] = replicate 24 0 @ [7, 8] @ replicate 16 0"
    using demo_object by (simp add: object_encode_def demo_split seal_piece_def Let_def)
  show ?thesis
    using object_decodes_exactly [OF demo_aead cdc, of "[7, 8]" "[(42, replicate 24 0 @ [7, 8] @ replicate 16 0)]" demo 5 "[7, 8]"]
    by (simp add: demo_object demo_split sealed cid_verifies_def cid_of_def hash_bytes_def)
qed

text \<open>
  C23. Appending is an optimisation and never a second encoding: whatever pieces an object is
  appended in, it ends up as the manifest and the chunks that encoding the whole plaintext at once
  gives, and no append panics.
\<close>

theorem append_equals_encode:
  assumes "cdc_partitions S spec" and "cdc_settles S spec" and "length (concat pieces) < 2 ^ 64"
  shows "\<exists>A. ao_extend_all C S dek (append_new spec) pieces = Some A
    \<and> ao_object A = object_encode C S (concat pieces) dek spec"
proof -
  have "ao_tracks C S dek (append_new spec) []"
    by (simp add: ao_tracks_def append_new_def object_encode_def chunk_split_def Let_def)
  then show ?thesis
    using ao_extend_all_tracks [of S "append_new spec" C dek "[]" pieces] assms
    by (auto simp: ao_tracks_def append_new_def)
qed

theorem append_equals_encode_witness:
  "\<exists>A. ao_extend_all demo demo_sealing 5 (append_new spec_default) [[7], [], [8]] = Some A
     \<and> eo_chunks (ao_object A) = [(42, replicate 24 0 @ [7, 8] @ replicate 16 0)]"
proof -
  have cdc: "cdc_partitions demo_sealing spec_default"
    by (rule demo_cdc) (simp add: spec_default_def from_target_def chunk_floor_def chunk_ceiling_def
        saturating_mul_u32_def Let_def)
  show ?thesis
    using append_equals_encode [OF cdc demo_cdc(2), of "[[7], [], [8]]" demo 5] by (auto simp: demo_object)
qed

section \<open>Manifests\<close>

text \<open>
  Manifests are read exactly: bytes parse as a manifest if and only if they are its canonical
  encoding, so a manifest has one content identifier, and a declared number of chunks that the
  bytes do not hold is refused.
\<close>

theorem manifest_exact:
  "manifest_from_bytes b = Inr m \<longleftrightarrow> b = canonical_bytes m \<and> length (mf_chunks m) < 2 ^ 64"
  by (rule manifest_iff)

text \<open>
  A manifest can make its reader panic: the parser accepts any declared length, and decoding
  reserves that many bytes before it looks at a chunk, so a manifest of 44 bytes that declares
  2^63 bytes parses and then stops the process that decodes it.
\<close>

theorem huge_manifest_panics:
  "\<exists>b m. length b = 44 \<and> manifest_from_bytes b = Inr m \<and> (\<forall>blobs dek. object_decode C S m blobs dek = None)"
proof -
  let ?m = "\<lparr>mf_chunks = [], mf_plaintext_len = 2 ^ 63\<rparr>"
  have "unat ((2 :: u64) ^ 63) = 2 ^ 63"
    by simp
  then have "object_decode C S ?m blobs dek = None" for blobs dek
    by (simp add: object_decode_def)
  then show ?thesis
    by (intro exI [of _ "canonical_bytes ?m"] exI [of _ ?m]) (simp add: manifest_iff length_canonical)
qed

text \<open>
  An honest object takes exactly the bytes its manifest allows: the sealed chunks of an encoded
  object add up to the bound that a fetch derives from the manifest, so the bound refuses nothing
  honest, and no chunk is longer than the largest chunk of the policy plus the forty bytes of
  nonce and tag.
\<close>

theorem honest_object_fits:
  fixes C :: crypto and dek :: b32
  assumes "aead_correct S" and "cdc_partitions S (from_target t)"
    and "length p + 40 * length (chunk_split S p (from_target t)) < 2 ^ 64"
  defines "eo \<equiv> object_encode C S p dek (from_target t)"
  shows "unat (ciphertext_bound (eo_manifest eo)) = stored_len eo
    \<and> (\<forall>(cid, b)\<in>set (eo_chunks eo). length b \<le> unat (cs_max (from_target t)) + 40)"
proof
  let ?n = "length (chunk_split S p (from_target t))"
  have m: "length (mf_chunks (eo_manifest eo)) = ?n" "mf_plaintext_len (eo_manifest eo) = of_nat (length p)"
    by (simp_all add: eo_def object_encode_def Let_def)
  have u: "unat (of_nat ?n :: u64) = ?n" "unat (of_nat (length p) :: u64) = length p"
    using assms(3) by (simp_all add: unat_of_nat)
  have "saturating_mul_u64 (of_nat ?n) chunk_overhead_bytes = of_nat (40 * ?n)"
    using assms(3) u by (simp add: saturating_mul_u64_def chunk_overhead_bytes_def nonce_len_def tag_len_def)
  then have "ciphertext_bound (eo_manifest eo) = saturating_add_u64 (of_nat (40 * ?n)) (of_nat (length p))"
    by (simp add: ciphertext_bound_def m)
  moreover have "unat (of_nat (40 * ?n) :: u64) = 40 * ?n" "unat (of_nat (40 * ?n + length p) :: u64) = 40 * ?n + length p"
    using assms(3) by (intro unat_of_nat_u64; simp)+
  ultimately have "unat (ciphertext_bound (eo_manifest eo)) = 40 * ?n + length p"
    using assms(3) u(2) by (simp add: saturating_add_u64_def)
  then show "unat (ciphertext_bound (eo_manifest eo)) = stored_len eo"
    using encode_stored_len [OF assms(1,2)] by (simp add: eo_def)
  show "\<forall>(cid, b)\<in>set (eo_chunks eo). length b \<le> unat (cs_max (from_target t)) + 40"
    using split_max [OF assms(2) from_target_bounds(3)]
    by (auto simp: eo_def object_encode_def seal_piece_def seal_chunk_def length_seal [OF assms(1)] Let_def)
qed

theorem honest_object_fits_witness:
  "unat (ciphertext_bound (eo_manifest (object_encode demo demo_sealing [7, 8] 5 spec_default))) =
     stored_len (object_encode demo demo_sealing [7, 8] 5 spec_default)"
proof -
  have "0 < cs_max (from_target (32 * 1024))"
    by (simp add: from_target_def chunk_floor_def chunk_ceiling_def saturating_mul_u32_def Let_def)
  then show ?thesis
    using honest_object_fits [OF demo_aead demo_cdc(1), of "32 * 1024" "[7, 8]" demo 5] demo_split
    by (simp add: spec_default_def)
qed

end
