(* ===== verification/Fetch.thy ===== *)
theory Fetch
  imports Object
begin

text \<open>
  Fetching content, \<open>intranet-storage\<close>: serving.rs (who may be served, the order of sources, rarest
  chunk first) and fetch.rs (the plan of a running fetch: what state each chunk is in, how many
  requests are out, and the byte budgets of the objects being fetched).

  A plan is pure state: \<open>next_requests\<close> says what to ask for next, and the outcomes of those
  requests are fed back. The comparison of a failure rate with a threshold is floating point; it is
  the argument \<open>at_least\<close> on the two counters, as in the ledger.
\<close>

section \<open>Serving\<close>

datatype serving_refusal = NoReadContent string

definition may_serve :: "b32 \<Rightarrow> governance_state \<Rightarrow> serving_refusal + unit" where
  "may_serve requester st =
     (if identity_holds st requester ReadContent then Inr () else Inl (NoReadContent (short requester)))"

record source_candidate =
  sc_peer :: b32
  sc_latency_millis :: "u32 option"
  sc_current_load :: u32

definition source_throughput :: "capability_ledger \<Rightarrow> b32 \<Rightarrow> u64" where
  "source_throughput L peer =
     (case bm_get (cl_entries L) peer of None \<Rightarrow> 0 | Some a \<Rightarrow> up_bytes_per_sec (ca_bandwidth a))"

definition source_key ::
  "capability_ledger \<Rightarrow> observations \<Rightarrow> (u64 \<Rightarrow> u64 \<Rightarrow> bool) \<Rightarrow> source_candidate \<Rightarrow> nat \<times> u32 \<times> u32 \<times> int \<times> b32" where
  "source_key L R at_least c =
     (reliability_class at_least (for_peer R (sc_peer c)), sc_current_load c,
      case sc_latency_millis c of None \<Rightarrow> - 1 | Some l \<Rightarrow> l,
      - int (unat (source_throughput L (sc_peer c))), sc_peer c)"

definition select_sources ::
  "source_candidate list \<Rightarrow> capability_ledger \<Rightarrow> observations \<Rightarrow> (u64 \<Rightarrow> u64 \<Rightarrow> bool) \<Rightarrow> nat \<Rightarrow> b32 list" where
  "select_sources candidates L R at_least want =
     map sc_peer (take want (sort_key (source_key L R at_least)
       (filter (\<lambda>c. source_throughput L (sc_peer c) \<noteq> 0) candidates)))"

definition rarest_first :: "(b32 \<times> u32) list \<Rightarrow> b32 list" where
  "rarest_first chunks = map fst (sort_key (\<lambda>(cid, holders). (holders, cid)) chunks)"

section \<open>The plan\<close>

definition default_concurrency :: nat where
  "default_concurrency = 4"

datatype chunk_state =
    AwaitingProviders
  | Ready "b32 list" u32
  | InFlight "b32 list" u32
  | Exhausted
  | Done
  | OverBudget

record budget =
  bd_object :: b32
  bd_chunks :: "b32 btree_set"
  bd_remaining :: u64
  bd_exceeded :: bool

record fetch_plan =
  fp_chunks :: "(b32, chunk_state) btree_map"
  fp_concurrency :: nat
  fp_inflight :: nat
  fp_budgets :: "budget list"
  fp_unbudgeted :: "b32 btree_set"

definition plan_want :: "b32 \<Rightarrow> fetch_plan \<Rightarrow> fetch_plan" where
  "plan_want cid P =
     (case bm_get (fp_chunks P) cid of
        None \<Rightarrow> P\<lparr>fp_chunks := bm_insert cid AwaitingProviders (fp_chunks P)\<rparr>
      | Some OverBudget \<Rightarrow> P\<lparr>fp_chunks := bm_insert cid AwaitingProviders (fp_chunks P)\<rparr>
      | Some _ \<Rightarrow> P)"

definition plan_extend :: "b32 list \<Rightarrow> fetch_plan \<Rightarrow> fetch_plan" where
  "plan_extend cids P =
     fold (\<lambda>cid P. plan_want cid (P\<lparr>fp_unbudgeted := bs_insert cid (fp_unbudgeted P)\<rparr>)) cids P"

definition plan_new :: "b32 list \<Rightarrow> nat \<Rightarrow> fetch_plan" where
  "plan_new cids concurrency =
     plan_extend cids \<lparr>fp_chunks = [], fp_concurrency = max concurrency 1, fp_inflight = 0, fp_budgets = [],
       fp_unbudgeted = []\<rparr>"

definition extend_within :: "b32 \<Rightarrow> b32 list \<Rightarrow> u64 \<Rightarrow> fetch_plan \<Rightarrow> fetch_plan" where
  "extend_within obj cids bytes P =
     (let chunks = bs_collect cids;
          P' = fold plan_want chunks P
      in P'\<lparr>fp_budgets := fp_budgets P'
             @ [\<lparr>bd_object = obj, bd_chunks = chunks, bd_remaining = bytes, bd_exceeded = False\<rparr>]\<rparr>)"

fun is_in_flight :: "chunk_state option \<Rightarrow> bool" where
  "is_in_flight (Some (InFlight _ _)) = True"
| "is_in_flight _ = False"

text \<open>A budget is charged with a chunk it wants: it has room, or it runs out.\<close>

definition budget_wants :: "b32 \<Rightarrow> budget \<Rightarrow> bool" where
  "budget_wants cid b \<longleftrightarrow> \<not> bd_exceeded b \<and> cid \<in> set (bd_chunks b)"

definition charge :: "b32 \<Rightarrow> u64 \<Rightarrow> budget \<Rightarrow> budget" where
  "charge cid bytes b =
     (if \<not> budget_wants cid b then b
      else if bytes \<le> bd_remaining b then b\<lparr>bd_remaining := bd_remaining b - bytes\<rparr>
      else b\<lparr>bd_exceeded := True\<rparr>)"

definition doomed :: "fetch_plan \<Rightarrow> b32 \<Rightarrow> bool" where
  "doomed P cid \<longleftrightarrow>
     cid \<notin> set (fp_unbudgeted P)
     \<and> list_ex (\<lambda>b. cid \<in> set (bd_chunks b)) (fp_budgets P)
     \<and> list_all bd_exceeded (filter (\<lambda>b. cid \<in> set (bd_chunks b)) (fp_budgets P))"

definition abandon :: "b32 \<Rightarrow> fetch_plan \<Rightarrow> fetch_plan" where
  "abandon cid P =
     (case bm_get (fp_chunks P) cid of
        Some AwaitingProviders \<Rightarrow> P\<lparr>fp_chunks := bm_insert cid OverBudget (fp_chunks P)\<rparr>
      | Some (Ready _ _) \<Rightarrow> P\<lparr>fp_chunks := bm_insert cid OverBudget (fp_chunks P)\<rparr>
      | _ \<Rightarrow> P)"

definition abandon_exhausted_budgets :: "fetch_plan \<Rightarrow> fetch_plan" where
  "abandon_exhausted_budgets P =
     fold abandon
       (bs_collect (filter (doomed P) (concat (map bd_chunks (filter bd_exceeded (fp_budgets P)))))) P"

definition plan_admit :: "b32 \<Rightarrow> u64 \<Rightarrow> fetch_plan \<Rightarrow> fetch_plan \<times> bool" where
  "plan_admit cid bytes P =
     (if \<not> is_in_flight (bm_get (fp_chunks P) cid) then (P, True)
      else
        (let room = (cid \<in> set (fp_unbudgeted P)
               \<or> list_ex (\<lambda>b. budget_wants cid b \<and> bytes \<le> bd_remaining b) (fp_budgets P));
             ran_out = list_ex (\<lambda>b. budget_wants cid b \<and> \<not> bytes \<le> bd_remaining b) (fp_budgets P);
             P1 = P\<lparr>fp_budgets := map (charge cid bytes) (fp_budgets P)\<rparr>;
             P2 = (if ran_out then abandon_exhausted_budgets P1 else P1)
         in if room then (P2, True)
            else (case bm_get (fp_chunks P2) cid of
                    None \<Rightarrow> (P2, False)
                  | Some st \<Rightarrow>
                      (P2\<lparr>fp_inflight := (if is_in_flight (Some st) then fp_inflight P2 - 1 else fp_inflight P2),
                          fp_chunks := bm_insert cid OverBudget (fp_chunks P2)\<rparr>, False))))"

definition in_state :: "(chunk_state \<Rightarrow> bool) \<Rightarrow> fetch_plan \<Rightarrow> b32 list" where
  "in_state Q P = map fst (filter (\<lambda>(_, st). Q st) (fp_chunks P))"

definition providers_needed :: "fetch_plan \<Rightarrow> b32 list" where
  "providers_needed P = in_state (\<lambda>st. st = AwaitingProviders) P"

definition order_sources ::
  "b32 list \<Rightarrow> capability_ledger \<Rightarrow> observations \<Rightarrow> (u64 \<Rightarrow> u64 \<Rightarrow> bool) \<Rightarrow> b32 list" where
  "order_sources providers L R at_least =
     select_sources (map (\<lambda>peer. \<lparr>sc_peer = peer, sc_latency_millis = None, sc_current_load = 0\<rparr>) providers)
       L R at_least (length providers)"

definition record_providers ::
  "b32 \<Rightarrow> b32 list \<Rightarrow> b32 list \<Rightarrow> capability_ledger \<Rightarrow> observations \<Rightarrow> (u64 \<Rightarrow> u64 \<Rightarrow> bool) \<Rightarrow> fetch_plan \<Rightarrow> fetch_plan" where
  "record_providers cid providers fallback L R at_least P =
     (if bm_get (fp_chunks P) cid \<noteq> Some AwaitingProviders then P
      else
        (let named = order_sources providers L R at_least;
             ordered = (if named = [] then order_sources fallback L R at_least else named)
         in P\<lparr>fp_chunks := bm_insert cid
               (if ordered = [] then Exhausted else Ready ordered (of_nat (length providers))) (fp_chunks P)\<rparr>))"

fun holders_if_ready :: "b32 \<times> chunk_state \<Rightarrow> (b32 \<times> u32) option" where
  "holders_if_ready (cid, Ready _ n) = Some (cid, n)"
| "holders_if_ready _ = None"

fun issue :: "b32 list \<Rightarrow> fetch_plan \<Rightarrow> fetch_plan \<times> (b32 \<times> b32) list" where
  "issue [] P = (P, [])"
| "issue (cid # cids) P =
     (if fp_inflight P \<ge> fp_concurrency P then (P, [])
      else
        (case bm_get (fp_chunks P) cid of
           Some (Ready (source # rest) n) \<Rightarrow>
             (let (P', issued) = issue cids
                (P\<lparr>fp_chunks := bm_insert cid (InFlight rest n) (fp_chunks P), fp_inflight := fp_inflight P + 1\<rparr>)
              in (P', (cid, source) # issued))
         | _ \<Rightarrow> issue cids P))"

definition next_requests :: "fetch_plan \<Rightarrow> fetch_plan \<times> (b32 \<times> b32) list" where
  "next_requests P = issue (rarest_first (sort_key snd (List.map_filter holders_if_ready (fp_chunks P)))) P"

definition record_received :: "b32 \<Rightarrow> fetch_plan \<Rightarrow> fetch_plan" where
  "record_received cid P =
     (if is_in_flight (bm_get (fp_chunks P) cid)
      then P\<lparr>fp_chunks := bm_insert cid Done (fp_chunks P), fp_inflight := fp_inflight P - 1\<rparr>
      else P)"

definition plan_failed :: "b32 \<Rightarrow> fetch_plan \<Rightarrow> fetch_plan" where
  "plan_failed cid P =
     (case bm_get (fp_chunks P) cid of
        Some (InFlight candidates n) \<Rightarrow>
          P\<lparr>fp_inflight := fp_inflight P - 1,
            fp_chunks := bm_insert cid
              (if doomed P cid then OverBudget else if candidates = [] then Exhausted else Ready candidates n)
              (fp_chunks P)\<rparr>
      | _ \<Rightarrow> P)"

definition overrun_objects :: "fetch_plan \<Rightarrow> b32 list" where
  "overrun_objects P = map bd_object (filter bd_exceeded (fp_budgets P))"

definition over_budget :: "fetch_plan \<Rightarrow> b32 list" where
  "over_budget P = in_state (\<lambda>st. st = OverBudget) P"

definition received :: "fetch_plan \<Rightarrow> b32 list" where
  "received P = in_state (\<lambda>st. st = Done) P"

definition unavailable :: "fetch_plan \<Rightarrow> b32 list" where
  "unavailable P = in_state (\<lambda>st. st = Exhausted) P"

definition is_complete :: "fetch_plan \<Rightarrow> bool" where
  "is_complete P \<longleftrightarrow> list_all (\<lambda>st. st \<in> {Done, Exhausted, OverBudget}) (bm_values (fp_chunks P))"

section \<open>Well-formed plans\<close>

fun in_flight_of :: "chunk_state \<Rightarrow> nat" where
  "in_flight_of (InFlight _ _) = 1"
| "in_flight_of _ = 0"

fun work_of :: "chunk_state \<Rightarrow> nat" where
  "work_of (Ready cs _) = 2 * length cs"
| "work_of (InFlight cs _) = Suc (2 * length cs)"
| "work_of _ = 0"

fun awaiting_of :: "chunk_state \<Rightarrow> nat" where
  "awaiting_of AwaitingProviders = 1"
| "awaiting_of _ = 0"

fun startable :: "chunk_state \<Rightarrow> bool" where
  "startable (Ready cs _) = (cs \<noteq> [])"
| "startable _ = True"

definition fetch_inv :: "fetch_plan \<Rightarrow> bool" where
  "fetch_inv P \<longleftrightarrow>
     bm_ok (fp_chunks P) \<and> fp_inflight P = bm_sum in_flight_of (fp_chunks P)
     \<and> fp_inflight P \<le> fp_concurrency P \<and> 0 < fp_concurrency P
     \<and> (\<forall>cid st. bm_get (fp_chunks P) cid = Some st \<longrightarrow> startable st)"

text \<open>Every operation moves single chunks, so the invariant and the measure follow from one rule.\<close>

definition put_state :: "b32 \<Rightarrow> chunk_state \<Rightarrow> nat \<Rightarrow> fetch_plan \<Rightarrow> fetch_plan" where
  "put_state cid st n P = P\<lparr>fp_chunks := bm_insert cid st (fp_chunks P), fp_inflight := n\<rparr>"

lemma put_state_inv:
  assumes "fetch_inv P" and "startable st"
    and "n + (case bm_get (fp_chunks P) cid of None \<Rightarrow> 0 | Some old \<Rightarrow> in_flight_of old) = fp_inflight P + in_flight_of st"
    and "n \<le> fp_concurrency P"
  shows "fetch_inv (put_state cid st n P)"
  using assms bm_sum_insert [of "fp_chunks P" in_flight_of cid st]
  by (auto simp: fetch_inv_def put_state_def)

lemma in_flight_cases:
  assumes "is_in_flight s"
  obtains cs n where "s = Some (InFlight cs n)"
  using assms by (cases s rule: is_in_flight.cases) auto

lemma in_flight_counted: "fetch_inv P \<Longrightarrow> bm_get (fp_chunks P) cid = Some (InFlight cs n) \<Longrightarrow> 0 < fp_inflight P"
  using bm_sum_insert [of "fp_chunks P" in_flight_of cid Done] by (simp add: fetch_inv_def)

lemma want_inv: "fetch_inv P \<Longrightarrow> fetch_inv (plan_want cid P)"
  using put_state_inv [of P AwaitingProviders "fp_inflight P" cid]
  by (auto simp: plan_want_def put_state_def fetch_inv_def split: option.splits chunk_state.splits)

lemma fold_inv:
  assumes "\<And>x P. fetch_inv P \<Longrightarrow> fetch_inv (f x P)"
  shows "fetch_inv P \<Longrightarrow> fetch_inv (fold f xs P)"
  by (induction xs arbitrary: P) (simp_all add: assms)

lemma unbudgeted_inv: "fetch_inv (P\<lparr>fp_unbudgeted := u\<rparr>) = fetch_inv P" "fetch_inv (P\<lparr>fp_budgets := b\<rparr>) = fetch_inv P"
  by (simp_all add: fetch_inv_def)

lemma extend_inv: "fetch_inv P \<Longrightarrow> fetch_inv (plan_extend cids P)"
  unfolding plan_extend_def by (rule fold_inv) (simp_all add: want_inv unbudgeted_inv)

lemma new_inv: "fetch_inv (plan_new cids concurrency)"
  unfolding plan_new_def by (rule extend_inv) (simp add: fetch_inv_def)

lemma extend_within_inv: "fetch_inv P \<Longrightarrow> fetch_inv (extend_within obj cids bytes P)"
  unfolding extend_within_def Let_def unbudgeted_inv by (rule fold_inv [of plan_want]) (simp_all add: want_inv)

lemma providers_inv: "fetch_inv P \<Longrightarrow> fetch_inv (record_providers cid ps fb L R al P)"
  using put_state_inv [of P _ "fp_inflight P" cid]
  by (auto simp: record_providers_def put_state_def Let_def fetch_inv_def)

lemma received_inv: "fetch_inv P \<Longrightarrow> fetch_inv (record_received cid P)"
  using put_state_inv [of P Done "fp_inflight P - 1" cid] in_flight_counted [of P cid]
  by (auto simp: record_received_def put_state_def fetch_inv_def elim!: in_flight_cases)

lemma failed_inv: "fetch_inv P \<Longrightarrow> fetch_inv (plan_failed cid P)"
  using put_state_inv [of P _ "fp_inflight P - 1" cid] in_flight_counted [of P cid]
  by (auto simp: plan_failed_def put_state_def fetch_inv_def split: option.splits chunk_state.splits)

lemma abandon_cases:
  obtains (same) "abandon cid P = P"
  | (dropped) st where "bm_get (fp_chunks P) cid = Some st" "in_flight_of st = 0"
      "abandon cid P = put_state cid OverBudget (fp_inflight P) P"
proof (cases "bm_get (fp_chunks P) cid")
  case (Some st)
  then show ?thesis
    using same dropped [OF Some] by (cases st) (simp_all add: abandon_def put_state_def)
qed (simp add: same abandon_def)

lemma abandon_inv: "fetch_inv P \<Longrightarrow> fetch_inv (abandon cid P)"
proof (cases cid P rule: abandon_cases)
  case (dropped st)
  moreover assume "fetch_inv P"
  ultimately show ?thesis
    using put_state_inv [of P OverBudget "fp_inflight P" cid] by (simp add: fetch_inv_def [of P])
qed simp

lemma abandon_fields [simp]:
  "fp_budgets (abandon cid P) = fp_budgets P" "fp_unbudgeted (abandon cid P) = fp_unbudgeted P"
  by (cases cid P rule: abandon_cases; simp add: put_state_def)+

lemma abandon_in_flight: "is_in_flight (bm_get (fp_chunks (abandon c P)) cid) = is_in_flight (bm_get (fp_chunks P) cid)"
  by (auto simp: abandon_def split: option.splits chunk_state.splits)

lemma abandon_all:
  "fetch_inv P \<Longrightarrow> fetch_inv (fold abandon cs P)"
  "fp_budgets (fold abandon cs P) = fp_budgets P" "fp_unbudgeted (fold abandon cs P) = fp_unbudgeted P"
  "is_in_flight (bm_get (fp_chunks (fold abandon cs P)) cid) = is_in_flight (bm_get (fp_chunks P) cid)"
  by (rule fold_inv [OF abandon_inv], assumption)
    (induction cs arbitrary: P; simp add: abandon_in_flight)+

text \<open>A chunk that arrives either stays in flight, to be recorded as received, or is given up.\<close>

lemma admit_cases:
  assumes "is_in_flight (bm_get (fp_chunks P) cid)"
  obtains (kept) Q cs where "Q = fold abandon cs (P\<lparr>fp_budgets := map (charge cid bytes) (fp_budgets P)\<rparr>)"
      "plan_admit cid bytes P = (Q, True)"
      "cid \<in> set (fp_unbudgeted P) \<or> (\<exists>b\<in>set (fp_budgets P). budget_wants cid b \<and> bytes \<le> bd_remaining b)"
  | (given_up) Q cs where "Q = fold abandon cs (P\<lparr>fp_budgets := map (charge cid bytes) (fp_budgets P)\<rparr>)"
      "plan_admit cid bytes P = (put_state cid OverBudget (fp_inflight Q - 1) Q, False)"
proof -
  let ?P = "P\<lparr>fp_budgets := map (charge cid bytes) (fp_budgets P)\<rparr>"
  obtain cs where cs: "(if list_ex (\<lambda>b. budget_wants cid b \<and> \<not> bytes \<le> bd_remaining b) (fp_budgets P)
      then abandon_exhausted_budgets ?P else ?P) = fold abandon cs ?P"
    by (cases "list_ex (\<lambda>b. budget_wants cid b \<and> \<not> bytes \<le> bd_remaining b) (fp_budgets P)")
      (auto simp: abandon_exhausted_budgets_def intro: that [of "[]"])
  let ?Q = "fold abandon cs ?P"
  have "is_in_flight (bm_get (fp_chunks ?Q) cid)"
    using assms by (simp add: abandon_all)
  then obtain ds n where st: "bm_get (fp_chunks ?Q) cid = Some (InFlight ds n)"
    by (rule in_flight_cases)
  show thesis
  proof (cases "cid \<in> set (fp_unbudgeted P) \<or> list_ex (\<lambda>b. budget_wants cid b \<and> bytes \<le> bd_remaining b) (fp_budgets P)")
    case True
    then have "plan_admit cid bytes P = (?Q, True)"
      using assms cs by (simp add: plan_admit_def Let_def)
    then show thesis
      using True by (intro kept [of ?Q cs]) (auto simp: list_ex_iff)
  next
    case False
    then have "plan_admit cid bytes P = (put_state cid OverBudget (fp_inflight ?Q - 1) ?Q, False)"
      using assms cs st by (simp add: plan_admit_def Let_def put_state_def)
    then show thesis
      by (intro given_up [of ?Q cs]) simp_all
  qed
qed

lemma admit_inv:
  assumes "fetch_inv P"
  shows "fetch_inv (fst (plan_admit cid bytes P))"
proof (cases "is_in_flight (bm_get (fp_chunks P) cid)")
  case True
  have Q: "fetch_inv (fold abandon cs (P\<lparr>fp_budgets := map (charge cid bytes) (fp_budgets P)\<rparr>))" for cs
    using assms by (simp add: abandon_all unbudgeted_inv)
  from True show ?thesis
  proof (cases rule: admit_cases [where bytes = bytes])
    case (given_up Q cs)
    have "is_in_flight (bm_get (fp_chunks Q) cid)"
      using True by (simp add: given_up(1) abandon_all)
    then obtain ds n where st: "bm_get (fp_chunks Q) cid = Some (InFlight ds n)"
      by (rule in_flight_cases)
    have "fetch_inv Q"
      using Q given_up(1) by simp
    then show ?thesis
      using put_state_inv [of Q OverBudget "fp_inflight Q - 1" cid] in_flight_counted [OF _ st] st given_up(2)
      by (simp add: fetch_inv_def)
  qed (use Q in simp)
qed (simp add: plan_admit_def assms)

lemma issue_inv: "fetch_inv P \<Longrightarrow> fetch_inv (fst (issue cids P))"
proof (induction cids P rule: issue.induct)
  case (2 cid cids P)
  show ?case
  proof (cases "\<exists>s rest n. bm_get (fp_chunks P) cid = Some (Ready (s # rest) n) \<and> \<not> fp_inflight P \<ge> fp_concurrency P")
    case True
    then obtain s rest n where st: "bm_get (fp_chunks P) cid = Some (Ready (s # rest) n)" "fp_inflight P < fp_concurrency P"
      by auto
    have "fetch_inv (put_state cid (InFlight rest n) (fp_inflight P + 1) P)"
      using "2.prems" st by (intro put_state_inv) auto
    then show ?thesis
      using "2.IH" st by (simp add: put_state_def case_prod_beta)
  next
    case False
    then show ?thesis
      using 2 by (auto split: option.splits chunk_state.splits list.splits)
  qed
qed simp

lemma next_inv: "fetch_inv P \<Longrightarrow> fetch_inv (fst (next_requests P))"
  by (simp add: next_requests_def issue_inv)

section \<open>Progress\<close>

text \<open>What can happen to a plan that nobody extends.\<close>

inductive fetch_step :: "fetch_plan \<Rightarrow> fetch_plan \<Rightarrow> bool" where
  located: "bm_get (fp_chunks P) cid = Some AwaitingProviders \<Longrightarrow>
    fetch_step P (record_providers cid providers fallback L R at_least P)"
| issued: "next_requests P = (P', r # rs) \<Longrightarrow> fetch_step P P'"
| arrived: "is_in_flight (bm_get (fp_chunks P) cid) \<Longrightarrow> plan_admit cid bytes P = (P', True) \<Longrightarrow>
    fetch_step P (record_received cid P')"
| refused: "is_in_flight (bm_get (fp_chunks P) cid) \<Longrightarrow> plan_admit cid bytes P = (P', False) \<Longrightarrow> fetch_step P P'"
| failed: "is_in_flight (bm_get (fp_chunks P) cid) \<Longrightarrow> fetch_step P (plan_failed cid P)"

lemma step_inv: "fetch_step P P' \<Longrightarrow> fetch_inv P \<Longrightarrow> fetch_inv P'"
proof (induction rule: fetch_step.induct)
  case (issued P P' r rs)
  then show ?case
    using next_inv [of P] by simp
next
  case (arrived P cid bytes P')
  then show ?case
    using admit_inv [of P cid bytes] by (simp add: received_inv)
next
  case (refused P cid bytes P')
  then show ?case
    using admit_inv [of P cid bytes] by simp
qed (simp_all add: providers_inv failed_inv)

definition plan_measure :: "fetch_plan \<Rightarrow> nat \<times> nat" where
  "plan_measure P = (bm_sum awaiting_of (fp_chunks P), bm_sum work_of (fp_chunks P))"

definition plan_less :: "(fetch_plan \<times> fetch_plan) set" where
  "plan_less = inv_image (less_than <*lex*> less_than) plan_measure"

lemma wf_plan_less: "wf plan_less"
  by (simp add: plan_less_def wf_inv_image wf_lex_prod)

lemma put_state_measure:
  assumes "fetch_inv P" and "bm_get (fp_chunks P) cid = Some old"
  shows "bm_sum awaiting_of (fp_chunks (put_state cid st n P)) + awaiting_of old =
           bm_sum awaiting_of (fp_chunks P) + awaiting_of st"
    and "bm_sum work_of (fp_chunks (put_state cid st n P)) + work_of old = bm_sum work_of (fp_chunks P) + work_of st"
  using assms bm_sum_insert [of "fp_chunks P" awaiting_of cid st] bm_sum_insert [of "fp_chunks P" work_of cid st]
  by (simp_all add: put_state_def fetch_inv_def)

lemma abandon_measure:
  assumes "fetch_inv P"
  shows "bm_sum awaiting_of (fp_chunks (fold abandon cs P)) \<le> bm_sum awaiting_of (fp_chunks P)
    \<and> bm_sum work_of (fp_chunks (fold abandon cs P)) \<le> bm_sum work_of (fp_chunks P)"
  using assms
proof (induction cs arbitrary: P)
  case (Cons c cs)
  have "bm_sum awaiting_of (fp_chunks (abandon c P)) \<le> bm_sum awaiting_of (fp_chunks P)
    \<and> bm_sum work_of (fp_chunks (abandon c P)) \<le> bm_sum work_of (fp_chunks P)"
  proof (cases c P rule: abandon_cases)
    case (dropped st)
    then show ?thesis
      using put_state_measure [OF Cons.prems dropped(1), of OverBudget "fp_inflight P"] by simp
  qed simp
  then show ?case
    using Cons.IH [OF abandon_inv [OF Cons.prems, of c]] by simp
qed simp

text \<open>Ending a request, in whatever way, after budgets were charged and chunks abandoned.\<close>

lemma settle_less:
  fixes cs :: "b32 list" and b :: "budget list"
  assumes "fetch_inv P" and "is_in_flight (bm_get (fp_chunks P) cid)" and "awaiting_of st = 0" and "work_of st = 0"
  defines "Q \<equiv> fold abandon cs (P\<lparr>fp_budgets := b\<rparr>)"
  shows "(put_state cid st n Q, P) \<in> plan_less"
proof -
  have inv: "fetch_inv Q"
    using assms(1) by (simp add: Q_def abandon_all unbudgeted_inv)
  have "is_in_flight (bm_get (fp_chunks Q) cid)"
    using assms(2) by (simp add: Q_def abandon_all)
  then obtain ds m where st: "bm_get (fp_chunks Q) cid = Some (InFlight ds m)"
    by (rule in_flight_cases)
  show ?thesis
    using put_state_measure [OF inv st, of st n] assms(3,4)
      abandon_measure [of "P\<lparr>fp_budgets := b\<rparr>" cs, folded Q_def] assms(1)
    by (auto simp: plan_less_def plan_measure_def unbudgeted_inv)
qed

lemma issue_measure:
  "fetch_inv P \<Longrightarrow>
     bm_sum awaiting_of (fp_chunks (fst (issue cids P))) = bm_sum awaiting_of (fp_chunks P)
     \<and> bm_sum work_of (fp_chunks (fst (issue cids P))) + length (snd (issue cids P)) = bm_sum work_of (fp_chunks P)"
proof (induction cids P rule: issue.induct)
  case (2 cid cids P)
  show ?case
  proof (cases "\<exists>s rest n. bm_get (fp_chunks P) cid = Some (Ready (s # rest) n) \<and> \<not> fp_inflight P \<ge> fp_concurrency P")
    case True
    then obtain s rest n where st: "bm_get (fp_chunks P) cid = Some (Ready (s # rest) n)" "fp_inflight P < fp_concurrency P"
      by auto
    let ?Q = "put_state cid (InFlight rest n) (fp_inflight P + 1) P"
    have "fetch_inv ?Q"
      using "2.prems" st by (intro put_state_inv) auto
    then show ?thesis
      using "2.IH" st
        put_state_measure [OF "2.prems" st(1), of "InFlight rest n" "fp_inflight P + 1"]
      by (simp add: put_state_def case_prod_beta)
  next
    case False
    then show ?thesis
      using 2 by (auto split: option.splits chunk_state.splits list.splits)
  qed
qed simp

lemma step_less:
  assumes "fetch_step P P'" and "fetch_inv P"
  shows "(P', P) \<in> plan_less"
  using assms
proof (induction rule: fetch_step.induct)
  case (located P cid providers fallback L R at_least)
  then obtain st where "record_providers cid providers fallback L R at_least P = put_state cid st (fp_inflight P) P"
      "awaiting_of st = 0"
    by (simp add: record_providers_def Let_def put_state_def)
  then show ?case
    using put_state_measure [OF located(2,1), of st "fp_inflight P"] by (auto simp: plan_less_def plan_measure_def)
next
  case (issued P P' r rs)
  let ?order = "rarest_first (sort_key snd (List.map_filter holders_if_ready (fp_chunks P)))"
  have "issue ?order P = (P', r # rs)"
    using issued(1) by (simp add: next_requests_def)
  then show ?case
    using issue_measure [OF issued(2), of ?order] by (simp add: plan_less_def plan_measure_def)
next
  case (arrived P cid bytes P')
  from arrived(1) show ?case
  proof (cases rule: admit_cases [where bytes = bytes])
    case (kept Q cs)
    then have "is_in_flight (bm_get (fp_chunks P') cid)" "P' = Q"
      using arrived(1,2) by (simp_all add: abandon_all)
    then have "record_received cid P' = put_state cid Done (fp_inflight P' - 1) Q"
      by (simp add: record_received_def put_state_def)
    then show ?thesis
      using settle_less [OF arrived(3,1), of Done] kept(1) by simp
  qed (use arrived(2) in simp)
next
  case (refused P cid bytes P')
  from refused(1) show ?case
  proof (cases rule: admit_cases [where bytes = bytes])
    case (given_up Q cs)
    then show ?thesis
      using settle_less [OF refused(3,1), of OverBudget] refused(2) by simp
  qed (use refused(2) in simp)
next
  case (failed P cid)
  then obtain cs n where st: "bm_get (fp_chunks P) cid = Some (InFlight cs n)"
    by (auto elim: in_flight_cases)
  define new where "new = (if doomed P cid then OverBudget else if cs = [] then Exhausted else Ready cs n)"
  have "plan_failed cid P = put_state cid new (fp_inflight P - 1) P" "awaiting_of new = 0" "work_of new \<le> 2 * length cs"
    using st by (simp_all add: plan_failed_def put_state_def new_def)
  then show ?case
    using put_state_measure [OF failed(2) st, of new "fp_inflight P - 1"] by (auto simp: plan_less_def plan_measure_def)
qed

lemma issue_first:
  assumes "bm_get (fp_chunks P) cid = Some (Ready (s # rest) n)" and "fp_inflight P < fp_concurrency P"
  shows "\<exists>P' rs. issue (cid # cids) P = (P', (cid, s) # rs)"
  using assms by (simp add: case_prod_beta)

lemma ready_listed:
  assumes "bm_ok m"
  shows "cid \<in> set (rarest_first (sort_key snd (List.map_filter holders_if_ready m))) \<longleftrightarrow>
    (\<exists>cs n. bm_get m cid = Some (Ready cs n))"
proof -
  have iff: "(cid, n) \<in> set (List.map_filter holders_if_ready m) \<longleftrightarrow> (\<exists>cs. (cid, Ready cs n) \<in> set m)" for n
    by (force simp: map_filter_def elim: holders_if_ready.elims)
  show ?thesis
    unfolding bm_ok_map_of [OF assms] by (auto simp: rarest_first_def image_iff iff Bex_def)
qed

text \<open>A plan that is not complete waits for providers, for an answer, or can ask for more.\<close>

lemma never_stuck:
  assumes "fetch_inv P" and "\<not> is_complete P"
  shows "\<exists>P'. fetch_step P P'"
proof -
  have ok: "bm_ok (fp_chunks P)"
    using assms(1) by (simp add: fetch_inv_def)
  obtain cid st where st: "bm_get (fp_chunks P) cid = Some st" "st \<notin> {Done, Exhausted, OverBudget}"
    using assms(2) set_bm_values [OF ok] by (auto simp: is_complete_def list_all_iff)
  then consider "st = AwaitingProviders" | "is_in_flight (Some st)" | cs n where "st = Ready cs n"
    by (cases st) auto
  then show ?thesis
  proof cases
    case 3
    show ?thesis
    proof (cases "fp_inflight P < fp_concurrency P")
      case True
      let ?order = "rarest_first (sort_key snd (List.map_filter holders_if_ready (fp_chunks P)))"
      have "cid \<in> set ?order"
        using st(1) 3 by (simp add: ready_listed [OF ok])
      then obtain c order where order: "?order = c # order"
        by (cases ?order) auto
      then obtain cs n where c: "bm_get (fp_chunks P) c = Some (Ready cs n)"
        using ready_listed [OF ok, of c] by auto
      then have "cs \<noteq> []"
        using assms(1) by (auto simp: fetch_inv_def dest: spec [of _ c])
      then obtain s rest where "cs = s # rest"
        by (cases cs) auto
      then obtain P' rs where "next_requests P = (P', (c, s) # rs)"
        using issue_first [of P c s rest n order] c True order by (auto simp: next_requests_def simp del: issue.simps)
      then show ?thesis
        using fetch_step.issued by blast
    next
      case False
      then have "bm_sum in_flight_of (fp_chunks P) \<noteq> 0"
        using assms(1) by (auto simp: fetch_inv_def)
      then obtain v where "v \<in> set (bm_values (fp_chunks P))" "in_flight_of v \<noteq> 0"
        by (auto simp: bm_sum_def)
      moreover from this(2) have "is_in_flight (Some v)"
        by (cases v) auto
      ultimately obtain c where "bm_get (fp_chunks P) c = Some v" "is_in_flight (Some v)"
        using set_bm_values [OF ok] by blast
      then show ?thesis
        using fetch_step.failed by (metis)
    qed
  qed (use st(1) fetch_step.located fetch_step.failed in \<open>metis\<close>)+
qed

section \<open>Runs and what they keep\<close>

datatype fetch_event =
    Wanted "b32 list"
  | WantedWithin b32 "b32 list" u64
  | Located b32 "b32 list" "b32 list" capability_ledger observations
  | Asked
  | Arrived b32 u64
  | Failed b32

text \<open>The second component is what the event adds to the store: a chunk and its size.\<close>

fun plan_event :: "(u64 \<Rightarrow> u64 \<Rightarrow> bool) \<Rightarrow> fetch_event \<Rightarrow> fetch_plan \<Rightarrow> fetch_plan \<times> (b32 \<times> u64) list" where
  "plan_event al (Wanted cids) P = (plan_extend cids P, [])"
| "plan_event al (WantedWithin obj cids bytes) P = (extend_within obj cids bytes P, [])"
| "plan_event al (Located cid ps fb L R) P = (record_providers cid ps fb L R al P, [])"
| "plan_event al Asked P = (fst (next_requests P), [])"
| "plan_event al (Arrived cid bytes) P =
     (if is_in_flight (bm_get (fp_chunks P) cid)
      then (let (P', keep) = plan_admit cid bytes P in
            if keep then (record_received cid P', [(cid, bytes)]) else (P', []))
      else (P, []))"
| "plan_event al (Failed cid) P = (plan_failed cid P, [])"

primrec plan_run :: "(u64 \<Rightarrow> u64 \<Rightarrow> bool) \<Rightarrow> fetch_event list \<Rightarrow> fetch_plan \<Rightarrow> fetch_plan \<times> (b32 \<times> u64) list" where
  "plan_run al [] P = (P, [])"
| "plan_run al (e # es) P =
     (let (P1, kept) = plan_event al e P; (P2, later) = plan_run al es P1 in (P2, kept @ later))"

lemma event_inv: "fetch_inv P \<Longrightarrow> fetch_inv (fst (plan_event al e P))"
  using admit_inv [of P]
  by (cases e) (simp_all add: extend_inv extend_within_inv providers_inv next_inv failed_inv received_inv
      case_prod_beta)

lemma run_inv: "fetch_inv P \<Longrightarrow> fetch_inv (fst (plan_run al es P))"
proof (induction es arbitrary: P)
  case (Cons e es)
  then show ?case
    using event_inv [OF Cons.prems, of al e] by (simp add: case_prod_beta)
qed simp

text \<open>A chunk that belongs to one budget and that nobody wants without a budget.\<close>

definition sole :: "fetch_plan \<Rightarrow> nat \<Rightarrow> b32 \<Rightarrow> bool" where
  "sole P i cid \<longleftrightarrow>
     cid \<in> set (bd_chunks (fp_budgets P ! i)) \<and> cid \<notin> set (fp_unbudgeted P)
     \<and> (\<forall>j<length (fp_budgets P). j \<noteq> i \<longrightarrow> cid \<notin> set (bd_chunks (fp_budgets P ! j)))"

definition kept_for :: "fetch_plan \<Rightarrow> nat \<Rightarrow> (b32 \<times> u64) list \<Rightarrow> nat" where
  "kept_for P i kept = sum_list (map (\<lambda>(_, bytes). unat bytes) (filter (\<lambda>(cid, _). sole P i cid) kept))"

text \<open>Budgets and wishes only grow, and a budget only shrinks.\<close>

definition grows :: "fetch_plan \<Rightarrow> fetch_plan \<Rightarrow> bool" where
  "grows P P' \<longleftrightarrow>
     length (fp_budgets P) \<le> length (fp_budgets P') \<and> set (fp_unbudgeted P) \<subseteq> set (fp_unbudgeted P')
     \<and> (\<forall>i<length (fp_budgets P). bd_chunks (fp_budgets P' ! i) = bd_chunks (fp_budgets P ! i)
          \<and> bd_remaining (fp_budgets P' ! i) \<le> bd_remaining (fp_budgets P ! i))"

lemma grows_refl [simp]: "grows P P"
  by (simp add: grows_def)

lemma grows_trans: "grows P Q \<Longrightarrow> grows Q R \<Longrightarrow> grows P R"
  unfolding grows_def by (auto intro: order_trans) (meson order_less_le_trans order_trans)

lemma sole_back: "grows P P' \<Longrightarrow> i < length (fp_budgets P) \<Longrightarrow> sole P' i cid \<Longrightarrow> sole P i cid"
  unfolding grows_def sole_def by (metis (no_types) order_less_le_trans subsetD)

lemma same_wishes: "fp_budgets P' = fp_budgets P \<Longrightarrow> fp_unbudgeted P' = fp_unbudgeted P \<Longrightarrow> grows P P'"
  by (simp add: grows_def)

lemma want_fields [simp]:
  "fp_budgets (plan_want cid P) = fp_budgets P" "fp_unbudgeted (plan_want cid P) = fp_unbudgeted P"
  by (auto simp: plan_want_def split: option.splits chunk_state.splits)

lemma fold_want_fields [simp]:
  "fp_budgets (fold plan_want cs P) = fp_budgets P" "fp_unbudgeted (fold plan_want cs P) = fp_unbudgeted P"
  by (induction cs arbitrary: P) simp_all

lemma extend_grows: "grows P (plan_extend cids P)"
  unfolding plan_extend_def
proof (induction cids arbitrary: P)
  case (Cons c cs)
  have "grows P (plan_want c (P\<lparr>fp_unbudgeted := bs_insert c (fp_unbudgeted P)\<rparr>))"
    by (auto simp: grows_def)
  then show ?case
    using Cons.IH grows_trans by fastforce
qed simp

lemma extend_within_grows: "grows P (extend_within obj cids bytes P)"
  by (auto simp: grows_def extend_within_def Let_def nth_append)

lemma issue_fields [simp]:
  "fp_budgets (fst (issue cids P)) = fp_budgets P \<and> fp_unbudgeted (fst (issue cids P)) = fp_unbudgeted P"
  by (induction cids P rule: issue.induct)
    (auto simp: case_prod_beta split: option.splits chunk_state.splits list.splits)

lemma charge_fields [simp]:
  "bd_chunks (charge cid bytes b) = bd_chunks b" "bd_remaining (charge cid bytes b) \<le> bd_remaining b"
  by (auto simp: charge_def word_sub_le)

lemma admit_fields:
  assumes "is_in_flight (bm_get (fp_chunks P) cid)"
  shows "fp_budgets (fst (plan_admit cid bytes P)) = map (charge cid bytes) (fp_budgets P)
    \<and> fp_unbudgeted (fst (plan_admit cid bytes P)) = fp_unbudgeted P"
  using assms by (cases rule: admit_cases [where bytes = bytes]) (simp_all add: abandon_all put_state_def)

lemma event_grows: "grows P (fst (plan_event al e P))"
proof (cases e)
  case (Arrived cid bytes)
  have "grows P P'" if "fp_budgets P' = map (charge cid bytes) (fp_budgets P)" "fp_unbudgeted P' = fp_unbudgeted P" for P'
    using that by (simp add: grows_def)
  then show ?thesis
    using admit_fields [of P cid bytes] by (auto simp: Arrived record_received_def split: prod.splits)
qed (auto simp: extend_grows extend_within_grows next_requests_def record_providers_def plan_failed_def Let_def
    intro!: same_wishes split: option.splits chunk_state.splits)

lemma event_charges:
  assumes "i < length (fp_budgets P)"
  shows "kept_for P i (snd (plan_event al e P)) + unat (bd_remaining (fp_budgets (fst (plan_event al e P)) ! i)) \<le>
    unat (bd_remaining (fp_budgets P ! i))"
proof (cases "snd (plan_event al e P) = []")
  case True
  then show ?thesis
    using event_grows [of P al e] assms by (simp add: grows_def kept_for_def word_le_nat_alt)
next
  case False
  then obtain cid bytes where e: "e = Arrived cid bytes" and fl: "is_in_flight (bm_get (fp_chunks P) cid)"
    by (cases e) (auto split: if_splits)
  from fl show ?thesis
  proof (cases rule: admit_cases [where bytes = bytes])
    case (kept Q cs)
    have rem: "fp_budgets (record_received cid Q) ! i = charge cid bytes (fp_budgets P ! i)"
      using assms by (simp add: kept(1) record_received_def abandon_all)
    have ev: "plan_event al e P = (record_received cid Q, [(cid, bytes)])"
      using fl kept(2) by (simp add: e)
    show ?thesis
    proof (cases "sole P i cid")
      case True
      then obtain b where b: "b \<in> set (fp_budgets P)" "budget_wants cid b" "bytes \<le> bd_remaining b"
        using kept(3) by (auto simp: sole_def)
      then have "b = fp_budgets P ! i"
        using True unfolding in_set_conv_nth [of b] by (auto simp: sole_def budget_wants_def)
      then have "budget_wants cid (fp_budgets P ! i) \<and> bytes \<le> bd_remaining (fp_budgets P ! i)"
        using b by simp
      then show ?thesis
        using True by (simp add: ev rem kept_for_def charge_def unat_sub word_le_nat_alt)
    next
      case False
      then show ?thesis
        by (simp add: ev rem kept_for_def flip: word_le_nat_alt)
    qed
  next
    case (given_up Q cs)
    then show ?thesis
      using False fl by (simp add: e)
  qed
qed

lemma run_grows: "grows P (fst (plan_run al es P))"
  by (induction es arbitrary: P) (auto simp: case_prod_beta intro: grows_trans event_grows)

lemma kept_for_mono:
  assumes "grows P P'" and "i < length (fp_budgets P)"
  shows "kept_for P' i kept \<le> kept_for P i kept"
  using sole_back [OF assms] by (induction kept) (auto simp: kept_for_def)

lemma run_charges:
  "i < length (fp_budgets P) \<Longrightarrow>
     kept_for (fst (plan_run al es P)) i (snd (plan_run al es P)) + unat (bd_remaining (fp_budgets (fst (plan_run al es P)) ! i))
       \<le> unat (bd_remaining (fp_budgets P ! i))"
proof (induction es arbitrary: P)
  case (Cons e es)
  let ?P1 = "fst (plan_event al e P)" and ?kept = "snd (plan_event al e P)"
  let ?P2 = "fst (plan_run al es ?P1)" and ?later = "snd (plan_run al es ?P1)"
  have len: "i < length (fp_budgets ?P1)"
    using event_grows [of P al e] Cons.prems by (simp add: grows_def)
  have "kept_for ?P2 i ?kept \<le> kept_for P i ?kept"
    using kept_for_mono [OF grows_trans [OF event_grows run_grows] Cons.prems] .
  moreover have "kept_for ?P2 i (?kept @ ?later) = kept_for ?P2 i ?kept + kept_for ?P2 i ?later"
    by (simp add: kept_for_def)
  ultimately show ?case
    using Cons.IH [OF len] event_charges [OF Cons.prems, of al e] by (simp add: case_prod_beta)
qed (simp add: kept_for_def)

end
