(* ===== verification/Replication.thy ===== *)
theory Replication
  imports Object
begin

text \<open>
  Durability, replication.rs of \<open>intranet-storage\<close>: signed announcements of what a node holds, the
  view that collects them with their times, the assessment of a content against its replication
  target, and the plan of a repair. Placement is the ranking of the ledger.
\<close>

section \<open>Announcements\<close>

record holding_announcement =
  ha_network :: b32
  ha_node :: b32
  ha_holdings :: "b32 btree_set"
  ha_announced_at :: i64
  ha_signature :: b64

definition ha_payload :: "b32 \<Rightarrow> b32 \<Rightarrow> b32 btree_set \<Rightarrow> i64 \<Rightarrow> bytes" where
  "ha_payload network node holdings announced_at =
     enc_domain ''intranet.holding-announcement.v1'' @ put_fixed32 network @ put_fixed32 node
       @ put_seq put_fixed32 holdings @ put_i64 announced_at"

definition ha_create :: "crypto \<Rightarrow> per_network_identity \<Rightarrow> b32 btree_set \<Rightarrow> i64 \<Rightarrow> holding_announcement" where
  "ha_create C node holdings announced_at =
     \<lparr>ha_network = pni_network node, ha_node = pni_id C node, ha_holdings = holdings,
      ha_announced_at = announced_at,
      ha_signature = pni_sign C node (ha_payload (pni_network node) (pni_id C node) holdings announced_at)\<rparr>"

definition ha_verify :: "crypto \<Rightarrow> holding_announcement \<Rightarrow> storage_error + unit" where
  "ha_verify C a =
     (case vk_verify C (ha_node a) (ha_payload (ha_network a) (ha_node a) (ha_holdings a) (ha_announced_at a))
        (ha_signature a) of
        Inl _ \<Rightarrow> Inl StorageBadSignature | Inr u \<Rightarrow> Inr u)"

section \<open>The view\<close>

record replication_view =
  rv_network :: b32
  rv_holders :: "(b32, (b32, i64) btree_map) btree_map"
  rv_ttl_millis :: i64

definition default_holding_ttl_millis :: i64 where
  "default_holding_ttl_millis = 15 * 60000"

definition view_new :: "b32 \<Rightarrow> replication_view" where
  "view_new network = \<lparr>rv_network = network, rv_holders = [], rv_ttl_millis = default_holding_ttl_millis\<rparr>"

definition with_ttl :: "replication_view \<Rightarrow> i64 \<Rightarrow> replication_view" where
  "with_ttl V ttl = V\<lparr>rv_ttl_millis := ttl\<rparr>"

definition freshest :: "i64 option \<Rightarrow> i64 \<Rightarrow> i64" where
  "freshest current t =
     (case current of None \<Rightarrow> t | Some c \<Rightarrow> if sint c \<le> sint t then t else c)"

definition nodes_of :: "replication_view \<Rightarrow> b32 \<Rightarrow> (b32, i64) btree_map" where
  "nodes_of V cid = (case bm_get (rv_holders V) cid of None \<Rightarrow> [] | Some nodes \<Rightarrow> nodes)"

definition note_holding :: "holding_announcement \<Rightarrow> b32 \<Rightarrow> replication_view \<Rightarrow> replication_view" where
  "note_holding a cid V =
     (let nodes = nodes_of V cid in
      V\<lparr>rv_holders := bm_insert cid
          (bm_insert (ha_node a) (freshest (bm_get nodes (ha_node a)) (ha_announced_at a)) nodes) (rv_holders V)\<rparr>)"

definition view_record ::
  "crypto \<Rightarrow> replication_view \<Rightarrow> holding_announcement \<Rightarrow> governance_state \<Rightarrow> storage_error + replication_view" where
  "view_record C V a st =
     res_bind (ha_verify C a) (\<lambda>_.
       if ha_network a \<noteq> rv_network V then Inl WrongCollection
       else if \<not> is_member st (ha_node a) then Inl (PublisherNotAMember (short (ha_node a)))
       else Inr (fold (note_holding a) (ha_holdings a) V))"

text \<open>Dropping nodes from every content, and the contents nobody is left to hold.\<close>

definition retain_nodes :: "(b32 \<times> i64 \<Rightarrow> bool) \<Rightarrow> replication_view \<Rightarrow> replication_view \<times> nat" where
  "retain_nodes keep V =
     (let kept = map (\<lambda>(cid, nodes). (cid, filter keep nodes)) (rv_holders V);
          dropped = sum_list (map (\<lambda>(_, nodes). length nodes - length (filter keep nodes)) (rv_holders V))
      in (V\<lparr>rv_holders := filter (\<lambda>(_, nodes). nodes \<noteq> []) kept\<rparr>, dropped))"

definition view_expire :: "replication_view \<Rightarrow> i64 \<Rightarrow> replication_view \<times> nat" where
  "view_expire V now =
     retain_nodes (\<lambda>(_, announced). sint (millis_since now announced) \<le> sint (rv_ttl_millis V)) V"

definition view_reconcile :: "replication_view \<Rightarrow> governance_state \<Rightarrow> replication_view \<times> nat" where
  "view_reconcile V st = retain_nodes (\<lambda>(node, _). is_member st node) V"

definition holders_of :: "replication_view \<Rightarrow> b32 \<Rightarrow> b32 list" where
  "holders_of V cid = bm_keys (nodes_of V cid)"

definition tracked :: "replication_view \<Rightarrow> b32 list" where
  "tracked V = bm_keys (rv_holders V)"

section \<open>Assessment and repair\<close>

datatype replication_health = Healthy | Degraded | UnderReplicated | Lost

record replication_status =
  rs_cid :: b32
  rs_target :: nat
  rs_durable :: "b32 list"
  rs_opportunistic :: "b32 list"
  rs_eligible :: nat
  rs_health :: replication_health

record repair_plan =
  rp_cid :: b32
  rp_assign_to :: "b32 list"

definition total_copies :: "replication_status \<Rightarrow> nat" where
  "total_copies s = length (rs_durable s) + length (rs_opportunistic s)"

definition ranked_nodes :: "crypto \<Rightarrow> capability_ledger \<Rightarrow> b32 \<Rightarrow> b32 list" where
  "ranked_nodes C L cid = map sc_node (rank C (put_fixed32 cid) (storage_candidates L) StorageOffered)"

definition assess :: "crypto \<Rightarrow> replication_view \<Rightarrow> b32 \<Rightarrow> capability_ledger \<Rightarrow> nat \<Rightarrow> replication_status" where
  "assess C V cid L target =
     (let ranked = ranked_nodes C L cid;
          eligible = length ranked;
          assigned = bs_collect (take target ranked);
          durable = filter (\<lambda>node. node \<in> set assigned) (holders_of V cid);
          opportunistic = filter (\<lambda>node. node \<notin> set assigned) (holders_of V cid);
          attainable = min target eligible;
          health =
            (if durable = [] \<and> opportunistic = [] then Lost
             else if length durable \<ge> attainable \<and> length durable \<ge> target then Healthy
             else if eligible \<le> length durable then Degraded
             else if length durable \<ge> attainable then Degraded
             else UnderReplicated)
      in \<lparr>rs_cid = cid, rs_target = target, rs_durable = durable, rs_opportunistic = opportunistic,
          rs_eligible = eligible, rs_health = health\<rparr>)"

definition plan_repair ::
  "crypto \<Rightarrow> replication_view \<Rightarrow> b32 \<Rightarrow> capability_ledger \<Rightarrow> nat \<Rightarrow> repair_plan option" where
  "plan_repair C V cid L target =
     (let status = assess C V cid L target in
      if rs_health status \<noteq> UnderReplicated then None
      else
        (let holders = bs_collect (holders_of V cid);
             needed = target - length (rs_durable status);
             assign_to = take needed (filter (\<lambda>node. node \<notin> set holders) (ranked_nodes C L cid))
         in if assign_to = [] then None else Some \<lparr>rp_cid = cid, rp_assign_to = assign_to\<rparr>))"

definition plan_all_repairs :: "crypto \<Rightarrow> replication_view \<Rightarrow> capability_ledger \<Rightarrow> nat \<Rightarrow> repair_plan list" where
  "plan_all_repairs C V L target = List.map_filter (\<lambda>cid. plan_repair C V cid L target) (tracked V)"

definition runs_repair :: "b32 \<Rightarrow> capability_ledger \<Rightarrow> bool" where
  "runs_repair node L =
     (case bm_get (cl_entries L) node of None \<Rightarrow> False | Some a \<Rightarrow> storage_offered a > 0)"

section \<open>What the view holds\<close>

definition view_ok :: "replication_view \<Rightarrow> bool" where
  "view_ok V \<longleftrightarrow> bm_ok (rv_holders V) \<and> (\<forall>cid nodes. bm_get (rv_holders V) cid = Some nodes \<longrightarrow> bm_ok nodes \<and> nodes \<noteq> [])"

lemma view_ok_nodes: "view_ok V \<Longrightarrow> bm_ok (nodes_of V cid)"
  by (simp add: view_ok_def nodes_of_def split: option.splits)

lemma set_holders_of: "set (holders_of V cid) = dom (bm_get (nodes_of V cid))"
  by (simp add: holders_of_def set_bm_keys)

lemma distinct_holders: "view_ok V \<Longrightarrow> distinct (holders_of V cid)"
  by (simp add: holders_of_def bm_keys_def bm_ok_distinct view_ok_nodes)

lemma note_holding_get:
  "bm_get (nodes_of (note_holding a cid V) c) node =
     (if c = cid \<and> node = ha_node a then Some (freshest (bm_get (nodes_of V cid) node) (ha_announced_at a))
      else bm_get (nodes_of V c) node)"
  by (auto simp: note_holding_def nodes_of_def Let_def split: option.splits)

lemma note_holding_ok: "view_ok V \<Longrightarrow> view_ok (note_holding a cid V)"
  using view_ok_nodes [of V cid] by (auto simp: view_ok_def note_holding_def Let_def)

lemma note_all_ok: "view_ok V \<Longrightarrow> view_ok (fold (note_holding a) cids V)"
  by (induction cids arbitrary: V) (simp_all add: note_holding_ok)

lemma freshest_idem: "freshest (Some (freshest c t)) t = freshest c t"
  by (auto simp: freshest_def split: option.splits)

lemma note_all_get:
  "bm_get (nodes_of (fold (note_holding a) cids V) c) node =
     (if c \<in> set cids \<and> node = ha_node a then Some (freshest (bm_get (nodes_of V c) node) (ha_announced_at a))
      else bm_get (nodes_of V c) node)"
  by (induction cids arbitrary: V) (auto simp: note_holding_get freshest_idem)

lemma retain_nodes_get:
  assumes "view_ok V"
  shows "bm_get (nodes_of (fst (retain_nodes keep V)) cid) node =
    (case bm_get (nodes_of V cid) node of Some t \<Rightarrow> if keep (node, t) then Some t else None | None \<Rightarrow> None)"
proof -
  let ?m = "map (\<lambda>(cid, nodes). (cid, filter keep nodes)) (rv_holders V)"
  have ok: "bm_ok (rv_holders V)"
    using assms by (simp add: view_ok_def)
  have "map fst ?m = map fst (rv_holders V)"
    by (simp add: case_prod_beta comp_def)
  then have "bm_ok ?m"
    using ok by (simp only: bm_ok_def)
  moreover have "bm_get ?m cid = map_option (filter keep) (bm_get (rv_holders V) cid)"
    by (simp add: map_of_map)
  ultimately have "nodes_of (fst (retain_nodes keep V)) cid = filter keep (nodes_of V cid)"
    by (simp add: retain_nodes_def nodes_of_def Let_def bm_get_filter split: option.splits)
  then show ?thesis
    by (simp add: bm_get_filter view_ok_nodes [OF assms])
qed

section \<open>Assessment\<close>

lemma ranked_distinct: "ledger_wf C L \<Longrightarrow> distinct (ranked_nodes C L cid)"
  unfolding ranked_nodes_def by (rule rank_distinct [OF storage_candidates_distinct])

lemma length_filter_inter:
  "distinct xs \<Longrightarrow> distinct ys \<Longrightarrow> length (filter (\<lambda>x. x \<in> set ys) xs) = length (filter (\<lambda>y. y \<in> set xs) ys)"
  by (simp flip: distinct_card add: Int_commute set_filter Int_def conj_commute)

lemma durable_count:
  assumes "ledger_wf C L" and "view_ok V"
  shows "length (rs_durable (assess C V cid L target)) =
    length (filter (\<lambda>node. node \<in> set (holders_of V cid)) (take target (ranked_nodes C L cid)))"
  using length_filter_inter [OF distinct_holders [OF assms(2)] distinct_take [OF ranked_distinct [OF assms(1)]]]
  by (simp add: assess_def Let_def)

lemma assess_health:
  fixes cid :: b32 and target :: nat
  assumes "ledger_wf C L" and "view_ok V"
  defines "s \<equiv> assess C V cid L target"
  shows "rs_health s = Lost \<longleftrightarrow> holders_of V cid = []"
    and "rs_health s = UnderReplicated \<longleftrightarrow>
      holders_of V cid \<noteq> [] \<and> length (rs_durable s) < min target (length (ranked_nodes C L cid))"
    and "length (rs_durable s) \<le> min target (length (ranked_nodes C L cid))"
proof -
  let ?D = "length (rs_durable s)" and ?e = "length (ranked_nodes C L cid)"
  show le: "?D \<le> min target ?e"
    unfolding s_def durable_count [OF assms(1,2)] by (metis length_filter_le length_take min.commute)
  have empty: "rs_durable s = [] \<and> rs_opportunistic s = [] \<longleftrightarrow> holders_of V cid = []"
    by (auto simp: s_def assess_def Let_def filter_empty_conv)
  have health: "rs_health s =
      (if rs_durable s = [] \<and> rs_opportunistic s = [] then Lost
       else if ?D \<ge> min target ?e \<and> ?D \<ge> target then Healthy
       else if ?e \<le> ?D then Degraded else if ?D \<ge> min target ?e then Degraded else UnderReplicated)"
    unfolding s_def assess_def Let_def by (simp only: replication_status.select_convs)
  show "rs_health s = Lost \<longleftrightarrow> holders_of V cid = []"
    unfolding health empty by auto
  show "rs_health s = UnderReplicated \<longleftrightarrow> holders_of V cid \<noteq> [] \<and> ?D < min target ?e"
    unfolding health empty by auto
qed

lemma filter_take_prefix:
  "take (n - length (filter (\<lambda>x. \<not> Q x) (take n xs))) (filter Q xs) = filter Q (take n xs)"
proof (cases "n \<le> length xs")
  case True
  have "length (filter Q (take n xs)) + length (filter (\<lambda>x. \<not> Q x) (take n xs)) = n"
    using sum_length_filter_compl [of Q "take n xs"] True by simp
  then have "n - length (filter (\<lambda>x. \<not> Q x) (take n xs)) = length (filter Q (take n xs))"
    by simp
  moreover have "filter Q xs = filter Q (take n xs) @ filter Q (drop n xs)"
    by (metis append_take_drop_id filter_append)
  ultimately show ?thesis
    by (metis append_eq_conv_conj)
next
  case False
  then show ?thesis
    using sum_length_filter_compl [of Q xs] by simp
qed

text \<open>A repair goes to exactly the assigned nodes that lack the content.\<close>

lemma plan_repair_eq:
  assumes "ledger_wf C L" and "view_ok V"
  shows "plan_repair C V cid L target =
    (if rs_health (assess C V cid L target) = UnderReplicated
     then Some \<lparr>rp_cid = cid, rp_assign_to =
       filter (\<lambda>node. node \<notin> set (holders_of V cid)) (take target (ranked_nodes C L cid))\<rparr>
     else None)"
proof -
  let ?r = "ranked_nodes C L cid" and ?Q = "\<lambda>node. node \<notin> set (holders_of V cid)"
  have taken: "take (target - length (rs_durable (assess C V cid L target))) (filter ?Q ?r) = filter ?Q (take target ?r)"
    using filter_take_prefix [of target ?Q ?r] durable_count [OF assms, of cid target] by simp
  have "filter ?Q (take target ?r) \<noteq> []" if "rs_health (assess C V cid L target) = UnderReplicated"
  proof
    assume none: "filter ?Q (take target ?r) = []"
    then have "filter (\<lambda>node. node \<in> set (holders_of V cid)) (take target ?r) = take target ?r"
      by (auto simp: filter_empty_conv intro!: filter_True)
    then show False
      using that assess_health(2) [OF assms, of cid target] durable_count [OF assms, of cid target]
      by (simp add: min_def split: if_splits)
  qed
  then show ?thesis
    unfolding plan_repair_def Let_def set_bs_collect taken by auto
qed

end
