(* ===== verification/Durability.thy ===== *)
theory Durability
  imports Fetch Replication Contribution
begin

text \<open>
  What fetching and replication guarantee: a fetch ends, keeps to its concurrency and to the byte
  budgets of the objects it fetches, and a repair goes to exactly the nodes that placement assigns
  and that lack the content.
\<close>

section \<open>Fetching\<close>

text \<open>
  C22. Every fetch ends: from whatever plan a run has led to, there is no infinite sequence of
  provider answers, requests, arrivals, refusals and failures, and a sequence can only stop where
  every chunk has been received, has run out of holders or is over budget, so a fetch never hangs
  with work left that nothing is outstanding for.
\<close>

theorem fetch_completes:
  assumes "plan_run al es (plan_new cids concurrency) = (P, kept)"
  shows "(\<forall>f. f 0 = P \<longrightarrow> (\<exists>i. \<not> fetch_step (f i) (f (Suc i))))
    \<and> (\<forall>Q. fetch_step\<^sup>*\<^sup>* P Q \<and> (\<nexists>Q'. fetch_step Q Q') \<longrightarrow> is_complete Q)"
proof (intro conjI allI impI)
  have inv: "fetch_inv P"
    using run_inv [OF new_inv, of al es cids concurrency] assms by simp
  {
    fix f :: "nat \<Rightarrow> fetch_plan"
    assume "f 0 = P"
    show "\<exists>i. \<not> fetch_step (f i) (f (Suc i))"
    proof (rule ccontr)
      assume "\<nexists>i. \<not> fetch_step (f i) (f (Suc i))"
      then have step: "fetch_step (f i) (f (Suc i))" for i
        by blast
      then have "fetch_inv (f i)" for i
        by (induction i) (auto simp: \<open>f 0 = P\<close> inv intro: step_inv)
      then have "(f (Suc i), f i) \<in> plan_less" for i
        using step step_less by blast
      then show False
        using wf_plan_less unfolding wf_iff_no_infinite_down_chain by blast
    qed
  }
  fix Q
  assume Q: "fetch_step\<^sup>*\<^sup>* P Q \<and> (\<nexists>Q'. fetch_step Q Q')"
  then have "fetch_step\<^sup>*\<^sup>* P Q"
    by blast
  then have "fetch_inv Q"
    by (induction rule: rtranclp_induct) (auto simp: inv intro: step_inv)
  then show "is_complete Q"
    using Q never_stuck by blast
qed

theorem fetch_completes_witness:
  "is_complete (record_providers 3 [] [] (ledger_new 7) observations_new (\<lambda>_ _. False) (plan_new [3] 2))"
proof -
  let ?al = "\<lambda>_ _. False" and ?P = "plan_new [3] 2"
  let ?Q = "record_providers 3 [] [] (ledger_new 7) observations_new ?al ?P"
  have P: "fp_chunks ?P = [(3, AwaitingProviders)]"
    by (simp add: plan_new_def plan_extend_def plan_want_def)
  then have Q: "fp_chunks ?Q = [(3, Exhausted)]"
    by (simp add: record_providers_def order_sources_def select_sources_def Let_def)
  have "fetch_step ?P ?Q"
    using P by (intro fetch_step.located) simp
  moreover have "\<not> fetch_step ?Q Q'" for Q'
    using Q by (auto simp: next_requests_def rarest_first_def map_filter_def elim!: fetch_step.cases split: if_splits)
  ultimately show ?thesis
    using fetch_completes [of ?al "[]" "[3]" 2 ?P "[]", THEN conjunct2, rule_format, of ?Q] by auto
qed

lemma want_concurrency [simp]: "fp_concurrency (plan_want cid P) = fp_concurrency P"
  by (auto simp: plan_want_def split: option.splits chunk_state.splits)

lemma fold_concurrency:
  "(\<And>x P. fp_concurrency (f x P) = fp_concurrency P) \<Longrightarrow> fp_concurrency (fold f xs P) = fp_concurrency P"
  by (induction xs arbitrary: P) simp_all

lemma issue_concurrency [simp]: "fp_concurrency (fst (issue cids P)) = fp_concurrency P"
  by (induction cids P rule: issue.induct)
    (auto simp: case_prod_beta split: option.splits chunk_state.splits list.splits)

lemma abandon_concurrency: "fp_concurrency (abandon cid P) = fp_concurrency P"
  by (cases cid P rule: abandon_cases) (simp_all add: put_state_def)

lemma admit_concurrency [simp]: "fp_concurrency (fst (plan_admit cid bytes P)) = fp_concurrency P"
proof (cases "is_in_flight (bm_get (fp_chunks P) cid)")
  case True
  then show ?thesis
    by (cases rule: admit_cases [where bytes = bytes])
      (simp_all add: put_state_def fold_concurrency abandon_concurrency)
qed (simp add: plan_admit_def)

lemma event_concurrency: "fp_concurrency (fst (plan_event al e P)) = fp_concurrency P"
  by (cases e)
    (auto simp: plan_extend_def extend_within_def fold_concurrency record_providers_def next_requests_def
      plan_failed_def record_received_def case_prod_beta Let_def split: option.splits chunk_state.splits)

lemma run_concurrency: "fp_concurrency (fst (plan_run al es P)) = fp_concurrency P"
  by (induction es arbitrary: P) (simp_all add: case_prod_beta event_concurrency)

lemma in_flight_length: "bm_sum in_flight_of m = length (filter (\<lambda>(_, st). is_in_flight (Some st)) m)"
proof (induction m)
  case (Cons p m)
  then show ?case
    by (cases p; cases "snd p") auto
qed simp

text \<open>
  A fetch never has more requests out than its concurrency, of which it always has at least
  one: after any run of wishes, answers and failures the counter is the number of chunks in
  flight and within the limit, and asking for more keeps it there.
\<close>

theorem requests_bounded:
  assumes "plan_run al es (plan_new cids concurrency) = (P, kept)"
  shows "fp_inflight P = length (in_state (\<lambda>st. is_in_flight (Some st)) P) \<and> fp_inflight P \<le> max concurrency 1
    \<and> fp_inflight (fst (next_requests P)) \<le> max concurrency 1"
proof -
  have inv: "fetch_inv P" "fetch_inv (fst (next_requests P))"
    using run_inv [OF new_inv, of al es cids concurrency] assms by (simp_all add: next_inv)
  have "fp_concurrency P = max concurrency 1"
    using run_concurrency [of al es "plan_new cids concurrency"] assms
    by (simp add: plan_new_def plan_extend_def fold_concurrency)
  then show ?thesis
    using inv by (simp add: fetch_inv_def in_state_def in_flight_length next_requests_def)
qed

theorem requests_bounded_witness:
  "\<exists>P. plan_run (\<lambda>_ _. False) [] (plan_new [3, 4] 1) = (P, []) \<and> fp_inflight (fst (next_requests P)) \<le> 1"
  using requests_bounded [of "\<lambda>_ _. False" "[]" "[3, 4]" 1 "plan_new [3, 4] 1" "[]"] by simp

text \<open>
  No object takes more than its manifest declares: over any run, the bytes kept for the chunks
  that one budget alone asked for, together with what is left of that budget, never exceed what the
  budget had, however many holders answer, whatever sizes they send and in whatever order.
\<close>

theorem object_budget_holds:
  assumes "plan_run al es P = (P', kept)" and "i < length (fp_budgets P)"
  shows "sum_list (map (\<lambda>(_, bytes). unat bytes) (filter (\<lambda>(cid, _). sole P' i cid) kept))
    + unat (bd_remaining (fp_budgets P' ! i)) \<le> unat (bd_remaining (fp_budgets P ! i))"
  using run_charges [OF assms(2), of al es] by (simp add: assms(1) kept_for_def)

definition budget_demo :: fetch_plan where
  "budget_demo = \<lparr>fp_chunks = [(3, InFlight [] 1), (4, InFlight [] 1)], fp_concurrency = 2, fp_inflight = 2,
     fp_budgets = [\<lparr>bd_object = 9, bd_chunks = [3, 4], bd_remaining = 10, bd_exceeded = False\<rparr>], fp_unbudgeted = []\<rparr>"

theorem object_budget_holds_witness:
  "\<exists>P'. plan_run (\<lambda>_ _. False) [Arrived 3 6, Arrived 4 6] budget_demo = (P', [(3, 6)])
     \<and> sum_list (map (\<lambda>(_, bytes). unat bytes) (filter (\<lambda>(cid, _). sole P' 0 cid) [(3, 6 :: u64)]))
        + unat (bd_remaining (fp_budgets P' ! 0)) \<le> 10"
proof -
  obtain P' where run: "plan_run (\<lambda>_ _. False) [Arrived 3 6, Arrived 4 6] budget_demo = (P', [(3, 6)])"
    by (simp add: budget_demo_def plan_admit_def charge_def budget_wants_def record_received_def
        abandon_exhausted_budgets_def doomed_def abandon_def bs_collect_def Let_def)
  have ten: "unat (bd_remaining (fp_budgets budget_demo ! 0)) = 10" and len: "0 < length (fp_budgets budget_demo)"
    by (simp_all add: budget_demo_def)
  from run order.trans [OF object_budget_holds [OF run len] eq_refl [OF ten]] show ?thesis
    by (intro exI conjI)
qed

section \<open>Replication\<close>

text \<open>
  A repair is exactly the missing part of the placement: there is a plan if and only if the
  content is held somewhere but by fewer of its assigned nodes than there could be, the plan names
  the assigned nodes that lack it and nobody else, and once they hold it too, and nobody has
  dropped it, every assigned node holds it and no further repair is planned.
\<close>

theorem repair_exact:
  fixes target :: nat
  assumes "ledger_wf C L" and "view_ok V" and "view_ok V'"
    and "set (holders_of V cid) \<subseteq> set (holders_of V' cid)"
    and "set (holders_of V cid) \<noteq> {}"
  defines "assigned \<equiv> take target (ranked_nodes C L cid)"
  shows "(plan_repair C V cid L target = None \<longleftrightarrow> set assigned \<subseteq> set (holders_of V cid))
    \<and> (\<forall>p. plan_repair C V cid L target = Some p \<longrightarrow>
         set (rp_assign_to p) = set assigned - set (holders_of V cid) \<and> distinct (rp_assign_to p)
         \<and> (set (rp_assign_to p) \<subseteq> set (holders_of V' cid) \<longrightarrow> plan_repair C V' cid L target = None))"
proof -
  have none: "plan_repair C W cid L target = None \<longleftrightarrow> set assigned \<subseteq> set (holders_of W cid)"
    if "view_ok W" "set (holders_of W cid) \<noteq> {}" for W
  proof -
    have len: "length assigned = min target (length (ranked_nodes C L cid))"
      by (simp add: assigned_def min.commute)
    have "plan_repair C W cid L target = None \<longleftrightarrow>
        \<not> length (filter (\<lambda>n. n \<in> set (holders_of W cid)) assigned) < length assigned"
      using that assess_health(2) [OF assms(1) that(1), of cid target] durable_count [OF assms(1) that(1), of cid target]
      by (simp add: plan_repair_eq [OF assms(1) that(1)] len assigned_def [symmetric])
    also have "\<dots> \<longleftrightarrow> (\<forall>n\<in>set assigned. n \<in> set (holders_of W cid))"
      by (auto dest: length_filter_less)
    finally show ?thesis
      by (simp add: subset_eq)
  qed
  have plan: "set (rp_assign_to p) = set assigned - set (holders_of V cid) \<and> distinct (rp_assign_to p)"
    if "plan_repair C V cid L target = Some p" for p
    using that ranked_distinct [OF assms(1), of cid]
    by (auto simp: plan_repair_eq [OF assms(1,2)] assigned_def split: if_splits)
  have "set (holders_of V' cid) \<noteq> {}"
    using assms(4,5) by auto
  note none' = none [OF assms(3) this]
  have "plan_repair C V' cid L target = None"
    if "plan_repair C V cid L target = Some p" "set (rp_assign_to p) \<subseteq> set (holders_of V' cid)" for p
    using plan [OF that(1)] that(2) assms(4) unfolding none' by auto
  then show ?thesis
    using none [OF assms(2,5)] plan by simp
qed

definition hold :: "b32 \<Rightarrow> i64 \<Rightarrow> holding_announcement" where
  "hold k t = ha_create demo (who k) [9] t"

lemma hold_accepted:
  "rv_network V = 7 \<Longrightarrow> k \<in> {1, 2} \<Longrightarrow> view_record demo V (hold k t) sample_state = Inr (note_holding (hold k t) 9 V)"
  by (auto simp: view_record_def ha_verify_def vk_verify_def hold_def ha_create_def sample_state_def is_member_def
      group_contains_def bm_contains_def bm_values_def everyone_id_def res_bind_Inr_iff)

lemma demo_draw_cid: "hrw_draw demo (put_fixed32 cid) node = 0"
proof -
  have "be_val (take 8 (be_bytes 32 95)) = 0"
    using take_be_bytes [of 8 24 95] by simp
  then show ?thesis
    by (simp add: hrw_draw_def hash_bytes_def)
qed

definition two_offers :: capability_ledger where
  "two_offers = (ledger_new 7)\<lparr>cl_entries := [(1, offer 1 5 9), (2, offer 2 6 9)]\<rparr>"

lemma two_offers_nodes: "ranked_nodes demo two_offers cid = [1, 2]"
  by (simp add: ranked_nodes_def rank_def two_offers_def storage_candidates_def bm_values_def map_filter_def
      scored_def score_def demo_draw_cid rank_key_def Let_def)

lemma hold_ok: "view_ok (view_new 7)" "view_ok V \<Longrightarrow> view_ok (note_holding (hold k t) 9 V)"
  by (simp_all add: note_holding_ok) (simp add: view_ok_def view_new_def)

theorem repair_exact_witness:
  "\<exists>V p. plan_repair demo V 9 two_offers 2 = Some p \<and> set (rp_assign_to p) = {2}
     \<and> plan_repair demo (note_holding (hold 2 20) 9 V) 9 two_offers 2 = None"
proof -
  let ?V = "note_holding (hold 1 10) 9 (view_new 7)" and ?W = "note_holding (hold 2 20) 9 (note_holding (hold 1 10) 9 (view_new 7))"
  have wf: "ledger_wf demo two_offers"
    using two_offers_wf by (simp add: two_offers_def)
  have h: "holders_of ?V 9 = [1]" "holders_of ?W 9 = [1, 2]"
    by (simp_all add: holders_of_def nodes_of_def note_holding_def view_new_def hold_def ha_create_def bm_keys_def Let_def)
  have ok: "view_ok ?V" "view_ok ?W"
    by (simp_all add: hold_ok)
  have sub: "set (holders_of ?V 9) \<subseteq> set (holders_of ?W 9)" "set (holders_of ?V 9) \<noteq> {}"
    by (simp_all add: h)
  note exact = repair_exact [OF wf ok sub, of 2]
  then obtain p where "plan_repair demo ?V 9 two_offers 2 = Some p"
    by (auto simp: two_offers_nodes h)
  then show ?thesis
    using exact by (auto simp: two_offers_nodes h)
qed

text \<open>
  The view of who holds what does not depend on the order of gossip: two announcements that
  are accepted in one order are accepted in the other, and every node ends up with the later of
  the times it announced for a content.
\<close>

theorem holdings_commute:
  assumes "view_record C V a st = Inr V1" and "view_record C V1 b st = Inr V2"
  shows "\<exists>W1 W2. view_record C V b st = Inr W1 \<and> view_record C W1 a st = Inr W2
    \<and> (\<forall>cid node. bm_get (nodes_of W2 cid) node = bm_get (nodes_of V2 cid) node)"
proof -
  have net: "rv_network (fold (note_holding x) cids W) = rv_network W" for x cids W
    by (induction cids arbitrary: W) (simp_all add: note_holding_def Let_def)
  have acc: "V1 = fold (note_holding a) (ha_holdings a) V" "V2 = fold (note_holding b) (ha_holdings b) V1"
    using assms by (auto simp: view_record_def res_bind_Inr_iff split: if_splits)
  have swap: "freshest (Some (freshest t (ha_announced_at a))) (ha_announced_at b) =
      freshest (Some (freshest t (ha_announced_at b))) (ha_announced_at a)" for t
    by (auto simp: freshest_def intro!: signed_word_eqI split: option.splits)
  let ?W1 = "fold (note_holding b) (ha_holdings b) V"
  let ?W2 = "fold (note_holding a) (ha_holdings a) ?W1"
  have "view_record C V b st = Inr ?W1" "view_record C ?W1 a st = Inr ?W2"
    using assms by (auto simp: view_record_def res_bind_Inr_iff acc net split: if_splits)
  moreover have "bm_get (nodes_of ?W2 cid) node = bm_get (nodes_of V2 cid) node" for cid node
    by (simp add: acc note_all_get swap)
  ultimately show ?thesis
    by blast
qed

theorem holdings_commute_witness:
  "\<exists>W1 W2. view_record demo (view_new 7) (hold 2 40) sample_state = Inr W1
     \<and> view_record demo W1 (hold 2 30) sample_state = Inr W2"
proof -
  have net: "rv_network (view_new 7) = 7" "rv_network (note_holding (hold 2 30) 9 (view_new 7)) = 7"
    by (simp_all add: view_new_def note_holding_def Let_def)
  show ?thesis
    using holdings_commute [OF hold_accepted [OF net(1), of 2 30] hold_accepted [OF net(2), of 2 40]] by auto
qed

text \<open>
  An announcement dated in the future is never dropped by expiry: whoever announces a time
  that has not come yet is counted as a holder until then, whether or not it holds anything, since
  only the age of an announcement is compared with the time to live.
\<close>

theorem future_holding_kept:
  assumes "view_ok V" and "bm_get (nodes_of V cid) node = Some t" and "0 \<le> sint now" and "sint now \<le> sint t"
    and "0 \<le> sint (rv_ttl_millis V)"
  shows "bm_get (nodes_of (fst (view_expire V now)) cid) node = Some t"
proof -
  have "sint (millis_since now t) = sint now - sint t"
    using assms(3,4) sint_lt [of t] by (intro millis_since_exact) (auto simp: i64_min_def i64_max_def)
  then have "sint (millis_since now t) \<le> sint (rv_ttl_millis V)"
    using assms(4,5) by simp
  then show ?thesis
    using assms(2) by (simp add: view_expire_def retain_nodes_get [OF assms(1)])
qed

theorem future_holding_kept_witness:
  "bm_get (nodes_of (fst (view_expire (note_holding (hold 2 5000000) 9 (view_new 7)) 10)) 9) 2 = Some 5000000"
  by (rule future_holding_kept)
    (simp_all add: note_holding_ok view_ok_def view_new_def note_holding_get hold_def ha_create_def nodes_of_def
      freshest_def default_holding_ttl_millis_def note_holding_def Let_def)

end
