(* ===== verification/Pointer.thy ===== *)
theory Pointer
  imports Fetch Invite
begin

text \<open>
  Publishing, \<open>intranet-storage\<close>: pointer.rs (signed mutable pointers and the wrappings of their
  keys), appendset.rs (collections that anybody may add to), wire.rs (the messages for chunks,
  collections and pointers), and the handlers of node.rs that keep pointers, wrappings, collections
  and chunks and serve them to peers.

  The transport's identifier of a peer is the argument \<open>peer_id\<close>, as in \<open>Invite\<close>.
\<close>

section \<open>Mutable pointers\<close>

record mutable_pointer =
  mp_pointer_id :: b32
  mp_owner :: b32
  mp_content_type :: string
  mp_current_cid :: b32
  mp_dek_commitment :: b32
  mp_version :: u64
  mp_signature :: b64

definition mp_payload :: "b32 \<Rightarrow> b32 \<Rightarrow> string \<Rightarrow> b32 \<Rightarrow> b32 \<Rightarrow> u64 \<Rightarrow> bytes" where
  "mp_payload pointer_id owner content_type current_cid commitment version =
     enc_domain ''intranet.mutable-pointer.v1'' @ put_fixed32 pointer_id @ put_fixed32 owner
       @ put_str content_type @ put_fixed32 current_cid @ put_fixed32 commitment @ put_u64 version"

definition payload_of_mp :: "mutable_pointer \<Rightarrow> bytes" where
  "payload_of_mp p =
     mp_payload (mp_pointer_id p) (mp_owner p) (mp_content_type p) (mp_current_cid p) (mp_dek_commitment p)
       (mp_version p)"

definition mp_sign ::
  "crypto \<Rightarrow> per_network_identity \<Rightarrow> b32 \<Rightarrow> string \<Rightarrow> b32 \<Rightarrow> b32 \<Rightarrow> u64 \<Rightarrow> mutable_pointer" where
  "mp_sign C owner pointer_id content_type current_cid commitment version =
     \<lparr>mp_pointer_id = pointer_id, mp_owner = pni_id C owner, mp_content_type = content_type,
      mp_current_cid = current_cid, mp_dek_commitment = commitment, mp_version = version,
      mp_signature = pni_sign C owner
        (mp_payload pointer_id (pni_id C owner) content_type current_cid commitment version)\<rparr>"

definition check_publish_gates :: "b32 \<Rightarrow> string \<Rightarrow> governance_state \<Rightarrow> storage_error + unit" where
  "check_publish_gates publisher content_type st =
     (if \<not> policy_allows_content_type (gs_policy st) content_type then Inl (ContentTypeNotAllowed content_type)
      else if \<not> identity_holds st publisher (Publish content_type)
      then Inl (PublishNotPermitted (short publisher) content_type)
      else Inr ())"

definition mp_publish ::
  "crypto \<Rightarrow> per_network_identity \<Rightarrow> b32 \<Rightarrow> string \<Rightarrow> b32 \<Rightarrow> b32 \<Rightarrow> governance_state \<Rightarrow> storage_error + mutable_pointer" where
  "mp_publish C owner pointer_id content_type current_cid commitment st =
     res_bind (check_publish_gates (pni_id C owner) content_type st) (\<lambda>_.
       Inr (mp_sign C owner pointer_id content_type current_cid commitment 0))"

definition mp_update ::
  "crypto \<Rightarrow> mutable_pointer \<Rightarrow> per_network_identity \<Rightarrow> b32 \<Rightarrow> governance_state \<Rightarrow> storage_error + mutable_pointer" where
  "mp_update C p owner current_cid st =
     (if pni_id C owner \<noteq> mp_owner p then Inl (NotPointerOwner (short (mp_owner p)) (short (pni_id C owner)))
      else res_bind (check_publish_gates (pni_id C owner) (mp_content_type p) st) (\<lambda>_.
        Inr (mp_sign C owner (mp_pointer_id p) (mp_content_type p) current_cid (mp_dek_commitment p)
               (mp_version p + 1))))"

definition mp_verify :: "crypto \<Rightarrow> mutable_pointer \<Rightarrow> storage_error + unit" where
  "mp_verify C p =
     (case vk_verify C (mp_owner p) (payload_of_mp p) (mp_signature p) of
        Inl _ \<Rightarrow> Inl StorageBadSignature | Inr u \<Rightarrow> Inr u)"

definition record_hash :: "crypto \<Rightarrow> mutable_pointer \<Rightarrow> b32" where
  "record_hash C p = hash_bytes C (payload_of_mp p @ put_fixed64 (mp_signature p))"

text \<open>Whether \<open>resolve\<close> returns its first argument.\<close>

definition prefers_first :: "crypto \<Rightarrow> mutable_pointer \<Rightarrow> mutable_pointer \<Rightarrow> bool" where
  "prefers_first C a b \<longleftrightarrow>
     mp_version a > mp_version b \<or> mp_version a = mp_version b \<and> record_hash C a \<le> record_hash C b"

definition mp_resolve :: "crypto \<Rightarrow> mutable_pointer \<Rightarrow> mutable_pointer \<Rightarrow> mutable_pointer" where
  "mp_resolve C a b = (if prefers_first C a b then a else b)"

definition supersedes :: "crypto \<Rightarrow> mutable_pointer \<Rightarrow> mutable_pointer \<Rightarrow> bool" where
  "supersedes C p current \<longleftrightarrow> prefers_first C p current \<and> p \<noteq> current"

section \<open>Wrappings\<close>

record dek_wrapping =
  dw_pointer_id :: b32
  dw_wrapped_dek :: bytes
  dw_rotation_ref :: b32
  dw_wrapper :: b32
  dw_signature :: b64

definition dw_payload :: "b32 \<Rightarrow> bytes \<Rightarrow> b32 \<Rightarrow> b32 \<Rightarrow> bytes" where
  "dw_payload pointer_id wrapped rotation_ref wrapper =
     enc_domain ''intranet.dek-wrapping.v1'' @ put_fixed32 pointer_id @ put_bytes wrapped
       @ put_fixed32 rotation_ref @ put_fixed32 wrapper"

definition dw_create ::
  "crypto \<Rightarrow> sealing \<Rightarrow> per_network_identity \<Rightarrow> b32 \<Rightarrow> b32 \<Rightarrow> b32 \<Rightarrow> b32 \<Rightarrow> dek_wrapping" where
  "dw_create C S wrapper pointer_id dek epoch_key rotation_ref =
     (let wrapped = epoch_wrap S epoch_key pointer_id dek in
      \<lparr>dw_pointer_id = pointer_id, dw_wrapped_dek = wrapped, dw_rotation_ref = rotation_ref,
       dw_wrapper = pni_id C wrapper,
       dw_signature = pni_sign C wrapper (dw_payload pointer_id wrapped rotation_ref (pni_id C wrapper))\<rparr>)"

definition dw_verify_signature :: "crypto \<Rightarrow> dek_wrapping \<Rightarrow> storage_error + unit" where
  "dw_verify_signature C w =
     (case vk_verify C (dw_wrapper w)
        (dw_payload (dw_pointer_id w) (dw_wrapped_dek w) (dw_rotation_ref w) (dw_wrapper w)) (dw_signature w) of
        Inl _ \<Rightarrow> Inl StorageBadSignature | Inr u \<Rightarrow> Inr u)"

definition dw_unwrap :: "crypto \<Rightarrow> sealing \<Rightarrow> dek_wrapping \<Rightarrow> b32 \<Rightarrow> b32 \<Rightarrow> storage_error + b32" where
  "dw_unwrap C S w epoch_key commitment =
     res_bind (dw_verify_signature C w) (\<lambda>_.
     res_bind (unwrap_dek S epoch_key (dw_pointer_id w) (dw_wrapped_dek w)) (\<lambda>dek.
       if dek_commitment C dek \<noteq> commitment then Inl CommitmentMismatch else Inr dek))"

definition dw_is_stale :: "dek_wrapping \<Rightarrow> b32 \<Rightarrow> bool" where
  "dw_is_stale w canonical_rotation \<longleftrightarrow> dw_rotation_ref w \<noteq> canonical_rotation"

section \<open>Collections\<close>

definition collection_id :: "crypto \<Rightarrow> b32 \<Rightarrow> string \<Rightarrow> b32" where
  "collection_id C network name =
     hash_bytes C (enc_domain ''intranet.append-set-collection.v1'' @ put_fixed32 network @ put_str name)"

definition validate_entry_context :: "b32 \<Rightarrow> b32 option \<Rightarrow> governance_state \<Rightarrow> storage_error + unit" where
  "validate_entry_context publisher references st =
     (if \<not> is_member st publisher then Inl (PublisherNotAMember (short publisher))
      else case references of
             Some pointer \<Rightarrow>
               if is_delisted st pointer then Inl (ReferencesDelistedContent (short pointer)) else Inr ()
           | None \<Rightarrow> Inr ())"

record append_entry_rec =
  ae_collection_id :: b32
  ae_payload :: bytes
  ae_references :: "b32 option"
  ae_publisher :: b32
  ae_signature :: b64

definition ae_payload_bytes :: "b32 \<Rightarrow> bytes \<Rightarrow> b32 option \<Rightarrow> b32 \<Rightarrow> bytes" where
  "ae_payload_bytes cid payload references publisher =
     enc_domain ''intranet.append-set-entry.v1'' @ put_fixed32 cid @ put_bytes payload
       @ put_option put_fixed32 references @ put_fixed32 publisher"

definition payload_of_ae :: "append_entry_rec \<Rightarrow> bytes" where
  "payload_of_ae e = ae_payload_bytes (ae_collection_id e) (ae_payload e) (ae_references e) (ae_publisher e)"

definition ae_create :: "crypto \<Rightarrow> per_network_identity \<Rightarrow> b32 \<Rightarrow> bytes \<Rightarrow> b32 option \<Rightarrow> append_entry_rec" where
  "ae_create C publisher cid payload references =
     \<lparr>ae_collection_id = cid, ae_payload = payload, ae_references = references, ae_publisher = pni_id C publisher,
      ae_signature = pni_sign C publisher (ae_payload_bytes cid payload references (pni_id C publisher))\<rparr>"

definition ae_entry_id :: "crypto \<Rightarrow> append_entry_rec \<Rightarrow> b32" where
  "ae_entry_id C e = hash_bytes C (payload_of_ae e @ put_fixed64 (ae_signature e))"

definition ae_verify_signature :: "crypto \<Rightarrow> append_entry_rec \<Rightarrow> storage_error + unit" where
  "ae_verify_signature C e =
     (case vk_verify C (ae_publisher e) (payload_of_ae e) (ae_signature e) of
        Inl _ \<Rightarrow> Inl StorageBadSignature | Inr u \<Rightarrow> Inr u)"

definition ae_validate :: "crypto \<Rightarrow> append_entry_rec \<Rightarrow> governance_state \<Rightarrow> storage_error + unit" where
  "ae_validate C e st =
     res_bind (ae_verify_signature C e) (\<lambda>_. validate_entry_context (ae_publisher e) (ae_references e) st)"

record append_set_view =
  av_collection_id :: b32
  av_entries :: "(b32, append_entry_rec) btree_map"
  av_truncated :: bool

definition av_new :: "b32 \<Rightarrow> append_set_view" where
  "av_new cid = \<lparr>av_collection_id = cid, av_entries = [], av_truncated = False\<rparr>"

definition av_insert ::
  "crypto \<Rightarrow> append_set_view \<Rightarrow> append_entry_rec \<Rightarrow> governance_state \<Rightarrow> storage_error + append_set_view" where
  "av_insert C A e st =
     (if ae_collection_id e \<noteq> av_collection_id A then Inl WrongCollection
      else res_bind (ae_validate C e st) (\<lambda>_.
        Inr (A\<lparr>av_entries := bm_insert (ae_entry_id C e) e (av_entries A)\<rparr>)))"

definition av_mark_truncated :: "append_set_view \<Rightarrow> append_set_view" where
  "av_mark_truncated A = A\<lparr>av_truncated := True\<rparr>"

definition av_revalidate :: "crypto \<Rightarrow> append_set_view \<Rightarrow> governance_state \<Rightarrow> append_set_view \<times> nat" where
  "av_revalidate C A st =
     (let kept = filter (\<lambda>(_, e). case ae_validate C e st of Inl _ \<Rightarrow> False | Inr _ \<Rightarrow> True) (av_entries A)
      in (A\<lparr>av_entries := kept\<rparr>, length (av_entries A) - length kept))"

end
