(* ===== verification/Storage_Wire.thy ===== *)
theory Storage_Wire
  imports Pointer
begin

text \<open>
  The messages of \<open>intranet-storage\<close>, wire.rs: chunk requests and responses, collection
  enumeration, append-set entries on the wire, and pointer synchronisation. Every decoder checks the
  limits and the signatures that the code checks, in the code's order.

  The last section shows that each message is a codec in the sense of \<open>Codec\<close>: what the writer
  wrote is what the reader returns, and a reader accepts nothing else.
\<close>

section \<open>Errors and limits\<close>

datatype storage_wire_error =
    SwMalformed decode_error
  | SwInvalidKey
  | SwBadSignature
  | SwChunkTooLarge nat
  | SwTooManyEntries nat nat

abbreviation sr :: "(decode_error, 'a) reader \<Rightarrow> (storage_wire_error, 'a) reader" where
  "sr \<equiv> rmap_err SwMalformed"

definition sw_unknown :: "string \<Rightarrow> u8 \<Rightarrow> storage_wire_error" where
  "sw_unknown type_name discriminant = SwMalformed (UnknownVariant type_name discriminant)"

definition sw_get_identity :: "crypto \<Rightarrow> (storage_wire_error, b32) reader" where
  "sw_get_identity C = dec_key C SwMalformed SwInvalidKey"

definition max_chunk_bytes :: nat where
  "max_chunk_bytes = 16 * 1024 * 1024"

definition max_collection_entries :: nat where
  "max_collection_entries = 512"

definition max_entry_payload_bytes :: nat where
  "max_entry_payload_bytes = 64 * 1024"

definition max_pointers_per_response :: nat where
  "max_pointers_per_response = 256"

definition max_wrappings_per_pointer :: nat where
  "max_wrappings_per_pointer = 16"

definition max_wrapped_dek_bytes :: nat where
  "max_wrapped_dek_bytes = 1024"

section \<open>Chunks\<close>

record chunk_request =
  cq_cid :: b32
  cq_requester :: b32
  cq_signature :: b64

definition cq_payload :: "b32 \<Rightarrow> b32 \<Rightarrow> bytes" where
  "cq_payload cid requester =
     enc_domain ''intranet.chunk-request.v1'' @ put_fixed32 cid @ put_fixed32 requester"

definition cq_create :: "crypto \<Rightarrow> per_network_identity \<Rightarrow> b32 \<Rightarrow> chunk_request" where
  "cq_create C requester cid =
     \<lparr>cq_cid = cid, cq_requester = pni_id C requester,
      cq_signature = pni_sign C requester (cq_payload cid (pni_id C requester))\<rparr>"

definition cq_verify :: "crypto \<Rightarrow> chunk_request \<Rightarrow> storage_wire_error + unit" where
  "cq_verify C q =
     (case vk_verify C (cq_requester q) (cq_payload (cq_cid q) (cq_requester q)) (cq_signature q) of
        Inl _ \<Rightarrow> Inl SwBadSignature | Inr u \<Rightarrow> Inr u)"

definition chunk_request_domain :: string where
  "chunk_request_domain = ''intranet.wire.chunk-request.v1''"

definition put_chunk_request :: "chunk_request \<Rightarrow> bytes" where
  "put_chunk_request q = put_fixed32 (cq_cid q) @ put_fixed32 (cq_requester q) @ put_fixed64 (cq_signature q)"

definition encode_chunk_request :: "chunk_request \<Rightarrow> bytes" where
  "encode_chunk_request q = enc_domain chunk_request_domain @ put_chunk_request q"

definition get_chunk_request :: "crypto \<Rightarrow> (storage_wire_error, chunk_request) reader" where
  "get_chunk_request C =
     rbind (sr dec_fixed32) (\<lambda>cid.
     rbind (sw_get_identity C) (\<lambda>requester.
     rbind (sr dec_fixed64) (\<lambda>signature.
       rret \<lparr>cq_cid = cid, cq_requester = requester, cq_signature = signature\<rparr>)))"

definition decode_chunk_request :: "crypto \<Rightarrow> bytes \<Rightarrow> storage_wire_error + chunk_request" where
  "decode_chunk_request C b =
     decode_verified SwMalformed chunk_request_domain (get_chunk_request C) (cq_verify C) b"

datatype chunk_refusal = ChunkNoReadContent | ChunkCannotEvaluate

datatype chunk_response = ChunkBytes bytes | ChunkNotHeld | ChunkRefused chunk_refusal

fun chunk_refusal_tag :: "chunk_refusal \<Rightarrow> u8" where
  "chunk_refusal_tag ChunkNoReadContent = 0"
| "chunk_refusal_tag ChunkCannotEvaluate = 1"

definition get_chunk_refusal :: "(storage_wire_error, chunk_refusal) reader" where
  "get_chunk_refusal = rbind (sr dec_u8) (\<lambda>t.
     if t = 0 then rret ChunkNoReadContent
     else if t = 1 then rret ChunkCannotEvaluate
     else rfail (sw_unknown ''ChunkRefusal'' t))"

definition chunk_response_domain :: string where
  "chunk_response_domain = ''intranet.wire.chunk-response.v1''"

fun put_chunk_response :: "chunk_response \<Rightarrow> bytes" where
  "put_chunk_response (ChunkBytes b) = put_variant 0 @ put_bytes b"
| "put_chunk_response ChunkNotHeld = put_variant 1"
| "put_chunk_response (ChunkRefused reason) = put_variant 2 @ put_u8 (chunk_refusal_tag reason)"

definition encode_chunk_response :: "chunk_response \<Rightarrow> bytes" where
  "encode_chunk_response m = enc_domain chunk_response_domain @ put_chunk_response m"

definition get_chunk_response :: "(storage_wire_error, chunk_response) reader" where
  "get_chunk_response = rbind (sr dec_variant) (\<lambda>v.
     if v = 0 then rbind (sr dec_bytes) (\<lambda>payload.
       if length payload > max_chunk_bytes then rfail (SwChunkTooLarge (length payload))
       else rret (ChunkBytes payload))
     else if v = 1 then rret ChunkNotHeld
     else if v = 2 then rbind get_chunk_refusal (\<lambda>reason. rret (ChunkRefused reason))
     else rfail (sw_unknown ''ChunkResponse'' v))"

definition decode_chunk_response :: "bytes \<Rightarrow> storage_wire_error + chunk_response" where
  "decode_chunk_response b = decode_whole SwMalformed chunk_response_domain get_chunk_response b"

section \<open>Collections\<close>

record collection_request =
  lq_collection_id :: b32
  lq_requester :: b32
  lq_signature :: b64

definition lq_payload :: "b32 \<Rightarrow> b32 \<Rightarrow> bytes" where
  "lq_payload cid requester =
     enc_domain ''intranet.collection-request.v1'' @ put_fixed32 cid @ put_fixed32 requester"

definition lq_create :: "crypto \<Rightarrow> per_network_identity \<Rightarrow> b32 \<Rightarrow> collection_request" where
  "lq_create C requester cid =
     \<lparr>lq_collection_id = cid, lq_requester = pni_id C requester,
      lq_signature = pni_sign C requester (lq_payload cid (pni_id C requester))\<rparr>"

definition lq_verify :: "crypto \<Rightarrow> collection_request \<Rightarrow> storage_wire_error + unit" where
  "lq_verify C q =
     (case vk_verify C (lq_requester q) (lq_payload (lq_collection_id q) (lq_requester q)) (lq_signature q) of
        Inl _ \<Rightarrow> Inl SwBadSignature | Inr u \<Rightarrow> Inr u)"

definition collection_request_domain :: string where
  "collection_request_domain = ''intranet.wire.collection-request.v1''"

definition put_collection_request :: "collection_request \<Rightarrow> bytes" where
  "put_collection_request q =
     put_fixed32 (lq_collection_id q) @ put_fixed32 (lq_requester q) @ put_fixed64 (lq_signature q)"

definition encode_collection_request :: "collection_request \<Rightarrow> bytes" where
  "encode_collection_request q = enc_domain collection_request_domain @ put_collection_request q"

definition get_collection_request :: "crypto \<Rightarrow> (storage_wire_error, collection_request) reader" where
  "get_collection_request C =
     rbind (sr dec_fixed32) (\<lambda>cid.
     rbind (sw_get_identity C) (\<lambda>requester.
     rbind (sr dec_fixed64) (\<lambda>signature.
       rret \<lparr>lq_collection_id = cid, lq_requester = requester, lq_signature = signature\<rparr>)))"

definition decode_collection_request :: "crypto \<Rightarrow> bytes \<Rightarrow> storage_wire_error + collection_request" where
  "decode_collection_request C b =
     decode_verified SwMalformed collection_request_domain (get_collection_request C) (lq_verify C) b"

datatype collection_response = CollectionEntries "bytes list" bool | CollectionRefused chunk_refusal

definition collection_response_domain :: string where
  "collection_response_domain = ''intranet.wire.collection-response.v1''"

fun put_collection_response :: "collection_response \<Rightarrow> bytes" where
  "put_collection_response (CollectionEntries payloads truncated) =
     put_variant 0 @ put_seq put_bytes payloads @ put_bool truncated"
| "put_collection_response (CollectionRefused reason) = put_variant 1 @ put_u8 (chunk_refusal_tag reason)"

definition encode_collection_response :: "collection_response \<Rightarrow> bytes" where
  "encode_collection_response m = enc_domain collection_response_domain @ put_collection_response m"

definition get_collection_response :: "(storage_wire_error, collection_response) reader" where
  "get_collection_response = rbind (sr dec_variant) (\<lambda>v.
     if v = 0 then
       rbind (dec_seq SwMalformed (sr dec_bytes)) (\<lambda>payloads.
       rbind (sr dec_bool) (\<lambda>truncated. rret (CollectionEntries payloads truncated)))
     else if v = 1 then rbind get_chunk_refusal (\<lambda>reason. rret (CollectionRefused reason))
     else rfail (sw_unknown ''CollectionResponse'' v))"

definition decode_collection_response :: "bytes \<Rightarrow> storage_wire_error + collection_response" where
  "decode_collection_response b =
     decode_whole SwMalformed collection_response_domain get_collection_response b"

definition entry_wire_domain :: string where
  "entry_wire_domain = ''intranet.wire.appendset-entry.v1''"

definition put_ae :: "append_entry_rec \<Rightarrow> bytes" where
  "put_ae e =
     put_fixed32 (ae_collection_id e) @ put_bytes (ae_payload e) @ put_option put_fixed32 (ae_references e)
       @ put_fixed32 (ae_publisher e) @ put_fixed64 (ae_signature e)"

definition encode_entry_wire :: "append_entry_rec \<Rightarrow> bytes" where
  "encode_entry_wire e = enc_domain entry_wire_domain @ put_ae e"

definition get_ae :: "crypto \<Rightarrow> (storage_wire_error, append_entry_rec) reader" where
  "get_ae C =
     rbind (sr dec_fixed32) (\<lambda>cid.
     rbind (sr dec_bytes) (\<lambda>payload.
       if length payload > max_entry_payload_bytes then rfail (SwChunkTooLarge (length payload))
       else
         rbind (dec_option SwMalformed (sr dec_fixed32)) (\<lambda>references.
         rbind (sw_get_identity C) (\<lambda>publisher.
         rbind (sr dec_fixed64) (\<lambda>signature.
           rret \<lparr>ae_collection_id = cid, ae_payload = payload, ae_references = references,
                 ae_publisher = publisher, ae_signature = signature\<rparr>)))))"

definition ae_wire_verify :: "crypto \<Rightarrow> append_entry_rec \<Rightarrow> storage_wire_error + unit" where
  "ae_wire_verify C e = (case ae_verify_signature C e of Inl _ \<Rightarrow> Inl SwBadSignature | Inr u \<Rightarrow> Inr u)"

definition decode_entry_wire :: "crypto \<Rightarrow> bytes \<Rightarrow> storage_wire_error + append_entry_rec" where
  "decode_entry_wire C b = decode_verified SwMalformed entry_wire_domain (get_ae C) (ae_wire_verify C) b"

section \<open>Pointers\<close>

record pointer_digest_entry =
  pd_pointer_id :: b32
  pd_version :: u64
  pd_record_hash :: b32

record pointer_record =
  pr_pointer :: mutable_pointer
  pr_wrappings :: "dek_wrapping list"

datatype pointer_request = PointerDigestRequest b32 b64 | PointerFetchRequest "b32 list" b32 b64

definition pq_payload :: "b32 \<Rightarrow> b32 list \<Rightarrow> bytes" where
  "pq_payload requester wanted =
     enc_domain ''intranet.pointer-request.v1'' @ put_fixed32 requester @ put_seq put_fixed32 wanted"

definition pq_digest :: "crypto \<Rightarrow> per_network_identity \<Rightarrow> pointer_request" where
  "pq_digest C requester =
     PointerDigestRequest (pni_id C requester) (pni_sign C requester (pq_payload (pni_id C requester) []))"

definition pq_fetch :: "crypto \<Rightarrow> per_network_identity \<Rightarrow> b32 list \<Rightarrow> pointer_request" where
  "pq_fetch C requester wanted =
     PointerFetchRequest wanted (pni_id C requester)
       (pni_sign C requester (pq_payload (pni_id C requester) wanted))"

fun pq_requester :: "pointer_request \<Rightarrow> b32" where
  "pq_requester (PointerDigestRequest requester _) = requester"
| "pq_requester (PointerFetchRequest _ requester _) = requester"

definition pq_verify :: "crypto \<Rightarrow> pointer_request \<Rightarrow> storage_wire_error + unit" where
  "pq_verify C q =
     (let (requester, wanted, signature) =
            (case q of PointerDigestRequest requester signature \<Rightarrow> (requester, [], signature)
             | PointerFetchRequest wanted requester signature \<Rightarrow> (requester, wanted, signature))
      in case vk_verify C requester (pq_payload requester wanted) signature of
           Inl _ \<Rightarrow> Inl SwBadSignature | Inr u \<Rightarrow> Inr u)"

definition pointer_request_domain :: string where
  "pointer_request_domain = ''intranet.wire.pointer-request.v1''"

fun put_pointer_request :: "pointer_request \<Rightarrow> bytes" where
  "put_pointer_request (PointerDigestRequest requester signature) =
     put_variant 0 @ put_fixed32 requester @ put_fixed64 signature"
| "put_pointer_request (PointerFetchRequest wanted requester signature) =
     put_variant 1 @ put_seq put_fixed32 wanted @ put_fixed32 requester @ put_fixed64 signature"

definition encode_pointer_request :: "pointer_request \<Rightarrow> bytes" where
  "encode_pointer_request q = enc_domain pointer_request_domain @ put_pointer_request q"

definition get_pointer_request :: "crypto \<Rightarrow> (storage_wire_error, pointer_request) reader" where
  "get_pointer_request C = rbind (sr dec_variant) (\<lambda>v.
     if v = 0 then
       rbind (sw_get_identity C) (\<lambda>requester.
       rbind (sr dec_fixed64) (\<lambda>signature. rret (PointerDigestRequest requester signature)))
     else if v = 1 then
       rbind (dec_seq SwMalformed (sr dec_fixed32)) (\<lambda>wanted.
         if length wanted > max_pointers_per_response
         then rfail (SwTooManyEntries (length wanted) max_pointers_per_response)
         else
           rbind (sw_get_identity C) (\<lambda>requester.
           rbind (sr dec_fixed64) (\<lambda>signature. rret (PointerFetchRequest wanted requester signature))))
     else rfail (sw_unknown ''PointerRequest'' v))"

definition decode_pointer_request :: "crypto \<Rightarrow> bytes \<Rightarrow> storage_wire_error + pointer_request" where
  "decode_pointer_request C b =
     decode_verified SwMalformed pointer_request_domain (get_pointer_request C) (pq_verify C) b"

definition put_pointer :: "mutable_pointer \<Rightarrow> bytes" where
  "put_pointer p =
     put_fixed32 (mp_pointer_id p) @ put_fixed32 (mp_owner p) @ put_str (mp_content_type p)
       @ put_fixed32 (mp_current_cid p) @ put_fixed32 (mp_dek_commitment p) @ put_u64 (mp_version p)
       @ put_fixed64 (mp_signature p)"

definition get_pointer :: "crypto \<Rightarrow> (storage_wire_error, mutable_pointer) reader" where
  "get_pointer C =
     rbind (sr dec_fixed32) (\<lambda>pointer_id.
     rbind (sw_get_identity C) (\<lambda>owner.
     rbind (sr dec_str) (\<lambda>content_type.
     rbind (sr dec_fixed32) (\<lambda>current_cid.
     rbind (sr dec_fixed32) (\<lambda>commitment.
     rbind (sr dec_u64) (\<lambda>version.
     rbind (sr dec_fixed64) (\<lambda>signature.
       (let p = \<lparr>mp_pointer_id = pointer_id, mp_owner = owner, mp_content_type = content_type,
                 mp_current_cid = current_cid, mp_dek_commitment = commitment, mp_version = version,
                 mp_signature = signature\<rparr>
        in case mp_verify C p of Inl _ \<Rightarrow> rfail SwBadSignature | Inr _ \<Rightarrow> rret p))))))))"

definition put_wrapping :: "dek_wrapping \<Rightarrow> bytes" where
  "put_wrapping w =
     put_fixed32 (dw_pointer_id w) @ put_bytes (dw_wrapped_dek w) @ put_fixed32 (dw_rotation_ref w)
       @ put_fixed32 (dw_wrapper w) @ put_fixed64 (dw_signature w)"

definition get_wrapping :: "crypto \<Rightarrow> (storage_wire_error, dek_wrapping) reader" where
  "get_wrapping C =
     rbind (sr dec_fixed32) (\<lambda>pointer_id.
     rbind (sr dec_bytes) (\<lambda>wrapped.
       if length wrapped > max_wrapped_dek_bytes
       then rfail (SwTooManyEntries (length wrapped) max_wrapped_dek_bytes)
       else
         rbind (sr dec_fixed32) (\<lambda>rotation_ref.
         rbind (sw_get_identity C) (\<lambda>wrapper.
         rbind (sr dec_fixed64) (\<lambda>signature.
           (let w = \<lparr>dw_pointer_id = pointer_id, dw_wrapped_dek = wrapped, dw_rotation_ref = rotation_ref,
                     dw_wrapper = wrapper, dw_signature = signature\<rparr>
            in case dw_verify_signature C w of Inl _ \<Rightarrow> rfail SwBadSignature | Inr _ \<Rightarrow> rret w))))))"

datatype pointer_refusal = PointerNoReadContent | PointerCannotEvaluate

datatype pointer_response =
    PointerDigest "pointer_digest_entry list" bool
  | PointerRecords "pointer_record list" bool
  | PointerRefused pointer_refusal

fun pointer_refusal_tag :: "pointer_refusal \<Rightarrow> u8" where
  "pointer_refusal_tag PointerNoReadContent = 0"
| "pointer_refusal_tag PointerCannotEvaluate = 1"

definition get_pointer_refusal :: "(storage_wire_error, pointer_refusal) reader" where
  "get_pointer_refusal = rbind (sr dec_u8) (\<lambda>t.
     if t = 0 then rret PointerNoReadContent
     else if t = 1 then rret PointerCannotEvaluate
     else rfail (sw_unknown ''PointerRefusal'' t))"

definition put_pointer_digest :: "pointer_digest_entry \<Rightarrow> bytes" where
  "put_pointer_digest e = put_fixed32 (pd_pointer_id e) @ put_u64 (pd_version e) @ put_fixed32 (pd_record_hash e)"

definition get_pointer_digest :: "(storage_wire_error, pointer_digest_entry) reader" where
  "get_pointer_digest =
     rbind (sr dec_fixed32) (\<lambda>pointer_id.
     rbind (sr dec_u64) (\<lambda>version.
     rbind (sr dec_fixed32) (\<lambda>record_hash.
       rret \<lparr>pd_pointer_id = pointer_id, pd_version = version, pd_record_hash = record_hash\<rparr>)))"

definition put_pointer_record :: "pointer_record \<Rightarrow> bytes" where
  "put_pointer_record r = put_pointer (pr_pointer r) @ put_seq put_wrapping (pr_wrappings r)"

definition get_pointer_record :: "crypto \<Rightarrow> (storage_wire_error, pointer_record) reader" where
  "get_pointer_record C =
     rbind (get_pointer C) (\<lambda>pointer.
     rbind (dec_seq SwMalformed (get_wrapping C)) (\<lambda>wrappings.
       if length wrappings > max_wrappings_per_pointer
       then rfail (SwTooManyEntries (length wrappings) max_wrappings_per_pointer)
       else rret \<lparr>pr_pointer = pointer, pr_wrappings = wrappings\<rparr>))"

definition pointer_response_domain :: string where
  "pointer_response_domain = ''intranet.wire.pointer-response.v1''"

fun put_pointer_response :: "pointer_response \<Rightarrow> bytes" where
  "put_pointer_response (PointerDigest entries truncated) =
     put_variant 0 @ put_seq put_pointer_digest entries @ put_bool truncated"
| "put_pointer_response (PointerRecords records truncated) =
     put_variant 1 @ put_seq put_pointer_record records @ put_bool truncated"
| "put_pointer_response (PointerRefused reason) = put_variant 2 @ put_u8 (pointer_refusal_tag reason)"

definition encode_pointer_response :: "pointer_response \<Rightarrow> bytes" where
  "encode_pointer_response m = enc_domain pointer_response_domain @ put_pointer_response m"

definition get_pointer_response :: "crypto \<Rightarrow> (storage_wire_error, pointer_response) reader" where
  "get_pointer_response C = rbind (sr dec_variant) (\<lambda>v.
     if v = 0 then
       rbind (dec_seq SwMalformed get_pointer_digest) (\<lambda>entries.
         if length entries > max_pointers_per_response
         then rfail (SwTooManyEntries (length entries) max_pointers_per_response)
         else rbind (sr dec_bool) (\<lambda>truncated. rret (PointerDigest entries truncated)))
     else if v = 1 then
       rbind (dec_seq SwMalformed (get_pointer_record C)) (\<lambda>records.
         if length records > max_pointers_per_response
         then rfail (SwTooManyEntries (length records) max_pointers_per_response)
         else rbind (sr dec_bool) (\<lambda>truncated. rret (PointerRecords records truncated)))
     else if v = 2 then rbind get_pointer_refusal (\<lambda>reason. rret (PointerRefused reason))
     else rfail (sw_unknown ''PointerResponse'' v))"

definition decode_pointer_response :: "crypto \<Rightarrow> bytes \<Rightarrow> storage_wire_error + pointer_response" where
  "decode_pointer_response C b =
     decode_whole SwMalformed pointer_response_domain (get_pointer_response C) b"

section \<open>The messages are codecs\<close>

interpretation sident: exact_codec "key_valid C" put_fixed32 "sw_get_identity C" for C
  unfolding sw_get_identity_def by (rule exact_key)

interpretation crefusal: exact_codec "\<lambda>_. True" "\<lambda>e. put_u8 (chunk_refusal_tag e)" get_chunk_refusal
proof
  fix e r
  show "get_chunk_refusal (put_u8 (chunk_refusal_tag e) @ r) = Inr (e, r)"
    by (cases e) (simp_all add: get_chunk_refusal_def reader_simps)
qed (auto simp: get_chunk_refusal_def rbind_eq_Inr nonempty_simps dest!: u8.get_exact split: if_splits)

interpretation prefusal: exact_codec "\<lambda>_. True" "\<lambda>e. put_u8 (pointer_refusal_tag e)" get_pointer_refusal
proof
  fix e r
  show "get_pointer_refusal (put_u8 (pointer_refusal_tag e) @ r) = Inr (e, r)"
    by (cases e) (simp_all add: get_pointer_refusal_def reader_simps)
qed (auto simp: get_pointer_refusal_def rbind_eq_Inr nonempty_simps dest!: u8.get_exact split: if_splits)

interpretation chunkq: exact_codec "\<lambda>q. key_valid C (cq_requester q)" put_chunk_request "get_chunk_request C" for C
proof
  fix q :: chunk_request and r
  assume "key_valid C (cq_requester q)"
  then show "get_chunk_request C (put_chunk_request q @ r) = Inr (q, r)"
    by (simp add: get_chunk_request_def put_chunk_request_def reader_simps sident.get_put)
qed (auto simp: get_chunk_request_def put_chunk_request_def rbind_eq_Inr nonempty_simps
    dest!: exact_dests sident.get_exact)

interpretation collq: exact_codec "\<lambda>q. key_valid C (lq_requester q)" put_collection_request
  "get_collection_request C" for C
proof
  fix q :: collection_request and r
  assume "key_valid C (lq_requester q)"
  then show "get_collection_request C (put_collection_request q @ r) = Inr (q, r)"
    by (simp add: get_collection_request_def put_collection_request_def reader_simps sident.get_put)
qed (auto simp: get_collection_request_def put_collection_request_def rbind_eq_Inr nonempty_simps
    dest!: exact_dests sident.get_exact)

fun chunk_response_ok :: "chunk_response \<Rightarrow> bool" where
  "chunk_response_ok (ChunkBytes b) \<longleftrightarrow> length b \<le> max_chunk_bytes"
| "chunk_response_ok _ \<longleftrightarrow> True"

lemma chunk_len_ok: "length b \<le> max_chunk_bytes \<Longrightarrow> len_ok b"
  by (simp add: len_ok_def max_chunk_bytes_def)

interpretation chunkr: exact_codec chunk_response_ok put_chunk_response get_chunk_response
proof
  fix m r
  assume "chunk_response_ok m"
  then show "get_chunk_response (put_chunk_response m @ r) = Inr (m, r)"
    by (cases m) (simp_all add: get_chunk_response_def reader_simps crefusal.get_put chunk_len_ok)
  show "put_chunk_response m \<noteq> []"
    by (cases m) (simp_all add: nonempty_simps)
qed (auto simp: get_chunk_response_def rbind_eq_Inr dest!: exact_dests crefusal.get_exact split: if_splits)

fun collection_response_ok :: "collection_response \<Rightarrow> bool" where
  "collection_response_ok (CollectionEntries payloads _) \<longleftrightarrow> seq_ok len_ok payloads"
| "collection_response_ok _ \<longleftrightarrow> True"

lemmas storage_blobs = blobs_exact [of SwMalformed]
lemmas storage_ids = exact_seq [OF exact_map_err [OF fixed32.exact_codec_axioms], of SwMalformed SwMalformed]

interpretation collr: exact_codec collection_response_ok put_collection_response get_collection_response
proof
  fix m r
  assume "collection_response_ok m"
  then show "get_collection_response (put_collection_response m @ r) = Inr (m, r)"
    by (cases m) (simp_all add: get_collection_response_def reader_simps crefusal.get_put
        codec.get_put [OF exact_codec.axioms(1) [OF storage_blobs]])
  show "put_collection_response m \<noteq> []"
    by (cases m) (simp_all add: nonempty_simps)
qed (auto simp: get_collection_response_def rbind_eq_Inr
    dest!: exact_dests crefusal.get_exact exact_codec.get_exact [OF storage_blobs] split: if_splits)

definition ae_ok :: "crypto \<Rightarrow> append_entry_rec \<Rightarrow> bool" where
  "ae_ok C e \<longleftrightarrow> length (ae_payload e) \<le> max_entry_payload_bytes \<and> key_valid C (ae_publisher e)"

lemmas storage_ref = exact_option [OF exact_map_err [OF fixed32.exact_codec_axioms], of SwMalformed SwMalformed]

interpretation aew: exact_codec "ae_ok C" put_ae "get_ae C" for C
proof
  fix e :: append_entry_rec and r
  assume ok: "ae_ok C e"
  then have "len_ok (ae_payload e)"
    by (simp add: ae_ok_def len_ok_def max_entry_payload_bytes_def)
  then show "get_ae C (put_ae e @ r) = Inr (e, r)"
    using ok
    by (simp add: get_ae_def put_ae_def ae_ok_def reader_simps sident.get_put opt_ok_def option.case_eq_if
        codec.get_put [OF exact_codec.axioms(1) [OF storage_ref]])
qed (auto simp: get_ae_def put_ae_def ae_ok_def rbind_eq_Inr nonempty_simps
    dest!: exact_dests sident.get_exact exact_codec.get_exact [OF storage_ref] split: if_splits)

fun pointer_request_ok :: "crypto \<Rightarrow> pointer_request \<Rightarrow> bool" where
  "pointer_request_ok C (PointerDigestRequest requester _) \<longleftrightarrow> key_valid C requester"
| "pointer_request_ok C (PointerFetchRequest wanted requester _) \<longleftrightarrow>
     length wanted \<le> max_pointers_per_response \<and> key_valid C requester"

lemma wanted_ok: "length ids \<le> max_pointers_per_response \<Longrightarrow> seq_ok (\<lambda>_. True) (ids :: b32 list)"
  by (simp add: seq_ok_def len_ok_def max_pointers_per_response_def list_all_iff)

interpretation pointerq: exact_codec "pointer_request_ok C" put_pointer_request "get_pointer_request C" for C
proof
  fix q r
  assume "pointer_request_ok C q"
  then show "get_pointer_request C (put_pointer_request q @ r) = Inr (q, r)"
    by (cases q) (simp_all add: get_pointer_request_def reader_simps sident.get_put wanted_ok
        codec.get_put [OF exact_codec.axioms(1) [OF storage_ids]])
  show "put_pointer_request q \<noteq> []"
    by (cases q) (simp_all add: nonempty_simps)
qed (auto simp: get_pointer_request_def rbind_eq_Inr
    dest!: exact_dests sident.get_exact exact_codec.get_exact [OF storage_ids] split: if_splits)

definition pointer_ok :: "crypto \<Rightarrow> mutable_pointer \<Rightarrow> bool" where
  "pointer_ok C p \<longleftrightarrow> key_valid C (mp_owner p) \<and> str_ok (mp_content_type p) \<and> mp_verify C p = Inr ()"

definition wrapping_ok :: "crypto \<Rightarrow> dek_wrapping \<Rightarrow> bool" where
  "wrapping_ok C w \<longleftrightarrow>
     length (dw_wrapped_dek w) \<le> max_wrapped_dek_bytes \<and> key_valid C (dw_wrapper w)
       \<and> dw_verify_signature C w = Inr ()"

lemma verified_read:
  "(case v of Inl _ \<Rightarrow> rfail err | Inr _ \<Rightarrow> rret x) d = Inr (y, r) \<longleftrightarrow> v = Inr () \<and> y = x \<and> r = d"
  for v :: "storage_error + unit"
  by (cases v) auto

interpretation pointer: exact_codec "pointer_ok C" put_pointer "get_pointer C" for C
proof
  fix p :: mutable_pointer and r
  assume "pointer_ok C p"
  then show "get_pointer C (put_pointer p @ r) = Inr (p, r)"
    by (cases p) (simp add: get_pointer_def put_pointer_def pointer_ok_def reader_simps sident.get_put Let_def)
qed (auto simp: get_pointer_def put_pointer_def pointer_ok_def rbind_eq_Inr nonempty_simps Let_def verified_read
    dest!: exact_dests sident.get_exact)

interpretation wrapping: exact_codec "wrapping_ok C" put_wrapping "get_wrapping C" for C
proof
  fix w :: dek_wrapping and r
  assume ok: "wrapping_ok C w"
  then have "len_ok (dw_wrapped_dek w)"
    by (simp add: wrapping_ok_def len_ok_def max_wrapped_dek_bytes_def)
  then show "get_wrapping C (put_wrapping w @ r) = Inr (w, r)"
    using ok by (cases w) (simp add: get_wrapping_def put_wrapping_def wrapping_ok_def reader_simps sident.get_put Let_def)
qed (auto simp: get_wrapping_def put_wrapping_def wrapping_ok_def rbind_eq_Inr nonempty_simps Let_def verified_read
    dest!: exact_dests sident.get_exact split: if_splits)

interpretation pdigest: exact_codec "\<lambda>_. True" put_pointer_digest get_pointer_digest
proof
  fix e :: pointer_digest_entry and r
  show "get_pointer_digest (put_pointer_digest e @ r) = Inr (e, r)"
    by (simp add: get_pointer_digest_def put_pointer_digest_def reader_simps)
qed (auto simp: get_pointer_digest_def put_pointer_digest_def rbind_eq_Inr nonempty_simps dest!: exact_dests)

definition record_ok :: "crypto \<Rightarrow> pointer_record \<Rightarrow> bool" where
  "record_ok C r \<longleftrightarrow>
     pointer_ok C (pr_pointer r) \<and> list_all (wrapping_ok C) (pr_wrappings r)
       \<and> length (pr_wrappings r) \<le> max_wrappings_per_pointer"

lemmas wrappings_exact = exact_seq [OF wrapping.exact_codec_axioms, of _ SwMalformed]

lemma wrappings_seq_ok:
  "length ws \<le> max_wrappings_per_pointer \<Longrightarrow> list_all (wrapping_ok C) ws \<Longrightarrow> seq_ok (wrapping_ok C) ws"
  by (simp add: seq_ok_def len_ok_def max_wrappings_per_pointer_def)

interpretation precord: exact_codec "record_ok C" put_pointer_record "get_pointer_record C" for C
proof
  fix x :: pointer_record and r
  assume ok: "record_ok C x"
  then show "get_pointer_record C (put_pointer_record x @ r) = Inr (x, r)"
    by (simp add: get_pointer_record_def put_pointer_record_def record_ok_def rbind_def pointer.get_put
        codec.get_put [OF exact_codec.axioms(1) [OF wrappings_exact]] wrappings_seq_ok)
  show "put_pointer_record x \<noteq> []"
    by (simp add: put_pointer_record_def put_pointer_def nonempty_simps)
qed (auto simp: get_pointer_record_def put_pointer_record_def record_ok_def rbind_eq_Inr seq_ok_def
    dest!: pointer.get_exact exact_codec.get_exact [OF wrappings_exact] split: if_splits)

fun pointer_response_ok :: "crypto \<Rightarrow> pointer_response \<Rightarrow> bool" where
  "pointer_response_ok C (PointerDigest entries _) \<longleftrightarrow> length entries \<le> max_pointers_per_response"
| "pointer_response_ok C (PointerRecords records _) \<longleftrightarrow>
     length records \<le> max_pointers_per_response \<and> list_all (record_ok C) records"
| "pointer_response_ok C (PointerRefused _) \<longleftrightarrow> True"

lemmas digests_exact = exact_seq [OF pdigest.exact_codec_axioms, of SwMalformed]
lemmas records_exact = exact_seq [OF precord.exact_codec_axioms, of _ SwMalformed]

lemma within_response: "length xs \<le> max_pointers_per_response \<Longrightarrow> len_ok xs"
  by (simp add: len_ok_def max_pointers_per_response_def)

interpretation pointerr: exact_codec "pointer_response_ok C" put_pointer_response "get_pointer_response C" for C
proof
  fix m r
  assume "pointer_response_ok C m"
  then show "get_pointer_response C (put_pointer_response m @ r) = Inr (m, r)"
    by (cases m) (simp_all add: get_pointer_response_def reader_simps prefusal.get_put seq_ok_def within_response list_all_iff
        codec.get_put [OF exact_codec.axioms(1) [OF digests_exact]]
        codec.get_put [OF exact_codec.axioms(1) [OF records_exact]])
  show "put_pointer_response m \<noteq> []"
    by (cases m) (simp_all add: nonempty_simps)
qed (auto simp: get_pointer_response_def rbind_eq_Inr seq_ok_def
    dest!: exact_dests prefusal.get_exact exact_codec.get_exact [OF digests_exact]
      exact_codec.get_exact [OF records_exact] split: if_splits)

lemma storage_domains_ok:
  "str_ok chunk_request_domain" "str_ok chunk_response_domain" "str_ok collection_request_domain"
  "str_ok collection_response_domain" "str_ok entry_wire_domain" "str_ok pointer_request_domain"
  "str_ok pointer_response_domain"
  by (simp_all add: str_ok_def str_bytes_def chunk_request_domain_def chunk_response_domain_def
      collection_request_domain_def collection_response_domain_def entry_wire_domain_def
      pointer_request_domain_def pointer_response_domain_def)

end
