(* ===== verification/Content_Node.thy ===== *)
theory Content_Node
  imports Storage_Wire
begin

text \<open>
  The part of the member node (\<open>intranet-transport\<close>, node.rs) that keeps and serves content: pointers
  and wrappings, collections, chunks, and the running fetch with its outstanding requests and
  provider queries.

  Peers are of the type \<open>'p\<close>. What libp2p decides is the record \<open>swarm\<close>: the identifier of a peer and
  the identity it inlines, and the identifiers that the n-th request and the n-th provider query sent
  by the node receive; the node counts what it sent. Whether the node was built with discovery is
  \<open>cn_discovery\<close>. Calls that announce to the DHT are recorded in \<open>cn_announced\<close>; their outcome is not
  visible to the node.
\<close>

record 'p swarm =
  sw_peer_id :: "b32 \<Rightarrow> 'p"
  sw_from_peer_id :: "'p \<Rightarrow> b32 option"
  sw_request_id :: "nat \<Rightarrow> nat"
  sw_query_id :: "nat \<Rightarrow> nat"

text \<open>The identifiers are fresh, and the identity a peer identifier inlines is the one it was made from.\<close>

definition swarm_ok :: "'p swarm \<Rightarrow> bool" where
  "swarm_ok W \<longleftrightarrow>
     inj (sw_request_id W) \<and> inj (sw_query_id W) \<and> (\<forall>i. sw_from_peer_id W (sw_peer_id W i) = Some i)"

datatype unavailable_reason =
    PastDeclaredSize
  | FailedVerification
  | OtherStorageError storage_error
  | PeerDoesNotHold
  | PeerRefused chunk_refusal
  | RequestFailed

datatype 'p node_event =
    FetchComplete "b32 list" "b32 list" "b32 list"
  | ChunkReceived 'p b32 nat
  | ChunkUnavailable 'p b32 unavailable_reason bool
  | ProvidersFound b32 nat "b32 list"
  | PointerDigestSeen 'p nat nat bool
  | PointersReceived 'p nat nat nat bool
  | PointerSyncRefused 'p pointer_refusal
  | CollectionProviders b32 "'p list"
  | CollectionEnumerated b32 'p "bytes list" bool

record 'p content_node =
  cn_log :: governance_log
  cn_identity :: per_network_identity
  cn_ledger :: capability_ledger
  cn_tiers :: "'p btree_set"
  cn_discovery :: bool
  cn_announced :: "b32 list"
  cn_chunks :: chunk_store
  cn_observations :: observations
  cn_inflight :: "(nat, 'p \<times> b32 \<times> b32) btree_map"
  cn_provider_queries :: "(nat, b32 \<times> 'p btree_set) btree_map"
  cn_fetch :: "fetch_plan option"
  cn_fetch_requests :: "(b32, chunk_request) btree_map"
  cn_overrun_objects :: "b32 btree_set"
  cn_collections :: "(b32, (b32, bytes) btree_map) btree_map"
  cn_collection_queries :: "(nat, b32 \<times> 'p btree_set) btree_map"
  cn_collection_requests :: "(nat, b32) btree_map"
  cn_pointers :: "(b32, mutable_pointer) btree_map"
  cn_wrappings :: "(b32, (b32, dek_wrapping) btree_map) btree_map"
  cn_pointer_digests :: "(nat, 'p) btree_map"
  cn_pointer_fetches :: "(nat, 'p) btree_map"
  cn_pending :: "'p node_event list"
  cn_sent :: nat
  cn_queries :: nat

definition content_state :: "crypto \<Rightarrow> 'p content_node \<Rightarrow> governance_state option" where
  "content_state C N = node_state C (cn_log N)"

section \<open>Pointers and wrappings\<close>

definition wrappings_for :: "'p content_node \<Rightarrow> b32 \<Rightarrow> dek_wrapping list" where
  "wrappings_for N pointer_id =
     (case bm_get (cn_wrappings N) pointer_id of None \<Rightarrow> [] | Some by_rotation \<Rightarrow> bm_values by_rotation)"

definition wrapping_under :: "'p content_node \<Rightarrow> b32 \<Rightarrow> b32 \<Rightarrow> dek_wrapping option" where
  "wrapping_under N pointer_id rotation_ref =
     (case bm_get (cn_wrappings N) pointer_id of None \<Rightarrow> None | Some by_rotation \<Rightarrow> bm_get by_rotation rotation_ref)"

definition pointer_is_publishable :: "crypto \<Rightarrow> 'p content_node \<Rightarrow> mutable_pointer \<Rightarrow> bool" where
  "pointer_is_publishable C N p =
     (case mp_verify C p of
        Inl _ \<Rightarrow> False
      | Inr _ \<Rightarrow>
          (case content_state C N of
             None \<Rightarrow> False
           | Some st \<Rightarrow>
               if mp_pointer_id p \<in> set (gs_delisted st) then False
               else policy_allows_content_type (gs_policy st) (mp_content_type p)
                 \<and> identity_holds st (mp_owner p) (Publish (mp_content_type p))))"

definition accept_pointer :: "crypto \<Rightarrow> 'p content_node \<Rightarrow> mutable_pointer \<Rightarrow> 'p content_node \<times> bool" where
  "accept_pointer C N p =
     (if \<not> pointer_is_publishable C N p then (N, False)
      else if (case bm_get (cn_pointers N) (mp_pointer_id p) of
                 Some current \<Rightarrow> \<not> supersedes C p current | None \<Rightarrow> False)
      then (N, False)
      else (N\<lparr>cn_pointers := bm_insert (mp_pointer_id p) p (cn_pointers N)\<rparr>, True))"

definition accept_wrapping :: "crypto \<Rightarrow> 'p content_node \<Rightarrow> dek_wrapping \<Rightarrow> 'p content_node \<times> bool" where
  "accept_wrapping C N w =
     (case dw_verify_signature C w of
        Inl _ \<Rightarrow> (N, False)
      | Inr _ \<Rightarrow>
          (case content_state C N of
             None \<Rightarrow> (N, False)
           | Some st \<Rightarrow>
               if \<not> is_member st (dw_wrapper w) then (N, False)
               else
                 (let by_rotation =
                        (case bm_get (cn_wrappings N) (dw_pointer_id w) of None \<Rightarrow> [] | Some m \<Rightarrow> m)
                  in (N\<lparr>cn_wrappings := bm_insert (dw_pointer_id w)
                         (bm_insert (dw_rotation_ref w) w by_rotation) (cn_wrappings N)\<rparr>, True))))"

text \<open>A request handed to libp2p: the node counts it and learns its identifier.\<close>

definition sync_pointers_with ::
  "crypto \<Rightarrow> 'p swarm \<Rightarrow> 'p content_node \<Rightarrow> 'p \<Rightarrow> 'p content_node \<times> pointer_request" where
  "sync_pointers_with C W N peer =
     (N\<lparr>cn_pointer_digests := bm_insert (sw_request_id W (cn_sent N)) peer (cn_pointer_digests N),
        cn_sent := cn_sent N + 1\<rparr>,
      pq_digest C (cn_identity N))"

definition request_pointers ::
  "crypto \<Rightarrow> 'p swarm \<Rightarrow> 'p content_node \<Rightarrow> 'p \<Rightarrow> b32 list \<Rightarrow> 'p content_node \<times> pointer_request" where
  "request_pointers C W N peer wanted =
     (N\<lparr>cn_pointer_fetches := bm_insert (sw_request_id W (cn_sent N)) peer (cn_pointer_fetches N),
        cn_sent := cn_sent N + 1\<rparr>,
      pq_fetch C (cn_identity N) wanted)"

definition digest_of :: "crypto \<Rightarrow> mutable_pointer \<Rightarrow> pointer_digest_entry" where
  "digest_of C p =
     \<lparr>pd_pointer_id = mp_pointer_id p, pd_version = mp_version p, pd_record_hash = record_hash C p\<rparr>"

definition serve_pointers :: "crypto \<Rightarrow> 'p content_node \<Rightarrow> pointer_request \<Rightarrow> pointer_response" where
  "serve_pointers C N q =
     (case content_state C N of
        None \<Rightarrow> PointerRefused PointerCannotEvaluate
      | Some st \<Rightarrow>
          (case may_serve (pq_requester q) st of
             Inl _ \<Rightarrow> PointerRefused PointerNoReadContent
           | Inr _ \<Rightarrow>
               (case q of
                  PointerDigestRequest _ _ \<Rightarrow>
                    (let entries = map (digest_of C)
                           (filter (\<lambda>p. mp_pointer_id p \<notin> set (gs_delisted st)) (bm_values (cn_pointers N)))
                     in PointerDigest (take max_pointers_per_response entries)
                          (length entries > max_pointers_per_response))
                | PointerFetchRequest wanted _ _ \<Rightarrow>
                    (let records = List.map_filter
                           (\<lambda>i. map_option (\<lambda>p. \<lparr>pr_pointer = p, pr_wrappings = wrappings_for N i\<rparr>)
                                  (bm_get (cn_pointers N) i))
                           (filter (\<lambda>i. i \<notin> set (gs_delisted st)) wanted)
                     in PointerRecords (take max_pointers_per_response records)
                          (length records > max_pointers_per_response)))))"

definition answer_pointer_request ::
  "crypto \<Rightarrow> 'p swarm \<Rightarrow> 'p content_node \<Rightarrow> 'p \<Rightarrow> pointer_request \<Rightarrow> pointer_response" where
  "answer_pointer_request C W N peer q =
     (if sw_peer_id W (pq_requester q) \<noteq> peer then PointerRefused PointerNoReadContent
      else serve_pointers C N q)"

definition worth_fetching :: "crypto \<Rightarrow> 'p content_node \<Rightarrow> pointer_digest_entry \<Rightarrow> bool" where
  "worth_fetching C N e =
     (case bm_get (cn_pointers N) (pd_pointer_id e) of
        None \<Rightarrow> True
      | Some held \<Rightarrow>
          pd_version e > mp_version held
          \<or> pd_version e = mp_version held \<and> pd_record_hash e \<noteq> record_hash C held)"

definition pointers_worth_fetching :: "crypto \<Rightarrow> 'p content_node \<Rightarrow> pointer_digest_entry list \<Rightarrow> b32 list" where
  "pointers_worth_fetching C N entries = map pd_pointer_id (filter (worth_fetching C N) entries)"

text \<open>The records of a response, in order: the pointer first, then its wrappings.\<close>

fun accept_wrappings :: "crypto \<Rightarrow> dek_wrapping list \<Rightarrow> 'p content_node \<Rightarrow> 'p content_node \<times> nat" where
  "accept_wrappings C [] N = (N, 0)"
| "accept_wrappings C (w # ws) N =
     (let (N1, ok) = accept_wrapping C N w; (N2, n) = accept_wrappings C ws N1
      in (N2, if ok then n + 1 else n))"

fun accept_records ::
  "crypto \<Rightarrow> pointer_record list \<Rightarrow> 'p content_node \<Rightarrow> 'p content_node \<times> nat \<times> nat \<times> nat" where
  "accept_records C [] N = (N, 0, 0, 0)"
| "accept_records C (r # rs) N =
     (let (N1, ok) = accept_pointer C N (pr_pointer r);
          (N2, w) = accept_wrappings C (pr_wrappings r) N1;
          (N3, accepted, rejected, wrappings) = accept_records C rs N2
      in (N3, if ok then accepted + 1 else accepted, if ok then rejected else rejected + 1, wrappings + w))"

text \<open>
  A response is looked at only when it answers a request this node sent. The result is the event
  for the application, and the follow-up request when a digest names something worth fetching.
\<close>

definition receive_pointer_response ::
  "crypto \<Rightarrow> 'p swarm \<Rightarrow> 'p content_node \<Rightarrow> 'p \<Rightarrow> nat \<Rightarrow> pointer_response \<Rightarrow>
     'p content_node \<times> pointer_request option \<times> 'p node_event option" where
  "receive_pointer_response C W N peer rid m =
     (let known = (bm_get (cn_pointer_digests N) rid \<noteq> None \<or> bm_get (cn_pointer_fetches N) rid \<noteq> None);
          N = N\<lparr>cn_pointer_digests := bm_remove rid (cn_pointer_digests N),
                cn_pointer_fetches := bm_remove rid (cn_pointer_fetches N)\<rparr>
      in if \<not> known then (N, None, None)
         else case m of
           PointerDigest entries truncated \<Rightarrow>
             (let wanted = pointers_worth_fetching C N entries;
                  event = PointerDigestSeen peer (length entries) (length wanted) truncated
              in if wanted = [] then (N, None, Some event)
                 else (let (N', q) = request_pointers C W N peer wanted in (N', Some q, Some event)))
         | PointerRecords records truncated \<Rightarrow>
             (let (N', accepted, rejected, wrappings) = accept_records C records N
              in (N', None, Some (PointersReceived peer accepted rejected wrappings truncated)))
         | PointerRefused reason \<Rightarrow> (N, None, Some (PointerSyncRefused peer reason)))"

section \<open>Collections\<close>

definition announce :: "b32 \<Rightarrow> 'p content_node \<Rightarrow> 'p content_node" where
  "announce key N = (if cn_discovery N then N\<lparr>cn_announced := cn_announced N @ [key]\<rparr> else N)"

definition publish_to_collection :: "'p content_node \<Rightarrow> b32 \<Rightarrow> b32 \<Rightarrow> bytes \<Rightarrow> 'p content_node" where
  "publish_to_collection N cid entry_id payload =
     (let entries = (case bm_get (cn_collections N) cid of None \<Rightarrow> [] | Some m \<Rightarrow> m)
      in announce cid (N\<lparr>cn_collections := bm_insert cid (bm_insert entry_id payload entries) (cn_collections N)\<rparr>))"

definition collection_entries :: "'p content_node \<Rightarrow> b32 \<Rightarrow> bytes list" where
  "collection_entries N cid =
     (case bm_get (cn_collections N) cid of None \<Rightarrow> [] | Some entries \<Rightarrow> bm_values entries)"

definition enumerate_collection :: "'p swarm \<Rightarrow> 'p content_node \<Rightarrow> b32 \<Rightarrow> 'p content_node \<times> nat option" where
  "enumerate_collection W N cid =
     (if \<not> cn_discovery N then (N, None)
      else
        (let qid = sw_query_id W (cn_queries N) in
         (N\<lparr>cn_collection_queries := bm_insert qid (cid, []) (cn_collection_queries N),
            cn_queries := cn_queries N + 1\<rparr>, Some qid)))"

definition request_collection ::
  "crypto \<Rightarrow> 'p swarm \<Rightarrow> 'p content_node \<Rightarrow> b32 \<Rightarrow> per_network_identity \<Rightarrow> 'p content_node \<times> collection_request" where
  "request_collection C W N cid requester =
     (N\<lparr>cn_collection_requests := bm_insert (sw_request_id W (cn_sent N)) cid (cn_collection_requests N),
        cn_sent := cn_sent N + 1\<rparr>,
      lq_create C requester cid)"

definition serve_collection :: "crypto \<Rightarrow> 'p content_node \<Rightarrow> collection_request \<Rightarrow> collection_response" where
  "serve_collection C N q =
     (case content_state C N of
        None \<Rightarrow> CollectionRefused ChunkCannotEvaluate
      | Some st \<Rightarrow>
          (case may_serve (lq_requester q) st of
             Inl _ \<Rightarrow> CollectionRefused ChunkNoReadContent
           | Inr _ \<Rightarrow>
               (let held = collection_entries N (lq_collection_id q)
                in CollectionEntries (take max_collection_entries held) (length held > max_collection_entries))))"

definition answer_collection_request ::
  "crypto \<Rightarrow> 'p swarm \<Rightarrow> 'p content_node \<Rightarrow> 'p \<Rightarrow> collection_request \<Rightarrow> collection_response" where
  "answer_collection_request C W N peer q =
     (if sw_peer_id W (lq_requester q) \<noteq> peer then CollectionRefused ChunkNoReadContent
      else serve_collection C N q)"

definition receive_collection_response ::
  "'p content_node \<Rightarrow> 'p \<Rightarrow> nat \<Rightarrow> collection_response \<Rightarrow> 'p content_node \<times> 'p node_event option" where
  "receive_collection_response N peer rid m =
     (case bm_get (cn_collection_requests N) rid of
        None \<Rightarrow> (N, None)
      | Some cid \<Rightarrow>
          (N\<lparr>cn_collection_requests := bm_remove rid (cn_collection_requests N)\<rparr>,
           Some (case m of
                   CollectionEntries payloads truncated \<Rightarrow> CollectionEnumerated cid peer payloads truncated
                 | CollectionRefused _ \<Rightarrow> CollectionEnumerated cid peer [] False)))"

section \<open>Chunks\<close>

definition serve_chunk :: "crypto \<Rightarrow> 'p content_node \<Rightarrow> chunk_request \<Rightarrow> chunk_response" where
  "serve_chunk C N q =
     (case content_state C N of
        None \<Rightarrow> ChunkRefused ChunkCannotEvaluate
      | Some st \<Rightarrow>
          (case may_serve (cq_requester q) st of
             Inl _ \<Rightarrow> ChunkRefused ChunkNoReadContent
           | Inr _ \<Rightarrow>
               (case bm_get (cn_chunks N) (cq_cid q) of Some b \<Rightarrow> ChunkBytes b | None \<Rightarrow> ChunkNotHeld)))"

definition answer_chunk_request ::
  "crypto \<Rightarrow> 'p swarm \<Rightarrow> 'p content_node \<Rightarrow> 'p \<Rightarrow> chunk_request \<Rightarrow> chunk_response" where
  "answer_chunk_request C W N peer q =
     (if sw_peer_id W (cq_requester q) \<noteq> peer then ChunkRefused ChunkNoReadContent else serve_chunk C N q)"

definition store_chunk :: "crypto \<Rightarrow> 'p content_node \<Rightarrow> bytes \<Rightarrow> 'p content_node \<times> b32" where
  "store_chunk C N b =
     (let (cid, chunks) = store_put C (cn_chunks N) b in (announce cid (N\<lparr>cn_chunks := chunks\<rparr>), cid))"

definition forget_chunk :: "'p content_node \<Rightarrow> b32 \<Rightarrow> 'p content_node \<times> bytes option" where
  "forget_chunk N cid =
     (let (old, chunks) = store_remove (cn_chunks N) cid in (N\<lparr>cn_chunks := chunks\<rparr>, old))"

definition send_chunk_request :: "'p swarm \<Rightarrow> 'p content_node \<Rightarrow> b32 \<Rightarrow> chunk_request \<Rightarrow> 'p content_node" where
  "send_chunk_request W N source q =
     N\<lparr>cn_inflight := bm_insert (sw_request_id W (cn_sent N)) (sw_peer_id W source, source, cq_cid q) (cn_inflight N),
       cn_sent := cn_sent N + 1\<rparr>"

definition request_chunk ::
  "crypto \<Rightarrow> 'p swarm \<Rightarrow> 'p content_node \<Rightarrow> b32 \<Rightarrow> b32 \<Rightarrow> per_network_identity \<Rightarrow> 'p content_node" where
  "request_chunk C W N source cid requester = send_chunk_request W N source (cq_create C requester cid)"

definition find_providers :: "'p swarm \<Rightarrow> b32 \<Rightarrow> 'p content_node \<Rightarrow> 'p content_node" where
  "find_providers W cid N =
     (if \<not> cn_discovery N then N
      else N\<lparr>cn_provider_queries := bm_insert (sw_query_id W (cn_queries N)) (cid, []) (cn_provider_queries N),
             cn_queries := cn_queries N + 1\<rparr>)"

section \<open>The running fetch\<close>

definition send_for_fetch :: "'p swarm \<Rightarrow> b32 \<times> b32 \<Rightarrow> 'p content_node \<Rightarrow> 'p content_node" where
  "send_for_fetch W cs N =
     (case bm_get (cn_fetch_requests N) (fst cs) of
        None \<Rightarrow> N | Some q \<Rightarrow> send_chunk_request W N (snd cs) q)"

definition drive_fetch :: "'p swarm \<Rightarrow> 'p content_node \<Rightarrow> 'p content_node" where
  "drive_fetch W N =
     (case cn_fetch N of
        None \<Rightarrow> N
      | Some plan \<Rightarrow>
          (let (plan', requests) = next_requests plan
           in fold (send_for_fetch W) requests (N\<lparr>cn_fetch := Some plan'\<rparr>)))"

definition completed_fetch :: "'p content_node \<Rightarrow> 'p content_node \<times> 'p node_event option" where
  "completed_fetch N =
     (case cn_fetch N of
        None \<Rightarrow> (N, None)
      | Some plan \<Rightarrow>
          if \<not> is_complete plan then (N, None)
          else (N\<lparr>cn_fetch := None, cn_fetch_requests := []\<rparr>,
                Some (FetchComplete (received plan) (unavailable plan) (over_budget plan))))"

definition push_completed :: "'p content_node \<Rightarrow> 'p content_node" where
  "push_completed N =
     (case completed_fetch N of (N', None) \<Rightarrow> N' | (N', Some ev) \<Rightarrow> N'\<lparr>cn_pending := cn_pending N' @ [ev]\<rparr>)"

definition note_fetch_outcome :: "'p swarm \<Rightarrow> b32 \<Rightarrow> bool \<Rightarrow> 'p content_node \<Rightarrow> 'p content_node" where
  "note_fetch_outcome W cid got N =
     (case cn_fetch N of
        None \<Rightarrow> N
      | Some plan \<Rightarrow>
          push_completed (drive_fetch W
            (N\<lparr>cn_fetch := Some (if got then record_received cid plan else plan_failed cid plan)\<rparr>)))"

definition admit_to_fetch :: "'p swarm \<Rightarrow> b32 \<Rightarrow> nat \<Rightarrow> 'p content_node \<Rightarrow> 'p content_node \<times> bool" where
  "admit_to_fetch W cid len N =
     (case cn_fetch N of
        None \<Rightarrow> (N, True)
      | Some plan \<Rightarrow>
          (let (plan', kept) = plan_admit cid (of_nat len) plan;
               N1 = N\<lparr>cn_fetch := Some plan',
                      cn_overrun_objects := fold bs_insert (overrun_objects plan') (cn_overrun_objects N)\<rparr>
           in (if kept then N1 else drive_fetch W N1, kept)))"

definition request_if_new :: "crypto \<Rightarrow> per_network_identity \<Rightarrow> b32 \<Rightarrow> 'p content_node \<Rightarrow> 'p content_node" where
  "request_if_new C requester cid N =
     (case bm_get (cn_fetch_requests N) cid of
        Some _ \<Rightarrow> N
      | None \<Rightarrow> N\<lparr>cn_fetch_requests := bm_insert cid (cq_create C requester cid) (cn_fetch_requests N)\<rparr>)"

definition start_fetch ::
  "crypto \<Rightarrow> 'p swarm \<Rightarrow> b32 list \<Rightarrow> (b32 \<times> u64) option \<Rightarrow> per_network_identity \<Rightarrow> nat \<Rightarrow>
     'p content_node \<Rightarrow> 'p content_node" where
  "start_fetch C W wanted bud requester concurrency N =
     (let N1 = fold (request_if_new C requester) wanted N;
          plan = (case cn_fetch N1 of None \<Rightarrow> plan_new [] concurrency | Some p \<Rightarrow> p);
          plan' = (case bud of
                     Some (obj, bytes) \<Rightarrow> extend_within obj wanted bytes plan
                   | None \<Rightarrow> plan_extend wanted plan);
          N2 = N1\<lparr>cn_fetch := Some plan'\<rparr>
      in drive_fetch W (fold (find_providers W) (providers_needed plan') N2))"

definition fetch_chunks ::
  "crypto \<Rightarrow> 'p swarm \<Rightarrow> b32 list \<Rightarrow> per_network_identity \<Rightarrow> nat \<Rightarrow> 'p content_node \<Rightarrow> 'p content_node" where
  "fetch_chunks C W cids requester concurrency N =
     start_fetch C W (filter (\<lambda>cid. \<not> bm_contains (cn_chunks N) cid) cids) None requester concurrency N"

definition fetch_object ::
  "crypto \<Rightarrow> 'p swarm \<Rightarrow> b32 \<Rightarrow> manifest \<Rightarrow> per_network_identity \<Rightarrow> nat \<Rightarrow>
     'p content_node \<Rightarrow> 'p content_node \<times> bool" where
  "fetch_object C W obj m requester concurrency N =
     (if obj \<in> set (cn_overrun_objects N) then (N, False)
      else
        (let distinct_cids = bs_collect (mf_chunks m);
             held = sum_list (map (\<lambda>b. of_nat (length b) :: u64)
                      (List.map_filter (bm_get (cn_chunks N)) distinct_cids))
         in if ciphertext_bound m < held
            then (N\<lparr>cn_overrun_objects := bs_insert obj (cn_overrun_objects N)\<rparr>, False)
            else
              (let wanted = filter (\<lambda>cid. \<not> bm_contains (cn_chunks N) cid) distinct_cids
               in (if wanted = [] then N
                   else start_fetch C W wanted (Some (obj, ciphertext_bound m - held)) requester concurrency N,
                   True))))"

text \<open>
  The answer to a chunk request. Only bytes that hash to the identifier that was asked for enter the
  store, and only a mismatch counts against the peer.
\<close>

definition receive_chunk_response ::
  "crypto \<Rightarrow> 'p swarm \<Rightarrow> 'p content_node \<Rightarrow> nat \<Rightarrow> chunk_response \<Rightarrow> 'p content_node \<times> 'p node_event option" where
  "receive_chunk_response C W N0 rid m =
     (case bm_get (cn_inflight N0) rid of
        None \<Rightarrow> (N0, None)
      | Some (peer, source, cid) \<Rightarrow>
          (let N = N0\<lparr>cn_inflight := bm_remove rid (cn_inflight N0)\<rparr> in
           case m of
             ChunkBytes b \<Rightarrow>
               (let held_before = bm_contains (cn_chunks N) cid in
                case store_insert C (cn_chunks N) cid b of
                  Inr chunks \<Rightarrow>
                    (let (N1, kept) = admit_to_fetch W cid (length b) (N\<lparr>cn_chunks := chunks\<rparr>) in
                     if \<not> kept then
                       (let N2 = (if held_before then N1
                                  else N1\<lparr>cn_chunks := snd (store_remove (cn_chunks N1) cid)\<rparr>)
                        in (push_completed N2, Some (ChunkUnavailable peer cid PastDeclaredSize False)))
                     else
                       (note_fetch_outcome W cid True
                          (announce cid (N1\<lparr>cn_observations := record_verified (cn_observations N1) source\<rparr>)),
                        Some (ChunkReceived peer cid (length b))))
                | Inl (ChunkVerificationFailed _) \<Rightarrow>
                    (note_fetch_outcome W cid False
                       (N\<lparr>cn_observations := record_failed (cn_observations N) source\<rparr>),
                     Some (ChunkUnavailable peer cid FailedVerification True))
                | Inl err \<Rightarrow>
                    (note_fetch_outcome W cid False N,
                     Some (ChunkUnavailable peer cid (OtherStorageError err) False)))
           | ChunkNotHeld \<Rightarrow>
               (note_fetch_outcome W cid False N, Some (ChunkUnavailable peer cid PeerDoesNotHold False))
           | ChunkRefused reason \<Rightarrow>
               (note_fetch_outcome W cid False N,
                Some (ChunkUnavailable peer cid (PeerRefused reason) False))))"

definition chunk_request_failed ::
  "'p swarm \<Rightarrow> 'p content_node \<Rightarrow> 'p \<Rightarrow> nat \<Rightarrow> 'p content_node \<times> 'p node_event option" where
  "chunk_request_failed W N peer rid =
     (case bm_get (cn_inflight N) rid of
        None \<Rightarrow> (N, None)
      | Some (_, _, cid) \<Rightarrow>
          (note_fetch_outcome W cid False (N\<lparr>cn_inflight := bm_remove rid (cn_inflight N)\<rparr>),
           Some (ChunkUnavailable peer cid RequestFailed False)))"

text \<open>
  Progress of a DHT query: the providers of this step, if any, and whether it is the last one. A
  query is for a collection or for a chunk.
\<close>

definition note_found ::
  "nat \<Rightarrow> 'p::linorder list \<Rightarrow> (nat, b32 \<times> 'p btree_set) btree_map \<Rightarrow> (nat, b32 \<times> 'p btree_set) btree_map" where
  "note_found qid peers queries =
     (case bm_get queries qid of
        None \<Rightarrow> queries
      | Some (key, found) \<Rightarrow> bm_insert qid (key, fold bs_insert peers found) queries)"

definition query_progressed ::
  "'p::linorder swarm \<Rightarrow> (u64 \<Rightarrow> u64 \<Rightarrow> bool) \<Rightarrow> 'p content_node \<Rightarrow> nat \<Rightarrow> 'p list \<Rightarrow> bool \<Rightarrow>
     'p content_node \<times> 'p node_event option" where
  "query_progressed W at_least N0 qid peers is_last =
     (let N = N0\<lparr>cn_collection_queries := note_found qid peers (cn_collection_queries N0)\<rparr> in
      case (if is_last then bm_get (cn_collection_queries N) qid else None) of
        Some (cid, found) \<Rightarrow>
          (N\<lparr>cn_collection_queries := bm_remove qid (cn_collection_queries N)\<rparr>,
           Some (CollectionProviders cid found))
      | None \<Rightarrow>
          (let N = N\<lparr>cn_provider_queries := note_found qid peers (cn_provider_queries N)\<rparr> in
           case (if is_last then bm_get (cn_provider_queries N) qid else None) of
             None \<Rightarrow> (N, None)
           | Some (cid, found) \<Rightarrow>
               (let N = N\<lparr>cn_provider_queries := bm_remove qid (cn_provider_queries N)\<rparr>;
                    providers = List.map_filter (sw_from_peer_id W) found;
                    reachable = List.map_filter (sw_from_peer_id W) (cn_tiers N);
                    N' = (case cn_fetch N of
                            None \<Rightarrow> N
                          | Some plan \<Rightarrow>
                              push_completed (drive_fetch W
                                (N\<lparr>cn_fetch := Some (record_providers cid providers reachable (cn_ledger N)
                                     (cn_observations N) at_least plan)\<rparr>)))
                in (N', Some (ProvidersFound cid (length providers) providers)))))"

end
