(* ===== verification/Merge.thy ===== *)
theory Merge
  imports Prelude
begin

text \<open>
  The contract of a store that keeps one record per key and replaces it only by a record that beats
  it. The order is a strict linear order on the records of one key that are in play; a record that
  does not fit is ignored. Whatever order such records arrive in, the best one stays.
\<close>

locale best_record =
  fixes key :: "'r \<Rightarrow> 'k::linorder"
    and play :: "'r set"
    and fits :: "'r \<Rightarrow> bool"
    and beats :: "'r \<Rightarrow> 'r \<Rightarrow> bool"
    and keep :: "'r \<Rightarrow> ('k, 'r) btree_map \<Rightarrow> ('k, 'r) btree_map"
  assumes beats_irrefl: "\<not> beats a a"
    and beats_trans: "a \<in> play \<Longrightarrow> b \<in> play \<Longrightarrow> c \<in> play \<Longrightarrow> beats a b \<Longrightarrow> beats b c \<Longrightarrow> beats a c"
    and beats_total: "a \<in> play \<Longrightarrow> b \<in> play \<Longrightarrow> key a = key b \<Longrightarrow> a \<noteq> b \<Longrightarrow> beats a b \<or> beats b a"
    and keep_fits: "fits a \<Longrightarrow>
      keep a m = (if \<forall>c. bm_get m (key a) = Some c \<longrightarrow> beats a c then bm_insert (key a) a m else m)"
    and keep_unfit: "\<not> fits a \<Longrightarrow> keep a m = m"
begin

lemma keep_ok: "bm_ok m \<Longrightarrow> bm_ok (keep a m)"
  by (cases "fits a") (auto simp: keep_fits keep_unfit)

lemma keep_fold_ok: "bm_ok m \<Longrightarrow> bm_ok (fold keep rs m)"
  by (induction rs arbitrary: m) (auto simp: keep_ok)

lemma keep_play:
  assumes "\<forall>k c. bm_get m k = Some c \<longrightarrow> key c = k \<and> c \<in> play" and "a \<in> play"
  shows "\<forall>k c. bm_get (keep a m) k = Some c \<longrightarrow> key c = k \<and> c \<in> play"
  using assms by (cases "fits a") (auto simp: keep_fits keep_unfit)

lemma keep_play_fold:
  assumes "\<forall>k c. bm_get m k = Some c \<longrightarrow> key c = k \<and> c \<in> play" and "set rs \<subseteq> play"
  shows "\<forall>k c. bm_get (fold keep rs m) k = Some c \<longrightarrow> key c = k \<and> c \<in> play"
  using assms
proof (induction rs arbitrary: m)
  case (Cons a rs)
  have "a \<in> play" "set rs \<subseteq> play"
    using Cons.prems(2) by auto
  then show ?case
    using Cons.IH [OF keep_play [OF Cons.prems(1)]] by simp
qed simp

text \<open>The record kept for a key is the one that beats every other record that was offered for it.\<close>

lemma best_stays:
  assumes "\<forall>k c. bm_get m k = Some c \<longrightarrow> key c = k \<and> c \<in> play" and "set rs \<subseteq> play"
    and "S = {c. bm_get m k = Some c} \<union> {c \<in> set rs. fits c \<and> key c = k}"
  shows "bm_get (fold keep rs m) k = Some r \<longleftrightarrow> r \<in> S \<and> (\<forall>c\<in>S. c = r \<or> beats r c)"
  using assms
proof (induction rs arbitrary: m S)
  case (Cons a rs)
  define T where "T = {c. bm_get (keep a m) k = Some c} \<union> {c \<in> set rs. fits c \<and> key c = k}"
  have play: "a \<in> play" "set rs \<subseteq> play"
    using Cons.prems(2) by auto
  note IH = Cons.IH [OF keep_play [OF Cons.prems(1) play(1)] play(2) T_def]
  show ?case
  proof (cases "fits a \<and> key a = k")
    case False
    then have "bm_get (keep a m) k = bm_get m k"
      by (cases "fits a") (auto simp: keep_fits keep_unfit)
    then have "T = S"
      using False Cons.prems(3) by (auto simp: T_def)
    then show ?thesis
      using IH by simp
  next
    case True
    show ?thesis
    proof (cases "bm_get m k")
      case None
      then have "T = S"
        using True Cons.prems(3) by (auto simp: T_def keep_fits)
      then show ?thesis
        using IH by simp
    next
      case (Some c)
      then have c: "key c = k" "c \<in> play"
        using Cons.prems(1) by auto
      have T: "T = {if beats a c then a else c} \<union> {c \<in> set rs. fits c \<and> key c = k}"
        using True Some by (auto simp: T_def keep_fits)
      have S: "S = insert c (insert a {c \<in> set rs. fits c \<and> key c = k})"
        using True Some Cons.prems(3) by auto
      have in_play: "x \<in> play" if "x \<in> S" for x
        using that S c(2) play by auto
      have S_mem: "a \<in> S" "c \<in> S"
        using S by auto
      have "r \<in> T \<and> (\<forall>x\<in>T. x = r \<or> beats r x) \<longleftrightarrow> r \<in> S \<and> (\<forall>x\<in>S. x = r \<or> beats r x)"
      proof (cases "beats a c")
        case True
        then show ?thesis
          unfolding T S using beats_trans [of r a c] beats_trans [of c a c] beats_irrefl in_play S_mem
          by (auto simp: S)
      next
        case False
        then have "a = c \<or> beats c a"
          using beats_total [of a c] c play(1) True \<open>fits a \<and> key a = k\<close> by auto
        then show ?thesis
          unfolding T S using False beats_trans [of r c a] beats_trans [of a c a] beats_irrefl in_play S_mem
          by (auto simp: S)
      qed
      then show ?thesis
        using IH by simp
    qed
  qed
qed (auto simp: beats_irrefl)

lemma something_stays:
  "bm_get m k \<noteq> None \<or> (\<exists>c\<in>set rs. fits c \<and> key c = k) \<Longrightarrow> bm_get (fold keep rs m) k \<noteq> None"
proof (induction rs arbitrary: m)
  case (Cons a rs)
  have "bm_get (keep a m) k \<noteq> None \<or> (\<exists>c\<in>set rs. fits c \<and> key c = k)"
    using Cons.prems by (cases "fits a") (auto simp: keep_fits keep_unfit)
  then show ?case
    using Cons.IH by simp
qed simp

lemma no_worse:
  assumes "\<forall>k c. bm_get m k = Some c \<longrightarrow> key c = k \<and> c \<in> play" and "set rs \<subseteq> play"
    and "bm_get m k = Some c \<or> c \<in> set rs \<and> fits c \<and> key c = k"
  shows "\<exists>r. bm_get (fold keep rs m) k = Some r \<and> (r = c \<or> beats r c)"
proof -
  obtain r where r: "bm_get (fold keep rs m) k = Some r"
    using something_stays [of m k rs] assms(3) by auto
  then show ?thesis
    using best_stays [OF assms(1,2) refl, of k r] assms(3) by auto
qed

lemma order_irrelevant:
  assumes "bm_ok m" and "\<forall>k c. bm_get m k = Some c \<longrightarrow> key c = k \<and> c \<in> play" and "set rs \<subseteq> play"
    and "set qs = set rs"
  shows "fold keep rs m = fold keep qs m"
proof (rule bm_ext)
  show "bm_get (fold keep rs m) = bm_get (fold keep qs m)"
  proof
    fix k
    have "bm_get (fold keep rs m) k = Some r \<longleftrightarrow> bm_get (fold keep qs m) k = Some r" for r
      using best_stays [OF assms(2,3) refl] best_stays [OF assms(2) _ refl, of qs] assms(3,4) by simp
    then show "bm_get (fold keep rs m) k = bm_get (fold keep qs m) k"
      by (metis option.exhaust)
  qed
qed (simp_all add: keep_fold_ok assms(1))

end

end
