(* ===== verification/Epoch.thy ===== *)
theory Epoch
  imports Content_Node
begin

text \<open>
  Epoch keys, \<open>intranet-epoch\<close>: keyring.rs (the keys a member retains and their reconciliation with
  the governance log), wire.rs (key delivery: the request, the response and the sealing of superseded
  keys), and the parts of node.rs that decide which history a welcome carries and what a welcomed member
  records. The key agreement of two identities is a parameter of the sealing.
\<close>

section \<open>The keyring\<close>

datatype epoch_error = Mls string | NoKeysDelivered

datatype rotation_status = Tentative | FinalRotation

record epoch_record =
  er_rotation_ref :: b32
  er_epoch :: u64
  er_key :: b32
  er_status :: rotation_status

record keyring_reconciliation =
  kc_finalized :: "b32 list"
  kc_voided :: "b32 list"
  kc_pruned :: "b32 list"
  kc_needs_rewelcome :: bool

record epoch_keyring =
  kr_records :: "(b32, epoch_record) btree_map"
  kr_order :: "b32 list"
  kr_canonical :: "b32 option"

definition keyring_new :: epoch_keyring where
  "keyring_new = \<lparr>kr_records = [], kr_order = [], kr_canonical = None\<rparr>"

definition keyring_record :: "b32 \<Rightarrow> u64 \<Rightarrow> b32 \<Rightarrow> epoch_keyring \<Rightarrow> epoch_keyring" where
  "keyring_record rotation epoch key K =
     K\<lparr>kr_records := bm_insert rotation
          \<lparr>er_rotation_ref = rotation, er_epoch = epoch, er_key = key, er_status = Tentative\<rparr> (kr_records K),
       kr_order := (if rotation \<in> set (kr_order K) then kr_order K else kr_order K @ [rotation]),
       kr_canonical := Some rotation\<rparr>"

definition keyring_current :: "epoch_keyring \<Rightarrow> (b32 \<times> b32) option" where
  "keyring_current K =
     Option.bind (kr_canonical K) (\<lambda>c.
       map_option (\<lambda>r. (er_rotation_ref r, er_key r)) (bm_get (kr_records K) c))"

definition keyring_key :: "epoch_keyring \<Rightarrow> b32 \<Rightarrow> b32 option" where
  "keyring_key K rotation = map_option er_key (bm_get (kr_records K) rotation)"

definition keyring_holds :: "epoch_keyring \<Rightarrow> b32 \<Rightarrow> bool" where
  "keyring_holds K rotation = bm_contains (kr_records K) rotation"

definition keyring_status :: "epoch_keyring \<Rightarrow> b32 \<Rightarrow> rotation_status option" where
  "keyring_status K rotation = map_option er_status (bm_get (kr_records K) rotation)"

definition keyring_records :: "epoch_keyring \<Rightarrow> epoch_record list" where
  "keyring_records K = List.map_filter (bm_get (kr_records K)) (kr_order K)"

text \<open>The entries of the canonical chain that produced an epoch, oldest first; the genesis entry is one.\<close>

definition produces_epoch :: "entry_body \<Rightarrow> bool" where
  "produces_epoch b = (case b of EpochRotation _ _ \<Rightarrow> True | Genesis _ _ _ \<Rightarrow> True | _ \<Rightarrow> False)"

definition canonical_rotations :: "governance_log \<Rightarrow> b32 list option" where
  "canonical_rotations L =
     map_option (filter (\<lambda>h. case log_get L h of None \<Rightarrow> False | Some e \<Rightarrow> produces_epoch (le_body e)))
       (canonical_chain L)"

type_synonym reconciling = "epoch_keyring \<times> keyring_reconciliation"

definition void_rotation :: "b32 \<Rightarrow> reconciling \<Rightarrow> reconciling" where
  "void_rotation h = (\<lambda>(K, out).
     (K\<lparr>kr_records := bm_remove h (kr_records K), kr_order := filter (\<lambda>r. r \<noteq> h) (kr_order K),
        kr_canonical := (if kr_canonical K = Some h then None else kr_canonical K)\<rparr>,
      out\<lparr>kc_voided := kc_voided out @ [h],
          kc_needs_rewelcome := (kr_canonical K = Some h \<or> kc_needs_rewelcome out)\<rparr>))"

text \<open>A record whose entry has become final; a walk that does not end would leave it tentative.\<close>

definition becomes_final :: "governance_log \<Rightarrow> epoch_record \<Rightarrow> bool" where
  "becomes_final L r \<longleftrightarrow> er_status r = Tentative \<and> is_final L (er_rotation_ref r) = Some True"

definition mark_record :: "governance_log \<Rightarrow> epoch_record \<Rightarrow> epoch_record" where
  "mark_record L r = (if becomes_final L r then r\<lparr>er_status := FinalRotation\<rparr> else r)"

definition mark_finality :: "governance_log \<Rightarrow> reconciling \<Rightarrow> reconciling" where
  "mark_finality L = (\<lambda>(K, out).
     (K\<lparr>kr_records := map (\<lambda>(h, r). (h, mark_record L r)) (kr_records K)\<rparr>,
      out\<lparr>kc_finalized := kc_finalized out @ map er_rotation_ref (filter (becomes_final L) (bm_values (kr_records K)))\<rparr>))"

definition adopt_newest :: "b32 list \<Rightarrow> epoch_keyring \<Rightarrow> epoch_keyring" where
  "adopt_newest rots K =
     (case kr_canonical K of
        Some _ \<Rightarrow> K
      | None \<Rightarrow> K\<lparr>kr_canonical := List.find (bm_contains (kr_records K)) (rev rots)\<rparr>)"

definition prune_pair :: "b32 \<times> b32 \<Rightarrow> reconciling \<Rightarrow> reconciling" where
  "prune_pair = (\<lambda>(older, newer) (K, out).
     if (case bm_get (kr_records K) newer of None \<Rightarrow> False | Some r \<Rightarrow> er_status r = FinalRotation)
        \<and> bm_contains (kr_records K) older
     then (K\<lparr>kr_records := bm_remove older (kr_records K), kr_order := filter (\<lambda>r. r \<noteq> older) (kr_order K)\<rparr>,
           out\<lparr>kc_pruned := kc_pruned out @ [older]\<rparr>)
     else (K, out))"

definition keyring_reconcile :: "governance_log \<Rightarrow> epoch_keyring \<Rightarrow> reconciling option" where
  "keyring_reconcile L K =
     map_option (\<lambda>rots.
       let doomed = filter (\<lambda>h. h \<notin> set rots) (bm_keys (kr_records K));
           start = \<lparr>kc_finalized = [], kc_voided = [], kc_pruned = [], kc_needs_rewelcome = False\<rparr>;
           (K1, out1) = mark_finality L (fold void_rotation doomed (K, start));
           K2 = adopt_newest rots K1;
           held_order = filter (bm_contains (kr_records K2)) rots
       in fold prune_pair (zip held_order (tl held_order)) (K2, out1))
       (canonical_rotations L)"

definition keys_for_new_member :: "epoch_keyring \<Rightarrow> history_access \<Rightarrow> (b32 \<times> b32) list" where
  "keys_for_new_member K policy =
     (case policy of
        CurrentEpochForward \<Rightarrow> (case keyring_current K of None \<Rightarrow> [] | Some p \<Rightarrow> [p])
      | FullHistory \<Rightarrow> map (\<lambda>r. (er_rotation_ref r, er_key r)) (keyring_records K))"

fun deliver :: "nat \<Rightarrow> (b32 \<times> b32) list \<Rightarrow> epoch_keyring \<Rightarrow> epoch_keyring" where
  "deliver index [] K = K"
| "deliver index ((rotation, key) # keys) K =
     deliver (Suc index) keys (keyring_record rotation (of_nat index) key K)"

definition accept_delivered :: "(b32 \<times> b32) list \<Rightarrow> epoch_keyring \<Rightarrow> epoch_error + epoch_keyring" where
  "accept_delivered keys K = (if keys = [] then Inl NoKeysDelivered else Inr (deliver 0 keys K))"

section \<open>Key delivery\<close>

definition epoch_nonce_len :: nat where
  "epoch_nonce_len = 24"

definition max_key_package_bytes :: nat where
  "max_key_package_bytes = 64 * 1024"

definition max_welcome_bytes :: nat where
  "max_welcome_bytes = 4 * 1024 * 1024"

definition max_history_keys :: nat where
  "max_history_keys = 1024"

datatype epoch_wire_error =
    EwMalformed decode_error
  | EwInvalidKey
  | EwBadSignature
  | EwTooLarge string nat nat
  | EwUnknownVariant string u8

abbreviation er :: "(decode_error, 'a) reader \<Rightarrow> (epoch_wire_error, 'a) reader" where
  "er \<equiv> rmap_err EwMalformed"

definition ew_get_identity :: "crypto \<Rightarrow> (epoch_wire_error, b32) reader" where
  "ew_get_identity C = dec_key C EwMalformed EwInvalidKey"

definition bounded :: "string \<Rightarrow> nat \<Rightarrow> (epoch_wire_error, bytes) reader" where
  "bounded what limit =
     rbind (er dec_bytes) (\<lambda>b. if length b > limit then rfail (EwTooLarge what (length b) limit) else rret b)"

record epoch_key_request =
  kq_requester :: b32
  kq_key_package :: bytes
  kq_signature :: b64

definition kq_payload :: "b32 \<Rightarrow> bytes \<Rightarrow> bytes" where
  "kq_payload requester key_package =
     enc_domain ''intranet.epoch-key-request.v1'' @ put_fixed32 requester @ put_bytes key_package"

definition kq_create :: "crypto \<Rightarrow> per_network_identity \<Rightarrow> bytes \<Rightarrow> epoch_key_request" where
  "kq_create C requester key_package =
     \<lparr>kq_requester = pni_id C requester, kq_key_package = key_package,
      kq_signature = pni_sign C requester (kq_payload (pni_id C requester) key_package)\<rparr>"

definition kq_verify :: "crypto \<Rightarrow> epoch_key_request \<Rightarrow> epoch_wire_error + unit" where
  "kq_verify C q =
     (case vk_verify C (kq_requester q) (kq_payload (kq_requester q) (kq_key_package q)) (kq_signature q) of
        Inl _ \<Rightarrow> Inl EwBadSignature | Inr u \<Rightarrow> Inr u)"

definition epoch_request_domain :: string where
  "epoch_request_domain = ''intranet.wire.epoch-key-request.v1''"

definition put_epoch_request :: "epoch_key_request \<Rightarrow> bytes" where
  "put_epoch_request q = put_fixed32 (kq_requester q) @ put_bytes (kq_key_package q) @ put_fixed64 (kq_signature q)"

definition encode_epoch_request :: "epoch_key_request \<Rightarrow> bytes" where
  "encode_epoch_request q = enc_domain epoch_request_domain @ put_epoch_request q"

definition get_epoch_request :: "crypto \<Rightarrow> (epoch_wire_error, epoch_key_request) reader" where
  "get_epoch_request C =
     rbind (ew_get_identity C) (\<lambda>requester.
     rbind (bounded ''key package'' max_key_package_bytes) (\<lambda>key_package.
     rbind (er dec_fixed64) (\<lambda>signature.
       rret \<lparr>kq_requester = requester, kq_key_package = key_package, kq_signature = signature\<rparr>)))"

definition decode_epoch_request :: "crypto \<Rightarrow> bytes \<Rightarrow> epoch_wire_error + epoch_key_request" where
  "decode_epoch_request C b =
     decode_verified EwMalformed epoch_request_domain (get_epoch_request C) (kq_verify C) b"

datatype key_delivery_refusal = KeyNoReadContent | KeyCannotEvaluate | KeyIdentityMismatch | KeyNoGroup

record sealed_epoch_key =
  sk_rotation_ref :: b32
  sk_sealed :: bytes

datatype epoch_key_response =
    KeyWelcome bytes b32 "sealed_epoch_key list"
  | KeyRefused key_delivery_refusal

fun key_refusal_tag :: "key_delivery_refusal \<Rightarrow> u8" where
  "key_refusal_tag KeyNoReadContent = 0"
| "key_refusal_tag KeyCannotEvaluate = 1"
| "key_refusal_tag KeyIdentityMismatch = 2"
| "key_refusal_tag KeyNoGroup = 3"

definition get_key_refusal :: "(epoch_wire_error, key_delivery_refusal) reader" where
  "get_key_refusal = rbind (er dec_u8) (\<lambda>t.
     if t = 0 then rret KeyNoReadContent
     else if t = 1 then rret KeyCannotEvaluate
     else if t = 2 then rret KeyIdentityMismatch
     else if t = 3 then rret KeyNoGroup
     else rfail (EwUnknownVariant ''KeyDeliveryRefusal'' t))"

definition put_sealed_key :: "sealed_epoch_key \<Rightarrow> bytes" where
  "put_sealed_key k = put_fixed32 (sk_rotation_ref k) @ put_bytes (sk_sealed k)"

definition get_sealed_key :: "(epoch_wire_error, sealed_epoch_key) reader" where
  "get_sealed_key =
     rbind (er dec_fixed32) (\<lambda>rotation.
     rbind (er dec_bytes) (\<lambda>sealed. rret \<lparr>sk_rotation_ref = rotation, sk_sealed = sealed\<rparr>))"

definition epoch_response_domain :: string where
  "epoch_response_domain = ''intranet.wire.epoch-key-response.v1''"

fun put_epoch_response :: "epoch_key_response \<Rightarrow> bytes" where
  "put_epoch_response (KeyWelcome welcome rotation history) =
     put_variant 0 @ put_bytes welcome @ put_fixed32 rotation @ put_seq put_sealed_key history"
| "put_epoch_response (KeyRefused reason) = put_variant 1 @ put_u8 (key_refusal_tag reason)"

definition encode_epoch_response :: "epoch_key_response \<Rightarrow> bytes" where
  "encode_epoch_response m = enc_domain epoch_response_domain @ put_epoch_response m"

definition get_epoch_response :: "(epoch_wire_error, epoch_key_response) reader" where
  "get_epoch_response = rbind (er dec_variant) (\<lambda>v.
     if v = 0 then
       rbind (bounded ''welcome'' max_welcome_bytes) (\<lambda>welcome.
       rbind (er dec_fixed32) (\<lambda>rotation.
       rbind (dec_seq EwMalformed get_sealed_key) (\<lambda>history.
         if length history > max_history_keys
         then rfail (EwTooLarge ''history'' (length history) max_history_keys)
         else rret (KeyWelcome welcome rotation history))))
     else if v = 1 then rbind get_key_refusal (\<lambda>reason. rret (KeyRefused reason))
     else rfail (EwUnknownVariant ''EpochKeyResponse'' v))"

definition decode_epoch_response :: "bytes \<Rightarrow> epoch_wire_error + epoch_key_response" where
  "decode_epoch_response b = decode_whole EwMalformed epoch_response_domain get_epoch_response b"

section \<open>Sealing superseded keys\<close>

text \<open>
  The secret two identities agree on is a parameter: \<open>agree sk pk\<close> is what the holder of \<open>sk\<close> derives
  for the public key \<open>pk\<close>, \<open>None\<close> if the key is refused. The text of the error it comes with is left out.
\<close>

definition agree_symmetric :: "crypto \<Rightarrow> (b32 \<Rightarrow> b32 \<Rightarrow> b32 option) \<Rightarrow> bool" where
  "agree_symmetric C ag \<longleftrightarrow> (\<forall>s t. ag s (ed_public C t) = ag t (ed_public C s))"

definition seal_domain :: string where
  "seal_domain = ''intranet.epoch-key-seal.v1''"

definition sealing_key :: "crypto \<Rightarrow> b32 \<Rightarrow> b32" where
  "sealing_key C secret = hash_bytes C (enc_domain seal_domain @ put_fixed32 secret)"

definition seal_nonce :: "sealing \<Rightarrow> b32 \<Rightarrow> b32 \<Rightarrow> bytes \<Rightarrow> bytes" where
  "seal_nonce S key rotation plaintext =
     take epoch_nonce_len
       (put_fixed32 (keyed_blake3 S key (enc_domain seal_domain @ put_fixed32 rotation @ put_bytes plaintext)))"

definition seal_epoch_key :: "sealing \<Rightarrow> b32 \<Rightarrow> b32 \<Rightarrow> bytes \<Rightarrow> bytes" where
  "seal_epoch_key S key rotation plaintext =
     (let nonce = seal_nonce S key rotation plaintext in nonce @ xchacha_seal S key nonce plaintext)"

definition open_epoch_key :: "sealing \<Rightarrow> b32 \<Rightarrow> b32 \<Rightarrow> bytes \<Rightarrow> epoch_error + bytes" where
  "open_epoch_key S key rotation blob =
     (if length blob \<le> epoch_nonce_len then Inl (Mls ''sealed epoch key is truncated'')
      else
        let nonce = take epoch_nonce_len blob in
        case xchacha_open S key nonce (drop epoch_nonce_len blob) of
          None \<Rightarrow> Inl (Mls ''sealed epoch key failed authentication'')
        | Some plaintext \<Rightarrow>
            if seal_nonce S key rotation plaintext \<noteq> nonce
            then Inl (Mls ''sealed epoch key was sealed for a different rotation'')
            else Inr plaintext)"

definition seal_history ::
  "crypto \<Rightarrow> sealing \<Rightarrow> (b32 \<Rightarrow> b32 \<Rightarrow> b32 option) \<Rightarrow> per_network_identity \<Rightarrow> b32 \<Rightarrow> (b32 \<times> b32) list \<Rightarrow>
     epoch_error + sealed_epoch_key list" where
  "seal_history C S ag sender recipient keys =
     (case ag (pni_secret sender) recipient of
        None \<Rightarrow> Inl (Mls ''key agreement'')
      | Some secret \<Rightarrow>
          Inr (map (\<lambda>(rotation, key).
            \<lparr>sk_rotation_ref = rotation,
             sk_sealed = seal_epoch_key S (sealing_key C secret) rotation (put_fixed32 key)\<rparr>) keys))"

definition open_sealed :: "sealing \<Rightarrow> b32 \<Rightarrow> sealed_epoch_key \<Rightarrow> epoch_error + (b32 \<times> b32)" where
  "open_sealed S key k =
     res_bind (open_epoch_key S key (sk_rotation_ref k) (sk_sealed k)) (\<lambda>b.
       if length b = 32 then Inr (sk_rotation_ref k, of_nat (be_val b))
       else Inl (Mls ''sealed epoch key was not 32 bytes''))"

definition open_history ::
  "crypto \<Rightarrow> sealing \<Rightarrow> (b32 \<Rightarrow> b32 \<Rightarrow> b32 option) \<Rightarrow> per_network_identity \<Rightarrow> b32 \<Rightarrow> sealed_epoch_key list \<Rightarrow>
     epoch_error + (b32 \<times> b32) list" where
  "open_history C S ag recipient sender sealed =
     (case ag (pni_secret recipient) sender of
        None \<Rightarrow> Inl (Mls ''key agreement'')
      | Some secret \<Rightarrow> decode_each (open_sealed S (sealing_key C secret)) sealed)"

section \<open>Labels\<close>

definition identity_label :: "b32 \<Rightarrow> bytes" where
  "identity_label k = put_fixed32 k"

section \<open>Answering and accepting\<close>

text \<open>The history that accompanies a welcome: superseded keys, and only where the policy grants them.\<close>

definition answer_history ::
  "crypto \<Rightarrow> sealing \<Rightarrow> (b32 \<Rightarrow> b32 \<Rightarrow> b32 option) \<Rightarrow> governance_log \<Rightarrow> epoch_keyring \<Rightarrow> per_network_identity \<Rightarrow>
     b32 \<Rightarrow> b32 \<Rightarrow> epoch_error + sealed_epoch_key list" where
  "answer_history C S ag L K identity requester rotation =
     (case map_option (\<lambda>st. history_access (gs_policy st)) (node_state C L) of
        Some FullHistory \<Rightarrow>
          seal_history C S ag identity requester
            (filter (\<lambda>p. fst p \<noteq> rotation) (keys_for_new_member K FullHistory))
      | _ \<Rightarrow> Inr [])"

text \<open>
  What a member that was welcomed records: the history that came with the welcome first, so that the
  rotation of the welcome ends up current.
\<close>

definition absorb_welcome ::
  "crypto \<Rightarrow> sealing \<Rightarrow> (b32 \<Rightarrow> b32 \<Rightarrow> b32 option) \<Rightarrow> per_network_identity \<Rightarrow> b32 \<Rightarrow> b32 \<Rightarrow> sealed_epoch_key list \<Rightarrow>
     u64 \<Rightarrow> b32 \<Rightarrow> epoch_keyring \<Rightarrow> epoch_error + epoch_keyring" where
  "absorb_welcome C S ag identity sender rotation history epoch key K =
     res_bind (if history = [] then Inr K
               else res_bind (open_history C S ag identity sender history) (\<lambda>keys. accept_delivered keys K)) (\<lambda>K1.
       Inr (keyring_record rotation epoch key K1))"

section \<open>The messages are codecs\<close>

interpretation eident: exact_codec "key_valid C" put_fixed32 "ew_get_identity C" for C
  unfolding ew_get_identity_def by (rule exact_key)

lemma exact_bounded:
  assumes "limit < 2 ^ 64"
  shows "exact_codec (\<lambda>b. length b \<le> limit) put_bytes (bounded what limit)"
proof
  fix b r :: bytes
  assume "length b \<le> limit"
  then show "bounded what limit (put_bytes b @ r) = Inr (b, r)"
    using assms by (simp add: bounded_def reader_simps len_ok_def)
qed (auto simp: bounded_def rbind_eq_Inr put_bytes_def nonempty_simps dest!: exact_dests split: if_splits)

interpretation kpkg: exact_codec "\<lambda>b. length b \<le> max_key_package_bytes" put_bytes
  "bounded ''key package'' max_key_package_bytes"
  by (rule exact_bounded) (simp add: max_key_package_bytes_def)

interpretation kwel: exact_codec "\<lambda>b. length b \<le> max_welcome_bytes" put_bytes "bounded ''welcome'' max_welcome_bytes"
  by (rule exact_bounded) (simp add: max_welcome_bytes_def)

definition epoch_request_ok :: "crypto \<Rightarrow> epoch_key_request \<Rightarrow> bool" where
  "epoch_request_ok C q \<longleftrightarrow> key_valid C (kq_requester q) \<and> length (kq_key_package q) \<le> max_key_package_bytes"

interpretation kreq: exact_codec "epoch_request_ok C" put_epoch_request "get_epoch_request C" for C
proof
  fix q :: epoch_key_request and r
  assume "epoch_request_ok C q"
  then show "get_epoch_request C (put_epoch_request q @ r) = Inr (q, r)"
    by (simp add: epoch_request_ok_def get_epoch_request_def put_epoch_request_def reader_simps eident.get_put
        kpkg.get_put)
qed (auto simp: epoch_request_ok_def get_epoch_request_def put_epoch_request_def rbind_eq_Inr nonempty_simps
    dest!: exact_dests eident.get_exact kpkg.get_exact)

interpretation krefusal: exact_codec "\<lambda>_. True" "\<lambda>e. put_u8 (key_refusal_tag e)" get_key_refusal
proof
  fix e r
  show "get_key_refusal (put_u8 (key_refusal_tag e) @ r) = Inr (e, r)"
    by (cases e) (simp_all add: get_key_refusal_def reader_simps)
qed (auto simp: get_key_refusal_def rbind_eq_Inr nonempty_simps dest!: u8.get_exact split: if_splits)

interpretation skey: exact_codec "\<lambda>k. len_ok (sk_sealed k)" put_sealed_key get_sealed_key
proof
  fix k :: sealed_epoch_key and r
  assume "len_ok (sk_sealed k)"
  then show "get_sealed_key (put_sealed_key k @ r) = Inr (k, r)"
    by (simp add: get_sealed_key_def put_sealed_key_def reader_simps)
qed (auto simp: get_sealed_key_def put_sealed_key_def rbind_eq_Inr nonempty_simps dest!: exact_dests)

lemmas sealed_keys = exact_seq [OF skey.exact_codec_axioms, of EwMalformed]

fun epoch_response_ok :: "epoch_key_response \<Rightarrow> bool" where
  "epoch_response_ok (KeyWelcome welcome _ history) \<longleftrightarrow>
     length welcome \<le> max_welcome_bytes \<and> length history \<le> max_history_keys
     \<and> list_all (\<lambda>k. len_ok (sk_sealed k)) history"
| "epoch_response_ok (KeyRefused _) \<longleftrightarrow> True"

lemma history_seq_ok:
  "length history \<le> max_history_keys \<Longrightarrow>
     seq_ok (\<lambda>k. len_ok (sk_sealed k)) history \<longleftrightarrow> list_all (\<lambda>k. len_ok (sk_sealed k)) history"
  by (simp add: seq_ok_def max_history_keys_def len_ok_def)

interpretation kresp: exact_codec epoch_response_ok put_epoch_response get_epoch_response
proof
  fix m r
  assume "epoch_response_ok m"
  then show "get_epoch_response (put_epoch_response m @ r) = Inr (m, r)"
    by (cases m) (simp_all add: get_epoch_response_def reader_simps krefusal.get_put kwel.get_put history_seq_ok
        codec.get_put [OF exact_codec.axioms(1) [OF sealed_keys]])
  show "put_epoch_response m \<noteq> []"
    by (cases m) (simp_all add: nonempty_simps)
next
  fix b m r
  assume "get_epoch_response b = Inr (m, r)"
  then show "epoch_response_ok m \<and> b = put_epoch_response m @ r"
    by (auto simp: get_epoch_response_def rbind_eq_Inr history_seq_ok dest!: exact_dests krefusal.get_exact
        kwel.get_exact exact_codec.get_exact [OF sealed_keys] split: if_splits)
qed

lemma epoch_domains_ok: "str_ok epoch_request_domain" "str_ok epoch_response_domain"
  by (simp_all add: epoch_request_domain_def epoch_response_domain_def str_ok_def str_bytes_def)

end
