(* ===== verification/Realtime.thy ===== *)
theory Realtime
  imports Limits Epoch
begin

text \<open>
  The real-time layer, \<open>intranet-realtime\<close>: call.rs (a participant's view of a call), relay.rs (the choice
  of a media relay), keying.rs (call keys, frames and key envelopes), stream.rs (live broadcasts and their
  recordings) and wire.rs (the signalling and media messages).

  A participant set is the sorted list of a \<open>BTreeSet\<close>. The cipher and the pairwise secret are the
  parameters \<open>sealing\<close> and \<open>agree\<close> of the storage and epoch layers.
\<close>

section \<open>Errors\<close>

datatype realtime_error =
    CallEntropy
  | FrameAuthenticationFailed u64
  | KeyAgreementFailed
  | NotTheRecipient
  | NoRelayAvailable
  | NoHandoverPending
  | EmptyBroadcast
  | ChunkSequenceGap u64 u64

section \<open>Calls\<close>

datatype topology = Mesh | Relayed b32

fun involves_relay :: "topology \<Rightarrow> bool" where
  "involves_relay Mesh = False"
| "involves_relay (Relayed _) = True"

datatype renegotiation_trigger = ThresholdReached | BelowThreshold | RelayUnavailable

record topology_proposal =
  tp_proposer :: b32
  tp_topology :: topology
  tp_trigger :: renegotiation_trigger
  tp_proposed_at :: i64

datatype proposal_outcome = Accepted | Superseded | AlreadySettled

record call_session =
  ses_participants :: "b32 btree_set"
  ses_threshold :: u8
  ses_active :: topology
  ses_pending :: "topology option"
  ses_in_flight :: "(topology_proposal \<times> i64) option"

record relay_choice =
  rc_relay :: b32
  rc_worst_latency :: u32
  rc_upload_capacity :: u64

definition call_open :: "b32 list \<Rightarrow> u8 \<Rightarrow> call_session" where
  "call_open participants threshold =
     \<lparr>ses_participants = bs_collect participants, ses_threshold = threshold, ses_active = Mesh,
      ses_pending = None, ses_in_flight = None\<rparr>"

definition call_join :: "call_session \<Rightarrow> b32 \<Rightarrow> call_session" where
  "call_join S participant = S\<lparr>ses_participants := bs_insert participant (ses_participants S)\<rparr>"

definition call_leave :: "call_session \<Rightarrow> b32 \<Rightarrow> call_session" where
  "call_leave S participant = S\<lparr>ses_participants := bs_remove participant (ses_participants S)\<rparr>"

definition mesh_upload_streams :: "call_session \<Rightarrow> nat" where
  "mesh_upload_streams S = length (ses_participants S) - 1"

definition call_evaluate :: "call_session \<Rightarrow> bool \<Rightarrow> renegotiation_trigger option" where
  "call_evaluate S relay_reachable =
     (let at_threshold = length (ses_participants S) \<ge> unat (ses_threshold S) in
      case ses_active S of
        Mesh \<Rightarrow> if at_threshold then Some ThresholdReached else None
      | Relayed _ \<Rightarrow>
          if \<not> relay_reachable then Some RelayUnavailable
          else if \<not> at_threshold then Some BelowThreshold
          else None)"

definition call_propose ::
  "b32 \<Rightarrow> renegotiation_trigger \<Rightarrow> relay_choice option \<Rightarrow> i64 \<Rightarrow> realtime_error + topology_proposal" where
  "call_propose proposer trigger choice proposed_at =
     res_bind
       (case trigger of
          BelowThreshold \<Rightarrow> Inr Mesh
        | _ \<Rightarrow> res_bind (ok_or NoRelayAvailable choice) (\<lambda>relay. Inr (Relayed (rc_relay relay))))
       (\<lambda>t. Inr \<lparr>tp_proposer = proposer, tp_topology = t, tp_trigger = trigger, tp_proposed_at = proposed_at\<rparr>)"

definition incoming_wins :: "topology_proposal \<times> i64 \<Rightarrow> topology_proposal \<times> i64 \<Rightarrow> bool" where
  "incoming_wins incoming existing =
     (let (proposal, received_at) = incoming; (held, held_at) = existing in
      if sint received_at < sint held_at then True
      else if sint received_at > sint held_at then False
      else tp_proposer proposal < tp_proposer held)"

definition receive_proposal ::
  "call_session \<Rightarrow> topology_proposal \<Rightarrow> i64 \<Rightarrow> call_session \<times> proposal_outcome" where
  "receive_proposal S proposal received_at =
     (let adopt = (S\<lparr>ses_pending := Some (tp_topology proposal), ses_in_flight := Some (proposal, received_at)\<rparr>, Accepted)
      in if ses_active S = tp_topology proposal \<and> ses_pending S = None then (S, AlreadySettled)
      else case ses_in_flight S of
             Some existing \<Rightarrow>
               if incoming_wins (proposal, received_at) existing then adopt else (S, Superseded)
           | None \<Rightarrow> adopt)"

definition complete_handover :: "call_session \<Rightarrow> realtime_error + (call_session \<times> topology)" where
  "complete_handover S =
     (case ses_pending S of
        None \<Rightarrow> Inl NoHandoverPending
      | Some t \<Rightarrow> Inr (S\<lparr>ses_pending := None, ses_active := t, ses_in_flight := None\<rparr>, t))"

definition abandon_handover :: "call_session \<Rightarrow> call_session" where
  "abandon_handover S = S\<lparr>ses_pending := None, ses_in_flight := None\<rparr>"

section \<open>Relays\<close>

record relay_observation =
  ob_relay :: b32
  ob_participant :: b32
  ob_latency :: u32

definition tally :: "b32 btree_set \<Rightarrow> relay_observation \<Rightarrow> (b32, u32 \<times> nat) btree_map \<Rightarrow> (b32, u32 \<times> nat) btree_map" where
  "tally participants ob worst =
     (if ob_participant ob \<notin> set participants then worst
      else let (latency, reporters) = (case bm_get worst (ob_relay ob) of None \<Rightarrow> (0, 0) | Some e \<Rightarrow> e)
           in bm_insert (ob_relay ob) (max latency (ob_latency ob), reporters + 1) worst)"

definition relay_candidate ::
  "b32 btree_set \<Rightarrow> capability_ledger \<Rightarrow> observations \<Rightarrow> (u64 \<Rightarrow> u64 \<Rightarrow> bool) \<Rightarrow> b32 \<times> u32 \<times> nat
     \<Rightarrow> (relay_choice \<times> nat) option" where
  "relay_candidate participants L R at_least = (\<lambda>(relay, worst_latency, reporters).
     if reporters < length participants then None
     else case bm_get (cl_entries L) relay of
       None \<Rightarrow> None
     | Some a \<Rightarrow>
         if \<not> relay_media_willing a then None
         else
           let upload_capacity = up_bytes_per_sec (ca_bandwidth a) in
           if upload_capacity = 0 then None
           else Some (\<lparr>rc_relay = relay, rc_worst_latency = worst_latency, rc_upload_capacity = upload_capacity\<rparr>,
                      reliability_class at_least (for_peer R relay)))"

text \<open>The comparator: band, worst latency, then capacity downwards, then the relay.\<close>

definition relay_rank :: "relay_choice \<times> nat \<Rightarrow> nat \<times> u32 \<times> int \<times> b32" where
  "relay_rank = (\<lambda>(c, band). (band, rc_worst_latency c, - uint (rc_upload_capacity c), rc_relay c))"

definition select_relay ::
  "relay_observation list \<Rightarrow> b32 btree_set \<Rightarrow> capability_ledger \<Rightarrow> observations \<Rightarrow> (u64 \<Rightarrow> u64 \<Rightarrow> bool)
     \<Rightarrow> relay_choice option" where
  "select_relay obs participants L R at_least =
     (let worst = fold (tally participants) obs [];
          ranked = sort_key relay_rank (List.map_filter (relay_candidate participants L R at_least) worst)
      in case ranked of [] \<Rightarrow> None | (choice, _) # _ \<Rightarrow> Some choice)"

definition relay_candidates :: "capability_ledger \<Rightarrow> b32 list" where
  "relay_candidates L = map ca_node (media_relay_candidates L)"

section \<open>Call keys\<close>

record media_frame =
  fr_sequence :: u64
  fr_ciphertext :: bytes

record call_key_envelope =
  ck_call :: b32
  ck_sender :: b32
  ck_recipient :: b32
  ck_sealed_key :: bytes

definition generate_key :: "b32 option \<Rightarrow> realtime_error + b32" where
  "generate_key entropy = ok_or CallEntropy entropy"

definition call_key_fingerprint :: "crypto \<Rightarrow> b32 \<Rightarrow> b32" where
  "call_key_fingerprint C key = hash_bytes C (enc_domain ''intranet.call-key-fingerprint.v1'' @ put_fixed32 key)"

definition frame_nonce :: "crypto \<Rightarrow> b32 \<Rightarrow> u64 \<Rightarrow> bytes" where
  "frame_nonce C call sequence =
     take 24 (put_fixed32 (hash_bytes C (enc_domain ''intranet.call-frame-nonce.v1'' @ put_fixed32 call @ put_u64 sequence)))"

definition seal_frame :: "crypto \<Rightarrow> sealing \<Rightarrow> b32 \<Rightarrow> b32 \<Rightarrow> u64 \<Rightarrow> bytes \<Rightarrow> media_frame" where
  "seal_frame C S key call sequence plaintext =
     \<lparr>fr_sequence = sequence, fr_ciphertext = xchacha_seal S key (frame_nonce C call sequence) plaintext\<rparr>"

definition open_frame :: "crypto \<Rightarrow> sealing \<Rightarrow> b32 \<Rightarrow> b32 \<Rightarrow> media_frame \<Rightarrow> realtime_error + bytes" where
  "open_frame C S key call frame =
     ok_or (FrameAuthenticationFailed (fr_sequence frame))
       (xchacha_open S key (frame_nonce C call (fr_sequence frame)) (fr_ciphertext frame))"

definition envelope_nonce :: "crypto \<Rightarrow> b32 \<Rightarrow> b32 \<Rightarrow> b32 \<Rightarrow> bytes" where
  "envelope_nonce C call sender recipient =
     take 24 (put_fixed32 (hash_bytes C
       (enc_domain ''intranet.call-key-envelope-nonce.v1'' @ put_fixed32 call @ put_fixed32 sender @ put_fixed32 recipient)))"

definition envelope_seal ::
  "crypto \<Rightarrow> sealing \<Rightarrow> (b32 \<Rightarrow> b32 \<Rightarrow> b32 option) \<Rightarrow> per_network_identity \<Rightarrow> b32 \<Rightarrow> b32 \<Rightarrow> b32
     \<Rightarrow> realtime_error + call_key_envelope" where
  "envelope_seal C S ag sender recipient call key =
     res_bind (ok_or KeyAgreementFailed (ag (pni_secret sender) recipient)) (\<lambda>shared.
       Inr \<lparr>ck_call = call, ck_sender = pni_id C sender, ck_recipient = recipient,
            ck_sealed_key =
              xchacha_seal S shared (envelope_nonce C call (pni_id C sender) recipient) (put_fixed32 key)\<rparr>)"

definition envelope_open ::
  "crypto \<Rightarrow> sealing \<Rightarrow> (b32 \<Rightarrow> b32 \<Rightarrow> b32 option) \<Rightarrow> call_key_envelope \<Rightarrow> per_network_identity
     \<Rightarrow> realtime_error + b32" where
  "envelope_open C S ag env recipient =
     (if pni_id C recipient \<noteq> ck_recipient env then Inl NotTheRecipient
      else
        res_bind (ok_or KeyAgreementFailed (ag (pni_secret recipient) (ck_sender env))) (\<lambda>shared.
        res_bind (ok_or KeyAgreementFailed
          (xchacha_open S shared (envelope_nonce C (ck_call env) (ck_sender env) (ck_recipient env)) (ck_sealed_key env)))
          (\<lambda>opened. if length opened = 32 then Inr (of_nat (be_val opened)) else Inl KeyAgreementFailed)))"

section \<open>Live streams\<close>

definition assign_tier :: "crypto \<Rightarrow> b32 \<Rightarrow> capability_ledger \<Rightarrow> nat \<Rightarrow> b32 list" where
  "assign_tier C stream L tier_size =
     select C (put_fixed32 stream) (media_relay_candidates L) BandwidthUp tier_size"

record live_stream =
  ls_stream :: b32
  ls_tier :: "b32 list"
  ls_tier_size :: nat
  ls_holders :: "(u64, b32 btree_set) btree_map"
  ls_chunks :: "(u64, b32) btree_map"
  ls_window :: nat

definition stream_start :: "crypto \<Rightarrow> b32 \<Rightarrow> capability_ledger \<Rightarrow> nat \<Rightarrow> nat \<Rightarrow> live_stream" where
  "stream_start C stream L tier_size window =
     \<lparr>ls_stream = stream, ls_tier = assign_tier C stream L tier_size, ls_tier_size = tier_size,
      ls_holders = [], ls_chunks = [], ls_window = window\<rparr>"

definition holders_entry :: "u64 \<Rightarrow> (u64, b32 btree_set) btree_map \<Rightarrow> b32 btree_set" where
  "holders_entry sequence holders = (case bm_get holders sequence of None \<Rightarrow> [] | Some s \<Rightarrow> s)"

function trim_window ::
  "nat \<Rightarrow> (u64, b32) btree_map \<Rightarrow> (u64, b32 btree_set) btree_map
     \<Rightarrow> (u64, b32) btree_map \<times> (u64, b32 btree_set) btree_map" where
  "trim_window window chunks holders =
     (if length chunks > window
      then case bm_keys chunks of
             [] \<Rightarrow> (chunks, holders)
           | oldest # _ \<Rightarrow> trim_window window (bm_remove oldest chunks) (bm_remove oldest holders)
      else (chunks, holders))"
  by pat_completeness auto
termination
  by (relation "measure (\<lambda>(_, chunks, _). length chunks)")
    (auto simp: bm_keys_def bm_remove_def Cons_eq_map_conv le_imp_less_Suc)

declare trim_window.simps [simp del]

definition produce_chunk :: "live_stream \<Rightarrow> u64 \<Rightarrow> b32 \<Rightarrow> live_stream" where
  "produce_chunk L sequence cid =
     (let (chunks, holders) = trim_window (ls_window L) (bm_insert sequence cid (ls_chunks L))
            (bm_insert sequence (holders_entry sequence (ls_holders L)) (ls_holders L))
      in L\<lparr>ls_chunks := chunks, ls_holders := holders\<rparr>)"

definition record_holder :: "live_stream \<Rightarrow> u64 \<Rightarrow> b32 \<Rightarrow> live_stream" where
  "record_holder L sequence viewer =
     (if bm_contains (ls_chunks L) sequence
      then L\<lparr>ls_holders :=
        bm_insert sequence (bs_insert viewer (holders_entry sequence (ls_holders L))) (ls_holders L)\<rparr>
      else L)"

definition sources_for :: "live_stream \<Rightarrow> u64 \<Rightarrow> b32 list" where
  "sources_for L sequence = holders_entry sequence (ls_holders L)"

definition live_window :: "live_stream \<Rightarrow> (u64 \<times> b32) list" where
  "live_window L = ls_chunks L"

definition tier_needs_recompute :: "live_stream \<Rightarrow> capability_ledger \<Rightarrow> bool" where
  "tier_needs_recompute S L \<longleftrightarrow>
     (\<exists>node\<in>set (ls_tier S).
        case bm_get (cl_entries L) node of None \<Rightarrow> True | Some a \<Rightarrow> \<not> relay_media_willing a)"

definition recompute_tier :: "crypto \<Rightarrow> live_stream \<Rightarrow> capability_ledger \<Rightarrow> live_stream" where
  "recompute_tier C S L = S\<lparr>ls_tier := assign_tier C (ls_stream S) L (ls_tier_size S)\<rparr>"

datatype vod_retention = VodEnabled | VodDisabled

text \<open>The sum \<open>pair[0].0 + 1\<close> is the wrapping one of a release build.\<close>

fun first_gap :: "(u64 \<times> b32) list \<Rightarrow> (u64 \<times> u64) option" where
  "first_gap ((a, _) # (b, c) # rest) = (if b \<noteq> a + 1 then Some (a, b) else first_gap ((b, c) # rest))"
| "first_gap _ = None"

definition into_vod ::
  "(u64 \<times> b32) list \<Rightarrow> u64 \<Rightarrow> vod_retention \<Rightarrow> realtime_error + manifest option" where
  "into_vod all_chunks plaintext_len retention =
     (if retention = VodDisabled then Inr None
      else if all_chunks = [] then Inl EmptyBroadcast
      else
        let ordered = sort_key fst all_chunks in
        case first_gap ordered of
          Some (after, found) \<Rightarrow> Inl (ChunkSequenceGap after found)
        | None \<Rightarrow> Inr (Some \<lparr>mf_chunks = map snd ordered, mf_plaintext_len = plaintext_len\<rparr>))"

section \<open>Messages\<close>

definition max_sealed_key_bytes :: nat where
  "max_sealed_key_bytes = 256"

definition max_frame_bytes :: nat where
  "max_frame_bytes = 1024 * 1024"

datatype realtime_wire_error =
    RwMalformed decode_error
  | RwInvalidKey
  | RwBadSignature
  | RwTooLarge nat nat

abbreviation rr :: "(decode_error, 'a) reader \<Rightarrow> (realtime_wire_error, 'a) reader" where
  "rr \<equiv> rmap_err RwMalformed"

definition rw_unknown :: "string \<Rightarrow> u8 \<Rightarrow> realtime_wire_error" where
  "rw_unknown type_name discriminant = RwMalformed (UnknownVariant type_name discriminant)"

definition rw_get_identity :: "crypto \<Rightarrow> (realtime_wire_error, b32) reader" where
  "rw_get_identity C = dec_key C RwMalformed RwInvalidKey"

text \<open>Every length on these wires is bounded: the bytes are read, then their number is checked.\<close>

definition rw_bounded :: "nat \<Rightarrow> (realtime_wire_error, bytes) reader" where
  "rw_bounded limit =
     rbind (rr dec_bytes) (\<lambda>b. if length b > limit then rfail (RwTooLarge (length b) limit) else rret b)"

datatype signal_body =
    SignalInvite call_key_envelope
  | SignalPropose b32 topology_proposal
  | SignalLeave b32

record signal =
  sg_body :: signal_body
  sg_sender :: b32
  sg_signature :: b64

fun put_topology :: "topology \<Rightarrow> bytes" where
  "put_topology Mesh = put_variant 0"
| "put_topology (Relayed relay) = put_variant 1 @ put_fixed32 relay"

definition get_topology :: "crypto \<Rightarrow> (realtime_wire_error, topology) reader" where
  "get_topology C = rbind (rr dec_variant) (\<lambda>v.
     if v = 0 then rret Mesh
     else if v = 1 then rbind (rw_get_identity C) (\<lambda>relay. rret (Relayed relay))
     else rfail (rw_unknown ''Topology'' v))"

fun trigger_tag :: "renegotiation_trigger \<Rightarrow> u8" where
  "trigger_tag ThresholdReached = 0"
| "trigger_tag BelowThreshold = 1"
| "trigger_tag RelayUnavailable = 2"

definition get_trigger :: "(realtime_wire_error, renegotiation_trigger) reader" where
  "get_trigger = rbind (rr dec_u8) (\<lambda>t.
     if t = 0 then rret ThresholdReached
     else if t = 1 then rret BelowThreshold
     else if t = 2 then rret RelayUnavailable
     else rfail (rw_unknown ''RenegotiationTrigger'' t))"

fun put_signal_body :: "signal_body \<Rightarrow> bytes" where
  "put_signal_body (SignalInvite env) =
     put_variant 0 @ put_fixed32 (ck_call env) @ put_fixed32 (ck_sender env) @ put_fixed32 (ck_recipient env)
       @ put_bytes (ck_sealed_key env)"
| "put_signal_body (SignalPropose call p) =
     put_variant 1 @ put_fixed32 call @ put_fixed32 (tp_proposer p) @ put_topology (tp_topology p)
       @ put_u8 (trigger_tag (tp_trigger p)) @ put_i64 (tp_proposed_at p)"
| "put_signal_body (SignalLeave call) = put_variant 2 @ put_fixed32 call"

definition get_signal_body :: "crypto \<Rightarrow> (realtime_wire_error, signal_body) reader" where
  "get_signal_body C = rbind (rr dec_variant) (\<lambda>v.
     if v = 0 then
       rbind (rr dec_fixed32) (\<lambda>call.
       rbind (rw_get_identity C) (\<lambda>sender.
       rbind (rw_get_identity C) (\<lambda>recipient.
       rbind (rw_bounded max_sealed_key_bytes) (\<lambda>sealed.
         rret (SignalInvite
           \<lparr>ck_call = call, ck_sender = sender, ck_recipient = recipient, ck_sealed_key = sealed\<rparr>)))))
     else if v = 1 then
       rbind (rr dec_fixed32) (\<lambda>call.
       rbind (rw_get_identity C) (\<lambda>proposer.
       rbind (get_topology C) (\<lambda>t.
       rbind get_trigger (\<lambda>trigger.
       rbind (rr dec_i64) (\<lambda>at.
         rret (SignalPropose call
           \<lparr>tp_proposer = proposer, tp_topology = t, tp_trigger = trigger, tp_proposed_at = at\<rparr>))))))
     else if v = 2 then rbind (rr dec_fixed32) (\<lambda>call. rret (SignalLeave call))
     else rfail (rw_unknown ''SignalBody'' v))"

definition signal_payload :: "signal_body \<Rightarrow> b32 \<Rightarrow> bytes" where
  "signal_payload body sender = enc_domain ''intranet.call-signal.v1'' @ put_signal_body body @ put_fixed32 sender"

definition signal_create :: "crypto \<Rightarrow> per_network_identity \<Rightarrow> signal_body \<Rightarrow> signal" where
  "signal_create C sender body =
     \<lparr>sg_body = body, sg_sender = pni_id C sender,
      sg_signature = pni_sign C sender (signal_payload body (pni_id C sender))\<rparr>"

definition signal_verify :: "crypto \<Rightarrow> signal \<Rightarrow> realtime_wire_error + unit" where
  "signal_verify C s =
     (case vk_verify C (sg_sender s) (signal_payload (sg_body s) (sg_sender s)) (sg_signature s) of
        Inl _ \<Rightarrow> Inl RwBadSignature | Inr u \<Rightarrow> Inr u)"

definition signal_domain :: string where
  "signal_domain = ''intranet.wire.call-signal.v1''"

definition put_signal :: "signal \<Rightarrow> bytes" where
  "put_signal s = put_signal_body (sg_body s) @ put_fixed32 (sg_sender s) @ put_fixed64 (sg_signature s)"

definition get_signal :: "crypto \<Rightarrow> (realtime_wire_error, signal) reader" where
  "get_signal C =
     rbind (get_signal_body C) (\<lambda>body.
     rbind (rw_get_identity C) (\<lambda>sender.
     rbind (rr dec_fixed64) (\<lambda>signature.
       rret \<lparr>sg_body = body, sg_sender = sender, sg_signature = signature\<rparr>)))"

definition signal_encode :: "signal \<Rightarrow> bytes" where
  "signal_encode s = enc_domain signal_domain @ put_signal s"

definition signal_decode :: "crypto \<Rightarrow> bytes \<Rightarrow> realtime_wire_error + signal" where
  "signal_decode C b = decode_verified RwMalformed signal_domain (get_signal C) (signal_verify C) b"

definition signal_ack_domain :: string where
  "signal_ack_domain = ''intranet.wire.call-signal-ack.v1''"

definition signal_ack_encode :: bytes where
  "signal_ack_encode = enc_domain signal_ack_domain"

definition signal_ack_decode :: "bytes \<Rightarrow> realtime_wire_error + unit" where
  "signal_ack_decode b = decode_whole RwMalformed signal_ack_domain (rret ()) b"

fun recipient_named :: "recipient \<Rightarrow> b32 option" where
  "recipient_named (One someone) = Some someone"
| "recipient_named Participants = None"

fun recipient_is :: "recipient \<Rightarrow> b32 \<Rightarrow> bool" where
  "recipient_is (One someone) identity \<longleftrightarrow> someone = identity"
| "recipient_is Participants identity \<longleftrightarrow> False"

fun put_recipient :: "recipient \<Rightarrow> bytes" where
  "put_recipient (One someone) = put_u8 0 @ put_fixed32 someone"
| "put_recipient Participants = put_u8 1"

definition get_recipient :: "crypto \<Rightarrow> (realtime_wire_error, recipient) reader" where
  "get_recipient C = rbind (rr dec_u8) (\<lambda>v.
     if v = 0 then rbind (rw_get_identity C) (\<lambda>someone. rret (One someone))
     else if v = 1 then rret Participants
     else rfail (rw_unknown ''Recipient'' v))"

record media_envelope =
  me_call :: b32
  me_from :: b32
  me_to :: recipient
  me_frame :: media_frame

definition media_domain :: string where
  "media_domain = ''intranet.wire.call-media.v2''"

definition put_media :: "media_envelope \<Rightarrow> bytes" where
  "put_media m =
     put_fixed32 (me_call m) @ put_fixed32 (me_from m) @ put_recipient (me_to m)
       @ put_u64 (fr_sequence (me_frame m)) @ put_bytes (fr_ciphertext (me_frame m))"

definition get_media :: "crypto \<Rightarrow> (realtime_wire_error, media_envelope) reader" where
  "get_media C =
     rbind (rr dec_fixed32) (\<lambda>call.
     rbind (rw_get_identity C) (\<lambda>from.
     rbind (get_recipient C) (\<lambda>to.
     rbind (rr dec_u64) (\<lambda>sequence.
     rbind (rw_bounded max_frame_bytes) (\<lambda>ciphertext.
       rret \<lparr>me_call = call, me_from = from, me_to = to,
             me_frame = \<lparr>fr_sequence = sequence, fr_ciphertext = ciphertext\<rparr>\<rparr>)))))"

definition media_encode :: "media_envelope \<Rightarrow> bytes" where
  "media_encode m = enc_domain media_domain @ put_media m"

definition media_decode :: "crypto \<Rightarrow> bytes \<Rightarrow> realtime_wire_error + media_envelope" where
  "media_decode C b = decode_whole RwMalformed media_domain (get_media C) b"

definition media_ack_domain :: string where
  "media_ack_domain = ''intranet.wire.call-media-ack.v1''"

definition media_ack_encode :: bytes where
  "media_ack_encode = enc_domain media_ack_domain"

definition media_ack_decode :: "bytes \<Rightarrow> realtime_wire_error + unit" where
  "media_ack_decode b = decode_whole RwMalformed media_ack_domain (rret ()) b"

section \<open>The messages are codecs\<close>

interpretation rident: exact_codec "key_valid C" put_fixed32 "rw_get_identity C" for C
  unfolding rw_get_identity_def by (rule exact_key)

lemma exact_rw_bounded:
  assumes "limit < 2 ^ 64"
  shows "exact_codec (\<lambda>b. length b \<le> limit) put_bytes (rw_bounded limit)"
proof
  fix b r :: bytes
  assume "length b \<le> limit"
  then show "rw_bounded limit (put_bytes b @ r) = Inr (b, r)"
    using assms by (simp add: rw_bounded_def reader_simps len_ok_def)
qed (auto simp: rw_bounded_def rbind_eq_Inr put_bytes_def nonempty_simps dest!: exact_dests split: if_splits)

interpretation sealed: exact_codec "\<lambda>b. length b \<le> max_sealed_key_bytes" put_bytes "rw_bounded max_sealed_key_bytes"
  by (rule exact_rw_bounded) (simp add: max_sealed_key_bytes_def)

interpretation framed: exact_codec "\<lambda>b. length b \<le> max_frame_bytes" put_bytes "rw_bounded max_frame_bytes"
  by (rule exact_rw_bounded) (simp add: max_frame_bytes_def)

fun topology_ok :: "crypto \<Rightarrow> topology \<Rightarrow> bool" where
  "topology_ok C Mesh \<longleftrightarrow> True"
| "topology_ok C (Relayed relay) \<longleftrightarrow> key_valid C relay"

interpretation topo: exact_codec "topology_ok C" put_topology "get_topology C" for C
proof
  fix t r
  assume "topology_ok C t"
  then show "get_topology C (put_topology t @ r) = Inr (t, r)"
    by (cases t) (simp_all add: get_topology_def reader_simps rident.get_put)
  show "put_topology t \<noteq> []"
    by (cases t) (simp_all add: nonempty_simps)
qed (auto simp: get_topology_def rbind_eq_Inr dest!: exact_dests rident.get_exact split: if_splits)

interpretation trig: exact_codec "\<lambda>_. True" "\<lambda>t. put_u8 (trigger_tag t)" get_trigger
proof
  fix t r
  show "get_trigger (put_u8 (trigger_tag t) @ r) = Inr (t, r)"
    by (cases t) (simp_all add: get_trigger_def reader_simps)
qed (auto simp: get_trigger_def rbind_eq_Inr nonempty_simps dest!: exact_dests split: if_splits)

fun signal_body_ok :: "crypto \<Rightarrow> signal_body \<Rightarrow> bool" where
  "signal_body_ok C (SignalInvite env) \<longleftrightarrow>
     key_valid C (ck_sender env) \<and> key_valid C (ck_recipient env) \<and> length (ck_sealed_key env) \<le> max_sealed_key_bytes"
| "signal_body_ok C (SignalPropose _ p) \<longleftrightarrow> key_valid C (tp_proposer p) \<and> topology_ok C (tp_topology p)"
| "signal_body_ok C (SignalLeave _) \<longleftrightarrow> True"

interpretation sbody: exact_codec "signal_body_ok C" put_signal_body "get_signal_body C" for C
proof
  fix x r
  assume "signal_body_ok C x"
  then show "get_signal_body C (put_signal_body x @ r) = Inr (x, r)"
    by (cases x) (simp_all add: get_signal_body_def reader_simps rident.get_put sealed.get_put topo.get_put trig.get_put)
  show "put_signal_body x \<noteq> []"
    by (cases x) (simp_all add: nonempty_simps)
qed (auto simp: get_signal_body_def rbind_eq_Inr dest!: exact_dests rident.get_exact sealed.get_exact topo.get_exact
    trig.get_exact split: if_splits)

definition signal_ok :: "crypto \<Rightarrow> signal \<Rightarrow> bool" where
  "signal_ok C s \<longleftrightarrow> signal_body_ok C (sg_body s) \<and> key_valid C (sg_sender s)"

interpretation signal: exact_codec "signal_ok C" put_signal "get_signal C" for C
proof
  fix s :: signal and r
  assume "signal_ok C s"
  then show "get_signal C (put_signal s @ r) = Inr (s, r)"
    by (simp add: signal_ok_def get_signal_def put_signal_def reader_simps sbody.get_put rident.get_put)
qed (auto simp: signal_ok_def get_signal_def put_signal_def rbind_eq_Inr nonempty_simps
    dest!: exact_dests rident.get_exact sbody.get_exact)

fun recipient_ok :: "crypto \<Rightarrow> recipient \<Rightarrow> bool" where
  "recipient_ok C (One someone) \<longleftrightarrow> key_valid C someone"
| "recipient_ok C Participants \<longleftrightarrow> True"

interpretation recip: exact_codec "recipient_ok C" put_recipient "get_recipient C" for C
proof
  fix x r
  assume "recipient_ok C x"
  then show "get_recipient C (put_recipient x @ r) = Inr (x, r)"
    by (cases x) (simp_all add: get_recipient_def reader_simps rident.get_put)
  show "put_recipient x \<noteq> []"
    by (cases x) (simp_all add: nonempty_simps)
qed (auto simp: get_recipient_def rbind_eq_Inr dest!: exact_dests rident.get_exact split: if_splits)

definition media_ok :: "crypto \<Rightarrow> media_envelope \<Rightarrow> bool" where
  "media_ok C m \<longleftrightarrow>
     key_valid C (me_from m) \<and> recipient_ok C (me_to m) \<and> length (fr_ciphertext (me_frame m)) \<le> max_frame_bytes"

interpretation media: exact_codec "media_ok C" put_media "get_media C" for C
proof
  fix m :: media_envelope and r
  assume "media_ok C m"
  then show "get_media C (put_media m @ r) = Inr (m, r)"
    by (simp add: media_ok_def get_media_def put_media_def reader_simps recip.get_put rident.get_put framed.get_put)
qed (auto simp: media_ok_def get_media_def put_media_def rbind_eq_Inr nonempty_simps
    dest!: exact_dests rident.get_exact recip.get_exact framed.get_exact)

lemma realtime_domains_ok:
  "str_ok signal_domain" "str_ok media_domain" "str_ok signal_ack_domain" "str_ok media_ack_domain"
  by (simp_all add: signal_domain_def media_domain_def signal_ack_domain_def media_ack_domain_def str_ok_def str_bytes_def)

end
