(* ===== verification/Framing.thy ===== *)
theory Framing
  imports Protocol Realtime
begin

text \<open>
  How a message crosses a stream (sync.rs of \<open>intranet-transport\<close>): the sender writes its encoding and
  closes, the receiver reads at most as many bytes as its message type allows and decodes what it read.
  A message arrives if its decoder accepts it and it fits; one that is too long is cut, and a cut
  message is refused. The text of the I/O error is left out: a refusal is the error of the decoder.
\<close>

section \<open>Ceilings\<close>

definition default_max_message_bytes :: nat where
  "default_max_message_bytes = 8 * 1024 * 1024"

definition max_chunk_message_bytes :: nat where
  "max_chunk_message_bytes = max_chunk_bytes + 1024"

definition max_epoch_message_bytes :: nat where
  "max_epoch_message_bytes = max_welcome_bytes + max_history_keys * 128 + 1024"

definition max_media_message_bytes :: nat where
  "max_media_message_bytes = max_frame_bytes + 1024"

section \<open>Reading and writing\<close>

definition read_framed :: "nat \<Rightarrow> bytes \<Rightarrow> bytes" where
  "read_framed limit io = take limit io"

definition read_message :: "nat \<Rightarrow> (bytes \<Rightarrow> 'e + 'm) \<Rightarrow> bytes \<Rightarrow> 'e + 'm" where
  "read_message limit decode io = decode (read_framed limit io)"

definition write_message :: "('m \<Rightarrow> bytes) \<Rightarrow> 'm \<Rightarrow> bytes" where
  "write_message encode m = encode m"

text \<open>What the far end of a stream makes of a message.\<close>

definition carry :: "nat \<Rightarrow> ('m \<Rightarrow> bytes) \<Rightarrow> (bytes \<Rightarrow> 'e + 'm) \<Rightarrow> 'm \<Rightarrow> 'e + 'm" where
  "carry limit encode decode m = read_message limit decode (write_message encode m)"

text \<open>
  A request and its response: the request is carried to the peer, which answers what it read, and the
  answer is carried back. \<open>Unanswered\<close> stands for a handler that does not return.
\<close>

datatype ('e, 'f) call_failure = RequestUnread 'e | Unanswered | ResponseUnread 'f

definition call_peer ::
  "('q \<Rightarrow> 'e + 'q) \<Rightarrow> ('q \<Rightarrow> 'r option) \<Rightarrow> ('r \<Rightarrow> 'f + 'r) \<Rightarrow> 'q \<Rightarrow> ('e, 'f) call_failure + 'r" where
  "call_peer carry_request serve carry_response q =
     (case carry_request q of
        Inl e \<Rightarrow> Inl (RequestUnread e)
      | Inr q' \<Rightarrow>
          (case serve q' of
             None \<Rightarrow> Inl Unanswered
           | Some r \<Rightarrow>
               (case carry_response r of Inl f \<Rightarrow> Inl (ResponseUnread f) | Inr r' \<Rightarrow> Inr r')))"

lemma call_peer_ok:
  "carry_request q = Inr q \<Longrightarrow> serve q = Some r \<Longrightarrow> carry_response r = Inr r \<Longrightarrow>
     call_peer carry_request serve carry_response q = Inr r"
  by (simp add: call_peer_def)

section \<open>What a message type promises\<close>

locale wire_message =
  fixes limit :: nat
    and ok :: "'m \<Rightarrow> bool"
    and encode :: "'m \<Rightarrow> bytes"
    and decode :: "bytes \<Rightarrow> 'e + 'm"
  assumes decode_encode: "ok m \<Longrightarrow> decode (encode m) = Inr m"
begin

lemma arrives: "ok m \<Longrightarrow> length (encode m) \<le> limit \<Longrightarrow> carry limit encode decode m = Inr m"
  by (simp add: carry_def read_message_def read_framed_def write_message_def decode_encode)

end

text \<open>
  Where every message has one encoding and no encoding begins another, fitting is also necessary: a
  message that is cut is never taken for another.
\<close>

locale exact_wire_message = wire_message +
  assumes decode_exact: "decode b = Inr m \<Longrightarrow> ok m \<and> b = encode m"
    and prefix_free: "ok m \<Longrightarrow> ok m' \<Longrightarrow> encode m' = encode m @ r \<Longrightarrow> r = []"
begin

lemma arrives_iff:
  assumes "ok m"
  shows "carry limit encode decode m = Inr m' \<longleftrightarrow> m' = m \<and> length (encode m) \<le> limit"
proof
  assume "carry limit encode decode m = Inr m'"
  then have m': "ok m'" "take limit (encode m) = encode m'"
    using decode_exact by (auto simp: carry_def read_message_def read_framed_def write_message_def)
  then have "encode m = encode m' @ drop limit (encode m)"
    by (metis append_take_drop_id)
  then have "drop limit (encode m) = []"
    using prefix_free [OF m'(1) assms] by blast
  then have fits: "length (encode m) \<le> limit"
    by simp
  with arrives [OF assms] show "m' = m \<and> length (encode m) \<le> limit"
    using \<open>carry limit encode decode m = Inr m'\<close> by simp
qed (use arrives [OF assms] in auto)

end

section \<open>The message types\<close>

lemma verified_wire:
  assumes "exact_codec ok put get" and "str_ok tag"
  shows "exact_wire_message (\<lambda>m. ok m \<and> verify m = Inr ()) (\<lambda>m. enc_domain tag @ put m)
    (decode_verified from tag get verify)"
proof unfold_locales
  fix m m' r
  assume "ok m \<and> verify m = Inr ()" "ok m' \<and> verify m' = Inr ()"
    "enc_domain tag @ put m' = (enc_domain tag @ put m) @ r"
  then show "r = []"
    using codec.get_put [OF exact_codec.axioms(1) [OF assms(1)], of m r]
      codec.get_put [OF exact_codec.axioms(1) [OF assms(1)], of m' "[]"]
    by simp
qed (use verified_iff [OF assms] in auto)

lemma whole_verified: "decode_whole from tag get = decode_verified from tag get (\<lambda>_. Inr ())"
proof
  fix b
  show "decode_whole from tag get b = decode_verified from tag get (\<lambda>_. Inr ()) b"
    by (cases "decode_whole from tag get b") (simp_all add: decode_verified_def)
qed

lemma whole_wire:
  assumes "exact_codec ok put get" and "str_ok tag"
  shows "exact_wire_message ok (\<lambda>m. enc_domain tag @ put m) (decode_whole from tag get)"
  using verified_wire [OF assms, of "\<lambda>_. Inr ()"] by (simp add: whole_verified)

abbreviation epoch_request_sound :: "crypto \<Rightarrow> epoch_key_request \<Rightarrow> bool" where
  "epoch_request_sound C q \<equiv> epoch_request_ok C q \<and> kq_verify C q = Inr ()"

abbreviation pointer_request_sound :: "crypto \<Rightarrow> pointer_request \<Rightarrow> bool" where
  "pointer_request_sound C q \<equiv> pointer_request_ok C q \<and> pq_verify C q = Inr ()"

abbreviation chunk_request_sound :: "crypto \<Rightarrow> chunk_request \<Rightarrow> bool" where
  "chunk_request_sound C q \<equiv> key_valid C (cq_requester q) \<and> cq_verify C q = Inr ()"

interpretation sync_request_wire: exact_wire_message default_max_message_bytes sync_request_ok encode_request
  decode_request
  unfolding encode_request_def [abs_def] decode_request_def [abs_def]
  by (rule whole_wire [OF sreq.exact_codec_axioms domains_ok(1)])

interpretation sync_response_wire: wire_message default_max_message_bytes "sync_response_ok C" encode_response
  "decode_response C" for C
  by unfold_locales (rule sync_response_round)

interpretation epoch_request_wire: exact_wire_message default_max_message_bytes "epoch_request_sound C"
  encode_epoch_request "decode_epoch_request C" for C
  unfolding encode_epoch_request_def [abs_def] decode_epoch_request_def [abs_def]
  by (rule verified_wire [OF kreq.exact_codec_axioms epoch_domains_ok(1)])

interpretation epoch_response_wire: exact_wire_message max_epoch_message_bytes epoch_response_ok
  encode_epoch_response decode_epoch_response
  unfolding encode_epoch_response_def [abs_def] decode_epoch_response_def [abs_def]
  by (rule whole_wire [OF kresp.exact_codec_axioms epoch_domains_ok(2)])

interpretation pointer_request_wire: exact_wire_message default_max_message_bytes "pointer_request_sound C"
  encode_pointer_request "decode_pointer_request C" for C
  unfolding encode_pointer_request_def [abs_def] decode_pointer_request_def [abs_def]
  by (rule verified_wire [OF pointerq.exact_codec_axioms storage_domains_ok(6)])

interpretation pointer_response_wire: exact_wire_message default_max_message_bytes "pointer_response_ok C"
  encode_pointer_response "decode_pointer_response C" for C
  unfolding encode_pointer_response_def [abs_def] decode_pointer_response_def [abs_def]
  by (rule whole_wire [OF pointerr.exact_codec_axioms storage_domains_ok(7)])

interpretation chunk_request_wire: exact_wire_message default_max_message_bytes "chunk_request_sound C"
  encode_chunk_request "decode_chunk_request C" for C
  unfolding encode_chunk_request_def [abs_def] decode_chunk_request_def [abs_def]
  by (rule verified_wire [OF chunkq.exact_codec_axioms storage_domains_ok(1)])

interpretation chunk_response_wire: exact_wire_message max_chunk_message_bytes chunk_response_ok
  encode_chunk_response decode_chunk_response
  unfolding encode_chunk_response_def [abs_def] decode_chunk_response_def [abs_def]
  by (rule whole_wire [OF chunkr.exact_codec_axioms storage_domains_ok(2)])

end
