(* ===== verification/Publishing.thy ===== *)
theory Publishing
  imports Content_Node Merge Consensus Content Framing
begin

text \<open>
  What the node promises about published content: pointer records converge in whatever order they
  arrive, a synchronisation round brings a node up to date with a peer, delisted pointers are neither
  stored nor served, nothing is handed to a peer that does not hold \<open>ReadContent\<close> on the connection
  of the identity that asked. And three ways in which the code falls short: ownership of a pointer is
  not checked when a record is accepted, a digest is cut at the same place every time, and a record
  may collect more wrappings than its readers accept.
\<close>

section \<open>Records of one pointer are linearly ordered\<close>

definition record_bytes :: "mutable_pointer \<Rightarrow> bytes" where
  "record_bytes p = payload_of_mp p @ put_fixed64 (mp_signature p)"

lemma record_hash_eq: "record_hash C p = hash_bytes C (record_bytes p)"
  by (simp add: record_hash_def record_bytes_def)

lemma record_bytes_inj:
  assumes "str_ok (mp_content_type p)" and "str_ok (mp_content_type q)"
  shows "record_bytes p = record_bytes q \<longleftrightarrow> p = q"
proof
  assume "record_bytes p = record_bytes q"
  then show "p = q"
    using assms
    by (cases p; cases q) (simp add: record_bytes_def payload_of_mp_def mp_payload_def fixed32.put_inj
        str.put_inj str.put_cancel u64.put_inj fixed64.put_inj)
qed simp

lemma record_hash_inj:
  assumes "no_collision C (record_bytes ` R)" and "\<forall>p\<in>R. str_ok (mp_content_type p)"
  shows "inj_on (record_hash C) R"
  using assms by (auto simp: inj_on_def record_hash_eq no_collision_def record_bytes_inj hash_bytes_def)

lemma supersedes_trans:
  assumes "inj_on (record_hash C) R" and "a \<in> R" "b \<in> R" "c \<in> R"
    and "supersedes C a b" and "supersedes C b c"
  shows "supersedes C a c"
proof -
  have "a \<noteq> c"
    using assms inj_onD [OF assms(1), of a b] by (auto simp: supersedes_def prefers_first_def)
  then show ?thesis
    using assms(5,6) by (auto simp: supersedes_def prefers_first_def)
qed

lemma supersedes_total: "a \<noteq> b \<Longrightarrow> supersedes C a b \<or> supersedes C b a"
  by (auto simp: supersedes_def prefers_first_def)

text \<open>What accepting a record does to the pointers the node holds.\<close>

definition keep_pointer ::
  "crypto \<Rightarrow> (mutable_pointer \<Rightarrow> bool) \<Rightarrow> mutable_pointer \<Rightarrow> (b32, mutable_pointer) btree_map \<Rightarrow>
     (b32, mutable_pointer) btree_map" where
  "keep_pointer C publishable p m =
     (if publishable p \<and> (\<forall>c. bm_get m (mp_pointer_id p) = Some c \<longrightarrow> supersedes C p c)
      then bm_insert (mp_pointer_id p) p m else m)"

definition collision_free :: "crypto \<Rightarrow> mutable_pointer set \<Rightarrow> mutable_pointer set" where
  "collision_free C R = (if inj_on (record_hash C) R then R else {})"

interpretation ptr: best_record mp_pointer_id "collision_free C R" publishable "supersedes C"
  "keep_pointer C publishable" for C R publishable
proof
  fix a b c
  assume "a \<in> collision_free C R" "b \<in> collision_free C R" "c \<in> collision_free C R"
    "supersedes C a b" "supersedes C b c"
  then show "supersedes C a c"
    using supersedes_trans [of C R a b c] by (auto simp: collision_free_def split: if_splits)
qed (use supersedes_total in \<open>auto simp: keep_pointer_def supersedes_def\<close>)

lemma accept_pointer_keeps:
  "fst (accept_pointer C N p) =
     N\<lparr>cn_pointers := keep_pointer C (pointer_is_publishable C N) p (cn_pointers N)\<rparr>"
  by (auto simp: accept_pointer_def keep_pointer_def split: option.splits)

lemma publishable_log:
  "cn_log N = cn_log M \<Longrightarrow> pointer_is_publishable C N = pointer_is_publishable C M"
  by (auto simp: pointer_is_publishable_def content_state_def fun_eq_iff split: sum.splits option.splits)

abbreviation accept_all :: "crypto \<Rightarrow> mutable_pointer list \<Rightarrow> 'p content_node \<Rightarrow> 'p content_node" where
  "accept_all C ps N \<equiv> fold (\<lambda>p N. fst (accept_pointer C N p)) ps N"

lemma accept_all_keeps:
  "accept_all C ps N =
     N\<lparr>cn_pointers := fold (keep_pointer C (pointer_is_publishable C N)) ps (cn_pointers N)\<rparr>"
proof (induction ps arbitrary: N)
  case (Cons p ps)
  have "pointer_is_publishable C (fst (accept_pointer C N p)) = pointer_is_publishable C N"
    by (rule publishable_log) (simp add: accept_pointer_keeps)
  then show ?case
    using Cons by (simp add: accept_pointer_keeps)
qed simp

text \<open>Every record a node holds is filed under its own identifier.\<close>

definition pointers_ok :: "'p content_node \<Rightarrow> bool" where
  "pointers_ok N \<longleftrightarrow>
     bm_ok (cn_pointers N) \<and> (\<forall>i p. bm_get (cn_pointers N) i = Some p \<longrightarrow> mp_pointer_id p = i)"

definition held_records :: "'p content_node \<Rightarrow> mutable_pointer set" where
  "held_records N = {p. \<exists>i. bm_get (cn_pointers N) i = Some p}"

section \<open>A network with a publisher\<close>

text \<open>Everybody may read and publish text; member 2 was admitted and pointer 99 was delisted.\<close>

definition press_root :: log_entry where
  "press_root = entry_create demo (who 1) None 0 (Genesis 7 conservative_default [ReadContent, Publish ''text''])"

definition press_add :: log_entry where
  "press_add = entry_create demo (who 1) (Some (entry_hash demo press_root)) 10
     (MembershipChange everyone_id 2 (Add None))"

definition press_delist :: log_entry where
  "press_delist = entry_create demo (who 1) (Some (entry_hash demo press_add)) 20 (Moderation \<lparr>me_action = Delist, me_target = 99\<rparr>)"

lemma press_hashes:
  "entry_hash demo press_root = 370" "entry_hash demo press_add = 273" "entry_hash demo press_delist = 256"
  by (simp_all add: press_root_def press_add_def press_delist_def demo_entry_hash put_seq_def put_policy_def
      conservative_default_def starter_content_types_def bs_collect_def everyone_id_def)

definition press_log :: governance_log where
  "press_log =
     \<lparr>gl_entries = [(256, press_delist), (273, press_add), (370, press_root)],
      gl_children = [(273, [256]), (370, [273])], gl_root = Some 370, gl_finalized = None\<rparr>"

lemma press_fields:
  "le_parent press_root = None" "le_parent press_add = Some 370" "le_parent press_delist = Some 273"
  "entry_verify_signature demo press_root = Inr ()" "entry_verify_signature demo press_add = Inr ()"
  "entry_verify_signature demo press_delist = Inr ()" "is_genesis (le_body press_root)"
  "is_capability_gated press_add" "is_capability_gated press_delist"
  using press_hashes by (simp_all add: press_root_def press_add_def press_delist_def is_capability_gated_def)

lemma press_inserted: "insert_all demo empty_log [press_root, press_add, press_delist] = Inr press_log"
  by (simp add: empty_log_def log_insert_def press_fields press_hashes bm_contains_def add_child_def Let_def
      press_log_def)

lemma press_canonical: "canonical_chain press_log = Some [370, 273, 256]"
  by (simp add: canonical_chain_def press_log_def ancestry_def log_fuel_def parent_of_def press_fields
      best_branch_below_def pick_def better_def branch_candidate_def gated_at_def)

lemma starter_text: "''text'' \<in> set starter_content_types"
  by (simp add: starter_content_types_def)

definition press_state :: governance_state where
  "press_state = the (node_state demo press_log)"

lemma press_facts [simp]:
  "node_state demo press_log = Some press_state" "gs_delisted press_state = [99]"
  "policy_allows_content_type (gs_policy press_state) t \<longleftrightarrow> t \<in> set starter_content_types"
  "is_member press_state k \<longleftrightarrow> k = 1 \<or> k = 2"
  "identity_holds press_state k c \<longleftrightarrow> k = 1 \<or> k = 2 \<and> (c = ReadContent \<or> c = Publish ''text'')"
proof -
  have "\<exists>st. replay demo [press_root, press_add, press_delist] = Inr st \<and> gs_delisted st = [99]
      \<and> (\<forall>t. policy_allows_content_type (gs_policy st) t \<longleftrightarrow> t \<in> set starter_content_types)
      \<and> (\<forall>k. is_member st k \<longleftrightarrow> k = 1 \<or> k = 2)
      \<and> (\<forall>k c. identity_holds st k c \<longleftrightarrow> k = 1 \<or> k = 2 \<and> (c = ReadContent \<or> c = Publish ''text''))"
    by (simp add: press_root_def press_add_def press_delist_def sample_defs policy_allows_content_type_def
        starter_content_types_def bs_collect_def)
  moreover have "node_state demo press_log =
      (case replay demo [press_root, press_add, press_delist] of Inr st \<Rightarrow> Some st | Inl _ \<Rightarrow> None)"
    using press_canonical by (auto simp: node_state_def replay_canonical_def press_log_def split: sum.splits)
  ultimately show "node_state demo press_log = Some press_state" "gs_delisted press_state = [99]"
    "policy_allows_content_type (gs_policy press_state) t \<longleftrightarrow> t \<in> set starter_content_types"
    "is_member press_state k \<longleftrightarrow> k = 1 \<or> k = 2"
    "identity_holds press_state k c \<longleftrightarrow> k = 1 \<or> k = 2 \<and> (c = ReadContent \<or> c = Publish ''text'')"
    by (auto simp: press_state_def)
qed

section \<open>Convergence\<close>

text \<open>
  Pointer records converge: two nodes that hold the same records and the same governance log, and
  receive the same pointer records in any order and with any repetition, end with the same records.
  Forged, unauthorized and delisted records may be among them. The only assumption is that the hash
  has no collision among the records in play.
\<close>

theorem pointers_converge:
  assumes "pointers_ok N" and "set qs = set ps"
    and "no_collision C (record_bytes ` (held_records N \<union> set ps))"
    and "\<forall>p\<in>held_records N \<union> set ps. str_ok (mp_content_type p)"
  shows "cn_pointers (accept_all C ps N) = cn_pointers (accept_all C qs N)"
proof -
  let ?R = "held_records N \<union> set ps"
  have R: "collision_free C ?R = ?R"
    using record_hash_inj [OF assms(3,4)] by (simp add: collision_free_def)
  have "fold (keep_pointer C (pointer_is_publishable C N)) ps (cn_pointers N) =
    fold (keep_pointer C (pointer_is_publishable C N)) qs (cn_pointers N)"
  proof (rule ptr.order_irrelevant [where R = ?R])
    show "\<forall>k c. bm_get (cn_pointers N) k = Some c \<longrightarrow> mp_pointer_id c = k \<and> c \<in> collision_free C ?R"
      using assms(1) unfolding R by (auto simp: pointers_ok_def held_records_def)
  qed (use assms(1,2) R in \<open>auto simp: pointers_ok_def\<close>)
  then show ?thesis
    by (simp add: accept_all_keeps)
qed

definition press_node :: "b32 content_node" where
  "press_node =
     \<lparr>cn_log = press_log, cn_identity = who 2, cn_ledger = ledger_new 7, cn_tiers = [], cn_discovery = True,
      cn_announced = [], cn_chunks = [], cn_observations = observations_new, cn_inflight = [],
      cn_provider_queries = [], cn_fetch = None, cn_fetch_requests = [], cn_overrun_objects = [],
      cn_collections = [], cn_collection_queries = [], cn_collection_requests = [], cn_pointers = [],
      cn_wrappings = [], cn_pointer_digests = [], cn_pointer_fetches = [], cn_pending = [], cn_sent = 0,
      cn_queries = 0\<rparr>"

definition text_record :: "b32 \<Rightarrow> b32 \<Rightarrow> u64 \<Rightarrow> mutable_pointer" where
  "text_record owner i v = mp_sign demo (who owner) i ''text'' 11 12 v"

definition image_record :: "b32 \<Rightarrow> b32 \<Rightarrow> u64 \<Rightarrow> mutable_pointer" where
  "image_record owner i v = mp_sign demo (who owner) i ''image'' 13 14 v"

lemma record_simps [simp]:
  "mp_pointer_id (text_record k i v) = i" "mp_version (text_record k i v) = v"
  "mp_owner (text_record k i v) = k" "mp_content_type (text_record k i v) = ''text''"
  "mp_verify demo (text_record k i v) = Inr ()" "record_hash demo (text_record k i v) = 247"
  "mp_pointer_id (image_record k i v) = i" "mp_version (image_record k i v) = v"
  "mp_owner (image_record k i v) = k" "mp_content_type (image_record k i v) = ''image''"
  "mp_verify demo (image_record k i v) = Inr ()" "record_hash demo (image_record k i v) = 248"
  by (simp_all add: text_record_def image_record_def mp_sign_def mp_verify_def vk_verify_def record_hash_def
      hash_bytes_def payload_of_mp_def mp_payload_def)

theorem pointers_converge_witness:
  "cn_pointers (accept_all demo [text_record 2 5 0, image_record 1 5 0] press_node) =
   cn_pointers (accept_all demo [image_record 1 5 0, text_record 2 5 0, image_record 1 5 0] press_node)"
proof (rule pointers_converge)
  show "no_collision demo (record_bytes ` (held_records press_node \<union> set [text_record 2 5 0, image_record 1 5 0]))"
    using record_simps(6) [of 2 5 0] record_simps(12) [of 1 5 0]
    by (auto simp: no_collision_def inj_on_def held_records_def press_node_def record_hash_eq hash_bytes_def)
  show "\<forall>p\<in>held_records press_node \<union> set [text_record 2 5 0, image_record 1 5 0]. str_ok (mp_content_type p)"
    by (simp add: held_records_def press_node_def str_ok_def str_bytes_def)
qed (auto simp: pointers_ok_def press_node_def)

section \<open>The store of records refines a grow-only set\<close>

text \<open>
  The abstract store never forgets: it is the set of every record that was publishable when it was
  offered. The newest record of a pointer has the greatest version number among the records of that
  pointer, and the least hash among those with that version. A node implements the store when it holds
  exactly the newest record of every pointer in the set.
\<close>

definition newest :: "crypto \<Rightarrow> mutable_pointer set \<Rightarrow> mutable_pointer \<Rightarrow> bool" where
  "newest C G p \<longleftrightarrow>
     p \<in> G \<and> (\<forall>q\<in>G. mp_pointer_id q = mp_pointer_id p \<longrightarrow>
       mp_version q \<le> mp_version p \<and> (mp_version q = mp_version p \<longrightarrow> record_hash C p \<le> record_hash C q))"

text \<open>The order of versions and hashes is the order by which the code replaces records.\<close>

lemma newest_supersedes:
  "newest C G p \<longleftrightarrow>
     p \<in> G \<and> (\<forall>q\<in>G. mp_pointer_id q = mp_pointer_id p \<and> q \<noteq> p \<longrightarrow> supersedes C p q)"
  by (auto simp: newest_def supersedes_def prefers_first_def order.strict_iff_order)

definition implements :: "crypto \<Rightarrow> 'p content_node \<Rightarrow> mutable_pointer set \<Rightarrow> bool" where
  "implements C N G \<longleftrightarrow>
     bm_ok (cn_pointers N)
     \<and> (\<forall>i p. bm_get (cn_pointers N) i = Some p \<longrightarrow> mp_pointer_id p = i \<and> newest C G p)
     \<and> (\<forall>q\<in>G. bm_get (cn_pointers N) (mp_pointer_id q) \<noteq> None)"

lemma newest_offer:
  assumes "inj_on (record_hash C) (insert p G)" and "newest C G c" and "mp_pointer_id c = mp_pointer_id p"
  shows "newest C (insert p G) (if supersedes C p c then p else c)"
proof (cases "supersedes C p c")
  case True
  have "supersedes C p q" if "q \<in> G" "mp_pointer_id q = mp_pointer_id p" for q
    using supersedes_trans [OF assms(1), of p c q] True that assms(2,3) by (cases "q = c") (auto simp: newest_supersedes)
  then show ?thesis
    using True by (auto simp: newest_supersedes)
next
  case False
  then show ?thesis
    using supersedes_total [of c p C] assms(2,3) by (auto simp: newest_supersedes)
qed

lemma newest_elsewhere:
  "newest C G c \<Longrightarrow> mp_pointer_id c \<noteq> mp_pointer_id p \<Longrightarrow> newest C (insert p G) c"
  by (auto simp: newest_supersedes)

lemma newest_unique:
  assumes "inj_on (record_hash C) G" and "newest C G p" and "newest C G q" and "mp_pointer_id p = mp_pointer_id q"
  shows "p = q"
proof (rule ccontr)
  assume "p \<noteq> q"
  then have "supersedes C p q" "supersedes C q p" "p \<in> G"  "q \<in> G"
    using assms(2-4) by (auto simp: newest_supersedes)
  then have "supersedes C p p"
    using supersedes_trans [OF assms(1)] by blast
  then show False
    by (simp add: supersedes_def)
qed

lemma offer_implements:
  assumes "implements C N G" and "inj_on (record_hash C) (insert p G)"
  shows "implements C (N\<lparr>cn_pointers := keep_pointer C (\<lambda>_. True) p (cn_pointers N)\<rparr>) (insert p G)"
proof -
  have held: "mp_pointer_id c = i \<and> newest C G c" if "bm_get (cn_pointers N) i = Some c" for i c
    using assms(1) that by (simp add: implements_def)
  have "mp_pointer_id c = i \<and> newest C (insert p G) c"
    if "bm_get (keep_pointer C (\<lambda>_. True) p (cn_pointers N)) i = Some c" for i c
  proof (cases "i = mp_pointer_id p")
    case False
    then have "bm_get (cn_pointers N) i = Some c"
      using that by (auto simp: keep_pointer_def split: if_splits)
    then show ?thesis
      using held False newest_elsewhere by metis
  next
    case True
    show ?thesis
    proof (cases "bm_get (cn_pointers N) i")
      case None
      then have "c = p" "\<forall>q\<in>G. mp_pointer_id q \<noteq> i"
        using that True assms(1) by (auto simp: keep_pointer_def implements_def)
      then show ?thesis
        using True by (auto simp: newest_supersedes)
    next
      case (Some d)
      then have "c = (if supersedes C p d then p else d)"
        using that True by (auto simp: keep_pointer_def split: if_splits)
      then show ?thesis
        using newest_offer [OF assms(2)] held [OF Some] True by auto
    qed
  qed
  moreover have "bm_get (keep_pointer C (\<lambda>_. True) p (cn_pointers N)) (mp_pointer_id q) \<noteq> None"
    if "q \<in> insert p G" for q
    using that assms(1) by (auto simp: keep_pointer_def implements_def)
  moreover have "bm_ok (keep_pointer C (\<lambda>_. True) p (cn_pointers N))"
    using assms(1) by (simp add: keep_pointer_def implements_def)
  ultimately show ?thesis
    unfolding implements_def by (intro conjI allI ballI impI) simp_all
qed

text \<open>
  C11. The store of pointer records is an implementation of a set that only grows: offering a record
  adds it to the set if it is publishable and leaves the set alone otherwise, the node goes on holding
  exactly the newest record of every pointer in the set, and it reports the record as accepted exactly
  when it is publishable and has become the newest. Newest means the greatest version number, and among
  equal versions the least record hash. The hash is assumed to have no collision among the records.
\<close>

theorem pointer_store_refines:
  assumes "implements C N G" and "no_collision C (record_bytes ` insert p G)"
    and "\<forall>q\<in>insert p G. str_ok (mp_content_type q)" and "accept_pointer C N p = (N', accepted)"
  shows "implements C N' (if pointer_is_publishable C N p then insert p G else G)
    \<and> (accepted \<longleftrightarrow> pointer_is_publishable C N p \<and> newest C (insert p G) p \<and> \<not> newest C G p)"
proof (rule conjI)
  have inj: "inj_on (record_hash C) (insert p G)"
    by (rule record_hash_inj [OF assms(2,3)])
  have N': "N' = fst (accept_pointer C N p)"
    using assms(4) by simp
  show "implements C N' (if pointer_is_publishable C N p then insert p G else G)"
    using offer_implements [OF assms(1) inj] assms(1)
    by (auto simp: N' accept_pointer_keeps keep_pointer_def)
  show "accepted \<longleftrightarrow> pointer_is_publishable C N p \<and> newest C (insert p G) p \<and> \<not> newest C G p"
  proof (cases "bm_get (cn_pointers N) (mp_pointer_id p)")
    case None
    then have "newest C (insert p G) p \<and> \<not> newest C G p"
      using assms(1) by (auto simp: implements_def newest_supersedes)
    then show ?thesis
      using None assms(4) by (auto simp: accept_pointer_def split: if_splits)
  next
    case (Some c)
    then have c: "newest C G c" "mp_pointer_id c = mp_pointer_id p"
      using assms(1) by (auto simp: implements_def)
    have "newest C G p \<longleftrightarrow> p = c"
      using newest_unique [of C G p c] inj_on_subset [OF inj, of G] c by auto
    moreover have "newest C (insert p G) p \<longleftrightarrow> p = c \<or> supersedes C p c"
    proof
      assume "newest C (insert p G) p"
      then show "p = c \<or> supersedes C p c"
        using c by (auto simp: newest_supersedes)
    next
      assume "p = c \<or> supersedes C p c"
      then show "newest C (insert p G) p"
        using newest_offer [OF inj c] by (cases "supersedes C p c") auto
    qed
    ultimately have "supersedes C p c \<longleftrightarrow> newest C (insert p G) p \<and> \<not> newest C G p"
      by (auto simp: supersedes_def)
    then show ?thesis
      using Some assms(4) by (auto simp: accept_pointer_def split: if_splits)
  qed
qed

theorem pointer_store_refines_witness:
  "let N = press_node\<lparr>cn_pointers := [(5, text_record 2 5 0)]\<rparr>; p = image_record 1 5 1 in
   implements demo (fst (accept_pointer demo N p)) {p, text_record 2 5 0} \<and> snd (accept_pointer demo N p)"
proof -
  let ?N = "press_node\<lparr>cn_pointers := [(5, text_record 2 5 0)]\<rparr>" and ?p = "image_record 1 5 1"
  have "implements demo ?N {text_record 2 5 0}"
    by (simp add: implements_def newest_def)
  moreover have "pointer_is_publishable demo ?N ?p"
    by (simp add: pointer_is_publishable_def content_state_def press_node_def starter_content_types_def)
  moreover have "no_collision demo (record_bytes ` insert ?p {text_record 2 5 0})"
    using record_simps(6) [of 2 5 0] record_simps(12) [of 1 5 1]
    by (auto simp: no_collision_def inj_on_def record_hash_eq hash_bytes_def)
  moreover have "newest demo {?p, text_record 2 5 0} ?p" "\<not> newest demo {text_record 2 5 0} ?p"
    by (auto simp: newest_def dest: arg_cong [where f = mp_version])
  ultimately show ?thesis
    using pointer_store_refines [of demo ?N "{text_record 2 5 0}" ?p]
    by (cases "accept_pointer demo ?N ?p") (simp add: str_ok_def str_bytes_def)
qed

section \<open>Ownership is not checked\<close>

text \<open>
  A pointer can be taken over: a member who may publish some content type replaces anybody's
  pointer by a record of that type that they signed themselves, since accepting a record never
  compares its owner with the owner of the record held. With the largest version the take-over is
  final: no record with a smaller version, the owner's updates among them, is accepted again.
\<close>

theorem pointer_hijack:
  assumes "sign_correct C" and "content_state C N = Some st"
    and "identity_holds st (pni_id C thief) (Publish t)" and "policy_allows_content_type (gs_policy st) t"
    and "bm_get (cn_pointers N) i = Some p" and "mp_version p < - 1" and "i \<notin> set (gs_delisted st)"
  shows "\<exists>N' q. accept_pointer C N q = (N', True)
    \<and> mp_pointer_id q = i \<and> mp_owner q = pni_id C thief \<and> mp_current_cid q = cid
    \<and> bm_get (cn_pointers N') i = Some q
    \<and> (\<forall>r. mp_pointer_id r = i \<and> mp_version r < - 1 \<longrightarrow> accept_pointer C N' r = (N', False))"
proof -
  define q where "q = mp_sign C thief i t cid com (- 1)"
  have q: "mp_pointer_id q = i" "mp_owner q = pni_id C thief" "mp_content_type q = t" "mp_current_cid q = cid"
      "mp_version q = - 1"
    by (simp_all add: q_def mp_sign_def)
  have "mp_verify C q = Inr ()"
    using assms(1) by (simp add: q_def mp_verify_def mp_sign_def payload_of_mp_def pni_id_def pni_sign_def sign_verifies)
  then have "pointer_is_publishable C N q"
    using assms q by (simp add: pointer_is_publishable_def)
  moreover have "supersedes C q p"
    using assms(6) q by (auto simp: supersedes_def prefers_first_def)
  ultimately have "accept_pointer C N q = (N\<lparr>cn_pointers := bm_insert i q (cn_pointers N)\<rparr>, True)"
    using assms(5) q(1) by (simp add: accept_pointer_def)
  moreover have "\<not> supersedes C r q" if "mp_version r < - 1" for r
    using that q(5) by (auto simp: supersedes_def prefers_first_def)
  ultimately show ?thesis
    using q by (intro exI [of _ "N\<lparr>cn_pointers := bm_insert i q (cn_pointers N)\<rparr>"] exI [of _ q])
      (auto simp: accept_pointer_def)
qed

theorem pointer_hijack_witness:
  "\<exists>N' q. accept_pointer demo (press_node\<lparr>cn_pointers := [(5, image_record 1 5 3)]\<rparr>) q = (N', True)
    \<and> mp_pointer_id q = 5 \<and> mp_owner q = pni_id demo (who 2) \<and> mp_current_cid q = 66
    \<and> bm_get (cn_pointers N') 5 = Some q
    \<and> (\<forall>r. mp_pointer_id r = 5 \<and> mp_version r < - 1 \<longrightarrow> accept_pointer demo N' r = (N', False))"
  by (intro pointer_hijack [where st = press_state and p = "image_record 1 5 3" and t = "''text''"])
    (simp_all add: demo_sign_correct content_state_def press_node_def starter_text)

section \<open>Delisted pointers\<close>

text \<open>
  Delisting takes effect at every node that knows of it: a node whose replayed state lists a
  pointer as delisted accepts no record of it, names it in no digest and sends no record of it,
  whoever asks, even if it held the record before.
\<close>

theorem delisted_hidden:
  assumes "pointers_ok N" and "content_state C N = Some st" and "i \<in> set (gs_delisted st)"
  shows "(mp_pointer_id p = i \<longrightarrow> accept_pointer C N p = (N, False))
    \<and> (serve_pointers C N q = PointerDigest entries truncated \<longrightarrow> i \<notin> pd_pointer_id ` set entries)
    \<and> (serve_pointers C N q = PointerRecords records truncated \<longrightarrow>
      i \<notin> (\<lambda>r. mp_pointer_id (pr_pointer r)) ` set records)"
proof (intro conjI)
  show "mp_pointer_id p = i \<longrightarrow> accept_pointer C N p = (N, False)"
    using assms(2,3) by (auto simp: accept_pointer_def pointer_is_publishable_def split: sum.splits)
  show "serve_pointers C N q = PointerDigest entries truncated \<longrightarrow> i \<notin> pd_pointer_id ` set entries"
    using assms(2,3)
    by (auto simp: serve_pointers_def digest_of_def Let_def split: sum.splits pointer_request.splits
        dest!: in_set_takeD)
  show "serve_pointers C N q = PointerRecords records truncated \<longrightarrow>
      i \<notin> (\<lambda>r. mp_pointer_id (pr_pointer r)) ` set records"
    using assms
    by (auto simp: serve_pointers_def Let_def pointers_ok_def map_filter_def split: sum.splits pointer_request.splits
        dest!: in_set_takeD)
qed

section \<open>The serving gate\<close>

text \<open>
  The contract of a handler that serves content: what is not a refusal goes to the connection of the
  requester, who holds \<open>ReadContent\<close> in the responder's state; and a refusal says nothing about what
  the responder holds.
\<close>

locale read_gate =
  fixes requester :: "'q \<Rightarrow> b32"
    and refused :: "'r \<Rightarrow> bool"
    and answer :: "crypto \<Rightarrow> 'p swarm \<Rightarrow> 'p content_node \<Rightarrow> 'p \<Rightarrow> 'q \<Rightarrow> 'r"
  assumes gate: "\<not> refused (answer C W N peer q) \<Longrightarrow>
      sw_peer_id W (requester q) = peer
      \<and> (\<exists>st. content_state C N = Some st \<and> may_serve (requester q) st = Inr ())"
    and blind: "refused (answer C W N peer q) \<Longrightarrow> cn_log M = cn_log N \<Longrightarrow>
      answer C W M peer q = answer C W N peer q"
begin

lemma reader:
  "swarm_ok W \<Longrightarrow> \<not> refused (answer C W N peer q) \<Longrightarrow>
     \<exists>st. content_state C N = Some st \<and> identity_holds st (requester q) ReadContent
       \<and> sw_from_peer_id W peer = Some (requester q)"
  using gate [of C W N peer q] by (auto simp: swarm_ok_def may_serve_def split: if_splits)

text \<open>A refusal is the same whatever the node stores.\<close>

lemma indistinguishable:
  "cn_log M = cn_log N \<Longrightarrow>
     refused (answer C W N peer q) \<longleftrightarrow> refused (answer C W M peer q)"
  using blind by metis

end

fun chunk_refused :: "chunk_response \<Rightarrow> bool" where
  "chunk_refused (ChunkRefused _) = True"
| "chunk_refused _ = False"

fun collection_refused :: "collection_response \<Rightarrow> bool" where
  "collection_refused (CollectionRefused _) = True"
| "collection_refused _ = False"

fun pointer_refused :: "pointer_response \<Rightarrow> bool" where
  "pointer_refused (PointerRefused _) = True"
| "pointer_refused _ = False"

interpretation chunk_gate: read_gate cq_requester chunk_refused answer_chunk_request
  by unfold_locales
    (auto simp: answer_chunk_request_def serve_chunk_def content_state_def split: option.splits sum.splits if_splits)

interpretation collection_gate: read_gate lq_requester collection_refused answer_collection_request
  by unfold_locales
    (auto simp: answer_collection_request_def serve_collection_def content_state_def Let_def
      split: option.splits sum.splits if_splits)

interpretation pointer_gate: read_gate pq_requester pointer_refused answer_pointer_request
  by unfold_locales
    (auto simp: answer_pointer_request_def serve_pointers_def content_state_def Let_def
      split: option.splits sum.splits if_splits pointer_request.splits)

text \<open>
  C21. Content is served to readers only: a chunk, a statement that a chunk is not held, the entries of
  a collection, a digest or a pointer record leave a node only on the connection of the identity that
  signed the request, and only if that identity holds \<open>ReadContent\<close> in the node's own state; and
  whether a request is refused does not depend on what the node stores.
\<close>

theorem reads_gated:
  assumes "swarm_ok W" and "cn_log M = cn_log N"
    and "k = cq_requester cq \<and> \<not> chunk_refused (answer_chunk_request C W N peer cq)
      \<or> k = lq_requester lq \<and> \<not> collection_refused (answer_collection_request C W N peer lq)
      \<or> k = pq_requester pq \<and> \<not> pointer_refused (answer_pointer_request C W N peer pq)"
  shows "(\<exists>st. content_state C N = Some st \<and> identity_holds st k ReadContent \<and> sw_from_peer_id W peer = Some k)
    \<and> (chunk_refused (answer_chunk_request C W M peer cq) \<longleftrightarrow> chunk_refused (answer_chunk_request C W N peer cq))
    \<and> (collection_refused (answer_collection_request C W M peer lq) \<longleftrightarrow>
      collection_refused (answer_collection_request C W N peer lq))
    \<and> (pointer_refused (answer_pointer_request C W M peer pq) \<longleftrightarrow>
      pointer_refused (answer_pointer_request C W N peer pq))"
proof (intro conjI)
  show "\<exists>st. content_state C N = Some st \<and> identity_holds st k ReadContent \<and> sw_from_peer_id W peer = Some k"
    using assms(3)
  proof (elim disjE conjE)
    assume "k = cq_requester cq" "\<not> chunk_refused (answer_chunk_request C W N peer cq)"
    then show ?thesis
      using chunk_gate.reader [OF assms(1)] by simp
  next
    assume "k = lq_requester lq" "\<not> collection_refused (answer_collection_request C W N peer lq)"
    then show ?thesis
      using collection_gate.reader [OF assms(1)] by simp
  next
    assume "k = pq_requester pq" "\<not> pointer_refused (answer_pointer_request C W N peer pq)"
    then show ?thesis
      using pointer_gate.reader [OF assms(1)] by simp
  qed
qed (rule chunk_gate.indistinguishable collection_gate.indistinguishable pointer_gate.indistinguishable,
    simp add: assms(2))+

definition press_swarm :: "b32 swarm" where
  "press_swarm = \<lparr>sw_peer_id = \<lambda>i. i, sw_from_peer_id = Some, sw_request_id = \<lambda>n. n, sw_query_id = \<lambda>n. n\<rparr>"

lemma press_swarm_simps [simp]:
  "swarm_ok press_swarm" "sw_peer_id press_swarm i = i" "sw_from_peer_id press_swarm i = Some i"
  "sw_request_id press_swarm n = n" "sw_query_id press_swarm n = n"
  by (simp_all add: swarm_ok_def press_swarm_def)

lemma press_content_state [simp]: "cn_log N = press_log \<Longrightarrow> content_state demo N = Some press_state"
  by (simp add: content_state_def)

lemma press_node_simps [simp]:
  "cn_log press_node = press_log" "cn_identity press_node = who 2" "cn_chunks press_node = []"
  "cn_pointers press_node = []" "cn_wrappings press_node = []" "cn_fetch press_node = None"
  "cn_sent press_node = 0" "cn_pointer_digests press_node = []" "cn_pointer_fetches press_node = []"
  by (simp_all add: press_node_def)

theorem reads_gated_witness:
  "\<exists>st. content_state demo press_node = Some st \<and> identity_holds st 2 ReadContent
     \<and> sw_from_peer_id press_swarm 2 = Some 2"
proof (rule reads_gated [where M = press_node, THEN conjunct1])
  show "2 = cq_requester (cq_create demo (who 2) 44)
      \<and> \<not> chunk_refused (answer_chunk_request demo press_swarm press_node 2 (cq_create demo (who 2) 44))
    \<or> 2 = lq_requester (lq_create demo (who 2) 44)
      \<and> \<not> collection_refused (answer_collection_request demo press_swarm press_node 2 (lq_create demo (who 2) 44))
    \<or> 2 = pq_requester (pq_digest demo (who 2))
      \<and> \<not> pointer_refused (answer_pointer_request demo press_swarm press_node 2 (pq_digest demo (who 2)))"
    by (simp add: cq_create_def answer_chunk_request_def serve_chunk_def may_serve_def)
qed simp_all

theorem delisted_hidden_witness:
  "accept_pointer demo (press_node\<lparr>cn_pointers := [(99, text_record 2 99 0)]\<rparr>) (text_record 2 99 1) =
     (press_node\<lparr>cn_pointers := [(99, text_record 2 99 0)]\<rparr>, False)"
  by (rule delisted_hidden [where i = 99 and st = press_state, THEN conjunct1, rule_format])
    (simp_all add: pointers_ok_def)

section \<open>A synchronisation round\<close>

text \<open>
  One round of \<open>N\<close> with the peer \<open>M\<close>: the digest, and the records when the digest names something
  worth fetching. Every request and every response is encoded, cut at the ceiling of its type and
  decoded; a message that is not read ends the round with the reason.
\<close>

type_synonym pointer_failure = "(storage_wire_error, storage_wire_error) call_failure"

definition carry_pointer_request :: "crypto \<Rightarrow> pointer_request \<Rightarrow> storage_wire_error + pointer_request" where
  "carry_pointer_request C = carry default_max_message_bytes encode_pointer_request (decode_pointer_request C)"

definition carry_pointer_response :: "crypto \<Rightarrow> pointer_response \<Rightarrow> storage_wire_error + pointer_response" where
  "carry_pointer_response C = carry default_max_message_bytes encode_pointer_response (decode_pointer_response C)"

definition pointer_call ::
  "crypto \<Rightarrow> 'p swarm \<Rightarrow> 'p \<Rightarrow> 'p content_node \<Rightarrow> pointer_request \<Rightarrow> pointer_failure + pointer_response" where
  "pointer_call C W requester M =
     call_peer (carry_pointer_request C) (\<lambda>q. Some (answer_pointer_request C W M requester q)) (carry_pointer_response C)"

definition pointer_exchange ::
  "crypto \<Rightarrow> 'p swarm \<Rightarrow> 'p content_node \<Rightarrow> 'p content_node \<Rightarrow> nat \<Rightarrow> pointer_request \<Rightarrow>
     pointer_failure + 'p content_node \<times> pointer_request option" where
  "pointer_exchange C W N M rid q =
     res_bind (pointer_call C W (sw_peer_id W (pni_id C (cn_identity N))) M q) (\<lambda>m.
       case receive_pointer_response C W N (sw_peer_id W (pni_id C (cn_identity M))) rid m of
         (N', next_q, _) \<Rightarrow> Inr (N', next_q))"

definition pointer_round ::
  "crypto \<Rightarrow> 'p swarm \<Rightarrow> 'p content_node \<Rightarrow> 'p content_node \<Rightarrow> pointer_failure + 'p content_node" where
  "pointer_round C W N M =
     (case sync_pointers_with C W N (sw_peer_id W (pni_id C (cn_identity M))) of
        (N1, q) \<Rightarrow>
          res_bind (pointer_exchange C W N1 M (sw_request_id W (cn_sent N)) q) (\<lambda>(N2, more).
            case more of
              None \<Rightarrow> Inr N2
            | Some q' \<Rightarrow>
                res_bind (pointer_exchange C W N2 M (sw_request_id W (cn_sent N1)) q') (\<lambda>(N3, _). Inr N3)))"

text \<open>
  What the responder stores can be sent: the records are signed, none has more than 16 wrappings of at
  most 1024 bytes, and the names of content types are at most 4096 bytes long. Then 256 records fit into
  one message.
\<close>

definition sendable :: "crypto \<Rightarrow> 'p content_node \<Rightarrow> bool" where
  "sendable C M \<longleftrightarrow>
     (\<forall>i p. bm_get (cn_pointers M) i = Some p \<longrightarrow>
        record_ok C \<lparr>pr_pointer = p, pr_wrappings = wrappings_for M i\<rparr> \<and> length (mp_content_type p) \<le> 4096)"

lemma length_concat_le: "\<forall>x\<in>set xs. length (f x) \<le> n \<Longrightarrow> length (concat (map f xs)) \<le> length xs * n"
  by (induction xs) auto

lemma record_length:
  assumes "record_ok C r" and "length (mp_content_type (pr_pointer r)) \<le> 4096"
  shows "length (put_pointer_record r) \<le> 25000"
proof -
  have "length (put_wrapping w) \<le> 1200" if "w \<in> set (pr_wrappings r)" for w
    using assms(1) that
    by (auto simp: record_ok_def list_all_iff wrapping_ok_def put_wrapping_def max_wrapped_dek_bytes_def)
  then have "length (concat (map put_wrapping (pr_wrappings r))) \<le> length (pr_wrappings r) * 1200"
    by (intro length_concat_le) blast
  also have "\<dots> \<le> 16 * 1200"
    using assms(1) by (simp add: record_ok_def max_wrappings_per_pointer_def)
  finally show ?thesis
    using assms(2) by (simp add: put_pointer_record_def put_seq_def put_pointer_def)
qed

lemma pointer_responses_arrive:
  "length es \<le> max_pointers_per_response \<Longrightarrow> carry_pointer_response C (PointerDigest es t) = Inr (PointerDigest es t)"
  "length rs \<le> max_pointers_per_response \<Longrightarrow>
     \<forall>r\<in>set rs. record_ok C r \<and> length (mp_content_type (pr_pointer r)) \<le> 4096 \<Longrightarrow>
     carry_pointer_response C (PointerRecords rs t) = Inr (PointerRecords rs t)"
proof -
  assume few: "length es \<le> max_pointers_per_response"
  have "length (concat (map put_pointer_digest es)) \<le> length es * 72"
    by (rule length_concat_le) (simp add: put_pointer_digest_def)
  then show "carry_pointer_response C (PointerDigest es t) = Inr (PointerDigest es t)"
    unfolding carry_pointer_response_def using few
    by (intro pointer_response_wire.arrives) (simp_all add: encode_pointer_response_def pointer_response_domain_def
        put_seq_def default_max_message_bytes_def max_pointers_per_response_def)
next
  assume few: "length rs \<le> max_pointers_per_response"
    and ok: "\<forall>r\<in>set rs. record_ok C r \<and> length (mp_content_type (pr_pointer r)) \<le> 4096"
  have "length (concat (map put_pointer_record rs)) \<le> length rs * 25000"
    using ok record_length by (intro length_concat_le) blast
  then show "carry_pointer_response C (PointerRecords rs t) = Inr (PointerRecords rs t)"
    unfolding carry_pointer_response_def using few ok
    by (intro pointer_response_wire.arrives) (simp_all add: encode_pointer_response_def pointer_response_domain_def
        put_seq_def default_max_message_bytes_def max_pointers_per_response_def list_all_iff)
qed

lemma pointer_requests_arrive:
  assumes "sign_correct C"
  shows "carry_pointer_request C (pq_digest C me) = Inr (pq_digest C me)"
    and "length wanted \<le> max_pointers_per_response \<Longrightarrow> carry_pointer_request C (pq_fetch C me wanted) = Inr (pq_fetch C me wanted)"
proof -
  have keys: "key_valid C (pni_id C me)" "pq_verify C (pq_digest C me) = Inr ()" "pq_verify C (pq_fetch C me wanted) = Inr ()"
    using assms by (simp_all add: sign_correct_def pni_id_def pq_verify_def pq_digest_def pq_fetch_def pni_sign_def
        vk_verify_def)
  have long: "length (concat (map put_fixed32 wanted)) = 32 * length wanted"
    by (induction wanted) simp_all
  show "carry_pointer_request C (pq_digest C me) = Inr (pq_digest C me)"
    unfolding carry_pointer_request_def
    by (rule pointer_request_wire.arrives)
      (use keys(1,2) in \<open>simp_all add: encode_pointer_request_def pointer_request_domain_def pq_digest_def
        default_max_message_bytes_def\<close>)
  show "carry_pointer_request C (pq_fetch C me wanted) = Inr (pq_fetch C me wanted)"
    if "length wanted \<le> max_pointers_per_response"
    unfolding carry_pointer_request_def
    by (rule pointer_request_wire.arrives)
      (use keys(1,3) that long in \<open>simp_all add: encode_pointer_request_def pointer_request_domain_def pq_fetch_def
        put_seq_def default_max_message_bytes_def max_pointers_per_response_def\<close>)
qed

lemma accept_wrappings_pointers:
  "cn_pointers (fst (accept_wrappings C ws N)) = cn_pointers N \<and> cn_log (fst (accept_wrappings C ws N)) = cn_log N"
proof (induction ws arbitrary: N)
  case (Cons w ws)
  have same: "cn_pointers (fst (accept_wrapping C N w)) = cn_pointers N"
      "cn_log (fst (accept_wrapping C N w)) = cn_log N"
    by (auto simp: accept_wrapping_def Let_def split: sum.splits option.splits)
  have "fst (accept_wrappings C (w # ws) N) = fst (accept_wrappings C ws (fst (accept_wrapping C N w)))"
    by (simp add: Let_def split: prod.splits)
  then show ?case
    using Cons same by simp
qed simp

lemma accept_records_pointers:
  "cn_pointers (fst (accept_records C rs N)) =
     fold (keep_pointer C (pointer_is_publishable C N)) (map pr_pointer rs) (cn_pointers N)"
proof (induction rs arbitrary: N)
  case (Cons r rs)
  define N1 where "N1 = fst (accept_pointer C N (pr_pointer r))"
  define N2 where "N2 = fst (accept_wrappings C (pr_wrappings r) N1)"
  have N1: "cn_pointers N1 = keep_pointer C (pointer_is_publishable C N) (pr_pointer r) (cn_pointers N)"
      "cn_log N1 = cn_log N"
    by (simp_all add: N1_def accept_pointer_keeps)
  have N2: "cn_pointers N2 = cn_pointers N1" "cn_log N2 = cn_log N1"
    by (simp_all add: N2_def accept_wrappings_pointers)
  have "fst (accept_records C (r # rs) N) = fst (accept_records C rs N2)"
    by (simp add: N1_def N2_def Let_def split: prod.splits)
  moreover have "pointer_is_publishable C N2 = pointer_is_publishable C N"
    using N1(2) N2(2) by (intro publishable_log) simp
  ultimately show ?case
    using Cons [of N2] N1(1) N2(1) by simp
qed simp

lemma length_map_filter_le: "length (List.map_filter f xs) \<le> length xs"
  by (simp add: map_filter_def)

lemma bm_values_length: "length (bm_values m) = length m"
  by (simp add: bm_values_def)

abbreviation visible :: "governance_state \<Rightarrow> 'p content_node \<Rightarrow> mutable_pointer list" where
  "visible st M \<equiv> filter (\<lambda>p. mp_pointer_id p \<notin> set (gs_delisted st)) (bm_values (cn_pointers M))"

abbreviation found_records :: "governance_state \<Rightarrow> 'p content_node \<Rightarrow> b32 list \<Rightarrow> pointer_record list" where
  "found_records st M wanted \<equiv> List.map_filter
     (\<lambda>i. map_option (\<lambda>p. \<lparr>pr_pointer = p, pr_wrappings = wrappings_for M i\<rparr>) (bm_get (cn_pointers M) i))
     (filter (\<lambda>i. i \<notin> set (gs_delisted st)) wanted)"

text \<open>The two answers of the responder arrive as they were sent.\<close>

lemma digest_answer:
  assumes "sign_correct C" and "content_state C M = Some st" and "may_serve (pni_id C me) st = Inr ()"
    and "length (cn_pointers M) \<le> max_pointers_per_response"
  shows "pointer_call C W (sw_peer_id W (pni_id C me)) M (pq_digest C me) =
    Inr (PointerDigest (map (digest_of C) (visible st M)) False)"
proof -
  have few: "length (visible st M) \<le> max_pointers_per_response"
    using assms(4) length_filter_le [of "\<lambda>p. mp_pointer_id p \<notin> set (gs_delisted st)" "bm_values (cn_pointers M)"]
    by (simp add: bm_values_length)
  then have "answer_pointer_request C W M (sw_peer_id W (pni_id C me)) (pq_digest C me) =
      PointerDigest (map (digest_of C) (visible st M)) False"
    using assms(2,3) by (simp add: answer_pointer_request_def serve_pointers_def pq_digest_def Let_def)
  then show ?thesis
    unfolding pointer_call_def
    by (intro call_peer_ok) (use few in \<open>simp_all add: pointer_requests_arrive assms(1) pointer_responses_arrive\<close>)
qed

lemma records_answer:
  assumes "sign_correct C" and "content_state C M = Some st" and "may_serve (pni_id C me) st = Inr ()"
    and "sendable C M" and "length wanted \<le> max_pointers_per_response"
  shows "pointer_call C W (sw_peer_id W (pni_id C me)) M (pq_fetch C me wanted) =
    Inr (PointerRecords (found_records st M wanted) False)"
proof -
  have few: "length (found_records st M wanted) \<le> max_pointers_per_response"
    using assms(5) length_map_filter_le length_filter_le by (meson le_trans)
  have ok: "\<forall>r\<in>set (found_records st M wanted). record_ok C r \<and> length (mp_content_type (pr_pointer r)) \<le> 4096"
    using assms(4) by (auto simp: sendable_def map_filter_def)
  have "answer_pointer_request C W M (sw_peer_id W (pni_id C me)) (pq_fetch C me wanted) =
      PointerRecords (found_records st M wanted) False"
    using assms few by (simp add: answer_pointer_request_def serve_pointers_def pq_fetch_def Let_def)
  then show ?thesis
    unfolding pointer_call_def
    by (intro call_peer_ok) (use few ok assms(5) in
      \<open>simp_all add: pointer_requests_arrive assms(1) pointer_responses_arrive\<close>)
qed

definition answered :: "nat \<Rightarrow> 'p content_node \<Rightarrow> 'p content_node" where
  "answered rid N =
     N\<lparr>cn_pointer_digests := bm_remove rid (cn_pointer_digests N),
       cn_pointer_fetches := bm_remove rid (cn_pointer_fetches N)\<rparr>"

lemma answered_simps [simp]:
  "cn_pointers (answered rid N) = cn_pointers N" "cn_log (answered rid N) = cn_log N"
  "cn_identity (answered rid N) = cn_identity N" "cn_sent (answered rid N) = cn_sent N"
  by (simp_all add: answered_def)

lemma exchange_digest:
  assumes "sign_correct C" and "content_state C M = Some st" and "may_serve (pni_id C (cn_identity N)) st = Inr ()"
    and "length (cn_pointers M) \<le> max_pointers_per_response" and "bm_get (cn_pointer_digests N) rid \<noteq> None"
    and "wanted = pointers_worth_fetching C (answered rid N) (map (digest_of C) (visible st M))"
  shows "pointer_exchange C W N M rid (pq_digest C (cn_identity N)) =
    Inr (if wanted = [] then (answered rid N, None)
     else (fst (request_pointers C W (answered rid N) (sw_peer_id W (pni_id C (cn_identity M))) wanted),
           Some (pq_fetch C (cn_identity N) wanted)))"
  unfolding pointer_exchange_def digest_answer [OF assms(1-4)] receive_pointer_response_def answered_def [symmetric]
  using assms(5,6) by (auto simp: Let_def request_pointers_def)

lemma exchange_records:
  assumes "sign_correct C" and "content_state C M = Some st" and "may_serve (pni_id C (cn_identity N)) st = Inr ()"
    and "sendable C M" and "length wanted \<le> max_pointers_per_response" and "bm_get (cn_pointer_fetches N) rid \<noteq> None"
  shows "\<exists>N' more. pointer_exchange C W N M rid (pq_fetch C (cn_identity N) wanted) = Inr (N', more)
    \<and> cn_pointers N' = fold (keep_pointer C (pointer_is_publishable C N)) (map pr_pointer (found_records st M wanted)) (cn_pointers N)"
proof -
  have "\<exists>more. pointer_exchange C W N M rid (pq_fetch C (cn_identity N) wanted) =
      Inr (fst (accept_records C (found_records st M wanted) (answered rid N)), more)"
    unfolding pointer_exchange_def records_answer [OF assms(1-5)] receive_pointer_response_def answered_def [symmetric]
    using assms(6) by (simp add: Let_def split: prod.splits)
  then show ?thesis
    using publishable_log [of "answered rid N" N C] accept_records_pointers [of C _ "answered rid N"] by fastforce
qed

lemma worth_fetching_pointers:
  "cn_pointers N' = cn_pointers N \<Longrightarrow> pointers_worth_fetching C N' es = pointers_worth_fetching C N es"
  by (simp add: pointers_worth_fetching_def worth_fetching_def [abs_def])

lemma round_pointers:
  assumes "sign_correct C" and "content_state C M = Some st" and "may_serve (pni_id C (cn_identity N)) st = Inr ()"
    and "sendable C M" and "length (cn_pointers M) \<le> max_pointers_per_response"
    and wanted: "wanted = pointers_worth_fetching C N (map (digest_of C) (visible st M))"
  shows "\<exists>N'. pointer_round C W N M = Inr N' \<and> cn_pointers N' =
    fold (keep_pointer C (pointer_is_publishable C N)) (map pr_pointer (found_records st M wanted)) (cn_pointers N)"
proof -
  have few: "length wanted \<le> max_pointers_per_response"
    using assms(5) length_filter_le [of "worth_fetching C N" "map (digest_of C) (visible st M)"]
      length_filter_le [of "\<lambda>p. mp_pointer_id p \<notin> set (gs_delisted st)" "bm_values (cn_pointers M)"]
    by (simp add: wanted pointers_worth_fetching_def bm_values_length)
  let ?peer = "sw_peer_id W (pni_id C (cn_identity M))" and ?rid = "sw_request_id W (cn_sent N)"
  obtain N1 where N1: "sync_pointers_with C W N ?peer = (N1, pq_digest C (cn_identity N1))"
      "cn_identity N1 = cn_identity N" "cn_pointers N1 = cn_pointers N" "cn_log N1 = cn_log N"
      "bm_get (cn_pointer_digests N1) ?rid \<noteq> None"
    by (simp add: sync_pointers_with_def)
  have w1: "wanted = pointers_worth_fetching C (answered ?rid N1) (map (digest_of C) (visible st M))"
    using wanted N1(3) worth_fetching_pointers [of "answered ?rid N1" N] by simp
  have serve: "may_serve (pni_id C (cn_identity N1)) st = Inr ()"
    using assms(3) N1(2) by simp
  note first = exchange_digest [OF assms(1,2) serve assms(5) N1(5) w1, of W]
  show ?thesis
  proof (cases "wanted = []")
    case True
    then show ?thesis
      using N1 first by (simp add: pointer_round_def map_filter_def)
  next
    case False
    define N2 where "N2 = fst (request_pointers C W (answered ?rid N1) ?peer wanted)"
    have N2: "cn_identity N2 = cn_identity N1" "cn_pointers N2 = cn_pointers N" "cn_log N2 = cn_log N"
        "bm_get (cn_pointer_fetches N2) (sw_request_id W (cn_sent N1)) \<noteq> None"
      using N1(3,4) by (simp_all add: N2_def request_pointers_def)
    have "pointer_round C W N M =
        res_bind (pointer_exchange C W N2 M (sw_request_id W (cn_sent N1)) (pq_fetch C (cn_identity N2) wanted))
          (\<lambda>(N3, _). Inr N3)"
      using False N1(1) first N2(1) by (simp add: pointer_round_def N2_def)
    moreover have "may_serve (pni_id C (cn_identity N2)) st = Inr ()"
      using serve N2(1) by simp
    from exchange_records [OF assms(1,2) this assms(4) few N2(4), of W] obtain N3 more where
      "pointer_exchange C W N2 M (sw_request_id W (cn_sent N1)) (pq_fetch C (cn_identity N2) wanted) = Inr (N3, more)"
      "cn_pointers N3 = fold (keep_pointer C (pointer_is_publishable C N)) (map pr_pointer (found_records st M wanted)) (cn_pointers N)"
      using N2(2) publishable_log [OF N2(3), of C] by auto
    ultimately show ?thesis
      by simp
  qed
qed

text \<open>
  C17. One round catches up: after \<open>N\<close> has synchronised once with a peer, the round has succeeded and the
  record \<open>N\<close> holds for every publishable pointer of the peer is the peer's record, or one of greater
  version, or one of the same version with a smaller hash. Both requests and both responses cross the
  wire: they are signed, encoded, cut at 8 MiB and decoded, and the serving gate and the checks on every
  record are passed. The conditions are that both nodes have the same governance log, which replays, and
  that the requester holds \<open>ReadContent\<close> in it; that the peer holds at most 256 pointers, each sendable
  (valid signatures, at most 16 wrappings of at most 1024 bytes, a content type of at most 4096 bytes);
  that a signature verifies under the key of its signer; and that the hash has no collision among the
  records.
\<close>

theorem round_catches_up:
  assumes "sign_correct C" and "pointers_ok N" and "pointers_ok M" and "content_state C M = Some st"
    and "identity_holds st (pni_id C (cn_identity N)) ReadContent" and "cn_log N = cn_log M" and "sendable C M"
    and "length (cn_pointers M) \<le> max_pointers_per_response"
    and "no_collision C (record_bytes ` (held_records N \<union> held_records M))"
    and "\<forall>p\<in>held_records N \<union> held_records M. str_ok (mp_content_type p)"
    and p: "bm_get (cn_pointers M) i = Some p" "pointer_is_publishable C N p"
  shows "\<exists>N' r. pointer_round C W N M = Inr N' \<and> bm_get (cn_pointers N') i = Some r
    \<and> (r = p \<or> mp_version p < mp_version r
       \<or> mp_version r = mp_version p \<and> record_hash C r < record_hash C p)"
proof -
  let ?R = "held_records N \<union> held_records M"
  define wanted where "wanted = pointers_worth_fetching C N (map (digest_of C) (visible st M))"
  have inj: "inj_on (record_hash C) ?R"
    using record_hash_inj [OF assms(9,10)] .
  then have R: "collision_free C ?R = ?R"
    by (simp add: collision_free_def)
  have serve: "may_serve (pni_id C (cn_identity N)) st = Inr ()"
    using assms(5) by (simp add: may_serve_def)
  obtain N' where N': "pointer_round C W N M = Inr N'" and
    round: "cn_pointers N' = fold (keep_pointer C (pointer_is_publishable C N))
      (map pr_pointer (found_records st M wanted)) (cn_pointers N)"
    using round_pointers [OF assms(1,4) serve assms(7,8) wanted_def, of W] by blast
  have id: "mp_pointer_id p = i"
    using assms(3) p(1) by (simp add: pointers_ok_def)
  have "content_state C N = Some st"
    using assms(4,6) by (simp add: content_state_def)
  then have listed: "i \<notin> set (gs_delisted st)"
    using p(2) id by (auto simp: pointer_is_publishable_def split: sum.splits if_splits)
  have seen: "p \<in> set (visible st M)"
    using p(1) id listed assms(3) by (auto simp: pointers_ok_def set_bm_values)
  have held: "\<forall>k c. bm_get (cn_pointers N) k = Some c \<longrightarrow> mp_pointer_id c = k \<and> c \<in> collision_free C ?R"
    using assms(2) unfolding R by (auto simp: pointers_ok_def held_records_def)
  have offered: "set (map pr_pointer (found_records st M wanted)) \<subseteq> collision_free C ?R"
    unfolding R by (auto simp: held_records_def map_filter_def)
  note no_worse = ptr.no_worse [OF held offered, of i _ "pointer_is_publishable C N", folded round]
  have in_play: "r \<in> ?R" if "bm_get (cn_pointers N') i = Some r" for r
    using that ptr.keep_play_fold [OF held offered, of "pointer_is_publishable C N"] unfolding R round by blast
  have "\<exists>r. bm_get (cn_pointers N') i = Some r \<and> (r = p \<or> supersedes C r p)"
  proof (cases "worth_fetching C N (digest_of C p)")
    case True
    then have "i \<in> set wanted"
      using seen id by (force simp: wanted_def pointers_worth_fetching_def digest_of_def)
    then have "p \<in> set (map pr_pointer (found_records st M wanted))"
      using p(1) listed by (force simp: map_filter_def)
    then show ?thesis
      using no_worse [of p] p(2) id by simp
  next
    case False
    then obtain c where c: "bm_get (cn_pointers N) i = Some c"
        "mp_version c > mp_version p \<or> mp_version c = mp_version p \<and> record_hash C p = record_hash C c"
      using id by (auto simp: worth_fetching_def digest_of_def not_less order_le_less split: option.splits)
    have in_R: "c \<in> ?R" "p \<in> ?R"
      using c(1) p(1) by (auto simp: held_records_def)
    then have better: "c = p \<or> supersedes C c p"
      using c(2) inj_onD [OF inj] by (auto simp: supersedes_def prefers_first_def)
    obtain r where "bm_get (cn_pointers N') i = Some r" "r = c \<or> supersedes C r c"
      using no_worse [of c] c(1) by blast
    then show ?thesis
      using better supersedes_trans [OF inj in_play in_R, of r] by blast
  qed
  then obtain r where r: "bm_get (cn_pointers N') i = Some r" "r = p \<or> supersedes C r p"
    by blast
  have "p \<in> ?R"
    using p(1) by (auto simp: held_records_def)
  then have "record_hash C r \<noteq> record_hash C p" if "r \<noteq> p"
    using that inj_onD [OF inj _ in_play [OF r(1)]] by blast
  then show ?thesis
    using N' r by (auto simp: supersedes_def prefers_first_def order_le_less)
qed

theorem round_catches_up_witness:
  "\<exists>N' r. pointer_round demo press_swarm press_node
      (press_node\<lparr>cn_identity := who 1, cn_pointers := [(5, text_record 2 5 0)]\<rparr>) = Inr N'
    \<and> bm_get (cn_pointers N') 5 = Some r
    \<and> (r = text_record 2 5 0 \<or> mp_version (text_record 2 5 0) < mp_version r
       \<or> mp_version r = mp_version (text_record 2 5 0) \<and> record_hash demo r < record_hash demo (text_record 2 5 0))"
proof (rule round_catches_up)
  show "pointer_is_publishable demo press_node (text_record 2 5 0)"
    by (simp add: pointer_is_publishable_def starter_text)
  show "sendable demo (press_node\<lparr>cn_identity := who 1, cn_pointers := [(5, text_record 2 5 0)]\<rparr>)"
    by (simp add: sendable_def record_ok_def pointer_ok_def wrappings_for_def str_ok_def str_bytes_def)
qed (auto simp: pointers_ok_def max_pointers_per_response_def held_records_def no_collision_def str_ok_def
    str_bytes_def demo_sign_correct split: if_splits)

section \<open>A digest is cut\<close>

lemma filter_takeWhile_sorted:
  "sorted (map f vs) \<Longrightarrow> filter (\<lambda>x. f x < i) vs = takeWhile (\<lambda>x. f x < i) vs"
  for f :: "'v \<Rightarrow> 'k::linorder"
proof (induction vs)
  case (Cons a vs)
  show ?case
  proof (cases "f a < i")
    case False
    then have "filter (\<lambda>x. f x < i) (a # vs) = []"
      using Cons.prems by (auto simp: filter_empty_conv)
    with False show ?thesis
      by simp
  qed (use Cons in simp)
qed simp

lemma take_takeWhile: "n \<le> length (takeWhile Q vs) \<Longrightarrow> x \<in> set (take n vs) \<Longrightarrow> Q x"
  by (metis in_set_takeD set_takeWhileD take_append takeWhile_dropWhile_id append_Nil2 diff_is_0_eq take_eq_Nil)

lemma sorted_pointers:
  assumes "pointers_ok M"
  shows "sorted (map mp_pointer_id (bm_values (cn_pointers M)))"
proof -
  have "map mp_pointer_id (bm_values (cn_pointers M)) = bm_keys (cn_pointers M)"
    using assms bm_ok_map_of [of "cn_pointers M"] by (auto simp: pointers_ok_def bm_values_def bm_keys_def)
  then show ?thesis
    using assms bs_ok_bm_keys bs_ok_sorted by (auto simp: pointers_ok_def)
qed

text \<open>
  A digest always names the same pointers: when a node holds 256 listed pointers with smaller
  identifiers, no digest it serves names a pointer beyond them, to anybody, and no requester finds it
  worth fetching. The digest says that it was cut, but a request carries no position to resume from.
\<close>

theorem digest_hides_tail:
  assumes "pointers_ok M" and "content_state C M = Some st"
    and "max_pointers_per_response \<le> length (filter (\<lambda>p. mp_pointer_id p < i) (visible st M))"
    and "serve_pointers C M (PointerDigestRequest k s) = PointerDigest entries truncated"
  shows "i \<notin> pd_pointer_id ` set entries \<and> i \<notin> set (pointers_worth_fetching C N entries)"
proof -
  have sorted: "sorted (map mp_pointer_id (visible st M))"
    by (rule sorted_filter [OF sorted_pointers [OF assms(1)]])
  have "max_pointers_per_response \<le> length (takeWhile (\<lambda>p. mp_pointer_id p < i) (visible st M))"
    using assms(3) by (simp only: filter_takeWhile_sorted [OF sorted])
  then have "mp_pointer_id p < i" if "p \<in> set (take max_pointers_per_response (visible st M))" for p
    using take_takeWhile that by fastforce
  moreover have "entries = map (digest_of C) (take max_pointers_per_response (visible st M))"
    using assms(2,4) by (auto simp: serve_pointers_def Let_def take_map split: sum.splits)
  ultimately have "i \<notin> pd_pointer_id ` set entries"
    by (fastforce simp: digest_of_def)
  then show ?thesis
    by (auto simp: pointers_worth_fetching_def)
qed

text \<open>A node that holds one pointer more than a digest may name.\<close>

definition crowd :: "nat list" where
  "crowd = [100..<357]"

lemma crowd_simps [simp]: "length crowd = 257" "n \<in> set crowd \<longleftrightarrow> 100 \<le> n \<and> n < 357" "sorted_wrt (<) crowd"
  by (auto simp only: crowd_def length_upt set_upt atLeastLessThan_iff sorted_wrt_upt)

lemma crowd_split: "crowd = [100..<356] @ [356]"
proof -
  have "[100..<Suc 356] = [100..<356] @ [356]"
    by (rule upt_Suc_append) simp
  moreover have "Suc 356 = 357"
    by simp
  ultimately show ?thesis
    by (simp only: crowd_def)
qed

definition crowded_node :: "b32 content_node" where
  "crowded_node = press_node\<lparr>cn_pointers := map (\<lambda>n. (of_nat n, text_record 2 (of_nat n) 0)) crowd\<rparr>"

lemma small_b32:
  assumes "m < 1000" and "n < 1000"
  shows "(of_nat m :: b32) < of_nat n \<longleftrightarrow> m < n" and "(of_nat m :: b32) = of_nat n \<longleftrightarrow> m = n"
proof -
  have "unat (of_nat m :: b32) = m" "unat (of_nat n :: b32) = n"
    using assms by (simp_all add: unat_of_nat)
  then show "(of_nat m :: b32) < of_nat n \<longleftrightarrow> m < n" "(of_nat m :: b32) = of_nat n \<longleftrightarrow> m = n"
    by (simp_all add: word_less_nat_alt word_unat_eq_iff)
qed

lemma crowded_pointers_ok: "pointers_ok crowded_node"
proof -
  have "sorted_wrt (\<lambda>m n. (of_nat m :: b32) < of_nat n) crowd"
    by (rule sorted_wrt_mono_rel [OF _ crowd_simps(3)]) (simp add: small_b32)
  then have ok: "bm_ok (cn_pointers crowded_node)"
    by (simp add: crowded_node_def bm_ok_def comp_def sorted_wrt_map)
  moreover have "mp_pointer_id p = i" if "bm_get (cn_pointers crowded_node) i = Some p" for i p
    using that by (auto dest!: map_of_SomeD simp: crowded_node_def)
  ultimately show ?thesis
    by (simp add: pointers_ok_def)
qed

theorem digest_hides_tail_witness:
  "serve_pointers demo crowded_node (PointerDigestRequest 2 0) =
     PointerDigest (map (digest_of demo) (take 256 (visible press_state crowded_node))) True
   \<and> 356 \<notin> pd_pointer_id ` set (map (digest_of demo) (take 256 (visible press_state crowded_node)))"
proof -
  have vis: "visible press_state crowded_node = map (\<lambda>n. text_record 2 (of_nat n) 0) crowd"
    using small_b32(2) [of _ 99] by (simp add: crowded_node_def bm_values_def filter_map comp_def)
  have state: "content_state demo crowded_node = Some press_state"
    by (simp add: crowded_node_def)
  have serve: "serve_pointers demo crowded_node (PointerDigestRequest 2 0) =
      PointerDigest (map (digest_of demo) (take 256 (visible press_state crowded_node))) True"
    using arg_cong [OF vis, of length] unfolding serve_pointers_def state
    by (simp add: may_serve_def max_pointers_per_response_def Let_def take_map)
  have "filter (\<lambda>n. (of_nat n :: b32) < of_nat 356) crowd = [100..<356]"
    unfolding crowd_split filter_append by (subst filter_True) (auto simp: small_b32 simp del: upt_rec_numeral of_nat_numeral)
  then have "max_pointers_per_response \<le> length (filter (\<lambda>p. mp_pointer_id p < 356) (visible press_state crowded_node))"
    unfolding vis by (simp add: max_pointers_per_response_def filter_map comp_def del: upt_rec_numeral)
  then show ?thesis
    using digest_hides_tail [OF crowded_pointers_ok state _ serve, THEN conjunct1] serve by blast
qed

section \<open>Too many wrappings\<close>

lemma accept_wrapping_inserts:
  assumes "content_state C N = Some st" and "is_member st (dw_wrapper w)" and "dw_verify_signature C w = Inr ()"
    and "dw_pointer_id w = i"
  shows "accept_wrapping C N w =
    (N\<lparr>cn_wrappings := bm_insert i (bm_insert (dw_rotation_ref w) w
        (case bm_get (cn_wrappings N) i of None \<Rightarrow> [] | Some m \<Rightarrow> m)) (cn_wrappings N)\<rparr>, True)"
  using assms by (simp add: accept_wrapping_def Let_def)

lemma accept_wrappings_all:
  assumes "content_state C N = Some st"
    and "\<forall>w\<in>set ws. is_member st (dw_wrapper w) \<and> wrapping_ok C w \<and> dw_pointer_id w = i"
    and "case bm_get (cn_wrappings N) i of None \<Rightarrow> True | Some m \<Rightarrow> bm_ok m \<and> list_all (wrapping_ok C) (bm_values m)"
  shows "\<exists>N'. accept_wrappings C ws N = (N', length ws) \<and> cn_pointers N' = cn_pointers N \<and> cn_log N' = cn_log N
    \<and> list_all (wrapping_ok C) (wrappings_for N' i)
    \<and> dw_rotation_ref ` set ws \<subseteq> dom (wrapping_under N' i)
    \<and> dom (wrapping_under N i) \<subseteq> dom (wrapping_under N' i)
    \<and> card (dom (wrapping_under N' i)) \<le> length (wrappings_for N' i)
    \<and> length (wrappings_for N' i) \<le> length (wrappings_for N i) + length ws"
  using assms
proof (induction ws arbitrary: N)
  case Nil
  have "card (dom (bm_get m)) \<le> length m" for m :: "(b32, dek_wrapping) btree_map"
    using card_image_le [of "set m" fst] card_length [of m] by (simp add: dom_map_of_conv_image_fst)
  then show ?case
    using Nil.prems(3)
    by (auto simp: wrappings_for_def wrapping_under_def [abs_def] bm_values_def dom_def split: option.splits)
next
  case (Cons w ws)
  define m where "m = (case bm_get (cn_wrappings N) i of None \<Rightarrow> [] | Some m \<Rightarrow> m)"
  define N1 where "N1 = N\<lparr>cn_wrappings := bm_insert i (bm_insert (dw_rotation_ref w) w m) (cn_wrappings N)\<rparr>"
  have m: "bm_ok m" "list_all (wrapping_ok C) (bm_values m)"
    using Cons.prems(3) by (auto simp: m_def bm_values_def split: option.splits)
  have w: "is_member st (dw_wrapper w)" "wrapping_ok C w" "dw_pointer_id w = i"
    using Cons.prems(2) by auto
  have first: "accept_wrapping C N w = (N1, True)"
    using accept_wrapping_inserts [OF Cons.prems(1) w(1) _ w(3)] w(2) by (simp add: wrapping_ok_def N1_def m_def)
  have vals: "list_all (wrapping_ok C) (bm_values (bm_insert (dw_rotation_ref w) w m))"
    using set_bm_insert_subset [of "dw_rotation_ref w" w m] m(2) w(2)
    by (auto simp: list_all_iff bm_values_def)
  have ok1: "case bm_get (cn_wrappings N1) i of None \<Rightarrow> True
      | Some m \<Rightarrow> bm_ok m \<and> list_all (wrapping_ok C) (bm_values m)"
    using m(1) vals by (simp add: N1_def)
  have "content_state C N1 = Some st" "\<forall>w\<in>set ws. is_member st (dw_wrapper w) \<and> wrapping_ok C w \<and> dw_pointer_id w = i"
    using Cons.prems(1,2) by (simp_all add: content_state_def N1_def)
  from Cons.IH [OF this ok1] obtain N' where N': "accept_wrappings C ws N1 = (N', length ws)"
      "cn_pointers N' = cn_pointers N1" "cn_log N' = cn_log N1" "list_all (wrapping_ok C) (wrappings_for N' i)"
      "dw_rotation_ref ` set ws \<subseteq> dom (wrapping_under N' i)" "dom (wrapping_under N1 i) \<subseteq> dom (wrapping_under N' i)"
      "card (dom (wrapping_under N' i)) \<le> length (wrappings_for N' i)"
      "length (wrappings_for N' i) \<le> length (wrappings_for N1 i) + length ws"
    by auto
  moreover have "length (wrappings_for N1 i) \<le> Suc (length (wrappings_for N i))"
    using length_bm_insert [of "dw_rotation_ref w" w m]
    by (auto simp: N1_def m_def wrappings_for_def bm_values_def split: option.splits)
  moreover have "dom (wrapping_under N1 i) = insert (dw_rotation_ref w) (dom (wrapping_under N i))"
    by (auto simp: N1_def m_def wrapping_under_def [abs_def] dom_def split: option.splits if_splits)
  ultimately show ?case
    using first by (intro exI [of _ N']) (auto simp: N1_def)
qed

text \<open>
  The reader of a record stops at the limit; the writer does not know it. What is decoded here is the
  whole encoding.
\<close>

definition over_wire :: "crypto \<Rightarrow> pointer_response \<Rightarrow> pointer_response option" where
  "over_wire C m =
     (case decode_pointer_response C (encode_pointer_response m) of Inl _ \<Rightarrow> None | Inr m' \<Rightarrow> Some m')"

lemma crowded_record_unreadable:
  assumes "pointer_ok C p" and "list_all (wrapping_ok C) ws" and "length ws > max_wrappings_per_pointer" and "len_ok ws"
  shows "over_wire C (PointerRecords [\<lparr>pr_pointer = p, pr_wrappings = ws\<rparr>] truncated) = None"
proof -
  have "seq_ok (wrapping_ok C) ws"
    using assms(2,4) by (simp add: seq_ok_def)
  then have "get_pointer_record C (put_pointer_record \<lparr>pr_pointer = p, pr_wrappings = ws\<rparr> @ r) =
      Inl (SwTooManyEntries (length ws) max_wrappings_per_pointer)" for r
    using assms(1,3) by (simp add: get_pointer_record_def put_pointer_record_def rbind_def pointer.get_put
        codec.get_put [OF exact_codec.axioms(1) [OF wrappings_exact]])
  then have bad: "dec_seq SwMalformed (get_pointer_record C)
      (put_seq put_pointer_record [\<lparr>pr_pointer = p, pr_wrappings = ws\<rparr>] @ r) =
      Inl (SwTooManyEntries (length ws) max_wrappings_per_pointer)" for r
    using dec_length_put [of 1 "put_pointer_record \<lparr>pr_pointer = p, pr_wrappings = ws\<rparr> @ r"]
    by (simp add: dec_seq_def put_seq_def rbind_def rmap_err_def put_pointer_record_def put_pointer_def)
  then show ?thesis
    by (simp add: over_wire_def decode_pointer_response_def encode_pointer_response_def decode_whole_def rbind_def
        rmap_err_def dec_domain_put storage_domains_ok get_pointer_response_def variant.get_put)
qed

text \<open>
  A member can make a pointer unreadable for everybody else: wrappings are accepted from any
  member for any rotation, in any number, but a reader refuses a record with more than 16. After one
  member has published more than 16 wrappings for a pointer, in the name of as many rotations, a node
  that accepted them answers a request for that pointer with bytes that no node decodes.
\<close>

theorem wrappings_overflow:
  assumes "content_state C N = Some st" and "bm_get (cn_pointers N) i = Some p" and "pointer_ok C p"
    and "i \<notin> set (gs_delisted st)" and "identity_holds st (pni_id C reader) ReadContent" and "cn_wrappings N = []"
    and "\<forall>w\<in>set ws. is_member st (dw_wrapper w) \<and> wrapping_ok C w \<and> dw_pointer_id w = i"
    and "distinct (map dw_rotation_ref ws)" and "length ws > max_wrappings_per_pointer" and "len_ok ws"
  shows "\<exists>N'. accept_wrappings C ws N = (N', length ws)
    \<and> over_wire C (answer_pointer_request C W N' (sw_peer_id W (pni_id C reader)) (pq_fetch C reader [i])) = None"
proof -
  obtain N' where N': "accept_wrappings C ws N = (N', length ws)" "cn_pointers N' = cn_pointers N"
      "cn_log N' = cn_log N" "list_all (wrapping_ok C) (wrappings_for N' i)"
      "dw_rotation_ref ` set ws \<subseteq> dom (wrapping_under N' i)"
      "card (dom (wrapping_under N' i)) \<le> length (wrappings_for N' i)" "length (wrappings_for N' i) \<le> length ws"
    using accept_wrappings_all [OF assms(1,7)] assms(6) by (auto simp: wrappings_for_def [of N])
  have "finite (dom (wrapping_under N' i))"
    by (auto simp: wrapping_under_def [abs_def] split: option.splits intro: finite_subset [OF _ finite_dom_map_of])
  then have "card (dw_rotation_ref ` set ws) \<le> length (wrappings_for N' i)"
    using card_mono [OF _ N'(5)] N'(6) by simp
  moreover have "card (dw_rotation_ref ` set ws) = length ws"
    using distinct_card [OF assms(8)] by simp
  ultimately have long: "length (wrappings_for N' i) > max_wrappings_per_pointer"
    using assms(9) by simp
  have "answer_pointer_request C W N' (sw_peer_id W (pni_id C reader)) (pq_fetch C reader [i]) =
      PointerRecords [\<lparr>pr_pointer = p, pr_wrappings = wrappings_for N' i\<rparr>] False"
    using assms(1,2,4,5) N'(2,3)
    by (simp add: answer_pointer_request_def pq_fetch_def serve_pointers_def content_state_def may_serve_def
        map_filter_def max_pointers_per_response_def)
  then show ?thesis
    using N'(1,7) crowded_record_unreadable [OF assms(3) N'(4) long] assms(10) by (simp add: len_ok_def)
qed

definition spam :: "nat \<Rightarrow> dek_wrapping" where
  "spam n =
     \<lparr>dw_pointer_id = 5, dw_wrapped_dek = [], dw_rotation_ref = of_nat n, dw_wrapper = 2,
      dw_signature = ucast (2 :: b32)\<rparr>"

lemma spam_simps [simp]:
  "dw_pointer_id (spam n) = 5" "dw_rotation_ref (spam n) = of_nat n" "dw_wrapper (spam n) = 2" "wrapping_ok demo (spam n)"
  by (simp_all add: spam_def wrapping_ok_def dw_verify_signature_def vk_verify_def)

theorem wrappings_overflow_witness:
  "\<exists>N'. accept_wrappings demo (map spam [0..<17]) (press_node\<lparr>cn_pointers := [(5, text_record 1 5 0)]\<rparr>) =
      (N', length (map spam [0..<17]))
    \<and> over_wire demo (answer_pointer_request demo press_swarm N' (sw_peer_id press_swarm (pni_id demo (who 2)))
        (pq_fetch demo (who 2) [5])) = None"
proof (rule wrappings_overflow [where p = "text_record 1 5 0" and st = press_state])
  show "distinct (map dw_rotation_ref (map spam [0..<17]))"
    by (simp add: distinct_map inj_on_def small_b32 del: upt_rec_numeral)
  show "\<forall>w\<in>set (map spam [0..<17]). is_member press_state (dw_wrapper w) \<and> wrapping_ok demo w \<and> dw_pointer_id w = 5"
    by (auto simp del: upt_rec_numeral)
qed (simp_all add: pointer_ok_def str_ok_def str_bytes_def max_wrappings_per_pointer_def len_ok_def
    del: upt_rec_numeral)

section \<open>Keys\<close>

lemma dw_create_verifies: "sign_correct C \<Longrightarrow> dw_verify_signature C (dw_create C S m i dek key r) = Inr ()"
  by (simp add: dw_create_def dw_verify_signature_def pni_id_def pni_sign_def sign_verifies Let_def)

text \<open>
  A wrapping cannot substitute a key: whoever signed it and whatever it holds, opening it yields
  the data key only if that key has the commitment of the pointer; and a wrapping that a holder of the
  epoch key made for the committed key opens with the same epoch key.
\<close>

theorem wrapping_opens_committed_key:
  assumes "sign_correct C" and "aead_correct S"
  shows "(dw_unwrap C S w key commitment = Inr dek \<longrightarrow>
      dek_commitment C dek = commitment \<and> dw_verify_signature C w = Inr ())
    \<and> dw_unwrap C S (dw_create C S m i dek key r) key (dek_commitment C dek) = Inr dek"
proof
  show "dw_unwrap C S w key commitment = Inr dek \<longrightarrow>
      dek_commitment C dek = commitment \<and> dw_verify_signature C w = Inr ()"
    by (auto simp: dw_unwrap_def res_bind_Inr_iff split: if_splits)
  show "dw_unwrap C S (dw_create C S m i dek key r) key (dek_commitment C dek) = Inr dek"
    using assms by (simp add: dw_unwrap_def dw_create_verifies) (simp add: dw_create_def unwrap_wrap Let_def)
qed

theorem wrapping_opens_committed_key_witness:
  "dw_unwrap demo demo_sealing (dw_create demo demo_sealing (who 2) 5 77 88 3) 88 (dek_commitment demo 77) = Inr 77"
  using wrapping_opens_committed_key [OF demo_sign_correct demo_aead] by blast

section \<open>Messages\<close>

text \<open>
  The bytes of a pointer response are exact: a node decodes a response from some bytes exactly
  when they are the encoding of that response and the response is well formed, that is, it carries at
  most 256 entries, every pointer and every wrapping is signed by the key it names, no record has more
  than 16 wrappings and no wrapping more than 1024 bytes.
\<close>

theorem pointer_response_exact:
  "decode_pointer_response C b = Inr m \<longleftrightarrow> pointer_response_ok C m \<and> b = encode_pointer_response m"
  unfolding decode_pointer_response_def encode_pointer_response_def
  by (rule whole_iff [OF pointerr.exact_codec_axioms storage_domains_ok(7)])

end
