(* ===== verification/Fetching.thy ===== *)
theory Fetching
  imports Content_Node Publishing
begin

text \<open>
  The running fetch inside the node: the plan of \<open>Fetch\<close> together with the requests and the provider
  queries that are outstanding for it. The invariant says that whatever the plan waits for, an answer
  is still due; the step relation is every handler of the node that touches it. A fetch that is not
  complete is therefore never waiting for nothing, on a node with discovery. Without discovery it
  waits for ever, and a fetch of chunks that are all held is never reported.
\<close>

section \<open>Issuing\<close>

lemma issue_rule [consumes 1, case_names none full skip send]:
  assumes "fetch_inv P"
    and "\<And>P. fetch_inv P \<Longrightarrow> Q [] P P []"
    and "\<And>cid cids P. fetch_inv P \<Longrightarrow> fp_concurrency P \<le> fp_inflight P \<Longrightarrow> Q (cid # cids) P P []"
    and "\<And>cid cids P P' rs. fetch_inv P \<Longrightarrow> (\<And>cs n. bm_get (fp_chunks P) cid \<noteq> Some (Ready cs n)) \<Longrightarrow>
      Q cids P P' rs \<Longrightarrow> Q (cid # cids) P P' rs"
    and "\<And>cid cids P s rest n P' rs. fetch_inv P \<Longrightarrow> bm_get (fp_chunks P) cid = Some (Ready (s # rest) n) \<Longrightarrow>
      fp_inflight P < fp_concurrency P \<Longrightarrow>
      Q cids (put_state cid (InFlight rest n) (fp_inflight P + 1) P) P' rs \<Longrightarrow> Q (cid # cids) P P' ((cid, s) # rs)"
  shows "Q cids P (fst (issue cids P)) (snd (issue cids P))"
  using assms(1)
proof (induction cids arbitrary: P)
  case (Cons cid cids)
  have "startable (Ready cs n)" if "bm_get (fp_chunks P) cid = Some (Ready cs n)" for cs n
    using that Cons.prems unfolding fetch_inv_def by blast
  then have "\<exists>s rest. cs = s # rest" if "bm_get (fp_chunks P) cid = Some (Ready cs n)" for cs n
    using that by (auto simp: neq_Nil_conv)
  then consider "fp_concurrency P \<le> fp_inflight P"
    | "fp_inflight P < fp_concurrency P" "\<And>cs n. bm_get (fp_chunks P) cid \<noteq> Some (Ready cs n)"
    | s rest n where "fp_inflight P < fp_concurrency P" "bm_get (fp_chunks P) cid = Some (Ready (s # rest) n)"
    by (metis not_less)
  then show ?case
  proof cases
    case 1
    then show ?thesis
      using assms(3) [OF Cons.prems] by simp
  next
    case 2
    then have "issue (cid # cids) P = issue cids P"
      by (auto split: option.splits chunk_state.splits list.splits)
    then show ?thesis
      using assms(4) [OF Cons.prems 2(2) Cons.IH [OF Cons.prems]] by simp
  next
    case 3
    let ?Q = "put_state cid (InFlight rest n) (fp_inflight P + 1) P"
    have "fetch_inv ?Q"
      using Cons.prems 3 by (intro put_state_inv) auto
    moreover have "issue (cid # cids) P = (fst (issue cids ?Q), (cid, s) # snd (issue cids ?Q))"
      using 3 by (simp add: put_state_def case_prod_beta)
    ultimately show ?thesis
      using assms(5) [OF Cons.prems 3(2,1)] Cons.IH [of ?Q] by simp
  qed
qed (simp add: assms(2))

lemma issue_plan_fields:
  assumes "fetch_inv P"
  shows "fp_concurrency (fst (issue cids P)) = fp_concurrency P \<and> fp_budgets (fst (issue cids P)) = fp_budgets P
    \<and> fp_unbudgeted (fst (issue cids P)) = fp_unbudgeted P \<and> fp_inflight P \<le> fp_inflight (fst (issue cids P))"
  by (rule issue_rule [OF assms, where Q = "\<lambda>_ P P' _. fp_concurrency P' = fp_concurrency P
        \<and> fp_budgets P' = fp_budgets P \<and> fp_unbudgeted P' = fp_unbudgeted P \<and> fp_inflight P \<le> fp_inflight P'"])
    (auto simp: put_state_def)

lemma issue_keys:
  assumes "fetch_inv P"
  shows "dom (bm_get (fp_chunks (fst (issue cids P)))) = dom (bm_get (fp_chunks P))
    \<and> fst ` set (snd (issue cids P)) \<subseteq> dom (bm_get (fp_chunks P))"
  by (rule issue_rule [OF assms, where Q = "\<lambda>_ P P' rs. dom (bm_get (fp_chunks P')) = dom (bm_get (fp_chunks P))
        \<and> fst ` set rs \<subseteq> dom (bm_get (fp_chunks P))"])
    (auto simp: put_state_def split: if_splits)

definition issued_from :: "b32 list \<Rightarrow> fetch_plan \<Rightarrow> fetch_plan \<Rightarrow> (b32 \<times> b32) list \<Rightarrow> b32 \<Rightarrow> chunk_state option \<Rightarrow> bool" where
  "issued_from cids P P' rs c st =
     (case st of
        Some (Ready cs n) \<Rightarrow> bm_get (fp_chunks P) c = st \<and> (c \<in> set cids \<longrightarrow> fp_concurrency P \<le> fp_inflight P')
      | Some (InFlight cs n) \<Rightarrow> is_in_flight (bm_get (fp_chunks P) c) \<or> c \<in> fst ` set rs
      | _ \<Rightarrow> bm_get (fp_chunks P) c = st)"

lemma issue_states:
  assumes "fetch_inv P"
  shows "issued_from cids P (fst (issue cids P)) (snd (issue cids P)) c (bm_get (fp_chunks (fst (issue cids P))) c)"
proof (rule issue_rule [OF assms, where Q = "\<lambda>cids P P' rs. issued_from cids P P' rs c (bm_get (fp_chunks P') c)"])
  fix cid cids P P' rs
  assume "\<And>cs n. bm_get (fp_chunks P) cid \<noteq> Some (Ready cs n)" "issued_from cids P P' rs c (bm_get (fp_chunks P') c)"
  then show "issued_from (cid # cids) P P' rs c (bm_get (fp_chunks P') c)"
    by (auto simp: issued_from_def split: option.splits chunk_state.splits)
next
  fix cid cids P s rest n P' rs
  assume "bm_get (fp_chunks P) cid = Some (Ready (s # rest) n)"
    "issued_from cids (put_state cid (InFlight rest n) (fp_inflight P + 1) P) P' rs c (bm_get (fp_chunks P') c)"
  then show "issued_from (cid # cids) P P' ((cid, s) # rs) c (bm_get (fp_chunks P') c)"
    by (auto simp: issued_from_def put_state_def split: option.splits chunk_state.splits if_splits)
qed (auto simp: issued_from_def split: option.splits chunk_state.splits)

text \<open>After the plan was asked for requests, it has reached its limit or nothing is ready.\<close>

definition driven :: "fetch_plan \<Rightarrow> bool" where
  "driven P \<longleftrightarrow> fp_concurrency P \<le> fp_inflight P \<or> (\<forall>c cs n. bm_get (fp_chunks P) c \<noteq> Some (Ready cs n))"

lemma next_driven:
  assumes "fetch_inv P"
  shows "driven (fst (next_requests P))"
proof -
  let ?order = "rarest_first (sort_key snd (List.map_filter holders_if_ready (fp_chunks P)))"
  have ok: "bm_ok (fp_chunks P)"
    using assms by (simp add: fetch_inv_def)
  have "fp_concurrency P \<le> fp_inflight (fst (issue ?order P))"
    if "bm_get (fp_chunks (fst (issue ?order P))) c = Some (Ready cs n)" for c cs n
  proof -
    have "bm_get (fp_chunks P) c = Some (Ready cs n)
        \<and> (c \<in> set ?order \<longrightarrow> fp_concurrency P \<le> fp_inflight (fst (issue ?order P)))"
      using issue_states [OF assms, of ?order c] that by (simp add: issued_from_def)
    then show ?thesis
      using ready_listed [OF ok, of c] by blast
  qed
  then show ?thesis
    using issue_plan_fields [OF assms, of ?order] by (auto simp: driven_def next_requests_def)
qed

section \<open>What is outstanding\<close>

definition asked :: "'p content_node \<Rightarrow> b32 \<Rightarrow> bool" where
  "asked N cid \<longleftrightarrow> (\<exists>rid peer source. bm_get (cn_inflight N) rid = Some (peer, source, cid))"

definition looked_up :: "'p content_node \<Rightarrow> b32 \<Rightarrow> bool" where
  "looked_up N cid \<longleftrightarrow> (\<exists>qid found. bm_get (cn_provider_queries N) qid = Some (cid, found))"

text \<open>Identifiers in use were handed out, and a query has one purpose.\<close>

definition ids_ok :: "'p swarm \<Rightarrow> 'p content_node \<Rightarrow> bool" where
  "ids_ok W N \<longleftrightarrow>
     (\<forall>rid\<in>dom (bm_get (cn_inflight N)). \<exists>n<cn_sent N. rid = sw_request_id W n)
     \<and> (\<forall>qid\<in>dom (bm_get (cn_provider_queries N)) \<union> dom (bm_get (cn_collection_queries N)).
          \<exists>n<cn_queries N. qid = sw_query_id W n)
     \<and> dom (bm_get (cn_provider_queries N)) \<inter> dom (bm_get (cn_collection_queries N)) = {}"

definition requests_ok :: "'p content_node \<Rightarrow> bool" where
  "requests_ok N \<longleftrightarrow> (\<forall>cid q. bm_get (cn_fetch_requests N) cid = Some q \<longrightarrow> cq_cid q = cid)"

definition covered :: "'p content_node \<Rightarrow> fetch_plan \<Rightarrow> bool" where
  "covered N P \<longleftrightarrow>
     fetch_inv P \<and> dom (bm_get (fp_chunks P)) \<subseteq> dom (bm_get (cn_fetch_requests N))
     \<and> (\<forall>cid. is_in_flight (bm_get (fp_chunks P) cid) \<longrightarrow> asked N cid)
     \<and> (cn_discovery N \<longrightarrow> (\<forall>cid. bm_get (fp_chunks P) cid = Some AwaitingProviders \<longrightarrow> looked_up N cid))"

definition content_inv :: "'p swarm \<Rightarrow> 'p content_node \<Rightarrow> bool" where
  "content_inv W N \<longleftrightarrow>
     ids_ok W N \<and> requests_ok N \<and> (\<forall>P. cn_fetch N = Some P \<longrightarrow> covered N P \<and> driven P)"

lemma fresh_request:
  assumes "swarm_ok W" and "ids_ok W N"
  shows "bm_get (cn_inflight N) (sw_request_id W (cn_sent N)) = None"
proof (rule ccontr)
  assume "bm_get (cn_inflight N) (sw_request_id W (cn_sent N)) \<noteq> None"
  then have "sw_request_id W (cn_sent N) \<in> dom (bm_get (cn_inflight N))"
    by (simp add: domIff)
  then obtain n where "n < cn_sent N" "sw_request_id W (cn_sent N) = sw_request_id W n"
    using assms(2) unfolding ids_ok_def by blast
  then show False
    using assms(1) by (auto simp: swarm_ok_def dest: injD)
qed

lemma fresh_query:
  assumes "swarm_ok W" and "ids_ok W N"
  shows "bm_get (cn_provider_queries N) (sw_query_id W (cn_queries N)) = None"
    and "bm_get (cn_collection_queries N) (sw_query_id W (cn_queries N)) = None"
proof -
  have "sw_query_id W (cn_queries N) \<notin> dom (bm_get (cn_provider_queries N)) \<union> dom (bm_get (cn_collection_queries N))"
  proof
    assume "sw_query_id W (cn_queries N) \<in> dom (bm_get (cn_provider_queries N)) \<union> dom (bm_get (cn_collection_queries N))"
    then obtain n where "n < cn_queries N" "sw_query_id W (cn_queries N) = sw_query_id W n"
      using assms(2) unfolding ids_ok_def by blast
    then show False
      using assms(1) by (auto simp: swarm_ok_def dest: injD)
  qed
  then show "bm_get (cn_provider_queries N) (sw_query_id W (cn_queries N)) = None"
      "bm_get (cn_collection_queries N) (sw_query_id W (cn_queries N)) = None"
    by (metis UnCI domIff)+
qed

text \<open>What sending a request leaves alone.\<close>

definition same_but_sent :: "'p content_node \<Rightarrow> 'p content_node \<Rightarrow> bool" where
  "same_but_sent N N' \<longleftrightarrow>
     (\<exists>inflight n. N' = N\<lparr>cn_inflight := inflight, cn_sent := n\<rparr>) \<and> (\<forall>cid. asked N cid \<longrightarrow> asked N' cid)"

lemma same_but_sent_refl: "same_but_sent N N"
  unfolding same_but_sent_def by (intro conjI exI [of _ "cn_inflight N"] exI [of _ "cn_sent N"]) auto

lemma same_but_sent_trans: "same_but_sent N N' \<Longrightarrow> same_but_sent N' N'' \<Longrightarrow> same_but_sent N N''"
  by (force simp: same_but_sent_def)

lemma same_but_sent_fields:
  assumes "same_but_sent N N'"
  shows "cn_fetch N' = cn_fetch N" "cn_fetch_requests N' = cn_fetch_requests N"
    "cn_provider_queries N' = cn_provider_queries N" "cn_collection_queries N' = cn_collection_queries N"
    "cn_queries N' = cn_queries N" "cn_discovery N' = cn_discovery N" "cn_chunks N' = cn_chunks N"
    "cn_pending N' = cn_pending N" "cn_overrun_objects N' = cn_overrun_objects N"
  using assms by (auto simp: same_but_sent_def)

lemma send_request:
  assumes "swarm_ok W" and "ids_ok W N"
  shows "same_but_sent N (send_chunk_request W N source q) \<and> ids_ok W (send_chunk_request W N source q)
    \<and> asked (send_chunk_request W N source q) (cq_cid q)"
proof -
  have "asked (send_chunk_request W N source q) c" if c_asked: "asked N c" for c
  proof -
    obtain rid peer src where c: "bm_get (cn_inflight N) rid = Some (peer, src, c)"
      using c_asked by (auto simp: asked_def)
    then have "rid \<noteq> sw_request_id W (cn_sent N)"
      using fresh_request [OF assms] by auto
    then have "bm_get (cn_inflight (send_chunk_request W N source q)) rid = Some (peer, src, c)"
      using c by (simp add: send_chunk_request_def)
    then show ?thesis
      unfolding asked_def by blast
  qed
  moreover have "ids_ok W (send_chunk_request W N source q)"
    using assms(2) by (auto simp: ids_ok_def send_chunk_request_def less_Suc_eq)
  ultimately show ?thesis
    by (force simp: same_but_sent_def send_chunk_request_def asked_def)
qed

lemma send_all:
  assumes "swarm_ok W" and "ids_ok W N" and "requests_ok N"
    and "fst ` set rs \<subseteq> dom (bm_get (cn_fetch_requests N))"
  shows "same_but_sent N (fold (send_for_fetch W) rs N) \<and> ids_ok W (fold (send_for_fetch W) rs N)
    \<and> (\<forall>c\<in>fst ` set rs. asked (fold (send_for_fetch W) rs N) c)"
  using assms(2-4)
proof (induction rs arbitrary: N)
  case Nil
  then show ?case
    by (simp add: same_but_sent_refl)
next
  case (Cons r rs)
  obtain q where q: "bm_get (cn_fetch_requests N) (fst r) = Some q"
    using Cons.prems(3) by auto
  define N1 where "N1 = send_chunk_request W N (snd r) q"
  have N1: "same_but_sent N N1" "ids_ok W N1" "asked N1 (fst r)"
    using send_request [OF assms(1) Cons.prems(1), of "snd r" q] q Cons.prems(2)
    by (auto simp: N1_def requests_ok_def)
  then have "requests_ok N1" "fst ` set rs \<subseteq> dom (bm_get (cn_fetch_requests N1))"
    using Cons.prems(2,3) by (simp_all add: requests_ok_def same_but_sent_fields)
  note IH = Cons.IH [OF N1(2) this]
  have "fold (send_for_fetch W) (r # rs) N = fold (send_for_fetch W) rs N1"
    using q by (simp add: send_for_fetch_def N1_def)
  then show ?case
    using IH N1 same_but_sent_trans [OF N1(1)] by (auto simp: same_but_sent_def)
qed

text \<open>Driving the plan sends what it asks for, and leaves it covered and driven.\<close>

lemma drive_inv:
  assumes "swarm_ok W" and "ids_ok W N" and "requests_ok N" and "cn_fetch N = Some P" and "covered N P"
  shows "content_inv W (drive_fetch W N)
    \<and> same_but_sent (N\<lparr>cn_fetch := Some (fst (next_requests P))\<rparr>) (drive_fetch W N)"
proof -
  obtain P' rs where next_rs: "next_requests P = (P', rs)"
    by (cases "next_requests P")
  have inv: "fetch_inv P"
    using assms(5) by (simp add: covered_def)
  define N1 where "N1 = N\<lparr>cn_fetch := Some P'\<rparr>"
  let ?order = "rarest_first (sort_key snd (List.map_filter holders_if_ready (fp_chunks P)))"
  have issue: "issue ?order P = (P', rs)"
    using next_rs by (simp add: next_requests_def)
  have keys: "dom (bm_get (fp_chunks P')) = dom (bm_get (fp_chunks P))" "fst ` set rs \<subseteq> dom (bm_get (fp_chunks P))"
    using issue_keys [OF inv, of ?order] issue by auto
  have "fst ` set rs \<subseteq> dom (bm_get (cn_fetch_requests N1))"
    using order_trans [OF keys(2)] assms(5) by (simp add: covered_def N1_def)
  then have N1: "ids_ok W N1" "requests_ok N1" "fst ` set rs \<subseteq> dom (bm_get (cn_fetch_requests N1))"
    using assms(2,3) by (simp_all add: N1_def ids_ok_def requests_ok_def)
  define N2 where "N2 = fold (send_for_fetch W) rs N1"
  have drive: "drive_fetch W N = N2"
    using assms(4) next_rs by (simp add: drive_fetch_def N1_def N2_def)
  have N2: "same_but_sent N1 N2" "ids_ok W N2" "\<forall>c\<in>fst ` set rs. asked N2 c"
    using send_all [OF assms(1) N1] by (simp_all add: N2_def)
  have "covered N2 P'"
    unfolding covered_def
  proof (intro conjI allI impI)
    show "fetch_inv P'"
      using next_inv [OF inv] next_rs by simp
    show "dom (bm_get (fp_chunks P')) \<subseteq> dom (bm_get (cn_fetch_requests N2))"
      using keys(1) assms(5) same_but_sent_fields(2) [OF N2(1)] by (simp add: covered_def N1_def)
  next
    fix c
    have states: "issued_from ?order P P' rs c (bm_get (fp_chunks P') c)"
      using issue_states [OF inv, of ?order c] issue by simp
    {
      assume "is_in_flight (bm_get (fp_chunks P') c)"
      then have "is_in_flight (bm_get (fp_chunks P) c) \<or> c \<in> fst ` set rs"
        using states by (auto simp: issued_from_def elim!: in_flight_cases)
      then show "asked N2 c"
        using N2(1,3) assms(5) by (auto simp: same_but_sent_def covered_def asked_def N1_def)
    next
      assume "cn_discovery N2" "bm_get (fp_chunks P') c = Some AwaitingProviders"
      then show "looked_up N2 c"
        using states assms(5) same_but_sent_fields(3,6) [OF N2(1)]
        by (auto simp: issued_from_def covered_def looked_up_def N1_def)
    }
  qed
  moreover have "driven P'"
    using next_driven [OF inv] next_rs by simp
  ultimately show ?thesis
    using N1(2) N2 drive next_rs same_but_sent_fields(1,2) [OF N2(1)]
    by (simp add: content_inv_def requests_ok_def N1_def)
qed

section \<open>The handlers keep the invariant\<close>

lemma push_completed_inv: "content_inv W N \<Longrightarrow> content_inv W (push_completed N)"
  by (auto simp: push_completed_def completed_fetch_def content_inv_def ids_ok_def requests_ok_def covered_def
      asked_def looked_up_def split: option.splits)

lemma drive_content_inv:
  "swarm_ok W \<Longrightarrow> ids_ok W N \<Longrightarrow> requests_ok N \<Longrightarrow> (\<And>P. cn_fetch N = Some P \<Longrightarrow> covered N P) \<Longrightarrow>
     content_inv W (drive_fetch W N)"
  using drive_inv [of W N] by (cases "cn_fetch N") (simp_all add: content_inv_def drive_fetch_def)

text \<open>
  After the answer for a chunk, the plan may still have it in flight although no other request for
  it is outstanding: everything else is covered.
\<close>

definition covered_but :: "'p content_node \<Rightarrow> b32 \<Rightarrow> fetch_plan \<Rightarrow> bool" where
  "covered_but N c P \<longleftrightarrow>
     fetch_inv P \<and> dom (bm_get (fp_chunks P)) \<subseteq> dom (bm_get (cn_fetch_requests N))
     \<and> (\<forall>cid. cid \<noteq> c \<longrightarrow> is_in_flight (bm_get (fp_chunks P) cid) \<longrightarrow> asked N cid)
     \<and> (cn_discovery N \<longrightarrow> (\<forall>cid. bm_get (fp_chunks P) cid = Some AwaitingProviders \<longrightarrow> looked_up N cid))"

lemma covered_settled: "covered_but N c P \<Longrightarrow> \<not> is_in_flight (bm_get (fp_chunks P) c) \<Longrightarrow> covered N P"
  by (auto simp: covered_but_def covered_def)

lemma fetch_inv_in_flight: "fetch_inv P \<Longrightarrow> is_in_flight (bm_get (fp_chunks (put_state c st n P)) cid) \<longleftrightarrow>
    (if cid = c then is_in_flight (Some st) else is_in_flight (bm_get (fp_chunks P) cid))"
  by (simp add: put_state_def)

lemma outcome_settles:
  assumes "covered_but N c P"
  shows "covered N (if got then record_received c P else plan_failed c P)"
proof (rule covered_settled)
  let ?P = "if got then record_received c P else plan_failed c P"
  show "\<not> is_in_flight (bm_get (fp_chunks ?P) c)"
    by (auto simp: record_received_def plan_failed_def split: option.splits chunk_state.splits)
  have "fetch_inv ?P"
    using assms by (auto simp: covered_but_def received_inv failed_inv)
  moreover have "bm_get (fp_chunks ?P) cid = bm_get (fp_chunks P) cid" if "cid \<noteq> c" for cid
    using that by (auto simp: record_received_def plan_failed_def split: option.splits chunk_state.splits)
  moreover have "dom (bm_get (fp_chunks ?P)) = dom (bm_get (fp_chunks P))"
    by (auto simp: record_received_def plan_failed_def elim!: in_flight_cases split: option.splits chunk_state.splits if_splits)
  moreover have "bm_get (fp_chunks ?P) c = Some AwaitingProviders \<Longrightarrow> bm_get (fp_chunks P) c = Some AwaitingProviders"
    by (auto simp: record_received_def plan_failed_def split: option.splits chunk_state.splits if_splits)
  ultimately show "covered_but N c ?P"
    using assms unfolding covered_but_def by (metis (no_types, lifting))
qed

lemma outcome_inv:
  assumes "swarm_ok W" and "ids_ok W N" and "requests_ok N" and "\<And>P. cn_fetch N = Some P \<Longrightarrow> covered_but N cid P"
  shows "content_inv W (note_fetch_outcome W cid got N)"
proof (cases "cn_fetch N")
  case (Some P)
  let ?N = "N\<lparr>cn_fetch := Some (if got then record_received cid P else plan_failed cid P)\<rparr>"
  have "covered ?N (if got then record_received cid P else plan_failed cid P)"
    using outcome_settles [OF assms(4) [OF Some], of got] by (auto simp: covered_def asked_def looked_up_def)
  then have "content_inv W (drive_fetch W ?N)"
    using assms(1-3) by (intro drive_content_inv) (auto simp: ids_ok_def requests_ok_def)
  then show ?thesis
    using push_completed_inv Some by (simp only: note_fetch_outcome_def option.case)
qed (use assms(2,3) in \<open>simp add: note_fetch_outcome_def content_inv_def\<close>)

text \<open>The answer to a request: its identifier is given up.\<close>

lemma answered_but:
  assumes "content_inv W N" and "bm_get (cn_inflight N) rid = Some (peer, source, cid)"
    and "N' = N\<lparr>cn_inflight := bm_remove rid (cn_inflight N)\<rparr>"
  shows "ids_ok W N'" and "requests_ok N'" and "\<And>P. cn_fetch N' = Some P \<Longrightarrow> covered_but N' cid P"
proof -
  show "ids_ok W N'" "requests_ok N'"
    using assms by (auto simp: content_inv_def ids_ok_def requests_ok_def)
  have "asked N' c" if c: "c \<noteq> cid" "asked N c" for c
  proof -
    obtain r p s where r: "bm_get (cn_inflight N) r = Some (p, s, c)"
      using c(2) by (auto simp: asked_def)
    then have "bm_get (cn_inflight N') r = Some (p, s, c)"
      using assms(2,3) c(1) by auto
    then show ?thesis
      unfolding asked_def by blast
  qed
  then show "covered_but N' cid P" if "cn_fetch N' = Some P" for P
    using assms(1,3) that by (auto simp: content_inv_def covered_def covered_but_def looked_up_def)
qed

lemma covered_but_cong:
  assumes "covered_but N c P" and "cn_fetch_requests M = cn_fetch_requests N" and "cn_inflight M = cn_inflight N"
    and "cn_provider_queries M = cn_provider_queries N" and "cn_discovery M = cn_discovery N"
  shows "covered_but M c P"
  using assms by (auto simp: covered_but_def asked_def looked_up_def)

lemma ids_ok_cong:
  assumes "ids_ok W N" and "cn_inflight M = cn_inflight N" and "cn_sent M = cn_sent N"
    and "cn_provider_queries M = cn_provider_queries N" and "cn_collection_queries M = cn_collection_queries N"
    and "cn_queries M = cn_queries N"
  shows "ids_ok W M"
  using assms by (simp add: ids_ok_def)

lemma requests_ok_cong: "requests_ok N \<Longrightarrow> cn_fetch_requests M = cn_fetch_requests N \<Longrightarrow> requests_ok M"
  by (simp add: requests_ok_def)

lemma admit_chunk_states:
  assumes "fetch_inv P"
  shows "dom (bm_get (fp_chunks (fst (plan_admit cid bytes P)))) = dom (bm_get (fp_chunks P))
    \<and> (\<forall>c. is_in_flight (bm_get (fp_chunks (fst (plan_admit cid bytes P))) c) \<longrightarrow> is_in_flight (bm_get (fp_chunks P) c))
    \<and> (\<forall>c. bm_get (fp_chunks (fst (plan_admit cid bytes P))) c = Some AwaitingProviders \<longrightarrow>
         bm_get (fp_chunks P) c = Some AwaitingProviders)
    \<and> (snd (plan_admit cid bytes P) \<or> \<not> is_in_flight (bm_get (fp_chunks (fst (plan_admit cid bytes P))) cid))"
proof (cases "is_in_flight (bm_get (fp_chunks P) cid)")
  case True
  have abandon: "dom (bm_get (fp_chunks (fold abandon cs Q))) = dom (bm_get (fp_chunks Q))
      \<and> (\<forall>c. bm_get (fp_chunks (fold abandon cs Q)) c = Some AwaitingProviders \<longrightarrow>
          bm_get (fp_chunks Q) c = Some AwaitingProviders)" for cs Q
  proof (induction cs arbitrary: Q)
    case (Cons a cs)
    have "dom (bm_get (fp_chunks (abandon a Q))) = dom (bm_get (fp_chunks Q))
      \<and> (\<forall>c. bm_get (fp_chunks (abandon a Q)) c = Some AwaitingProviders \<longrightarrow>
          bm_get (fp_chunks Q) c = Some AwaitingProviders)"
      by (auto simp: abandon_def split: option.splits chunk_state.splits if_splits)
    then show ?case
      using Cons by simp
  qed simp
  from True show ?thesis
  proof (cases rule: admit_cases [where bytes = bytes])
    case (kept Q cs)
    then show ?thesis
      using abandon [of cs "P\<lparr>fp_budgets := map (charge cid bytes) (fp_budgets P)\<rparr>"] by (simp add: abandon_all)
  next
    case (given_up Q cs)
    have "cid \<in> dom (bm_get (fp_chunks P))"
      using True by (auto elim: in_flight_cases)
    then show ?thesis
      using given_up abandon [of cs "P\<lparr>fp_budgets := map (charge cid bytes) (fp_budgets P)\<rparr>"]
      by (auto simp: put_state_def abandon_all split: if_splits)
  qed
qed (simp add: plan_admit_def)

lemma admit_covered_but:
  assumes "covered_but N c P"
  shows "covered_but N c (fst (plan_admit cid bytes P))"
  using assms admit_chunk_states [of P cid bytes] admit_inv [of P cid bytes] by (auto simp: covered_but_def)

text \<open>What the handlers of a chunk need of a node whose plan still has the chunk in flight.\<close>

definition pending_for :: "'p swarm \<Rightarrow> b32 \<Rightarrow> 'p content_node \<Rightarrow> bool" where
  "pending_for W cid N \<longleftrightarrow>
     ids_ok W N \<and> requests_ok N \<and> (\<forall>P. cn_fetch N = Some P \<longrightarrow> covered_but N cid P)"

lemma pending_for_update:
  assumes "pending_for W cid N"
  shows "pending_for W cid (N\<lparr>cn_chunks := chunks\<rparr>)" "pending_for W cid (N\<lparr>cn_observations := R\<rparr>)"
    "pending_for W cid (announce key N)"
  using assms by (simp_all add: pending_for_def ids_ok_def requests_ok_def covered_but_def asked_def looked_up_def announce_def)

lemma pending_outcome: "swarm_ok W \<Longrightarrow> pending_for W cid N \<Longrightarrow> content_inv W (note_fetch_outcome W cid got N)"
  by (rule outcome_inv) (auto simp: pending_for_def)

lemma admit_kept:
  assumes "pending_for W cid N" and "admit_to_fetch W cid len N = (N1, True)"
  shows "pending_for W cid N1"
proof (cases "cn_fetch N")
  case (Some P)
  let ?P = "fst (plan_admit cid (of_nat len) P)"
  have "N1 = N\<lparr>cn_fetch := Some ?P, cn_overrun_objects := fold bs_insert (overrun_objects ?P) (cn_overrun_objects N)\<rparr>"
    using assms(2) Some by (auto simp: admit_to_fetch_def case_prod_beta Let_def split: if_splits)
  moreover have "covered_but N cid ?P"
    using assms(1) Some admit_covered_but by (auto simp: pending_for_def)
  ultimately show ?thesis
    using assms(1) by (simp add: pending_for_def ids_ok_def requests_ok_def covered_but_def asked_def looked_up_def)
qed (use assms in \<open>simp add: admit_to_fetch_def\<close>)

lemma admit_refused:
  assumes "swarm_ok W" and "pending_for W cid N" and "admit_to_fetch W cid len N = (N1, False)"
  shows "content_inv W N1"
proof -
  obtain P where P: "cn_fetch N = Some P" "\<not> snd (plan_admit cid (of_nat len) P)"
    using assms(3) by (auto simp: admit_to_fetch_def case_prod_beta Let_def split: option.splits)
  define P' where "P' = fst (plan_admit cid (of_nat len) P)"
  define M where "M = N\<lparr>cn_fetch := Some P',
      cn_overrun_objects := fold bs_insert (overrun_objects P') (cn_overrun_objects N)\<rparr>"
  have "covered_but N cid P"
    using assms(2) P(1) by (simp add: pending_for_def)
  moreover from this have "\<not> is_in_flight (bm_get (fp_chunks P') cid)"
    using admit_chunk_states [of P cid "of_nat len"] P(2) by (simp add: P'_def covered_but_def)
  ultimately have "covered N P'"
    unfolding P'_def by (intro covered_settled [OF admit_covered_but])
  then have "content_inv W (drive_fetch W M)"
    using assms(2) by (intro drive_content_inv [OF assms(1)])
      (auto simp: M_def pending_for_def ids_ok_def requests_ok_def covered_def asked_def looked_up_def)
  moreover have "N1 = drive_fetch W M"
    using assms(3) P by (auto simp: admit_to_fetch_def case_prod_beta Let_def M_def P'_def)
  ultimately show ?thesis
    by simp
qed

lemma content_inv_chunks: "content_inv W N \<Longrightarrow> content_inv W (N\<lparr>cn_chunks := cs\<rparr>)"
  by (simp add: content_inv_def ids_ok_def requests_ok_def covered_def asked_def looked_up_def)

lemma chunk_response_inv:
  assumes "swarm_ok W" and "content_inv W N0"
  shows "content_inv W (fst (receive_chunk_response C W N0 rid m))"
proof (cases "bm_get (cn_inflight N0) rid")
  case (Some a)
  obtain peer source cid where a: "a = (peer, source, cid)"
    by (cases a)
  define N where "N = N0\<lparr>cn_inflight := bm_remove rid (cn_inflight N0)\<rparr>"
  have N: "pending_for W cid N"
    using answered_but [OF assms(2) Some [unfolded a] N_def] by (simp add: pending_for_def)
  note handler = receive_chunk_response_def Some a N_def [symmetric] Let_def
  note outcome = pending_outcome [OF assms(1)]
  show ?thesis
  proof (cases m)
    case (ChunkBytes b)
    show ?thesis
    proof (cases "store_insert C (cn_chunks N) cid b")
      case (Inl err)
      then show ?thesis
        using ChunkBytes N by (auto simp: handler intro!: outcome pending_for_update split: storage_error.splits)
    next
      case (Inr chunks)
      obtain N1 kept where N1: "admit_to_fetch W cid (length b) (N\<lparr>cn_chunks := chunks\<rparr>) = (N1, kept)"
        by (cases "admit_to_fetch W cid (length b) (N\<lparr>cn_chunks := chunks\<rparr>)")
      show ?thesis
      proof (cases kept)
        case True
        have "pending_for W cid N1"
          by (rule admit_kept [OF pending_for_update(1) [OF N]]) (use N1 True in simp)
        then show ?thesis
          using ChunkBytes Inr N1 True by (simp add: handler outcome pending_for_update)
      next
        case False
        have "content_inv W N1"
          by (rule admit_refused [OF assms(1) pending_for_update(1) [OF N]]) (use N1 False in simp)
        then show ?thesis
          using ChunkBytes Inr N1 False by (simp add: handler push_completed_inv content_inv_chunks)
      qed
    qed
  qed (simp_all add: handler outcome N)
qed (use assms(2) in \<open>simp add: receive_chunk_response_def\<close>)

lemma request_failed_inv:
  assumes "swarm_ok W" and "content_inv W N"
  shows "content_inv W (fst (chunk_request_failed W N peer rid))"
proof (cases "bm_get (cn_inflight N) rid")
  case (Some a)
  obtain p source cid where a: "a = (p, source, cid)"
    by (cases a)
  have "pending_for W cid (N\<lparr>cn_inflight := bm_remove rid (cn_inflight N)\<rparr>)"
    using answered_but [OF assms(2) Some [unfolded a] refl] by (simp add: pending_for_def)
  then show ?thesis
    using Some a pending_outcome [OF assms(1)] by (simp add: chunk_request_failed_def)
qed (use assms(2) in \<open>simp add: chunk_request_failed_def\<close>)

text \<open>Starting a fetch: every new chunk gets a request and a provider query.\<close>

lemma same_requests: "\<exists>rs. N = N\<lparr>cn_fetch_requests := rs\<rparr>"
  by (rule exI [of _ "cn_fetch_requests N"]) simp

lemma same_queries: "\<exists>qs n. N = N\<lparr>cn_provider_queries := qs, cn_queries := n\<rparr>"
  by (rule exI [of _ "cn_provider_queries N"], rule exI [of _ "cn_queries N"]) simp

lemma wanted_requests:
  assumes "requests_ok N" and "N' = fold (request_if_new C requester) wanted N"
  shows "requests_ok N'" and "dom (bm_get (cn_fetch_requests N')) = dom (bm_get (cn_fetch_requests N)) \<union> set wanted"
    and "\<exists>rs. N' = N\<lparr>cn_fetch_requests := rs\<rparr>"
proof -
  have "requests_ok N' \<and> dom (bm_get (cn_fetch_requests N')) = dom (bm_get (cn_fetch_requests N)) \<union> set wanted
      \<and> (\<exists>rs. N' = N\<lparr>cn_fetch_requests := rs\<rparr>)"
    using assms
  proof (induction wanted arbitrary: N)
    case Nil
    then show ?case
      using same_requests [of N] by simp
  next
    case (Cons c cs)
    define N1 where "N1 = request_if_new C requester c N"
    have N1: "requests_ok N1" "dom (bm_get (cn_fetch_requests N1)) = insert c (dom (bm_get (cn_fetch_requests N)))"
        "\<exists>rs. N1 = N\<lparr>cn_fetch_requests := rs\<rparr>"
      using Cons.prems(1) same_requests [of N]
      by (auto simp: N1_def request_if_new_def requests_ok_def cq_create_def split: option.splits)
    then show ?case
      using Cons.IH [OF N1(1)] Cons.prems(2) by (auto simp: N1_def [symmetric])
  qed
  then show "requests_ok N'" "dom (bm_get (cn_fetch_requests N')) = dom (bm_get (cn_fetch_requests N)) \<union> set wanted"
    "\<exists>rs. N' = N\<lparr>cn_fetch_requests := rs\<rparr>"
    by auto
qed

lemma find_all:
  assumes "swarm_ok W" and "ids_ok W N" and "N' = fold (find_providers W) cids N"
  shows "ids_ok W N' \<and> (\<exists>qs n. N' = N\<lparr>cn_provider_queries := qs, cn_queries := n\<rparr>)
    \<and> (\<forall>c. looked_up N c \<longrightarrow> looked_up N' c) \<and> (cn_discovery N \<longrightarrow> (\<forall>c\<in>set cids. looked_up N' c))"
  using assms(2,3)
proof (induction cids arbitrary: N)
  case Nil
  then show ?case
    using same_queries [of N] by simp
next
  case (Cons c cs)
  define N1 where "N1 = find_providers W c N"
  have ids: "ids_ok W N1"
    using Cons.prems(1) fresh_query(2) [OF assms(1) Cons.prems(1)]
    by (auto simp: N1_def find_providers_def ids_ok_def less_Suc_eq domIff)
  have mono: "looked_up N1 x" if x: "looked_up N x" for x
  proof -
    obtain qid found where q: "bm_get (cn_provider_queries N) qid = Some (x, found)"
      using x by (auto simp: looked_up_def)
    then have "qid \<noteq> sw_query_id W (cn_queries N)"
      using fresh_query(1) [OF assms(1) Cons.prems(1)] by auto
    then have "bm_get (cn_provider_queries N1) qid = Some (x, found)"
      using q by (simp add: N1_def find_providers_def)
    then show ?thesis
      unfolding looked_up_def by blast
  qed
  have new: "looked_up N1 c" if "cn_discovery N"
    using that by (auto simp: N1_def find_providers_def looked_up_def intro!: exI [of _ "sw_query_id W (cn_queries N)"])
  have upd: "\<exists>qs n. N1 = N\<lparr>cn_provider_queries := qs, cn_queries := n\<rparr>" "cn_discovery N1 = cn_discovery N"
    using same_queries [of N] by (auto simp: N1_def find_providers_def)
  have "N' = fold (find_providers W) cs N1"
    using Cons.prems(2) by (simp add: N1_def)
  note IH = Cons.IH [OF ids this]
  obtain qs n qs' n' where "N1 = N\<lparr>cn_provider_queries := qs, cn_queries := n\<rparr>"
      "N' = N1\<lparr>cn_provider_queries := qs', cn_queries := n'\<rparr>"
    using upd(1) IH by blast
  then have "N' = N\<lparr>cn_provider_queries := qs', cn_queries := n'\<rparr>"
    by simp
  then have "\<exists>qs n. N' = N\<lparr>cn_provider_queries := qs, cn_queries := n\<rparr>"
    by blast
  moreover have "\<forall>c\<in>set (c # cs). looked_up N' c" if "cn_discovery N"
    using that IH new upd(2) by simp
  ultimately show ?case
    using IH mono by blast
qed

text \<open>What extending a plan may change: chunks that were not in it, or were given up, are wanted again.\<close>

definition extends :: "b32 set \<Rightarrow> fetch_plan \<Rightarrow> fetch_plan \<Rightarrow> bool" where
  "extends cids P P' \<longleftrightarrow>
     dom (bm_get (fp_chunks P')) = dom (bm_get (fp_chunks P)) \<union> cids
     \<and> (\<forall>c. is_in_flight (bm_get (fp_chunks P') c) \<longrightarrow> is_in_flight (bm_get (fp_chunks P) c))"

lemma want_extends: "extends {c} P (plan_want c P)"
  by (auto simp: extends_def plan_want_def split: option.splits chunk_state.splits if_splits)

lemma extends_trans: "extends A P P' \<Longrightarrow> extends B P' P'' \<Longrightarrow> extends (A \<union> B) P P''"
  by (auto simp: extends_def)

lemma fold_extends:
  assumes "\<And>c P. extends {c} P (f c P)"
  shows "extends (set cs) P (fold f cs P)"
proof (induction cs arbitrary: P)
  case (Cons c cs)
  have "extends ({c} \<union> set cs) P (fold f cs (f c P))"
    by (rule extends_trans [OF assms Cons])
  then show ?case
    by simp
qed (simp add: extends_def)

lemma plan_extend_extends: "extends (set cids) P (plan_extend cids P)"
proof -
  have "extends {c} P (plan_want c (P\<lparr>fp_unbudgeted := bs_insert c (fp_unbudgeted P)\<rparr>))" for c P
    using want_extends [of c "P\<lparr>fp_unbudgeted := bs_insert c (fp_unbudgeted P)\<rparr>"] by (simp add: extends_def)
  then show ?thesis
    unfolding plan_extend_def by (rule fold_extends)
qed

lemma extend_within_extends: "extends (set cids) P (extend_within obj cids bytes P)"
  using fold_extends [OF want_extends, of "bs_collect cids" P] by (simp add: extend_within_def Let_def extends_def)

lemma new_plan_covered: "covered N (plan_new [] k)" "fp_chunks (plan_new [] k) = []"
  using new_inv [of "[]" k] by (simp_all add: covered_def plan_new_def plan_extend_def)

lemma start_fetch_inv:
  assumes "swarm_ok W" and "content_inv W N"
  shows "content_inv W (start_fetch C W wanted bud requester k N)"
proof -
  define N1 where "N1 = fold (request_if_new C requester) wanted N"
  have inv: "ids_ok W N" "requests_ok N" "\<And>P. cn_fetch N = Some P \<Longrightarrow> covered N P"
    using assms(2) by (auto simp: content_inv_def)
  note N1 = wanted_requests [OF inv(2) N1_def]
  define plan where "plan = (case cn_fetch N1 of None \<Rightarrow> plan_new [] k | Some p \<Rightarrow> p)"
  define plan' where "plan' = (case bud of Some (obj, bytes) \<Rightarrow> extend_within obj wanted bytes plan
      | None \<Rightarrow> plan_extend wanted plan)"
  obtain rs where rs: "N1 = N\<lparr>cn_fetch_requests := rs\<rparr>"
    using N1(3) by blast
  have plan: "covered N plan"
    using inv(3) new_plan_covered(1) rs by (auto simp: plan_def split: option.splits)
  have ext: "extends (set wanted) plan plan'" "fetch_inv plan'"
    using plan plan_extend_extends extend_within_extends extend_inv extend_within_inv
    by (auto simp: plan'_def covered_def split: option.splits)
  define N2 where "N2 = N1\<lparr>cn_fetch := Some plan'\<rparr>"
  define N3 where "N3 = fold (find_providers W) (providers_needed plan') N2"
  have "ids_ok W N2"
    using inv(1) rs by (simp add: N2_def ids_ok_def)
  note N3 = find_all [OF assms(1) this N3_def]
  obtain qs n where upd: "N3 = N2\<lparr>cn_provider_queries := qs, cn_queries := n\<rparr>"
    using N3 by blast
  have awaiting: "c \<in> set (providers_needed plan')" if "bm_get (fp_chunks plan') c = Some AwaitingProviders" for c
    using map_of_SomeD [OF that] by (force simp: providers_needed_def in_state_def)
  have in_flight: "asked N3 c" if "is_in_flight (bm_get (fp_chunks plan') c)" for c
    using that ext(1) plan upd rs by (auto simp: extends_def covered_def asked_def N2_def)
  have "dom (bm_get (fp_chunks plan')) \<subseteq> dom (bm_get (cn_fetch_requests N3))"
    using ext(1) plan N1(2) upd by (auto simp: extends_def covered_def N2_def)
  moreover have "looked_up N3 c" if "cn_discovery N3" "bm_get (fp_chunks plan') c = Some AwaitingProviders" for c
    using that N3 awaiting upd by simp
  ultimately have "covered N3 plan'"
    using ext(2) in_flight unfolding covered_def by blast
  then have "content_inv W (drive_fetch W N3)"
    using N3 N1(1) upd by (intro drive_content_inv [OF assms(1)]) (auto simp: N2_def requests_ok_def)
  moreover have "start_fetch C W wanted bud requester k N = drive_fetch W N3"
    unfolding start_fetch_def Let_def N3_def N2_def plan'_def plan_def N1_def by (rule refl)
  ultimately show ?thesis
    by simp
qed

text \<open>A query ends: its chunk is no longer waiting for providers.\<close>

lemma note_found_dom: "dom (bm_get (note_found qid peers qs)) = dom (bm_get qs)"
  by (auto simp: note_found_def split: option.splits)

lemma note_found_key:
  "bm_get qs q = Some (key, found) \<Longrightarrow> \<exists>found'. bm_get (note_found qid peers qs) q = Some (key, found')"
  by (auto simp: note_found_def split: option.splits)

lemma located_covered:
  assumes "fetch_inv P" and "dom (bm_get (fp_chunks P)) \<subseteq> dom (bm_get (cn_fetch_requests N))"
    and "\<forall>c. is_in_flight (bm_get (fp_chunks P) c) \<longrightarrow> asked N c"
    and "cn_discovery N \<longrightarrow> (\<forall>c. c \<noteq> cid \<longrightarrow> bm_get (fp_chunks P) c = Some AwaitingProviders \<longrightarrow> looked_up N c)"
  shows "covered N (record_providers cid ps fb L R al P)"
proof -
  let ?P = "record_providers cid ps fb L R al P"
  have "bm_get (fp_chunks ?P) c = bm_get (fp_chunks P) c" if "c \<noteq> cid" for c
    using that by (simp add: record_providers_def Let_def)
  moreover have "bm_get (fp_chunks ?P) cid \<noteq> Some AwaitingProviders"
      "is_in_flight (bm_get (fp_chunks ?P) cid) \<Longrightarrow> is_in_flight (bm_get (fp_chunks P) cid)"
      "dom (bm_get (fp_chunks ?P)) = dom (bm_get (fp_chunks P))"
    by (auto simp: record_providers_def Let_def split: if_splits)
  ultimately show ?thesis
    using assms providers_inv [OF assms(1)] unfolding covered_def by metis
qed

lemma lookup_ended:
  assumes "swarm_ok W" and "content_inv W M" and "bm_get (cn_provider_queries M) qid = Some (cid, found)"
    and M1_def: "M1 = M\<lparr>cn_provider_queries := bm_remove qid (cn_provider_queries M)\<rparr>"
  shows "ids_ok W M1" and "requests_ok M1"
    and "cn_fetch M1 = Some P \<Longrightarrow>
      content_inv W (drive_fetch W (M1\<lparr>cn_fetch := Some (record_providers cid ps fb L R al P)\<rparr>))"
proof -
  show M1: "ids_ok W M1" "requests_ok M1"
    using assms(2) by (auto simp: M1_def content_inv_def ids_ok_def requests_ok_def)
  have others: "looked_up M1 c" if c: "c \<noteq> cid" "looked_up M c" for c
  proof -
    obtain r f where r: "bm_get (cn_provider_queries M) r = Some (c, f)"
      using c(2) by (auto simp: looked_up_def)
    then have "bm_get (cn_provider_queries M1) r = Some (c, f)"
      using assms(3) c(1) by (auto simp: M1_def)
    then show ?thesis
      unfolding looked_up_def by blast
  qed
  let ?P = "record_providers cid ps fb L R al P"
  assume "cn_fetch M1 = Some P"
  then have "covered M P"
    using assms(2) by (simp add: content_inv_def M1_def)
  then have "covered M1 ?P"
    using others by (intro located_covered) (auto simp: covered_def M1_def asked_def)
  then show "content_inv W (drive_fetch W (M1\<lparr>cn_fetch := Some ?P\<rparr>))"
    using M1 by (intro drive_content_inv [OF assms(1)])
      (auto simp: ids_ok_def requests_ok_def covered_def asked_def looked_up_def)
qed

lemma query_inv:
  assumes "swarm_ok W" and "content_inv W N0"
  shows "content_inv W (fst (query_progressed W al N0 qid peers is_last))"
proof -
  define N where "N = N0\<lparr>cn_collection_queries := note_found qid peers (cn_collection_queries N0)\<rparr>"
  have N: "content_inv W N"
    using assms(2) by (simp add: N_def content_inv_def ids_ok_def requests_ok_def covered_def asked_def looked_up_def
        note_found_dom)
  show ?thesis
  proof (cases "if is_last then bm_get (cn_collection_queries N) qid else None")
    case (Some p)
    then have "fst (query_progressed W al N0 qid peers is_last) =
        N\<lparr>cn_collection_queries := bm_remove qid (cn_collection_queries N)\<rparr>"
      by (cases p) (simp add: query_progressed_def Let_def N_def [symmetric] del: if_split)
    then show ?thesis
      using N by (auto simp: content_inv_def ids_ok_def requests_ok_def covered_def asked_def looked_up_def)
  next
    case None
    define M where "M = N\<lparr>cn_provider_queries := note_found qid peers (cn_provider_queries N)\<rparr>"
    have "looked_up M c" if "looked_up N c" for c
      using that note_found_key [of "cn_provider_queries N" _ c _ qid peers]
      by (auto simp: looked_up_def M_def) blast
    then have M: "content_inv W M"
      using N by (auto simp: M_def content_inv_def ids_ok_def requests_ok_def covered_def asked_def note_found_dom)
    note handler = query_progressed_def Let_def N_def [symmetric] M_def [symmetric] None
    show ?thesis
    proof (cases "if is_last then bm_get (cn_provider_queries M) qid else None")
      case None
      then show ?thesis
        using M by (simp add: handler del: if_split)
    next
      case (Some p)
      obtain cid found where p: "p = (cid, found)"
        by (cases p)
      have q: "bm_get (cn_provider_queries M) qid = Some (cid, found)"
        using Some p by (simp split: if_splits)
      note ended = lookup_ended [OF assms(1) M q refl]
      show ?thesis
        using Some p ended(1,2) push_completed_inv [OF ended(3)]
        by (cases "cn_fetch M") (simp_all add: handler content_inv_def [of _ "cn_provider_queries_update _ _"] del: if_split)
    qed
  qed
qed

section \<open>Every step\<close>

text \<open>
  The handlers of node.rs that act on the content of a node, with whatever arguments the network and
  the application supply; \<open>environment\<close> is what other parts of the node change.
\<close>

inductive content_step ::
  "crypto \<Rightarrow> 'p::linorder swarm \<Rightarrow> (u64 \<Rightarrow> u64 \<Rightarrow> bool) \<Rightarrow> 'p content_node \<Rightarrow> 'p content_node \<Rightarrow> bool"
  for C W al where
  chunks_wanted: "content_step C W al N (fetch_chunks C W cids requester k N)"
| object_wanted: "content_step C W al N (fst (fetch_object C W obj m requester k N))"
| chunk_asked: "content_step C W al N (request_chunk C W N source cid requester)"
| chunk_answered: "content_step C W al N (fst (receive_chunk_response C W N rid cm))"
| chunk_lost: "content_step C W al N (fst (chunk_request_failed W N peer rid))"
| query_answered: "content_step C W al N (fst (query_progressed W al N qid peers is_last))"
| chunk_stored: "content_step C W al N (fst (store_chunk C N b))"
| chunk_forgotten: "content_step C W al N (fst (forget_chunk N cid))"
| collection_sought: "content_step C W al N (fst (enumerate_collection W N cid))"
| collection_asked: "content_step C W al N (fst (request_collection C W N cid requester))"
| collection_answered: "content_step C W al N (fst (receive_collection_response N peer rid lm))"
| entry_published: "content_step C W al N (publish_to_collection N cid eid payload)"
| pointers_asked: "content_step C W al N (fst (sync_pointers_with C W N peer))"
| pointers_answered: "content_step C W al N (fst (receive_pointer_response C W N peer rid pm))"
| pointer_published: "content_step C W al N (fst (accept_pointer C N p))"
| wrapping_published: "content_step C W al N (fst (accept_wrapping C N w))"
| event_taken: "content_step C W al N (N\<lparr>cn_pending := tl (cn_pending N)\<rparr>)"
| environment: "content_step C W al N (N\<lparr>cn_log := L, cn_ledger := D, cn_tiers := ts\<rparr>)"

text \<open>What the invariant looks at.\<close>

definition same_fetch :: "'p content_node \<Rightarrow> 'p content_node \<Rightarrow> bool" where
  "same_fetch N M \<longleftrightarrow>
     cn_fetch M = cn_fetch N \<and> cn_fetch_requests M = cn_fetch_requests N \<and> cn_inflight M = cn_inflight N
     \<and> cn_provider_queries M = cn_provider_queries N \<and> cn_collection_queries M = cn_collection_queries N
     \<and> cn_sent M \<ge> cn_sent N \<and> cn_queries M = cn_queries N \<and> cn_discovery M = cn_discovery N"

lemma same_fetch_inv:
  assumes "content_inv W N" and "same_fetch N M"
  shows "content_inv W M"
proof -
  have "\<exists>n<cn_sent M. rid = sw_request_id W n" if rid: "rid \<in> dom (bm_get (cn_inflight N))" for rid
  proof -
    obtain n where "n < cn_sent N" "rid = sw_request_id W n"
      using assms(1) rid unfolding content_inv_def ids_ok_def by blast
    then show ?thesis
      using assms(2) by (intro exI [of _ n]) (simp add: same_fetch_def)
  qed
  then have "ids_ok W M"
    using assms by (simp add: content_inv_def same_fetch_def ids_ok_def)
  then show ?thesis
    using assms by (simp add: content_inv_def same_fetch_def requests_ok_def covered_def asked_def looked_up_def)
qed

lemma same_fetch_refl: "same_fetch N N"
  by (simp add: same_fetch_def)

lemma same_fetch_trans: "same_fetch N M \<Longrightarrow> same_fetch M K \<Longrightarrow> same_fetch N K"
  by (simp add: same_fetch_def)

lemma accept_wrapping_same: "same_fetch N (fst (accept_wrapping C N w)) \<and> cn_chunks (fst (accept_wrapping C N w)) = cn_chunks N"
  by (auto simp: same_fetch_def accept_wrapping_def Let_def split: sum.splits option.splits)

lemma accept_pointer_same: "same_fetch N (fst (accept_pointer C N p)) \<and> cn_chunks (fst (accept_pointer C N p)) = cn_chunks N"
  by (simp add: same_fetch_def accept_pointer_keeps)

lemma accept_wrappings_same:
  "same_fetch N (fst (accept_wrappings C ws N)) \<and> cn_chunks (fst (accept_wrappings C ws N)) = cn_chunks N"
proof (induction ws arbitrary: N)
  case (Cons w ws)
  have "fst (accept_wrappings C (w # ws) N) = fst (accept_wrappings C ws (fst (accept_wrapping C N w)))"
    by (simp add: Let_def split: prod.splits)
  then show ?case
    using Cons [of "fst (accept_wrapping C N w)"] accept_wrapping_same [of N C w] same_fetch_trans by metis
qed (simp add: same_fetch_refl)

lemma accept_records_same:
  "same_fetch N (fst (accept_records C rs N)) \<and> cn_chunks (fst (accept_records C rs N)) = cn_chunks N"
proof (induction rs arbitrary: N)
  case (Cons r rs)
  let ?N1 = "fst (accept_pointer C N (pr_pointer r))"
  have "fst (accept_records C (r # rs) N) = fst (accept_records C rs (fst (accept_wrappings C (pr_wrappings r) ?N1)))"
    by (simp add: Let_def split: prod.splits)
  then show ?case
    using Cons accept_wrappings_same [of ?N1 C "pr_wrappings r"] accept_pointer_same [of N C "pr_pointer r"]
      same_fetch_trans by metis
qed (simp add: same_fetch_refl)

lemma pointer_response_same:
  "same_fetch N (fst (receive_pointer_response C W N peer rid m))
    \<and> cn_chunks (fst (receive_pointer_response C W N peer rid m)) = cn_chunks N"
proof -
  have N: "same_fetch N (answered rid N) \<and> cn_chunks (answered rid N) = cn_chunks N"
    by (simp add: same_fetch_def answered_def)
  show ?thesis
  proof (cases m)
    case (PointerRecords rs t)
    have "fst (receive_pointer_response C W N peer rid m) \<in> {answered rid N, fst (accept_records C rs (answered rid N))}"
      unfolding receive_pointer_response_def answered_def [symmetric] PointerRecords by (auto simp: Let_def split: prod.splits)
    then show ?thesis
      using N accept_records_same [of "answered rid N" C rs] same_fetch_trans by (metis insertE singletonD)
  qed (use N in \<open>auto simp: receive_pointer_response_def answered_def [symmetric] Let_def request_pointers_def
      same_fetch_def\<close>)
qed

lemma content_step_inv:
  assumes "swarm_ok W" and "content_step C W al N N'" and "content_inv W N"
  shows "content_inv W N'"
  using assms(2,3)
proof (induction rule: content_step.induct)
  case (chunks_wanted N cids requester k)
  then show ?case
    by (simp add: fetch_chunks_def start_fetch_inv [OF assms(1)])
next
  case (object_wanted N obj m requester k)
  have "content_inv W (N\<lparr>cn_overrun_objects := os\<rparr>)" for os
    by (rule same_fetch_inv [OF object_wanted]) (simp add: same_fetch_def)
  then show ?case
    using object_wanted by (auto simp: fetch_object_def Let_def start_fetch_inv [OF assms(1)])
next
  case (chunk_asked N source cid requester)
  have "ids_ok W N"
    using chunk_asked by (simp add: content_inv_def)
  note sent = send_request [OF assms(1) this, of source "cq_create C requester cid"]
  then have "asked (request_chunk C W N source cid requester) c" if "asked N c" for c
    using that by (simp add: request_chunk_def same_but_sent_def)
  then show ?case
    using chunk_asked sent same_but_sent_fields [of N "request_chunk C W N source cid requester"]
    by (simp add: request_chunk_def content_inv_def requests_ok_def covered_def looked_up_def)
next
  case (collection_sought N cid)
  let ?N = "fst (enumerate_collection W N cid)"
  have "ids_ok W N"
    using collection_sought by (simp add: content_inv_def)
  then have "ids_ok W ?N"
    using fresh_query(1) [OF assms(1), of N] by (auto simp: enumerate_collection_def Let_def ids_ok_def less_Suc_eq domIff)
  moreover have "cn_fetch ?N = cn_fetch N" "cn_fetch_requests ?N = cn_fetch_requests N" "cn_inflight ?N = cn_inflight N"
      "cn_provider_queries ?N = cn_provider_queries N" "cn_discovery ?N = cn_discovery N"
    by (simp_all add: enumerate_collection_def Let_def)
  ultimately show ?case
    using collection_sought by (simp add: content_inv_def requests_ok_def covered_def asked_def looked_up_def)
next
  case (pointers_answered N peer rid pm)
  then show ?case
    by (rule same_fetch_inv) (simp add: pointer_response_same)
next
  case (pointer_published N p)
  then show ?case
    by (rule same_fetch_inv) (simp add: accept_pointer_same)
next
  case (wrapping_published N w)
  then show ?case
    by (rule same_fetch_inv) (simp add: accept_wrapping_same)
next
  case (chunk_answered N rid cm)
  then show ?case
    by (rule chunk_response_inv [OF assms(1)])
next
  case (chunk_lost N peer rid)
  then show ?case
    by (rule request_failed_inv [OF assms(1)])
next
  case (query_answered N qid peers is_last)
  then show ?case
    by (rule query_inv [OF assms(1)])
next
  case (chunk_stored N b)
  then show ?case
    by (rule same_fetch_inv) (simp add: same_fetch_def store_chunk_def announce_def case_prod_beta)
next
  case (chunk_forgotten N cid)
  then show ?case
    by (rule same_fetch_inv) (simp add: same_fetch_def forget_chunk_def case_prod_beta)
next
  case (entry_published N cid eid payload)
  then show ?case
    by (rule same_fetch_inv) (simp add: same_fetch_def publish_to_collection_def announce_def Let_def)
next
  case (collection_answered N peer rid lm)
  then show ?case
    by (rule same_fetch_inv) (simp add: same_fetch_def receive_collection_response_def split: option.splits)
qed (erule same_fetch_inv, simp add: same_fetch_def request_collection_def sync_pointers_with_def)+

text \<open>A node that was just built.\<close>

definition idle :: "'p content_node \<Rightarrow> bool" where
  "idle N \<longleftrightarrow>
     cn_fetch N = None \<and> cn_inflight N = [] \<and> cn_provider_queries N = [] \<and> cn_collection_queries N = []
     \<and> cn_fetch_requests N = []"

lemma idle_inv: "idle N \<Longrightarrow> content_inv W N"
  by (simp add: idle_def content_inv_def ids_ok_def requests_ok_def)

lemma reachable_inv:
  assumes "swarm_ok W" and "idle N" and "(content_step C W al)\<^sup>*\<^sup>* N N'"
  shows "content_inv W N'"
  using assms(3) by (induction rule: rtranclp_induct) (use assms(1,2) idle_inv content_step_inv in \<open>blast+\<close>)

section \<open>Properties\<close>

lemma in_flight_exists:
  assumes "fetch_inv P" and "0 < fp_inflight P"
  shows "\<exists>c. is_in_flight (bm_get (fp_chunks P) c)"
proof -
  have ok: "bm_ok (fp_chunks P)" and "bm_sum in_flight_of (fp_chunks P) \<noteq> 0"
    using assms by (auto simp: fetch_inv_def)
  then obtain v where v: "v \<in> set (bm_values (fp_chunks P))" "in_flight_of v \<noteq> 0"
    by (auto simp: bm_sum_def)
  have "is_in_flight (Some v)"
    using v(2) by (cases v) auto
  then show ?thesis
    using v(1) set_bm_values [OF ok] by metis
qed

text \<open>
  C18. A fetch never waits for nothing: in every state that a node with discovery reaches from its
  start, by whatever calls of the application, answers, failures, lookups and other traffic in
  whatever order, a fetch that is running and not complete has a chunk with a request still
  unanswered, or a chunk with a provider lookup still running. So as long as libp2p reports an
  outcome for every request and lookup, the fetch goes on.
\<close>

theorem fetch_never_waits_for_nothing:
  assumes "swarm_ok W" and "idle N0" and "(content_step C W al)\<^sup>*\<^sup>* N0 N" and "cn_discovery N"
    and "cn_fetch N = Some P" and "\<not> is_complete P"
  shows "\<exists>cid. is_in_flight (bm_get (fp_chunks P) cid) \<and> asked N cid
    \<or> bm_get (fp_chunks P) cid = Some AwaitingProviders \<and> looked_up N cid"
proof -
  have "content_inv W N"
    by (rule reachable_inv [OF assms(1-3)])
  then have cov: "covered N P" "driven P" and inv: "fetch_inv P"
    using assms(5) by (simp_all add: content_inv_def covered_def)
  obtain c st where st: "bm_get (fp_chunks P) c = Some st" "st \<notin> {Done, Exhausted, OverBudget}"
    using assms(6) inv set_bm_values [of "fp_chunks P"] by (auto simp: is_complete_def list_all_iff fetch_inv_def)
  then consider "st = AwaitingProviders" | "is_in_flight (Some st)" | cs n where "st = Ready cs n"
    by (cases st) auto
  then show ?thesis
  proof cases
    case 1
    then show ?thesis
      using st(1) cov(1) assms(4) by (auto simp: covered_def)
  next
    case 2
    then show ?thesis
      using st(1) cov(1) by (auto simp: covered_def intro!: exI [of _ c])
  next
    case 3
    then have "0 < fp_inflight P"
      using st(1) cov(2) inv by (auto simp: driven_def fetch_inv_def)
    then show ?thesis
      using in_flight_exists [OF inv] cov(1) by (auto simp: covered_def)
  qed
qed

theorem fetch_never_waits_for_nothing_witness:
  "\<exists>P. cn_fetch (fetch_chunks demo press_swarm [8] (who 2) 2 press_node) = Some P \<and> \<not> is_complete P
    \<and> (\<exists>cid. is_in_flight (bm_get (fp_chunks P) cid)
        \<and> asked (fetch_chunks demo press_swarm [8] (who 2) 2 press_node) cid
      \<or> bm_get (fp_chunks P) cid = Some AwaitingProviders
        \<and> looked_up (fetch_chunks demo press_swarm [8] (who 2) 2 press_node) cid)"
proof -
  let ?N = "fetch_chunks demo press_swarm [8] (who 2) 2 press_node"
  have idle: "idle press_node"
    by (simp add: idle_def press_node_def)
  have step: "(content_step demo press_swarm (\<lambda>_ _. False))\<^sup>*\<^sup>* press_node ?N"
    by (rule r_into_rtranclp, rule content_step.chunks_wanted)
  obtain P where P: "cn_fetch ?N = Some P" "\<not> is_complete P" "cn_discovery ?N"
    by (simp add: fetch_chunks_def start_fetch_def request_if_new_def find_providers_def drive_fetch_def
        next_requests_def plan_new_def plan_extend_def plan_want_def providers_needed_def in_state_def is_complete_def
        bm_values_def bm_contains_def rarest_first_def map_filter_def Let_def press_node_def)
  show ?thesis
    using P fetch_never_waits_for_nothing [OF press_swarm_simps(1) idle step P(3,1,2)] by blast
qed

lemma drive_chunks [simp]:
  "cn_chunks (drive_fetch W N) = cn_chunks N" "cn_pending (drive_fetch W N) = cn_pending N"
  "cn_discovery (drive_fetch W N) = cn_discovery N" "cn_provider_queries (drive_fetch W N) = cn_provider_queries N"
proof -
  have "cn_chunks (fold (send_for_fetch W) rs M) = cn_chunks M \<and> cn_pending (fold (send_for_fetch W) rs M) = cn_pending M
      \<and> cn_discovery (fold (send_for_fetch W) rs M) = cn_discovery M
      \<and> cn_provider_queries (fold (send_for_fetch W) rs M) = cn_provider_queries M" for rs M
  proof (induction rs arbitrary: M)
    case (Cons r rs)
    then show ?case
      by (simp add: send_for_fetch_def send_chunk_request_def split: option.splits)
  qed simp
  then show "cn_chunks (drive_fetch W N) = cn_chunks N" "cn_pending (drive_fetch W N) = cn_pending N"
      "cn_discovery (drive_fetch W N) = cn_discovery N" "cn_provider_queries (drive_fetch W N) = cn_provider_queries N"
    by (simp_all add: drive_fetch_def split: option.splits prod.splits)
qed

lemma push_completed_chunks [simp]:
  "cn_chunks (push_completed N) = cn_chunks N" "cn_discovery (push_completed N) = cn_discovery N"
  "cn_provider_queries (push_completed N) = cn_provider_queries N"
  by (simp_all add: push_completed_def completed_fetch_def split: option.splits)

lemma outcome_chunks [simp]:
  "cn_chunks (note_fetch_outcome W cid got N) = cn_chunks N"
  "cn_discovery (note_fetch_outcome W cid got N) = cn_discovery N"
  "cn_provider_queries (note_fetch_outcome W cid got N) = cn_provider_queries N"
  by (simp_all add: note_fetch_outcome_def split: option.splits)

lemma start_fetch_chunks: "cn_chunks (start_fetch C W wanted bud requester k N) = cn_chunks N"
proof -
  have "cn_chunks (fold (request_if_new C requester) cs M) = cn_chunks M"
      "cn_chunks (fold (find_providers W) cs M) = cn_chunks M" for cs M
    by (induction cs arbitrary: M) (simp_all add: request_if_new_def find_providers_def split: option.splits)
  then show ?thesis
    by (simp add: start_fetch_def Let_def)
qed

lemma admit_chunks: "cn_chunks (fst (admit_to_fetch W cid len N)) = cn_chunks N"
  by (simp add: admit_to_fetch_def case_prod_beta Let_def split: option.splits)

lemma chunk_response_store:
  assumes "store_ok C (cn_chunks N)"
  shows "store_ok C (cn_chunks (fst (receive_chunk_response C W N rid m)))"
proof -
  have "store_ok C (cn_chunks (fst (admit_to_fetch W cid len (M\<lparr>cn_chunks := cs\<rparr>)))) = store_ok C cs" for cid len M cs
    by (simp add: admit_chunks)
  then show ?thesis
    using assms store_ok_insert store_ok_remove
    by (auto simp: receive_chunk_response_def Let_def case_prod_beta announce_def admit_chunks
        split: option.splits chunk_response.splits sum.splits storage_error.splits)
qed

lemma content_step_store:
  assumes "content_step C W al N N'" and "store_ok C (cn_chunks N)"
  shows "store_ok C (cn_chunks N')"
  using assms
proof (induction rule: content_step.induct)
  case (chunk_answered N rid cm)
  then show ?case
    by (rule chunk_response_store)
next
  case (query_answered N qid peers is_last)
  then show ?case
    by (simp add: query_progressed_def Let_def split: option.splits prod.splits)
next
  case (pointers_answered N peer rid pm)
  then show ?case
    by (simp add: pointer_response_same)
next
  case (chunk_stored N b)
  then show ?case
    using store_ok_put [of C "cn_chunks N" b] by (simp add: store_chunk_def announce_def case_prod_beta)
next
  case (chunk_forgotten N cid)
  then show ?case
    using store_ok_remove [of C "cn_chunks N" cid] by (simp add: forget_chunk_def case_prod_beta)
qed (simp_all add: fetch_chunks_def fetch_object_def start_fetch_chunks request_chunk_def send_chunk_request_def
    chunk_request_failed_def enumerate_collection_def request_collection_def receive_collection_response_def
    publish_to_collection_def announce_def sync_pointers_with_def accept_pointer_same accept_wrapping_same Let_def
    split: option.splits prod.splits)

text \<open>
  C19. Content is never replaced: whatever bytes peers send in answer to requests, in every reachable
  state each chunk in the store hashes to its identifier, and whatever chunk the node serves hashes
  to the identifier that was asked for.
\<close>

theorem chunks_authentic:
  assumes "store_ok C (cn_chunks N0)" and "(content_step C W al)\<^sup>*\<^sup>* N0 N"
  shows "(bm_get (cn_chunks N) cid = Some b \<longrightarrow> cid_verifies C cid b)
    \<and> (answer_chunk_request C W N peer q = ChunkBytes b \<longrightarrow> cid_verifies C (cq_cid q) b)"
proof -
  have "store_ok C (cn_chunks N)"
    using assms(2,1) by (induction rule: rtranclp_induct) (blast intro: content_step_store)+
  then show ?thesis
    by (auto simp: store_ok_def answer_chunk_request_def serve_chunk_def split: option.splits sum.splits if_splits)
qed

theorem chunks_authentic_witness:
  "bm_get (cn_chunks (fst (store_chunk demo press_node [1, 2]))) 2 = Some [1, 2] \<and> cid_verifies demo 2 [1, 2]"
proof -
  let ?N = "fst (store_chunk demo press_node [1, 2])"
  have step: "(content_step demo press_swarm (\<lambda>_ _. False))\<^sup>*\<^sup>* press_node ?N"
    by (rule r_into_rtranclp, rule content_step.chunk_stored)
  have held: "bm_get (cn_chunks ?N) 2 = Some [1, 2]"
    by (simp add: store_chunk_def store_put_def announce_def cid_of_def hash_bytes_def)
  then show ?thesis
    using chunks_authentic [OF _ step, THEN conjunct1, of 2 "[1, 2]"] by (simp add: store_ok_def)
qed

text \<open>
  A fetch of chunks that are all held is never reported complete: no event is queued, and no
  request or lookup is started whose outcome could queue one, although the finished plan stays in
  place.
\<close>

theorem held_fetch_unreported:
  assumes "cn_fetch N = None" and "\<forall>cid\<in>set cids. bm_contains (cn_chunks N) cid"
  shows "\<exists>P. fetch_chunks C W cids requester k N = N\<lparr>cn_fetch := Some P\<rparr> \<and> is_complete P"
proof -
  have "filter (\<lambda>cid. \<not> bm_contains (cn_chunks N) cid) cids = []"
    using assms(2) by (simp add: filter_empty_conv)
  then have "fetch_chunks C W cids requester k N = N\<lparr>cn_fetch := Some (plan_new [] k)\<rparr>"
    using assms(1)
    by (simp add: fetch_chunks_def start_fetch_def Let_def plan_extend_def providers_needed_def in_state_def
        new_plan_covered(2) drive_fetch_def next_requests_def rarest_first_def map_filter_def)
  then show ?thesis
    by (intro exI [of _ "plan_new [] k"]) (simp add: is_complete_def bm_values_def new_plan_covered(2))
qed

theorem held_fetch_unreported_witness:
  "\<exists>P. fetch_chunks demo press_swarm [2] (who 2) 4 (fst (store_chunk demo press_node [1, 2])) =
      (fst (store_chunk demo press_node [1, 2]))\<lparr>cn_fetch := Some P\<rparr> \<and> is_complete P"
  by (rule held_fetch_unreported)
    (simp_all add: store_chunk_def store_put_def announce_def bm_contains_def cid_of_def hash_bytes_def)

lemma extend_awaiting:
  assumes "\<forall>p\<in>set (fp_chunks P). snd p = AwaitingProviders"
  shows "\<forall>p\<in>set (fp_chunks (plan_extend cids P)). snd p = AwaitingProviders"
proof -
  have want: "set (fp_chunks (plan_want c Q)) \<subseteq> insert (c, AwaitingProviders) (set (fp_chunks Q))" for c Q
    using set_bm_insert_subset [of c AwaitingProviders "fp_chunks Q"]
    by (simp add: plan_want_def split: option.split chunk_state.split) (simp add: subset_insertI)
  show ?thesis
    using assms unfolding plan_extend_def
  proof (induction cids arbitrary: P)
    case (Cons c cids)
    let ?Q = "P\<lparr>fp_unbudgeted := bs_insert c (fp_unbudgeted P)\<rparr>"
    have "\<forall>p\<in>set (fp_chunks (plan_want c ?Q)). snd p = AwaitingProviders"
      using Cons.prems want [of c ?Q] by auto
    then show ?case
      using Cons.IH by simp
  qed simp
qed

lemma no_find: "\<not> cn_discovery N \<Longrightarrow> fold (find_providers W) cs N = N"
  by (induction cs) (simp_all add: find_providers_def)

text \<open>
  Without discovery a fetch hangs: on an idle node that was built without discovery, fetching a
  chunk that is not held starts a plan that is not complete, sends no request and starts no lookup,
  so no event will ever end it. The peers the node is connected to are asked only after a lookup.
\<close>

theorem undiscovered_fetch_hangs:
  assumes "idle N" and "\<not> cn_discovery N" and "cid \<in> set cids" and "\<not> bm_contains (cn_chunks N) cid"
  shows "\<exists>P. cn_fetch (fetch_chunks C W cids requester k N) = Some P \<and> \<not> is_complete P
    \<and> cn_inflight (fetch_chunks C W cids requester k N) = []
    \<and> cn_provider_queries (fetch_chunks C W cids requester k N) = []
    \<and> cn_pending (fetch_chunks C W cids requester k N) = cn_pending N"
proof -
  define wanted where "wanted = filter (\<lambda>cid. \<not> bm_contains (cn_chunks N) cid) cids"
  define P where "P = plan_extend wanted (plan_new [] k)"
  obtain rs where rs: "fold (request_if_new C requester) wanted N = N\<lparr>cn_fetch_requests := rs\<rparr>"
    using wanted_requests(3) [OF _ refl] assms(1) by (force simp: idle_def requests_ok_def)
  have all: "\<forall>p\<in>set (fp_chunks P). snd p = AwaitingProviders"
    unfolding P_def by (rule extend_awaiting) (simp add: new_plan_covered(2))
  then have "List.map_filter holders_if_ready (fp_chunks P) = []"
    by (auto simp: map_filter_def filter_empty_conv)
  then have "next_requests P = (P, [])"
    by (simp add: next_requests_def rarest_first_def)
  then have "fetch_chunks C W cids requester k N = N\<lparr>cn_fetch_requests := rs, cn_fetch := Some P\<rparr>"
    using assms(1,2) rs
    by (simp add: fetch_chunks_def start_fetch_def Let_def wanted_def [symmetric] P_def [symmetric] no_find
        drive_fetch_def idle_def)
  moreover have "cid \<in> dom (bm_get (fp_chunks P))"
    using plan_extend_extends [of wanted "plan_new [] k"] assms(3,4) by (simp add: P_def extends_def wanted_def)
  then have "\<not> is_complete P"
    using all by (auto simp: is_complete_def list_all_iff bm_values_def dest!: map_of_SomeD)
  ultimately show ?thesis
    using assms(1) by (simp add: idle_def)
qed

theorem undiscovered_fetch_hangs_witness:
  "\<exists>P. cn_fetch (fetch_chunks demo press_swarm [8] (who 2) 4 (press_node\<lparr>cn_discovery := False\<rparr>)) = Some P
    \<and> \<not> is_complete P
    \<and> cn_inflight (fetch_chunks demo press_swarm [8] (who 2) 4 (press_node\<lparr>cn_discovery := False\<rparr>)) = []
    \<and> cn_provider_queries (fetch_chunks demo press_swarm [8] (who 2) 4 (press_node\<lparr>cn_discovery := False\<rparr>)) = []
    \<and> cn_pending (fetch_chunks demo press_swarm [8] (who 2) 4 (press_node\<lparr>cn_discovery := False\<rparr>)) =
        cn_pending (press_node\<lparr>cn_discovery := False\<rparr>)"
  by (rule undiscovered_fetch_hangs [where cid = 8]) (simp_all add: idle_def press_node_def bm_contains_def)

end
