(* ===== verification/Sync_Node.thy ===== *)
theory Sync_Node
  imports Protocol Invite Consensus Framing
begin

text \<open>
  Governance synchronization at the node (node.rs): the answer to a synchronization request, the
  handling of a response, and the exchange that the two make, first as the composition of the two
  handlers and then with every message carried over the wire. One exchange brings a node up to date
  with a peer, and two exchanges heal a partition.
\<close>

section \<open>Handlers\<close>

text \<open>What handling a response makes the node send to the same peer.\<close>

datatype sync_action = SendSync sync_request | SyncLedger | SyncPointers

text \<open>\<open>None\<close> stands for a walk through the log that does not end.\<close>

fun serve_sync :: "governance_log \<Rightarrow> sync_request \<Rightarrow> sync_response option" where
  "serve_sync L ReqHeads = Some (RespHeads (heads L))"
| "serve_sync L (ReqFetch wanted have_tips) =
     map_option (\<lambda>(es, truncated). RespEntries es truncated)
       (ancestors_first L wanted have_tips max_entries_per_response)"

fun insert_entries :: "crypto \<Rightarrow> log_entry list \<Rightarrow> governance_log \<Rightarrow> governance_log \<times> nat \<times> nat" where
  "insert_entries C [] L = (L, 0, 0)"
| "insert_entries C (e # es) L =
     (case log_insert C L e of
        Inr (_, L1) \<Rightarrow> (let (L', accepted, rejected) = insert_entries C es L1 in (L', Suc accepted, rejected))
      | Inl _ \<Rightarrow> (let (L', accepted, rejected) = insert_entries C es L in (L', accepted, Suc rejected)))"

record synced =
  sy_accepted :: nat
  sy_rejected :: nat
  sy_truncated :: bool

definition receive_sync_response ::
  "crypto \<Rightarrow> join_node \<Rightarrow> sync_response \<Rightarrow> join_node \<times> sync_action list \<times> synced option" where
  "receive_sync_response C N m =
     (case m of
        RespHeads hs \<Rightarrow>
          (let wanted = filter (\<lambda>h. log_get (jn_log N) h = None) hs
           in (N, if wanted = [] then [] else [SendSync (ReqFetch wanted (heads (jn_log N)))], None))
      | RespEntries es truncated \<Rightarrow>
          (let (L, accepted, rejected) = insert_entries C es (jn_log N);
               N1 = N\<lparr>jn_log := L\<rparr>;
               N2 = (if accepted > 0 then reconcile_waiting_room C N1 else N1)
           in (N2,
               (if truncated then [SendSync ReqHeads] else [])
                 @ (if accepted > 0 then [SyncLedger, SyncPointers] else []),
               Some \<lparr>sy_accepted = accepted, sy_rejected = rejected, sy_truncated = truncated\<rparr>)))"

text \<open>
  The handlers composed: what the node does with the answer of a peer that holds the log \<open>M\<close>, and the
  two steps of a round.
\<close>

definition exchange_sync ::
  "crypto \<Rightarrow> join_node \<Rightarrow> governance_log \<Rightarrow> sync_request \<Rightarrow>
     (join_node \<times> sync_action list \<times> synced option) option" where
  "exchange_sync C N M q = map_option (receive_sync_response C N) (serve_sync M q)"

definition sync_round ::
  "crypto \<Rightarrow> join_node \<Rightarrow> governance_log \<Rightarrow> (join_node \<times> sync_action list \<times> synced option) option" where
  "sync_round C N M =
     Option.bind (exchange_sync C N M ReqHeads) (\<lambda>(N1, acts, ev).
       case acts of
         [SendSync q] \<Rightarrow> exchange_sync C N1 M q
       | _ \<Rightarrow> Some (N1, acts, ev))"

text \<open>
  The same round as it takes place: every request and every response is encoded, cut at the ceiling of
  its type and decoded. A message that is not read ends the round with the reason.
\<close>

definition carry_sync_request :: "sync_request \<Rightarrow> wire_error + sync_request" where
  "carry_sync_request = carry default_max_message_bytes encode_request decode_request"

definition carry_sync_response :: "crypto \<Rightarrow> sync_response \<Rightarrow> wire_error + sync_response" where
  "carry_sync_response C = carry default_max_message_bytes encode_response (decode_response C)"

definition wire_exchange ::
  "crypto \<Rightarrow> join_node \<Rightarrow> governance_log \<Rightarrow> sync_request \<Rightarrow>
     (wire_error, wire_error) call_failure + join_node \<times> sync_action list \<times> synced option" where
  "wire_exchange C N M q =
     res_bind (call_peer carry_sync_request (serve_sync M) (carry_sync_response C) q) (\<lambda>m.
       Inr (receive_sync_response C N m))"

definition wire_round ::
  "crypto \<Rightarrow> join_node \<Rightarrow> governance_log \<Rightarrow>
     (wire_error, wire_error) call_failure + join_node \<times> sync_action list \<times> synced option" where
  "wire_round C N M =
     res_bind (wire_exchange C N M ReqHeads) (\<lambda>(N1, acts, ev).
       case acts of
         [SendSync q] \<Rightarrow> wire_exchange C N1 M q
       | _ \<Rightarrow> Inr (N1, acts, ev))"

section \<open>A response that is in order is inserted whole\<close>

fun orderly :: "crypto \<Rightarrow> b32 option \<Rightarrow> b32 set \<Rightarrow> log_entry list \<Rightarrow> bool" where
  "orderly C r K [] = True"
| "orderly C r K (e # es) =
     (entry_verify_signature C e = Inr ()
      \<and> (case le_parent e of
           None \<Rightarrow> is_genesis (le_body e) \<and> r = Some (entry_hash C e)
         | Some p \<Rightarrow> p \<in> K)
      \<and> orderly C r (insert (entry_hash C e) K) es)"

lemma orderly_insert:
  assumes "orderly C r K es" and "K \<subseteq> dom (bm_get (gl_entries L))" and "gl_root L = None \<or> gl_root L = r"
  shows "\<exists>L'. insert_all C L es = Inr L' \<and> insert_entries C es L = (L', length es, 0)"
  using assms
proof (induction es arbitrary: K L)
  case (Cons e es)
  obtain L1 where L1: "log_insert C L e = Inr (entry_hash C e, L1)"
    using Cons.prems by (auto simp: log_insert_Inr split: option.splits)
  then have "insert (entry_hash C e) K \<subseteq> dom (bm_get (gl_entries L1))" "gl_root L1 = None \<or> gl_root L1 = r"
    using Cons.prems by (auto simp: log_insert_Inr split: option.splits)
  then show ?case
    using Cons.IH [of "insert (entry_hash C e) K" L1] Cons.prems(1) L1 by auto
qed simp

lemma orderly_nth:
  assumes "\<And>i. i < length es \<Longrightarrow> entry_verify_signature C (es ! i) = Inr ()
      \<and> (case le_parent (es ! i) of
           None \<Rightarrow> is_genesis (le_body (es ! i)) \<and> r = Some (entry_hash C (es ! i))
         | Some p \<Rightarrow> p \<in> K \<or> (\<exists>j<i. entry_hash C (es ! j) = p))"
  shows "orderly C r K es"
  using assms
proof (induction es arbitrary: K)
  case (Cons e es)
  have "orderly C r (insert (entry_hash C e) K) es"
  proof (rule Cons.IH)
    fix i
    assume "i < length es"
    moreover have "(\<exists>j<Suc i. entry_hash C ((e # es) ! j) = p) \<longleftrightarrow>
        entry_hash C e = p \<or> (\<exists>j<i. entry_hash C (es ! j) = p)" for p
      by (auto simp: less_Suc_eq_0_disj)
    ultimately show "entry_verify_signature C (es ! i) = Inr ()
      \<and> (case le_parent (es ! i) of
           None \<Rightarrow> is_genesis (le_body (es ! i)) \<and> r = Some (entry_hash C (es ! i))
         | Some p \<Rightarrow> p \<in> insert (entry_hash C e) K \<or> (\<exists>j<i. entry_hash C (es ! j) = p))"
      using Cons.prems [of "Suc i"] by (auto split: option.splits)
  qed
  then show ?case
    using Cons.prems [of 0] by (auto split: option.splits)
qed simp

section \<open>What two logs have in common\<close>

definition agree :: "governance_log \<Rightarrow> governance_log \<Rightarrow> bool" where
  "agree L M \<longleftrightarrow>
     (\<forall>h e e'. bm_get (gl_entries L) h = Some e \<and> bm_get (gl_entries M) h = Some e' \<longrightarrow> e = e')"

abbreviation held :: "governance_log \<Rightarrow> b32 set" where
  "held L \<equiv> dom (bm_get (gl_entries L))"

abbreviation entries_of :: "governance_log \<Rightarrow> log_entry set" where
  "entries_of L \<equiv> ran (bm_get (gl_entries L))"

lemma entry_at:
  assumes "log_wf C L" and "bm_get (gl_entries L) h = Some e"
  shows "entry_hash C e = h" and "entry_verify_signature C e = Inr ()"
    and "case le_parent e of None \<Rightarrow> is_genesis (le_body e) \<and> gl_root L = Some h | Some p \<Rightarrow> p \<in> held L"
proof -
  show "entry_hash C e = h" "entry_verify_signature C e = Inr ()"
    using assms unfolding log_wf_def entries_wf_def by blast+
  have "case le_parent e of
      None \<Rightarrow> is_genesis (le_body e) \<and> gl_root L = Some h | Some p \<Rightarrow> bm_get (gl_entries L) p \<noteq> None"
    using assms unfolding log_wf_def entries_wf_def by blast
  then show "case le_parent e of None \<Rightarrow> is_genesis (le_body e) \<and> gl_root L = Some h | Some p \<Rightarrow> p \<in> held L"
    by (auto split: option.splits)
qed

lemma agree_collision_free:
  assumes "log_wf C L" "log_wf C M" and "inj_on (entry_hash C) (entries_of L \<union> entries_of M)"
  shows "agree L M"
  unfolding agree_def
proof (intro allI impI)
  fix h e e'
  assume e: "bm_get (gl_entries L) h = Some e \<and> bm_get (gl_entries M) h = Some e'"
  then have "entry_hash C e = entry_hash C e'"
    using entry_at(1) [OF assms(1)] entry_at(1) [OF assms(2)] by metis
  then show "e = e'"
    using inj_onD [OF assms(3)] e by (auto simp: ran_def)
qed

lemma wf_holds: "log_wf C L \<Longrightarrow> holds_exactly C (entries_of L) L"
  using entry_at(1) by (fastforce simp: holds_exactly_def ran_def)

lemma held_finite: "finite (held L)"
  by (simp add: dom_map_of_conv_image_fst)

lemma common_ancestors:
  assumes "agree L M" and "log_wf C L" "log_wf C M" and "t \<in> held L"
  shows "ancestors M t \<subseteq> held L"
proof -
  obtain ps where ps: "up M t ps" "ancestors M t = set ps"
    using ancestry_total [OF assms(3)] depth_up [OF assms(3)] by metis
  from ps(1) assms(4) have "set ps \<subseteq> held L"
  proof induction
    case (step h p ps)
    obtain e e' where e: "bm_get (gl_entries M) h = Some e" "le_parent e = Some p" "bm_get (gl_entries L) h = Some e'"
      using step.hyps(1) step.prems by (auto simp: parent_of_def bind_eq_Some_conv)
    then have "e' = e"
      using assms(1) by (auto simp: agree_def)
    then have "p \<in> held L"
      using entry_at(3) [OF assms(2) e(3)] e(2) by simp
    then show ?case
      using step by auto
  qed simp
  then show ?thesis
    using ps(2) by simp
qed

text \<open>Every entry lies below some head.\<close>

lemma set_heads:
  "log_wf C M \<Longrightarrow> set (heads M) = {h \<in> held M. \<forall>c. parent_of M c \<noteq> Some h}"
proof -
  assume wf: "log_wf C M"
  then have ch: "children_wf M"
    by (simp add: log_wf_def)
  then have "(case bm_get (gl_children M) h of None \<Rightarrow> True | Some cs \<Rightarrow> cs = []) \<longleftrightarrow> kids M h = []" for h
    by (simp add: kids_def split: option.splits)
  moreover have "kids M h = [] \<longleftrightarrow> (\<forall>c. parent_of M c \<noteq> Some h)" for h
    using ch by (metis children_wf_def empty_iff list.set(1) list.set_intros(1) neq_Nil_conv)
  ultimately show ?thesis
    by (simp add: heads_def set_bm_keys)
qed

lemma heads_cover:
  assumes "log_wf C M" and "h \<in> held M"
  shows "\<exists>t\<in>set (heads M). h \<in> ancestors M t"
proof -
  let ?D = "{d \<in> held M. h \<in> ancestors M d}"
  have "finite ?D" "h \<in> ?D"
    using held_finite assms self_ancestor by auto
  then obtain d where d: "d \<in> ?D" "\<forall>c\<in>?D. depth M c \<le> depth M d"
    using Max_ge [of "depth M ` ?D"] Max_in [of "depth M ` ?D"] by fastforce
  have "parent_of M c \<noteq> Some d" for c
  proof
    assume c: "parent_of M c = Some d"
    then have "c \<in> ?D"
      using d(1) depth_parent(2) [OF assms(1) c] by (auto simp: parent_of_def bind_eq_Some_conv)
    then show False
      using d(2) depth_parent(1) [OF assms(1) c] by auto
  qed
  then show ?thesis
    using d(1) set_heads [OF assms(1)] by auto
qed

section \<open>One exchange\<close>

text \<open>What a peer sends in answer to the request that the node derives from the peer's heads.\<close>

definition missing_heads :: "governance_log \<Rightarrow> governance_log \<Rightarrow> b32 list" where
  "missing_heads L M = filter (\<lambda>h. log_get L h = None) (heads M)"

lemma needed_present: "log_wf C M \<Longrightarrow> needed_set M wanted have_tips \<subseteq> held M"
  using ancestors_present [of C M] unfolding needed_set_def by blast

lemma needed_missing:
  assumes "agree L M" and "log_wf C L" "log_wf C M" and "missing_heads L M = wanted"
  shows "held M - held L \<subseteq> needed_set M wanted (heads L)" and "needed_set M wanted (heads L) \<subseteq> held M"
proof -
  show "needed_set M wanted (heads L) \<subseteq> held M"
    by (rule needed_present [OF assms(3)])
  have have_tips: "ancestors M t \<subseteq> held L" if "t \<in> set (heads L)" for t
    using common_ancestors [OF assms(1-3)] that set_heads [OF assms(2)] by auto
  show "held M - held L \<subseteq> needed_set M wanted (heads L)"
  proof
    fix h
    assume h: "h \<in> held M - held L"
    then obtain t where t: "t \<in> set (heads M)" "h \<in> ancestors M t"
      using heads_cover [OF assms(3)] by blast
    then have "t \<in> held M" "t \<notin> held L"
      using set_heads [OF assms(3)] common_ancestors [OF assms(1-3), of t] h by auto
    then have "t \<in> set wanted" "bm_get (gl_entries M) t \<noteq> None"
      using t(1) assms(4) by (auto simp: missing_heads_def log_get_def)
    then show "h \<in> needed_set M wanted (heads L)"
      using t(2) h have_tips by (fastforce simp: needed_set_def)
  qed
qed

lemma response_orderly:
  fixes n :: nat
  assumes "agree L M" and "log_wf C L" "log_wf C M" and "set needed = needed_set M wanted (heads L)"
  defines "es \<equiv> map (\<lambda>p. the (bm_get (gl_entries M) (snd p))) (take n (sort (map (\<lambda>h. (depth M h, h)) needed)))"
  shows "orderly C (gl_root M) (held L) es" and "set es \<subseteq> entries_of M"
proof -
  have "\<exists>h. bm_get (gl_entries M) h = Some e" if "e \<in> set es" for e
  proof -
    obtain p where p: "p \<in> set (take n (sort (map (\<lambda>h. (depth M h, h)) needed)))"
        "e = the (bm_get (gl_entries M) (snd p))"
      using \<open>e \<in> set es\<close> by (auto simp: es_def)
    have "snd p \<in> set needed"
      using in_set_takeD [OF p(1)] by auto
    then have "snd p \<in> held M"
      using needed_present [OF assms(3)] assms(4) by blast
    then show ?thesis
      using p(2) by auto
  qed
  then show sub: "set es \<subseteq> entries_of M"
    by (auto simp: ran_def)
  show "orderly C (gl_root M) (held L) es"
  proof (rule orderly_nth)
    fix i
    assume i: "i < length es"
    then obtain h where h: "bm_get (gl_entries M) h = Some (es ! i)"
      using sub by (force simp: ran_def)
    have "p \<in> held L \<or> (\<exists>j<i. entry_hash C (es ! j) = p)" if p: "le_parent (es ! i) = Some p" for p
    proof -
      have "(\<exists>j<i. entry_hash C (es ! j) = p) \<or> (\<exists>t\<in>set (heads L). p \<in> ancestors M t)"
        using ordered_insertable(2) [OF assms(3,4), of n] i p by (simp add: es_def)
      then show ?thesis
        using common_ancestors [OF assms(1-3)] set_heads [OF assms(2)] by blast
    qed
    then show "entry_verify_signature C (es ! i) = Inr ()
      \<and> (case le_parent (es ! i) of
           None \<Rightarrow> is_genesis (le_body (es ! i)) \<and> gl_root M = Some (entry_hash C (es ! i))
         | Some p \<Rightarrow> p \<in> held L \<or> (\<exists>j<i. entry_hash C (es ! j) = p))"
      using entry_at [OF assms(3) h] by (auto split: option.splits)
  qed
qed

lemma jn_log_reconcile [simp]: "jn_log (reconcile_waiting_room C N) = jn_log N"
  by (simp add: reconcile_waiting_room_def split: option.splits)

text \<open>The entries that an exchange adds, and that none of them is rejected.\<close>

lemma round_adds:
  assumes wf: "log_wf C (jn_log N)" "log_wf C M"
    and inj: "inj_on (entry_hash C) (entries_of (jn_log N) \<union> entries_of M)"
    and root: "gl_root (jn_log N) = None \<or> gl_root (jn_log N) = gl_root M"
    and small: "card (held M) \<le> max_entries_per_response"
  shows "\<exists>N' acts ev. sync_round C N M = Some (N', acts, ev)
    \<and> log_wf C (jn_log N') \<and> holds_exactly C (entries_of (jn_log N) \<union> entries_of M) (jn_log N')
    \<and> gl_finalized (jn_log N') = gl_finalized (jn_log N)
    \<and> (\<forall>s. ev = Some s \<longrightarrow> sy_rejected s = 0 \<and> \<not> sy_truncated s)"
proof -
  let ?L = "jn_log N"
  define wanted where "wanted = missing_heads ?L M"
  have ag: "agree ?L M"
    by (rule agree_collision_free [OF wf inj])
  obtain needed where needed: "bs_ok needed" "set needed = needed_set M wanted (heads ?L)"
    "ancestors_first M wanted (heads ?L) max_entries_per_response =
       (let ordered = sort (map (\<lambda>h. (depth M h, h)) needed) in
        Some (map (\<lambda>p. the (bm_get (gl_entries M) (snd p))) (take max_entries_per_response ordered),
          length ordered > max_entries_per_response))"
    by (rule ancestors_first_unfold [OF wf(2)])
  define ordered where "ordered = sort (map (\<lambda>h. (depth M h, h)) needed)"
  define es where "es = map (\<lambda>p. the (bm_get (gl_entries M) (snd p))) (take max_entries_per_response ordered)"
  note miss = needed_missing [OF ag wf wanted_def [symmetric]]
  have len: "length ordered \<le> max_entries_per_response"
  proof -
    have "length ordered = card (set needed)"
      using bs_ok_distinct [OF needed(1)] by (simp add: ordered_def distinct_card)
    also have "\<dots> \<le> card (held M)"
      using miss(2) needed(2) held_finite by (simp add: card_mono)
    finally show ?thesis
      using small by simp
  qed
  have order: "orderly C (gl_root M) (held ?L) es" "set es \<subseteq> entries_of M"
    using response_orderly [OF ag wf needed(2), of max_entries_per_response] by (simp_all add: es_def ordered_def)
  obtain L' where L': "insert_all C ?L es = Inr L'" "insert_entries C es ?L = (L', length es, 0)"
    using orderly_insert [OF order(1) subset_refl root] by blast
  have inj': "inj_on (entry_hash C) (entries_of ?L \<union> set es)"
    using inj by (rule inj_on_subset) (use order(2) in auto)
  have hashes: "entry_hash C ` set es = needed_set M wanted (heads ?L)"
    using ordered_insertable(3) [OF wf(2) needed(2), of max_entries_per_response] len by (simp add: es_def ordered_def)
  have covered: "entries_of ?L \<union> set es = entries_of ?L \<union> entries_of M"
  proof -
    have "e \<in> entries_of ?L \<union> set es" if "e \<in> entries_of M" for e
    proof -
      obtain h where h: "bm_get (gl_entries M) h = Some e"
        using \<open>e \<in> entries_of M\<close> by (auto simp: ran_def)
      show ?thesis
      proof (cases "h \<in> held ?L")
        case True
        then show ?thesis
          using ag h by (auto simp: agree_def ran_def)
      next
        case False
        then have "h \<in> entry_hash C ` set es"
          using miss(1) h hashes by auto
        then obtain e' where "e' \<in> set es" "entry_hash C e' = entry_hash C e"
          using entry_at(1) [OF wf(2) h] by auto
        then show ?thesis
          using inj_onD [OF inj, of e' e] order(2) that by auto
      qed
    qed
    then show ?thesis
      using order(2) by auto
  qed
  have done_: "log_wf C L' \<and> holds_exactly C (entries_of ?L \<union> entries_of M) L'
      \<and> gl_finalized L' = gl_finalized ?L"
    using insert_all_holds [OF L'(1) wf(1) wf_holds [OF wf(1)] inj'] covered by simp
  show ?thesis
  proof (cases "wanted = []")
    case True
    then have "needed_set M wanted (heads ?L) = {}"
      by (simp add: needed_set_def)
    then have "es = []"
      using hashes by simp
    then have "sync_round C N M = Some (N, [], None)" "L' = ?L"
      using True L'(1) by (simp_all add: sync_round_def exchange_sync_def receive_sync_response_def
          wanted_def missing_heads_def)
    then show ?thesis
      using done_ by simp
  next
    case False
    have sent: "ancestors_first M wanted (heads ?L) max_entries_per_response = Some (es, False)"
      using needed(3) len by (simp add: Let_def es_def ordered_def [symmetric])
    have "sync_round C N M = exchange_sync C N M (ReqFetch wanted (heads ?L))"
      using False by (simp add: sync_round_def exchange_sync_def receive_sync_response_def Let_def
          missing_heads_def [symmetric] wanted_def [symmetric])
    also have "\<dots> = Some (receive_sync_response C N (RespEntries es False))"
      by (simp add: exchange_sync_def sent)
    finally show ?thesis
      using done_ L'(2) by (simp add: receive_sync_response_def)
  qed
qed

section \<open>Messages that fit\<close>

text \<open>The bytes that entries take up in a response, each with the length before it.\<close>

definition volume :: "log_entry set \<Rightarrow> nat" where
  "volume E = (\<Sum>e\<in>E. 8 + length (encode_entry e))"

lemma volume_mono: "finite F \<Longrightarrow> E \<subseteq> F \<Longrightarrow> volume E \<le> volume F"
  by (simp add: volume_def sum_mono2)

lemma length_hashes: "length (put_seq put_fixed32 hs) = 8 + 32 * length hs"
  by (induction hs) (simp_all add: put_seq_def)

lemma length_response:
  "length (encode_response (RespHeads hs)) = 47 + 32 * length hs"
  "length (encode_response (RespEntries es t)) = 48 + (\<Sum>e\<leftarrow>es. 8 + length (encode_entry e))"
proof -
  have "length (put_seq (\<lambda>e. put_bytes (encode_entry e)) es) = 8 + (\<Sum>e\<leftarrow>es. 8 + length (encode_entry e))"
    by (induction es) (simp_all add: put_seq_def)
  then show "length (encode_response (RespEntries es t)) = 48 + (\<Sum>e\<leftarrow>es. 8 + length (encode_entry e))"
    by (simp add: encode_response_def response_domain_def)
qed (simp add: encode_response_def response_domain_def length_hashes)

lemma length_request: "length (encode_request (ReqFetch w h)) = 54 + 32 * (length w + length h)"
  by (simp add: encode_request_def request_domain_def length_hashes)

lemma heads_few: "log_wf C M \<Longrightarrow> length (heads M) \<le> card (held M)"
proof -
  assume "log_wf C M"
  then have "card (held M) = length (gl_entries M)"
    by (simp add: log_wf_def entries_wf_def dom_entries)
  then show ?thesis
    using length_filter_le [of _ "bm_keys (gl_entries M)"] by (simp add: heads_def bm_keys_def)
qed

lemma heads_carried:
  "carry_sync_request ReqHeads = Inr ReqHeads"
  "length hs \<le> max_entries_per_response \<Longrightarrow> carry_sync_response C (RespHeads hs) = Inr (RespHeads hs)"
  unfolding carry_sync_request_def carry_sync_response_def
  by (rule sync_request_wire.arrives sync_response_wire.arrives;
      simp add: encode_request_def request_domain_def length_response default_max_message_bytes_def
        max_entries_per_response_def seq_ok_def len_ok_def list_all_iff)+

lemma fetch_carried:
  assumes "length w \<le> max_entries_per_response" and "length h \<le> max_entries_per_response"
  shows "carry_sync_request (ReqFetch w h) = Inr (ReqFetch w h)"
  unfolding carry_sync_request_def
  by (rule sync_request_wire.arrives)
    (use assms in \<open>simp_all add: length_request default_max_message_bytes_def max_entries_per_response_def
      seq_ok_def len_ok_def list_all_iff\<close>)

lemma entries_carried:
  assumes "distinct es" and "set es \<subseteq> E" and "finite E" and "\<forall>e\<in>E. entry_sound C e"
    and "length es \<le> max_entries_per_response" and "volume E + 48 \<le> default_max_message_bytes"
  shows "carry_sync_response C (RespEntries es t) = Inr (RespEntries es t)"
  unfolding carry_sync_response_def
proof (rule sync_response_wire.arrives)
  have "(\<Sum>e\<leftarrow>es. 8 + length (encode_entry e)) = volume (set es)"
    unfolding volume_def by (rule sum_list_distinct_conv_sum_set [OF assms(1)])
  then have size: "(\<Sum>e\<leftarrow>es. 8 + length (encode_entry e)) + 48 \<le> default_max_message_bytes"
    using volume_mono [OF assms(3,2)] assms(6) by simp
  then show "length (encode_response (RespEntries es t)) \<le> default_max_message_bytes"
    by (simp add: length_response)
  have "8 + length (encode_entry e) \<le> (\<Sum>e\<leftarrow>es. 8 + length (encode_entry e))" if "e \<in> set es" for e
    using member_le_sum_list [of "8 + length (encode_entry e)" "map (\<lambda>e. 8 + length (encode_entry e)) es"] that
    by simp
  then have "len_ok (encode_entry e)" if "e \<in> set es" for e
    using size that by (fastforce simp: len_ok_def default_max_message_bytes_def)
  then show "sync_response_ok C (RespEntries es t)"
    using assms(2,4,5) by (auto simp: list_all_iff seq_ok_def len_ok_def max_entries_per_response_def)
qed

text \<open>What a peer answers to a request for entries arrives, if everything it holds can be sent at once.\<close>

lemma served_entries:
  assumes "log_wf C M" and "ancestors_first M wanted have_tips max_entries_per_response = Some (es, t)"
  shows "distinct es" and "set es \<subseteq> entries_of M" and "length es \<le> max_entries_per_response"
proof -
  obtain needed where needed: "bs_ok needed" "set needed = needed_set M wanted have_tips"
    "ancestors_first M wanted have_tips max_entries_per_response =
       (let ordered = sort (map (\<lambda>h. (depth M h, h)) needed) in
        Some (map (\<lambda>p. the (bm_get (gl_entries M) (snd p))) (take max_entries_per_response ordered),
          length ordered > max_entries_per_response))"
    by (rule ancestors_first_unfold [OF assms(1)])
  define hs where "hs = map snd (take max_entries_per_response (sort (map (\<lambda>h. (depth M h, h)) needed)))"
  have es: "es = map (\<lambda>h. the (bm_get (gl_entries M) h)) hs"
    using needed(3) assms(2) by (simp add: hs_def Let_def comp_def)
  have "inj_on snd (set (map (\<lambda>h. (depth M h, h)) needed))"
    by (auto simp: inj_on_def)
  then have hs: "distinct hs" "set hs \<subseteq> held M"
    using bs_ok_distinct [OF needed(1)] needed_present [OF assms(1), of wanted have_tips] needed(2)
    by (auto simp: hs_def distinct_map inj_on_def dest!: in_set_takeD intro!: distinct_take)
  have "entry_hash C (the (bm_get (gl_entries M) h)) = h" if "h \<in> set hs" for h
    using hs(2) that entry_at(1) [OF assms(1)] by force
  then have "inj_on (\<lambda>h. the (bm_get (gl_entries M) h)) (set hs)"
    by (metis inj_on_inverseI)
  then show "distinct es"
    using hs(1) by (simp add: es distinct_map)
  show "set es \<subseteq> entries_of M"
    using hs(2) by (force simp: es ran_def)
  show "length es \<le> max_entries_per_response"
    by (simp add: es hs_def)
qed

definition sendable_log :: "crypto \<Rightarrow> governance_log \<Rightarrow> bool" where
  "sendable_log C M \<longleftrightarrow>
     (\<forall>e\<in>entries_of M. entry_ok C e) \<and> card (held M) \<le> max_entries_per_response
     \<and> volume (entries_of M) + 48 \<le> default_max_message_bytes"

lemma wire_round_sync:
  assumes "log_wf C (jn_log N)" and "log_wf C M" and "sendable_log C M"
    and "card (held (jn_log N)) \<le> max_entries_per_response" and "sync_round C N M = Some r"
  shows "wire_round C N M = Inr r"
proof -
  have few: "length (heads M) \<le> max_entries_per_response" "length (heads (jn_log N)) \<le> max_entries_per_response"
    using heads_few [OF assms(1)] heads_few [OF assms(2)] assms(3,4) by (simp_all add: sendable_log_def)
  let ?w = "missing_heads (jn_log N) M"
  have first: "wire_exchange C N M ReqHeads = Inr (receive_sync_response C N (RespHeads (heads M)))"
    by (simp add: wire_exchange_def call_peer_def heads_carried few)
  show ?thesis
  proof (cases "?w = []")
    case True
    then show ?thesis
      using assms(5) first
      by (auto simp: wire_round_def sync_round_def exchange_sync_def receive_sync_response_def missing_heads_def)
  next
    case False
    have "length ?w \<le> max_entries_per_response"
      unfolding missing_heads_def using few(1) length_filter_le le_trans by blast
    note asked = fetch_carried [OF this few(2)]
    obtain es t where es: "ancestors_first M ?w (heads (jn_log N)) max_entries_per_response = Some (es, t)"
      using ancestors_first_unfold [OF assms(2)] by (metis (no_types, lifting) surj_pair)
    have "finite (entries_of M)"
      by (simp add: finite_ran held_finite)
    moreover have "\<forall>e\<in>entries_of M. entry_sound C e"
      using assms(3) entry_at(2) [OF assms(2)] by (auto simp: sendable_log_def entry_sound_def ran_def)
    ultimately have "carry_sync_response C (RespEntries es t) = Inr (RespEntries es t)"
      using served_entries [OF assms(2) es] assms(3) by (auto intro: entries_carried simp: sendable_log_def)
    then have "wire_exchange C N M (ReqFetch ?w (heads (jn_log N))) = Inr (receive_sync_response C N (RespEntries es t))"
      by (simp add: wire_exchange_def call_peer_def asked es)
    then show ?thesis
      using assms(5) first False es
      by (simp add: wire_round_def sync_round_def exchange_sync_def receive_sync_response_def Let_def missing_heads_def)
  qed
qed

section \<open>Catching up and healing\<close>

text \<open>
  One exchange catches up: whatever branches a node and its peer hold, as long as both logs grew
  from the same genesis entry (or the node has none yet) and the peer's fits into one response, the
  node ends with exactly the entries of both logs. Nothing that was sent is rejected, nothing was cut,
  and the finality the node had reached is untouched. The hash is assumed to have no collision among
  the entries the two hold.
\<close>

theorem sync_catches_up:
  assumes "(log_step C)\<^sup>*\<^sup>* empty_log (jn_log N)" and "(log_step C)\<^sup>*\<^sup>* empty_log M"
    and "inj_on (entry_hash C) (entries_of (jn_log N) \<union> entries_of M)"
    and "gl_root (jn_log N) = None \<or> gl_root (jn_log N) = gl_root M"
    and "card (held M) \<le> max_entries_per_response"
  shows "\<exists>N' acts ev. sync_round C N M = Some (N', acts, ev)
    \<and> log_wf C (jn_log N') \<and> entries_of (jn_log N') = entries_of (jn_log N) \<union> entries_of M
    \<and> gl_finalized (jn_log N') = gl_finalized (jn_log N)
    \<and> (\<forall>s. ev = Some s \<longrightarrow> sy_rejected s = 0 \<and> \<not> sy_truncated s)"
proof -
  have "entries_of L = S" if "holds_exactly C S L" for S L
    using that by (auto simp: holds_exactly_def ran_def)
  then show ?thesis
    using round_adds [OF reachable_wf [OF assms(1)] reachable_wf [OF assms(2)] assms(3-5)] by blast
qed

lemma held_entries: "log_wf C L \<Longrightarrow> held L = entry_hash C ` entries_of L"
  using entry_at(1) by (force simp: ran_def)

lemma rooted_same:
  assumes "log_wf C L" and "holds_exactly C (entries_of A \<union> entries_of B) L"
    and "gl_root A = Some r" and "log_wf C A"
  shows "gl_root L = Some r"
proof -
  obtain e where e: "bm_get (gl_entries A) r = Some e" "le_parent e = None"
    using assms(3,4) by (auto simp: log_wf_def rooted_def parent_of_def)
  then have "bm_get (gl_entries L) r = Some e"
    using assms(2) entry_at(1) [OF assms(4) e(1)] by (auto simp: holds_exactly_def ran_def)
  then show ?thesis
    using entry_at(3) [OF assms(1)] e(2) by fastforce
qed

text \<open>The handlers alone: two rounds between nodes whose logs together fit into one response.\<close>

lemma rounds_heal:
  assumes wf: "log_wf C (jn_log N)" "log_wf C (jn_log M)"
    and "inj_on (entry_hash C) (entries_of (jn_log N) \<union> entries_of (jn_log M))"
    and "gl_root (jn_log N) = gl_root (jn_log M)" and "gl_finalized (jn_log N) = gl_finalized (jn_log M)"
    and "card (held (jn_log N) \<union> held (jn_log M)) \<le> max_entries_per_response"
  shows "\<exists>N' M' a b e f. sync_round C N (jn_log M) = Some (N', a, e)
    \<and> sync_round C M (jn_log N') = Some (M', b, f)
    \<and> jn_log N' = jn_log M' \<and> entries_of (jn_log N') = entries_of (jn_log N) \<union> entries_of (jn_log M)
    \<and> log_wf C (jn_log N')"
proof -
  let ?S = "entries_of (jn_log N) \<union> entries_of (jn_log M)"
  have "card (held (jn_log M)) \<le> card (held (jn_log N) \<union> held (jn_log M))"
    by (rule card_mono) (simp_all add: held_finite)
  then have small: "card (held (jn_log M)) \<le> max_entries_per_response"
    using assms(6) by simp
  obtain N' a e where N': "sync_round C N (jn_log M) = Some (N', a, e)" "log_wf C (jn_log N')"
      "holds_exactly C ?S (jn_log N')" "gl_finalized (jn_log N') = gl_finalized (jn_log N)"
    using round_adds [OF wf assms(3) disjI2 [OF assms(4)] small] by blast
  have ent: "entries_of (jn_log N') = ?S"
    using N'(3) by (auto simp: holds_exactly_def ran_def)
  have held': "held (jn_log N') = held (jn_log N) \<union> held (jn_log M)"
    using held_entries [OF N'(2)] held_entries [OF wf(1)] held_entries [OF wf(2)] ent by (simp add: image_Un)
  have root: "gl_root (jn_log M) = None \<or> gl_root (jn_log M) = gl_root (jn_log N')"
    using rooted_same [OF N'(2,3) _ wf(1)] assms(4) by (cases "gl_root (jn_log M)") auto
  have inj: "inj_on (entry_hash C) (entries_of (jn_log M) \<union> entries_of (jn_log N'))"
    using assms(3) ent by (simp add: Un_ac)
  obtain M' b f where M': "sync_round C M (jn_log N') = Some (M', b, f)" "log_wf C (jn_log M')"
      "holds_exactly C (entries_of (jn_log M) \<union> entries_of (jn_log N')) (jn_log M')"
      "gl_finalized (jn_log M') = gl_finalized (jn_log M)"
    using round_adds [OF wf(2) N'(2) inj root] assms(6) held' by auto
  have "entries_of (jn_log M) \<union> entries_of (jn_log N') = ?S"
    using ent by auto
  then have "bm_get (gl_entries (jn_log N')) h = Some x \<longleftrightarrow> bm_get (gl_entries (jn_log M')) h = Some x" for h x
    using N'(3) M'(3) unfolding holds_exactly_def by simp
  then have "bm_get (gl_entries (jn_log N')) = bm_get (gl_entries (jn_log M'))"
    by (metis ext option.exhaust)
  then have "jn_log N' = jn_log M'"
    using log_ext [OF N'(2) M'(2)] N'(4) M'(4) assms(5) by simp
  then show ?thesis
    using N'(1,2) M'(1) ent by (intro exI [of _ N'] exI [of _ M'] exI) (auto simp: Un_ac)
qed

text \<open>
  C12. Partitions heal: two nodes that share a genesis entry and the point up to which their logs are
  final, and that went on separately, hold equal logs once each has completed one exchange with the
  other. Hence they agree on the canonical chain and on the state it replays to, and no entry of either
  side was lost. Every message crosses the wire: it is encoded, cut at 8 MiB and decoded. The conditions
  under which it heals are that both logs together hold at most 512 entries, that their encodings
  together fit into one message, that the decoder accepts every entry (its ceilings on commits, relays
  and keys are met), and that the hash has no collision among them.
\<close>

theorem partition_heals:
  assumes "(log_step C)\<^sup>*\<^sup>* empty_log (jn_log N)" and "(log_step C)\<^sup>*\<^sup>* empty_log (jn_log M)"
    and "inj_on (entry_hash C) (entries_of (jn_log N) \<union> entries_of (jn_log M))"
    and "gl_root (jn_log N) = gl_root (jn_log M)" and "gl_finalized (jn_log N) = gl_finalized (jn_log M)"
    and "card (held (jn_log N) \<union> held (jn_log M)) \<le> max_entries_per_response"
    and "\<forall>e\<in>entries_of (jn_log N) \<union> entries_of (jn_log M). entry_ok C e"
    and "volume (entries_of (jn_log N) \<union> entries_of (jn_log M)) + 48 \<le> default_max_message_bytes"
  shows "\<exists>N' M' a b e f. wire_round C N (jn_log M) = Inr (N', a, e)
    \<and> wire_round C M (jn_log N') = Inr (M', b, f)
    \<and> jn_log N' = jn_log M' \<and> node_state C (jn_log N') = node_state C (jn_log M')
    \<and> entries_of (jn_log N') = entries_of (jn_log N) \<union> entries_of (jn_log M)"
proof -
  let ?S = "entries_of (jn_log N) \<union> entries_of (jn_log M)"
  have wf: "log_wf C (jn_log N)" "log_wf C (jn_log M)"
    using reachable_wf assms(1,2) by blast+
  obtain N' M' a b e f where r: "sync_round C N (jn_log M) = Some (N', a, e)"
      "sync_round C M (jn_log N') = Some (M', b, f)" "jn_log N' = jn_log M'" "entries_of (jn_log N') = ?S"
      "log_wf C (jn_log N')"
    using rounds_heal [OF wf assms(3-6)] by blast
  have sub: "finite (held (jn_log N) \<union> held (jn_log M))" "finite ?S"
    using held_finite by (simp_all add: finite_ran)
  have held': "held (jn_log N') = held (jn_log N) \<union> held (jn_log M)"
    using held_entries [OF r(5)] held_entries [OF wf(1)] held_entries [OF wf(2)] r(4) by (simp add: image_Un)
  have few: "card (held (jn_log N)) \<le> max_entries_per_response" "card (held (jn_log M)) \<le> max_entries_per_response"
    using card_mono [OF sub(1)] assms(6) by (meson Un_upper1 Un_upper2 le_trans)+
  have "sendable_log C (jn_log M)"
    using few(2) assms(7,8) volume_mono [OF sub(2), of "entries_of (jn_log M)"] by (simp add: sendable_log_def)
  moreover have "sendable_log C (jn_log N')"
    using assms(6-8) held' r(4) by (simp add: sendable_log_def)
  ultimately have "wire_round C N (jn_log M) = Inr (N', a, e)" "wire_round C M (jn_log N') = Inr (M', b, f)"
    using wire_round_sync [OF wf(1,2) _ few(1) r(1)] wire_round_sync [OF wf(2) r(5) _ few(2) r(2)] by blast+
  then show ?thesis
    using r(3,4) by (intro exI [of _ N'] exI [of _ M'] exI) auto
qed

section \<open>The two sides of a fork\<close>

definition side_a :: governance_log where
  "side_a = \<lparr>gl_entries = [(241, fork_a), (357, fork_root)], gl_children = [(357, [241])],
      gl_root = Some 357, gl_finalized = None\<rparr>"

definition side_b :: governance_log where
  "side_b = \<lparr>gl_entries = [(242, fork_b), (357, fork_root)], gl_children = [(357, [242])],
      gl_root = Some 357, gl_finalized = None\<rparr>"

definition at_log :: "governance_log \<Rightarrow> join_node" where
  "at_log L = \<lparr>jn_log = L, jn_waiting = [], jn_inbound = [], jn_next = 0\<rparr>"

lemma sides_inserted:
  "insert_all demo empty_log [fork_root, fork_a] = Inr side_a"
  "insert_all demo empty_log [fork_root, fork_b] = Inr side_b"
  by (simp_all add: empty_log_def log_insert_simps side_a_def side_b_def)

lemma fork_subset: "S \<subseteq> {fork_root, fork_a, fork_b} \<Longrightarrow> inj_on (entry_hash demo) S"
  using fork_inj by (rule inj_on_subset)

lemma sides_reachable:
  "(log_step demo)\<^sup>*\<^sup>* empty_log side_a" "(log_step demo)\<^sup>*\<^sup>* empty_log side_b"
  using insert_all_holds [OF sides_inserted(1) log_wf_empty holds_empty fork_subset]
    insert_all_holds [OF sides_inserted(2) log_wf_empty holds_empty fork_subset] by simp_all

lemma sides_entries:
  "entries_of side_a = {fork_root, fork_a}" "entries_of side_b = {fork_root, fork_b}"
  "held side_a = {357, 241}" "held side_b = {357, 242}" "entries_of empty_log = {}" "held empty_log = {}"
  by (auto simp: side_a_def side_b_def empty_log_def split: if_splits)

lemma sides_facts:
  "inj_on (entry_hash demo) (entries_of side_a \<union> entries_of side_b)"
  "card (held side_b) \<le> max_entries_per_response" "card (held side_a \<union> held side_b) \<le> max_entries_per_response"
  "gl_root side_a = gl_root side_b" "gl_finalized side_a = gl_finalized side_b" "jn_log (at_log L) = L"
proof -
  show "inj_on (entry_hash demo) (entries_of side_a \<union> entries_of side_b)"
    by (rule fork_subset) (auto simp: sides_entries)
  show "card (held side_b) \<le> max_entries_per_response" "card (held side_a \<union> held side_b) \<le> max_entries_per_response"
    by (simp_all add: sides_entries max_entries_per_response_def card_insert_if)
  show "gl_root side_a = gl_root side_b" "gl_finalized side_a = gl_finalized side_b" "jn_log (at_log L) = L"
    by (simp_all add: side_a_def side_b_def at_log_def)
qed

theorem sync_catches_up_witness:
  "\<exists>N' acts ev. sync_round demo (at_log side_a) side_b = Some (N', acts, ev)
     \<and> entries_of (jn_log N') = {fork_root, fork_a, fork_b}"
proof -
  have "\<exists>N' acts ev. sync_round demo (at_log side_a) side_b = Some (N', acts, ev)
    \<and> log_wf demo (jn_log N') \<and> entries_of (jn_log N') = entries_of side_a \<union> entries_of side_b
    \<and> gl_finalized (jn_log N') = gl_finalized side_a
    \<and> (\<forall>s. ev = Some s \<longrightarrow> sy_rejected s = 0 \<and> \<not> sy_truncated s)"
    by (rule sync_catches_up [of demo "at_log side_a" side_b, unfolded sides_facts(6)])
      (simp_all only: sides_reachable sides_facts simp_thms)
  then show ?thesis
    by (auto simp: sides_entries)
qed

lemma sides_sendable:
  "\<forall>e\<in>entries_of side_a \<union> entries_of side_b. entry_ok demo e"
  "volume (entries_of side_a \<union> entries_of side_b) + 48 \<le> default_max_message_bytes"
proof -
  have sides: "entries_of side_a \<union> entries_of side_b = {fork_root, fork_a, fork_b}"
    by (auto simp: sides_entries)
  show "\<forall>e\<in>entries_of side_a \<union> entries_of side_b. entry_ok demo e"
    unfolding sides
    by (simp add: fork_root_def fork_a_def fork_b_def entry_ok_def policy_wire_ok_def cap_list_ok_def fork_policy_def
        conservative_default_def starter_content_types_def bs_collect_def seq_ok_def len_ok_def str_ok_def str_bytes_def)
  have "volume {fork_root, fork_a, fork_b} \<le>
      (8 + length (encode_entry fork_root)) + ((8 + length (encode_entry fork_a)) + (8 + length (encode_entry fork_b)))"
    unfolding volume_def by (simp add: sum.insert_if)
  moreover have "length (encode_entry fork_root) < 1000" "length (encode_entry fork_a) < 1000" "length (encode_entry fork_b) < 1000"
    by (simp_all add: encode_entry_def put_entry_def Wire.entry_wire_domain_def fork_root_def fork_a_def fork_b_def
        put_seq_def put_policy_def fork_policy_def conservative_default_def starter_content_types_def bs_collect_def)
  ultimately show "volume (entries_of side_a \<union> entries_of side_b) + 48 \<le> default_max_message_bytes"
    unfolding sides by (simp add: default_max_message_bytes_def)
qed

theorem partition_heals_witness:
  "\<exists>N' M' a b e f. wire_round demo (at_log side_a) side_b = Inr (N', a, e)
     \<and> wire_round demo (at_log side_b) (jn_log N') = Inr (M', b, f) \<and> jn_log N' = jn_log M'"
  using partition_heals [of demo "at_log side_a" "at_log side_b", unfolded sides_facts(6),
      OF sides_reachable sides_facts(1,4,5,3) sides_sendable]
  by blast

section \<open>An exchange that is cut may add nothing\<close>

lemma known_insert:
  assumes "log_wf C L"
  shows "set es \<subseteq> entries_of L \<Longrightarrow> insert_entries C es L = (L, length es, 0)"
proof (induction es)
  case (Cons e es)
  then obtain h where h: "bm_get (gl_entries L) h = Some e"
    by (auto simp: ran_def)
  note at = entry_at [OF assms h]
  have "\<exists>L'. log_insert C L e = Inr (h, L')"
    using at by (auto simp: log_insert_Inr split: option.splits)
  then have "log_insert C L e = Inr (h, L)"
    using log_insert_known [OF assms _ h] by blast
  then show ?case
    using Cons by simp
qed simp

lemma early_in_take:
  fixes xs :: "'a::linorder list"
  assumes "sorted xs" and "x \<in> set (take n xs)" and "A \<subseteq> set xs" and "\<forall>a\<in>A. a < x"
  shows "card A < n"
proof -
  obtain i where i: "i < length xs" "i < n" "xs ! i = x"
    using assms(2) by (auto simp: in_set_conv_nth)
  have "a \<in> set (take i xs)" if "a \<in> A" for a
  proof -
    obtain j where j: "j < length xs" "xs ! j = a"
      using \<open>a \<in> A\<close> assms(3) by (meson in_set_conv_nth subsetD)
    have "j < i"
      using sorted_nth_mono [OF assms(1), of i j] i j assms(4) \<open>a \<in> A\<close> by (meson leD leI)
    then show ?thesis
      using j i(1) by (auto simp: in_set_conv_nth)
  qed
  then have "card A \<le> card (set (take i xs))"
    by (intro card_mono) auto
  also have "\<dots> \<le> i"
    using card_length [of "take i xs"] by simp
  finally show ?thesis
    using i(2) by simp
qed

lemma cut_known:
  assumes "K \<subseteq> set needed" and "n \<le> card K" and "\<forall>c\<in>K. \<forall>h\<in>set needed - H. depth M c < depth M h"
    and "p \<in> set (take n (sort (map (\<lambda>h. (depth M h, h)) needed)))"
  shows "snd p \<in> H"
proof (rule ccontr)
  assume no: "snd p \<notin> H"
  let ?K = "(\<lambda>c. (depth M c, c)) ` K"
  obtain h where h: "p = (depth M h, h)" "h \<in> set needed"
    using in_set_takeD [OF assms(4)] by auto
  then have "\<forall>q\<in>?K. q < p"
    using assms(3) no by (auto simp: less_prod_def)
  then have "card ?K < n"
    using early_in_take [OF _ assms(4), of ?K] assms(1) by auto
  moreover have "card ?K = card K"
    by (rule card_image) (auto simp: inj_on_def)
  ultimately show False
    using assms(2) by simp
qed

text \<open>
  The situation of two nodes that share a long history: the peer \<open>M\<close> knows none of the tips of \<open>L\<close>,
  and \<open>K\<close> is what they share below every entry that \<open>L\<close> lacks.
\<close>

definition long_shared :: "governance_log \<Rightarrow> governance_log \<Rightarrow> b32 set \<Rightarrow> bool" where
  "long_shared L M K \<longleftrightarrow>
     set (heads L) \<inter> held M = {} \<and> missing_heads L M \<noteq> []
     \<and> K \<subseteq> held L \<inter> (\<Union>t\<in>set (missing_heads L M). ancestors M t)
     \<and> max_entries_per_response \<le> card K
     \<and> (\<forall>c\<in>K. \<forall>h\<in>held M - held L. depth M c < depth M h)"

lemma shared_needed:
  assumes "log_wf C L" "log_wf C M" and "long_shared L M K"
  shows "insert (hd (missing_heads L M)) K \<subseteq> needed_set M (missing_heads L M) (heads L)"
    and "hd (missing_heads L M) \<notin> K"
proof -
  let ?w = "missing_heads L M"
  have w: "t \<in> held M \<and> t \<notin> held L" if "t \<in> set ?w" for t
    using that set_heads [OF assms(2)] by (auto simp: missing_heads_def log_get_def)
  have hd: "hd ?w \<in> set ?w"
    using assms(3) by (simp add: long_shared_def)
  have away: "ancestors M t \<inter> held M = {}" if t: "t \<in> set (heads L)" for t
  proof -
    have "t \<notin> held M"
      using t assms(3) by (auto simp: long_shared_def)
    then show ?thesis
      using depth_up [OF assms(2) up.stop, of t] by (simp add: parent_of_def domIff)
  qed
  have "(\<Union>t\<in>set ?w. ancestors M t) \<subseteq> held M"
    using ancestors_present [OF assms(2)] w by (fastforce simp: domIff)
  moreover have "{t \<in> set ?w. bm_get (gl_entries M) t \<noteq> None} = set ?w"
    using w by blast
  ultimately have "(\<Union>t\<in>set ?w. ancestors M t) \<subseteq> needed_set M ?w (heads L)"
    using away unfolding needed_set_def by (simp only:) blast
  then show "insert (hd ?w) K \<subseteq> needed_set M ?w (heads L)"
    using self_ancestor [OF assms(2)] hd assms(3) unfolding long_shared_def by blast
  show "hd ?w \<notin> K"
    using w [OF hd] assms(3) by (auto simp: long_shared_def)
qed

lemma stalled_response:
  assumes "log_wf C L" "log_wf C M" and "agree L M" and "long_shared L M K"
  shows "\<exists>es. ancestors_first M (missing_heads L M) (heads L) max_entries_per_response = Some (es, True)
    \<and> set es \<subseteq> entries_of L"
proof -
  let ?w = "missing_heads L M" and ?n = max_entries_per_response
  obtain needed where needed: "bs_ok needed" "set needed = needed_set M ?w (heads L)"
    "ancestors_first M ?w (heads L) ?n =
       (let ordered = sort (map (\<lambda>h. (depth M h, h)) needed) in
        Some (map (\<lambda>p. the (bm_get (gl_entries M) (snd p))) (take ?n ordered), length ordered > ?n))"
    by (rule ancestors_first_unfold [OF assms(2)])
  let ?o = "sort (map (\<lambda>h. (depth M h, h)) needed)"
  note shared = shared_needed [OF assms(1,2,4), folded needed(2)]
  have present: "set needed \<subseteq> held M"
    using needed_present [OF assms(2)] needed(2) by simp
  have card_K: "?n \<le> card K"
    using assms(4) by (simp add: long_shared_def)
  have "Suc (card K) = card (insert (hd ?w) K)"
    using shared finite_subset [of K "set needed"] by simp
  also have "\<dots> \<le> card (set needed)"
    using shared(1) by (intro card_mono) simp_all
  also have "\<dots> = length ?o"
    using bs_ok_distinct [OF needed(1)] by (simp add: distinct_card)
  finally have long: "length ?o > ?n"
    using card_K by simp
  have "the (bm_get (gl_entries M) (snd p)) \<in> entries_of L" if p: "p \<in> set (take ?n ?o)" for p
  proof -
    have "\<forall>c\<in>K. \<forall>h\<in>set needed - held L. depth M c < depth M h"
      using assms(4) present unfolding long_shared_def by blast
    then have "snd p \<in> held L"
      using shared(1) by (intro cut_known [OF _ card_K _ p]) simp_all
    moreover have "snd p \<in> held M"
      using in_set_takeD [OF p] present by auto
    ultimately have "bm_get (gl_entries L) (snd p) = bm_get (gl_entries M) (snd p)"
      using assms(3) unfolding agree_def by fastforce
    then show ?thesis
      using \<open>snd p \<in> held M\<close> by (auto simp: ran_def)
  qed
  then show ?thesis
    using needed(3) long by (auto simp: Let_def)
qed

text \<open>
  C40. Resuming a cut response makes no progress on a long shared history: when two nodes have at least
  512 entries in common below the branches on which they differ, and the peer knows none of the node's
  tips, the response holds only entries that the node has. Its log is unchanged, and it starts the same
  exchange again.
\<close>

theorem sync_stalls:
  assumes "(log_step C)\<^sup>*\<^sup>* empty_log (jn_log N)" and "(log_step C)\<^sup>*\<^sup>* empty_log M"
    and "inj_on (entry_hash C) (entries_of (jn_log N) \<union> entries_of M)" and "long_shared (jn_log N) M K"
  shows "\<exists>N' acts s. sync_round C N M = Some (N', acts, Some s) \<and> jn_log N' = jn_log N
    \<and> SendSync ReqHeads \<in> set acts \<and> sy_truncated s"
proof -
  let ?L = "jn_log N"
  have wf: "log_wf C ?L" "log_wf C M"
    using reachable_wf assms(1,2) by blast+
  obtain es where es: "ancestors_first M (missing_heads ?L M) (heads ?L) max_entries_per_response = Some (es, True)"
      "set es \<subseteq> entries_of ?L"
    using stalled_response [OF wf agree_collision_free [OF wf assms(3)] assms(4)] by blast
  have "sync_round C N M = exchange_sync C N M (ReqFetch (missing_heads ?L M) (heads ?L))"
    using assms(4) by (simp add: sync_round_def exchange_sync_def receive_sync_response_def Let_def
        missing_heads_def [symmetric] long_shared_def)
  also have "\<dots> = Some (receive_sync_response C N (RespEntries es True))"
    by (simp add: exchange_sync_def es(1))
  finally show ?thesis
    using known_insert [OF wf(1) es(2)] by (simp add: receive_sync_response_def)
qed

section \<open>Two branches above a long trunk\<close>

text \<open>With the stand-in hash that keeps the last 32 bytes, the hash of an entry is the key of its author.\<close>

definition link :: "b32 \<Rightarrow> b32 option \<Rightarrow> log_entry" where
  "link k p = entry_create tail_demo (who k) p 0
     (case p of None \<Rightarrow> Genesis 7 fork_policy [ReadContent] | Some _ \<Rightarrow> BodyDefineGroup ''a'' (CapExplicit []))"

lemma link_simps [simp]:
  "le_parent (link k p) = p" "entry_verify_signature tail_demo (link k p) = Inr ()"
  "is_genesis (le_body (link k None))" "entry_hash tail_demo (link k p) = k"
proof -
  have hash: "blake3 tail_demo (xs @ put_fixed64 (ucast k)) = k" for xs :: bytes
  proof -
    have "unat (ucast k :: b64) = unat k"
      using unat_bound [of k] by (simp add: unsigned_ucast_eq take_bit_nat_eq_self)
    then have "be_val (put_fixed64 (ucast k)) = unat k"
      using unat_bound [of k] by (simp add: put_fixed64_def)
    moreover have "of_nat ((256 :: nat) ^ 64) = (0 :: b32)"
      by simp
    then have "of_nat (be_val xs * 256 ^ 64) = (0 :: b32)"
      by (simp only: of_nat_mult mult_zero_right)
    ultimately have "of_nat (be_val (xs @ put_fixed64 (ucast k))) = (0 :: b32) + of_nat (unat k)"
      by (simp only: be_val_append put_lengths of_nat_add)
    then show ?thesis
      by (simp add: tail_demo_def)
  qed
  show "entry_hash tail_demo (link k p) = k"
    using hash [of "enc_domain ''intranet.governance-entry-hash.v1'' @ put_bytes (payload_of_entry (link k p))"]
    by (simp add: entry_hash_def hash_bytes_def entry_hash_bytes_def link_def entry_create_def pni_sign_def
        tail_demo_def who_def)
  show "le_parent (link k p) = p" "entry_verify_signature tail_demo (link k p) = Inr ()"
    "is_genesis (le_body (link k None))"
    by (simp_all add: link_def entry_create_def entry_verify_signature_def vk_verify_def pni_sign_def pni_id_def
        tail_demo_def)
qed

definition trunk :: "log_entry list" where
  "trunk = map (\<lambda>i. link (of_nat i) (if i = 0 then None else Some (of_nat (i - 1)))) [0..<512]"

definition branched :: "b32 \<Rightarrow> log_entry list" where
  "branched k = trunk @ [link k (Some 511)]"

lemma length_trunk: "length trunk = 512"
  unfolding trunk_def length_map length_upt by simp

lemma trunk_nth: "i < 512 \<Longrightarrow> trunk ! i = link (of_nat i) (if i = 0 then None else Some (of_nat (i - 1)))"
  unfolding trunk_def by (simp only: nth_map length_upt nth_upt diff_zero add_0)

lemma branched_nth:
  "i < 512 \<Longrightarrow> branched k ! i = link (of_nat i) (if i = 0 then None else Some (of_nat (i - 1)))"
  "branched k ! 512 = link k (Some 511)" "length (branched k) = 513"
  by (simp_all add: branched_def nth_append length_trunk trunk_nth)

lemma branched_orderly: "orderly tail_demo (Some 0) {} (branched k)"
proof (rule orderly_nth)
  fix i
  assume "i < length (branched k)"
  then consider "i = 0" | "0 < i" "i < 512" | "i = 512"
    by (fastforce simp: branched_nth(3))
  then show "entry_verify_signature tail_demo (branched k ! i) = Inr ()
      \<and> (case le_parent (branched k ! i) of
           None \<Rightarrow> is_genesis (le_body (branched k ! i)) \<and> Some 0 = Some (entry_hash tail_demo (branched k ! i))
         | Some p \<Rightarrow> p \<in> {} \<or> (\<exists>j<i. entry_hash tail_demo (branched k ! j) = p))"
  proof cases
    case 2
    then show ?thesis
      by (auto simp: branched_nth intro!: exI [of _ "i - 1"])
  next
    case 3
    have "entry_hash tail_demo (branched k ! 511) = 511"
      by (simp add: branched_nth)
    then show ?thesis
      using 3 by (auto simp: branched_nth intro!: exI [of _ 511])
  qed (simp add: branched_nth)
qed

definition long_log :: "b32 \<Rightarrow> governance_log" where
  "long_log k = projr (insert_all tail_demo empty_log (branched k))"

lemma set_branched:
  "set (branched k) = (\<lambda>i. link (of_nat i) (if i = 0 then None else Some (of_nat (i - 1)))) ` {..<512}
     \<union> {link k (Some 511)}"
  by (simp add: branched_def trunk_def atLeast_upt)

lemma small_key: "i < 512 \<Longrightarrow> j < 512 \<Longrightarrow> (of_nat i :: b32) = of_nat j \<longleftrightarrow> i = j"
  by (simp add: word_of_nat_eq_iff take_bit_nat_eq_self)

definition far :: "b32 \<Rightarrow> bool" where
  "far k \<longleftrightarrow> 512 \<le> unat k"

lemma far_neq: "far k \<Longrightarrow> i < 512 \<Longrightarrow> k \<noteq> of_nat i" "far k \<Longrightarrow> i < 512 \<Longrightarrow> of_nat i \<noteq> k"
  by (auto simp: far_def unsigned_of_nat take_bit_nat_eq_self)

lemma branches_inj:
  assumes "far k" and "far l" and "k \<noteq> l"
  shows "inj_on (entry_hash tail_demo) (set (branched k) \<union> set (branched l))"
  using assms by (auto simp: inj_on_def set_branched far_neq small_key)

lemma long_log_facts:
  assumes "far k"
  shows "(log_step tail_demo)\<^sup>*\<^sup>* empty_log (long_log k)" "log_wf tail_demo (long_log k)"
    "holds_exactly tail_demo (set (branched k)) (long_log k)"
proof -
  obtain L where L: "insert_all tail_demo empty_log (branched k) = Inr L"
    using orderly_insert [OF branched_orderly, of empty_log k] by (auto simp: empty_log_def)
  have "inj_on (entry_hash tail_demo) ({} \<union> set (branched k))"
    using assms by (auto simp: inj_on_def set_branched far_neq small_key)
  then show "(log_step tail_demo)\<^sup>*\<^sup>* empty_log (long_log k)" "log_wf tail_demo (long_log k)"
    "holds_exactly tail_demo (set (branched k)) (long_log k)"
    using insert_all_holds [OF L log_wf_empty holds_empty] by (simp_all add: long_log_def L)
qed

lemma long_log_get:
  assumes "far k"
  shows "bm_get (gl_entries (long_log k)) h = Some e \<longleftrightarrow> e \<in> set (branched k) \<and> entry_hash tail_demo e = h"
  using long_log_facts(3) [OF assms] by (simp add: holds_exactly_def)

lemma long_log_parts:
  assumes "far k"
  shows "held (long_log k) = insert k (of_nat ` {..<512})" "entries_of (long_log k) = set (branched k)"
    and "parent_of (long_log k) 0 = None" "parent_of (long_log k) k = Some 511"
    and "i < 511 \<Longrightarrow> parent_of (long_log k) (of_nat (Suc i)) = Some (of_nat i)"
proof -
  note get = long_log_get [OF assms]
  show entries: "entries_of (long_log k) = set (branched k)"
    by (auto simp: ran_def get)
  show "held (long_log k) = insert k (of_nat ` {..<512})"
    unfolding held_entries [OF long_log_facts(2) [OF assms]] entries
    by (simp add: set_branched image_Un image_image)
  have "bm_get (gl_entries (long_log k)) 0 = Some (link 0 None)"
    unfolding get set_branched by (auto intro!: image_eqI [of _ _ 0])
  then show "parent_of (long_log k) 0 = None"
    by (simp add: parent_of_def)
  have "bm_get (gl_entries (long_log k)) k = Some (link k (Some 511))"
    unfolding get set_branched by simp
  then show "parent_of (long_log k) k = Some 511"
    by (simp add: parent_of_def)
  assume "i < 511"
  then have "bm_get (gl_entries (long_log k)) (of_nat (Suc i)) = Some (link (of_nat (Suc i)) (Some (of_nat i)))"
    unfolding get set_branched by (intro conjI UnI1 image_eqI [of _ _ "Suc i"]) auto
  then show "parent_of (long_log k) (of_nat (Suc i)) = Some (of_nat i)"
    by (simp add: parent_of_def)
qed

lemma trunk_depth:
  assumes "far k"
  shows "i < 512 \<Longrightarrow> depth (long_log k) (of_nat i) = Suc i \<and> ancestors (long_log k) (of_nat i) = of_nat ` {..i}"
proof (induction i)
  case 0
  show ?case
    using depth_up [OF long_log_facts(2) [OF assms] up.stop] long_log_parts(3) [OF assms] by simp
next
  case (Suc i)
  then have "parent_of (long_log k) (of_nat (Suc i)) = Some (of_nat i)"
    using long_log_parts(5) [OF assms] by simp
  then show ?case
    using depth_parent [OF long_log_facts(2) [OF assms]] Suc by (auto simp: atMost_Suc)
qed

lemma tip_depth:
  assumes "far k"
  shows "depth (long_log k) k = 513" "of_nat ` {..<512} \<subseteq> ancestors (long_log k) k"
    and "set (heads (long_log k)) = {k}"
proof -
  note up = depth_parent [OF long_log_facts(2) [OF assms] long_log_parts(4) [OF assms]]
  have at: "depth (long_log k) 511 = 512" "ancestors (long_log k) 511 = of_nat ` {..511}"
    using trunk_depth [OF assms, of 511] by simp_all
  show "depth (long_log k) k = 513"
    using up(1) at(1) by simp
  have "{..<512} = {..511 :: nat}"
    by auto
  then show "of_nat ` {..<512} \<subseteq> ancestors (long_log k) k"
    using up(2) at(2) by auto
  have "parent_of (long_log k) c \<noteq> Some k" for c
  proof
    assume "parent_of (long_log k) c = Some k"
    then obtain e where e: "e \<in> set (branched k)" "le_parent e = Some k"
      using long_log_get [OF assms] by (auto simp: parent_of_def bind_eq_Some_conv)
    then consider i where "i < 512" "k = of_nat (i - 1)" | "k = 511"
      by (auto simp: set_branched split: if_splits)
    then show False
      using far_neq(1) [OF assms, of 511] far_neq(1) [OF assms, of "i - 1" for i]
      by cases (metis less_imp_diff_less, simp)
  qed
  moreover have "\<exists>c. parent_of (long_log k) c = Some (of_nat i)" if "i < 512" for i
    using that long_log_parts(4,5) [OF assms] by (cases "i = 511") (auto intro: exI [of _ "of_nat (Suc i)"])
  ultimately show "set (heads (long_log k)) = {k}"
    using set_heads [OF long_log_facts(2) [OF assms]] long_log_parts(1) [OF assms] by auto
qed

theorem sync_stalls_witness:
  "\<exists>N' acts s. sync_round tail_demo (at_log (long_log 1000)) (long_log 2000) = Some (N', acts, Some s)
     \<and> jn_log N' = long_log 1000 \<and> SendSync ReqHeads \<in> set acts"
proof -
  have far: "far 1000" "far 2000"
    by (simp_all add: far_def)
  let ?K = "of_nat ` {..<512} :: b32 set"
  have apart: "1000 \<notin> ?K" "2000 \<notin> ?K"
    using far_neq(1) [OF far(1)] far_neq(1) [OF far(2)] by auto
  have K: "card ?K = 512"
    by (subst card_image) (auto simp: inj_on_def small_key)
  have heads: "set (missing_heads (long_log 1000) (long_log 2000)) = {2000}"
  proof -
    have "2000 \<notin> held (long_log 1000)"
      using long_log_parts(1) [OF far(1)] apart(2) by simp
    then show ?thesis
      using tip_depth(3) [OF far(2)] by (auto simp: missing_heads_def log_get_def domIff)
  qed
  have "depth (long_log 2000) c < 513" if "c \<in> ?K" for c
    using that trunk_depth [OF far(2)] by auto
  then have "long_shared (long_log 1000) (long_log 2000) ?K"
    unfolding long_shared_def heads
    using heads K apart tip_depth [OF far(1)] tip_depth [OF far(2)] long_log_parts(1) [OF far(1)]
      long_log_parts(1) [OF far(2)]
    by (auto simp: max_entries_per_response_def)
  then show ?thesis
    using sync_stalls [of tail_demo "at_log (long_log 1000)" "long_log 2000" ?K] far
      long_log_facts(1) long_log_parts(2) branches_inj [OF far]
    by (fastforce simp: at_log_def)
qed

end
