(* ===== verification/Ballot_Node.thy ===== *)
theory Ballot_Node
  imports Content_Node Replay Sync_Node
begin

text \<open>
  The collection of ballots at the node (node.rs): casting and recording ballots, asking a peer for
  those it holds, answering such a request, and the assembly of a certificate from what was collected.
  What a node collects can always be assembled into a certificate that verifies, and one exchange
  collects every ballot a peer holds.
\<close>

section \<open>State and operations\<close>

record ballot_node =
  bn_log :: governance_log
  bn_identity :: per_network_identity
  bn_ballots :: "(b32, (b32, ballot) btree_map) btree_map"
  bn_ballot_requests :: "(nat, b32) btree_map"
  bn_sent :: nat

definition ballots_for :: "ballot_node \<Rightarrow> b32 \<Rightarrow> ballot list" where
  "ballots_for N vid = (case bm_get (bn_ballots N) vid of None \<Rightarrow> [] | Some m \<Rightarrow> bm_values m)"

definition record_ballot :: "crypto \<Rightarrow> ballot \<Rightarrow> ballot_node \<Rightarrow> ballot_node \<times> bool" where
  "record_ballot C b N =
     (case ballot_verify C b of
        Inl _ \<Rightarrow> (N, False)
      | Inr _ \<Rightarrow>
          (case node_state C (bn_log N) of
             None \<Rightarrow> (N, False)
           | Some st \<Rightarrow>
               (case bm_get (gs_open_votes st) (bl_vote_id b) of
                  None \<Rightarrow> (N, False)
                | Some p \<Rightarrow>
                    if bl_voter b \<notin> set (vp_snapshot p) \<or> sint (vp_close_time p) < sint (bl_cast_at b)
                    then (N, False)
                    else
                      (let held = (case bm_get (bn_ballots N) (bl_vote_id b) of None \<Rightarrow> [] | Some m \<Rightarrow> m)
                       in (N\<lparr>bn_ballots := bm_insert (bl_vote_id b)
                              (bm_insert (ballot_hash C b) b held) (bn_ballots N)\<rparr>, True)))))"

definition cast_ballot ::
  "crypto \<Rightarrow> b32 \<Rightarrow> bool \<Rightarrow> i64 \<Rightarrow> per_network_identity \<Rightarrow> ballot_node \<Rightarrow>
     ballot_node \<times> (governance_error + ballot)" where
  "cast_ballot C vid approve now identity N =
     (let b = ballot_cast C identity vid approve now;
          (N', recorded) = record_ballot C b N
      in (N', if recorded then Inr b
              else Inl (InvalidQuorumCertificate ''this node knows of no open vote matching that ballot'')))"

definition sync_ballots_with ::
  "crypto \<Rightarrow> 'p swarm \<Rightarrow> b32 \<Rightarrow> ballot_node \<Rightarrow> ballot_node \<times> ballot_request" where
  "sync_ballots_with C W vid N =
     (let have_hashes = (case bm_get (bn_ballots N) vid of None \<Rightarrow> [] | Some m \<Rightarrow> bm_keys m)
      in (N\<lparr>bn_ballot_requests := bm_insert (sw_request_id W (bn_sent N)) vid (bn_ballot_requests N),
            bn_sent := Suc (bn_sent N)\<rparr>,
          br_create C (bn_identity N) vid have_hashes))"

fun sync_votes ::
  "crypto \<Rightarrow> 'p swarm \<Rightarrow> b32 list \<Rightarrow> ballot_node \<Rightarrow> ballot_node \<times> ballot_request list" where
  "sync_votes C W [] N = (N, [])"
| "sync_votes C W (vid # vids) N =
     (let (N1, q) = sync_ballots_with C W vid N; (N2, qs) = sync_votes C W vids N1 in (N2, q # qs))"

definition sync_open_votes_with ::
  "crypto \<Rightarrow> 'p swarm \<Rightarrow> ballot_node \<Rightarrow> ballot_node \<times> ballot_request list \<times> nat" where
  "sync_open_votes_with C W N =
     (case node_state C (bn_log N) of
        None \<Rightarrow> (N, [], 0)
      | Some st \<Rightarrow>
          (let open = bm_keys (gs_open_votes st); (N', qs) = sync_votes C W open N in (N', qs, length open)))"

definition assemble_certificate :: "crypto \<Rightarrow> ballot_node \<Rightarrow> b32 \<Rightarrow> quorum_certificate option" where
  "assemble_certificate C N vid =
     Option.bind (node_state C (bn_log N)) (\<lambda>st.
       map_option (\<lambda>p. assemble C p (ballots_for N vid)) (bm_get (gs_open_votes st) vid))"

definition serve_ballots :: "crypto \<Rightarrow> ballot_node \<Rightarrow> ballot_request \<Rightarrow> ballot_response" where
  "serve_ballots C N q =
     (case node_state C (bn_log N) of
        None \<Rightarrow> RespRefused RefCannotEvaluate
      | Some st \<Rightarrow>
          if \<not> is_member st (br_requester q) then RespRefused RefNotAMember
          else if \<not> bm_contains (gs_open_votes st) (br_vote_id q) then RespRefused RefUnknownVote
          else
            (let have_hashes = bs_collect (br_have q);
                 ballots = (case bm_get (bn_ballots N) (br_vote_id q) of
                              None \<Rightarrow> []
                            | Some m \<Rightarrow> map snd (filter (\<lambda>p. fst p \<notin> set have_hashes) m))
             in RespBallots (take max_ballots_per_response ballots)
                  (length ballots > max_ballots_per_response)))"

definition answer_ballot_request ::
  "crypto \<Rightarrow> 'p swarm \<Rightarrow> ballot_node \<Rightarrow> 'p \<Rightarrow> ballot_request \<Rightarrow> ballot_response" where
  "answer_ballot_request C W N peer q =
     (if sw_peer_id W (br_requester q) \<noteq> peer then RespRefused RefNotAMember else serve_ballots C N q)"

datatype ballot_event = BallotsReceived b32 nat nat bool | BallotSyncRefused b32 ballot_refusal

fun record_ballots :: "crypto \<Rightarrow> ballot list \<Rightarrow> ballot_node \<Rightarrow> ballot_node \<times> nat" where
  "record_ballots C [] N = (N, 0)"
| "record_ballots C (b # bs) N =
     (let (N1, recorded) = record_ballot C b N; (N2, n) = record_ballots C bs N1
      in (N2, if recorded then Suc n else n))"

definition receive_ballot_response ::
  "crypto \<Rightarrow> ballot_node \<Rightarrow> nat \<Rightarrow> ballot_response \<Rightarrow> ballot_node \<times> ballot_event option" where
  "receive_ballot_response C N0 rid m =
     (case bm_get (bn_ballot_requests N0) rid of
        None \<Rightarrow> (N0, None)
      | Some vid \<Rightarrow>
          (let N = N0\<lparr>bn_ballot_requests := bm_remove rid (bn_ballot_requests N0)\<rparr> in
           case m of
             RespBallots ballots truncated \<Rightarrow>
               (let (N', accepted) = record_ballots C ballots N
                in (N', Some (BallotsReceived vid accepted (length ballots - accepted) truncated)))
           | RespRefused reason \<Rightarrow> (N, Some (BallotSyncRefused vid reason))))"

section \<open>Every collected ballot qualifies\<close>

definition proposals_of :: "governance_log \<Rightarrow> vote_proposal set" where
  "proposals_of L = {p. VoteProposed p \<in> le_body ` entries_of L}"

definition ballot_ok :: "crypto \<Rightarrow> governance_log \<Rightarrow> b32 \<Rightarrow> b32 \<Rightarrow> ballot \<Rightarrow> bool" where
  "ballot_ok C L vid h b \<longleftrightarrow>
     ballot_hash C b = h \<and> bl_vote_id b = vid \<and> (\<exists>p\<in>proposals_of L. eligible C p b)"

definition collection_ok :: "crypto \<Rightarrow> ballot_node \<Rightarrow> bool" where
  "collection_ok C N \<longleftrightarrow>
     log_wf C (bn_log N) \<and> bm_ok (bn_ballots N)
     \<and> (\<forall>vid m. bm_get (bn_ballots N) vid = Some m \<longrightarrow>
          bm_ok m \<and> (\<forall>h b. bm_get m h = Some b \<longrightarrow> ballot_ok C (bn_log N) vid h b))"

inductive ballot_step :: "crypto \<Rightarrow> 'p swarm \<Rightarrow> ballot_node \<Rightarrow> ballot_node \<Rightarrow> bool" for C W where
  casts: "ballot_step C W N (fst (cast_ballot C vid approve now identity N))"
| records: "ballot_step C W N (fst (record_ballot C b N))"
| asks: "ballot_step C W N (fst (sync_ballots_with C W vid N))"
| answers: "ballot_step C W N (fst (receive_ballot_response C N rid m))"
| log_grows: "log_step C (bn_log N) L \<Longrightarrow> ballot_step C W N (N\<lparr>bn_log := L\<rparr>)"

definition ballot_node_new :: "per_network_identity \<Rightarrow> ballot_node" where
  "ballot_node_new identity =
     \<lparr>bn_log = empty_log, bn_identity = identity, bn_ballots = [], bn_ballot_requests = [], bn_sent = 0\<rparr>"

lemma open_vote_proposed:
  assumes "node_state C L = Some st" and "bm_get (gs_open_votes st) vid = Some p"
  shows "p \<in> proposals_of L" and "vote_id C p = vid"
proof -
  obtain chain where chain: "replay C (List.map_filter (bm_get (gl_entries L)) chain) = Inr st"
    using assms(1)
    by (auto simp: node_state_def replay_canonical_def split: option.splits sum.splits)
  have "set (List.map_filter (bm_get (gl_entries L)) chain) \<subseteq> entries_of L"
    by (auto simp: List.map_filter_def ran_def)
  moreover have "VoteProposed p \<in> le_body ` set (List.map_filter (bm_get (gl_entries L)) chain)"
    using vote.replay_inv [OF chain] assms(2) unfolding vote_inv_def by blast
  ultimately show "p \<in> proposals_of L"
    by (auto simp: proposals_of_def)
  show "vote_id C p = vid"
    using wf.replay_inv [OF chain] assms(2) by (auto simp: state_wf_def votes_wf_def)
qed

lemma record_ballot_cases:
  obtains (ignored) "record_ballot C b N = (N, False)"
  | (recorded) st p where "node_state C (bn_log N) = Some st" "bm_get (gs_open_votes st) (bl_vote_id b) = Some p"
      "eligible C p b"
      "record_ballot C b N =
         (N\<lparr>bn_ballots := bm_insert (bl_vote_id b) (bm_insert (ballot_hash C b) b
              (case bm_get (bn_ballots N) (bl_vote_id b) of None \<Rightarrow> [] | Some m \<Rightarrow> m)) (bn_ballots N)\<rparr>, True)"
proof (cases "record_ballot C b N = (N, False)")
  case False
  then obtain st p where "ballot_verify C b = Inr ()" "node_state C (bn_log N) = Some st"
      "bm_get (gs_open_votes st) (bl_vote_id b) = Some p" "bl_voter b \<in> set (vp_snapshot p)"
      "sint (bl_cast_at b) \<le> sint (vp_close_time p)"
    by (auto simp: record_ballot_def not_less split: sum.splits option.splits if_splits)
  then show ?thesis
    using recorded [of st p] open_vote_proposed(2) [of C "bn_log N" st "bl_vote_id b" p]
    by (simp add: record_ballot_def eligible_def not_less)
qed (use ignored in simp)

lemma record_collection_ok:
  assumes "collection_ok C N"
  shows "collection_ok C (fst (record_ballot C b N)) \<and> bn_log (fst (record_ballot C b N)) = bn_log N"
proof (cases rule: record_ballot_cases [of C b N])
  case (recorded st p)
  let ?m = "case bm_get (bn_ballots N) (bl_vote_id b) of None \<Rightarrow> [] | Some m \<Rightarrow> m"
  have b: "ballot_ok C (bn_log N) (bl_vote_id b) (ballot_hash C b) b"
    using open_vote_proposed(1) [OF recorded(1,2)] recorded(3) by (auto simp: ballot_ok_def)
  have m: "bm_ok ?m" "bm_get ?m h = Some c \<Longrightarrow> ballot_ok C (bn_log N) (bl_vote_id b) h c" for h c
    using assms by (auto simp: collection_ok_def split: option.splits)
  have "bm_ok (bm_insert (ballot_hash C b) b ?m)"
    using m(1) by simp
  moreover have "ballot_ok C (bn_log N) (bl_vote_id b) h c"
    if "bm_get (bm_insert (ballot_hash C b) b ?m) h = Some c" for h c
    using that b m(2) by (simp split: if_splits)
  ultimately show ?thesis
    using assms unfolding recorded(4) collection_ok_def by (simp split: if_splits)
qed (use assms in simp)

lemma record_all_ok:
  assumes "collection_ok C N"
  shows "collection_ok C (fst (record_ballots C bs N)) \<and> bn_log (fst (record_ballots C bs N)) = bn_log N"
  using assms
proof (induction bs arbitrary: N)
  case (Cons b bs)
  then show ?case
    using record_collection_ok [OF Cons.prems, of b]
    by (auto simp: split_beta Let_def)
qed simp

lemma step_entries:
  assumes "log_step C L L'" and "log_wf C L"
  shows "entries_of L \<subseteq> entries_of L'"
  using assms(1)
proof cases
  case (inserts e h)
  then have "bm_get (gl_entries L') = (bm_get (gl_entries L))(h \<mapsto> e)" "h = entry_hash C e"
    by (auto simp: log_insert_Inr split: option.splits)
  then show ?thesis
    using inserts(2) by (auto simp: ran_def no_clash_def) (metis)
next
  case (reconciles now rc)
  then show ?thesis
    using reconcile_log [OF assms(2)] by fastforce
qed

lemma step_collection_ok: "ballot_step C W N N' \<Longrightarrow> collection_ok C N \<Longrightarrow> collection_ok C N'"
proof (induction rule: ballot_step.induct)
  case (casts N vid approve now identity)
  then show ?case
    using record_collection_ok by (simp add: cast_ballot_def Let_def split_beta)
next
  case (answers N rid m)
  then have "collection_ok C (N\<lparr>bn_ballot_requests := r\<rparr>)" for r
    by (simp add: collection_ok_def)
  then show ?case
    using answers record_all_ok
    by (auto simp: receive_ballot_response_def Let_def split_beta split: option.splits ballot_response.splits)
next
  case (log_grows N L)
  then have "proposals_of (bn_log N) \<subseteq> proposals_of L" "log_wf C L"
    using step_entries [of C "bn_log N" L] step_wf by (auto simp: proposals_of_def collection_ok_def)
  then have "ballot_ok C (bn_log N) vid h b \<Longrightarrow> ballot_ok C L vid h b" for vid h b
    by (auto simp: ballot_ok_def)
  then show ?case
    using log_grows(2) \<open>log_wf C L\<close> by (simp add: collection_ok_def)
next
  case (asks N vid)
  then show ?case
    by (simp add: sync_ballots_with_def collection_ok_def Let_def)
qed (use record_collection_ok in simp)

lemma reachable_collection_ok:
  assumes "(ballot_step C W)\<^sup>*\<^sup>* (ballot_node_new identity) N"
  shows "collection_ok C N"
  using assms
proof (induction rule: rtranclp_induct)
  case base
  show ?case
    by (simp add: collection_ok_def ballot_node_new_def log_wf_empty)
qed (rule step_collection_ok)

text \<open>What a node holds on an open vote qualifies for exactly that vote.\<close>

lemma ballots_qualify:
  assumes "collection_ok C N" and "inj_on (vote_id C) (proposals_of (bn_log N))"
    and "node_state C (bn_log N) = Some st" and "bm_get (gs_open_votes st) vid = Some p"
  shows "\<forall>b\<in>set (ballots_for N vid). bl_vote_id b = vote_id C p \<and> eligible C p b"
    and "inj_on (ballot_hash C) (set (ballots_for N vid))"
proof -
  note p = open_vote_proposed [OF assms(3,4)]
  have held: "\<exists>m h. bm_get (bn_ballots N) vid = Some m \<and> bm_get m h = Some b"
    if "b \<in> set (ballots_for N vid)" for b
  proof (cases "bm_get (bn_ballots N) vid")
    case (Some m)
    then have "bm_ok m"
      using assms(1) by (simp add: collection_ok_def)
    then show ?thesis
      using that Some set_bm_values [of m] by (auto simp: ballots_for_def ran_def)
  qed (use that in \<open>simp add: ballots_for_def\<close>)
  show "\<forall>b\<in>set (ballots_for N vid). bl_vote_id b = vote_id C p \<and> eligible C p b"
  proof
    fix b
    assume "b \<in> set (ballots_for N vid)"
    then obtain q where q: "bl_vote_id b = vid" "q \<in> proposals_of (bn_log N)" "eligible C q b"
      using held assms(1) unfolding collection_ok_def ballot_ok_def by blast
    then have "q = p"
      using inj_onD [OF assms(2), of q p] p by (simp add: eligible_def)
    then show "bl_vote_id b = vote_id C p \<and> eligible C p b"
      using q p by simp
  qed
  show "inj_on (ballot_hash C) (set (ballots_for N vid))"
  proof (rule inj_onI)
    fix b c
    assume "b \<in> set (ballots_for N vid)" "c \<in> set (ballots_for N vid)" "ballot_hash C b = ballot_hash C c"
    then show "b = c"
      using held [of b] held [of c] assms(1) unfolding collection_ok_def ballot_ok_def by (metis option.inject)
  qed
qed

section \<open>Assembling\<close>

text \<open>
  C16. What a node collects can be assembled: in every state that a node reaches by casting ballots,
  recording whatever ballots it is given, exchanging them with peers that may send anything, and
  extending and reconciling its log, the certificate it assembles for an open vote on which it holds a
  ballot verifies, and it passes exactly when the voters whose decisive ballot approves reach the
  quorum. Proposals of the log are assumed to have different identifiers.
\<close>

theorem collection_assembles:
  assumes "(ballot_step C W)\<^sup>*\<^sup>* (ballot_node_new identity) N"
    and "node_state C (bn_log N) = Some st" and "bm_get (gs_open_votes st) vid = Some p"
    and "ballots_for N vid \<noteq> []" and "length (ballots_for N vid) < 2 ^ 32"
    and "inj_on (vote_id C) (proposals_of (bn_log N))"
  shows "\<exists>c. assemble_certificate C N vid = Some c
    \<and> cert_verify C c p =
        Inr (if unat (vp_quorum p) \<le> card {v. \<exists>b. best_for C vid (set (ballots_for N vid)) v b \<and> bl_approve b}
             then Passed else vote_outcome.Failed)"
proof -
  note ok = ballots_qualify [OF reachable_collection_ok [OF assms(1)] assms(6,2,3)]
  have vid: "vote_id C p = vid"
    by (rule open_vote_proposed(2) [OF assms(2,3)])
  have "\<exists>b\<in>set (ballots_for N vid). bl_vote_id b = vote_id C p"
    using ok(1) assms(4) by (cases "ballots_for N vid") auto
  then have "cert_verify C (assemble C p (ballots_for N vid)) p =
      Inr (if unat (vp_quorum p) \<le> card {v. \<exists>b. best_for C vid (set (ballots_for N vid)) v b \<and> bl_approve b}
           then Passed else vote_outcome.Failed)"
    using assembled_verdict [of "ballots_for N vid" C p] ok assms(5) vid by simp
  then show ?thesis
    using assms(2,3) by (simp add: assemble_certificate_def)
qed

section \<open>Exchanging\<close>

definition held_ballots :: "ballot_node \<Rightarrow> b32 \<Rightarrow> (b32, ballot) btree_map" where
  "held_ballots N vid = (case bm_get (bn_ballots N) vid of None \<Rightarrow> [] | Some m \<Rightarrow> m)"

lemma ballots_for_held: "ballots_for N vid = bm_values (held_ballots N vid)"
  by (simp add: ballots_for_def held_ballots_def bm_values_def split: option.splits)

lemma held_ballots_ok:
  assumes "collection_ok C N"
  shows "bm_ok (held_ballots N vid)"
    and "bm_get (held_ballots N vid) h = Some b \<longleftrightarrow> b \<in> set (ballots_for N vid) \<and> ballot_hash C b = h"
proof -
  show ok: "bm_ok (held_ballots N vid)"
    using assms by (simp add: collection_ok_def held_ballots_def split: option.splits)
  have "bm_get (held_ballots N vid) k = Some c \<Longrightarrow> ballot_hash C c = k" for k c
    using assms by (auto simp: collection_ok_def held_ballots_def ballot_ok_def split: option.splits)
  then show "bm_get (held_ballots N vid) h = Some b \<longleftrightarrow> b \<in> set (ballots_for N vid) \<and> ballot_hash C b = h"
    unfolding ballots_for_held set_bm_values [OF ok] by blast
qed

lemma record_eligible:
  assumes "collection_ok C N" and "node_state C (bn_log N) = Some st"
    and "bm_get (gs_open_votes st) vid = Some p" and "eligible C p b" and "bl_vote_id b = vid"
    and "inj_on (ballot_hash C) (insert b (set (ballots_for N vid)))"
  shows "set (ballots_for (fst (record_ballot C b N)) vid) = insert b (set (ballots_for N vid))"
proof -
  have "held_ballots (fst (record_ballot C b N)) vid = bm_insert (ballot_hash C b) b (held_ballots N vid)"
    using assms(2-5) by (simp add: record_ballot_def eligible_def held_ballots_def not_less)
  then have get: "bm_get (held_ballots (fst (record_ballot C b N)) vid) =
      (bm_get (held_ballots N vid))(ballot_hash C b \<mapsto> b)"
    by simp
  have "c \<in> set (ballots_for (fst (record_ballot C b N)) vid) \<longleftrightarrow> c \<in> insert b (set (ballots_for N vid))" for c
    using held_ballots_ok(2) [OF conjunct1 [OF record_collection_ok [OF assms(1)]], of b vid "ballot_hash C c" c]
      held_ballots_ok(2) [OF assms(1), of vid "ballot_hash C c" c] get inj_onD [OF assms(6), of c b]
    by (auto split: if_splits)
  then show ?thesis
    by blast
qed

lemma record_all_eligible:
  assumes "collection_ok C N" and "node_state C (bn_log N) = Some st"
    and "bm_get (gs_open_votes st) vid = Some p" and "\<forall>b\<in>set bs. eligible C p b \<and> bl_vote_id b = vid"
    and "inj_on (ballot_hash C) (set bs \<union> set (ballots_for N vid))"
  shows "set (ballots_for (fst (record_ballots C bs N)) vid) = set bs \<union> set (ballots_for N vid)"
  using assms
proof (induction bs arbitrary: N)
  case (Cons b bs)
  let ?N = "fst (record_ballot C b N)"
  have "inj_on (ballot_hash C) (insert b (set (ballots_for N vid)))"
    using Cons.prems(5) by (rule inj_on_subset) auto
  then have one: "set (ballots_for ?N vid) = insert b (set (ballots_for N vid))"
    using Cons.prems(4) by (intro record_eligible [OF Cons.prems(1-3)]) auto
  have "set (ballots_for (fst (record_ballots C bs ?N)) vid) = set bs \<union> set (ballots_for ?N vid)"
    using Cons.prems one record_collection_ok [OF Cons.prems(1), of b]
    by (intro Cons.IH) (auto simp: Un_insert_right)
  then show ?case
    using one by (simp add: split_beta Let_def)
qed simp

text \<open>One exchange of ballots on a vote with the node \<open>M\<close>.\<close>

definition ballot_round :: "crypto \<Rightarrow> 'p swarm \<Rightarrow> b32 \<Rightarrow> ballot_node \<Rightarrow> ballot_node \<Rightarrow> ballot_node \<times> ballot_event option" where
  "ballot_round C W vid N M =
     (let (N1, q) = sync_ballots_with C W vid N
      in receive_ballot_response C N1 (sw_request_id W (bn_sent N))
           (answer_ballot_request C W M (sw_peer_id W (pni_id C (bn_identity N))) q))"

definition missing_ballots :: "ballot_node \<Rightarrow> ballot_node \<Rightarrow> b32 \<Rightarrow> ballot list" where
  "missing_ballots N M vid =
     map snd (filter (\<lambda>q. fst q \<notin> set (bm_keys (held_ballots N vid))) (held_ballots M vid))"

lemma set_missing_ballots:
  assumes "collection_ok C N" and "collection_ok C M"
  shows "set (missing_ballots N M vid) =
    {b \<in> set (ballots_for M vid). ballot_hash C b \<notin> ballot_hash C ` set (ballots_for N vid)}"
proof -
  let ?h = "bm_keys (held_ballots N vid)"
  have "b \<in> set (missing_ballots N M vid) \<longleftrightarrow> (\<exists>h. bm_get (held_ballots M vid) h = Some b \<and> h \<notin> set ?h)" for b
    using held_ballots_ok(1) [OF assms(2), of vid] by (force simp: missing_ballots_def bm_ok_map_of)
  moreover have "h \<in> set ?h \<longleftrightarrow> h \<in> ballot_hash C ` set (ballots_for N vid)" for h
    using held_ballots_ok(2) [OF assms(1), of vid h] by (auto simp: set_bm_keys dom_def image_iff)
  ultimately show ?thesis
    using held_ballots_ok(2) [OF assms(2), of vid] by auto
qed

lemma round_records:
  assumes "node_state C (bn_log M) = Some st" and "bm_get (gs_open_votes st) vid = Some p"
    and "is_member st (pni_id C (bn_identity N))" and "length (ballots_for M vid) \<le> max_ballots_per_response"
  shows "\<exists>r. fst (ballot_round C W vid N M) =
    fst (record_ballots C (missing_ballots N M vid) (N\<lparr>bn_sent := Suc (bn_sent N), bn_ballot_requests := r\<rparr>))"
proof -
  let ?q = "br_create C (bn_identity N) vid (bm_keys (held_ballots N vid))"
  have "length (missing_ballots N M vid) \<le> length (ballots_for M vid)"
    by (simp add: missing_ballots_def ballots_for_held bm_values_def)
  then have "length (missing_ballots N M vid) \<le> max_ballots_per_response"
    using assms(4) by simp
  then have "serve_ballots C M ?q = RespBallots (missing_ballots N M vid) False"
    using assms(1-3)
    by (simp add: serve_ballots_def br_create_def bm_contains_def missing_ballots_def held_ballots_def Let_def
        split: option.splits)
  then have answer: "answer_ballot_request C W M (sw_peer_id W (pni_id C (bn_identity N))) ?q =
      RespBallots (missing_ballots N M vid) False"
    by (simp add: answer_ballot_request_def br_create_def)
  have ask: "sync_ballots_with C W vid N =
      (N\<lparr>bn_ballot_requests := bm_insert (sw_request_id W (bn_sent N)) vid (bn_ballot_requests N),
         bn_sent := Suc (bn_sent N)\<rparr>, ?q)"
    by (simp add: sync_ballots_with_def held_ballots_def bm_keys_def split: option.splits)
  show ?thesis
    unfolding ballot_round_def ask Let_def split answer
    by (simp add: receive_ballot_response_def Let_def split_beta) blast
qed

text \<open>
  One exchange of ballots catches up: when two nodes agree on the governance state and the node
  that asks is a member, then afterwards it holds every ballot on the open vote that either of them
  held and no other, as long as what the peer holds fits into one response. The ballots are assumed to
  have different digests, the proposals different identifiers.
\<close>

theorem ballots_catch_up:
  assumes "(ballot_step C W)\<^sup>*\<^sup>* (ballot_node_new i) N" and "(ballot_step C W)\<^sup>*\<^sup>* (ballot_node_new j) M"
    and "node_state C (bn_log N) = Some st" and "node_state C (bn_log M) = Some st"
    and "bm_get (gs_open_votes st) vid = Some p" and "is_member st (pni_id C (bn_identity N))"
    and "inj_on (vote_id C) (proposals_of (bn_log M))"
    and "inj_on (ballot_hash C) (set (ballots_for N vid) \<union> set (ballots_for M vid))"
    and "length (ballots_for M vid) \<le> max_ballots_per_response"
  shows "set (ballots_for (fst (ballot_round C W vid N M)) vid) = set (ballots_for N vid) \<union> set (ballots_for M vid)"
proof -
  have ok: "collection_ok C N" "collection_ok C M"
    using reachable_collection_ok assms(1,2) by blast+
  let ?bs = "missing_ballots N M vid"
  obtain r where r: "fst (ballot_round C W vid N M) =
      fst (record_ballots C ?bs (N\<lparr>bn_sent := Suc (bn_sent N), bn_ballot_requests := r\<rparr>))"
    using round_records [OF assms(4,5,6,9)] by blast
  let ?N = "N\<lparr>bn_sent := Suc (bn_sent N), bn_ballot_requests := r\<rparr>"
  have bs: "set ?bs \<union> set (ballots_for N vid) = set (ballots_for N vid) \<union> set (ballots_for M vid)"
    using set_missing_ballots [OF ok, of vid] inj_onD [OF assms(8)] by blast
  have same: "ballots_for ?N vid = ballots_for N vid" "collection_ok C ?N"
    using ok(1) by (simp_all add: ballots_for_def collection_ok_def)
  have "\<forall>b\<in>set ?bs. eligible C p b \<and> bl_vote_id b = vid"
    using set_missing_ballots [OF ok] ballots_qualify(1) [OF ok(2) assms(7,4,5)]
      open_vote_proposed(2) [OF assms(3,5)] by auto
  then have "set (ballots_for (fst (record_ballots C ?bs ?N)) vid) = set ?bs \<union> set (ballots_for ?N vid)"
    using assms(3,5,8) bs same by (intro record_all_eligible [of C ?N st vid p]) simp_all
  then show ?thesis
    using r bs same by simp
qed

section \<open>A network with an open vote\<close>

definition vote_root :: log_entry where
  "vote_root = entry_create demo (who 1) None 0 (Genesis 7 sample_policy [ReadContent])"

definition vote_open :: log_entry where
  "vote_open = entry_create demo (who 1) (Some (entry_hash demo vote_root)) 10 (VoteProposed admission_proposal)"

lemma vote_hashes:
  "entry_hash demo vote_root = 385" "entry_hash demo vote_open = 355" "vote_id demo admission_proposal = 165"
  by (simp_all add: vote_root_def vote_open_def demo_entry_hash put_seq_def put_policy_def sample_policy_def
      conservative_default_def starter_content_types_def bs_collect_def founders_id_def vote_id_def hash_bytes_def
      put_proposal_def admission_proposal_def)

definition vote_log :: governance_log where
  "vote_log =
     \<lparr>gl_entries = [(355, vote_open), (385, vote_root)], gl_children = [(385, [355])], gl_root = Some 385,
      gl_finalized = None\<rparr>"

lemma vote_fields:
  "le_parent vote_root = None" "le_parent vote_open = Some 385"
  "entry_verify_signature demo vote_root = Inr ()" "entry_verify_signature demo vote_open = Inr ()"
  "is_genesis (le_body vote_root)" "le_body vote_open = VoteProposed admission_proposal"
  "\<not> is_capability_gated vote_open"
  using vote_hashes by (simp_all add: vote_root_def vote_open_def is_capability_gated_def)

lemma vote_inserted:
  "log_insert demo empty_log vote_root =
     Inr (385, \<lparr>gl_entries = [(385, vote_root)], gl_children = [], gl_root = Some 385, gl_finalized = None\<rparr>)"
  "log_insert demo \<lparr>gl_entries = [(385, vote_root)], gl_children = [], gl_root = Some 385, gl_finalized = None\<rparr>
     vote_open = Inr (355, vote_log)"
  by (simp_all add: empty_log_def log_insert_def vote_fields vote_hashes bm_contains_def add_child_def Let_def
      vote_log_def)

lemma vote_canonical: "canonical_chain vote_log = Some [385, 355]"
  by (simp add: canonical_chain_def vote_log_def ancestry_def log_fuel_def parent_of_def vote_fields
      best_branch_below_def pick_def better_def branch_candidate_def gated_at_def)

definition vote_state :: governance_state where
  "vote_state = the (node_state demo vote_log)"

lemma vote_facts:
  "node_state demo vote_log = Some vote_state" "bm_get (gs_open_votes vote_state) 165 = Some admission_proposal"
  "is_member vote_state 1"
proof -
  have "\<exists>st. replay demo [vote_root, vote_open] = Inr st
      \<and> bm_get (gs_open_votes st) 165 = Some admission_proposal \<and> is_member st 1"
    using vote_hashes
    by (simp add: vote_root_def vote_open_def sample_policy_def sample_defs admission_fields bs_collect_def
        bm_keys_def)
  moreover have "node_state demo vote_log =
      (case replay demo [vote_root, vote_open] of Inr st \<Rightarrow> Some st | Inl _ \<Rightarrow> None)"
    using vote_canonical by (auto simp: node_state_def replay_canonical_def vote_log_def split: sum.splits)
  ultimately show "node_state demo vote_log = Some vote_state"
    "bm_get (gs_open_votes vote_state) 165 = Some admission_proposal" "is_member vote_state 1"
    by (auto simp: vote_state_def)
qed

definition voting_node :: "b32 \<Rightarrow> ballot_node" where
  "voting_node k = (ballot_node_new (who k))\<lparr>bn_log := vote_log\<rparr>"

definition sample_vote :: ballot where
  "sample_vote = ballot_cast demo (who 1) 165 True 50"

definition voted_node :: "b32 \<Rightarrow> ballot_node" where
  "voted_node k = fst (record_ballot demo sample_vote (voting_node k))"

lemma voting_reachable:
  "(ballot_step demo W)\<^sup>*\<^sup>* (ballot_node_new (who k)) (voting_node k)"
  "(ballot_step demo W)\<^sup>*\<^sup>* (ballot_node_new (who k)) (voted_node k)"
proof -
  let ?L = "\<lparr>gl_entries = [(385, vote_root)], gl_children = [], gl_root = Some 385, gl_finalized = None\<rparr>"
  have "log_step demo empty_log ?L" "log_step demo ?L vote_log"
    using vote_inserted by (auto intro!: log_step.inserts simp: no_clash_def empty_log_def vote_hashes)
  then have "ballot_step demo W (ballot_node_new (who k)) ((ballot_node_new (who k))\<lparr>bn_log := ?L\<rparr>)"
    "ballot_step demo W ((ballot_node_new (who k))\<lparr>bn_log := ?L\<rparr>) (voting_node k)"
    using ballot_step.log_grows [of demo "ballot_node_new (who k)" ?L W]
      ballot_step.log_grows [of demo "(ballot_node_new (who k))\<lparr>bn_log := ?L\<rparr>" vote_log W]
    by (simp_all add: ballot_node_new_def voting_node_def)
  then show reach: "(ballot_step demo W)\<^sup>*\<^sup>* (ballot_node_new (who k)) (voting_node k)"
    by (meson converse_rtranclp_into_rtranclp r_into_rtranclp)
  then show "(ballot_step demo W)\<^sup>*\<^sup>* (ballot_node_new (who k)) (voted_node k)"
    using ballot_step.records unfolding voted_node_def by (rule rtranclp.rtrancl_into_rtrancl)
qed

lemma voted_simps:
  "bn_log (voting_node k) = vote_log" "bn_identity (voting_node k) = who k" "ballots_for (voting_node k) 165 = []"
  "bn_log (voted_node k) = vote_log" "ballots_for (voted_node k) 165 = [sample_vote]"
  "proposals_of vote_log = {admission_proposal}"
proof -
  show log: "bn_log (voting_node k) = vote_log" "bn_identity (voting_node k) = who k"
    "ballots_for (voting_node k) 165 = []"
    by (simp_all add: voting_node_def ballot_node_new_def ballots_for_def)
  have "ballot_verify demo sample_vote = Inr ()" "bl_vote_id sample_vote = 165" "bl_voter sample_vote = 1"
    "sint (bl_cast_at sample_vote) = 50"
    by (simp_all add: sample_vote_def ballot_cast_def ballot_verify_def vk_verify_def)
  moreover have "sint (vp_close_time admission_proposal) = 100"
    by (simp add: admission_proposal_def)
  ultimately show "bn_log (voted_node k) = vote_log" "ballots_for (voted_node k) 165 = [sample_vote]"
    using vote_facts(1,2)
    by (simp_all add: voted_node_def record_ballot_def log admission_fields ballots_for_def voting_node_def
        ballot_node_new_def bm_values_def)
  have "entries_of vote_log = {vote_root, vote_open}"
    by (auto simp: vote_log_def)
  moreover have "le_body vote_root \<noteq> VoteProposed p" for p
    using vote_fields(5) by auto
  ultimately show "proposals_of vote_log = {admission_proposal}"
    using vote_fields(6) by (auto simp: proposals_of_def) (metis)
qed

theorem collection_assembles_witness:
  "\<exists>c. assemble_certificate demo (voted_node 1) 165 = Some c
     \<and> cert_verify demo c admission_proposal = Inr Passed"
proof -
  have "{v. \<exists>b. best_for demo 165 {sample_vote} v b \<and> bl_approve b} = {1}"
    by (auto simp: best_for_def sample_vote_def ballot_cast_def)
  then show ?thesis
    using collection_assembles [OF voting_reachable(2) [where k = 1], of vote_state 165 admission_proposal]
      vote_facts voted_simps by (simp add: admission_proposal_def)
qed

definition vote_swarm :: "b32 swarm" where
  "vote_swarm = \<lparr>sw_peer_id = \<lambda>i. i, sw_from_peer_id = Some, sw_request_id = \<lambda>n. n, sw_query_id = \<lambda>n. n\<rparr>"

theorem ballots_catch_up_witness:
  "set (ballots_for (fst (ballot_round demo vote_swarm 165 (voting_node 1) (voted_node 2))) 165) = {sample_vote}"
  using ballots_catch_up [OF voting_reachable(1) [where k = 1] voting_reachable(2) [where k = 2],
      of vote_state 165 admission_proposal vote_swarm] vote_facts voted_simps
  by (simp add: max_ballots_per_response_def)

end
