(* ===== verification/Tip.thy ===== *)
theory Tip
  imports Invite Consensus
begin

text \<open>
  What appending at the tip of the canonical chain does: the entry becomes the new tip if it counts in
  fork choice, whoever signed it, and the governance state is the old one with the entry applied, or
  none if the entry is not valid there.
\<close>

section \<open>Appending at the tip\<close>

definition unrivalled :: "governance_log \<Rightarrow> bool" where
  "unrivalled L \<longleftrightarrow>
     (\<forall>r below q. gl_root L = Some r \<and> best_branch_below L (log_start L r) = Some below
        \<and> down L (log_start L r) q \<and> q \<noteq> below \<longrightarrow> gated_count L q < gated_count L below)"

lemma bs_insert_nonempty: "bs_insert k s \<noteq> []"
  using set_bs_insert [of k s] by (metis empty_set insert_not_empty)

lemma down_extended:
  assumes "log_insert C L e = Inr (h, L')" and "bm_get (gl_entries L) h = None" and "le_parent e = Some t"
    and "kids L t = []" and "log_wf C L"
  shows "down L s p \<Longrightarrow> tip_of s p = t \<Longrightarrow> down L' s (p @ [h])"
    and "down L' s q \<Longrightarrow> bm_get (gl_entries L) s \<noteq> None \<Longrightarrow>
      (\<exists>p. q = p @ [h] \<and> down L s p \<and> tip_of s p = t) \<or> down L s q"
proof -
  note new = log_insert_new_parts [OF assms(1,2)]
  have fresh: "kids L h = []"
    using wf_kids [OF assms(5), of _ h] parent_present [OF assms(5)] assms(2)
    by (metis list.set_intros(1) neq_Nil_conv)
  have "t \<noteq> h"
    using assms(1-3) by (auto simp: log_insert_Inr)
  have leaf: "down L' h []"
    using fresh \<open>t \<noteq> h\<close> by (auto intro: down.tip simp: new(4) assms(3))
  show "down L s p \<Longrightarrow> tip_of s p = t \<Longrightarrow> down L' s (p @ [h])"
  proof (induction rule: down.induct)
    case (tip s)
    then show ?case
      using leaf by (auto intro!: down.branch simp: tip_of_def new(4) assms(3))
  next
    case (branch c s p)
    then have "tip_of c p = t"
      by (simp add: tip_of_def split: if_splits)
    moreover have "c \<in> set (kids L' s)"
      using branch by (simp add: new(4))
    ultimately show ?case
      using branch by (simp add: down.branch)
  qed
  show "down L' s q \<Longrightarrow> bm_get (gl_entries L) s \<noteq> None \<Longrightarrow>
      (\<exists>p. q = p @ [h] \<and> down L s p \<and> tip_of s p = t) \<or> down L s q"
  proof (induction rule: down.induct)
    case (tip s)
    then show ?case
      by (auto intro: down.tip simp: new(4) assms(3) bs_insert_nonempty split: if_splits)
  next
    case (branch c s q)
    show ?case
    proof (cases "s = t")
      case True
      then have "c = h"
        using branch(1) assms(3,4) by (simp add: new(4))
      then have "q = []"
        using branch(2) fresh \<open>t \<noteq> h\<close> by (cases q) (auto elim!: down_ConsE simp: new(4) assms(3))
      then show ?thesis
        using \<open>c = h\<close> True assms(4) by (auto intro!: exI [of _ "[]"] down.tip simp: tip_of_def)
    next
      case False
      then have c: "c \<in> set (kids L s)"
        using branch(1) assms(3) by (auto simp: new(4) split: if_splits)
      then have "bm_get (gl_entries L) c \<noteq> None"
        using parent_present [OF assms(5)] wf_kids [OF assms(5)] by blast
      with branch.IH consider p where "q = p @ [h]" "down L c p" "tip_of c p = t" | "down L c q"
        by blast
      then show ?thesis
      proof cases
        case 1
        then have "down L s (c # p)" "tip_of s (c # p) = t" "c # q = (c # p) @ [h]"
          using c by (auto intro: down.branch simp: tip_of_def)
        then show ?thesis
          by blast
      qed (use c in \<open>auto intro: down.branch\<close>)
    qed
  qed
qed

lemma same_branch:
  assumes "log_wf C L" and "down L s p" and "down L s q" and "tip_of s p = tip_of s q"
  shows "p = q"
proof -
  obtain ps where ps: "up L s ps"
    using ancestry_total [OF assms(1)] by blast
  then show ?thesis
    using up_unique [OF down_up [OF assms(2,1) ps] down_up [OF assms(3,1) ps, folded assms(4)]] by simp
qed

text \<open>
  An entry appended at the tip of the canonical chain extends it, if the entry counts in fork choice or
  if no branch ties with the chain; and afterwards no branch ties with it.
\<close>

lemma tip_extends:
  assumes "log_wf C L" and "canonical_chain L = Some chain" and "chain \<noteq> []" and "log_insert C L e = Inr (h, L')"
    and "bm_get (gl_entries L) h = None" and "le_parent e = Some (last chain)"
    and "is_capability_gated e \<or> unrivalled L" and "length (gl_entries L') < 2 ^ 32"
  shows "canonical_chain L' = Some (chain @ [h])" and "unrivalled L'" and "log_wf C L'"
proof -
  note new = log_insert_new_parts [OF assms(4,5)]
  show wf': "log_wf C L'"
    by (rule log_insert_wf [OF assms(1,4)]) (use assms(4,5) in \<open>auto simp: no_clash_def log_insert_Inr\<close>)
  obtain r where r: "gl_root L = Some r"
    using assms(2,3) by (auto simp: canonical_chain_def split: option.splits)
  have r': "gl_root L' = Some r"
    using r by (simp add: new(5) assms(6))
  let ?s = "log_start L r"
  have start: "log_start L' r = ?s"
    by (simp add: log_start_def new(2))
  obtain ps below where p: "up L ?s ps" "best_branch_below L ?s = Some below" "down L ?s below"
      "canonical_chain L = Some (rev ps @ below)"
    using canonical_parts [OF assms(1) r] by metis
  obtain ps' below' where p': "up L' ?s ps'" "best_branch_below L' ?s = Some below'" "down L' ?s below'"
      "canonical_chain L' = Some (rev ps' @ below')"
    using canonical_parts [OF wf' r'] start by metis
  have s: "bm_get (gl_entries L) ?s \<noteq> None" "bm_get (gl_entries L') ?s \<noteq> None"
    using start_present [OF assms(1) r] start_present [OF wf' r'] start by auto
  have len: "length (gl_entries L) < 2 ^ 32"
    using assms(8) length_bm_insert_ge [of "gl_entries L" h e] by (simp add: new(1))
  have "ps' = ps"
    using up_unique [OF p'(1) log_insert_up [OF assms(4,5) p(1)]] wf_present_up [OF assms(1) s(1) p(1)] by simp
  have tip: "last chain = tip_of ?s below"
    using p(4) assms(2) up_hd [OF p(1)] by (cases below) (auto simp: tip_of_def last_rev hd_conv_nth)
  note ext = down_extended [OF assms(4,5) assms(6) [unfolded tip] down_tip_kids [OF p(3)] assms(1)]
  have same: "gated_count L' q = gated_count L q" if "down L ?s q" for q
  proof -
    have "set q \<subseteq> dom (bm_get (gl_entries L))"
      by (rule down_distinct(2) [OF assms(1) that s(1) p(1)])
    then have "gated_at L' x = gated_at L x" if "x \<in> set q" for x
      using that assms(5) by (auto simp: gated_at_def new(1))
    then show ?thesis
      unfolding gated_count_def by (metis (mono_tags, lifting) filter_cong)
  qed
  have grown: "gated_count L' (below @ [h]) = gated_count L below + (if is_capability_gated e then 1 else 0)"
    using same [OF p(3)] by (simp add: gated_count_def gated_at_def new(1))
  have rival: "gated_count L' q < gated_count L' (below @ [h])" if "down L' ?s q" "q \<noteq> below @ [h]" for q
  proof -
    have "down L ?s q"
      using ext(2) [OF that(1) s(1)] same_branch [OF assms(1) _ p(3)] that(2) by blast
    moreover have "q \<noteq> below"
    proof
      assume "q = below"
      then have "kids L' (tip_of ?s below) = []"
        using down_tip_kids [OF that(1)] by simp
      then show False
        by (simp add: new(4) assms(6) tip bs_insert_nonempty)
    qed
    moreover have "branch_beats L ?s below q"
      using best_branch_optimal [OF assms(1) len p(2) [unfolded best_branch_below_def] s(1)] \<open>down L ?s q\<close> by simp
    ultimately show ?thesis
      using assms(7) same [of q] r p(2) by (auto simp: grown unrivalled_def branch_beats_def)
  qed
  have "below' = below @ [h]"
  proof (rule ccontr)
    assume "below' \<noteq> below @ [h]"
    then have "gated_count L' below' < gated_count L' (below @ [h])"
      using rival p'(3) by blast
    moreover have "branch_beats L' ?s below' (below @ [h])"
      using best_branch_optimal [OF wf' assms(8) p'(2) [unfolded best_branch_below_def] s(2)] ext(1) [OF p(3)]
      by simp
    ultimately show False
      by (simp add: branch_beats_def)
  qed
  then show "canonical_chain L' = Some (chain @ [h])" "unrivalled L'"
    using p(4) p'(2,4) assms(2) \<open>ps' = ps\<close> rival r' start by (auto simp: unrivalled_def)
qed

lemma chain_present:
  assumes "log_wf C L" and "canonical_chain L = Some chain"
  shows "set chain \<subseteq> dom (bm_get (gl_entries L))"
proof (cases "gl_root L")
  case None
  then show ?thesis
    using assms(2) by (simp add: canonical_chain_def)
next
  case (Some r)
  then show ?thesis
    using canonical_chain_ok [OF assms(1) Some] assms(2) by (metis chain_ok_def option.inject)
qed

text \<open>No entry of the log is displaced by another with its hash, and fork choice does not overflow.\<close>

definition keeps :: "governance_log \<Rightarrow> governance_log \<Rightarrow> bool" where
  "keeps L L' \<longleftrightarrow>
     (\<forall>h e. bm_get (gl_entries L) h = Some e \<longrightarrow> bm_get (gl_entries L') h = Some e) \<and> length (gl_entries L') < 2 ^ 32"

lemma tip_fresh:
  assumes "log_wf C L" and "canonical_chain L = Some chain" and "chain \<noteq> []" and "log_insert C L e = Inr (h, L')"
    and "le_parent e = Some (last chain)" and "keeps L L'"
  shows "bm_get (gl_entries L) h = None"
proof (rule ccontr)
  assume "bm_get (gl_entries L) h \<noteq> None"
  then obtain e' where e': "bm_get (gl_entries L) h = Some e'"
    by blast
  then have "bm_get (gl_entries L') h = Some e'"
    using assms(6) by (simp add: keeps_def)
  then have "e' = e"
    using assms(4,5) by (auto simp: log_insert_Inr)
  then have "h \<in> set (kids L (last chain))"
    using wf_kids [OF assms(1)] assms(5) e' by (simp add: parent_of_def)
  moreover obtain r where "gl_root L = Some r"
    using assms(2,3) by (auto simp: canonical_chain_def split: option.splits)
  ultimately show False
    using canonical_chain_ok [OF assms(1)] assms(2) by (metis chain_ok_def empty_iff list.set(1) option.inject)
qed

section \<open>What an append does to the state\<close>

lemma map_filter_append: "List.map_filter f (xs @ ys) = List.map_filter f xs @ List.map_filter f ys"
  by (simp add: List.map_filter_def)

lemma tip_state:
  assumes "log_wf C L" and "canonical_chain L = Some chain" and "chain \<noteq> []" and "log_insert C L e = Inr (h, L')"
    and "le_parent e = Some (last chain)" and "is_capability_gated e \<or> unrivalled L" and "keeps L L'"
    and "node_state C L = Some st"
  shows "canonical_chain L' = Some (chain @ [h])"
    and "node_state C L' = (case apply_entry C st e of Inr st' \<Rightarrow> Some st' | Inl _ \<Rightarrow> None)"
proof -
  have fresh: "bm_get (gl_entries L) h = None"
    by (rule tip_fresh [OF assms(1-5,7)])
  show chain': "canonical_chain L' = Some (chain @ [h])"
    by (rule tip_extends [OF assms(1-4) fresh assms(5,6)]) (use assms(7) in \<open>simp add: keeps_def\<close>)
  have "List.map_filter (bm_get (gl_entries L')) xs = List.map_filter (bm_get (gl_entries L)) xs"
    if "set xs \<subseteq> dom (bm_get (gl_entries L))" for xs
    using that assms(7) by (induction xs) (auto simp: map_filter_simps keeps_def)
  then have old: "List.map_filter (bm_get (gl_entries L')) chain = List.map_filter (bm_get (gl_entries L)) chain"
    using chain_present [OF assms(1,2)] by blast
  have "bm_get (gl_entries L') h = Some e"
    using assms(4,5) by (auto simp: log_insert_Inr)
  then have new: "List.map_filter (bm_get (gl_entries L')) [h] = [e]"
    by (simp add: map_filter_simps)
  have rep: "replay C (List.map_filter (bm_get (gl_entries L)) chain) = Inr st"
    using assms(2,8) by (auto simp: node_state_def replay_canonical_def split: sum.splits)
  then have "List.map_filter (bm_get (gl_entries L)) chain \<noteq> []"
    by auto
  then have "replay_canonical C L' = Some (apply_entry C st e)"
    using rep replay_append [of "List.map_filter (bm_get (gl_entries L)) chain" C "[e]"]
    unfolding replay_canonical_def chain' map_filter_append option.map old new
    by (cases "apply_entry C st e") simp_all
  then show "node_state C L' = (case apply_entry C st e of Inr st' \<Rightarrow> Some st' | Inl _ \<Rightarrow> None)"
    by (simp add: node_state_def split: sum.splits)
qed

text \<open>
  What a node appends at the tip of its canonical chain takes effect at once, if it counts in fork
  choice: the entry is the new tip of the chain whatever other branches the log holds, and the
  governance state is the old one with the entry applied, or none if the entry is not valid there.
\<close>

theorem append_takes_effect:
  assumes "(log_step C)\<^sup>*\<^sup>* empty_log L" and "canonical_chain L = Some chain" and "chain \<noteq> []"
    and "node_state C L = Some st" and "log_insert C L e = Inr (h, L')" and "le_parent e = Some (last chain)"
    and "is_capability_gated e" and "keeps L L'"
  shows "canonical_chain L' = Some (chain @ [h])
    \<and> node_state C L' = (case apply_entry C st e of Inr st' \<Rightarrow> Some st' | Inl _ \<Rightarrow> None)"
  using tip_state [OF reachable_wf [OF assms(1)] assms(2,3,5,6) disjI1 [OF assms(7)] assms(8,4)] by blast

section \<open>Entries of strangers\<close>

lemma member_if_authorized: "authorize C st e = Inr () \<Longrightarrow> is_member st (le_author e)"
  using authorize_required [of C st e]
  by (auto simp: identity_holds_def is_member_def list_ex_iff split: option.splits)

lemma tip_parent:
  assumes "log_wf C L" and "node_state C L = Some st"
  obtains chain where "canonical_chain L = Some chain" "chain \<noteq> []" "log_tip L = Some (last chain)"
    "bm_get (gl_entries L) (last chain) \<noteq> None"
proof -
  obtain chain where chain: "canonical_chain L = Some chain" "replay C (List.map_filter (bm_get (gl_entries L)) chain) = Inr st"
    using assms(2) by (auto simp: node_state_def replay_canonical_def split: option.splits sum.splits)
  then have "chain \<noteq> []"
    by (auto simp: map_filter_simps)
  moreover from this have "bm_get (gl_entries L) (last chain) \<noteq> None"
    using chain_present [OF assms(1) chain(1)] last_in_set by blast
  ultimately show ?thesis
    using that chain(1) by (simp add: log_tip_def)
qed

text \<open>
  C38. Fork choice weighs entries by their kind alone, and insertion checks no authority: whatever log a
  node has reached, if its canonical chain replays, then an entry of a kind that carries weight, signed
  by a key that belongs to nobody in the network and appended at the tip, is accepted, becomes the new
  tip, and leaves the node with a canonical chain that does not replay. The conditions are that the
  hash of the entry is new to the log and that fewer than \<open>2 ^ 32\<close> entries are held.
\<close>

theorem stranger_breaks_replay:
  assumes "sign_correct C" and "(log_step C)\<^sup>*\<^sup>* empty_log L" and "node_state C L = Some st"
    and "\<not> is_member st (pni_id C stranger)" and "e = entry_create C stranger (log_tip L) t body"
    and "is_capability_gated e" and "bm_get (gl_entries L) (entry_hash C e) = None"
    and "length (gl_entries L) + 1 < 2 ^ 32"
  shows "\<exists>chain L'. canonical_chain L = Some chain \<and> log_insert C L e = Inr (entry_hash C e, L')
    \<and> canonical_chain L' = Some (chain @ [entry_hash C e]) \<and> node_state C L' = None"
proof -
  have wf: "log_wf C L"
    by (rule reachable_wf [OF assms(2)])
  obtain chain where chain: "canonical_chain L = Some chain" "chain \<noteq> []" "log_tip L = Some (last chain)"
      "bm_get (gl_entries L) (last chain) \<noteq> None"
    by (rule tip_parent [OF wf assms(3)])
  have e: "le_parent e = Some (last chain)" "le_author e = pni_id C stranger"
    by (simp_all add: assms(5) entry_create_def chain(3))
  obtain L' where L': "log_insert C L e = Inr (entry_hash C e, L')"
    using entry_create_verifies [OF assms(1)] chain(4) e(1) by (auto simp: log_insert_Inr assms(5))
  have "gl_entries L' = bm_insert (entry_hash C e) e (gl_entries L)"
    by (rule log_insert_new_parts(1) [OF L' assms(7)])
  then have "keeps L L'"
    using assms(7,8) length_bm_insert [of "entry_hash C e" e "gl_entries L"] by (auto simp: keeps_def)
  note after = tip_state [OF wf chain(1,2) L' e(1) disjI1 [OF assms(6)] this assms(3)]
  have "apply_entry C st e \<noteq> Inr st'" for st'
    using member_if_authorized [of C st e] assms(4) e(2) by (auto simp: apply_entry_Inr)
  then have "node_state C L' = None"
    using after(2) by (auto split: sum.splits)
  then show ?thesis
    using chain(1) L' after(1) by blast
qed

definition stranger_entry :: log_entry where
  "stranger_entry = entry_create demo (who 9) (Some 241) 30 (BodyDefineGroup ''ccc'' (CapExplicit []))"

theorem stranger_breaks_replay_witness:
  "\<exists>L'. node_state demo fork_log \<noteq> None \<and> log_insert demo fork_log stranger_entry = Inr (243, L')
     \<and> canonical_chain L' = Some [357, 241, 243] \<and> node_state demo L' = None"
proof -
  have e: "entry_hash demo stranger_entry = 243" "is_capability_gated stranger_entry"
      "stranger_entry = entry_create demo (who 9) (log_tip fork_log) 30 (BodyDefineGroup ''ccc'' (CapExplicit []))"
    by (simp_all add: stranger_entry_def demo_entry_hash put_seq_def is_capability_gated_def log_tip_def fork_canonical)
  have new: "bm_get (gl_entries fork_log) (entry_hash demo stranger_entry) = None" "length (gl_entries fork_log) + 1 < 2 ^ 32"
    by (simp_all add: e(1)) (simp_all add: fork_log_def)
  have "\<exists>st. replay demo [fork_root, fork_a] = Inr st \<and> \<not> is_member st 9"
    by (simp add: fork_root_def fork_a_def fork_policy_def sample_defs)
  then obtain st where st: "node_state demo fork_log = Some st" "\<not> is_member st (pni_id demo (who 9))"
    using fork_canonical by (auto simp: node_state_def replay_canonical_def fork_log_def)
  show ?thesis
    using stranger_breaks_replay [OF demo_sign_correct fork_wf(2) st e(3,2) new] st(1) fork_canonical e(1) by auto
qed

end
