(* ===== verification/Session.thy ===== *)
theory Session
  imports Epoch "HOL-Library.List_Lexorder"
begin

text \<open>
  The group session of \<open>intranet-epoch\<close>, group.rs: a wrapper around the MLS implementation of the
  third-party crate openmls. The calls into that crate are the fields of the record \<open>openmls\<close>, a
  parameter of every operation; what the wrapper adds is modelled: the order of the calls, the text
  of every error, what is undone when a replacement fails, and the format of a saved session.
\<close>

section \<open>The crate\<close>

text \<open>
  \<open>'s\<close> is a signature key pair, \<open>'g\<close> a group with the provider that holds its storage and its random
  generator, \<open>'b\<close> a key package bundle with its provider, and \<open>'o\<close> what the crate hands from one call
  to the next: an outgoing message, a staged commit or a staged welcome. An operation on a group
  returns the group in every case, since it works in place. A fresh provider starts from the entropy
  of the system, the number that the first operations take. Errors carry their debug text.
\<close>

datatype mls_body = KeyPackageIn bytes | WelcomeIn bytes | OtherIn bytes

record ('s, 'g, 'b, 'o) openmls =
  om_keypair :: "nat \<Rightarrow> string + 's"
  om_public :: "'s \<Rightarrow> bytes"
  om_group_new :: "nat \<Rightarrow> 's \<Rightarrow> bytes \<times> bytes \<Rightarrow> string + 'g"
  om_bundle_new :: "nat \<Rightarrow> 's \<Rightarrow> bytes \<times> bytes \<Rightarrow> string + 'b"
  om_bundle_package :: "'b \<Rightarrow> string + bytes"
  om_export :: "'g \<Rightarrow> string \<Rightarrow> bytes \<Rightarrow> nat \<Rightarrow> string + bytes"
  om_epoch :: "'g \<Rightarrow> u64"
  om_members :: "'g \<Rightarrow> (bytes \<times> u32) list"
  om_parse :: "bytes \<Rightarrow> string + mls_body"
  om_validate :: "bytes \<Rightarrow> string + bytes"
  om_leaf_credential :: "bytes \<Rightarrow> bytes"
  om_add_members :: "'s \<Rightarrow> bytes \<Rightarrow> 'g \<Rightarrow> 'g \<times> (string + 'o \<times> 'o)"
  om_remove_members :: "'s \<Rightarrow> u32 \<Rightarrow> 'g \<Rightarrow> 'g \<times> (string + 'o \<times> 'o option)"
  om_propose_remove :: "'s \<Rightarrow> u32 \<Rightarrow> 'g \<Rightarrow> 'g \<times> (string + unit)"
  om_propose_add :: "'s \<Rightarrow> bytes \<Rightarrow> 'g \<Rightarrow> 'g \<times> (string + unit)"
  om_clear_proposals :: "'g \<Rightarrow> 'g"
  om_commit_proposals :: "'s \<Rightarrow> 'g \<Rightarrow> 'g \<times> (string + 'o \<times> 'o option)"
  om_self_update :: "'s \<Rightarrow> 'g \<Rightarrow> 'g \<times> (string + 'o)"
  om_merge_pending :: "'g \<Rightarrow> 'g \<times> (string + unit)"
  om_serialize :: "'o \<Rightarrow> string + bytes"
  om_protocol :: "mls_body \<Rightarrow> string + bytes"
  om_process :: "bytes \<Rightarrow> 'g \<Rightarrow> 'g \<times> (string + 'o option)"
  om_merge_staged :: "'o \<Rightarrow> 'g \<Rightarrow> 'g \<times> (string + unit)"
  om_stage_welcome :: "'b \<Rightarrow> bytes \<Rightarrow> string + 'o"
  om_into_group :: "'b \<Rightarrow> 'o \<Rightarrow> string + 'g"
  om_group_id :: "'g \<Rightarrow> bytes"
  om_store_signer :: "'s \<Rightarrow> 'g \<Rightarrow> string + (bytes \<times> bytes) list"
  om_read_signer :: "(bytes \<times> bytes) list \<Rightarrow> bytes \<Rightarrow> 's option"
  om_load :: "nat \<Rightarrow> (bytes \<times> bytes) list \<Rightarrow> bytes \<Rightarrow> string + 'g option"

section \<open>Calls that work in place\<close>

definition mls_err :: "string \<Rightarrow> string + 'a \<Rightarrow> epoch_error + 'a" where
  "mls_err what r = (case r of Inl e \<Rightarrow> Inl (Mls (what @ '': '' @ e)) | Inr x \<Rightarrow> Inr x)"

definition mls_call :: "string \<Rightarrow> ('g \<Rightarrow> 'g \<times> (string + 'a)) \<Rightarrow> 'g \<Rightarrow> 'g \<times> (epoch_error + 'a)" where
  "mls_call what f g = (let (g', r) = f g in (g', mls_err what r))"

definition and_then ::
  "('g \<Rightarrow> 'g \<times> (epoch_error + 'a)) \<Rightarrow> ('a \<Rightarrow> 'g \<Rightarrow> 'g \<times> (epoch_error + 'b)) \<Rightarrow> 'g \<Rightarrow> 'g \<times> (epoch_error + 'b)" where
  "and_then f k g = (case f g of (g', Inl e) \<Rightarrow> (g', Inl e) | (g', Inr x) \<Rightarrow> k x g')"

definition outcome :: "('g \<Rightarrow> epoch_error + 'a) \<Rightarrow> 'g \<Rightarrow> 'g \<times> (epoch_error + 'a)" where
  "outcome f g = (g, f g)"

section \<open>Sessions\<close>

definition exporter_label :: string where
  "exporter_label = ''intranet.epoch-key.v1''"

record ('s, 'g) group_session =
  ss_signer :: 's
  ss_credential :: "bytes \<times> bytes"
  ss_group :: 'g

record rotation =
  ro_commit :: bytes
  ro_welcome :: "bytes option"
  ro_key :: b32
  ro_epoch :: u64

record ('s, 'b) pending_member =
  pm_signer :: 's
  pm_credential :: "bytes \<times> bytes"
  pm_bundle :: 'b

text \<open>A key package is deserialized, recognised and validated before anything of it is read.\<close>

definition read_key_package :: "('s, 'g, 'b, 'o) openmls \<Rightarrow> bytes \<Rightarrow> epoch_error + bytes" where
  "read_key_package M kp =
     res_bind (mls_err ''key package decode'' (om_parse M kp)) (\<lambda>body.
       case body of
         KeyPackageIn k \<Rightarrow> mls_err ''key package validation'' (om_validate M k)
       | _ \<Rightarrow> Inl (Mls ''expected a key package''))"

definition key_package_identity :: "('s, 'g, 'b, 'o) openmls \<Rightarrow> bytes \<Rightarrow> epoch_error + bytes" where
  "key_package_identity M kp = res_bind (read_key_package M kp) (\<lambda>k. Inr (om_leaf_credential M k))"

definition session_create ::
  "('s, 'g, 'b, 'o) openmls \<Rightarrow> nat \<Rightarrow> bytes \<Rightarrow> epoch_error + ('s, 'g) group_session" where
  "session_create M seed label =
     res_bind (mls_err ''signature keypair'' (om_keypair M seed)) (\<lambda>signer.
       let credential = (label, om_public M signer) in
       res_bind (mls_err ''group create'' (om_group_new M seed signer credential)) (\<lambda>g.
         Inr \<lparr>ss_signer = signer, ss_credential = credential, ss_group = g\<rparr>))"

definition prepare_join ::
  "('s, 'g, 'b, 'o) openmls \<Rightarrow> nat \<Rightarrow> bytes \<Rightarrow> epoch_error + ('s, 'b) pending_member" where
  "prepare_join M seed label =
     res_bind (mls_err ''signature keypair'' (om_keypair M seed)) (\<lambda>signer.
       let credential = (label, om_public M signer) in
       res_bind (mls_err ''key package'' (om_bundle_new M seed signer credential)) (\<lambda>b.
         Inr \<lparr>pm_signer = signer, pm_credential = credential, pm_bundle = b\<rparr>))"

definition group_key :: "('s, 'g, 'b, 'o) openmls \<Rightarrow> 'g \<Rightarrow> epoch_error + b32" where
  "group_key M g =
     res_bind (mls_err ''export'' (om_export M g exporter_label [] 32)) (\<lambda>b.
       if length b = 32 then Inr (of_nat (be_val b)) else Inl (Mls ''exporter returned wrong length''))"

definition session_key :: "('s, 'g, 'b, 'o) openmls \<Rightarrow> ('s, 'g) group_session \<Rightarrow> epoch_error + b32" where
  "session_key M X = group_key M (ss_group X)"

definition session_epoch :: "('s, 'g, 'b, 'o) openmls \<Rightarrow> ('s, 'g) group_session \<Rightarrow> u64" where
  "session_epoch M X = om_epoch M (ss_group X)"

definition member_count :: "('s, 'g, 'b, 'o) openmls \<Rightarrow> ('s, 'g) group_session \<Rightarrow> nat" where
  "member_count M X = length (om_members M (ss_group X))"

definition session_label :: "('s, 'g) group_session \<Rightarrow> bytes" where
  "session_label X = fst (ss_credential X)"

definition leaf_index_for :: "('s, 'g, 'b, 'o) openmls \<Rightarrow> ('s, 'g) group_session \<Rightarrow> b32 \<Rightarrow> u32 option" where
  "leaf_index_for M X identity =
     map_option snd (List.find (\<lambda>m. fst m = identity_label identity) (om_members M (ss_group X)))"

definition mls_encode :: "('s, 'g, 'b, 'o) openmls \<Rightarrow> 'o \<Rightarrow> epoch_error + bytes" where
  "mls_encode M x = mls_err ''encode'' (om_serialize M x)"

text \<open>The rotation that a merged commit makes, with its messages encoded.\<close>

definition rotation_of ::
  "('s, 'g, 'b, 'o) openmls \<Rightarrow> 'o \<Rightarrow> 'o option \<Rightarrow> 'g \<Rightarrow> epoch_error + rotation" where
  "rotation_of M commit welcome g =
     res_bind (mls_encode M commit) (\<lambda>c.
     res_bind (case welcome of None \<Rightarrow> Inr None | Some w \<Rightarrow> res_bind (mls_encode M w) (\<lambda>b. Inr (Some b))) (\<lambda>w.
     res_bind (group_key M g) (\<lambda>key.
       Inr \<lparr>ro_commit = c, ro_welcome = w, ro_key = key, ro_epoch = om_epoch M g\<rparr>)))"

definition on_group ::
  "('g \<Rightarrow> 'g \<times> (epoch_error + 'a)) \<Rightarrow> ('s, 'g) group_session \<Rightarrow> ('s, 'g) group_session \<times> (epoch_error + 'a)" where
  "on_group f X = (let (g, r) = f (ss_group X) in (X\<lparr>ss_group := g\<rparr>, r))"

definition add_member ::
  "('s, 'g, 'b, 'o) openmls \<Rightarrow> bytes \<Rightarrow> ('s, 'g) group_session \<Rightarrow> ('s, 'g) group_session \<times> (epoch_error + rotation)" where
  "add_member M kp X =
     (case read_key_package M kp of
        Inl e \<Rightarrow> (X, Inl e)
      | Inr k \<Rightarrow>
          on_group
            (and_then (mls_call ''add member'' (om_add_members M (ss_signer X) k)) (\<lambda>(commit, welcome).
             and_then (mls_call ''merge'' (om_merge_pending M)) (\<lambda>_.
               outcome (rotation_of M commit (Some welcome))))) X)"

definition remove_member ::
  "('s, 'g, 'b, 'o) openmls \<Rightarrow> u32 \<Rightarrow> ('s, 'g) group_session \<Rightarrow> ('s, 'g) group_session \<times> (epoch_error + rotation)" where
  "remove_member M index X =
     on_group
       (and_then (mls_call ''remove member'' (om_remove_members M (ss_signer X) index)) (\<lambda>(commit, welcome).
        and_then (mls_call ''merge'' (om_merge_pending M)) (\<lambda>_.
          outcome (rotation_of M commit welcome)))) X"

definition stage_replacement ::
  "('s, 'g, 'b, 'o) openmls \<Rightarrow> 's \<Rightarrow> u32 \<Rightarrow> bytes \<Rightarrow> 'g \<Rightarrow> 'g \<times> (epoch_error + unit)" where
  "stage_replacement M signer index k =
     and_then (mls_call ''replace member: remove proposal'' (om_propose_remove M signer index)) (\<lambda>_.
       mls_call ''replace member: add proposal'' (om_propose_add M signer k))"

text \<open>A step that clears what was proposed when it fails.\<close>

definition or_clear ::
  "('s, 'g, 'b, 'o) openmls \<Rightarrow> ('g \<Rightarrow> 'g \<times> (epoch_error + 'a)) \<Rightarrow> 'g \<Rightarrow> 'g \<times> (epoch_error + 'a)" where
  "or_clear M f g = (case f g of (g', Inl e) \<Rightarrow> (om_clear_proposals M g', Inl e) | (g', Inr x) \<Rightarrow> (g', Inr x))"

definition replace_member ::
  "('s, 'g, 'b, 'o) openmls \<Rightarrow> u32 \<Rightarrow> bytes \<Rightarrow> ('s, 'g) group_session \<Rightarrow>
     ('s, 'g) group_session \<times> (epoch_error + rotation)" where
  "replace_member M index kp X =
     (case read_key_package M kp of
        Inl e \<Rightarrow> (X, Inl e)
      | Inr k \<Rightarrow>
          on_group
            (and_then (or_clear M (stage_replacement M (ss_signer X) index k)) (\<lambda>_.
             and_then (or_clear M (mls_call ''replace member: commit'' (om_commit_proposals M (ss_signer X))))
               (\<lambda>(commit, welcome).
             and_then (mls_call ''merge'' (om_merge_pending M)) (\<lambda>_.
               outcome (\<lambda>g. case welcome of
                   None \<Rightarrow> Inl (Mls ''a replacement produced no welcome'')
                 | Some w \<Rightarrow> rotation_of M commit (Some w) g))))) X)"

definition session_rotate ::
  "('s, 'g, 'b, 'o) openmls \<Rightarrow> ('s, 'g) group_session \<Rightarrow> ('s, 'g) group_session \<times> (epoch_error + rotation)" where
  "session_rotate M X =
     on_group
       (and_then (mls_call ''self update'' (om_self_update M (ss_signer X))) (\<lambda>commit.
        and_then (mls_call ''merge'' (om_merge_pending M)) (\<lambda>_.
          outcome (rotation_of M commit None)))) X"

definition apply_commit ::
  "('s, 'g, 'b, 'o) openmls \<Rightarrow> bytes \<Rightarrow> ('s, 'g) group_session \<Rightarrow> ('s, 'g) group_session \<times> (epoch_error + b32)" where
  "apply_commit M commit X =
     (case res_bind (mls_err ''commit decode'' (om_parse M commit)) (\<lambda>body.
             mls_err ''not a protocol message'' (om_protocol M body)) of
        Inl e \<Rightarrow> (X, Inl e)
      | Inr protocol \<Rightarrow>
          on_group
            (and_then (mls_call ''process'' (om_process M protocol)) (\<lambda>content.
               case content of
                 None \<Rightarrow> outcome (\<lambda>_. Inl (Mls ''expected a commit''))
               | Some staged \<Rightarrow>
                   and_then (mls_call ''merge staged'' (om_merge_staged M staged)) (\<lambda>_. outcome (group_key M)))) X)"

definition pending_key_package :: "('s, 'g, 'b, 'o) openmls \<Rightarrow> ('s, 'b) pending_member \<Rightarrow> epoch_error + bytes" where
  "pending_key_package M P = mls_err ''key package encode'' (om_bundle_package M (pm_bundle P))"

definition session_join ::
  "('s, 'g, 'b, 'o) openmls \<Rightarrow> bytes \<Rightarrow> ('s, 'b) pending_member \<Rightarrow> epoch_error + ('s, 'g) group_session" where
  "session_join M wel P =
     res_bind (mls_err ''welcome decode'' (om_parse M wel)) (\<lambda>body.
       case body of
         WelcomeIn w \<Rightarrow>
           res_bind (mls_err ''stage welcome'' (om_stage_welcome M (pm_bundle P) w)) (\<lambda>staged.
           res_bind (mls_err ''join'' (om_into_group M (pm_bundle P) staged)) (\<lambda>g.
             Inr \<lparr>ss_signer = pm_signer P, ss_credential = pm_credential P, ss_group = g\<rparr>))
       | _ \<Rightarrow> Inl (Mls ''expected a welcome''))"

section \<open>Saving and restoring a session\<close>

definition session_domain :: string where
  "session_domain = ''intranet.epoch-session.v1''"

definition put_storage :: "bytes \<times> bytes \<Rightarrow> bytes" where
  "put_storage p = put_bytes (fst p) @ put_bytes (snd p)"

definition get_storage :: "(decode_error, bytes \<times> bytes) reader" where
  "get_storage = rbind dec_bytes (\<lambda>k. rbind dec_bytes (\<lambda>v. rret (k, v)))"

definition put_session :: "bytes \<times> bytes \<times> bytes \<times> (bytes \<times> bytes) list \<Rightarrow> bytes" where
  "put_session = (\<lambda>(gid, label, public, entries).
     put_bytes gid @ put_bytes label @ put_bytes public @ put_seq put_storage entries)"

definition session_save :: "('s, 'g, 'b, 'o) openmls \<Rightarrow> ('s, 'g) group_session \<Rightarrow> epoch_error + bytes" where
  "session_save M X =
     res_bind (mls_err ''store signer'' (om_store_signer M (ss_signer X) (ss_group X))) (\<lambda>values.
       Inr (enc_domain session_domain
         @ put_session (om_group_id M (ss_group X), session_label X, om_public M (ss_signer X), sort_key fst values)))"

text \<open>The text a decoding error displays (dec.rs).\<close>

fun decimal :: "nat \<Rightarrow> string" where
  "decimal n = (if n < 10 then [char_of (48 + n)] else decimal (n div 10) @ [char_of (48 + n mod 10)])"

declare decimal.simps [simp del]

definition hex_byte :: "u8 \<Rightarrow> string" where
  "hex_byte v = ''0x'' @ [''0123456789abcdef'' ! (unat v div 16), ''0123456789abcdef'' ! (unat v mod 16)]"

fun decode_error_text :: "decode_error \<Rightarrow> string" where
  "decode_error_text (UnexpectedEnd needed remaining) =
     ''input ended early: needed '' @ decimal needed @ '' bytes, '' @ decimal remaining @ '' remain''"
| "decode_error_text (ImplausibleLength claimed remaining) =
     ''length '' @ decimal claimed @ '' exceeds the '' @ decimal remaining @ '' bytes remaining''"
| "decode_error_text (UnknownVariant type_name discriminant) =
     ''unknown '' @ type_name @ '' discriminant '' @ decimal (unat discriminant)"
| "decode_error_text (InvalidBool v) = ''invalid boolean byte '' @ hex_byte v"
| "decode_error_text InvalidUtf8 = ''string field was not valid UTF-8''"
| "decode_error_text (WrongDomain expected) = ''wrong domain tag, expected '' @ [CHR 0x27] @ expected @ [CHR 0x27]"
| "decode_error_text (TrailingBytes remaining) = decimal remaining @ '' trailing bytes after the decoded value''"

definition ctx :: "string \<Rightarrow> decode_error \<Rightarrow> epoch_error" where
  "ctx what e = Mls (what @ '': '' @ decode_error_text e)"

definition get_session ::
  "(epoch_error, bytes \<times> bytes \<times> bytes \<times> (bytes \<times> bytes) list) reader" where
  "get_session =
     rbind (rmap_err (ctx ''decode group id'') dec_bytes) (\<lambda>gid.
     rbind (rmap_err (ctx ''decode label'') dec_bytes) (\<lambda>label.
     rbind (rmap_err (ctx ''decode public key'') dec_bytes) (\<lambda>public.
     rbind (rmap_err (ctx ''decode storage'') (dec_seq (\<lambda>e. e) get_storage)) (\<lambda>entries.
       rret (gid, label, public, entries)))))"

definition decode_session ::
  "bytes \<Rightarrow> epoch_error + bytes \<times> bytes \<times> bytes \<times> (bytes \<times> bytes) list" where
  "decode_session b =
     (case rmap_err (ctx ''decode session'') (dec_domain session_domain) b of
        Inl e \<Rightarrow> Inl e
      | Inr (_, d) \<Rightarrow>
          res_bind (get_session d) (\<lambda>(parts, d').
            case dec_finish d' of Inl e \<Rightarrow> Inl (ctx ''trailing bytes'' e) | Inr _ \<Rightarrow> Inr parts))"

definition session_restore ::
  "('s, 'g, 'b, 'o) openmls \<Rightarrow> nat \<Rightarrow> bytes \<Rightarrow> epoch_error + ('s, 'g) group_session" where
  "session_restore M seed b =
     res_bind (decode_session b) (\<lambda>(gid, label, public, entries).
       case om_read_signer M entries public of
         None \<Rightarrow> Inl (Mls ''the saved state holds no signature key'')
       | Some signer \<Rightarrow>
           res_bind (mls_err ''load group'' (om_load M seed entries gid)) (\<lambda>loaded.
             case loaded of
               None \<Rightarrow> Inl (Mls ''the saved state holds no group'')
             | Some g \<Rightarrow> Inr \<lparr>ss_signer = signer, ss_credential = (label, public), ss_group = g\<rparr>))"

section \<open>The format of a saved session\<close>

abbreviation pair_ok :: "bytes \<times> bytes \<Rightarrow> bool" where
  "pair_ok p \<equiv> len_ok (fst p) \<and> len_ok (snd p)"

interpretation storage: exact_codec pair_ok put_storage get_storage
proof
  fix p :: "bytes \<times> bytes" and r
  assume "pair_ok p"
  then show "get_storage (put_storage p @ r) = Inr (p, r)"
    by (simp add: get_storage_def put_storage_def reader_simps)
qed (auto simp: get_storage_def put_storage_def put_bytes_def rbind_eq_Inr nonempty_simps dest!: exact_dests)

lemmas storage_seq = exact_seq [OF storage.exact_codec_axioms, of "\<lambda>e. e"]

abbreviation parts_ok :: "bytes \<times> bytes \<times> bytes \<times> (bytes \<times> bytes) list \<Rightarrow> bool" where
  "parts_ok \<equiv> \<lambda>(gid, label, public, entries).
     len_ok gid \<and> len_ok label \<and> len_ok public \<and> seq_ok pair_ok entries"

interpretation sess: exact_codec parts_ok put_session get_session
proof
  fix p :: "bytes \<times> bytes \<times> bytes \<times> (bytes \<times> bytes) list" and r
  assume "parts_ok p"
  then show "get_session (put_session p @ r) = Inr (p, r)"
    using codec.get_put [OF exact_codec.axioms(1) [OF storage_seq]]
    by (cases p) (simp add: get_session_def put_session_def reader_simps)
qed (auto simp: get_session_def put_session_def put_bytes_def rbind_eq_Inr rmap_err_Inr nonempty_simps
    dest!: exact_dests exact_codec.get_exact [OF storage_seq])

lemma decode_session_put:
  assumes "parts_ok p"
  shows "decode_session (enc_domain session_domain @ put_session p) = Inr p"
proof -
  have "str_ok session_domain"
    by (simp add: session_domain_def str_ok_def str_bytes_def)
  then show ?thesis
    using sess.get_put [OF assms, of "[]"]
    by (simp add: decode_session_def rmap_err_def dec_domain_put dec_finish_def)
qed

end
