(* ===== verification/Epoch_Node.thy ===== *)
theory Epoch_Node
  imports Session Invite
begin

text \<open>
  Key delivery and rotation at the node (node.rs): founding the group, asking for a key, screening and
  answering such a request, accepting the welcome, rotating, revoking, following the rotations of
  others, and the arms of the event loop that handle the messages.
\<close>

section \<open>State\<close>

text \<open>
  A request that was accepted for a decision is kept with the channel to answer it on, here a number.
  \<open>en_sent\<close> counts the requests sent, from which the swarm numbers them.
\<close>

record ('s, 'g, 'b) epoch_node =
  en_log :: governance_log
  en_identity :: per_network_identity
  en_group :: "('s, 'g) group_session option"
  en_keyring :: epoch_keyring
  en_pending :: "('s, 'b) pending_member option"
  en_requests :: "(nat, b32) btree_map"
  en_inbound :: "(u64, epoch_key_request \<times> nat) btree_map"
  en_next :: u64
  en_sent :: nat

datatype 'p epoch_event =
    EpochKeyRequested 'p b32 u64
  | EpochKeyDelivered 'p b32 nat
  | EpochKeyUnavailable 'p string

fun key_refusal_str :: "key_delivery_refusal \<Rightarrow> string" where
  "key_refusal_str KeyNoReadContent = ''requester holds no read-content''"
| "key_refusal_str KeyCannotEvaluate = ''responder cannot evaluate governance state''"
| "key_refusal_str KeyIdentityMismatch = ''key package credential does not name the requester''"
| "key_refusal_str KeyNoGroup = ''responder holds no group state''"

fun epoch_error_text :: "epoch_error \<Rightarrow> string" where
  "epoch_error_text (Mls s) = ''MLS error: '' @ s"
| "epoch_error_text NoKeysDelivered = ''no epoch keys were delivered''"

definition no_group :: epoch_error where
  "no_group = Mls ''this node holds no group''"

section \<open>Founding, saving and restoring\<close>

definition create_epoch_group ::
  "crypto \<Rightarrow> ('s, 'g, 'b, 'o) openmls \<Rightarrow> nat \<Rightarrow> per_network_identity \<Rightarrow> ('s, 'g, 'b) epoch_node \<Rightarrow>
     ('s, 'g, 'b) epoch_node \<times> (epoch_error + unit)" where
  "create_epoch_group C M seed identity N =
     (case res_bind (session_create M seed (identity_label (pni_id C identity))) (\<lambda>X.
             res_bind (session_key M X) (\<lambda>key. Inr (X, key))) of
        Inl e \<Rightarrow> (N, Inl e)
      | Inr (X, key) \<Rightarrow>
          (case canonical_chain (en_log N) of
             Some (first # _) \<Rightarrow>
               (N\<lparr>en_keyring := keyring_record first (session_epoch M X) key (en_keyring N), en_group := Some X\<rparr>,
                Inr ())
           | _ \<Rightarrow> (N, Inl (Mls ''no genesis entry to anchor the epoch to''))))"

definition is_keyed_member :: "('s, 'g, 'b, 'o) openmls \<Rightarrow> ('s, 'g, 'b) epoch_node \<Rightarrow> b32 \<Rightarrow> bool" where
  "is_keyed_member M N identity \<longleftrightarrow>
     Option.bind (en_group N) (\<lambda>X. leaf_index_for M X identity) \<noteq> None"

definition save_epoch_group ::
  "('s, 'g, 'b, 'o) openmls \<Rightarrow> ('s, 'g, 'b) epoch_node \<Rightarrow> epoch_error + bytes option" where
  "save_epoch_group M N =
     (case en_group N of None \<Rightarrow> Inr None | Some X \<Rightarrow> res_bind (session_save M X) (\<lambda>b. Inr (Some b)))"

definition restore_epoch_group ::
  "('s, 'g, 'b, 'o) openmls \<Rightarrow> nat \<Rightarrow> bytes \<Rightarrow> b32 \<Rightarrow> ('s, 'g, 'b) epoch_node \<Rightarrow>
     ('s, 'g, 'b) epoch_node \<times> (epoch_error + b32)" where
  "restore_epoch_group M seed saved rotation_ref N =
     (case res_bind (session_restore M seed saved) (\<lambda>X. res_bind (session_key M X) (\<lambda>key. Inr (X, key))) of
        Inl e \<Rightarrow> (N, Inl e)
      | Inr (X, key) \<Rightarrow>
          (N\<lparr>en_keyring := keyring_record rotation_ref (session_epoch M X) key (en_keyring N), en_group := Some X\<rparr>,
           Inr key))"

definition holds_epoch_key :: "('s, 'g, 'b) epoch_node \<Rightarrow> bool" where
  "holds_epoch_key N \<longleftrightarrow> keyring_current (en_keyring N) \<noteq> None"

section \<open>Rotations\<close>

text \<open>
  A rotation is appended at the tip of the canonical chain and its key recorded under the entry. The
  text of an error of the log is left out of the error.
\<close>

definition append_rotation ::
  "crypto \<Rightarrow> per_network_identity \<Rightarrow> i64 \<Rightarrow> rotation_reason \<Rightarrow> rotation \<Rightarrow> ('s, 'g, 'b) epoch_node \<Rightarrow>
     ('s, 'g, 'b) epoch_node \<times> (epoch_error + b32)" where
  "append_rotation C identity now reason r N =
     (let e = entry_create C identity (log_tip (en_log N)) now (EpochRotation reason (ro_commit r))
      in case log_insert C (en_log N) e of
           Inl _ \<Rightarrow> (N, Inl (Mls ''rotation entry rejected''))
         | Inr (h, L) \<Rightarrow>
             (N\<lparr>en_log := L, en_keyring := keyring_record h (ro_epoch r) (ro_key r) (en_keyring N)\<rparr>, Inr h))"

definition revoke_epoch_member ::
  "crypto \<Rightarrow> ('s, 'g, 'b, 'o) openmls \<Rightarrow> b32 \<Rightarrow> per_network_identity \<Rightarrow> i64 \<Rightarrow> ('s, 'g, 'b) epoch_node \<Rightarrow>
     ('s, 'g, 'b) epoch_node \<times> (epoch_error + b32 option)" where
  "revoke_epoch_member C M revoked identity now N =
     (case node_state C (en_log N) of
        None \<Rightarrow> (N, Inl (Mls ''no governance state to check membership''))
      | Some st \<Rightarrow>
          if is_member st revoked
          then (N, Inl (Mls (short revoked @ '' is still a current member: append the membership removal before rotating,                  or the rotation mints a key the revoked member is still entitled to'')))
          else
            (case en_group N of
               None \<Rightarrow> (N, Inl no_group)
             | Some X \<Rightarrow>
                 (case leaf_index_for M X revoked of
                    None \<Rightarrow> (N, Inr None)
                  | Some index \<Rightarrow>
                      (let (X', r) = remove_member M index X; N1 = N\<lparr>en_group := Some X'\<rparr> in
                       case r of
                         Inl e \<Rightarrow> (N1, Inl e)
                       | Inr ro \<Rightarrow>
                           (let (N2, res) = append_rotation C identity now MemberRevoked ro N1
                            in (N2, res_bind res (\<lambda>h. Inr (Some h))))))))"

definition rotate_epoch ::
  "crypto \<Rightarrow> ('s, 'g, 'b, 'o) openmls \<Rightarrow> per_network_identity \<Rightarrow> i64 \<Rightarrow> ('s, 'g, 'b) epoch_node \<Rightarrow>
     ('s, 'g, 'b) epoch_node \<times> (epoch_error + b32)" where
  "rotate_epoch C M identity now N =
     (case en_group N of
        None \<Rightarrow> (N, Inl no_group)
      | Some X \<Rightarrow>
          (let (X', r) = session_rotate M X; N1 = N\<lparr>en_group := Some X'\<rparr> in
           case r of Inl e \<Rightarrow> (N1, Inl e) | Inr ro \<Rightarrow> append_rotation C identity now SelfInitiated ro N1))"

text \<open>The commits of the chain that the keyring does not hold, in the order of the chain.\<close>

fun apply_rotations ::
  "('s, 'g, 'b, 'o) openmls \<Rightarrow> governance_log \<Rightarrow> b32 list \<Rightarrow> ('s, 'g) group_session \<Rightarrow> epoch_keyring \<Rightarrow>
     ('s, 'g) group_session \<times> epoch_keyring \<times> b32 list" where
  "apply_rotations M L [] X K = (X, K, [])"
| "apply_rotations M L (h # hs) X K =
     (if keyring_holds K h then apply_rotations M L hs X K
      else case map_option le_body (log_get L h) of
        Some (EpochRotation _ commit) \<Rightarrow>
          (case apply_commit M commit X of
             (X', Inl _) \<Rightarrow> apply_rotations M L hs X' K
           | (X', Inr key) \<Rightarrow>
               (let (X2, K2, applied) =
                      apply_rotations M L hs X' (keyring_record h (session_epoch M X') key K)
                in (X2, K2, h # applied)))
      | _ \<Rightarrow> apply_rotations M L hs X K)"

definition apply_pending_rotations ::
  "('s, 'g, 'b, 'o) openmls \<Rightarrow> ('s, 'g, 'b) epoch_node \<Rightarrow> (('s, 'g, 'b) epoch_node \<times> b32 list) option" where
  "apply_pending_rotations M N =
     (case en_group N of
        None \<Rightarrow> Some (N, [])
      | Some X \<Rightarrow>
          map_option (\<lambda>chain.
            let (X', K, applied) = apply_rotations M (en_log N) chain X (en_keyring N)
            in (N\<lparr>en_group := Some X', en_keyring := K\<rparr>, applied)) (canonical_chain (en_log N)))"

definition reconcile_epoch_keys ::
  "('s, 'g, 'b) epoch_node \<Rightarrow> (('s, 'g, 'b) epoch_node \<times> keyring_reconciliation) option" where
  "reconcile_epoch_keys N =
     map_option (\<lambda>(K, out). (N\<lparr>en_keyring := K\<rparr>, out)) (keyring_reconcile (en_log N) (en_keyring N))"

section \<open>Asking for a key\<close>

definition send_epoch_request ::
  "'p swarm \<Rightarrow> b32 \<Rightarrow> epoch_key_request \<Rightarrow> ('s, 'g, 'b) epoch_node \<Rightarrow>
     ('s, 'g, 'b) epoch_node \<times> nat \<times> 'p \<times> epoch_key_request" where
  "send_epoch_request W from_id q N =
     (let id = sw_request_id W (en_sent N)
      in (N\<lparr>en_requests := bm_insert id from_id (en_requests N), en_sent := Suc (en_sent N)\<rparr>,
          id, sw_peer_id W from_id, q))"

definition request_epoch_key ::
  "crypto \<Rightarrow> 'p swarm \<Rightarrow> ('s, 'g, 'b, 'o) openmls \<Rightarrow> nat \<Rightarrow> b32 \<Rightarrow> per_network_identity \<Rightarrow> ('s, 'g, 'b) epoch_node \<Rightarrow>
     ('s, 'g, 'b) epoch_node \<times> (epoch_error + nat \<times> 'p \<times> epoch_key_request)" where
  "request_epoch_key C W M seed from_id identity N =
     (case (case en_pending N of
              Some P \<Rightarrow> Inr P
            | None \<Rightarrow> prepare_join M seed (identity_label (pni_id C identity))) of
        Inl e \<Rightarrow> (N, Inl e)
      | Inr P \<Rightarrow>
          (let N1 = N\<lparr>en_pending := Some P\<rparr> in
           case pending_key_package M P of
             Inl e \<Rightarrow> (N1, Inl e)
           | Inr kp \<Rightarrow>
               (let (N2, sent) = send_epoch_request W from_id (kq_create C identity kp) N1 in (N2, Inr sent))))"

section \<open>Screening and answering\<close>

definition screen_epoch_request ::
  "crypto \<Rightarrow> 'p swarm \<Rightarrow> ('s, 'g, 'b, 'o) openmls \<Rightarrow> ('s, 'g, 'b) epoch_node \<Rightarrow>
     epoch_key_request \<Rightarrow> 'p \<Rightarrow> key_delivery_refusal + unit" where
  "screen_epoch_request C W M N q peer =
     (if sw_peer_id W (kq_requester q) \<noteq> peer then Inl KeyNoReadContent
      else case node_state C (en_log N) of
        None \<Rightarrow> Inl KeyCannotEvaluate
      | Some st \<Rightarrow>
          (case may_serve (kq_requester q) st of
             Inl _ \<Rightarrow> Inl KeyNoReadContent
           | Inr _ \<Rightarrow>
               if key_package_identity M (kq_key_package q) \<noteq> Inr (identity_label (kq_requester q))
               then Inl KeyIdentityMismatch
               else if en_group N = None then Inl KeyNoGroup
               else Inr ()))"

definition receive_epoch_request ::
  "crypto \<Rightarrow> 'p swarm \<Rightarrow> ('s, 'g, 'b, 'o) openmls \<Rightarrow> epoch_key_request \<Rightarrow> 'p \<Rightarrow> nat \<Rightarrow> ('s, 'g, 'b) epoch_node \<Rightarrow>
     ('s, 'g, 'b) epoch_node \<times> (epoch_key_response + 'p epoch_event)" where
  "receive_epoch_request C W M q peer channel N =
     (case screen_epoch_request C W M N q peer of
        Inl reason \<Rightarrow> (N, Inl (KeyRefused reason))
      | Inr _ \<Rightarrow>
          (N\<lparr>en_inbound := bm_insert (en_next N) (q, channel) (en_inbound N), en_next := en_next N + 1\<rparr>,
           Inr (EpochKeyRequested peer (kq_requester q) (en_next N))))"

definition answer_epoch_key ::
  "crypto \<Rightarrow> sealing \<Rightarrow> (b32 \<Rightarrow> b32 \<Rightarrow> b32 option) \<Rightarrow> ('s, 'g, 'b, 'o) openmls \<Rightarrow> u64 \<Rightarrow> per_network_identity \<Rightarrow> i64 \<Rightarrow>
     ('s, 'g, 'b) epoch_node \<Rightarrow> ('s, 'g, 'b) epoch_node \<times> (nat \<times> epoch_key_response) option \<times> (epoch_error + b32)" where
  "answer_epoch_key C S ag M request identity now N0 =
     (case bm_get (en_inbound N0) request of
        None \<Rightarrow> (N0, None, Inl (Mls ''no such pending key delivery''))
      | Some (q, channel) \<Rightarrow>
          (let N = N0\<lparr>en_inbound := bm_remove request (en_inbound N0)\<rparr> in
           case en_group N of
             None \<Rightarrow> (N, None, Inl no_group)
           | Some X \<Rightarrow>
               (let (X', r) = (case leaf_index_for M X (kq_requester q) of
                                 Some index \<Rightarrow> replace_member M index (kq_key_package q) X
                               | None \<Rightarrow> add_member M (kq_key_package q) X);
                    N1 = N\<lparr>en_group := Some X'\<rparr> in
                case r of
                  Inl e \<Rightarrow> (N1, None, Inl e)
                | Inr ro \<Rightarrow>
                    (case ro_welcome ro of
                       None \<Rightarrow> (N1, None, Inl (Mls ''an add produced no welcome''))
                     | Some wel \<Rightarrow>
                         (case append_rotation C identity now MemberAdmitted ro N1 of
                            (N2, Inl e) \<Rightarrow> (N2, None, Inl e)
                          | (N2, Inr h) \<Rightarrow>
                              (case answer_history C S ag (en_log N2) (en_keyring N2) identity (kq_requester q) h of
                                 Inl e \<Rightarrow> (N2, None, Inl e)
                               | Inr history \<Rightarrow> (N2, Some (channel, KeyWelcome wel h history), Inr h)))))))"

definition decline_epoch_key ::
  "u64 \<Rightarrow> key_delivery_refusal \<Rightarrow> ('s, 'g, 'b) epoch_node \<Rightarrow> ('s, 'g, 'b) epoch_node \<times> (nat \<times> epoch_key_response) option" where
  "decline_epoch_key request reason N =
     (case bm_get (en_inbound N) request of
        None \<Rightarrow> (N, None)
      | Some (_, channel) \<Rightarrow>
          (N\<lparr>en_inbound := bm_remove request (en_inbound N)\<rparr>, Some (channel, KeyRefused reason)))"

section \<open>Accepting a welcome\<close>

definition accept_welcome ::
  "crypto \<Rightarrow> sealing \<Rightarrow> (b32 \<Rightarrow> b32 \<Rightarrow> b32 option) \<Rightarrow> ('s, 'g, 'b, 'o) openmls \<Rightarrow> bytes \<Rightarrow> b32 \<Rightarrow> sealed_epoch_key list \<Rightarrow>
     b32 \<Rightarrow> ('s, 'g, 'b) epoch_node \<Rightarrow> ('s, 'g, 'b) epoch_node \<times> (epoch_error + unit)" where
  "accept_welcome C S ag M wel rotation_ref history sender N0 =
     (case en_pending N0 of
        None \<Rightarrow> (N0, Inl (Mls ''no key package is outstanding''))
      | Some P \<Rightarrow>
          (let N = N0\<lparr>en_pending := None\<rparr> in
           case res_bind (session_join M wel P) (\<lambda>X.
                res_bind (session_key M X) (\<lambda>key.
                res_bind (absorb_welcome C S ag (en_identity N) sender rotation_ref history (session_epoch M X) key
                    (en_keyring N)) (\<lambda>K. Inr (X, K)))) of
             Inl e \<Rightarrow> (N, Inl e)
           | Inr (X, K) \<Rightarrow> (N\<lparr>en_keyring := K, en_group := Some X\<rparr>, Inr ())))"

definition receive_epoch_response ::
  "crypto \<Rightarrow> sealing \<Rightarrow> (b32 \<Rightarrow> b32 \<Rightarrow> b32 option) \<Rightarrow> ('s, 'g, 'b, 'o) openmls \<Rightarrow> 'p \<Rightarrow> nat \<Rightarrow> epoch_key_response \<Rightarrow>
     ('s, 'g, 'b) epoch_node \<Rightarrow> ('s, 'g, 'b) epoch_node \<times> 'p epoch_event option" where
  "receive_epoch_response C S ag M peer rid m N0 =
     (case bm_get (en_requests N0) rid of
        None \<Rightarrow> (N0, None)
      | Some sender \<Rightarrow>
          (let N = N0\<lparr>en_requests := bm_remove rid (en_requests N0)\<rparr> in
           case m of
             KeyWelcome wel rotation_ref history \<Rightarrow>
               (case accept_welcome C S ag M wel rotation_ref history sender N of
                  (N', Inr _) \<Rightarrow> (N', Some (EpochKeyDelivered peer rotation_ref (length history)))
                | (N', Inl e) \<Rightarrow> (N', Some (EpochKeyUnavailable peer (epoch_error_text e))))
           | KeyRefused reason \<Rightarrow> (N, Some (EpochKeyUnavailable peer (''refused: '' @ key_refusal_str reason)))))"

end
