(* ===== verification/Keying.thy ===== *)
theory Keying
  imports Epoch Consensus Content Limits
begin

text \<open>
  What the keyring and key delivery guarantee: which keys a reconciliation keeps, which key is current
  afterwards, and that superseded keys reach the member they were sealed for and stay in the slot of their
  rotation.
\<close>

section \<open>Well-formed keyrings\<close>

definition keyring_ok :: "epoch_keyring \<Rightarrow> bool" where
  "keyring_ok K \<longleftrightarrow>
     bm_ok (kr_records K) \<and> (\<forall>h r. bm_get (kr_records K) h = Some r \<longrightarrow> er_rotation_ref r = h)
     \<and> set (kr_order K) = dom (bm_get (kr_records K)) \<and> distinct (kr_order K)"

text \<open>No rotation is taken for final that the log does not hold final.\<close>

definition finality_ok :: "governance_log \<Rightarrow> epoch_keyring \<Rightarrow> bool" where
  "finality_ok L K \<longleftrightarrow>
     (\<forall>h r. bm_get (kr_records K) h = Some r \<and> er_status r = FinalRotation \<longrightarrow> is_final L h = Some True)"

lemma keyring_new_ok: "keyring_ok keyring_new" "finality_ok L keyring_new"
  by (simp_all add: keyring_ok_def finality_ok_def keyring_new_def)

lemma keyring_record_ok:
  assumes "keyring_ok K" and "finality_ok L K"
  shows "keyring_ok (keyring_record h n k K)" and "finality_ok L (keyring_record h n k K)"
  using assms by (auto simp: keyring_ok_def finality_ok_def keyring_record_def split: if_splits)

lemma deliver_ok:
  "keyring_ok K \<Longrightarrow> finality_ok L K \<Longrightarrow> keyring_ok (deliver n keys K) \<and> finality_ok L (deliver n keys K)"
  by (induction n keys K rule: deliver.induct) (simp_all add: keyring_record_ok)

section \<open>The passes of a reconciliation\<close>

lemma void_all:
  "fold void_rotation ds (K, out) =
     (K\<lparr>kr_records := filter (\<lambda>p. fst p \<notin> set ds) (kr_records K),
        kr_order := filter (\<lambda>h. h \<notin> set ds) (kr_order K),
        kr_canonical := (case kr_canonical K of None \<Rightarrow> None | Some c \<Rightarrow> if c \<in> set ds then None else Some c)\<rparr>,
      out\<lparr>kc_voided := kc_voided out @ ds,
          kc_needs_rewelcome :=
            (kc_needs_rewelcome out \<or> (\<exists>c\<in>set ds. kr_canonical K = Some c))\<rparr>)"
proof (induction ds arbitrary: K out)
  case (Cons d ds)
  show ?case
    unfolding fold_simps comp_def
    by (subst void_rotation_def) (auto simp: Cons bm_remove_def conj_commute split: option.splits intro!: epoch_keyring.equality)
qed (auto split: option.splits)

lemma prune_all:
  assumes "distinct hs" and "set hs \<subseteq> dom (bm_get (kr_records K))"
    and "\<forall>h\<in>set hs. \<forall>r. bm_get (kr_records K) h = Some r \<longrightarrow> (er_status r = FinalRotation \<longleftrightarrow> F h)"
  shows "fold prune_pair (zip hs (tl hs)) (K, out) =
    (let ps = map fst (filter (\<lambda>(a, b). F b) (zip hs (tl hs))) in
     (K\<lparr>kr_records := filter (\<lambda>p. fst p \<notin> set ps) (kr_records K), kr_order := filter (\<lambda>h. h \<notin> set ps) (kr_order K)\<rparr>,
      out\<lparr>kc_pruned := kc_pruned out @ ps\<rparr>))"
  using assms
proof (induction hs arbitrary: K out)
  case (Cons a hs)
  show ?case
  proof (cases hs)
    case (Cons b xs)
    obtain r where r: "bm_get (kr_records K) b = Some r" "er_status r = FinalRotation \<longleftrightarrow> F b"
      using Cons.prems local.Cons by auto
    have a: "bm_contains (kr_records K) a"
      using Cons.prems by (auto simp: bm_contains_def)
    let ?K = "K\<lparr>kr_records := bm_remove a (kr_records K), kr_order := filter (\<lambda>r. r \<noteq> a) (kr_order K)\<rparr>"
    have step: "prune_pair (a, b) (K, out) =
        (if F b then (?K, out\<lparr>kc_pruned := kc_pruned out @ [a]\<rparr>) else (K, out))"
      using r a by (simp add: prune_pair_def)
    have "a \<notin> set hs"
      using Cons.prems by simp
    then have "set hs \<subseteq> dom (bm_get (kr_records ?K))"
      "\<forall>h\<in>set hs. \<forall>r. bm_get (kr_records ?K) h = Some r \<longrightarrow> (er_status r = FinalRotation \<longleftrightarrow> F h)"
      using Cons.prems by auto
    then show ?thesis
      using Cons.IH [of K out] Cons.IH [of ?K "out\<lparr>kc_pruned := kc_pruned out @ [a]\<rparr>"] Cons.prems step local.Cons
      by (auto simp: bm_remove_def conj_commute Let_def)
  qed simp
qed simp

lemma pruned_prefix:
  assumes "\<forall>x\<in>set xs. F x" and "\<forall>y\<in>set ys. \<not> F y"
  shows "map fst (filter (\<lambda>(a, b). F b) (zip (xs @ ys) (tl (xs @ ys)))) = butlast xs"
  using assms(1)
proof (induction xs)
  case Nil
  have "\<not> F b" if "(a, b) \<in> set (zip ys (tl ys))" for a b
    using that set_zip_rightD [OF that] assms(2) by (cases ys) auto
  then show ?case
    by (simp add: filter_empty_conv split_beta) fastforce
next
  case (Cons x xs)
  show ?case
  proof (cases xs)
    case Nil
    have "\<not> F b" if "(a, b) \<in> set (zip (x # ys) ys)" for a b
      using set_zip_rightD [OF that] assms(2) by auto
    then show ?thesis
      using Nil by (simp add: filter_empty_conv split_beta) fastforce
  next
    case (Cons x' xs')
    then show ?thesis
      using Cons.IH Cons.prems by simp
  qed
qed

lemma finals_first:
  assumes "log_wf C L"
  obtains chain xs ys where "canonical_chain L = Some chain" "chain = xs @ ys" "distinct chain"
    "\<forall>x\<in>set xs. is_final L x = Some True" "\<forall>y\<in>set ys. is_final L y \<noteq> Some True"
proof (cases "gl_root L")
  case None
  then show ?thesis
    using that [of "[]" "[]" "[]"] by (simp add: canonical_chain_def)
next
  case (Some r)
  obtain ps below where p: "up L (log_start L r) ps" "down L (log_start L r) below"
      "canonical_chain L = Some (rev ps @ below)"
    using canonical_parts [OF assms Some] by metis
  have "distinct (rev ps @ below)"
    using chain_ok_parts [OF assms Some p(1,2)] by (simp add: chain_ok_def)
  then show ?thesis
  proof (cases "gl_finalized L")
    case None
    then show ?thesis
      using that [of "rev ps @ below" "[]"] p(3) \<open>distinct _\<close> by (simp add: is_final_def)
  next
    case fin: (Some f)
    then have "is_final L h = Some (h \<in> set ps)" for h
      using is_final_up [OF assms fin] p(1) by (simp add: log_start_def)
    then show ?thesis
      using that [of "rev ps @ below" "rev ps" below] p(3) \<open>distinct _\<close> by auto
  qed
qed

section \<open>What a reconciliation keeps\<close>

definition final_in :: "governance_log \<Rightarrow> b32 \<Rightarrow> bool" where
  "final_in L h \<longleftrightarrow> is_final L h = Some True"

lemma finals_pruned:
  assumes "log_wf C L" and "canonical_rotations L = Some rots"
  shows "distinct rots"
    and "map fst (filter (\<lambda>(a, b). final_in L b) (zip (filter Q rots) (tl (filter Q rots)))) =
      butlast (filter (final_in L) (filter Q rots))"
proof -
  obtain chain xs ys where chain: "canonical_chain L = Some chain" "chain = xs @ ys" "distinct chain"
      "\<forall>x\<in>set xs. is_final L x = Some True" "\<forall>y\<in>set ys. is_final L y \<noteq> Some True"
    by (rule finals_first [OF assms(1)])
  obtain P where P: "rots = filter P chain"
    using assms(2) chain(1) by (auto simp: canonical_rotations_def)
  then show "distinct rots"
    using chain(3) by simp
  define hx where "hx = filter Q (filter P xs)"
  define hy where "hy = filter Q (filter P ys)"
  have h: "filter Q rots = hx @ hy" "\<forall>x\<in>set hx. final_in L x" "\<forall>y\<in>set hy. \<not> final_in L y"
    using chain by (auto simp: P hx_def hy_def final_in_def)
  moreover have "filter (final_in L) (hx @ hy) = hx"
    using h(2,3) by (simp add: filter_empty_conv)
  ultimately show "map fst (filter (\<lambda>(a, b). final_in L b) (zip (filter Q rots) (tl (filter Q rots)))) =
      butlast (filter (final_in L) (filter Q rots))"
    using pruned_prefix [OF h(2,3)] by simp
qed

text \<open>What the voiding pass drops, and the records that are left with their finality marked.\<close>

definition voided_by :: "b32 list \<Rightarrow> epoch_keyring \<Rightarrow> b32 list" where
  "voided_by rots K = filter (\<lambda>h. h \<notin> set rots) (bm_keys (kr_records K))"

definition marked_by :: "governance_log \<Rightarrow> b32 list \<Rightarrow> epoch_keyring \<Rightarrow> (b32 \<times> epoch_record) list" where
  "marked_by L rots K =
     map (\<lambda>(h, r). (h, mark_record L r)) (filter (\<lambda>p. fst p \<notin> set (voided_by rots K)) (kr_records K))"

definition adopted_by :: "governance_log \<Rightarrow> b32 list \<Rightarrow> epoch_keyring \<Rightarrow> epoch_keyring" where
  "adopted_by L rots K =
     K\<lparr>kr_records := marked_by L rots K, kr_order := filter (\<lambda>h. h \<notin> set (voided_by rots K)) (kr_order K),
       kr_canonical :=
         (case kr_canonical K of
            Some c \<Rightarrow> if c \<in> set (voided_by rots K) then List.find (bm_contains (marked_by L rots K)) (rev rots) else Some c
          | None \<Rightarrow> List.find (bm_contains (marked_by L rots K)) (rev rots))\<rparr>"

lemma in_voided: "h \<in> set (voided_by rots K) \<longleftrightarrow> keyring_holds K h \<and> h \<notin> set rots"
  by (auto simp: voided_by_def set_bm_keys keyring_holds_def bm_contains_def)

lemma get_marked:
  assumes "keyring_ok K"
  shows "bm_get (marked_by L rots K) h = (if h \<in> set rots then map_option (mark_record L) (bm_get (kr_records K) h) else None)"
proof -
  have ok: "bm_ok (kr_records K)"
    using assms by (simp add: keyring_ok_def)
  show ?thesis
    unfolding marked_by_def get_map_value bm_get_filter [OF ok]
    by (auto simp: in_voided keyring_holds_def bm_contains_def split: option.splits)
qed

lemma marked_held:
  assumes "keyring_ok K"
  shows "filter (bm_contains (marked_by L rots K)) rots = filter (keyring_holds K) rots"
  by (rule filter_cong) (auto simp: get_marked [OF assms] bm_contains_def keyring_holds_def)

lemma marked_status:
  assumes "keyring_ok K" and "finality_ok L K" and "bm_get (marked_by L rots K) h = Some r"
  shows "er_status r = FinalRotation \<longleftrightarrow> final_in L h"
proof -
  obtain r0 where r0: "bm_get (kr_records K) h = Some r0" "r = mark_record L r0"
    using assms(3) by (auto simp: get_marked [OF assms(1)] split: if_splits)
  then have "er_rotation_ref r0 = h"
    using assms(1) by (auto simp: keyring_ok_def)
  then show ?thesis
    using assms(2) r0
    by (cases "er_status r0") (auto simp: mark_record_def becomes_final_def final_in_def finality_ok_def)
qed

lemma reconcile_passes:
  assumes "keyring_ok K" and "canonical_rotations L = Some rots"
  defines "held \<equiv> filter (keyring_holds K) rots"
  shows "\<exists>out. keyring_reconcile L K = Some (fold prune_pair (zip held (tl held)) (adopted_by L rots K, out))
      \<and> kc_voided out = voided_by rots K \<and> kc_pruned out = []
      \<and> (kc_needs_rewelcome out \<longleftrightarrow> (\<exists>c\<in>set (voided_by rots K). kr_canonical K = Some c))"
proof -
  let ?c = "case kr_canonical K of None \<Rightarrow> None | Some c \<Rightarrow> if c \<in> set (voided_by rots K) then None else Some c"
  define K1 where "K1 = K\<lparr>kr_records := marked_by L rots K,
      kr_order := filter (\<lambda>h. h \<notin> set (voided_by rots K)) (kr_order K), kr_canonical := ?c\<rparr>"
  have "fst (mark_finality L (fold void_rotation (voided_by rots K) (K, o1))) = K1" for o1
    by (simp add: void_all mark_finality_def K1_def marked_by_def)
  moreover have "adopt_newest rots K1 = adopted_by L rots K"
    by (cases "kr_canonical K") (simp_all add: adopt_newest_def K1_def adopted_by_def)
  moreover have "kr_records (adopted_by L rots K) = marked_by L rots K"
    by (simp add: adopted_by_def)
  ultimately have "keyring_reconcile L K = Some (fold prune_pair (zip held (tl held)) (adopted_by L rots K,
      snd (mark_finality L (fold void_rotation (voided_by rots K)
        (K, \<lparr>kc_finalized = [], kc_voided = [], kc_pruned = [], kc_needs_rewelcome = False\<rparr>)))))"
    by (simp add: keyring_reconcile_def assms(2) voided_by_def [symmetric] Let_def split_beta marked_held [OF assms(1)]
        held_def)
  then show ?thesis
    by (intro exI conjI) (assumption, simp_all add: void_all mark_finality_def)
qed

lemma kept_records:
  fixes rots :: "b32 list"
  assumes "keyring_ok K"
  defines "held \<equiv> filter (keyring_holds K) rots"
  shows "filter (\<lambda>p. fst p \<notin> ps) (marked_by L rots K) =
      filter (\<lambda>p. fst p \<in> set held - ps) (map (\<lambda>(h, r). (h, mark_record L r)) (kr_records K))"
    and "filter (\<lambda>h. h \<notin> ps) (filter (\<lambda>h. h \<notin> set (voided_by rots K)) (kr_order K)) =
      filter (\<lambda>h. h \<in> set held - ps) (kr_order K)"
proof -
  have ok: "bm_ok (kr_records K)" "set (kr_order K) = dom (bm_get (kr_records K))"
    using assms(1) by (auto simp: keyring_ok_def)
  have kept: "h \<notin> set (voided_by rots K) \<longleftrightarrow> h \<in> set held" if "keyring_holds K h" for h
    unfolding in_voided held_def using that by auto
  have "keyring_holds K (fst p)" if "p \<in> set (kr_records K)" for p
    using that ok(1) by (metis bm_contains_def bm_ok_map_of keyring_holds_def option.distinct(1) prod.collapse)
  then show "filter (\<lambda>p. fst p \<notin> ps) (marked_by L rots K) =
      filter (\<lambda>p. fst p \<in> set held - ps) (map (\<lambda>(h, r). (h, mark_record L r)) (kr_records K))"
    unfolding marked_by_def filter_map filter_filter o_def split_beta fst_conv
    by (intro arg_cong [of _ _ "map _"] filter_cong refl) (use kept in blast)
  have "keyring_holds K h" if "h \<in> set (kr_order K)" for h
    using that ok(2) by (auto simp: keyring_holds_def bm_contains_def)
  then show "filter (\<lambda>h. h \<notin> ps) (filter (\<lambda>h. h \<notin> set (voided_by rots K)) (kr_order K)) =
      filter (\<lambda>h. h \<in> set held - ps) (kr_order K)"
    unfolding filter_filter by (intro filter_cong refl) (use kept in blast)
qed

lemma reconcile_parts:
  assumes "log_wf C L" and "keyring_ok K" and "finality_ok L K" and "canonical_rotations L = Some rots"
  defines "held \<equiv> filter (keyring_holds K) rots"
  defines "ps \<equiv> butlast (filter (final_in L) held)"
  shows "\<exists>K' out. keyring_reconcile L K = Some (K', out)
    \<and> kr_records K' = filter (\<lambda>p. fst p \<in> set held - set ps)
        (map (\<lambda>(h, r). (h, mark_record L r)) (kr_records K))
    \<and> kr_order K' = filter (\<lambda>h. h \<in> set held - set ps) (kr_order K)
    \<and> kr_canonical K' =
        (case kr_canonical K of
           None \<Rightarrow> List.find (\<lambda>h. h \<in> set held) (rev rots)
         | Some c \<Rightarrow> if keyring_holds K c \<and> c \<notin> set rots then List.find (\<lambda>h. h \<in> set held) (rev rots) else Some c)
    \<and> kc_voided out = voided_by rots K \<and> kc_pruned out = ps
    \<and> (kc_needs_rewelcome out \<longleftrightarrow> (\<exists>c. kr_canonical K = Some c \<and> keyring_holds K c \<and> c \<notin> set rots))"
proof -
  let ?R = "marked_by L rots K" and ?K2 = "adopted_by L rots K"
  have held: "filter (bm_contains ?R) rots = held"
    unfolding held_def by (rule marked_held [OF assms(2)])
  then have dom: "set held \<subseteq> dom (bm_get ?R)"
    by (auto simp: bm_contains_def)
  have find: "List.find (bm_contains ?R) (rev rots) = List.find (\<lambda>h. h \<in> set held) (rev rots)"
    by (rule find_cong) (auto simp: held [symmetric])
  obtain out where out: "keyring_reconcile L K = Some (fold prune_pair (zip held (tl held)) (?K2, out))"
      "kc_voided out = voided_by rots K" "kc_pruned out = []"
      "kc_needs_rewelcome out \<longleftrightarrow> (\<exists>c\<in>set (voided_by rots K). kr_canonical K = Some c)"
    using reconcile_passes [OF assms(2,4)] by (auto simp: held_def)
  have "distinct held"
    using finals_pruned(1) [OF assms(1,4)] by (simp add: held_def)
  then have rec: "keyring_reconcile L K = Some
      (?K2\<lparr>kr_records := filter (\<lambda>p. fst p \<notin> set ps) (kr_records ?K2), kr_order := filter (\<lambda>h. h \<notin> set ps) (kr_order ?K2)\<rparr>,
       out\<lparr>kc_pruned := kc_pruned out @ ps\<rparr>)"
    unfolding out(1) using prune_all [of held ?K2 "final_in L" out] dom marked_status [OF assms(2,3)]
      finals_pruned(2) [OF assms(1,4), of "keyring_holds K"]
    by (simp add: adopted_by_def Let_def held_def ps_def)
  have "kr_canonical ?K2 = (case kr_canonical K of
           None \<Rightarrow> List.find (\<lambda>h. h \<in> set held) (rev rots)
         | Some c \<Rightarrow> if keyring_holds K c \<and> c \<notin> set rots then List.find (\<lambda>h. h \<in> set held) (rev rots) else Some c)"
    by (simp add: adopted_by_def in_voided find split: option.splits)
  moreover have "kc_needs_rewelcome out \<longleftrightarrow> (\<exists>c. kr_canonical K = Some c \<and> keyring_holds K c \<and> c \<notin> set rots)"
    unfolding out(4) Bex_def in_voided by blast
  moreover note kept_records [where rots = rots and ps = "set ps", OF assms(2), folded held_def]
  ultimately show ?thesis
    by (intro exI conjI) (rule rec, simp_all add: adopted_by_def out(2,3))
qed

lemma find_rev_last:
  "List.find P (rev xs) = (if filter P xs = [] then None else Some (last (filter P xs)))"
  by (induction xs rule: rev_induct) auto

lemma canonical_rotations_total:
  assumes "log_wf C L"
  obtains rots where "canonical_rotations L = Some rots" "distinct rots"
proof -
  obtain chain where "canonical_chain L = Some chain" "distinct chain"
    using finals_first [OF assms] by metis
  then show ?thesis
    using that by (simp add: canonical_rotations_def)
qed

lemma last_not_butlast: "distinct xs \<Longrightarrow> x \<in> set xs \<Longrightarrow> x \<in> set (butlast xs) \<longleftrightarrow> x \<noteq> last xs"
  by (cases xs rule: rev_cases) auto

text \<open>The keyring that a reconciliation leaves, record by record.\<close>

lemma reconciled:
  assumes "log_wf C L" and "keyring_ok K" and "finality_ok L K" and "canonical_rotations L = Some rots"
    and "keyring_reconcile L K = Some (K', out)"
  defines "held \<equiv> filter (keyring_holds K) rots"
  defines "fin \<equiv> filter (final_in L) held"
  shows "bm_get (kr_records K') h =
      (if h \<in> set held \<and> (h \<notin> set fin \<or> h = last fin) then map_option (mark_record L) (bm_get (kr_records K) h) else None)"
    and "keyring_ok K'" and "finality_ok L K'" and "kc_pruned out = butlast fin"
proof -
  obtain rots' where "canonical_rotations L = Some rots'" "distinct rots'"
    using canonical_rotations_total [OF assms(1)] by blast
  then have dist: "distinct fin"
    using assms(4) by (simp add: fin_def held_def)
  have parts: "kr_records K' = filter (\<lambda>p. fst p \<in> set held - set (butlast fin))
        (map (\<lambda>(h, r). (h, mark_record L r)) (kr_records K))"
      "kr_order K' = filter (\<lambda>h. h \<in> set held - set (butlast fin)) (kr_order K)" "kc_pruned out = butlast fin"
    using reconcile_parts [OF assms(1-4)] assms(5) by (auto simp: held_def fin_def)
  have ok: "bm_ok (kr_records K)" "bm_get (kr_records K) h = Some r \<Longrightarrow> er_rotation_ref r = h"
    "set (kr_order K) = dom (bm_get (kr_records K))" "distinct (kr_order K)" for h r
    using assms(2) by (auto simp: keyring_ok_def)
  have ok': "bm_ok (map (\<lambda>(h, r). (h, mark_record L r)) (kr_records K))"
    using ok(1) by (simp add: bm_ok_map_value)
  have mark: "er_rotation_ref (mark_record L r) = er_rotation_ref r" for r
    by (simp add: mark_record_def)
  have kept: "h \<in> set held - set (butlast fin) \<longleftrightarrow> h \<in> set held \<and> (h \<notin> set fin \<or> h = last fin)" for h
    using last_not_butlast [OF dist, of h] in_set_butlastD [of h fin] by auto
  show get: "bm_get (kr_records K') h =
      (if h \<in> set held \<and> (h \<notin> set fin \<or> h = last fin) then map_option (mark_record L) (bm_get (kr_records K) h) else None)"
    for h
    unfolding parts(1) bm_get_filter [OF ok'] get_map_value kept [symmetric] by (auto split: option.splits)
  show "kc_pruned out = butlast fin"
    by (rule parts(3))
  have "set (kr_order K') = dom (bm_get (kr_records K'))"
    unfolding parts(2) using ok(3) kept by (auto simp: get split: if_splits)
  moreover have "bm_ok (kr_records K')" "distinct (kr_order K')"
    using ok ok' by (simp_all add: parts(1,2))
  moreover have "er_rotation_ref r = h" if "bm_get (kr_records K') h = Some r" for h r
    using that ok(2) by (auto simp: get mark split: if_splits)
  ultimately show "keyring_ok K'"
    by (simp add: keyring_ok_def)
  show "finality_ok L K'"
    using assms(3) ok(2) by (auto simp: finality_ok_def get mark_record_def becomes_final_def split: if_splits)
qed

text \<open>
  C15. A reconciliation keeps exactly the keys that may still be needed: of the rotations a member holds,
  those that are not on the canonical chain are dropped, those on it that are not final yet are all
  kept, and of the final ones only the newest is, since nothing can void it any more. It never fails,
  and the keyring stays well formed.
\<close>

theorem keys_retained:
  assumes "(log_step C)\<^sup>*\<^sup>* empty_log L" and "keyring_ok K" and "finality_ok L K"
  shows "\<exists>rots K' out. canonical_rotations L = Some rots \<and> keyring_reconcile L K = Some (K', out)
    \<and> keyring_ok K' \<and> finality_ok L K'
    \<and> (let fin = filter (\<lambda>h. keyring_holds K h \<and> final_in L h) rots in
       kc_pruned out = butlast fin
       \<and> (\<forall>h. keyring_key K' h =
            (if h \<in> set rots \<and> (\<not> final_in L h \<or> fin \<noteq> [] \<and> h = last fin) then keyring_key K h else None)))"
proof -
  have wf: "log_wf C L"
    by (rule reachable_wf [OF assms(1)])
  obtain rots where rots: "canonical_rotations L = Some rots"
    using canonical_rotations_total [OF wf] by blast
  obtain K' out where K': "keyring_reconcile L K = Some (K', out)"
    using reconcile_parts [OF wf assms(2,3) rots] by blast
  let ?fin = "filter (\<lambda>h. keyring_holds K h \<and> final_in L h) rots"
  note r = reconciled [OF wf assms(2,3) rots K', unfolded filter_filter]
  have key: "er_key (mark_record L x) = er_key x" for x
    by (simp add: mark_record_def)
  have "keyring_key K' h = (if h \<in> set rots \<and> (\<not> final_in L h \<or> ?fin \<noteq> [] \<and> h = last ?fin) then keyring_key K h else None)" for h
  proof (cases "keyring_holds K h")
    case True
    then show ?thesis
      by (auto simp: keyring_key_def r(1) option.map_comp comp_def key filter_empty_conv)
  next
    case False
    then show ?thesis
      by (auto simp: keyring_key_def r(1) keyring_holds_def bm_contains_def)
  qed
  then show ?thesis
    using rots K' r(2,3,4) by (auto simp: Let_def)
qed

lemma last_filter: "xs \<noteq> [] \<Longrightarrow> P (last xs) \<Longrightarrow> last (filter P xs) = last xs"
  by (cases xs rule: rev_cases) simp_all

text \<open>
  After a reconciliation a member works with the newest rotation it holds: if the rotation it was
  working with was voided, or was the newest it held on the canonical chain, then the current key
  afterwards is the key of the newest held rotation of the canonical chain, and a new welcome is asked
  for exactly when the rotation in use was voided.
\<close>

theorem current_key_newest:
  assumes "(log_step C)\<^sup>*\<^sup>* empty_log L" and "keyring_ok K" and "finality_ok L K"
    and "canonical_rotations L = Some rots" and "filter (keyring_holds K) rots \<noteq> []"
    and "\<forall>c. kr_canonical K = Some c \<longrightarrow>
      keyring_holds K c \<and> (c \<in> set rots \<longrightarrow> c = last (filter (keyring_holds K) rots))"
  shows "\<exists>K' out k. keyring_reconcile L K = Some (K', out)
    \<and> keyring_current K' = Some (last (filter (keyring_holds K) rots), k)
    \<and> keyring_key K (last (filter (keyring_holds K) rots)) = Some k
    \<and> (kc_needs_rewelcome out \<longleftrightarrow> (\<exists>c. kr_canonical K = Some c \<and> c \<notin> set rots))"
proof -
  let ?held = "filter (keyring_holds K) rots"
  let ?l = "last ?held" and ?fin = "filter (final_in L) ?held"
  have wf: "log_wf C L"
    by (rule reachable_wf [OF assms(1)])
  obtain K' out where K': "keyring_reconcile L K = Some (K', out)"
      "kr_canonical K' = (case kr_canonical K of
           None \<Rightarrow> List.find (\<lambda>h. h \<in> set ?held) (rev rots)
         | Some c \<Rightarrow> if keyring_holds K c \<and> c \<notin> set rots then List.find (\<lambda>h. h \<in> set ?held) (rev rots) else Some c)"
      "kc_needs_rewelcome out \<longleftrightarrow> (\<exists>c. kr_canonical K = Some c \<and> keyring_holds K c \<and> c \<notin> set rots)"
    using reconcile_parts [OF wf assms(2-4)] by blast
  have l: "?l \<in> set ?held"
    using assms(5) by (rule last_in_set)
  have "filter (\<lambda>h. h \<in> set ?held) rots = ?held"
    by (rule filter_cong) auto
  then have find: "List.find (\<lambda>h. h \<in> set ?held) (rev rots) = Some ?l"
    using assms(5) by (simp only: find_rev_last if_False)
  then have canonical: "kr_canonical K' = Some ?l"
    using K'(2) assms(6) by (cases "kr_canonical K") auto
  obtain r where r: "bm_get (kr_records K) ?l = Some r" "er_rotation_ref r = ?l"
    using l assms(2) by (auto simp: keyring_holds_def bm_contains_def keyring_ok_def)
  have "?l \<notin> set ?fin \<or> ?l = last ?fin"
    using last_filter [OF assms(5), of "final_in L"] by auto
  then have "bm_get (kr_records K') ?l = Some (mark_record L r)"
    using reconciled(1) [OF wf assms(2-4) K'(1), of ?l] l r(1) by simp
  then show ?thesis
    using K'(1,3) canonical r assms(6)
    by (auto simp: keyring_current_def keyring_key_def mark_record_def)
qed

text \<open>
  The condition on the rotation in use is needed: when it is an older one that a final rotation
  superseded, its key is pruned and the member is left without a current key, whatever it holds.
\<close>

lemma stale_current_dropped:
  assumes "log_wf C L" and "keyring_ok K" and "finality_ok L K" and "canonical_rotations L = Some rots"
    and "kr_canonical K = Some c" and "c \<in> set (butlast (filter (final_in L) (filter (keyring_holds K) rots)))"
  shows "\<exists>K' out. keyring_reconcile L K = Some (K', out) \<and> keyring_current K' = None"
proof -
  let ?held = "filter (keyring_holds K) rots"
  have c: "c \<in> set ?held"
    using in_set_butlastD [OF assms(6)] by simp
  obtain K' out where K': "keyring_reconcile L K = Some (K', out)" "kr_canonical K' = Some c"
      "kr_records K' = filter (\<lambda>p. fst p \<in> set ?held - set (butlast (filter (final_in L) ?held)))
        (map (\<lambda>(h, r). (h, mark_record L r)) (kr_records K))"
    using reconcile_parts [OF assms(1-4)] assms(5) c by auto
  have "bm_get (kr_records K') c = None"
    using assms(6) unfolding K'(3) map_of_eq_None_iff by auto
  then show ?thesis
    using K' by (simp add: keyring_current_def)
qed

section \<open>Delivering history\<close>

lemma length_seal_nonce: "length (seal_nonce S k r m) = epoch_nonce_len"
  by (simp add: seal_nonce_def epoch_nonce_len_def)

lemma open_seal_epoch_key:
  assumes "aead_correct S"
  shows "open_epoch_key S k r' (seal_epoch_key S k r m) =
    (if seal_nonce S k r' m = seal_nonce S k r m then Inr m
     else Inl (Mls ''sealed epoch key was sealed for a different rotation''))"
  using assms length_seal_nonce [of S k r m]
  by (simp add: open_epoch_key_def seal_epoch_key_def Let_def aead_correct_def)

lemma open_sealed_key:
  assumes "aead_correct S"
  shows "open_sealed S sk \<lparr>sk_rotation_ref = r, sk_sealed = seal_epoch_key S sk r (put_fixed32 k)\<rparr> = Inr (r, k)"
proof -
  have "of_nat (be_val (put_fixed32 k)) = k"
    using unat_bound [of k] by (simp add: put_fixed32_def)
  then show ?thesis
    using open_seal_epoch_key [OF assms] by (simp add: open_sealed_def)
qed

lemma decode_each_map: "(\<And>x. x \<in> set xs \<Longrightarrow> f (g x) = Inr x) \<Longrightarrow> decode_each f (map g xs) = Inr xs"
  by (induction xs) simp_all

lemma open_seal_history:
  assumes "aead_correct S" and "agree_symmetric C ag" and "ag (pni_secret host) (pni_id C joiner) = Some secret"
  shows "\<exists>sealed. seal_history C S ag host (pni_id C joiner) keys = Inr sealed
    \<and> open_history C S ag joiner (pni_id C host) sealed = Inr keys \<and> length sealed = length keys
    \<and> (\<forall>k\<in>set sealed. length (sk_sealed k) = 72)"
proof -
  have "ag (pni_secret joiner) (pni_id C host) = Some secret"
    using assms(2,3) by (simp add: agree_symmetric_def pni_id_def)
  moreover have "length (seal_epoch_key S k r (put_fixed32 m)) = 72" for k r m
    using assms(1) length_seal_nonce by (simp add: seal_epoch_key_def Let_def aead_correct_def epoch_nonce_len_def)
  ultimately show ?thesis
    using assms(3) open_sealed_key [OF assms(1)]
    by (auto simp: seal_history_def open_history_def intro!: decode_each_map)
qed

lemma keyring_key_deliver:
  "keyring_key (deliver n keys K) h = (case map_of (rev keys) h of None \<Rightarrow> keyring_key K h | Some k \<Rightarrow> Some k)"
  by (induction n keys K rule: deliver.induct)
    (auto simp: keyring_key_def keyring_record_def map_add_def split: option.splits if_splits)

lemma keyring_key_record: "keyring_key (keyring_record r n k K) h = (if h = r then Some k else keyring_key K h)"
  by (simp add: keyring_key_def keyring_record_def)

lemma keys_in_order:
  assumes "keyring_ok K"
  shows "distinct (map fst (keys_for_new_member K FullHistory))"
    and "map_of (keys_for_new_member K FullHistory) h = keyring_key K h"
    and "length (keys_for_new_member K FullHistory) = length (kr_order K)"
proof -
  have order: "set (kr_order K) = dom (bm_get (kr_records K))" "distinct (kr_order K)"
    "bm_get (kr_records K) h = Some r \<Longrightarrow> er_rotation_ref r = h" for h r
    using assms by (auto simp: keyring_ok_def)
  have keys: "keys_for_new_member K FullHistory = map (\<lambda>h. (h, er_key (the (bm_get (kr_records K) h)))) (kr_order K)"
  proof -
    have "List.map_filter (bm_get (kr_records K)) xs = map (\<lambda>h. the (bm_get (kr_records K) h)) xs"
      if "set xs \<subseteq> dom (bm_get (kr_records K))" for xs
      using that by (induction xs) (auto simp: map_filter_simps)
    then show ?thesis
      using order(1,3) by (auto simp: keys_for_new_member_def keyring_records_def)
  qed
  show "distinct (map fst (keys_for_new_member K FullHistory))"
    "length (keys_for_new_member K FullHistory) = length (kr_order K)"
    using order(2) by (simp_all add: keys comp_def)
  show "map_of (keys_for_new_member K FullHistory) h = keyring_key K h"
    using order(1) by (auto simp: keys map_of_map_keys keyring_key_def map_of_map_restrict restrict_map_def domIff)
qed

lemma sealed_with:
  assumes "seal_history C S ag host x keys = Inr sealed"
  obtains secret where "ag (pni_secret host) x = Some secret"
  using assms by (auto simp: seal_history_def split: option.splits)

lemma history_absorbed:
  assumes "keyring_ok K" and "aead_correct S" and "agree_symmetric C ag" and "keyring_key K rotation = Some key"
    and "seal_history C S ag host (pni_id C joiner)
      (filter (\<lambda>p. fst p \<noteq> rotation) (keys_for_new_member K FullHistory)) = Inr sealed"
  shows "\<exists>J. absorb_welcome C S ag joiner (pni_id C host) rotation sealed epoch key keyring_new = Inr J
    \<and> (\<forall>h. keyring_key J h = keyring_key K h) \<and> keyring_current J = Some (rotation, key)"
proof -
  define keys where "keys = filter (\<lambda>p. fst p \<noteq> rotation) (keys_for_new_member K FullHistory)"
  have s: "open_history C S ag joiner (pni_id C host) sealed = Inr keys" "length sealed = length keys"
    using sealed_with [OF assms(5)] open_seal_history [OF assms(2,3)] assms(5) unfolding keys_def
    by (metis sum.inject(2))+
  have dist: "distinct (map fst keys)"
    using keys_in_order(1) [OF assms(1)] by (simp add: keys_def distinct_map_filter)
  then have "map_of (rev keys) = map_of keys"
    using map_of_inject_set [of "rev keys" keys] by (simp add: rev_map [symmetric])
  then have got: "map_of (rev keys) h = (if h = rotation then None else keyring_key K h)" for h
    by (simp add: keys_def map_of_filter_fst [of "\<lambda>x. x \<noteq> rotation"] keys_in_order(2) [OF assms(1)])
  let ?J = "keyring_record rotation epoch key (deliver 0 keys keyring_new)"
  have "absorb_welcome C S ag joiner (pni_id C host) rotation sealed epoch key keyring_new = Inr ?J"
    using s by (cases "keys = []") (auto simp: absorb_welcome_def accept_delivered_def)
  moreover have "keyring_key ?J h = keyring_key K h" for h
  proof -
    have "keyring_key keyring_new h = None"
      by (simp add: keyring_key_def keyring_new_def)
    then show ?thesis
      using assms(4) by (simp add: keyring_key_record keyring_key_deliver got split: option.splits)
  qed
  moreover have "keyring_current ?J = Some (rotation, key)"
    by (simp add: keyring_current_def keyring_record_def)
  ultimately show ?thesis
    by blast
qed

text \<open>
  In a network that grants full history, a joiner ends up with the keys of the member that welcomed
  it: the history the member seals survives the wire, opens for the joiner, and together with the key of
  the welcome makes a keyring with the same key for every rotation and the admitting rotation current.
  What is relied on of the third-party primitives is that the cipher inverts and that both sides agree
  on one secret.
\<close>

theorem history_delivered:
  assumes "keyring_ok K" and "node_state C L = Some st" and "history_access (gs_policy st) = FullHistory"
    and "aead_correct S" and "agree_symmetric C ag" and "ag (pni_secret host) (pni_id C joiner) = Some secret"
    and "keyring_key K rotation = Some key" and "length (kr_order K) \<le> max_history_keys"
    and "length welcome \<le> max_welcome_bytes"
  shows "\<exists>sealed J. answer_history C S ag L K host (pni_id C joiner) rotation = Inr sealed
    \<and> decode_epoch_response (encode_epoch_response (KeyWelcome welcome rotation sealed)) =
        Inr (KeyWelcome welcome rotation sealed)
    \<and> absorb_welcome C S ag joiner (pni_id C host) rotation sealed epoch key keyring_new = Inr J
    \<and> (\<forall>h. keyring_key J h = keyring_key K h) \<and> keyring_current J = Some (rotation, key)"
proof -
  define keys where "keys = filter (\<lambda>p. fst p \<noteq> rotation) (keys_for_new_member K FullHistory)"
  obtain sealed where s: "seal_history C S ag host (pni_id C joiner) keys = Inr sealed" "length sealed = length keys"
      "\<forall>k\<in>set sealed. length (sk_sealed k) = 72"
    using open_seal_history [OF assms(4-6)] by blast
  have "length keys \<le> max_history_keys"
    using le_trans [OF length_filter_le assms(8) [folded keys_in_order(3) [OF assms(1)]]] by (simp add: keys_def)
  then have "epoch_response_ok (KeyWelcome welcome rotation sealed)"
    using s(2,3) assms(9) by (simp add: list_all_iff len_ok_def)
  then show ?thesis
    using history_absorbed [OF assms(1,4,5,7) s(1) [unfolded keys_def]] s(1) assms(2,3)
      whole_iff [OF kresp.exact_codec_axioms epoch_domains_ok(2)]
    by (auto simp: answer_history_def keys_def [symmetric] decode_epoch_response_def encode_epoch_response_def)
qed

section \<open>A network that grants full history\<close>

definition archive_root :: log_entry where
  "archive_root = entry_create demo (who 1) None 0
     (Genesis 7 (conservative_default\<lparr>history_access := FullHistory\<rparr>) [ReadContent])"

lemma archive_hash: "entry_hash demo archive_root = 357"
  by (simp add: archive_root_def demo_entry_hash put_seq_def put_policy_def conservative_default_def
      starter_content_types_def bs_collect_def)

definition archive_log :: governance_log where
  "archive_log = \<lparr>gl_entries = [(357, archive_root)], gl_children = [], gl_root = Some 357, gl_finalized = None\<rparr>"

lemma archive_facts:
  "le_parent archive_root = None" "entry_verify_signature demo archive_root = Inr ()"
  "is_genesis (le_body archive_root)" "produces_epoch (le_body archive_root)"
  by (simp_all add: archive_root_def produces_epoch_def)

lemma archive_steps: "(log_step demo)\<^sup>*\<^sup>* empty_log archive_log"
proof -
  have "log_insert demo empty_log archive_root = Inr (357, archive_log)"
    using archive_facts(3)
    by (simp add: empty_log_def log_insert_def archive_facts archive_hash bm_contains_def Let_def archive_log_def)
  then have "log_step demo empty_log archive_log"
    by (auto intro!: log_step.inserts simp: no_clash_def empty_log_def)
  then show ?thesis ..
qed

lemma archive_chain: "canonical_chain archive_log = Some [357]" "canonical_rotations archive_log = Some [357]"
proof -
  show "canonical_chain archive_log = Some [357]"
    by (simp add: archive_log_def canonical_chain_def ancestry_def log_fuel_def best_branch_below_def pick_def
        parent_of_def archive_facts)
  then show "canonical_rotations archive_log = Some [357]"
    by (simp add: canonical_rotations_def archive_facts) (simp add: archive_log_def log_get_def archive_facts)
qed

lemma archive_state:
  obtains st where "node_state demo archive_log = Some st" "history_access (gs_policy st) = FullHistory"
proof -
  obtain st where st: "replay demo [archive_root] = Inr st" "history_access (gs_policy st) = FullHistory"
    by (simp add: archive_root_def sample_defs)
  then have "node_state demo archive_log = Some st"
    by (simp add: node_state_def replay_canonical_def archive_chain) (simp add: archive_log_def)
  then show ?thesis
    using that st(2) by blast
qed

text \<open>A keyring with the key of the founding epoch and one of a rotation that is on no branch of the log.\<close>

definition archive_keyring :: epoch_keyring where
  "archive_keyring = keyring_record 99 1 6 (keyring_record 357 0 5 keyring_new)"

lemma archive_keyring_ok: "keyring_ok archive_keyring" "finality_ok archive_log archive_keyring"
  by (simp_all add: archive_keyring_def keyring_record_ok keyring_new_ok)

lemma archive_keys: "keyring_key archive_keyring h = (if h = 99 then Some 6 else if h = 357 then Some 5 else None)"
  by (simp add: archive_keyring_def keyring_key_record) (simp add: keyring_key_def keyring_new_def)

lemma archive_final: "\<not> final_in archive_log h"
  by (simp add: final_in_def is_final_def archive_log_def)

theorem keys_retained_witness:
  "\<exists>K' out. keyring_reconcile archive_log archive_keyring = Some (K', out)
     \<and> keyring_key K' 357 = Some 5 \<and> keyring_key K' 99 = None \<and> kc_pruned out = []"
  using keys_retained [OF archive_steps archive_keyring_ok]
  by (auto simp: archive_chain archive_final archive_keys)

theorem current_key_newest_witness:
  "\<exists>K' out. keyring_reconcile archive_log archive_keyring = Some (K', out)
     \<and> keyring_current K' = Some (357, 5) \<and> kc_needs_rewelcome out"
proof -
  have held: "keyring_holds archive_keyring 357" "keyring_holds archive_keyring 99" "kr_canonical archive_keyring = Some 99"
    by (simp_all add: archive_keyring_def keyring_record_def keyring_holds_def keyring_new_def bm_contains_def)
  show ?thesis
    using current_key_newest [OF archive_steps archive_keyring_ok archive_chain(2)] held
    by (auto simp: archive_keys)
qed

theorem history_delivered_witness:
  "\<exists>sealed J. answer_history demo demo_sealing (\<lambda>s t. Some (s + t)) archive_log archive_keyring (who 1) 2 99 = Inr sealed
     \<and> absorb_welcome demo demo_sealing (\<lambda>s t. Some (s + t)) (who 2) 1 99 sealed 1 6 keyring_new = Inr J
     \<and> keyring_key J 357 = Some 5 \<and> keyring_current J = Some (99, 6)"
proof -
  obtain st where st: "node_state demo archive_log = Some st" "history_access (gs_policy st) = FullHistory"
    by (rule archive_state)
  have ag: "agree_symmetric demo (\<lambda>s t. Some (s + t))"
    by (simp add: agree_symmetric_def add.commute)
  have "length (kr_order archive_keyring) \<le> max_history_keys"
    by (simp add: archive_keyring_def keyring_record_def keyring_new_def max_history_keys_def)
  then show ?thesis
    using history_delivered [OF archive_keyring_ok(1) st demo_aead ag, of "who 1" "who 2" _ 99 6 "[]" 1]
    by (auto simp: archive_keys)
qed

end
