(* ===== verification/Rekey.thy ===== *)
theory Rekey
  imports Epoch_Node Keying Tip Framing
begin

text \<open>
  What rotation and key delivery guarantee across nodes: members that follow the log of a node that
  rotates derive the keys it derives, a joiner that is answered ends up in step with the member that
  answered, and a node that answers without the capability for it is left with a log that does not replay.
\<close>

section \<open>What is relied on of MLS\<close>

text \<open>
  A commit that the signer \<open>s\<close> makes in the group \<open>g\<close> and merges, ending up in \<open>g'\<close>. The leaf it vacates,
  if any, is the one removed or replaced: a replacement removes the leaf and adds a new one, so its
  occupant is out, also if the newcomer has the same credential.
\<close>

inductive commits ::
  "('s, 'g, 'b, 'o) openmls \<Rightarrow> 's \<Rightarrow> 'g \<Rightarrow> 'o \<Rightarrow> 'o option \<Rightarrow> u32 option \<Rightarrow> 'g \<Rightarrow> bool" for M s where
  adds: "om_add_members M s k g = (g1, Inr (c, w)) \<Longrightarrow> om_merge_pending M g1 = (g', Inr ()) \<Longrightarrow>
    commits M s g c (Some w) None g'"
| removes: "om_remove_members M s i g = (g1, Inr (c, w)) \<Longrightarrow> om_merge_pending M g1 = (g', Inr ()) \<Longrightarrow>
    commits M s g c w (Some i) g'"
| replaces: "om_propose_remove M s i g = (g1, Inr ()) \<Longrightarrow> om_propose_add M s k g1 = (g2, Inr ()) \<Longrightarrow>
    om_commit_proposals M s g2 = (g3, Inr (c, w)) \<Longrightarrow> om_merge_pending M g3 = (g', Inr ()) \<Longrightarrow>
    commits M s g c w (Some i) g'"
| updates: "om_self_update M s g = (g1, Inr c) \<Longrightarrow> om_merge_pending M g1 = (g', Inr ()) \<Longrightarrow>
    commits M s g c None None g'"

text \<open>
  Agreement (RFC 9420, 8.5 and 12.4.2): \<open>acts s g\<close> says that \<open>s\<close> is the signature key of the leaf whose
  state \<open>g\<close> is, with nothing pending, and \<open>R i g h\<close> that \<open>h\<close> is the state of another member, the one at
  the leaf with index \<open>i\<close>, in the epoch in which \<open>g\<close> is. Members in one epoch export one secret, and a
  member that processes a commit made in its epoch moves to the epoch the commit opens and keeps its
  leaf, unless its leaf is the one the commit vacates.
\<close>

definition mls_follows ::
  "('s, 'g, 'b, 'o) openmls \<Rightarrow> ('s \<Rightarrow> 'g \<Rightarrow> bool) \<Rightarrow> (u32 \<Rightarrow> 'g \<Rightarrow> 'g \<Rightarrow> bool) \<Rightarrow> bool" where
  "mls_follows M acts R \<longleftrightarrow>
     (\<forall>i g h. R i g h \<longrightarrow> om_epoch M g = om_epoch M h \<and> om_export M g = om_export M h)
     \<and> (\<forall>s g c w gone g'. acts s g \<and> commits M s g c w gone g' \<longrightarrow> acts s g')
     \<and> (\<forall>i s g c w gone g' h b. acts s g \<and> R i g h \<and> commits M s g c w gone g' \<and> om_serialize M c = Inr b
          \<and> gone \<noteq> Some i \<longrightarrow>
            (\<exists>body p staged h1 h'. om_parse M b = Inr body \<and> om_protocol M body = Inr p
               \<and> om_process M p h = (h1, Inr (Some staged)) \<and> om_merge_staged M staged h1 = (h', Inr ()) \<and> R i g' h'))"

section \<open>Rotations of a session\<close>

definition rotated ::
  "('s, 'g, 'b, 'o) openmls \<Rightarrow> u32 option \<Rightarrow> ('s, 'g) group_session \<Rightarrow> ('s, 'g) group_session \<Rightarrow> rotation \<Rightarrow> bool" where
  "rotated M gone X X' ro \<longleftrightarrow>
     ss_signer X' = ss_signer X \<and>
     (\<exists>c w. commits M (ss_signer X) (ss_group X) c w gone (ss_group X') \<and> om_serialize M c = Inr (ro_commit ro)
        \<and> (case w of None \<Rightarrow> ro_welcome ro = None | Some v \<Rightarrow> \<exists>b. ro_welcome ro = Some b \<and> om_serialize M v = Inr b)
        \<and> group_key M (ss_group X') = Inr (ro_key ro) \<and> ro_epoch ro = om_epoch M (ss_group X'))"

lemma mls_err_Inr [simp]: "mls_err what r = Inr x \<longleftrightarrow> r = Inr x"
  by (cases r) (simp_all add: mls_err_def)

lemma mls_err_ok [simp]: "mls_err what (Inr x) = Inr x"
  by (simp add: mls_err_def)

lemma mls_call_Inr [simp]: "mls_call what f g = (g', Inr x) \<longleftrightarrow> f g = (g', Inr x)"
  by (cases "f g") (auto simp: mls_call_def)

lemma and_then_Inr: "and_then f k g = (g', Inr y) \<longleftrightarrow> (\<exists>g1 x. f g = (g1, Inr x) \<and> k x g1 = (g', Inr y))"
  by (auto simp: and_then_def split: prod.splits sum.splits)

lemma or_clear_Inr [simp]: "or_clear M f g = (g', Inr x) \<longleftrightarrow> f g = (g', Inr x)"
  by (auto simp: or_clear_def split: prod.splits sum.splits)

lemma on_group_Inr:
  "on_group f X = (X', Inr y) \<longleftrightarrow> (\<exists>g. f (ss_group X) = (g, Inr y) \<and> X' = X\<lparr>ss_group := g\<rparr>)"
  by (auto simp: on_group_def split: prod.splits)

lemma rotation_of_Inr:
  "rotation_of M c w g = Inr ro \<longleftrightarrow>
     om_serialize M c = Inr (ro_commit ro)
     \<and> (case w of None \<Rightarrow> ro_welcome ro = None | Some v \<Rightarrow> \<exists>b. ro_welcome ro = Some b \<and> om_serialize M v = Inr b)
     \<and> group_key M g = Inr (ro_key ro) \<and> ro_epoch ro = om_epoch M g"
  by (cases ro) (auto simp: rotation_of_def mls_encode_def res_bind_Inr_iff split: option.splits)

lemma rotatedI:
  "commits M (ss_signer X) (ss_group X) c w gone g \<Longrightarrow> rotation_of M c w g = Inr ro \<Longrightarrow>
     rotated M gone X (X\<lparr>ss_group := g\<rparr>) ro"
  unfolding rotated_def rotation_of_Inr by (intro conjI exI [of _ c] exI [of _ w]) simp_all

lemmas session_Inr = on_group_Inr and_then_Inr outcome_def prod.inject

lemma session_rotations:
  "add_member M kp X = (X', Inr ro) \<Longrightarrow> rotated M None X X' ro"
  "remove_member M i X = (X', Inr ro) \<Longrightarrow> rotated M (Some i) X X' ro"
  "replace_member M i kp X = (X', Inr ro) \<Longrightarrow> rotated M (Some i) X X' ro"
  "session_rotate M X = (X', Inr ro) \<Longrightarrow> rotated M None X X' ro"
  by (auto simp: add_member_def remove_member_def replace_member_def stage_replacement_def session_rotate_def
      session_Inr split: sum.splits option.splits intro!: rotatedI intro: commits.intros)

lemma follows_commit:
  assumes "mls_follows M acts R" and "acts s g" and "R i g h" and "commits M s g c w gone g'"
    and "om_serialize M c = Inr b" and "gone \<noteq> Some i"
  shows "\<exists>body p staged h1 h'. om_parse M b = Inr body \<and> om_protocol M body = Inr p
    \<and> om_process M p h = (h1, Inr (Some staged)) \<and> om_merge_staged M staged h1 = (h', Inr ()) \<and> R i g' h'"
  using assms unfolding mls_follows_def by blast

lemma follower_applies:
  assumes "mls_follows M acts R" and "rotated M gone X X' ro" and "acts (ss_signer X) (ss_group X)"
    and "R i (ss_group X) (ss_group Y)" and "gone \<noteq> Some i"
  obtains Y' where "apply_commit M (ro_commit ro) Y = (Y', Inr (ro_key ro))" "session_epoch M Y' = ro_epoch ro"
    "R i (ss_group X') (ss_group Y')" "acts (ss_signer X') (ss_group X')"
proof -
  obtain c w where c: "commits M (ss_signer X) (ss_group X) c w gone (ss_group X')" "om_serialize M c = Inr (ro_commit ro)"
      "group_key M (ss_group X') = Inr (ro_key ro)" "ro_epoch ro = om_epoch M (ss_group X')" "ss_signer X' = ss_signer X"
    using assms(2) unfolding rotated_def by blast
  obtain body p staged h1 h' where h: "om_parse M (ro_commit ro) = Inr body" "om_protocol M body = Inr p"
      "om_process M p (ss_group Y) = (h1, Inr (Some staged))" "om_merge_staged M staged h1 = (h', Inr ())"
      "R i (ss_group X') h'"
    using follows_commit [OF assms(1,3,4) c(1,2) assms(5)] by blast
  have "om_epoch M (ss_group X') = om_epoch M h'" "om_export M (ss_group X') = om_export M h'"
    using assms(1) h(5) unfolding mls_follows_def by blast+
  then have "group_key M h' = Inr (ro_key ro)" "om_epoch M h' = ro_epoch ro"
    using c(3,4) by (simp_all add: group_key_def)
  then have "apply_commit M (ro_commit ro) Y = (Y\<lparr>ss_group := h'\<rparr>, Inr (ro_key ro))"
    using h by (auto simp: apply_commit_def session_Inr)
  moreover have "acts (ss_signer X') (ss_group X')"
    using assms(1,3) c(1,5) unfolding mls_follows_def by metis
  ultimately show ?thesis
    using that h(5) \<open>om_epoch M h' = ro_epoch ro\<close> by (simp add: session_epoch_def)
qed

section \<open>Following a member that rotates\<close>

text \<open>The leaf of the identity, the one a commit about it would vacate, is not the one at index \<open>i\<close>.\<close>

definition spares :: "('s, 'g, 'b, 'o) openmls \<Rightarrow> u32 \<Rightarrow> ('s, 'g, 'b) epoch_node \<Rightarrow> b32 \<Rightarrow> bool" where
  "spares M i A identity \<longleftrightarrow> (\<forall>X. en_group A = Some X \<longrightarrow> leaf_index_for M X identity \<noteq> Some i)"

text \<open>
  What a member that hosts does, as long as it neither removes nor replaces the leaf at index \<open>i\<close>: it
  answers requests of other identities, revokes other identities, rekeys, screens and declines.
\<close>

inductive host_step for C S ag W M i where
  answers: "answer_epoch_key C S ag M request identity now A = (A', m, Inr h) \<Longrightarrow> keeps (en_log A) (en_log A') \<Longrightarrow>
    (\<And>q channel. bm_get (en_inbound A) request = Some (q, channel) \<Longrightarrow> spares M i A (kq_requester q)) \<Longrightarrow>
    host_step C S ag W M i A A'"
| revokes: "revoke_epoch_member C M revoked identity now A = (A', Inr res) \<Longrightarrow> keeps (en_log A) (en_log A') \<Longrightarrow>
    spares M i A revoked \<Longrightarrow> host_step C S ag W M i A A'"
| rotates: "rotate_epoch C M identity now A = (A', Inr h) \<Longrightarrow> keeps (en_log A) (en_log A') \<Longrightarrow>
    host_step C S ag W M i A A'"
| screens: "receive_epoch_request C W M q peer channel A = (A', r) \<Longrightarrow> host_step C S ag W M i A A'"
| declines: "decline_epoch_key request reason A = (A', d) \<Longrightarrow> host_step C S ag W M i A A'"

text \<open>
  The member \<open>B\<close>, at the leaf with index \<open>i\<close>, can catch up with the member \<open>A\<close>: once it has its log, applying the rotations it has not
  applied brings its group into the epoch of the group of \<open>A\<close>, makes the key current that \<open>A\<close> has current,
  and every key it holds for an entry of the canonical chain is the one \<open>A\<close> has for it. Its keys are all
  of entries of that log.
\<close>

definition in_step ::
  "('s, 'g, 'b, 'o) openmls \<Rightarrow> ('s \<Rightarrow> 'g \<Rightarrow> bool) \<Rightarrow> (u32 \<Rightarrow> 'g \<Rightarrow> 'g \<Rightarrow> bool) \<Rightarrow> u32 \<Rightarrow> ('s, 'g, 'b) epoch_node \<Rightarrow>
     ('s, 'g, 'b) epoch_node \<Rightarrow> bool" where
  "in_step M acts R i A B \<longleftrightarrow>
     (\<exists>chain B' applied X Y. canonical_chain (en_log A) = Some chain
        \<and> apply_pending_rotations M (B\<lparr>en_log := en_log A\<rparr>) = Some (B', applied)
        \<and> en_group A = Some X \<and> acts (ss_signer X) (ss_group X)
        \<and> en_group B' = Some Y \<and> R i (ss_group X) (ss_group Y)
        \<and> keyring_current (en_keyring B') = keyring_current (en_keyring A)
        \<and> (\<forall>h\<in>set chain. keyring_holds (en_keyring B') h \<longrightarrow>
              keyring_key (en_keyring B') h = keyring_key (en_keyring A) h)
        \<and> (\<forall>h. keyring_holds (en_keyring B') h \<longrightarrow> bm_get (gl_entries (en_log A)) h \<noteq> None))"

lemma apply_rotations_append:
  "apply_rotations M L (xs @ ys) X K =
     (let (X1, K1, a1) = apply_rotations M L xs X K; (X2, K2, a2) = apply_rotations M L ys X1 K1 in (X2, K2, a1 @ a2))"
  by (induction M L xs X K rule: apply_rotations.induct)
    (auto simp: Let_def split: option.splits entry_body.splits prod.splits sum.splits)

lemma apply_rotations_cong:
  assumes "\<And>h. h \<in> set hs \<Longrightarrow> log_get L' h = log_get L h"
  shows "apply_rotations M L' hs X K = apply_rotations M L hs X K"
  using assms
  by (induction M L hs X K rule: apply_rotations.induct)
    (auto simp: Let_def split: option.splits entry_body.splits prod.splits sum.splits)

lemma appended_rotation:
  assumes "log_wf C (en_log A)" and "canonical_chain (en_log A) = Some chain" and "chain \<noteq> []"
    and "append_rotation C identity now reason ro A = (A', Inr h)" and "keeps (en_log A) (en_log A')"
  shows "\<exists>e. le_parent e = Some (last chain) \<and> le_body e = EpochRotation reason (ro_commit ro)
      \<and> log_insert C (en_log A) e = Inr (h, en_log A') \<and> bm_get (gl_entries (en_log A)) h = None"
    and "A' = A\<lparr>en_log := en_log A', en_keyring := keyring_record h (ro_epoch ro) (ro_key ro) (en_keyring A)\<rparr>"
proof -
  let ?e = "entry_create C identity (log_tip (en_log A)) now (EpochRotation reason (ro_commit ro))"
  have tip: "log_tip (en_log A) = Some (last chain)"
    using assms(2,3) by (simp add: log_tip_def)
  obtain L where ins: "log_insert C (en_log A) ?e = Inr (h, L)"
      and A': "A' = A\<lparr>en_log := L, en_keyring := keyring_record h (ro_epoch ro) (ro_key ro) (en_keyring A)\<rparr>"
    using assms(4) by (auto simp: append_rotation_def Let_def split: sum.splits prod.splits)
  have L: "L = en_log A'"
    by (simp add: A')
  have e: "le_parent ?e = Some (last chain)" "le_body ?e = EpochRotation reason (ro_commit ro)"
    by (simp_all add: entry_create_def tip Let_def)
  have fresh: "bm_get (gl_entries (en_log A)) h = None"
    by (rule tip_fresh [OF assms(1-3) ins e(1)]) (use assms(5) L in simp)
  show "\<exists>e. le_parent e = Some (last chain) \<and> le_body e = EpochRotation reason (ro_commit ro)
      \<and> log_insert C (en_log A) e = Inr (h, en_log A') \<and> bm_get (gl_entries (en_log A)) h = None"
    using e ins fresh by (auto simp: L)
  show "A' = A\<lparr>en_log := en_log A', en_keyring := keyring_record h (ro_epoch ro) (ro_key ro) (en_keyring A)\<rparr>"
    using A' by simp
qed

lemma keyring_holds_record: "keyring_holds (keyring_record r n k K) h \<longleftrightarrow> h = r \<or> keyring_holds K h"
  by (auto simp: keyring_holds_def keyring_record_def bm_contains_def)

lemma keyring_current_record: "keyring_current (keyring_record r n k K) = Some (r, k)"
  by (simp add: keyring_current_def keyring_record_def)

lemma append_needs_chain:
  assumes "canonical_chain (en_log A) = Some chain" and "append_rotation C identity now reason ro A = (A', Inr h)"
  shows "chain \<noteq> []"
  using assms
  by (auto simp: append_rotation_def Let_def log_tip_def log_insert_Inr entry_create_def split: sum.splits prod.splits)

lemma rotation_in_step:
  assumes "mls_follows M acts R" and "log_wf C (en_log A)" and "unrivalled (en_log A)" and "in_step M acts R i A B"
    and "en_group A = Some X" and "rotated M gone X X' ro" and "en_log N = en_log A" and "en_keyring N = en_keyring A"
    and "en_group N = Some X'" and "append_rotation C identity now reason ro N = (A', Inr h)"
    and "keeps (en_log A) (en_log A')" and "gone \<noteq> Some i"
  shows "in_step M acts R i A' B" and "log_wf C (en_log A')" and "unrivalled (en_log A')"
proof -
  obtain chain B1 applied Y where B: "canonical_chain (en_log A) = Some chain"
      "apply_pending_rotations M (B\<lparr>en_log := en_log A\<rparr>) = Some (B1, applied)" "en_group B1 = Some Y"
      "R i (ss_group X) (ss_group Y)"
      "\<forall>h\<in>set chain. keyring_holds (en_keyring B1) h \<longrightarrow> keyring_key (en_keyring B1) h = keyring_key (en_keyring A) h"
      "\<forall>h. keyring_holds (en_keyring B1) h \<longrightarrow> bm_get (gl_entries (en_log A)) h \<noteq> None"
      "acts (ss_signer X) (ss_group X)"
    using assms(4,5) by (auto simp: in_step_def)
  have chain: "chain \<noteq> []"
    by (rule append_needs_chain [OF _ assms(10)]) (simp add: assms(7) B(1))
  have "log_wf C (en_log N)" "canonical_chain (en_log N) = Some chain" "keeps (en_log N) (en_log A')"
    using assms(2,7,11) B(1) by simp_all
  note app = appended_rotation [OF this(1,2) chain assms(10) this(3)]
  obtain e where e: "le_parent e = Some (last chain)" "le_body e = EpochRotation reason (ro_commit ro)"
      "log_insert C (en_log A) e = Inr (h, en_log A')" "bm_get (gl_entries (en_log A)) h = None"
    using app(1) assms(7) by auto
  have A': "en_group A' = Some X'" "en_keyring A' = keyring_record h (ro_epoch ro) (ro_key ro) (en_keyring A)"
    using app(2) assms(8,9) by (metis epoch_node.select_convs epoch_node.surjective epoch_node.update_convs)+
  have len: "length (gl_entries (en_log A')) < 2 ^ 32"
    using assms(11) by (simp add: keeps_def)
  note ext = tip_extends [OF assms(2) B(1) chain e(3,4,1) disjI2 [OF assms(3)] len]
  show "log_wf C (en_log A')" "unrivalled (en_log A')"
    by (fact ext)+
  obtain Y' where Y': "apply_commit M (ro_commit ro) Y = (Y', Inr (ro_key ro))" "session_epoch M Y' = ro_epoch ro"
      "R i (ss_group X') (ss_group Y')" "acts (ss_signer X') (ss_group X')"
    using follower_applies [OF assms(1,6) B(7,4) assms(12)] by blast
  obtain Y0 where Y0: "en_group B = Some Y0"
      "apply_rotations M (en_log A) chain Y0 (en_keyring B) = (Y, en_keyring B1, applied)"
    using B(1-3) by (cases "en_group B") (auto simp: apply_pending_rotations_def split: prod.splits)
  have chain_in: "set chain \<subseteq> dom (bm_get (gl_entries (en_log A)))"
    using chain_present [OF assms(2) B(1)] .
  have old: "log_get (en_log A') x = log_get (en_log A) x" if "x \<in> set chain" for x
    using that chain_in assms(11) by (auto simp: keeps_def log_get_def)
  have "log_get (en_log A') h = Some e"
    using e(1,3) by (auto simp: log_get_def log_insert_Inr)
  moreover have "\<not> keyring_holds (en_keyring B1) h"
    using B(6) e(4) by auto
  ultimately have step: "apply_rotations M (en_log A') (chain @ [h]) Y0 (en_keyring B) =
      (Y', keyring_record h (ro_epoch ro) (ro_key ro) (en_keyring B1), applied @ [h])"
    using Y0(2) Y'(1,2) e(2) by (simp add: apply_rotations_append apply_rotations_cong [OF old] Let_def)
  show "in_step M acts R i A' B"
    unfolding in_step_def
  proof (intro exI conjI)
    show "canonical_chain (en_log A') = Some (chain @ [h])"
      by (fact ext)
    show "apply_pending_rotations M (B\<lparr>en_log := en_log A'\<rparr>) =
        Some (B\<lparr>en_log := en_log A', en_group := Some Y', en_keyring :=
          keyring_record h (ro_epoch ro) (ro_key ro) (en_keyring B1)\<rparr>, applied @ [h])"
      by (simp add: apply_pending_rotations_def Y0(1) ext(1) step)
    show "\<forall>x. keyring_holds (en_keyring (B\<lparr>en_log := en_log A', en_group := Some Y', en_keyring :=
        keyring_record h (ro_epoch ro) (ro_key ro) (en_keyring B1)\<rparr>)) x \<longrightarrow> bm_get (gl_entries (en_log A')) x \<noteq> None"
      using B(6) assms(11) \<open>log_get (en_log A') h = Some e\<close>
      by (auto simp: keyring_holds_def keyring_record_def bm_contains_def log_get_def keeps_def)
  qed (use A' Y'(3,4) B(5) in \<open>auto simp: keyring_key_record keyring_holds_record keyring_current_record\<close>)
qed

lemma host_step_in_step:
  assumes "mls_follows M acts R" and "host_step C S ag W M i A A'" and "log_wf C (en_log A)" and "unrivalled (en_log A)"
    and "in_step M acts R i A B"
  shows "in_step M acts R i A' B \<and> log_wf C (en_log A') \<and> unrivalled (en_log A')"
proof -
  note step = rotation_in_step [OF assms(1,3-5)]
  obtain X where X: "en_group A = Some X"
    using assms(5) by (auto simp: in_step_def)
  show ?thesis
    using assms(2)
  proof cases
    case (answers request identity now m h)
    let ?N = "\<lambda>X'. A\<lparr>en_inbound := bm_remove request (en_inbound A), en_group := Some X'\<rparr>"
    obtain q channel X' ro where q: "bm_get (en_inbound A) request = Some (q, channel)"
        "(case leaf_index_for M X (kq_requester q) of
            Some index \<Rightarrow> replace_member M index (kq_key_package q) X
          | None \<Rightarrow> add_member M (kq_key_package q) X) = (X', Inr ro)"
        "append_rotation C identity now MemberAdmitted ro (?N X') = (A', Inr h)"
      using answers(1) X by (auto simp: answer_epoch_key_def Let_def split: option.splits prod.splits sum.splits)
    have "leaf_index_for M X (kq_requester q) \<noteq> Some i"
      using answers(3) [OF q(1)] X by (simp add: spares_def)
    then have "rotated M (leaf_index_for M X (kq_requester q)) X X' ro" "leaf_index_for M X (kq_requester q) \<noteq> Some i"
      using q(2) by (auto split: option.splits intro: session_rotations)
    then show ?thesis
      using step [OF X, where N = "?N X'"] answers(2) q(3) by simp
  next
    case (revokes revoked identity now res)
    show ?thesis
    proof (cases "A' = A")
      case False
      then obtain X' ro h index where p: "leaf_index_for M X revoked = Some index" "rotated M (Some index) X X' ro"
          "append_rotation C identity now MemberRevoked ro (A\<lparr>en_group := Some X'\<rparr>) = (A', Inr h)"
        using revokes(1) X
        by (auto simp: revoke_epoch_member_def Let_def res_bind_Inr_iff
            split: option.splits prod.splits sum.splits if_splits dest: session_rotations)
      moreover have "Some index \<noteq> Some i"
        using p(1) revokes(3) X by (auto simp: spares_def)
      ultimately show ?thesis
        using step [OF X, where N = "A\<lparr>en_group := Some X'\<rparr>"] revokes(2) by simp
    qed (use assms(3-5) in simp)
  next
    case (rotates identity now h)
    obtain X' ro where "rotated M None X X' ro"
        "append_rotation C identity now SelfInitiated ro (A\<lparr>en_group := Some X'\<rparr>) = (A', Inr h)"
      using rotates(1) X
      by (auto simp: rotate_epoch_def Let_def split: option.splits prod.splits sum.splits dest: session_rotations)
    then show ?thesis
      using step [OF X, where N = "A\<lparr>en_group := Some X'\<rparr>"] rotates(2) by simp
  next
    case (screens q peer channel r)
    then show ?thesis
      using assms(3-5) by (auto simp: receive_epoch_request_def in_step_def split: sum.splits)
  next
    case (declines request reason d)
    then show ?thesis
      using assms(3-5) by (auto simp: decline_epoch_key_def in_step_def split: option.splits prod.splits)
  qed
qed

text \<open>
  C13. Members that follow the log follow the keys: whatever sequence of admissions, replacements,
  removals and rekeyings a member performs, another member whose leaf is neither removed nor replaced by
  them, once it has that member's log and has applied the rotations it lacks, has its group in the same
  epoch, has the same current key, and every key it holds for the canonical chain is the one the other
  member has. The order of commits comes from the governance log alone. The conditions are that the two
  start in step, that no branch of the log the host starts from ties with its canonical chain, that
  no appended entry displaces another with its hash, and that MLS behaves as documented.
\<close>

theorem followers_agree:
  assumes "mls_follows M acts R" and "(log_step C)\<^sup>*\<^sup>* empty_log (en_log A)" and "unrivalled (en_log A)"
    and "in_step M acts R i A B" and "(host_step C S ag W M i)\<^sup>*\<^sup>* A A'"
  shows "\<exists>chain B' applied X Y. canonical_chain (en_log A') = Some chain
    \<and> apply_pending_rotations M (B\<lparr>en_log := en_log A'\<rparr>) = Some (B', applied)
    \<and> en_group A' = Some X \<and> en_group B' = Some Y \<and> R i (ss_group X) (ss_group Y)
    \<and> session_epoch M X = session_epoch M Y \<and> session_key M X = session_key M Y
    \<and> keyring_current (en_keyring B') = keyring_current (en_keyring A')
    \<and> (\<forall>h\<in>set chain. keyring_holds (en_keyring B') h \<longrightarrow>
          keyring_key (en_keyring B') h = keyring_key (en_keyring A') h)"
proof -
  from assms(5) have "in_step M acts R i A' B \<and> log_wf C (en_log A') \<and> unrivalled (en_log A')"
  proof (induction rule: rtranclp_induct)
    case base
    show ?case
      using reachable_wf [OF assms(2)] assms(3,4) by blast
  next
    case (step y z)
    then show ?case
      using host_step_in_step [OF assms(1)] by blast
  qed
  moreover have "session_key M X = session_key M Y" "session_epoch M X = session_epoch M Y"
    if "R i (ss_group X) (ss_group Y)" for X Y
    using that assms(1) by (simp_all add: mls_follows_def session_key_def session_epoch_def group_key_def)
  ultimately show ?thesis
    unfolding in_step_def by blast
qed

section \<open>Joining\<close>

text \<open>The welcome of a commit that adds the key package \<open>k\<close>.\<close>

inductive welcomes :: "('s, 'g, 'b, 'o) openmls \<Rightarrow> 's \<Rightarrow> 'g \<Rightarrow> bytes \<Rightarrow> 'o \<Rightarrow> 'g \<Rightarrow> bool" for M s where
  by_add: "om_add_members M s k g = (g1, Inr (c, w)) \<Longrightarrow> om_merge_pending M g1 = (g', Inr ()) \<Longrightarrow> welcomes M s g k w g'"
| by_replacement: "om_propose_remove M s i g = (g1, Inr ()) \<Longrightarrow> om_propose_add M s k g1 = (g2, Inr ()) \<Longrightarrow>
    om_commit_proposals M s g2 = (g3, Inr (c, Some w)) \<Longrightarrow> om_merge_pending M g3 = (g', Inr ()) \<Longrightarrow> welcomes M s g k w g'"

text \<open>
  A welcome opens for the bundle whose key package it was made for (RFC 9420, 12.4.3.1), and puts its
  holder into the epoch of the commit, at a leaf that has the credential of the package.
\<close>

definition mls_welcomes ::
  "('s, 'g, 'b, 'o) openmls \<Rightarrow> ('s \<Rightarrow> 'g \<Rightarrow> bool) \<Rightarrow> (u32 \<Rightarrow> 'g \<Rightarrow> 'g \<Rightarrow> bool) \<Rightarrow> bool" where
  "mls_welcomes M acts R \<longleftrightarrow>
     (\<forall>b kp k s g w g' wb. acts s g \<and> om_bundle_package M b = Inr kp \<and> read_key_package M kp = Inr k
        \<and> welcomes M s g k w g' \<and> om_serialize M w = Inr wb \<longrightarrow>
          (\<exists>x staged h i. om_parse M wb = Inr (WelcomeIn x) \<and> om_stage_welcome M b x = Inr staged
             \<and> om_into_group M b staged = Inr h \<and> R i g' h \<and> (om_leaf_credential M k, i) \<in> set (om_members M g')))"

lemma keyed_in:
  assumes "mls_welcomes M acts R" and "mls_follows M acts R" and "om_bundle_package M (pm_bundle P) = Inr kp"
    and "read_key_package M kp = Inr k" and "acts (ss_signer X) (ss_group X)"
    and "add_member M kp X = (X', Inr ro) \<or> replace_member M i kp X = (X', Inr ro)"
  shows "\<exists>wel Y j. ro_welcome ro = Some wel \<and> session_join M wel P = Inr Y \<and> session_key M Y = Inr (ro_key ro)
    \<and> session_epoch M Y = ro_epoch ro \<and> R j (ss_group X') (ss_group Y)
    \<and> (om_leaf_credential M k, j) \<in> set (om_members M (ss_group X'))"
proof -
  obtain w wel where w: "welcomes M (ss_signer X) (ss_group X) k w (ss_group X')" "om_serialize M w = Inr wel"
      "ro_welcome ro = Some wel"
  proof -
    have "\<exists>w. welcomes M (ss_signer X) (ss_group X) k w (ss_group X') \<and> (\<exists>b. ro_welcome ro = Some b \<and> om_serialize M w = Inr b)"
      using assms(4,6)
      by (auto simp: add_member_def replace_member_def stage_replacement_def session_Inr rotation_of_Inr
          split: option.splits; meson welcomes.intros)
    then show ?thesis
      using that by blast
  qed
  then obtain x staged h j where h: "om_parse M wel = Inr (WelcomeIn x)" "om_stage_welcome M (pm_bundle P) x = Inr staged"
      "om_into_group M (pm_bundle P) staged = Inr h" "R j (ss_group X') h"
      "(om_leaf_credential M k, j) \<in> set (om_members M (ss_group X'))"
    using assms(1,3-5) unfolding mls_welcomes_def by metis
  have "\<exists>gone. rotated M gone X X' ro"
    using assms(6) session_rotations by blast
  moreover have "om_epoch M (ss_group X') = om_epoch M h" "om_export M (ss_group X') = om_export M h"
    using assms(2) h(4) unfolding mls_follows_def by blast+
  ultimately have "group_key M h = Inr (ro_key ro)" "om_epoch M h = ro_epoch ro"
    by (auto simp: rotated_def group_key_def)
  then show ?thesis
    using w h by (auto simp: session_join_def session_key_def session_epoch_def)
qed

lemma record_keeps_ok: "keyring_ok K \<Longrightarrow> keyring_ok (keyring_record h n k K)"
  by (auto simp: keyring_ok_def keyring_record_def split: if_splits)

lemma answered:
  assumes "answer_epoch_key C S ag M request host now H1 = (H2, Some (channel, m), Inr h)"
    and "bm_get (en_inbound H1) request = Some (q, chan)"
  obtains X X' ro wel history where "en_group H1 = Some X" "en_group H2 = Some X'"
    "add_member M (kq_key_package q) X = (X', Inr ro)
      \<or> (\<exists>i. replace_member M i (kq_key_package q) X = (X', Inr ro))"
    "ro_welcome ro = Some wel" "m = KeyWelcome wel h history"
    "en_keyring H2 = keyring_record h (ro_epoch ro) (ro_key ro) (en_keyring H1)"
    "answer_history C S ag (en_log H2) (en_keyring H2) host (kq_requester q) h = Inr history"
proof -
  let ?N = "\<lambda>X'. H1\<lparr>en_inbound := bm_remove request (en_inbound H1), en_group := Some X'\<rparr>"
  obtain X where X: "en_group H1 = Some X"
    using assms by (auto simp: answer_epoch_key_def Let_def split: option.splits)
  obtain X' ro wel history where p:
      "add_member M (kq_key_package q) X = (X', Inr ro) \<or> (\<exists>i. replace_member M i (kq_key_package q) X = (X', Inr ro))"
      "ro_welcome ro = Some wel" "append_rotation C host now MemberAdmitted ro (?N X') = (H2, Inr h)"
      "answer_history C S ag (en_log H2) (en_keyring H2) host (kq_requester q) h = Inr history"
      "m = KeyWelcome wel h history"
    using assms X
    by (auto simp: answer_epoch_key_def Let_def split: option.splits prod.splits sum.splits; blast)
  have "en_group H2 = Some X'" "en_keyring H2 = keyring_record h (ro_epoch ro) (ro_key ro) (en_keyring H1)"
    using p(3) by (auto simp: append_rotation_def Let_def split: sum.splits prod.splits)
  then show ?thesis
    using that [OF X _ p(1,2,5) _ p(4)] by blast
qed

text \<open>The answer to a newcomer, as it is recorded there.\<close>

lemma answer_absorbed:
  assumes "keyring_ok K" and "aead_correct S" and "agree_symmetric C ag" and "keyring_key K h = Some key"
    and "answer_history C S ag L K host (pni_id C joiner) h = Inr history"
  shows "\<exists>K'. absorb_welcome C S ag joiner (pni_id C host) h history epoch key keyring_new = Inr K'
    \<and> keyring_current K' = Some (h, key)
    \<and> (\<forall>st. node_state C L = Some st \<and> history_access (gs_policy st) = FullHistory \<longrightarrow>
         (\<forall>r. keyring_key K' r = keyring_key K r))"
proof (cases "\<exists>st. node_state C L = Some st \<and> history_access (gs_policy st) = FullHistory")
  case True
  then have "seal_history C S ag host (pni_id C joiner)
      (filter (\<lambda>p. fst p \<noteq> h) (keys_for_new_member K FullHistory)) = Inr history"
    using assms(5) by (auto simp: answer_history_def)
  from history_absorbed [OF assms(1-4) this] show ?thesis
    by blast
next
  case False
  then have "history = []"
    using assms(5) by (auto simp: answer_history_def split: option.splits history_access.splits)
  then show ?thesis
    using False by (auto simp: absorb_welcome_def keyring_current_record)
qed

text \<open>The request and the response of key delivery, as the far end reads them.\<close>

definition carry_epoch_request :: "crypto \<Rightarrow> epoch_key_request \<Rightarrow> epoch_wire_error + epoch_key_request" where
  "carry_epoch_request C = carry default_max_message_bytes encode_epoch_request (decode_epoch_request C)"

definition carry_epoch_response :: "epoch_key_response \<Rightarrow> epoch_wire_error + epoch_key_response" where
  "carry_epoch_response = carry max_epoch_message_bytes encode_epoch_response decode_epoch_response"

lemma key_request_arrives:
  assumes "sign_correct C" and "length kp \<le> max_key_package_bytes"
  shows "carry_epoch_request C (kq_create C me kp) = Inr (kq_create C me kp)"
  unfolding carry_epoch_request_def
  by (rule epoch_request_wire.arrives)
    (use assms in \<open>simp_all add: epoch_request_ok_def kq_verify_def kq_create_def pni_id_def pni_sign_def sign_verifies
      encode_epoch_request_def put_epoch_request_def epoch_request_domain_def default_max_message_bytes_def
      max_key_package_bytes_def sign_correct_def vk_verify_def\<close>)

lemma welcome_arrives:
  assumes "length wel \<le> max_welcome_bytes" and "length history \<le> max_history_keys"
    and "\<forall>k\<in>set history. length (sk_sealed k) = 72"
  shows "carry_epoch_response (KeyWelcome wel h history) = Inr (KeyWelcome wel h history)"
  unfolding carry_epoch_response_def
proof (rule epoch_response_wire.arrives)
  have "length (concat (map put_sealed_key history)) = length history * 112"
    using assms(3) by (induction history) (simp_all add: put_sealed_key_def)
  then show "length (encode_epoch_response (KeyWelcome wel h history)) \<le> max_epoch_message_bytes"
    using assms(1,2) by (simp add: encode_epoch_response_def epoch_response_domain_def put_seq_def
        max_epoch_message_bytes_def max_welcome_bytes_def max_history_keys_def)
qed (use assms in \<open>simp add: list_all_iff len_ok_def\<close>)

lemma history_size:
  assumes "keyring_ok K" and "aead_correct S" and "agree_symmetric C ag" and "length (kr_order K) \<le> max_history_keys"
    and "answer_history C S ag L K host (pni_id C joiner) h = Inr history"
  shows "length history \<le> max_history_keys" and "\<forall>k\<in>set history. length (sk_sealed k) = 72"
proof -
  let ?keys = "filter (\<lambda>p. fst p \<noteq> h) (keys_for_new_member K FullHistory)"
  have "history = [] \<or> seal_history C S ag host (pni_id C joiner) ?keys = Inr history"
    using assms(5) by (auto simp: answer_history_def split: option.splits history_access.splits)
  moreover have "length history = length ?keys \<and> (\<forall>k\<in>set history. length (sk_sealed k) = 72)"
    if sealed: "seal_history C S ag host (pni_id C joiner) ?keys = Inr history"
  proof -
    obtain secret where "ag (pni_secret host) (pni_id C joiner) = Some secret"
      using sealed by (auto simp: seal_history_def split: option.splits)
    then show ?thesis
      using open_seal_history [OF assms(2,3), of host joiner secret ?keys] sealed by auto
  qed
  moreover have "length ?keys \<le> max_history_keys"
    using le_trans [OF length_filter_le assms(4) [folded keys_in_order(3) [OF assms(1)]]] by simp
  ultimately show "length history \<le> max_history_keys" "\<forall>k\<in>set history. length (sk_sealed k) = 72"
    by auto
qed

text \<open>
  C14. A join is completed: when a member has received the request of a node that keeps the key package
  it sent, lets it pass its screening and answers it successfully, then the node is keyed in by the
  answer. Request and answer arrive as they were sent, through encoding, frame limit and decoding. The
  group of the node is in the epoch of the group of the member, at a leaf with its credential, both
  have the same current key under the entry that admitted it, and where the network grants full
  history the newcomer has every key the member has. The conditions are the ceilings of the decoder:
  the key package has at most 64 KiB, the welcome at most 4 MiB, and the member holds at most 1024
  keys; and that the cipher, the key agreement, signatures and MLS behave as documented.
\<close>

theorem joiner_keyed:
  assumes "mls_follows M acts R" and "mls_welcomes M acts R" and "aead_correct S" and "agree_symmetric C ag"
    and "sign_correct C" and "keyring_ok (en_keyring H)" and "en_keyring J = keyring_new"
    and "\<forall>X. en_group H = Some X \<longrightarrow> acts (ss_signer X) (ss_group X)"
    and "request_epoch_key C W M seed (pni_id C host) (en_identity J) J = (J1, Inr (rid, to, q))"
    and "length (kq_key_package q) \<le> max_key_package_bytes"
    and "receive_epoch_request C W M q from_peer channel H = (H1, Inr (EpochKeyRequested peer x request))"
    and "answer_epoch_key C S ag M request host now H1 = (H2, Some (channel, m), Inr h)"
    and "\<forall>wel r history. m = KeyWelcome wel r history \<longrightarrow> length wel \<le> max_welcome_bytes"
    and "length (kr_order (en_keyring H2)) \<le> max_history_keys"
  shows "carry_epoch_request C q = Inr q \<and> carry_epoch_response m = Inr m
    \<and> (\<exists>J2 n X Y i key. receive_epoch_response C S ag M to rid m J1 = (J2, Some (EpochKeyDelivered to h n))
      \<and> en_group H2 = Some X \<and> en_group J2 = Some Y
      \<and> R i (ss_group X) (ss_group Y) \<and> (identity_label (pni_id C (en_identity J)), i) \<in> set (om_members M (ss_group X))
      \<and> keyring_current (en_keyring J2) = Some (h, key) \<and> keyring_current (en_keyring H2) = Some (h, key)
      \<and> (\<forall>st. node_state C (en_log H2) = Some st \<and> history_access (gs_policy st) = FullHistory \<longrightarrow>
           (\<forall>r. keyring_key (en_keyring J2) r = keyring_key (en_keyring H2) r)))"
proof -
  obtain P kp where P: "en_pending J1 = Some P" "om_bundle_package M (pm_bundle P) = Inr kp"
      "q = kq_create C (en_identity J) kp" "bm_get (en_requests J1) rid = Some (pni_id C host)"
      "en_keyring J1 = keyring_new" "en_identity J1 = en_identity J"
    using assms(7,9)
    by (auto simp: request_epoch_key_def send_epoch_request_def pending_key_package_def Let_def split: sum.splits option.splits)
  have q: "kq_key_package q = kp" "kq_requester q = pni_id C (en_identity J)"
    by (simp_all add: P(3) kq_create_def)
  have asked: "carry_epoch_request C q = Inr q"
    using key_request_arrives [OF assms(5)] assms(10) q(1) P(3) by simp
  have H1: "screen_epoch_request C W M H q from_peer = Inr ()" "bm_get (en_inbound H1) request = Some (q, channel)"
      "en_keyring H1 = en_keyring H" "en_group H1 = en_group H"
    using assms(11) by (auto simp: receive_epoch_request_def split: sum.splits)
  then obtain k where k: "read_key_package M kp = Inr k" "om_leaf_credential M k = identity_label (pni_id C (en_identity J))"
    by (auto simp: screen_epoch_request_def key_package_identity_def res_bind_Inr_iff q
        split: if_splits option.splits sum.splits)
  obtain X X' ro wel history where a: "en_group H1 = Some X" "en_group H2 = Some X'"
      "add_member M kp X = (X', Inr ro) \<or> (\<exists>i. replace_member M i kp X = (X', Inr ro))"
      "ro_welcome ro = Some wel" "m = KeyWelcome wel h history"
      "en_keyring H2 = keyring_record h (ro_epoch ro) (ro_key ro) (en_keyring H)"
      "answer_history C S ag (en_log H2) (en_keyring H2) host (pni_id C (en_identity J)) h = Inr history"
    using answered [OF assms(12) H1(2)] H1(3) q by metis
  have "acts (ss_signer X) (ss_group X)"
    using assms(8) a(1) H1(4) by simp
  then obtain Y i where Y: "session_join M wel P = Inr Y" "session_key M Y = Inr (ro_key ro)" "session_epoch M Y = ro_epoch ro"
      "R i (ss_group X') (ss_group Y)" "(identity_label (pni_id C (en_identity J)), i) \<in> set (om_members M (ss_group X'))"
    using keyed_in [OF assms(2,1) P(2) k(1), of X X' ro] a(3,4) k(2) by fastforce
  have ok: "keyring_ok (en_keyring H2)" "keyring_key (en_keyring H2) h = Some (ro_key ro)"
      "keyring_current (en_keyring H2) = Some (h, ro_key ro)"
    using assms(6) by (simp_all add: a(6) record_keeps_ok keyring_key_record keyring_current_record)
  have sent: "carry_epoch_response m = Inr m"
    unfolding a(5)
    by (rule welcome_arrives) (use assms(13) a(5) history_size [OF ok(1) assms(3,4,14) a(7)] in auto)
  obtain K where K: "absorb_welcome C S ag (en_identity J) (pni_id C host) h history (ro_epoch ro) (ro_key ro) keyring_new = Inr K"
      "keyring_current K = Some (h, ro_key ro)"
      "\<forall>st. node_state C (en_log H2) = Some st \<and> history_access (gs_policy st) = FullHistory \<longrightarrow>
         (\<forall>r. keyring_key K r = keyring_key (en_keyring H2) r)"
    using answer_absorbed [OF ok(1) assms(3,4) ok(2) a(7)] by blast
  have "receive_epoch_response C S ag M to rid m J1 =
      (J1\<lparr>en_requests := bm_remove rid (en_requests J1), en_pending := None, en_keyring := K, en_group := Some Y\<rparr>,
       Some (EpochKeyDelivered to h (length history)))"
    using P(1,4,5,6) Y(1-3) K(1) a(5) by (simp add: receive_epoch_response_def accept_welcome_def Let_def)
  then show ?thesis
    using asked sent a(2) Y(4,5) K(2,3) ok(3) by auto
qed

section \<open>Answering without the capability\<close>

text \<open>
  C39. Answering a request for a key appends a rotation that only a holder of \<open>approve-node\<close> may record, and
  nothing checks that the node may. Whenever a node answers a pending request under an identity
  without the capability, and the group operation succeeds with a welcome, the answer succeeds: the
  node reports the rotation, sends the welcome, and is left with a log that does not replay, on which
  it can screen no further request. The conditions are that its log replayed before, and that the hash of
  the rotation entry is new to it.
\<close>

theorem unauthorized_answer_blinds:
  assumes "sign_correct C" and "(log_step C)\<^sup>*\<^sup>* empty_log (en_log H)" and "node_state C (en_log H) = Some st"
    and "\<not> identity_holds st (pni_id C host) ApproveNode"
    and "bm_get (en_inbound H) request = Some (q, channel)" and "en_group H = Some X"
    and "(case leaf_index_for M X (kq_requester q) of
            Some index \<Rightarrow> replace_member M index (kq_key_package q) X
          | None \<Rightarrow> add_member M (kq_key_package q) X) = (X', Inr ro)"
    and "ro_welcome ro = Some wel"
    and "h = entry_hash C (entry_create C host (log_tip (en_log H)) now (EpochRotation MemberAdmitted (ro_commit ro)))"
    and "bm_get (gl_entries (en_log H)) h = None" and "length (gl_entries (en_log H)) + 1 < 2 ^ 32"
  shows "\<exists>H2. answer_epoch_key C S ag M request host now H = (H2, Some (channel, KeyWelcome wel h []), Inr h)
    \<and> node_state C (en_log H2) = None
    \<and> (\<forall>W p. screen_epoch_request C W M H2 p (sw_peer_id W (kq_requester p)) = Inl KeyCannotEvaluate)"
proof -
  let ?e = "entry_create C host (log_tip (en_log H)) now (EpochRotation MemberAdmitted (ro_commit ro))"
  let ?N = "H\<lparr>en_inbound := bm_remove request (en_inbound H), en_group := Some X'\<rparr>"
  have wf: "log_wf C (en_log H)"
    by (rule reachable_wf [OF assms(2)])
  obtain chain where chain: "canonical_chain (en_log H) = Some chain" "chain \<noteq> []" "log_tip (en_log H) = Some (last chain)"
      "bm_get (gl_entries (en_log H)) (last chain) \<noteq> None"
    by (rule tip_parent [OF wf assms(3)])
  have e: "le_parent ?e = Some (last chain)" "le_body ?e = EpochRotation MemberAdmitted (ro_commit ro)"
      "le_author ?e = pni_id C host" "is_capability_gated ?e"
    by (simp_all add: entry_create_def chain(3) is_capability_gated_def)
  obtain L' where L': "log_insert C (en_log H) ?e = Inr (h, L')"
    using entry_create_verifies [OF assms(1)] chain(4) e(1) by (auto simp: log_insert_Inr assms(9))
  have "keeps (en_log H) L'"
    using log_insert_new_parts(1) [OF L' assms(10)] assms(10,11) length_bm_insert [of h ?e "gl_entries (en_log H)"]
    by (auto simp: keeps_def)
  note after = tip_state(2) [OF wf chain(1,2) L' e(1) disjI1 [OF e(4)] this assms(3)]
  have "apply_entry C st ?e \<noteq> Inr st'" for st'
    using authorize_required [of C st ?e] assms(4) e(2,3)
    by (auto simp: apply_entry_Inr required_capability_def)
  then have blind: "node_state C L' = None"
    using after by (auto split: sum.splits)
  let ?H2 = "?N\<lparr>en_log := L', en_keyring := keyring_record h (ro_epoch ro) (ro_key ro) (en_keyring H)\<rparr>"
  have "append_rotation C host now MemberAdmitted ro ?N = (?H2, Inr h)"
    using L' by (simp add: append_rotation_def)
  moreover have "answer_history C S ag L' K host (kq_requester q) h = Inr []" for K
    by (simp add: answer_history_def blind)
  ultimately have "answer_epoch_key C S ag M request host now H = (?H2, Some (channel, KeyWelcome wel h []), Inr h)"
    using assms(5-8) by (simp add: answer_epoch_key_def Let_def)
  then show ?thesis
    using blind by (intro exI [of _ ?H2]) (simp add: screen_epoch_request_def)
qed

section \<open>Restarting\<close>

text \<open>
  What is stored of a group loads again: the signature key is found under its public half, and the
  group that is loaded has the epoch, the members and the secrets of the one that was stored. Only its
  random generator starts afresh.
\<close>

definition mls_stores :: "('s, 'g, 'b, 'o) openmls \<Rightarrow> bool" where
  "mls_stores M \<longleftrightarrow>
     (\<forall>s g values. om_store_signer M s g = Inr values \<longrightarrow>
        om_read_signer M (sort_key fst values) (om_public M s) = Some s
        \<and> (\<forall>seed. \<exists>g'. om_load M seed (sort_key fst values) (om_group_id M g) = Inr (Some g')
             \<and> om_epoch M g' = om_epoch M g \<and> om_export M g' = om_export M g \<and> om_members M g' = om_members M g))"

text \<open>
  C20. A restart keeps the group: what a node saves restores to a session with the same signature key,
  label, epoch, members and key, and the restored key is recorded, current, under the rotation the
  caller names. The lengths of what is stored must fit the 64-bit length fields of the format.
\<close>

theorem group_survives_restart:
  assumes "mls_stores M" and "en_group N = Some X" and "session_key M X = Inr key"
    and "save_epoch_group M N = Inr (Some saved)" and "om_store_signer M (ss_signer X) (ss_group X) = Inr values"
    and "ss_credential X = (label, om_public M (ss_signer X))"
    and "len_ok (om_group_id M (ss_group X))" and "len_ok label" and "len_ok (om_public M (ss_signer X))"
    and "len_ok values" and "\<forall>p\<in>set values. len_ok (fst p) \<and> len_ok (snd p)"
  shows "\<exists>N' Y. restore_epoch_group M seed saved rotation_ref N0 = (N', Inr key) \<and> en_group N' = Some Y
    \<and> ss_signer Y = ss_signer X \<and> ss_credential Y = ss_credential X \<and> session_epoch M Y = session_epoch M X
    \<and> (\<forall>i. leaf_index_for M Y i = leaf_index_for M X i) \<and> session_key M Y = Inr key
    \<and> keyring_current (en_keyring N') = Some (rotation_ref, key)"
proof -
  let ?parts = "(om_group_id M (ss_group X), label, om_public M (ss_signer X), sort_key fst values)"
  have saved: "saved = enc_domain session_domain @ put_session ?parts"
    using assms(2,4,5,6) by (simp add: save_epoch_group_def session_save_def session_label_def)
  have "parts_ok ?parts"
    using assms(7-11) by (simp add: seq_ok_def len_ok_def list_all_iff)
  then have parts: "decode_session saved = Inr ?parts"
    unfolding saved by (rule decode_session_put)
  obtain g' where g': "om_load M seed (sort_key fst values) (om_group_id M (ss_group X)) = Inr (Some g')"
      "om_epoch M g' = om_epoch M (ss_group X)" "om_export M g' = om_export M (ss_group X)"
      "om_members M g' = om_members M (ss_group X)" "om_read_signer M (sort_key fst values) (om_public M (ss_signer X)) = Some (ss_signer X)"
    using assms(1,5) unfolding mls_stores_def by blast
  let ?Y = "\<lparr>ss_signer = ss_signer X, ss_credential = ss_credential X, ss_group = g'\<rparr>"
  have "session_restore M seed saved = Inr ?Y"
    using g'(1,5) assms(6) by (simp add: session_restore_def parts)
  moreover have "session_key M ?Y = Inr key" "session_epoch M ?Y = session_epoch M X"
      "leaf_index_for M ?Y i = leaf_index_for M X i" for i
    using assms(3) g'(2-4) by (simp_all add: session_key_def group_key_def session_epoch_def leaf_index_for_def)
  ultimately show ?thesis
    by (simp add: restore_epoch_group_def keyring_current_record)
qed

section \<open>A small group\<close>

text \<open>
  A stand-in for the crate in which the state of a group is its epoch: a commit and a welcome carry the
  epoch they open, and the secret of an epoch is its number. The other member is always identity 2, at
  the leaf with index 1, and every key package is its.
\<close>

definition toy_parse :: "bytes \<Rightarrow> string + mls_body" where
  "toy_parse b =
     (case b of
        [] \<Rightarrow> Inl ''empty''
      | t # x \<Rightarrow> Inr (if t = 0 then OtherIn x else if t = 1 then WelcomeIn x else KeyPackageIn x))"

definition toy :: "(unit, u64, bytes, bool \<times> u64) openmls" where
  "toy = \<lparr>
     om_keypair = \<lambda>_. Inr (), om_public = \<lambda>_. [], om_group_new = \<lambda>_ _ _. Inr 0,
     om_bundle_new = \<lambda>_ _ c. Inr (fst c), om_bundle_package = \<lambda>_. Inr (2 # identity_label 2),
     om_export = \<lambda>g _ _ _. Inr (put_fixed32 (ucast g)), om_epoch = \<lambda>g. g,
     om_members = \<lambda>_. [(identity_label 2, 1)], om_parse = toy_parse, om_validate = Inr,
     om_leaf_credential = \<lambda>k. k,
     om_add_members = \<lambda>_ _ g. (g, Inr ((False, g + 1), (True, g + 1))),
     om_remove_members = \<lambda>_ _ g. (g, Inr ((False, g + 1), None)),
     om_propose_remove = \<lambda>_ _ g. (g, Inr ()), om_propose_add = \<lambda>_ _ g. (g, Inr ()), om_clear_proposals = \<lambda>g. g,
     om_commit_proposals = \<lambda>_ g. (g, Inr ((False, g + 1), Some (True, g + 1))),
     om_self_update = \<lambda>_ g. (g, Inr (False, g + 1)), om_merge_pending = \<lambda>g. (g + 1, Inr ()),
     om_serialize = \<lambda>(w, n). Inr ((if w then 1 else 0) # put_u64 n),
     om_protocol = \<lambda>m. case m of OtherIn x \<Rightarrow> Inr x | _ \<Rightarrow> Inl ''not a protocol message'',
     om_process = \<lambda>p g. (g, Inr (Some (False, of_nat (be_val p)))),
     om_merge_staged = \<lambda>m g. (snd m, Inr ()), om_stage_welcome = \<lambda>_ x. Inr (True, of_nat (be_val x)),
     om_into_group = \<lambda>_ m. Inr (snd m), om_group_id = \<lambda>_. [], om_store_signer = \<lambda>_ g. Inr [([], put_u64 g)],
     om_read_signer = \<lambda>_ _. Some (), om_load = \<lambda>_ m _. Inr (map_option (\<lambda>b. of_nat (be_val b)) (map_of m []))\<rparr>"

lemma toy_simps [simp]:
  "om_keypair toy n = Inr ()" "om_public toy u = []" "om_group_new toy n u c = Inr 0"
  "om_bundle_new toy n u c = Inr (fst c)" "om_bundle_package toy b = Inr (2 # identity_label 2)"
  "om_export toy g = (\<lambda>_ _ _. Inr (put_fixed32 (ucast g)))" "om_epoch toy g = g"
  "om_members toy g = [(identity_label 2, 1)]" "om_parse toy = toy_parse" "om_validate toy k = Inr k"
  "om_leaf_credential toy k = k" "om_add_members toy u k g = (g, Inr ((False, g + 1), (True, g + 1)))"
  "om_remove_members toy u i g = (g, Inr ((False, g + 1), None))" "om_propose_remove toy u i g = (g, Inr ())"
  "om_propose_add toy u k g = (g, Inr ())" "om_commit_proposals toy u g = (g, Inr ((False, g + 1), Some (True, g + 1)))"
  "om_self_update toy u g = (g, Inr (False, g + 1))" "om_merge_pending toy g = (g + 1, Inr ())"
  "om_serialize toy (w, v) = Inr ((if w then 1 else 0) # put_u64 v)"
  "om_protocol toy (OtherIn x) = Inr x" "om_process toy p g = (g, Inr (Some (False, of_nat (be_val p))))"
  "om_merge_staged toy m g = (snd m, Inr ())" "om_stage_welcome toy b x = Inr (True, of_nat (be_val x))"
  "om_into_group toy b m = Inr (snd m)" "om_group_id toy g = []" "om_store_signer toy u g = Inr [([], put_u64 g)]"
  "om_read_signer toy es b = Some ()" "om_load toy n es b = Inr (map_option (\<lambda>b. of_nat (be_val b)) (map_of es []))"
  by (simp_all add: toy_def)

lemma toy_parses [simp]:
  "toy_parse (0 # x) = Inr (OtherIn x)" "toy_parse (1 # x) = Inr (WelcomeIn x)" "toy_parse (2 # x) = Inr (KeyPackageIn x)"
  by (simp_all add: toy_parse_def)

lemma toy_number [simp]: "of_nat (be_val (put_u64 n)) = n"
  by (simp add: put_u64_def be_word)

lemma toy_laws: "mls_follows toy (\<lambda>_ _. True) (\<lambda>_ g h. g = h)" "mls_welcomes toy (\<lambda>_ _. True) (\<lambda>_ g h. g = h)"
proof -
  have "c = (False, g + 1) \<and> g' = g + 1" if "commits toy u g c w gone g'" for u g c w gone g'
    using that by cases auto
  then show "mls_follows toy (\<lambda>_ _. True) (\<lambda>_ g h. g = h)"
    by (fastforce simp: mls_follows_def)
  have "w = (True, g + 1) \<and> g' = g + 1" if "welcomes toy u g k w g'" for u g k w g'
    using that by cases auto
  then show "mls_welcomes toy (\<lambda>_ _. True) (\<lambda>_ g h. g = h)"
    by (fastforce simp: mls_welcomes_def read_key_package_def)
qed

section \<open>A network of two\<close>

definition club_add :: log_entry where
  "club_add = entry_create demo (who 1) (Some 357) 10 (MembershipChange everyone_id 2 (Add None))"

lemma club_hash: "entry_hash demo club_add = 273"
  by (simp add: club_add_def demo_entry_hash everyone_id_def)

definition club_log :: governance_log where
  "club_log = \<lparr>gl_entries = [(273, club_add), (357, archive_root)], gl_children = [(357, [273])],
     gl_root = Some 357, gl_finalized = None\<rparr>"

lemma club_fields:
  "le_parent club_add = Some 357" "entry_verify_signature demo club_add = Inr ()" "is_capability_gated club_add"
  by (simp_all add: club_add_def is_capability_gated_def)

lemma club_steps: "(log_step demo)\<^sup>*\<^sup>* empty_log club_log"
proof -
  have "log_insert demo archive_log club_add = Inr (273, club_log)"
    by (simp add: archive_log_def club_log_def log_insert_def club_fields club_hash bm_contains_def add_child_def Let_def)
  then have "log_step demo archive_log club_log"
    by (auto intro!: log_step.inserts simp: no_clash_def archive_log_def club_hash)
  with archive_steps show ?thesis
    by (rule rtranclp.rtrancl_into_rtrancl)
qed

lemma club_chain: "canonical_chain club_log = Some [357, 273]"
  by (simp add: club_log_def canonical_chain_def ancestry_def log_fuel_def best_branch_below_def pick_def
      parent_of_def archive_facts club_fields better_def branch_candidate_def gated_at_def)

lemma club_state:
  obtains st where "node_state demo club_log = Some st" "history_access (gs_policy st) = FullHistory"
    "identity_holds st 2 ReadContent" "\<And>c. identity_holds st 1 c" "\<not> identity_holds st 2 ApproveNode"
proof -
  obtain st where st: "replay demo [archive_root, club_add] = Inr st" "history_access (gs_policy st) = FullHistory"
      "identity_holds st 2 ReadContent" "\<And>c. identity_holds st 1 c" "\<not> identity_holds st 2 ApproveNode"
    by (simp add: archive_root_def club_add_def sample_defs)
  then have "node_state demo club_log = Some st"
    by (simp add: node_state_def replay_canonical_def club_chain) (simp add: club_log_def)
  then show ?thesis
    using that st by blast
qed

lemma club_unrivalled: "unrivalled club_log"
proof -
  have kids: "kids club_log 357 = [273]" "kids club_log 273 = []"
    by (simp_all add: kids_def club_log_def)
  have "q = [273]" if "down club_log 357 q" for q
    using that kids by (cases q; cases "tl q") (auto elim!: down_ConsE down_NilE)
  moreover have "best_branch_below club_log 357 = Some [273]" "gl_root club_log = Some 357" "log_start club_log 357 = 357"
    by (simp_all add: club_log_def log_fuel_def best_branch_below_def pick_def log_start_def
        parent_of_def archive_facts club_fields better_def branch_candidate_def gated_at_def)
  ultimately show ?thesis
    by (auto simp: unrivalled_def)
qed

definition club_swarm :: "b32 swarm" where
  "club_swarm = \<lparr>sw_peer_id = \<lambda>i. i, sw_from_peer_id = Some, sw_request_id = \<lambda>n. n, sw_query_id = \<lambda>n. n\<rparr>"

definition club_node :: "b32 \<Rightarrow> (unit, u64) group_session option \<Rightarrow> epoch_keyring \<Rightarrow> (unit, u64, bytes) epoch_node" where
  "club_node k X K = \<lparr>en_log = club_log, en_identity = who k, en_group = X, en_keyring = K, en_pending = None,
     en_requests = [], en_inbound = [], en_next = 0, en_sent = 0\<rparr>"

definition club_session :: "b32 \<Rightarrow> u64 \<Rightarrow> (unit, u64) group_session" where
  "club_session k g = \<lparr>ss_signer = (), ss_credential = (identity_label k, []), ss_group = g\<rparr>"

definition club_keys :: epoch_keyring where
  "club_keys = keyring_record 357 0 0 keyring_new"

definition club_host :: "(unit, u64, bytes) epoch_node" where
  "club_host = club_node 1 (Some (club_session 1 0)) club_keys"

definition club_rotation :: "b32 \<Rightarrow> rotation_reason \<Rightarrow> log_entry" where
  "club_rotation k reason = entry_create demo (who k) (Some 273) 50 (EpochRotation reason (0 # put_u64 1))"

lemma club_rotation_hash: "entry_hash demo (club_rotation k reason) = 241"
  by (cases reason) (simp_all add: club_rotation_def demo_entry_hash)

lemma toy_key [simp]: "group_key toy g = Inr (ucast g)"
  by (simp add: group_key_def put_fixed32_def be_word)

definition club_made :: "bytes option \<Rightarrow> rotation" where
  "club_made w = \<lparr>ro_commit = 0 # put_u64 1, ro_welcome = w, ro_key = 1, ro_epoch = 1\<rparr>"

lemma club_made_welcome [simp]: "ro_welcome (club_made w) = w"
  by (simp add: club_made_def)

lemma toy_rotations:
  "replace_member toy i (2 # b) (club_session k 0) = (club_session k 1, Inr (club_made (Some (1 # put_u64 1))))"
  "session_rotate toy (club_session k 0) = (club_session k 1, Inr (club_made None))"
  by (simp_all add: replace_member_def session_rotate_def stage_replacement_def read_key_package_def on_group_def
      and_then_def mls_call_def or_clear_def outcome_def rotation_of_def mls_encode_def club_session_def club_made_def)

definition club_grown :: "b32 \<Rightarrow> rotation_reason \<Rightarrow> governance_log" where
  "club_grown k reason =
     \<lparr>gl_entries = [(241, club_rotation k reason), (273, club_add), (357, archive_root)],
      gl_children = [(273, [241]), (357, [273])], gl_root = Some 357, gl_finalized = None\<rparr>"

lemma club_append:
  assumes "en_log N = club_log"
  shows "append_rotation demo (who k) 50 reason (club_made w) N =
    (N\<lparr>en_log := club_grown k reason, en_keyring := keyring_record 241 1 1 (en_keyring N)\<rparr>, Inr 241)"
proof -
  have "le_parent (club_rotation k reason) = Some 273" "entry_verify_signature demo (club_rotation k reason) = Inr ()"
    by (simp_all add: club_rotation_def)
  then have "log_insert demo club_log (club_rotation k reason) = Inr (241, club_grown k reason)"
    by (simp add: club_log_def club_grown_def log_insert_def club_rotation_hash bm_contains_def add_child_def Let_def)
  then show ?thesis
    by (simp add: append_rotation_def assms log_tip_def club_chain club_made_def club_rotation_def)
qed

lemma club_keeps: "keeps club_log (club_grown k reason)"
  by (simp add: keeps_def club_log_def club_grown_def)

definition club_request :: epoch_key_request where
  "club_request = kq_create demo (who 2) (2 # identity_label 2)"

definition club_asked :: "(unit, u64, bytes) epoch_node" where
  "club_asked = club_host\<lparr>en_inbound := [(0, (club_request, 5))], en_next := 1\<rparr>"

lemma club_fields_of [simp]:
  "en_log club_asked = club_log" "en_group club_asked = Some (club_session 1 0)" "en_keyring club_asked = club_keys"
  "bm_get (en_inbound club_asked) 0 = Some (club_request, 5)"
  "en_log club_host = club_log" "en_group club_host = Some (club_session 1 0)" "en_keyring club_host = club_keys"
  "kq_requester club_request = 2" "kq_key_package club_request = 2 # identity_label 2"
  "leaf_index_for toy X 2 = Some 1"
  by (simp_all add: club_asked_def club_host_def club_node_def club_request_def kq_create_def leaf_index_for_def)

abbreviation sum_agree :: "b32 \<Rightarrow> b32 \<Rightarrow> b32 option" where
  "sum_agree \<equiv> \<lambda>s t. Some (s + t)"

definition club_answered :: "b32 \<Rightarrow> (unit, u64, bytes) epoch_node" where
  "club_answered k = fst (answer_epoch_key demo demo_sealing sum_agree toy 0 (who k) 50 club_asked)"

lemma club_answer:
  "\<exists>m. answer_epoch_key demo demo_sealing sum_agree toy 0 (who k) 50 club_asked = (club_answered k, Some (5, m), Inr 241)"
  "en_log (club_answered k) = club_grown k MemberAdmitted"
proof -
  have "\<exists>history. answer_history demo demo_sealing sum_agree L K (who k) x h = Inr history" for L K x h
    by (auto simp: answer_history_def seal_history_def split: option.splits history_access.splits)
  then obtain history where
    "answer_history demo demo_sealing sum_agree (club_grown k MemberAdmitted) (keyring_record 241 1 1 club_keys) (who k) 2 241 =
       Inr history"
    by blast
  then show "\<exists>m. answer_epoch_key demo demo_sealing sum_agree toy 0 (who k) 50 club_asked = (club_answered k, Some (5, m), Inr 241)"
    "en_log (club_answered k) = club_grown k MemberAdmitted"
    by (simp_all add: club_answered_def answer_epoch_key_def toy_rotations club_append Let_def)
qed

theorem unauthorized_answer_blinds_witness:
  "\<exists>H2. answer_epoch_key demo demo_sealing sum_agree toy 0 (who 2) 50 club_asked =
       (H2, Some (5, KeyWelcome (1 # put_u64 1) 241 []), Inr 241)
     \<and> node_state demo club_log \<noteq> None \<and> node_state demo (en_log H2) = None
     \<and> screen_epoch_request demo club_swarm toy H2 club_request 2 = Inl KeyCannotEvaluate"
proof -
  obtain st where st: "node_state demo club_log = Some st" "\<not> identity_holds st 2 ApproveNode"
    by (rule club_state)
  have "log_tip club_log = Some 273"
    by (simp add: log_tip_def club_chain)
  then have "241 = entry_hash demo (entry_create demo (who 2) (log_tip club_log) 50
      (EpochRotation MemberAdmitted (ro_commit (club_made (Some (1 # put_u64 1))))))"
    using club_rotation_hash [of 2 MemberAdmitted] by (simp add: club_rotation_def club_made_def)
  moreover have "bm_get (gl_entries club_log) 241 = None" "length (gl_entries club_log) + 1 < 2 ^ 32"
    by (simp_all add: club_log_def)
  ultimately have "\<exists>H2. answer_epoch_key demo demo_sealing sum_agree toy 0 (who 2) 50 club_asked =
       (H2, Some (5, KeyWelcome (1 # put_u64 1) 241 []), Inr 241) \<and> node_state demo (en_log H2) = None
     \<and> (\<forall>W p. screen_epoch_request demo W toy H2 p (sw_peer_id W (kq_requester p)) = Inl KeyCannotEvaluate)"
    using club_steps st
    by (intro unauthorized_answer_blinds [OF demo_sign_correct, where st = st and q = club_request and X = "club_session 1 0"
          and X' = "club_session 1 1" and ro = "club_made (Some (1 # put_u64 1))"])
      (simp_all add: toy_rotations)
  moreover have "sw_peer_id club_swarm (kq_requester club_request) = 2"
    by (simp add: club_swarm_def)
  ultimately show ?thesis
    using st(1) by (metis option.distinct(1))
qed

theorem append_takes_effect_witness:
  "\<exists>st. node_state demo archive_log = Some st \<and> canonical_chain club_log = Some [357, 273]
     \<and> node_state demo club_log = (case apply_entry demo st club_add of Inr st' \<Rightarrow> Some st' | Inl _ \<Rightarrow> None)"
proof -
  obtain st where st: "node_state demo archive_log = Some st"
    by (rule archive_state)
  have "log_insert demo archive_log club_add = Inr (273, club_log)" "keeps archive_log club_log"
    by (simp_all add: archive_log_def club_log_def log_insert_def club_fields club_hash bm_contains_def add_child_def
        Let_def keeps_def)
  then show ?thesis
    using append_takes_effect [OF archive_steps archive_chain(1) _ st, of club_add 273 club_log] club_fields st by simp
qed

text \<open>Both members are in the founding epoch and hold its key.\<close>

definition club_member :: "(unit, u64, bytes) epoch_node" where
  "club_member = club_node 2 (Some (club_session 2 0)) club_keys"

lemma club_holds: "keyring_holds club_keys h \<longleftrightarrow> h = 357"
  by (simp add: club_keys_def keyring_holds_record) (simp add: keyring_holds_def keyring_new_def bm_contains_def)

lemma club_in_step: "in_step toy (\<lambda>_ _. True) (\<lambda>_ g h. g = h) 1 club_host club_member"
  unfolding in_step_def
proof (intro exI conjI)
  have "log_get club_log 273 = Some club_add"
    by (simp add: log_get_def club_log_def)
  then have "apply_rotations toy club_log [357, 273] X club_keys = (X, club_keys, [])" for X
    by (simp add: club_holds) (simp add: club_add_def)
  then show "apply_pending_rotations toy (club_member\<lparr>en_log := en_log club_host\<rparr>) = Some (club_member, [])"
    by (simp add: apply_pending_rotations_def club_member_def club_node_def club_chain)
  show "canonical_chain (en_log club_host) = Some [357, 273]" "en_group club_host = Some (club_session 1 0)"
    "en_group club_member = Some (club_session 2 0)"
    by (simp_all add: club_chain club_member_def club_node_def)
qed (simp_all add: club_session_def club_member_def club_node_def club_holds club_log_def)

theorem followers_agree_witness:
  "\<exists>A' B' applied. rotate_epoch demo toy (who 1) 50 club_host = (A', Inr 241)
     \<and> apply_pending_rotations toy (club_member\<lparr>en_log := en_log A'\<rparr>) = Some (B', applied)
     \<and> keyring_current (en_keyring A') = Some (241, 1) \<and> keyring_current (en_keyring B') = Some (241, 1)"
proof -
  obtain A' where A': "rotate_epoch demo toy (who 1) 50 club_host = (A', Inr 241)"
      "en_log A' = club_grown 1 SelfInitiated" "en_group A' = Some (club_session 1 1)"
      "keyring_current (en_keyring A') = Some (241, 1)"
    by (simp add: rotate_epoch_def toy_rotations club_append keyring_current_record)
  have "host_step demo demo_sealing sum_agree club_swarm toy 1 club_host A'"
    by (rule host_step.rotates [OF A'(1)]) (simp add: A' club_keeps)
  then have steps: "(host_step demo demo_sealing sum_agree club_swarm toy 1)\<^sup>*\<^sup>* club_host A'"
    by blast
  have "(log_step demo)\<^sup>*\<^sup>* empty_log (en_log club_host)" "unrivalled (en_log club_host)"
    using club_steps club_unrivalled by simp_all
  from followers_agree [OF toy_laws(1) this club_in_step steps] show ?thesis
    using A'(1,4) by auto
qed

theorem joiner_keyed_witness:
  "\<exists>J1 rid to m J2 n. request_epoch_key demo club_swarm toy 0 1 (who 2) (club_node 2 None keyring_new) = (J1, Inr (rid, to, club_request))
     \<and> answer_epoch_key demo demo_sealing sum_agree toy 0 (who 1) 50 club_asked = (club_answered 1, Some (5, m), Inr 241)
     \<and> carry_epoch_request demo club_request = Inr club_request \<and> carry_epoch_response m = Inr m
     \<and> receive_epoch_response demo demo_sealing sum_agree toy to rid m J1 = (J2, Some (EpochKeyDelivered to 241 n))
     \<and> keyring_current (en_keyring J2) = keyring_current (en_keyring (club_answered 1))"
proof -
  let ?J = "club_node 2 None keyring_new"
  obtain J1 rid to where J1: "request_epoch_key demo club_swarm toy 0 1 (who 2) ?J = (J1, Inr (rid, to, club_request))"
    by (simp add: request_epoch_key_def prepare_join_def pending_key_package_def send_epoch_request_def club_node_def
        club_request_def Let_def)
  obtain st where st: "node_state demo club_log = Some st" "identity_holds st 2 ReadContent"
    by (rule club_state)
  have "key_package_identity toy (2 # identity_label 2) = Inr (identity_label 2)"
    by (simp add: key_package_identity_def read_key_package_def)
  then have "screen_epoch_request demo club_swarm toy club_host club_request 2 = Inr ()"
    using st by (simp add: screen_epoch_request_def club_swarm_def may_serve_def)
  then have rec: "receive_epoch_request demo club_swarm toy club_request 2 5 club_host =
      (club_asked, Inr (EpochKeyRequested 2 2 0))"
    by (simp add: receive_epoch_request_def club_asked_def club_host_def club_node_def)
  obtain m where m: "answer_epoch_key demo demo_sealing sum_agree toy 0 (who 1) 50 club_asked =
      (club_answered 1, Some (5, m), Inr 241)"
    using club_answer(1) by blast
  have ag: "agree_symmetric demo sum_agree"
    by (simp add: agree_symmetric_def add.commute)
  have "keyring_ok (en_keyring club_host)" "en_keyring ?J = keyring_new" "en_identity ?J = who 2"
    by (simp_all add: club_keys_def record_keeps_ok keyring_new_ok) (simp_all add: club_node_def)
  then have "request_epoch_key demo club_swarm toy 0 (pni_id demo (who 1)) (en_identity ?J) ?J = (J1, Inr (rid, to, club_request))"
    using J1 by simp
  moreover have "length (kq_key_package club_request) \<le> max_key_package_bytes"
    by (simp add: max_key_package_bytes_def identity_label_def)
  moreover have "\<forall>wel r history. m = KeyWelcome wel r history \<longrightarrow> length wel \<le> max_welcome_bytes"
    using m by (auto simp: answer_epoch_key_def toy_rotations club_append Let_def max_welcome_bytes_def split: sum.splits)
  moreover have "length (kr_order (en_keyring (club_answered 1))) \<le> max_history_keys"
  proof -
    have "en_keyring (club_answered 1) = keyring_record 241 1 1 club_keys"
      using m [symmetric] by (auto simp: answer_epoch_key_def toy_rotations club_append Let_def split: sum.splits)
    then show ?thesis
      by (simp add: keyring_record_def club_keys_def keyring_new_def max_history_keys_def)
  qed
  ultimately show ?thesis
    using joiner_keyed [OF toy_laws demo_aead ag demo_sign_correct \<open>keyring_ok _\<close> \<open>en_keyring ?J = _\<close> _ _ _ rec m] J1 m
    by fastforce
qed

section \<open>Where it goes wrong\<close>

text \<open>
  A rekeying that a member starts itself does not count in fork choice. Where another branch ties with
  the canonical chain, appending it at the tip hands the tie to the other branch: the rotation that
  was just performed and recorded is voided at once, with the entry it was appended to.
\<close>

definition lone_rotation :: log_entry where
  "lone_rotation = entry_create demo (who 1) (Some 241) 50 (EpochRotation SelfInitiated (replicate 30 0))"

lemma self_rotation_displaced:
  "\<exists>L'. canonical_chain fork_log = Some [357, 241] \<and> le_parent lone_rotation = Some 241
     \<and> log_insert demo fork_log lone_rotation = Inr (262, L') \<and> canonical_chain L' = Some [357, 242]"
proof -
  let ?L = "\<lparr>gl_entries = [(241, fork_a), (242, fork_b), (262, lone_rotation), (357, fork_root)],
      gl_children = [(241, [262]), (357, [241, 242])], gl_root = Some 357, gl_finalized = None\<rparr>"
  have e: "entry_hash demo lone_rotation = 262" "le_parent lone_rotation = Some 241"
      "entry_verify_signature demo lone_rotation = Inr ()" "\<not> is_capability_gated lone_rotation"
    by (simp_all add: lone_rotation_def demo_entry_hash is_capability_gated_def)
  have "log_insert demo fork_log lone_rotation = Inr (262, ?L)"
    by (simp add: fork_log_def log_insert_def e bm_contains_def add_child_def Let_def)
  moreover have "canonical_chain ?L = Some [357, 242]"
    by (simp add: canonical_chain_def ancestry_def log_fuel_def parent_of_def fork_fields e
        best_branch_below_def pick_def better_def branch_candidate_def gated_at_def)
  ultimately show ?thesis
    using fork_canonical e(2) by blast
qed

text \<open>
  A welcome that does not open uses up the key package: the node reports it, and no welcome that
  another member sends for the same package is accepted any more.
\<close>

lemma bad_welcome_strands:
  assumes "en_pending N = Some P" and "session_join M wel P = Inl e" and "bm_get (en_requests N) rid = Some sender"
  shows "\<exists>N'. receive_epoch_response C S ag M peer rid (KeyWelcome wel r history) N =
      (N', Some (EpochKeyUnavailable peer (epoch_error_text e))) \<and> en_pending N' = None
    \<and> (\<forall>p rid' wel' r' history' x n. snd (receive_epoch_response C S ag M p rid' (KeyWelcome wel' r' history') N') \<noteq>
         Some (EpochKeyDelivered p x n))"
  using assms
  by (auto simp: receive_epoch_response_def accept_welcome_def split: option.splits)

text \<open>
  The gate is applied when a request arrives and not again when it is answered: a requester that was
  removed from the network in between is welcomed into the group all the same.
\<close>

definition club_removal :: log_entry where
  "club_removal = entry_create demo (who 1) (Some 273) 20
     (MembershipChange everyone_id 2 (Remove (Some \<lparr>window_millis = None\<rparr>)))"

lemma club_removal_fields:
  "entry_hash demo club_removal = 274" "le_parent club_removal = Some 273" "entry_verify_signature demo club_removal = Inr ()"
  "is_capability_gated club_removal"
  by (simp_all add: club_removal_def demo_entry_hash everyone_id_def is_capability_gated_def)

definition club_left :: governance_log where
  "club_left = \<lparr>gl_entries = [(273, club_add), (274, club_removal), (357, archive_root)],
     gl_children = [(273, [274]), (357, [273])], gl_root = Some 357, gl_finalized = None\<rparr>"

lemma club_left_chain: "canonical_chain club_left = Some [357, 273, 274]"
  by (simp add: club_left_def canonical_chain_def ancestry_def log_fuel_def best_branch_below_def pick_def
      parent_of_def archive_facts club_fields club_removal_fields better_def branch_candidate_def gated_at_def)

lemma removed_requester_keyed:
  "\<exists>st N' wel history. log_insert demo club_log club_removal = Inr (274, club_left)
     \<and> node_state demo club_left = Some st \<and> \<not> is_member st (kq_requester club_request)
     \<and> answer_epoch_key demo demo_sealing sum_agree toy 0 (who 1) 50 (club_asked\<lparr>en_log := club_left\<rparr>) =
         (N', Some (5, KeyWelcome wel 241 history), Inr 241)"
proof -
  have ins: "log_insert demo club_log club_removal = Inr (274, club_left)"
    by (simp add: club_log_def club_left_def log_insert_def club_removal_fields bm_contains_def add_child_def Let_def)
  obtain st where replayed: "replay demo [archive_root, club_add, club_removal] = Inr st" "\<not> is_member st 2"
    by (simp add: archive_root_def club_add_def club_removal_def sample_defs remove_membership_def bm_remove_def
        cascade_cutoff_def doomed_by_def within_def)
  have st: "node_state demo club_left = Some st" "\<not> is_member st (kq_requester club_request)"
  proof -
    show "node_state demo club_left = Some st"
      using replayed(1) by (simp add: node_state_def replay_canonical_def club_left_chain) (simp add: club_left_def)
    show "\<not> is_member st (kq_requester club_request)"
      using replayed(2) by (simp only: club_fields_of not_False_eq_True)
  qed
  let ?e = "entry_create demo (who 1) (Some 274) 50 (EpochRotation MemberAdmitted (0 # put_u64 1))"
  have "entry_hash demo ?e = 241" "le_parent ?e = Some 274" "entry_verify_signature demo ?e = Inr ()"
    by (simp_all add: demo_entry_hash)
  then obtain L' where L': "log_insert demo club_left ?e = Inr (241, L')"
    by (simp add: club_left_def log_insert_def bm_contains_def Let_def)
  have "\<exists>history. answer_history demo demo_sealing sum_agree L K (who 1) x h = Inr history" for L K x h
    by (auto simp: answer_history_def seal_history_def split: option.splits history_access.splits)
  then obtain history where
    "answer_history demo demo_sealing sum_agree L' (keyring_record 241 1 1 club_keys) (who 1) 2 241 = Inr history"
    by blast
  then have "\<exists>N'. answer_epoch_key demo demo_sealing sum_agree toy 0 (who 1) 50 (club_asked\<lparr>en_log := club_left\<rparr>) =
         (N', Some (5, KeyWelcome (1 # put_u64 1) 241 history), Inr 241)"
    using L' by (simp add: answer_epoch_key_def toy_rotations append_rotation_def Let_def log_tip_def club_left_chain
        club_made_def [of "Some _"])
  then show ?thesis
    using ins st by blast
qed

theorem group_survives_restart_witness:
  "\<exists>saved N' Y. save_epoch_group toy club_host = Inr (Some saved)
     \<and> restore_epoch_group toy 7 saved 357 (club_node 1 None keyring_new) = (N', Inr 0) \<and> en_group N' = Some Y
     \<and> session_epoch toy Y = 0"
proof -
  let ?X = "club_session 1 0"
  obtain saved where saved: "save_epoch_group toy club_host = Inr (Some saved)"
    by (simp add: save_epoch_group_def session_save_def)
  have laws: "mls_stores toy" "en_group club_host = Some ?X"
    by (simp_all add: mls_stores_def)
  have parts: "session_key toy ?X = Inr 0" "om_store_signer toy (ss_signer ?X) (ss_group ?X) = Inr [([], put_u64 0)]"
      "ss_credential ?X = (identity_label 1, om_public toy (ss_signer ?X))" "len_ok (identity_label 1)"
      "session_epoch toy ?X = 0"
    by (simp_all add: session_key_def club_session_def session_epoch_def len_ok_def identity_label_def)
  show ?thesis
    using group_survives_restart [OF laws parts(1) saved parts(2,3) _ parts(4), of 7 357 "club_node 1 None keyring_new"]
      saved parts(5)
    by (auto simp: len_ok_def)
qed

end
