(* ===== verification/Calls.thy ===== *)
theory Calls
  imports Realtime Content_Node Content
begin

text \<open>
  Calls end to end: the arms of the event loop of node.rs that handle signalling and media, and what
  the parts of a call achieve together. An invitation delivers the call key, a frame that passes a
  relay reaches every other participant and opens there, concurrent proposals settle on one topology,
  and the relay chosen is the one with the least worst latency.
\<close>

section \<open>The node\<close>

datatype call_event =
    SignalReceived signal
  | MediaReceived media_envelope
  | MediaRefused b32 b32 media_denied
  | MediaForwarded b32 b32 "b32 list"

definition send_signal :: "crypto \<Rightarrow> 'p swarm \<Rightarrow> b32 \<Rightarrow> per_network_identity \<Rightarrow> signal_body \<Rightarrow> 'p \<times> signal" where
  "send_signal C W to sender body = (sw_peer_id W to, signal_create C sender body)"

definition send_media :: "'p swarm \<Rightarrow> b32 \<Rightarrow> media_envelope \<Rightarrow> 'p \<times> media_envelope" where
  "send_media W via env = (sw_peer_id W via, env)"

definition receive_signal :: "'p swarm \<Rightarrow> 'p \<Rightarrow> signal \<Rightarrow> call_event option" where
  "receive_signal W peer request =
     (if sw_peer_id W (sg_sender request) = peer then Some (SignalReceived request) else None)"

text \<open>
  The outcome of a media request: the guard, the envelopes sent on, the event put aside for the next
  turn of the loop, and the event returned.
\<close>

record 'p media_outcome =
  mo_guard :: media_guard
  mo_sent :: "('p \<times> media_envelope) list"
  mo_buffered :: "call_event list"
  mo_event :: "call_event option"

definition receive_media ::
  "'p swarm \<Rightarrow> b32 \<Rightarrow> 'p \<Rightarrow> media_envelope \<Rightarrow> media_guard \<Rightarrow> 'p media_outcome" where
  "receive_media W self_id peer request M =
     (let quiet = (\<lambda>M event. \<lparr>mo_guard = M, mo_sent = [], mo_buffered = [], mo_event = event\<rparr>) in
      if recipient_is (me_to request) self_id then quiet M (Some (MediaReceived request))
      else if sw_peer_id W (me_from request) \<noteq> peer then quiet M None
      else
        case authorize_frame M (me_call request) (me_from request) (me_to request)
               (of_nat (length (fr_ciphertext (me_frame request)))) self_id of
          (M', Inl reason) \<Rightarrow> quiet M' (Some (MediaRefused (me_call request) (me_from request) reason))
        | (M', Inr fan) \<Rightarrow>
            (let here = (if fo_deliver_locally fan
                         then Some (MediaReceived (request\<lparr>me_to := One self_id\<rparr>)) else None)
             in if fo_recipients fan = [] then quiet M' here
                else
                  \<lparr>mo_guard = M',
                   mo_sent = map (\<lambda>to. send_media W to (request\<lparr>me_to := One to\<rparr>)) (fo_recipients fan),
                   mo_buffered = (case here of None \<Rightarrow> [] | Some event \<Rightarrow> [event]),
                   mo_event = Some (MediaForwarded (me_call request) (me_from request) (fo_recipients fan))\<rparr>))"

section \<open>Topology: the operations in any order\<close>

inductive call_step :: "call_session \<Rightarrow> call_session \<Rightarrow> bool" where
  join: "call_step S (call_join S p)"
| leave: "call_step S (call_leave S p)"
| receive: "call_step S (fst (receive_proposal S proposal at))"
| complete: "complete_handover S = Inr (S', t) \<Longrightarrow> call_step S S'"
| abandon: "call_step S (abandon_handover S)"

text \<open>A topology is being established exactly when a proposal is in flight, and it is the one proposed.\<close>

definition call_ok :: "call_session \<Rightarrow> bool" where
  "call_ok S \<longleftrightarrow>
     bs_ok (ses_participants S) \<and> ses_pending S = map_option (tp_topology \<circ> fst) (ses_in_flight S)"

lemma receive_cases:
  "fst (receive_proposal S p at) = S
   \<or> fst (receive_proposal S p at) = S\<lparr>ses_pending := Some (tp_topology p), ses_in_flight := Some (p, at)\<rparr>"
  by (simp add: receive_proposal_def Let_def split: option.split)




text \<open>Media moves only when a handover completes: every other operation keeps the active topology.\<close>

lemma call_step_active:
  assumes "call_step S S'" and "call_ok S" and "ses_active S' \<noteq> ses_active S"
  shows "\<exists>p at. ses_in_flight S = Some (p, at) \<and> ses_active S' = tp_topology p \<and> ses_in_flight S' = None"
  using assms
proof (cases rule: call_step.cases)
  case (receive p at)
  then show ?thesis
    using assms(3) receive_cases [of S p at] by auto
qed (auto simp: call_join_def call_leave_def complete_handover_def abandon_handover_def call_ok_def
    split: option.splits)

section \<open>Topology: concurrent proposals\<close>

definition receive_all :: "(topology_proposal \<times> i64) list \<Rightarrow> call_session \<Rightarrow> call_session" where
  "receive_all ps S = fold (\<lambda>(p, at) S. fst (receive_proposal S p at)) ps S"










text \<open>Three participants, two of which propose a relay at the same instant.\<close>

definition relay_proposal :: "b32 \<Rightarrow> b32 \<Rightarrow> topology_proposal" where
  "relay_proposal proposer relay =
     \<lparr>tp_proposer = proposer, tp_topology = Relayed relay, tp_trigger = ThresholdReached, tp_proposed_at = 5\<rparr>"


text \<open>
  Two participants that hear the same two proposals in opposite orders settle on different relays:
  the instant that decides is each one's own.
\<close>

lemma arrival_order_disagrees:
  "ses_pending (receive_all [(relay_proposal 1 8, 100), (relay_proposal 2 9, 101)] (call_open [1, 2, 3] 3))
   \<noteq> ses_pending (receive_all [(relay_proposal 2 9, 100), (relay_proposal 1 8, 101)] (call_open [1, 2, 3] 3))"
  by (simp add: receive_all_def receive_proposal_def incoming_wins_def call_open_def relay_proposal_def)

section \<open>The choice of a relay\<close>

text \<open>
  The reference: a relay qualifies when every participant measured it and its advertisement offers
  media relaying with some upload; relays are compared by reliability, then by the largest latency a
  participant measured, then by capacity.
\<close>

definition relay_capacity :: "capability_ledger \<Rightarrow> b32 \<Rightarrow> u64" where
  "relay_capacity L r =
     (case bm_get (cl_entries L) r of
        None \<Rightarrow> 0 | Some a \<Rightarrow> if relay_media_willing a then up_bytes_per_sec (ca_bandwidth a) else 0)"

definition relay_qualified :: "relay_observation list \<Rightarrow> b32 btree_set \<Rightarrow> capability_ledger \<Rightarrow> b32 \<Rightarrow> bool" where
  "relay_qualified obs ps L r \<longleftrightarrow>
     ps \<noteq> [] \<and> (\<forall>p\<in>set ps. \<exists>ob\<in>set obs. ob_relay ob = r \<and> ob_participant ob = p) \<and> relay_capacity L r \<noteq> 0"

definition worst_latency :: "relay_observation list \<Rightarrow> b32 btree_set \<Rightarrow> b32 \<Rightarrow> u32" where
  "worst_latency obs ps r = Max (ob_latency ` {ob\<in>set obs. ob_relay ob = r \<and> ob_participant ob \<in> set ps})"

definition relay_standing ::
  "relay_observation list \<Rightarrow> b32 btree_set \<Rightarrow> capability_ledger \<Rightarrow> observations \<Rightarrow> (u64 \<Rightarrow> u64 \<Rightarrow> bool) \<Rightarrow> b32
     \<Rightarrow> nat \<times> u32 \<times> int \<times> b32" where
  "relay_standing obs ps L R at_least r =
     (reliability_class at_least (for_peer R r), worst_latency obs ps r, - uint (relay_capacity L r), r)"

definition reports :: "b32 btree_set \<Rightarrow> relay_observation list \<Rightarrow> b32 \<Rightarrow> relay_observation list" where
  "reports ps obs r = filter (\<lambda>ob. ob_relay ob = r \<and> ob_participant ob \<in> set ps) obs"

lemma fold_max_zero:
  fixes xs :: "u32 list"
  assumes "xs \<noteq> []"
  shows "fold max xs 0 = Max (set xs)"
proof -
  have "Max (insert 0 (set xs)) = fold max xs 0"
    using Max.set_eq_fold [of 0 xs] by simp
  moreover have "Max (insert 0 (set xs)) = max 0 (Max (set xs))"
    using assms by (simp add: Max_insert)
  ultimately show ?thesis
    by (simp add: max_def)
qed

lemma bm_get_tally:
  "bm_get (tally ps ob m) r =
     (if ob_relay ob = r \<and> ob_participant ob \<in> set ps
      then (case bm_get m r of
              None \<Rightarrow> Some (max 0 (ob_latency ob), 1) | Some (l, n) \<Rightarrow> Some (max l (ob_latency ob), n + 1))
      else bm_get m r)"
  by (auto simp: tally_def split: option.split prod.split)

lemma bm_ok_tally: "bm_ok m \<Longrightarrow> bm_ok (tally ps ob m)"
  by (auto simp: tally_def Let_def split: prod.split)

lemma bm_ok_tallies: "bm_ok m \<Longrightarrow> bm_ok (fold (tally ps) obs m)"
  by (induction obs arbitrary: m) (simp_all add: bm_ok_tally)

lemma reports_snoc:
  "reports ps (obs @ [ob]) r =
     reports ps obs r @ (if ob_relay ob = r \<and> ob_participant ob \<in> set ps then [ob] else [])"
  by (simp add: reports_def)

lemma bm_get_tallies:
  "bm_get (fold (tally ps) obs []) r =
     (if reports ps obs r = [] then None
      else Some (fold max (map ob_latency (reports ps obs r)) 0, length (reports ps obs r)))"
proof (induction obs rule: rev_induct)
  case (snoc ob obs)
  show ?case
    by (simp add: bm_get_tally reports_snoc snoc max.commute)
qed (simp add: reports_def)

lemma worst_latency_reports:
  "reports ps obs r \<noteq> [] \<Longrightarrow> fold max (map ob_latency (reports ps obs r)) 0 = worst_latency obs ps r"
  by (subst fold_max_zero) (simp_all add: reports_def worst_latency_def)

lemma reporters_cover:
  assumes "bs_ok ps" and "distinct (map (\<lambda>ob. (ob_relay ob, ob_participant ob)) obs)"
  shows "length ps \<le> length (reports ps obs r) \<longleftrightarrow>
    (\<forall>p\<in>set ps. \<exists>ob\<in>set obs. ob_relay ob = r \<and> ob_participant ob = p)"
proof -
  let ?rs = "map ob_participant (reports ps obs r)"
  have "inj_on ob_participant (set (reports ps obs r))"
    using assms(2) by (auto simp: distinct_map reports_def inj_on_def)
  moreover have "distinct (reports ps obs r)"
    using assms(2) by (simp add: distinct_map reports_def)
  ultimately have len: "length (reports ps obs r) = card (set ?rs)"
    by (simp add: card_image distinct_card)
  have sub: "set ?rs \<subseteq> set ps"
    by (auto simp: reports_def)
  then have "length ps \<le> card (set ?rs) \<longleftrightarrow> set ?rs = set ps"
    using distinct_card [OF bs_ok_distinct [OF assms(1)]] by (metis card_seteq finite_set order_refl)
  also have "\<dots> \<longleftrightarrow> set ps \<subseteq> set ?rs"
    using sub by blast
  finally show ?thesis
    unfolding len by (auto simp: reports_def)
qed

lemma relay_candidate_iff:
  "relay_candidate ps L R f (r, w, n) = Some x \<longleftrightarrow>
     length ps \<le> n \<and> relay_capacity L r \<noteq> 0
     \<and> x = (\<lparr>rc_relay = r, rc_worst_latency = w, rc_upload_capacity = relay_capacity L r\<rparr>,
           reliability_class f (for_peer R r))"
  by (auto simp: relay_candidate_def relay_capacity_def Let_def split: option.splits)

lemma sort_key_least: "sort_key f xs = y # ys \<Longrightarrow> y \<in> set xs \<and> (\<forall>x\<in>set xs. f y \<le> f x)"
proof -
  assume eq: "sort_key f xs = y # ys"
  then have "set xs = insert y (set ys)" and "sorted (map f (y # ys))"
    by (metis set_sort list.set(2), metis sorted_sort_key)
  then show ?thesis
    by auto
qed

lemma relay_candidates_iff:
  assumes "bs_ok ps" and "distinct (map (\<lambda>ob. (ob_relay ob, ob_participant ob)) obs)"
  shows "(c, band) \<in> set (List.map_filter (relay_candidate ps L R f) (fold (tally ps) obs [])) \<longleftrightarrow>
    relay_qualified obs ps L (rc_relay c) \<and> rc_worst_latency c = worst_latency obs ps (rc_relay c)
    \<and> rc_upload_capacity c = relay_capacity L (rc_relay c) \<and> band = reliability_class f (for_peer R (rc_relay c))"
proof -
  let ?r = "rc_relay c" and ?m = "fold (tally ps) obs []"
  have "(r, w, n) \<in> set ?m \<longleftrightarrow>
      reports ps obs r \<noteq> [] \<and> w = worst_latency obs ps r \<and> n = length (reports ps obs r)" for r w n
    using bm_get_tallies [of ps obs r] bm_ok_map_of [OF bm_ok_tallies [OF bm_ok_Nil], of ps obs r "(w, n)"] worst_latency_reports [of ps obs r]
    by (auto split: if_splits)
  then have "(c, band) \<in> set (List.map_filter (relay_candidate ps L R f) ?m) \<longleftrightarrow>
      reports ps obs ?r \<noteq> [] \<and> length ps \<le> length (reports ps obs ?r) \<and> relay_capacity L ?r \<noteq> 0
      \<and> rc_worst_latency c = worst_latency obs ps ?r \<and> rc_upload_capacity c = relay_capacity L ?r
      \<and> band = reliability_class f (for_peer R ?r)"
    by (cases c) (auto simp: set_map_filter relay_candidate_iff Bex_def split_paired_Ex)
  moreover have "reports ps obs ?r \<noteq> [] \<and> length ps \<le> length (reports ps obs ?r) \<longleftrightarrow>
      ps \<noteq> [] \<and> length ps \<le> length (reports ps obs ?r)"
    by (auto simp: reports_def)
  ultimately show ?thesis
    using reporters_cover [OF assms, of ?r] by (auto simp: relay_qualified_def)
qed

text \<open>
  C31. The relay chosen is the best one for the whole call. When no participant reports a relay twice,
  a relay is chosen exactly when one qualifies, it qualifies itself, its figures are the largest
  latency any participant measured and its advertised upload, and no relay that qualifies stands
  better in the order of reliability, worst latency, capacity and identity.
\<close>

theorem relay_choice_best:
  assumes "bs_ok ps" and "distinct (map (\<lambda>ob. (ob_relay ob, ob_participant ob)) obs)"
  shows "case select_relay obs ps L R f of
      None \<Rightarrow> \<forall>r. \<not> relay_qualified obs ps L r
    | Some c \<Rightarrow> relay_qualified obs ps L (rc_relay c)
        \<and> rc_worst_latency c = worst_latency obs ps (rc_relay c)
        \<and> rc_upload_capacity c = relay_capacity L (rc_relay c)
        \<and> (\<forall>r. relay_qualified obs ps L r \<longrightarrow>
             relay_standing obs ps L R f (rc_relay c) \<le> relay_standing obs ps L R f r)"
proof -
  let ?xs = "List.map_filter (relay_candidate ps L R f) (fold (tally ps) obs [])"
  note mem = relay_candidates_iff [OF assms, where L = L and R = R and f = f]
  have stands: "\<exists>c. (c, reliability_class f (for_peer R r)) \<in> set ?xs \<and> rc_relay c = r
      \<and> relay_rank (c, reliability_class f (for_peer R r)) = relay_standing obs ps L R f r"
    if "relay_qualified obs ps L r" for r
    using that mem [of "\<lparr>rc_relay = r, rc_worst_latency = worst_latency obs ps r,
        rc_upload_capacity = relay_capacity L r\<rparr>"]
    by (intro exI [of _ "\<lparr>rc_relay = r, rc_worst_latency = worst_latency obs ps r,
        rc_upload_capacity = relay_capacity L r\<rparr>"]) (simp add: relay_rank_def relay_standing_def)
  show ?thesis
  proof (cases "sort_key relay_rank ?xs")
    case Nil
    then have "?xs = []"
      by (metis length_0_conv length_sort)
    then show ?thesis
      using Nil stands by (fastforce simp: select_relay_def)
  next
    case (Cons y ys)
    obtain c band where y: "y = (c, band)" by (cases y)
    have least: "(c, band) \<in> set ?xs" "\<forall>x\<in>set ?xs. relay_rank (c, band) \<le> relay_rank x"
      using sort_key_least [OF Cons] by (simp_all add: y)
    then have "relay_rank (c, band) = relay_standing obs ps L R f (rc_relay c)"
      using mem [of c band] by (simp add: relay_rank_def relay_standing_def)
    then show ?thesis
      using least mem [of c band] stands Cons by (fastforce simp: select_relay_def y)
  qed
qed

definition relay_ad :: "b32 \<Rightarrow> u64 \<Rightarrow> advertisement" where
  "relay_ad node upload = (ad_none demo \<lparr>pni_network = 7, pni_secret = node\<rparr> 0)
     \<lparr>ca_node := node, relay_media_willing := True, ca_bandwidth := cap_none\<lparr>up_bytes_per_sec := upload\<rparr>\<rparr>"

definition relay_ledger :: capability_ledger where
  "relay_ledger = \<lparr>cl_network = 7, cl_entries = [(8, relay_ad 8 10), (9, relay_ad 9 1000)]\<rparr>"

definition seen :: "b32 \<Rightarrow> b32 \<Rightarrow> u32 \<Rightarrow> relay_observation" where
  "seen r p ms = \<lparr>ob_relay = r, ob_participant = p, ob_latency = ms\<rparr>"

lemma relay_ledger_capacity: "relay_capacity relay_ledger 8 = 10" "relay_capacity relay_ledger 9 = 1000"
  by (simp_all add: relay_capacity_def relay_ledger_def relay_ad_def)

theorem relay_choice_best_witness:
  "\<exists>c. select_relay [seen 8 1 40, seen 8 2 50, seen 9 1 2, seen 9 2 400] [1, 2] relay_ledger observations_new (\<lambda>_ _. True)
     = Some c \<and> relay_standing [seen 8 1 40, seen 8 2 50, seen 9 1 2, seen 9 2 400] [1, 2] relay_ledger
        observations_new (\<lambda>_ _. True) (rc_relay c) \<le> (1, 50, - 10, 8)"
proof -
  let ?obs = "[seen 8 1 40, seen 8 2 50, seen 9 1 2, seen 9 2 400]"
  have ok: "bs_ok [1, 2 :: b32]" "distinct (map (\<lambda>ob. (ob_relay ob, ob_participant ob)) ?obs)"
    by (simp_all add: seen_def bs_ok_def word_less_def)
  have q: "relay_qualified ?obs [1, 2] relay_ledger 8"
    by (simp add: relay_qualified_def relay_ledger_capacity seen_def)
  have "{ob\<in>set ?obs. ob_relay ob = 8 \<and> ob_participant ob \<in> set [1, 2]} = {seen 8 1 40, seen 8 2 50}"
    by (auto simp: seen_def)
  then have "worst_latency ?obs [1, 2] 8 = 50"
    by (simp add: worst_latency_def seen_def max_def word_le_def)
  then have "relay_standing ?obs [1, 2] relay_ledger observations_new (\<lambda>_ _. True) 8 = (1, 50, - 10, 8)"
    by (simp add: relay_standing_def relay_ledger_capacity reliability_class_def for_peer_def observations_new_def
        no_observations_def po_total_def saturating_add_u64_def)
  then show ?thesis
    using relay_choice_best [OF ok, of relay_ledger observations_new "\<lambda>_ _. True"] q
    by (fastforce split: option.splits)
qed

text \<open>
  Reports are counted, not the participants who made them: two reports by one participant stand in for
  the one of a participant that never measured the relay.
\<close>

lemma repeated_report_counts:
  "select_relay [seen 9 1 2, seen 9 1 3] [1, 2] relay_ledger observations_new (\<lambda>_ _. True)
     = Some \<lparr>rc_relay = 9, rc_worst_latency = 3, rc_upload_capacity = 1000\<rparr>"
  by (simp add: select_relay_def tally_def seen_def relay_candidate_def List.map_filter_def relay_ledger_def
      relay_ad_def Let_def max_def word_le_def)

section \<open>Keys and frames\<close>

lemma frame_opens: "aead_correct S \<Longrightarrow> open_frame C S key call (seal_frame C S key call n m) = Inr m"
  by (simp add: open_frame_def seal_frame_def aead_correct_def ok_or_def)

lemma frame_length: "aead_correct S \<Longrightarrow> length (fr_ciphertext (seal_frame C S key call n m)) = length m + 16"
  by (simp add: seal_frame_def aead_correct_def)

lemma signal_decode_iff:
  "signal_decode C b = Inr s \<longleftrightarrow> signal_ok C s \<and> signal_verify C s = Inr () \<and> b = signal_encode s"
  unfolding signal_decode_def signal_encode_def
  by (rule verified_iff [OF signal.exact_codec_axioms realtime_domains_ok(1)])

lemma media_decode_iff: "media_decode C b = Inr m \<longleftrightarrow> media_ok C m \<and> b = media_encode m"
  unfolding media_decode_def media_encode_def by (rule whole_iff [OF media.exact_codec_axioms realtime_domains_ok(2)])

lemma signal_create_verifies: "sign_correct C \<Longrightarrow> signal_verify C (signal_create C sender body) = Inr ()"
  by (simp add: signal_verify_def signal_create_def vk_verify_def pni_sign_def pni_id_def sign_correct_def)

text \<open>
  An invitation puts the callee into the call. The envelope a caller seals survives the signalling
  message it travels in, the node of the callee hands the message over when it comes from the caller's
  own connection, and what the callee opens is the call key; every other identity is refused. Relied on
  are a correct cipher, correct signatures and a pairwise secret that both sides derive alike.
\<close>

theorem invite_delivers_key:
  assumes "sign_correct C" and "aead_correct S" and "agree_symmetric C ag"
    and "ag (pni_secret caller) (pni_id C callee) = Some shared"
  shows "\<exists>env s. envelope_seal C S ag caller (pni_id C callee) call key = Inr env
    \<and> send_signal C W (pni_id C callee) caller (SignalInvite env) = (sw_peer_id W (pni_id C callee), s)
    \<and> signal_decode C (signal_encode s) = Inr s
    \<and> receive_signal W (sw_peer_id W (pni_id C caller)) s = Some (SignalReceived s)
    \<and> sg_body s = SignalInvite env \<and> envelope_open C S ag env callee = Inr key
    \<and> (\<forall>other. pni_id C other \<noteq> pni_id C callee \<longrightarrow> envelope_open C S ag env other = Inl NotTheRecipient)"
proof -
  define env where "env = \<lparr>ck_call = call, ck_sender = pni_id C caller, ck_recipient = pni_id C callee,
    ck_sealed_key = xchacha_seal S shared (envelope_nonce C call (pni_id C caller) (pni_id C callee)) (put_fixed32 key)\<rparr>"
  let ?s = "signal_create C caller (SignalInvite env)"
  have sealed: "envelope_seal C S ag caller (pni_id C callee) call key = Inr env"
    using assms(4) by (simp add: envelope_seal_def env_def ok_or_def)
  have "ag (pni_secret callee) (pni_id C caller) = Some shared"
    using assms(3,4) by (simp add: agree_symmetric_def pni_id_def)
  then have opened: "envelope_open C S ag env callee = Inr key"
    using assms(2) by (simp add: envelope_open_def env_def ok_or_def aead_correct_def put_fixed32_def be_word(1))
  have "length (ck_sealed_key env) \<le> max_sealed_key_bytes"
    using assms(2) by (simp add: env_def aead_correct_def put_fixed32_def max_sealed_key_bytes_def)
  then have "signal_ok C ?s"
    using assms(1) by (simp add: signal_ok_def signal_create_def env_def pni_id_def sign_correct_def)
  then have "signal_decode C (signal_encode ?s) = Inr ?s"
    using signal_create_verifies [OF assms(1)] by (simp add: signal_decode_iff)
  then show ?thesis
    using sealed opened
    by (intro exI [of _ env] exI [of _ ?s])
      (simp add: send_signal_def receive_signal_def signal_create_def envelope_open_def env_def)
qed

section \<open>The relay\<close>

lemma receive_own: "me_to env = One i \<Longrightarrow>
    receive_media W i peer env M = \<lparr>mo_guard = M, mo_sent = [], mo_buffered = [], mo_event = Some (MediaReceived env)\<rparr>"
  by (simp add: receive_media_def)

text \<open>
  A relay is no reflector. Whatever envelope a node receives, every copy it sends is the same frame of
  the same call and sender, readdressed to its receiver by name; the call is one the node agreed to
  carry, sender and receiver are participants of it, and the sender is the peer that delivered the
  envelope. Refused or not, what it sends is covered by the allowance of the guard.
\<close>

theorem relay_forwards_only:
  assumes "(peer', e) \<in> set (mo_sent (receive_media W self_id peer env M))"
  shows "\<exists>ps to. bm_get (mg_calls M) (me_call env) = Some ps \<and> me_from env \<in> set ps \<and> to \<in> set ps
    \<and> sw_peer_id W (me_from env) = peer \<and> peer' = sw_peer_id W to \<and> e = env\<lparr>me_to := One to\<rparr>
    \<and> to \<noteq> self_id
    \<and> saturating_mul_u64 (of_nat (length (fr_ciphertext (me_frame env))))
        (of_nat (length (mo_sent (receive_media W self_id peer env M)))) \<le> mg_allowance M"
proof -
  let ?sz = "of_nat (length (fr_ciphertext (me_frame env))) :: u64"
  obtain M' fan where fan: "authorize_frame M (me_call env) (me_from env) (me_to env) ?sz self_id = (M', Inr fan)"
    and other: "\<not> recipient_is (me_to env) self_id" "sw_peer_id W (me_from env) = peer"
    and sent: "mo_sent (receive_media W self_id peer env M) =
      map (\<lambda>to. send_media W to (env\<lparr>me_to := One to\<rparr>)) (fo_recipients fan)"
    using assms by (auto simp: receive_media_def Let_def split: if_splits prod.splits sum.splits)
  from fan obtain ps where ps: "bm_get (mg_calls M) (me_call env) = Some ps" "me_from env \<in> set ps"
    "set (fo_recipients fan) \<subseteq> set ps - {self_id}"
    "saturating_mul_u64 ?sz (of_nat (length (fo_recipients fan))) \<le> mg_allowance M"
    using other(1) by (elim authorize_frame_Inr) (auto split: recipient.splits)
  then show ?thesis
    using assms other(2) by (auto simp: sent send_media_def)
qed

text \<open>
  C29. A relayed frame is heard by everybody. A participant seals a frame under the call key and sends it once,
  to a relay that carries the call and has the allowance; then exactly the other participants are sent
  a copy, each copy is a message that decodes, and the node that receives it reports the frame as from
  the sender without forwarding it again; opening it with the call key gives the plaintext. A relay that
  is a participant itself is handed its own copy.
\<close>

theorem relayed_frame_heard:
  assumes "aead_correct S" and "bm_get (mg_calls M) call = Some ps" and "sender \<in> set ps" and "\<forall>p\<in>set ps. key_valid C p"
    and "length plaintext + 16 \<le> max_frame_bytes"
    and "env = \<lparr>me_call = call, me_from = sender, me_to = Participants, me_frame = seal_frame C S key call n plaintext\<rparr>"
    and "rest = filter (\<lambda>p. p \<noteq> sender \<and> p \<noteq> relay) ps"
    and "saturating_mul_u64 (of_nat (length plaintext + 16)) (of_nat (length rest)) \<le> mg_allowance M"
    and "out = receive_media W relay (sw_peer_id W sender) env M"
  shows "mo_sent out = map (\<lambda>p. (sw_peer_id W p, env\<lparr>me_to := One p\<rparr>)) rest
    \<and> (\<forall>p\<in>set ps. \<exists>copy. copy = env\<lparr>me_to := One p\<rparr> \<and> media_decode C (media_encode copy) = Inr copy
        \<and> receive_media W p peer copy G =
            \<lparr>mo_guard = G, mo_sent = [], mo_buffered = [], mo_event = Some (MediaReceived copy)\<rparr>
        \<and> me_from copy = sender \<and> open_frame C S key (me_call copy) (me_frame copy) = Inr plaintext)
    \<and> (relay \<in> set ps \<longrightarrow>
        MediaReceived (env\<lparr>me_to := One relay\<rparr>) \<in> set (mo_buffered out) \<union> set_option (mo_event out))"
proof -
  let ?cost = "saturating_mul_u64 (of_nat (length plaintext + 16)) (of_nat (length rest))"
  note len = frame_length [OF assms(1), of C key call n plaintext]
  have "authorize_frame M call sender Participants (of_nat (length plaintext + 16)) relay =
      (M\<lparr>mg_allowance := mg_allowance M - ?cost, mg_forwarded_bytes := mg_forwarded_bytes M + ?cost\<rparr>,
       Inr \<lparr>fo_recipients = rest, fo_deliver_locally = (relay \<in> set ps)\<rparr>)"
    using assms(2,3,7,8) by (simp add: authorize_frame_def Let_def not_less)
  then have "mo_sent out = map (\<lambda>p. (sw_peer_id W p, env\<lparr>me_to := One p\<rparr>)) rest
    \<and> (relay \<in> set ps \<longrightarrow>
        MediaReceived (env\<lparr>me_to := One relay\<rparr>) \<in> set (mo_buffered out) \<union> set_option (mo_event out))"
    using len by (auto simp: receive_media_def assms(6,9) Let_def send_media_def)
  moreover have "media_ok C (env\<lparr>me_to := One p\<rparr>)" if "p \<in> set ps" for p
    using that assms(3-5) len by (simp add: assms(6) media_ok_def)
  ultimately show ?thesis
    using frame_opens [OF assms(1), of C key call n plaintext]
    by (simp add: media_decode_iff receive_own assms(6))
qed

text \<open>A call of three, carried by a relay outside it.\<close>

definition plain_swarm :: "b32 swarm" where
  "plain_swarm = \<lparr>sw_peer_id = (\<lambda>i. i), sw_from_peer_id = Some, sw_request_id = id, sw_query_id = id\<rparr>"

definition carrying :: media_guard where
  "carrying = fst (try_carry (media_guard_new media_limits_default) 50 [1, 2, 3])"

definition spoken :: media_envelope where
  "spoken = \<lparr>me_call = 50, me_from = 1, me_to = Participants, me_frame = seal_frame demo demo_sealing 77 50 4 [10, 20]\<rparr>"

lemma carrying_simps:
  "bm_get (mg_calls carrying) 50 = Some [1, 2, 3]" "mg_allowance carrying = 2 * 1024 * 1024"
  by (simp_all add: carrying_def try_carry_def media_guard_new_def media_limits_default_def bs_collect_def
      bm_contains_def Let_def word_less_def)

theorem relayed_frame_heard_witness:
  "mo_sent (receive_media plain_swarm 9 1 spoken carrying) = [(2, spoken\<lparr>me_to := One 2\<rparr>), (3, spoken\<lparr>me_to := One 3\<rparr>)]
   \<and> open_frame demo demo_sealing 77 50 (me_frame spoken) = Inr [10, 20]"
proof -
  have rest: "[2, 3] = filter (\<lambda>p. p \<noteq> 1 \<and> p \<noteq> (9::b32)) [1, 2, 3]"
    by simp
  have cost: "saturating_mul_u64 (of_nat (length [10::byte, 20] + 16)) (of_nat (length [2::b32, 3])) \<le> mg_allowance carrying"
    by (simp add: carrying_simps saturating_mul_u64_def word_le_def)
  from relayed_frame_heard [OF demo_aead carrying_simps(1) _ _ _ spoken_def rest cost
      refl [of "receive_media plain_swarm 9 (sw_peer_id plain_swarm 1) spoken carrying"], where G = carrying]
  show ?thesis
    by (simp add: max_frame_bytes_def plain_swarm_def spoken_def)
qed

theorem relay_forwards_only_witness:
  "2 \<in> set [1, 2, 3 :: b32] \<and> sw_peer_id plain_swarm (me_from spoken) = 1"
proof -
  have "(2, spoken\<lparr>me_to := One 2\<rparr>) \<in> set (mo_sent (receive_media plain_swarm 9 1 spoken carrying))"
    by (simp add: receive_media_def spoken_def plain_swarm_def authorize_frame_def carrying_simps Let_def
        seal_frame_def demo_sealing_def saturating_mul_u64_def word_less_def send_media_def)
  from relay_forwards_only [OF this] show ?thesis
    by (auto simp: carrying_simps spoken_def)
qed

theorem invite_delivers_key_witness:
  "\<exists>env. envelope_seal demo demo_sealing (\<lambda>s t. Some (s + t)) (who 1) 2 50 77 = Inr env
     \<and> envelope_open demo demo_sealing (\<lambda>s t. Some (s + t)) env (who 2) = Inr 77
     \<and> envelope_open demo demo_sealing (\<lambda>s t. Some (s + t)) env (who 3) = Inl NotTheRecipient"
proof -
  have "agree_symmetric demo (\<lambda>s t. Some (s + t))"
    by (simp add: agree_symmetric_def add.commute)
  moreover have "(\<lambda>s t. Some (s + t)) (pni_secret (who 1)) (pni_id demo (who 2)) = Some 3"
    by (simp add: who_def pni_id_def)
  ultimately obtain env where "envelope_seal demo demo_sealing (\<lambda>s t. Some (s + t)) (who 1) 2 50 77 = Inr env"
    "envelope_open demo demo_sealing (\<lambda>s t. Some (s + t)) env (who 2) = Inr 77"
    "\<forall>other. pni_id demo other \<noteq> 2 \<longrightarrow>
       envelope_open demo demo_sealing (\<lambda>s t. Some (s + t)) env other = Inl NotTheRecipient"
    using invite_delivers_key [OF demo_sign_correct demo_aead, of "\<lambda>s t. Some (s + t)" "who 1" "who 2" 3 50 77 plain_swarm]
    by (simp only: who_simps) blast
  then show ?thesis
    by (intro exI [of _ env]) simp
qed

text \<open>
  The nonce of a frame is fixed by the call and the sequence number, and every participant seals with
  the one call key: two of them that send a frame of the same number use the same key and nonce. With
  a cipher that masks its input, as a stream cipher does, the two ciphertexts give away the
  difference of the two plaintexts to whoever carries them.
\<close>

lemma equal_sequences_leak:
  assumes "\<And>m. take (length m) (xchacha_seal S key (frame_nonce C call n) m) = map2 xor m (keystream (length m))"
    and "length m1 = length m2" and "length (keystream (length m1)) = length m1"
  shows "map2 xor (take (length m1) (fr_ciphertext (seal_frame C S key call n m1)))
           (take (length m2) (fr_ciphertext (seal_frame C S key call n m2))) = map2 xor m1 m2"
  unfolding seal_frame_def media_frame.simps assms(1)
  using assms(2,3) by (auto intro!: nth_equalityI simp: xor.assoc xor.commute xor.left_commute)

end
