(* ===== verification/Broadcast.thy ===== *)
theory Broadcast
  imports Realtime Contribution
begin

text \<open>
  Live broadcasts: what the window of a stream holds after any production, that viewers are sources only
  for what is still in it, who carries the first tier, and which recordings become content.
\<close>

section \<open>The live window\<close>

definition newest_chunks :: "nat \<Rightarrow> ('k, 'v) btree_map \<Rightarrow> ('k, 'v) btree_map" where
  "newest_chunks n m = drop (length m - n) m"

lemma bm_remove_hd: "bm_ok (p # m) \<Longrightarrow> bm_remove (fst p) (p # m) = m"
  by (auto simp: bm_remove_def filter_id_conv)

lemma trim_chunks: "bm_ok chunks \<Longrightarrow> fst (trim_window n chunks holders) = newest_chunks n chunks"
proof (induction n chunks holders rule: trim_window.induct)
  case (1 n chunks holders)
  show ?case
  proof (cases "length chunks > n")
    case True
    then obtain p m where chunks: "chunks = p # m"
      by (cases chunks) auto
    then have "fst (trim_window n m (bm_remove (fst p) holders)) = newest_chunks n m"
      using 1(1) [of "fst p" "map fst m"] 1(2) True bm_remove_hd [of p m] by (simp add: bm_keys_def)
    then show ?thesis
      using True 1(2) bm_remove_hd [of p m] chunks
      by (subst trim_window.simps) (simp add: bm_keys_def newest_chunks_def Suc_diff_le less_Suc_eq_le)
  next
    case False
    then show ?thesis
      by (subst trim_window.simps) (simp add: newest_chunks_def)
  qed
qed

lemma trim_holders:
  "bm_ok holders \<Longrightarrow> dom (bm_get holders) = dom (bm_get chunks) \<Longrightarrow>
     bm_ok (snd (trim_window n chunks holders))
     \<and> dom (bm_get (snd (trim_window n chunks holders))) = dom (bm_get (fst (trim_window n chunks holders)))
     \<and> (\<forall>j s. bm_get (snd (trim_window n chunks holders)) j = Some s \<longrightarrow> bm_get holders j = Some s)"
proof (induction n chunks holders rule: trim_window.induct)
  case (1 n chunks holders)
  show ?case
  proof (cases "length chunks > n")
    case True
    then obtain k ks where keys: "bm_keys chunks = k # ks"
      by (cases chunks) (auto simp: bm_keys_def)
    let ?t = "trim_window n (bm_remove k chunks) (bm_remove k holders)"
    have "bm_ok (snd ?t) \<and> dom (bm_get (snd ?t)) = dom (bm_get (fst ?t))
        \<and> (\<forall>j s. bm_get (snd ?t) j = Some s \<longrightarrow> bm_get (bm_remove k holders) j = Some s)"
      by (rule 1(1) [OF True keys bm_ok_remove [OF 1(2)]]) (use 1(3) in \<open>auto simp: dom_def fun_eq_iff split: if_splits\<close>)
    moreover have "trim_window n chunks holders = ?t"
      using True keys by (subst trim_window.simps) simp
    moreover have "bm_get (bm_remove k holders) j = Some s \<Longrightarrow> bm_get holders j = Some s" for j s
      by (simp split: if_splits)
    ultimately show ?thesis
      by metis
  next
    case False
    then have "trim_window n chunks holders = (chunks, holders)"
      by (subst trim_window.simps) simp
    then show ?thesis
      using 1(2,3) by simp
  qed
qed

lemma bm_insert_append_high:
  "(\<forall>x\<in>set A. fst x < k) \<Longrightarrow> bm_insert k v (A @ B) = A @ bm_insert k v B"
  by (induction A) auto

lemma bm_insert_append_low:
  "a \<in> set A \<Longrightarrow> k \<le> fst a \<Longrightarrow> bm_ok A \<Longrightarrow> bm_insert k v (A @ B) = bm_insert k v A @ B"
proof (induction A)
  case (Cons p A)
  then show ?case
    by (cases p) (auto simp: not_less dest: le_less_trans)
qed simp

text \<open>Dropping what is too old before a chunk is added loses nothing that would be kept.\<close>

lemma newest_insert:
  assumes "bm_ok m"
  shows "newest_chunks n (bm_insert k v (newest_chunks n m)) = newest_chunks n (bm_insert k v m)"
proof (cases "length m \<le> n")
  case True
  then show ?thesis
    by (simp add: newest_chunks_def)
next
  case False
  define A B where "A = take (length m - n) m" and "B = drop (length m - n) m"
  have m: "m = A @ B" and B: "length B = n" "newest_chunks n m = B"
    using False by (simp_all add: A_def B_def newest_chunks_def)
  have sorted: "bm_ok A" "\<forall>a\<in>set A. \<forall>b\<in>set B. fst a < fst b"
    using assms by (auto simp: m bm_ok_def sorted_wrt_append)
  show ?thesis
  proof (cases "\<forall>x\<in>set A. fst x < k")
    case True
    then show ?thesis
      using length_bm_insert_ge [of B k v] B by (simp add: m bm_insert_append_high newest_chunks_def)
  next
    case False
    then obtain a where a: "a \<in> set A" "k \<le> fst a"
      by (auto simp: not_less)
    then have "\<forall>b\<in>set B. k < fst b"
      using sorted(2) by fastforce
    then have "bm_insert k v B = (k, v) # B"
      by (cases B) auto
    then show ?thesis
      using bm_insert_append_low [OF a sorted(1), of v B] B by (simp add: m newest_chunks_def)
  qed
qed

definition produce_all :: "(u64 \<times> b32) list \<Rightarrow> live_stream \<Rightarrow> live_stream" where
  "produce_all ps L = fold (\<lambda>(sequence, cid) L. produce_chunk L sequence cid) ps L"

lemma produce_chunk_simps:
  "ls_chunks (produce_chunk L k v) = fst (trim_window (ls_window L) (bm_insert k v (ls_chunks L))
     (bm_insert k (holders_entry k (ls_holders L)) (ls_holders L)))"
  "ls_holders (produce_chunk L k v) = snd (trim_window (ls_window L) (bm_insert k v (ls_chunks L))
     (bm_insert k (holders_entry k (ls_holders L)) (ls_holders L)))"
  "ls_window (produce_chunk L k v) = ls_window L" "ls_tier (produce_chunk L k v) = ls_tier L"
  by (simp_all add: produce_chunk_def split_beta)

lemma bm_ok_newest: "bm_ok m \<Longrightarrow> bm_ok (newest_chunks n m)"
  by (simp add: bm_ok_def newest_chunks_def sorted_wrt_drop flip: drop_map)

lemma window_tracks:
  "bm_ok m \<Longrightarrow> ls_chunks L = newest_chunks (ls_window L) m \<Longrightarrow>
     ls_chunks (produce_all ps L) = newest_chunks (ls_window L) (fold (\<lambda>(k, v). bm_insert k v) ps m)"
proof (induction ps arbitrary: L m)
  case (Cons p ps)
  obtain k v where p: "p = (k, v)" by (cases p)
  have "ls_chunks (produce_chunk L k v) = newest_chunks (ls_window L) (bm_insert k v m)"
    using Cons.prems bm_ok_newest [of m] by (simp add: produce_chunk_simps trim_chunks newest_insert)
  then show ?case
    using Cons.IH [of "bm_insert k v m" "produce_chunk L k v"] Cons.prems
    by (simp add: p produce_all_def produce_chunk_simps)
qed (simp add: produce_all_def)

text \<open>
  C32. The live window is the newest part of the broadcast. In whatever order chunks are produced, also
  late and repeated ones, a stream holds the chunks with the highest sequence numbers among all
  produced, each with the content last produced under its number, oldest first, and never more than the
  window allows.
\<close>

theorem live_window_newest:
  "live_window (produce_all ps (stream_start C stream L tier_size window)) =
     drop (length (bm_collect ps) - window) (bm_collect ps)"
  using window_tracks [of "[]" "stream_start C stream L tier_size window" ps]
  by (simp add: live_window_def stream_start_def newest_chunks_def bm_collect_def)

section \<open>Sources\<close>

inductive stream_step :: "live_stream \<Rightarrow> live_stream \<Rightarrow> bool" where
  produce: "stream_step L (produce_chunk L sequence cid)"
| hold: "stream_step L (record_holder L sequence viewer)"
| retier: "stream_step L (recompute_tier C L ledger)"

definition stream_ok :: "live_stream \<Rightarrow> bool" where
  "stream_ok L \<longleftrightarrow>
     bm_ok (ls_chunks L) \<and> bm_ok (ls_holders L) \<and> dom (bm_get (ls_holders L)) = dom (bm_get (ls_chunks L))
     \<and> length (ls_chunks L) \<le> ls_window L \<and> (\<forall>k s. bm_get (ls_holders L) k = Some s \<longrightarrow> bs_ok s)"

lemma holders_entry_ok:
  "\<forall>k s. bm_get holders k = Some s \<longrightarrow> bs_ok s \<Longrightarrow> bs_ok (holders_entry n holders)"
  by (auto simp: holders_entry_def split: option.split)

lemma produce_ok:
  assumes "stream_ok L"
  shows "stream_ok (produce_chunk L k v)"
proof -
  let ?h = "bm_insert k (holders_entry k (ls_holders L)) (ls_holders L)" and ?c = "bm_insert k v (ls_chunks L)"
  let ?t = "trim_window (ls_window L) ?c ?h"
  have ok: "bm_ok ?h" "dom (bm_get ?h) = dom (bm_get ?c)" "bm_ok ?c"
    using assms by (simp_all add: stream_ok_def)
  have "\<forall>n s. bm_get ?h n = Some s \<longrightarrow> bs_ok s"
    using assms holders_entry_ok [of "ls_holders L" k] by (simp add: stream_ok_def)
  then have "\<forall>n s. bm_get (snd ?t) n = Some s \<longrightarrow> bs_ok s"
    using trim_holders [OF ok(1,2), of "ls_window L"] by blast
  then show ?thesis
    using trim_holders [OF ok(1,2), of "ls_window L"] trim_chunks [OF ok(3), of "ls_window L" ?h] bm_ok_newest [OF ok(3)]
    by (simp add: stream_ok_def produce_chunk_simps newest_chunks_def)
qed

lemma stream_step_ok: "stream_step L L' \<Longrightarrow> stream_ok L \<Longrightarrow> stream_ok L' \<and> ls_window L' = ls_window L"
proof (induction rule: stream_step.induct)
  case (hold L k viewer)
  then have "bs_ok (holders_entry k (ls_holders L))"
    using holders_entry_ok by (simp add: stream_ok_def)
  then show ?case
    using hold by (auto simp: stream_ok_def record_holder_def bm_contains_def dom_def)
qed (simp_all add: produce_ok produce_chunk_simps, simp add: stream_ok_def recompute_tier_def)

text \<open>
  A viewer is a source only for a fresh chunk. Whatever is produced, held and recomputed, the stream
  keeps no more chunks than its window, it lists sources exactly for chunks in the window, each source
  once, and a chunk that aged out has none.
\<close>

theorem sources_are_fresh:
  assumes "stream_step\<^sup>*\<^sup>* (stream_start C stream ledger tier_size window) L"
  shows "length (live_window L) \<le> window \<and> distinct (sources_for L n)
    \<and> (sources_for L n \<noteq> [] \<longrightarrow> n \<in> fst ` set (live_window L))"
proof -
  have "stream_ok L \<and> ls_window L = window"
    using assms
  proof (induction rule: rtranclp_induct)
    case base
    then show ?case
      by (simp add: stream_ok_def stream_start_def)
  next
    case (step L L')
    then show ?case
      using stream_step_ok [of L L'] by simp
  qed
  moreover from this have "sources_for L n \<noteq> [] \<longrightarrow> n \<in> dom (bm_get (ls_chunks L))"
    by (auto simp: stream_ok_def sources_for_def holders_entry_def split: option.splits)
  ultimately show ?thesis
    using holders_entry_ok [of "ls_holders L" n]
    by (simp add: stream_ok_def live_window_def sources_for_def bs_ok_distinct dom_map_of_conv_image_fst)
qed

theorem sources_are_fresh_witness:
  "length (live_window (record_holder (stream_start demo 5 (ledger_new 7) 3 2) 1 4)) \<le> 2"
proof -
  have "stream_step\<^sup>*\<^sup>* (stream_start demo 5 (ledger_new 7) 3 2) (record_holder (stream_start demo 5 (ledger_new 7) 3 2) 1 4)"
    by (rule r_into_rtranclp) (rule stream_step.hold)
  from sources_are_fresh [OF this] show ?thesis
    by blast
qed

section \<open>Recordings\<close>

lemma first_gap_None:
  "first_gap xs = None \<longleftrightarrow> (\<forall>i. Suc i < length xs \<longrightarrow> fst (xs ! Suc i) = fst (xs ! i) + 1)"
proof (induction xs rule: first_gap.induct)
  case (1 a c b d rest)
  then show ?case
    by (auto simp: nth_Cons split: nat.split)
qed auto

text \<open>The chunk numbers of a sequence without gaps, in a sorted list: they never wrap.\<close>

lemma gapless_sequence:
  assumes "sorted (map fst xs)" and "\<forall>i. Suc i < length xs \<longrightarrow> fst (xs ! Suc i) = fst (xs ! i) + (1::u64)"
    and "i < length xs"
  shows "unat (fst (xs ! i)) = unat (fst (xs ! 0)) + i"
  using assms(3)
proof (induction i)
  case (Suc i)
  then have eq: "fst (xs ! Suc i) = fst (xs ! i) + 1"
    using assms(2) by simp
  have "fst (xs ! i) \<le> fst (xs ! Suc i)"
    using sorted_nth_mono [OF assms(1), of i "Suc i"] Suc.prems by simp
  then have "1 + fst (xs ! i) \<noteq> 0"
    unfolding eq by (metis add.commute add_0 word_le_0_iff zero_neq_one)
  then show ?case
    using eq Suc unatSuc [of "fst (xs ! i)"] by (simp add: add.commute)
qed simp

lemma consecutive_sorted:
  assumes "mset ordered = mset chunks" and "\<forall>i<length ordered. unat (fst (ordered ! i) :: u64) = first + i"
  shows "ordered = sort_key fst chunks" and "first_gap ordered = None"
proof -
  let ?xs = "sort_key fst chunks"
  have "bs_ok (map fst ordered)"
    using assms(2) by (simp add: bs_ok_def sorted_wrt_iff_nth_less word_less_nat_alt)
  then have ordered: "sorted (map fst ordered)" "distinct (map fst ordered)"
    by (rule bs_ok_sorted, rule bs_ok_distinct)
  moreover have "distinct (map fst ?xs)"
    using ordered(2) assms(1) by (metis mset_eq_imp_distinct_iff mset_map mset_sort)
  moreover have "set ordered = set ?xs"
    using assms(1) by (metis set_mset_mset mset_sort)
  ultimately show "ordered = ?xs"
    by (intro map_sorted_distinct_set_unique [where f = fst]) (simp_all add: distinct_map)
  have "fst (ordered ! Suc i) = fst (ordered ! i) + 1" if "Suc i < length ordered" for i
  proof -
    have "unat (fst (ordered ! Suc i)) = Suc (unat (fst (ordered ! i)))"
      using that assms(2) by simp
    then have "of_nat (unat (fst (ordered ! Suc i))) = (of_nat (Suc (unat (fst (ordered ! i)))) :: u64)"
      by simp
    then show ?thesis
      by simp
  qed
  then show "first_gap ordered = None"
    by (simp add: first_gap_None)
qed

text \<open>
  C33. A recording is complete or there is none. With retention on, chunks become content exactly when there
  are some and their sequence numbers, in any order of the argument, are consecutive without a
  repetition; the content then lists the chunks in the order of their numbers, so that the chunk at
  position i is the one numbered i above the first.
\<close>

theorem recording_complete:
  "into_vod chunks len VodEnabled = Inr (Some m) \<longleftrightarrow>
     chunks \<noteq> [] \<and> mf_plaintext_len m = len \<and>
     (\<exists>first ordered. mset ordered = mset chunks \<and> mf_chunks m = map snd ordered
        \<and> (\<forall>i<length ordered. unat (fst (ordered ! i)) = first + i))"
proof -
  let ?xs = "sort_key fst chunks"
  have run: "into_vod chunks len VodEnabled = Inr (Some m) \<longleftrightarrow>
      chunks \<noteq> [] \<and> first_gap ?xs = None \<and> m = \<lparr>mf_chunks = map snd ?xs, mf_plaintext_len = len\<rparr>"
    by (auto simp: into_vod_def Let_def split: option.splits)
  have forth: "\<exists>first. \<forall>i<length ?xs. unat (fst (?xs ! i)) = first + i" if "first_gap ?xs = None"
    using that gapless_sequence [of ?xs] by (auto simp: first_gap_None)
  show ?thesis
  proof
    assume "into_vod chunks len VodEnabled = Inr (Some m)"
    then have m: "chunks \<noteq> []" "first_gap ?xs = None" "m = \<lparr>mf_chunks = map snd ?xs, mf_plaintext_len = len\<rparr>"
      by (simp_all add: run)
    obtain first where "\<forall>i<length ?xs. unat (fst (?xs ! i)) = first + i"
      using forth [OF m(2)] by blast
    then show "chunks \<noteq> [] \<and> mf_plaintext_len m = len \<and>
        (\<exists>first ordered. mset ordered = mset chunks \<and> mf_chunks m = map snd ordered
          \<and> (\<forall>i<length ordered. unat (fst (ordered ! i)) = first + i))"
      using m(1,3) by (intro conjI exI [of _ first] exI [of _ ?xs]) simp_all
  next
    assume "chunks \<noteq> [] \<and> mf_plaintext_len m = len \<and>
        (\<exists>first ordered. mset ordered = mset chunks \<and> mf_chunks m = map snd ordered
          \<and> (\<forall>i<length ordered. unat (fst (ordered ! i)) = first + i))"
    then obtain first ordered where "mset ordered = mset chunks" "mf_chunks m = map snd ordered"
      "\<forall>i<length ordered. unat (fst (ordered ! i)) = first + i" "chunks \<noteq> []" "mf_plaintext_len m = len"
      by blast
    moreover from this have "ordered = ?xs" "first_gap ordered = None"
      using consecutive_sorted by blast+
    ultimately show "into_vod chunks len VodEnabled = Inr (Some m)"
      unfolding run by (cases m) simp
  qed
qed

theorem recording_complete_witness:
  "into_vod [(3, 30), (2, 20), (4, 40)] 9 VodEnabled =
     Inr (Some \<lparr>mf_chunks = [20, 30, 40], mf_plaintext_len = 9\<rparr>)"
proof -
  have "\<forall>i<length [(2::u64, 20::b32), (3, 30), (4, 40)]. unat (fst ([(2::u64, 20::b32), (3, 30), (4, 40)] ! i)) = 2 + i"
    by (simp add: All_less_Suc)
  then show ?thesis
    unfolding recording_complete by (intro conjI exI [of _ 2] exI [of _ "[(2, 20), (3, 30), (4, 40)]"]) simp_all
qed

text \<open>Each of the three ways to end a broadcast without content has its own answer.\<close>

lemma recording_refused:
  "into_vod chunks len VodDisabled = Inr None" "into_vod [] len VodEnabled = Inl EmptyBroadcast"
  "into_vod [(1, a), (2, b), (4, c)] len VodEnabled = Inl (ChunkSequenceGap 2 4)"
  by (simp_all add: into_vod_def Let_def word_le_def)

section \<open>The first tier\<close>

text \<open>
  The tier consists of nodes that offer media relaying with some upload, the same on every node that
  holds the same ledger entries, and it needs no recomputation as long as the ledger does not change.
\<close>

lemma tier_members:
  assumes "node \<in> set (assign_tier C stream L n)"
  shows "\<exists>a\<in>set (bm_values (cl_entries L)). ca_node a = node \<and> relay_media_willing a
    \<and> 0 < up_bytes_per_sec (ca_bandwidth a)"
proof -
  obtain x where "x \<in> set (rank C (put_fixed32 stream) (media_relay_candidates L) BandwidthUp)" "node = sc_node x"
    using assms by (auto simp: assign_tier_def select_def dest: in_set_takeD)
  then show ?thesis
    by (auto simp: rank_def List.map_filter_def scored_def media_relay_candidates_def Let_def split: if_splits)
qed

theorem fresh_tier_stable:
  assumes "\<forall>(node, a)\<in>set (cl_entries L). ca_node a = node" and "bm_ok (cl_entries L)"
  shows "\<not> tier_needs_recompute (recompute_tier C S L) L"
proof -
  have "\<exists>a. bm_get (cl_entries L) node = Some a \<and> relay_media_willing a"
    if "node \<in> set (assign_tier C (ls_stream S) L (ls_tier_size S))" for node
    using tier_members [OF that] assms by (fastforce simp: bm_values_def bm_ok_map_of)
  then show ?thesis
    by (fastforce simp: tier_needs_recompute_def recompute_tier_def)
qed

end
