(* ===== verification/Hosting.thy ===== *)
theory Hosting
  imports Pointer Sample
begin

text \<open>
  Application hosting, \<open>intranet-app\<close>: registry.rs (the name registry and its discovery index) and manifest.rs
  (manifests and the review of publishes).

  Ownership of a name is a matter of the replayed governance state; the index is a collection any member
  adds to. What is shown is that the index cannot contradict the state, that the hand-written parser of
  a listing is the decoder the rest of the program uses, and that review applies to every version.
\<close>

section \<open>Errors and constants\<close>

datatype app_error =
    AppBadSignature
  | AppHostingNotEnabled string
  | NotAuthorizedToApprove string

definition approve_app_publish :: string where
  "approve_app_publish = ''approve-app-publish''"

definition app_bundle_content_type :: string where
  "app_bundle_content_type = ''app-bundle''"

definition directory_collection_name :: string where
  "directory_collection_name = ''app-registry''"

section \<open>The registry\<close>

definition register_capabilities :: "network_policy \<Rightarrow> network_policy" where
  "register_capabilities p =
     p\<lparr>extension_capabilities :=
       bm_insert approve_app_publish Governance
         (bm_insert reclaim_app_name Governance
           (bm_insert register_app_name Ordinary (extension_capabilities p)))\<rparr>"

definition name_registration_entry ::
  "crypto \<Rightarrow> per_network_identity \<Rightarrow> b32 \<Rightarrow> i64 \<Rightarrow> string \<Rightarrow> b32 \<Rightarrow> log_entry" where
  "name_registration_entry C registrant parent timestamp name app_id =
     entry_create C registrant (Some parent) timestamp (AppNameRegistration name app_id)"

definition directory_collection :: "crypto \<Rightarrow> b32 \<Rightarrow> b32" where
  "directory_collection C network = collection_id C network directory_collection_name"

record directory_listing =
  dl_name :: string
  dl_app_id :: b32
  dl_title :: string
  dl_description :: string

definition listing_tag :: string where
  "listing_tag = ''intranet.app-directory-listing.v1''"

definition put_listing :: "directory_listing \<Rightarrow> bytes" where
  "put_listing l = put_str (dl_name l) @ put_fixed32 (dl_app_id l) @ put_str (dl_title l) @ put_str (dl_description l)"

definition to_payload :: "directory_listing \<Rightarrow> bytes" where
  "to_payload l = enc_domain listing_tag @ put_listing l"

definition announce_listing :: "crypto \<Rightarrow> directory_listing \<Rightarrow> per_network_identity \<Rightarrow> b32 \<Rightarrow> append_entry_rec" where
  "announce_listing C l publisher network =
     ae_create C publisher (directory_collection C network) (to_payload l) (Some (dl_app_id l))"

record resolved_name =
  rn_name :: string
  rn_record :: app_name_record
  rn_delisted :: bool

definition resolve :: "string \<Rightarrow> governance_state \<Rightarrow> resolved_name option" where
  "resolve name st =
     map_option (\<lambda>r. \<lparr>rn_name = name, rn_record = r, rn_delisted = is_delisted st (an_app_id r)\<rparr>)
       (resolve_app_name st name)"

text \<open>The cursor is the position in the payload; \<open>checked_add\<close> fails where the sum leaves 64 bits.\<close>

definition listing_slice :: "bytes \<Rightarrow> nat \<Rightarrow> nat \<Rightarrow> (bytes \<times> nat) option" where
  "listing_slice payload cursor len =
     (if cursor + len < 2 ^ 64 \<and> cursor + len \<le> length payload
      then Some (take len (drop cursor payload), cursor + len) else None)"

definition listing_framed :: "bytes \<Rightarrow> nat \<Rightarrow> (string \<times> nat) option" where
  "listing_framed payload cursor =
     Option.bind (listing_slice payload cursor 8) (\<lambda>(len_bytes, cursor).
     Option.bind (listing_slice payload cursor (be_val len_bytes)) (\<lambda>(b, cursor).
       if utf8_ok b then Some (bytes_str b, cursor) else None))"

definition parse_listing :: "bytes \<Rightarrow> directory_listing option" where
  "parse_listing payload =
     Option.bind (listing_framed payload 0) (\<lambda>(tag, cursor).
       if tag \<noteq> listing_tag then None
       else
         Option.bind (listing_framed payload cursor) (\<lambda>(name, cursor).
         Option.bind (listing_slice payload cursor 32) (\<lambda>(app_id, cursor).
         Option.bind (listing_framed payload cursor) (\<lambda>(title, cursor).
         Option.bind (listing_framed payload cursor) (\<lambda>(description, cursor).
           if cursor = length payload
           then Some \<lparr>dl_name = name, dl_app_id = of_nat (be_val app_id), dl_title = title, dl_description = description\<rparr>
           else None)))))"

definition browse_entry :: "governance_state \<Rightarrow> append_entry_rec \<Rightarrow> (directory_listing \<times> resolved_name) option" where
  "browse_entry st e =
     Option.bind (parse_listing (ae_payload e)) (\<lambda>listing.
     Option.bind (resolve (dl_name listing) st) (\<lambda>resolved.
       if an_app_id (rn_record resolved) \<noteq> dl_app_id listing then None else Some (listing, resolved)))"

definition browse :: "append_set_view \<Rightarrow> governance_state \<Rightarrow> (directory_listing \<times> resolved_name) list \<times> bool" where
  "browse view st =
     (sort_key (\<lambda>(l, _). dl_name l) (List.map_filter (browse_entry st) (bm_values (av_entries view))), av_truncated view)"

definition is_available :: "string \<Rightarrow> governance_state \<Rightarrow> bool" where
  "is_available name st \<longleftrightarrow> resolve_app_name st name = None"

fun unregistered :: "network_policy \<Rightarrow> string list \<Rightarrow> string option" where
  "unregistered p [] = None"
| "unregistered p (c # cs) = (if extension_tier p c = None then Some c else unregistered p cs)"

definition supports_app_hosting :: "governance_state \<Rightarrow> app_error + unit" where
  "supports_app_hosting st =
     (if \<not> policy_allows_content_type (gs_policy st) ''app-bundle''
      then Inl (AppHostingNotEnabled ''app-bundle is not on this network's content-type allowlist'')
      else case unregistered (gs_policy st) [register_app_name, reclaim_app_name] of
             Some c \<Rightarrow> Inl (AppHostingNotEnabled (''capability '' @ [CHR 0x27] @ c @ [CHR 0x27] @ '' is not registered in policy''))
           | None \<Rightarrow> Inr ())"

section \<open>Manifests\<close>

datatype requested_capability = NetworkStorageRead | NetworkStorageWrite | NetworkCall | RealtimeMedia

fun is_enforced :: "requested_capability \<Rightarrow> bool" where
  "is_enforced NetworkStorageRead = True"
| "is_enforced NetworkStorageWrite = True"
| "is_enforced _ = False"

fun requested_tag :: "requested_capability \<Rightarrow> u8" where
  "requested_tag NetworkStorageRead = 0"
| "requested_tag NetworkStorageWrite = 1"
| "requested_tag NetworkCall = 2"
| "requested_tag RealtimeMedia = 3"

record app_manifest =
  am_app_id :: b32
  am_name :: string
  am_description :: string
  am_version :: u64
  am_entry_point :: string
  am_requested :: "requested_capability list"
  am_publisher :: b32
  am_signature :: b64

definition am_payload ::
  "b32 \<Rightarrow> string \<Rightarrow> string \<Rightarrow> u64 \<Rightarrow> string \<Rightarrow> requested_capability list \<Rightarrow> b32 \<Rightarrow> bytes" where
  "am_payload app_id name description version entry_point requested publisher =
     enc_domain ''intranet.app-manifest.v1'' @ put_fixed32 app_id @ put_str name @ put_str description
       @ put_u64 version @ put_str entry_point @ put_seq (\<lambda>c. put_u8 (requested_tag c)) requested
       @ put_fixed32 publisher"

definition am_create ::
  "crypto \<Rightarrow> per_network_identity \<Rightarrow> b32 \<Rightarrow> string \<Rightarrow> string \<Rightarrow> u64 \<Rightarrow> string \<Rightarrow> requested_capability list
     \<Rightarrow> app_manifest" where
  "am_create C publisher app_id name description version entry_point requested =
     \<lparr>am_app_id = app_id, am_name = name, am_description = description, am_version = version,
      am_entry_point = entry_point, am_requested = requested, am_publisher = pni_id C publisher,
      am_signature = pni_sign C publisher
        (am_payload app_id name description version entry_point requested (pni_id C publisher))\<rparr>"

definition payload_of_am :: "app_manifest \<Rightarrow> bytes" where
  "payload_of_am m =
     am_payload (am_app_id m) (am_name m) (am_description m) (am_version m) (am_entry_point m) (am_requested m)
       (am_publisher m)"

definition am_verify :: "crypto \<Rightarrow> app_manifest \<Rightarrow> app_error + unit" where
  "am_verify C m =
     (case vk_verify C (am_publisher m) (payload_of_am m) (am_signature m) of
        Inl _ \<Rightarrow> Inl AppBadSignature | Inr u \<Rightarrow> Inr u)"

definition enforceable_capabilities :: "app_manifest \<Rightarrow> requested_capability list" where
  "enforceable_capabilities m = filter is_enforced (am_requested m)"

section \<open>Review\<close>

datatype publishing_policy = OpenPublishing | ReviewedPublishing

record pending_publish =
  pp_app_id :: b32
  pp_version :: u64
  pp_publisher :: b32

record review_queue =
  rq_approved :: "(b32 \<times> u64) btree_set"
  rq_pending :: "(b32 \<times> u64, pending_publish) btree_map"

definition review_new :: review_queue where
  "review_new = \<lparr>rq_approved = [], rq_pending = []\<rparr>"

definition review_submit :: "review_queue \<Rightarrow> pending_publish \<Rightarrow> review_queue" where
  "review_submit Q publish = Q\<lparr>rq_pending := bm_insert (pp_app_id publish, pp_version publish) publish (rq_pending Q)\<rparr>"

definition review_approve ::
  "review_queue \<Rightarrow> b32 \<Rightarrow> u64 \<Rightarrow> b32 \<Rightarrow> governance_state \<Rightarrow> app_error + review_queue" where
  "review_approve Q app_id version approver st =
     (if \<not> identity_holds st approver (Extension approve_app_publish)
      then Inl (NotAuthorizedToApprove (short approver))
      else Inr (Q\<lparr>rq_pending := bm_remove (app_id, version) (rq_pending Q),
                  rq_approved := bs_insert (app_id, version) (rq_approved Q)\<rparr>))"

definition review_pending :: "review_queue \<Rightarrow> pending_publish list" where
  "review_pending Q = bm_values (rq_pending Q)"

definition is_servable :: "review_queue \<Rightarrow> b32 \<Rightarrow> u64 \<Rightarrow> publishing_policy \<Rightarrow> bool" where
  "is_servable Q app_id version policy \<longleftrightarrow>
     (case policy of OpenPublishing \<Rightarrow> True | ReviewedPublishing \<Rightarrow> (app_id, version) \<in> set (rq_approved Q))"

section \<open>Listings\<close>

definition listing_ok :: "directory_listing \<Rightarrow> bool" where
  "listing_ok l \<longleftrightarrow> str_ok (dl_name l) \<and> str_ok (dl_title l) \<and> str_ok (dl_description l)"

text \<open>
  What the cursor passes: from a position inside the payload a field is read exactly when its encoding
  stands there, and the cursor moves behind it.
\<close>

lemma be_val_eight: "length b = 8 \<Longrightarrow> be_val b < 2 ^ 64"
  using be_val_bound [of b] by simp

lemma framed_dec:
  assumes "c \<le> length p" and "length p < 2 ^ 64"
  shows "listing_framed p c =
    (case dec_str (drop c p) of Inl _ \<Rightarrow> None | Inr (s, r) \<Rightarrow> Some (s, length p - length r))"
proof (cases "length (drop c p) < 8")
  case True
  then have "listing_slice p c 8 = None"
    using assms(1) by (auto simp: listing_slice_def)
  then show ?thesis
    using True by (simp add: listing_framed_def dec_str_def dec_bytes_def dec_length_def dec_u64_def rbind_def dec_take_def)
next
  case False
  have "be_val (take 8 (drop c p)) < 2 ^ 64"
    using False by (intro be_val_eight) simp
  then have "unat (of_nat (be_val (take 8 (drop c p))) :: u64) = be_val (take 8 (drop c p))"
    by (simp add: unat_of_nat)
  then show ?thesis
    using assms False
    by (auto simp: listing_framed_def listing_slice_def dec_str_def dec_bytes_def dec_length_def dec_u64_def rbind_def
        rret_def rfail_def dec_take_def add.commute add.left_commute)
qed

lemma suffix_cursor: "c \<le> length p \<Longrightarrow> drop c p = x @ r \<Longrightarrow> drop (length p - length r) p = r"
proof -
  assume "c \<le> length p" and "drop c p = x @ r"
  then have "p = (take c p @ x) @ r"
    by (metis append.assoc append_take_drop_id)
  then show ?thesis
    by (metis append_eq_conv_conj diff_add_inverse2 length_append)
qed

lemma framed_iff:
  assumes "c \<le> length p" and "length p < 2 ^ 64"
  shows "listing_framed p c = Some (s, c') \<longleftrightarrow> str_ok s \<and> drop c p = put_str s @ drop c' p \<and> c' \<le> length p"
proof -
  have dec: "dec_str b = Inr (t, r) \<longleftrightarrow> str_ok t \<and> b = put_str t @ r" for b t r
    using str.get_put str.get_exact by blast
  have "listing_framed p c = Some (s, c') \<longleftrightarrow> (\<exists>r. dec_str (drop c p) = Inr (s, r) \<and> c' = length p - length r)"
    by (auto simp: framed_dec [OF assms] split: sum.splits)
  also have "\<dots> \<longleftrightarrow> str_ok s \<and> drop c p = put_str s @ drop c' p \<and> c' \<le> length p"
    using suffix_cursor [OF assms(1), of "put_str s"] by (auto simp: dec)
  finally show ?thesis .
qed

lemma slice_iff:
  assumes "c \<le> length p" and "length p < 2 ^ 64"
  shows "listing_slice p c n = Some (b, c') \<longleftrightarrow> length b = n \<and> drop c p = b @ drop c' p \<and> c' \<le> length p"
proof
  assume "listing_slice p c n = Some (b, c')"
  then show "length b = n \<and> drop c p = b @ drop c' p \<and> c' \<le> length p"
    by (auto simp: listing_slice_def split: if_splits) (metis add.commute append_take_drop_id drop_drop)
next
  assume b: "length b = n \<and> drop c p = b @ drop c' p \<and> c' \<le> length p"
  then have "length p - c = n + (length p - c')"
    by (metis length_append length_drop)
  then have "c' = c + n"
    using b assms(1) by linarith
  then show "listing_slice p c n = Some (b, c')"
    using b assms by (simp add: listing_slice_def)
qed

lemma listing_tag_ok: "str_ok listing_tag"
  by (simp add: listing_tag_def str_ok_def str_bytes_def)

text \<open>
  C36. A listing is parsed exactly. The hand-written parser of the index, which moves a cursor with checked
  arithmetic over length-prefixed fields, accepts a payload of fewer than \<open>2 ^ 64\<close> bytes precisely when
  it is the encoding of a listing with well-formed text, and returns that listing; nothing can follow
  it, and no two payloads carry the same listing.
\<close>

theorem parse_listing_exact:
  assumes "length p < 2 ^ 64"
  shows "parse_listing p = Some l \<longleftrightarrow> listing_ok l \<and> p = to_payload l"
proof
  note fr = framed_iff [OF _ assms] and sl = slice_iff [OF _ assms]
  assume "parse_listing p = Some l"
  then obtain c1 n c2 b c3 t c4 d where steps: "listing_framed p 0 = Some (listing_tag, c1)" "listing_framed p c1 = Some (n, c2)"
    "listing_slice p c2 32 = Some (b, c3)" "listing_framed p c3 = Some (t, c4)" "listing_framed p c4 = Some (d, length p)"
    and l: "l = \<lparr>dl_name = n, dl_app_id = of_nat (be_val b), dl_title = t, dl_description = d\<rparr>"
    by (auto simp: parse_listing_def bind_eq_Some_conv split: if_splits prod.splits)
  have "p = put_str listing_tag @ drop c1 p" "c1 \<le> length p"
    using steps(1) fr [of 0] by simp_all
  moreover from this have "drop c1 p = put_str n @ drop c2 p" "c2 \<le> length p" "str_ok n"
    using steps(2) fr [of c1] by simp_all
  moreover from this have "drop c2 p = b @ drop c3 p" "c3 \<le> length p" "length b = 32"
    using steps(3) sl [of c2] by simp_all
  moreover from this have "drop c3 p = put_str t @ drop c4 p" "c4 \<le> length p" "str_ok t"
    using steps(4) fr [of c3] by simp_all
  moreover from this have "drop c4 p = put_str d" "str_ok d"
    using steps(5) fr [of c4] by simp_all
  moreover have "put_fixed32 (of_nat (be_val b)) = b" if "length b = 32"
    using that by (simp add: put_fixed32_def be_word(2))
  ultimately show "listing_ok l \<and> p = to_payload l"
    by (simp add: l listing_ok_def to_payload_def put_listing_def enc_domain_def)
next
  assume l: "listing_ok l \<and> p = to_payload l"
  let ?c1 = "length (put_str listing_tag)"
  let ?c2 = "?c1 + length (put_str (dl_name l))"
  let ?c3 = "?c2 + 32"
  let ?c4 = "?c3 + length (put_str (dl_title l))"
  have p: "p = put_str listing_tag @ put_str (dl_name l) @ put_fixed32 (dl_app_id l) @ put_str (dl_title l)
      @ put_str (dl_description l)"
    using l by (simp add: to_payload_def put_listing_def enc_domain_def)
  have ok: "str_ok (dl_name l)" "str_ok (dl_title l)" "str_ok (dl_description l)"
    using l by (simp_all add: listing_ok_def)
  have "listing_framed p 0 = Some (listing_tag, ?c1)"
    by (subst framed_iff [OF _ assms]) (simp_all add: p listing_tag_ok)
  moreover have "listing_framed p ?c1 = Some (dl_name l, ?c2)"
    by (subst framed_iff [OF _ assms]) (simp_all add: p ok)
  moreover have "listing_slice p ?c2 32 = Some (put_fixed32 (dl_app_id l), ?c3)"
    by (subst slice_iff [OF _ assms]) (simp_all add: p)
  moreover have "listing_framed p ?c3 = Some (dl_title l, ?c4)"
    by (subst framed_iff [OF _ assms]) (simp_all add: p ok)
  moreover have "listing_framed p ?c4 = Some (dl_description l, length p)"
    by (subst framed_iff [OF _ assms]) (simp_all add: p ok)
  ultimately show "parse_listing p = Some l"
    by (simp add: parse_listing_def put_fixed32_def be_word(1))
qed

definition wiki_listing :: directory_listing where
  "wiki_listing = \<lparr>dl_name = ''wiki'', dl_app_id = 300, dl_title = ''Wiki'', dl_description = ''Pages''\<rparr>"

theorem parse_listing_exact_witness:
  "parse_listing (to_payload wiki_listing) = Some wiki_listing
   \<and> parse_listing (to_payload wiki_listing @ [0]) \<noteq> Some wiki_listing"
proof -
  have size: "length (to_payload wiki_listing) < 1000"
    by (simp add: to_payload_def put_listing_def listing_tag_def wiki_listing_def)
  have "listing_ok wiki_listing"
    by (simp add: listing_ok_def wiki_listing_def str_ok_def str_bytes_def)
  then show ?thesis
    using parse_listing_exact [of "to_payload wiki_listing" wiki_listing]
      parse_listing_exact [of "to_payload wiki_listing @ [0]" wiki_listing] size by simp
qed

section \<open>Names and the index\<close>

text \<open>
  A name changes hands only with the power to reassign it. When the entry a client builds for a name is
  applied, its author holds the capability to claim names, or the one to reclaim them if the name was
  taken; afterwards the name resolves to the new application and owner, and every other name as before.
\<close>

theorem registration_settles_name:
  assumes "apply_entry C st (name_registration_entry C registrant parent t name app) = Inr st'"
  shows "identity_holds st (pni_id C registrant)
      (Extension (if is_available name st then register_app_name else reclaim_app_name))
    \<and> resolve_app_name st' n =
        (if n = name then Some \<lparr>an_app_id = app, an_owner = pni_id C registrant, an_registered_at = t\<rparr>
         else resolve_app_name st n)
    \<and> \<not> is_available name st'"
  using assms
  by (auto simp: apply_entry_def res_bind_Inr_iff name_registration_entry_def entry_create_def authorize_def mutate_def
      require_capability_def resolve_app_name_def is_available_def bm_contains_def Let_def split: if_splits)

definition claim_entry :: log_entry where
  "claim_entry = name_registration_entry demo (who 1) 5 60 ''wiki'' 300"

theorem registration_settles_name_witness:
  "\<exists>st'. apply_entry demo sample_state claim_entry = Inr st'
     \<and> resolve_app_name st' ''wiki'' = Some \<lparr>an_app_id = 300, an_owner = 1, an_registered_at = 60\<rparr>"
proof -
  have "\<exists>st'. apply_entry demo sample_state claim_entry = Inr st'"
    by (simp add: claim_entry_def name_registration_entry_def sample_state_def sample_defs)
  then obtain st' where st': "apply_entry demo sample_state claim_entry = Inr st'"
    by blast
  show ?thesis
    using registration_settles_name [OF st' [unfolded claim_entry_def], of "''wiki''"] st' by simp
qed

text \<open>
  What browsing shows, after the entries of the index were validated against the current state, is the
  listings of valid entries whose name the governance state resolves to the very application they
  point at, with the owner and the delisting on record there, sorted by name.
\<close>

lemma browse_truthful:
  "set (fst (browse (fst (av_revalidate C view st)) st)) =
     {(l, r). (\<exists>e\<in>set (bm_values (av_entries view)). ae_validate C e st = Inr () \<and> parse_listing (ae_payload e) = Some l)
        \<and> (\<exists>own. resolve_app_name st (dl_name l) = Some own \<and> an_app_id own = dl_app_id l
             \<and> r = \<lparr>rn_name = dl_name l, rn_record = own, rn_delisted = is_delisted st (dl_app_id l)\<rparr>)}
   \<and> sorted (map (\<lambda>(l, _). dl_name l) (fst (browse (fst (av_revalidate C view st)) st)))"
proof -
  have kept: "e \<in> set (bm_values (av_entries (fst (av_revalidate C view st)))) \<longleftrightarrow>
      e \<in> set (bm_values (av_entries view)) \<and> ae_validate C e st = Inr ()" for e
    by (auto simp: av_revalidate_def bm_values_def Let_def image_iff split: sum.splits) (metis snd_conv)
  have shown: "browse_entry st e = Some (l, r) \<longleftrightarrow>
      parse_listing (ae_payload e) = Some l \<and> (\<exists>own. resolve_app_name st (dl_name l) = Some own \<and> an_app_id own = dl_app_id l
        \<and> r = \<lparr>rn_name = dl_name l, rn_record = own, rn_delisted = is_delisted st (dl_app_id l)\<rparr>)" for e l r
    by (auto simp: browse_entry_def resolve_def split: bind_splits if_splits)
  show ?thesis
    by (auto simp: browse_def set_map_filter kept shown)
qed

text \<open>
  Delisting reaches the entries that name the application they list as a reference, as \<open>announce\<close> makes them. An
  entry that lists an application and references nothing stays valid when the application is
  delisted and is shown, marked as delisted.
\<close>

lemma unreferenced_listing_survives:
  assumes "is_member st (ae_publisher e)" and "ae_verify_signature C e = Inr ()" and "ae_references e = None"
  shows "ae_validate C e (st\<lparr>gs_delisted := bs_insert app (gs_delisted st)\<rparr>) = Inr ()"
  using assms by (simp add: ae_validate_def validate_entry_context_def is_member_def)

lemma announced_listing_withdrawn:
  "is_delisted st (dl_app_id l) \<Longrightarrow> ae_validate C (announce_listing C l publisher network) st \<noteq> Inr ()"
  by (auto simp: ae_validate_def validate_entry_context_def announce_listing_def ae_create_def res_bind_Inr_iff)

text \<open>Registering the capabilities gives them the tiers that keep reassignment and approval from everybody.\<close>

lemma registered_tiers:
  "extension_tier (register_capabilities p) register_app_name = Some Ordinary"
  "extension_tier (register_capabilities p) reclaim_app_name = Some Governance"
  "extension_tier (register_capabilities p) approve_app_publish = Some Governance"
  by (simp_all add: extension_tier_def register_capabilities_def register_app_name_def reclaim_app_name_def
      approve_app_publish_def)

lemma hosting_after_registration:
  "''app-bundle'' \<in> set (content_type_allowlist p) \<Longrightarrow>
     supports_app_hosting (st\<lparr>gs_policy := register_capabilities p\<rparr>) = Inr ()"
  using registered_tiers [of p]
  by (simp add: supports_app_hosting_def policy_allows_content_type_def register_capabilities_def)

section \<open>Manifests are signed whole\<close>

lemma am_create_verifies: "sign_correct C \<Longrightarrow> am_verify C (am_create C publisher app name descr v entry requested) = Inr ()"
  by (simp add: am_verify_def am_create_def payload_of_am_def vk_verify_def pni_sign_def pni_id_def sign_correct_def)

text \<open>What the signature covers determines the manifest: no field can be exchanged under it.\<close>

lemma requested_tag_inj: "inj requested_tag"
proof (rule injI)
  fix a b
  assume "requested_tag a = requested_tag b"
  then show "a = b"
    by (cases a; cases b) simp_all
qed

lemmas tags = codec_seq [OF u8.codec_axioms, of "\<lambda>e. e"]

definition manifest_ok :: "app_manifest \<Rightarrow> bool" where
  "manifest_ok m \<longleftrightarrow>
     str_ok (am_name m) \<and> str_ok (am_description m) \<and> str_ok (am_entry_point m) \<and> len_ok (am_requested m)"

lemma manifest_payload_binds:
  assumes "manifest_ok m" and "manifest_ok m'" and "payload_of_am m = payload_of_am m'" and "am_signature m = am_signature m'"
  shows "m = m'"
proof -
  have "seq_ok (\<lambda>_. True) (map requested_tag (am_requested m))" "seq_ok (\<lambda>_. True) (map requested_tag (am_requested m'))"
    using assms(1,2) by (simp_all add: manifest_ok_def seq_ok_def len_ok_def list_all_iff)
  note seq = codec.put_cancel [OF tags this]
  have "am_app_id m = am_app_id m' \<and> am_name m = am_name m' \<and> am_description m = am_description m' \<and> am_version m = am_version m'
      \<and> am_entry_point m = am_entry_point m' \<and> map requested_tag (am_requested m) = map requested_tag (am_requested m')
      \<and> am_publisher m = am_publisher m'"
    using assms(1-3)
    by (simp add: payload_of_am_def am_payload_def manifest_ok_def put_seq_map fixed32.put_cancel str.put_cancel
        u64.put_cancel u64.put_inj seq fixed32.put_inj)
  then show ?thesis
    using assms(4) by (simp add: map_injective [OF _ requested_tag_inj] inj_map_eq_map [OF requested_tag_inj])
qed

section \<open>Every version is reviewed\<close>

datatype review_event = Submit pending_publish | Approve b32 u64 b32 governance_state

fun review_step :: "review_event \<Rightarrow> review_queue \<Rightarrow> review_queue" where
  "review_step (Submit publish) Q = review_submit Q publish"
| "review_step (Approve app v approver st) Q =
     (case review_approve Q app v approver st of Inl _ \<Rightarrow> Q | Inr Q' \<Rightarrow> Q')"

definition review_run :: "review_event list \<Rightarrow> review_queue" where
  "review_run evs = fold review_step evs review_new"

lemma approved_step:
  "set (rq_approved (review_step ev Q)) = set (rq_approved Q) \<union>
     {(app, v). \<exists>approver st. ev = Approve app v approver st \<and> identity_holds st approver (Extension approve_app_publish)}"
  by (cases ev) (auto simp: review_submit_def review_approve_def)

text \<open>
  Review cannot be bypassed by an update. Under reviewed publishing a version of an application is served
  exactly when that very version was approved by somebody who held the capability in the state the
  approval was checked against; approvals of other versions, submissions and refused approvals change
  nothing.
\<close>

theorem reviewed_per_version:
  "is_servable (review_run evs) app v ReviewedPublishing \<longleftrightarrow>
     (\<exists>approver st. Approve app v approver st \<in> set evs \<and> identity_holds st approver (Extension approve_app_publish))"
proof -
  have "set (rq_approved (fold review_step evs Q)) = set (rq_approved Q) \<union>
      {(app, v). \<exists>approver st. Approve app v approver st \<in> set evs
         \<and> identity_holds st approver (Extension approve_app_publish)}" for Q
    by (induction evs arbitrary: Q) (auto simp: approved_step)
  then show ?thesis
    by (simp add: is_servable_def review_run_def review_new_def)
qed

text \<open>
  Approval does not ask whether the version is pending: one can be approved before it exists, and the
  version that is submitted later under its number is listed for review and served at once.
\<close>

lemma approval_before_submission:
  "is_servable (review_run [Approve 300 2 1 sample_state, Submit \<lparr>pp_app_id = 300, pp_version = 2, pp_publisher = 3\<rparr>]) 300 2
     ReviewedPublishing
   \<and> review_pending (review_run [Approve 300 2 1 sample_state, Submit \<lparr>pp_app_id = 300, pp_version = 2, pp_publisher = 3\<rparr>]) =
       [\<lparr>pp_app_id = 300, pp_version = 2, pp_publisher = 3\<rparr>]"
  by (simp add: review_run_def review_new_def review_approve_def review_submit_def is_servable_def review_pending_def
      identity_holds_def sample_state_def bm_values_def group_contains_def bm_contains_def bm_remove_def)

end
