(* ===== verification/Spec2Isabelle.thy ===== *)
theory Spec2Isabelle
  imports Replay Consensus Protocol Contribution Metering Admission Content Durability Publishing Fetching
    Ballot_Node Tip Framing Rekey Calls Broadcast Hosting
begin

text \<open>
  A model of the distributed intranet, a peer-to-peer network of communities written in Rust, and
  the properties that make it correct. The sources are the crates under src/crates; file names below
  are relative to the crate that is named.

  \<^bold>\<open>The program.\<close> A network is founded by a signed genesis entry and governed by a log of signed entries
  that every member replicates. From the log a node derives who is a member, which group holds which
  capability, what the policy is and which votes are open (\<open>intranet-governance\<close>). Members keep
  encrypted, content-addressed objects, announce them by signed pointers and fetch them from each other
  (\<open>intranet-storage\<close>), advertise the capacity they contribute (\<open>intranet-ledger\<close>), invite newcomers
  (\<open>intranet-invite\<close>) and share a sequence of epoch keys that rotates when the membership changes
  (\<open>intranet-epoch\<close>); they hold calls and watch broadcasts
  (\<open>intranet-realtime\<close>) and publish applications under names (\<open>intranet-app\<close>). \<open>intranet-transport\<close> ties these together: its node handles the messages of the
  network, one arm of an event loop per protocol, over the canonical encoding of \<open>intranet-crypto\<close> and
  the identities of \<open>intranet-identity\<close>.

  \<^bold>\<open>The theories.\<close> A component is a theory of definitions, in the order of the code, with the lemmas
  about them; the properties of a group of components are in a theory of their own.

  \<^item> \<open>Prelude\<close>: the sorted sets and maps of Rust's standard library as sorted lists (\<open>bs_\<close> and \<open>bm_\<close>
    operations), results as sums, the collections of facts the other theories share.
  \<^item> \<open>Codec\<close> (intranet-crypto: enc.rs, dec.rs): the encoder as functions into byte lists, the decoder as
    readers. The locales \<open>codec\<close>, \<open>checked_codec\<close> and \<open>exact_codec\<close> are the contract between the two, and
    every message of the program is an interpretation of one of them. \<open>Utf8\<close> adds what is needed of
    character boundaries.
  \<^item> \<open>Crypto\<close>, \<open>Identity\<close> (hash.rs, sign.rs, time.rs; seed.rs, device.rs, linking.rs): Merkle trees,
    signatures, clock arithmetic, derivation paths, device certificates, ownership proofs.
  \<^item> \<open>Governance_Base\<close>, \<open>Vote\<close>, \<open>Entry\<close>, \<open>State\<close>, \<open>Log\<close>, \<open>Wire\<close> (intranet-governance): capabilities,
    policies and groups; proposals, ballots and certificates; entries; authorization, mutation and
    replay; the log with fork choice, finality and reconciliation; the wire format.
  \<^item> \<open>Window\<close>, \<open>Ledger\<close> (intranet-ledger): advertisements, gossip, placement, audits.
  \<^item> \<open>Limits\<close> (intranet-transport: relay_limits.rs, media_limits.rs, direct_limits.rs).
  \<^item> \<open>Invite\<close> (intranet-invite, and the join handlers of node.rs).
  \<^item> \<open>Object\<close>, \<open>Fetch\<close>, \<open>Replication\<close>, \<open>Pointer\<close>, \<open>Storage_Wire\<close> (intranet-storage): chunking, sealing
    and manifests; fetch plans; replication; pointers, wrappings and collections; their messages.
  \<^item> \<open>Framing\<close> (intranet-transport: sync.rs): how a message crosses a stream, with the ceiling of its type,
    the bounded read and the decoder. The locales \<open>wire_message\<close> and \<open>exact_wire_message\<close> say when a message
    arrives as it was sent and that a cut one is refused; they are interpreted for the requests and
    responses of the log, of pointers, of chunks and of epoch keys.
  \<^item> \<open>Content_Node\<close>, \<open>Sync_Node\<close>, \<open>Ballot_Node\<close>, \<open>Epoch_Node\<close> (node.rs): the handlers for content, log
    synchronization, ballots, and epoch keys, each over a record with the fields of the node it uses.
  \<^item> \<open>Epoch\<close>, \<open>Session\<close> (intranet-epoch): the keyring, key delivery and the sealing of history; the
    group session over the calls it makes into the MLS crate.
  \<^item> \<open>Hosting\<close> (intranet-app): the name registry, its index, manifests and the review of versions.
  \<^item> \<open>Realtime\<close> (intranet-realtime): call sessions, the choice of a relay, call keys and frames, live
    streams and recordings, the messages. \<open>Calls\<close> adds the signalling and media handlers of node.rs.

  \<^bold>\<open>What is proved.\<close>

  \<^item> \<open>Replay\<close>: capabilities and tiers are enforced by replay: the group of everybody stays below its
    ceiling, membership and gated changes are authorized, removals cascade exactly, revocation is
    permanent, passed votes are backed by a quorum. The locale \<open>log_invariant\<close> turns a property that
    each applied entry keeps into one of every replayed state, and is interpreted once per invariant.
  \<^item> \<open>Consensus\<close>: the log is a tree whatever order it arrives in, fork choice is optimal and independent
    of arrival, finality is justified and never undone. Every walk of the log is given a number of steps
    (\<open>log_fuel\<close>, one more than the entries the log holds), shown to be enough for every log that
    insertions and reconciliations can produce.
  \<^item> \<open>Protocol\<close>: encodings are unambiguous, entries are read back exactly, what decodes was signed.
  \<^item> \<open>Tip\<close>: an entry appended at the tip of an unrivalled log takes effect; one of a stranger, which
    insertion accepts, keeps the log from replaying.
  \<^item> \<open>Sync_Node\<close>: one exchange brings a node up to date, two, carried over the wire, heal a partition of
    logs that fit into a message, and where the exchange is cut it can stall. \<open>Ballot_Node\<close>: collected ballots assemble into certificates that verify, one
    exchange collects what a peer holds.
  \<^item> \<open>Contribution\<close>, \<open>Metering\<close>, \<open>Admission\<close>: gossip converges, replicas are ranked by score; the ceilings of
    relays, media and messages hold in every run; who can be waiting and which invites are accepted.
  \<^item> \<open>Content\<close>, \<open>Durability\<close>: objects decode to what was encoded, appending equals encoding afresh; a fetch
    ends and keeps to its budget, a repair goes exactly where placement says.
  \<^item> \<open>Merge\<close>, \<open>Publishing\<close>, \<open>Fetching\<close>: the records a node keeps implement the abstract map of the newest
    publishable record per pointer, where newest is the greatest version and then the least hash, independent
    of order (the locale \<open>best_record\<close> in \<open>Merge\<close>); a round over the wire catches up with a peer; reads are
    gated; a running fetch always waits for something that is outstanding; stored chunks are authentic.
  \<^item> \<open>Keying\<close>, \<open>Rekey\<close>: which keys a reconciliation keeps and which is current; members that follow the log
    of a member that rotates, and whose leaf no commit vacates, derive its keys; a joiner whose request
    and answer fit the ceilings of the wire is in the epoch of the member that answered, with its history where the policy grants
    it; a group survives a restart.
  \<^item> \<open>Calls\<close>, \<open>Broadcast\<close>: an invitation delivers the call key, a relayed frame reaches and opens at every
    participant and nobody else is sent one, concurrent proposals settle on the one that arrived first,
    the relay chosen has the least worst latency; a live window holds the newest chunks, recordings are
    complete. \<open>Hosting\<close>: the parser of listings accepts exactly what the
    encoder writes, the index cannot contradict the state, names change hands only with the power to
    reassign them, every version is reviewed.

  Theorems that state a defect are part of the development: each describes what the code does where a
  comment or the intention of the code says otherwise.

  \<^bold>\<open>Parameters and what is relied on.\<close> Third-party code is a parameter with documented behaviour as a
  named hypothesis, shown to be satisfiable by a concrete instance in the witnesses: \<open>crypto\<close> (BLAKE3,
  Ed25519; \<open>sign_correct\<close>, absence of the hash collisions in question), \<open>sealing\<close> (XChaCha20-Poly1305 and
  FastCDC; \<open>aead_correct\<close>, \<open>cdc_partitions\<close>, \<open>cdc_settles\<close>), \<open>slip10\<close>, \<open>swarm\<close> (libp2p peer and request
  identifiers; \<open>swarm_ok\<close>), the key agreement of two identities (\<open>agree_symmetric\<close>), and \<open>openmls\<close>
  (\<open>mls_follows\<close> and \<open>mls_welcomes\<close>, which speak of the leaf of a member, and \<open>mls_stores\<close>). Integers have their width: \<open>u64\<close> and \<open>i64\<close> are words
  and wrap or saturate as the code does, and \<open>usize\<close> is a natural number where it counts elements.

  \<^bold>\<open>Not modelled.\<close> The connection management of the node (listening, dialling, relay reservation, hole
  punching, timers) is the libp2p event loop with its own state machines outside the repository; of the
  request-response behaviours only the framing is modelled. A message is written and read in one step:
  a stream that breaks is a message that does not arrive. \<open>intranet-search\<close> rests on the
  Unicode tables of the standard library.
  \<open>intranet-harness\<close> is a command line for tests. Random generation, mnemonics and password handling are
  third-party code.
\<close>

end
